(* ===== verification/Prelude.thy ===== *)
theory Prelude
  imports Main "HOL-Library.Word"
begin

text \<open>
  Shared vocabulary of the development: fixed-width integers, the monotonic clock of
  \<^verbatim>\<open>std::time\<close>, the sorted-vector operations behind \<^verbatim>\<open>binary_search\<close>, the iteration
  order of hash containers, and the lemma collections that the component theories fill.
  Nothing in this theory models a line of the program itself.
\<close>

named_theorems model_defs \<open>definitions that component proofs unfold together\<close>
named_theorems inv_intros \<open>operations that keep a component's invariant\<close>

section \<open>Machine integers\<close>

type_synonym u8 = "8 word"
type_synonym u32 = "32 word"
type_synonym u64 = "64 word"

text \<open>\<^verbatim>\<open>u32::saturating_add(x, 1)\<close> and, for any width, the general form.\<close>

definition saturating_add :: "'a::len word \<Rightarrow> 'a word \<Rightarrow> 'a word" where
  "saturating_add x y = (if unat x + unat y < 2 ^ LENGTH('a) then x + y else - 1)"

definition saturating_sub :: "nat \<Rightarrow> nat \<Rightarrow> nat" where
  "saturating_sub x y = x - y"

lemma unat_max_word: "unat (- 1 :: 'a::len word) = 2 ^ LENGTH('a) - 1"
  by (simp add: unat_eq_nat_uint uint_word_ariths nat_mod_distrib nat_diff_distrib
      zmod_minus1 nat_power_eq)

lemma unat_saturating_add:
  "unat (saturating_add x y) = min (unat x + unat y) (2 ^ LENGTH('a) - 1)"
  for x y :: "'a::len word"
proof (cases "unat x + unat y < 2 ^ LENGTH('a)")
  case True
  then have "unat (x + y) = unat x + unat y" by (simp add: unat_add_lem)
  with True show ?thesis by (simp add: saturating_add_def)
next
  case False
  then show ?thesis by (simp add: saturating_add_def unat_max_word)
qed

lemma unat_inc_bounded:
  "unat x < n \<Longrightarrow> n < 2 ^ LENGTH('a) \<Longrightarrow> unat (x + 1) = Suc (unat x)"
  for x :: "'a::len word"
  by (simp add: unat_word_ariths)

section \<open>The monotonic clock\<close>

text \<open>
  A point of \<^verbatim>\<open>std::time::Instant\<close> is a number of nanoseconds on a clock whose origin is
  arbitrary, so it is an integer; a \<^verbatim>\<open>Duration\<close> is a number of nanoseconds.
  \<^verbatim>\<open>duration_since\<close> and \<^verbatim>\<open>elapsed\<close> saturate at zero when the other instant is later, which is
  what truncating to \<open>nat\<close> does.
\<close>

type_synonym instant = int
type_synonym duration = nat

definition from_secs :: "nat \<Rightarrow> duration" where
  "from_secs s = s * 1000000000"

definition duration_since :: "instant \<Rightarrow> instant \<Rightarrow> duration" where
  "duration_since now earlier = nat (now - earlier)"

lemma duration_since_mono: "t \<le> t' \<Longrightarrow> duration_since t s \<le> duration_since t' s"
  by (simp add: duration_since_def nat_mono)

lemma duration_since_ge_iff: "0 < d \<Longrightarrow> d \<le> duration_since t s \<longleftrightarrow> s + int d \<le> t"
  by (auto simp: duration_since_def)

lemma duration_since_add: "d \<le> duration_since (s + int d) s"
  by (simp add: duration_since_def)

section \<open>Iteration order of hash containers\<close>

text \<open>
  \<^verbatim>\<open>HashMap\<close>, \<^verbatim>\<open>HashSet\<close> and \<^verbatim>\<open>DashMap\<close> promise that iteration visits every element once and say
  nothing about the order. A model function that iterates takes the order as an argument,
  and the theorems hold for every order that keeps the promise.
\<close>

type_synonym 'a iter = "'a set \<Rightarrow> 'a list"

definition iter_ok :: "'a iter \<Rightarrow> bool" where
  "iter_ok it \<longleftrightarrow> (\<forall>S. finite S \<longrightarrow> set (it S) = S \<and> distinct (it S))"

lemma iter_ok_set [simp]: "iter_ok it \<Longrightarrow> finite S \<Longrightarrow> set (it S) = S"
  by (simp add: iter_ok_def)

lemma iter_ok_distinct [simp]: "iter_ok it \<Longrightarrow> finite S \<Longrightarrow> distinct (it S)"
  by (simp add: iter_ok_def)

lemma iter_ok_sorted: "iter_ok (sorted_list_of_set :: 'a::linorder iter)"
  by (simp add: iter_ok_def)

text \<open>\<open>entry(k).or_default()\<close> followed by a change of the value.\<close>

definition map_entry :: "'v \<Rightarrow> 'k \<Rightarrow> ('v \<Rightarrow> 'v) \<Rightarrow> ('k \<rightharpoonup> 'v) \<Rightarrow> ('k \<rightharpoonup> 'v)" where
  "map_entry d k f m = m(k \<mapsto> f (case m k of None \<Rightarrow> d | Some v \<Rightarrow> v))"

lemma map_entry_same [simp]:
  "map_entry d k f m k = Some (f (case m k of None \<Rightarrow> d | Some v \<Rightarrow> v))"
  by (simp add: map_entry_def)

lemma map_entry_other [simp]: "k' \<noteq> k \<Longrightarrow> map_entry d k f m k' = m k'"
  by (simp add: map_entry_def)

lemma dom_map_entry [simp]: "dom (map_entry d k f m) = insert k (dom m)"
  by (simp add: map_entry_def)

section \<open>First occurrences\<close>

text \<open>The elements of a list in the order of their first occurrence.\<close>

fun first_occurrences :: "'a list \<Rightarrow> 'a list" where
  "first_occurrences [] = []"
| "first_occurrences (x # xs) = x # filter (\<lambda>y. y \<noteq> x) (first_occurrences xs)"

lemma set_first_occurrences [simp]: "set (first_occurrences xs) = set xs"
  by (induction xs) auto

lemma distinct_first_occurrences [simp]: "distinct (first_occurrences xs)"
  by (induction xs) auto

section \<open>Sorted vectors\<close>

text \<open>
  A strictly sorted vector searched with \<^verbatim>\<open>binary_search\<close>: \<open>Ok(pos)\<close> exactly when the
  element is present, \<open>Err(pos)\<close> with the insertion point otherwise. On a strictly sorted
  vector both positions are the number of smaller elements.
\<close>

definition lower_bound :: "'a::linorder \<Rightarrow> 'a list \<Rightarrow> nat" where
  "lower_bound x xs = length (takeWhile (\<lambda>y. y < x) xs)"

definition binary_search :: "'a::linorder \<Rightarrow> 'a list \<Rightarrow> nat + nat" where
  "binary_search x xs =
     (let p = lower_bound x xs
      in if p < length xs \<and> xs ! p = x then Inr p else Inl p)"

definition insert_at :: "nat \<Rightarrow> 'a \<Rightarrow> 'a list \<Rightarrow> 'a list" where
  "insert_at p x xs = take p xs @ x # drop p xs"

definition remove_at :: "nat \<Rightarrow> 'a list \<Rightarrow> 'a list" where
  "remove_at p xs = take p xs @ drop (Suc p) xs"

lemma lower_bound_le: "lower_bound x xs \<le> length xs"
  by (simp add: lower_bound_def length_takeWhile_le)

lemma take_lower_bound: "take (lower_bound x xs) xs = takeWhile (\<lambda>y. y < x) xs"
  by (metis lower_bound_def takeWhile_eq_take)

lemma drop_lower_bound: "drop (lower_bound x xs) xs = dropWhile (\<lambda>y. y < x) xs"
  by (metis lower_bound_def dropWhile_eq_drop)

lemma sorted_wrt_dropWhile_ge:
  "sorted_wrt (<) xs \<Longrightarrow> y \<in> set (dropWhile (\<lambda>y. y < x) xs) \<Longrightarrow> x \<le> (y::'a::linorder)"
  by (induction xs) (force split: if_splits)+

lemma binary_search_Inr:
  "binary_search x xs = Inr p \<Longrightarrow> p < length xs \<and> xs ! p = x"
  by (auto simp: binary_search_def Let_def split: if_splits)

lemma binary_search_found_iff:
  assumes "sorted_wrt (<) xs"
  shows "(\<exists>p. binary_search x xs = Inr p) \<longleftrightarrow> x \<in> set xs"
proof
  assume "\<exists>p. binary_search x xs = Inr p"
  then show "x \<in> set xs" by (metis binary_search_Inr nth_mem)
next
  assume x: "x \<in> set xs"
  let ?d = "dropWhile (\<lambda>y. y < x) xs"
  have "x \<notin> set (takeWhile (\<lambda>y. y < x) xs)" by (auto dest: set_takeWhileD)
  with x have xd: "x \<in> set ?d" by (metis UnE set_append takeWhile_dropWhile_id)
  then obtain z zs where d: "?d = z # zs" by (cases ?d) auto
  have "z = x"
  proof (rule ccontr)
    assume "z \<noteq> x"
    with d have "x < z" using hd_dropWhile [of "\<lambda>y. y < x" xs] by auto
    have "sorted_wrt (<) ?d" using assms by (simp add: sorted_wrt_dropWhile)
    with d \<open>x < z\<close> have "x \<notin> set ?d" by auto
    with xd show False by simp
  qed
  have "lower_bound x xs < length xs"
    using d by (metis drop_lower_bound drop_all leI list.discI)
  moreover have "xs ! lower_bound x xs = x"
    using d \<open>z = x\<close> by (metis calculation drop_lower_bound hd_drop_conv_nth list.sel(1))
  ultimately show "\<exists>p. binary_search x xs = Inr p" by (simp add: binary_search_def)
qed

lemma binary_search_Inl:
  "sorted_wrt (<) xs \<Longrightarrow> binary_search x xs = Inl p \<Longrightarrow> x \<notin> set xs \<and> p = lower_bound x xs"
  using binary_search_found_iff [of xs x]
  by (auto simp: binary_search_def Let_def split: if_splits)

section \<open>Machines driven by a sequence of events\<close>

text \<open>
  The contract that the stateful components share: an operation per event, and an invariant
  that every operation keeps. The client's view is a run over any list of events.
\<close>

locale invariant_machine =
  fixes step :: "'s \<Rightarrow> 'e \<Rightarrow> 's"
    and inv :: "'s \<Rightarrow> bool"
  assumes step_inv: "inv s \<Longrightarrow> inv (step s e)"
begin

lemma run_inv: "inv s \<Longrightarrow> inv (foldl step s es)"
  by (induction es arbitrary: s) (auto intro: step_inv)

end

text \<open>
  A machine whose states abstract to the states of a simpler one, step by step; then whole
  runs abstract to runs.
\<close>

locale refined_machine = invariant_machine step inv
  for step :: "'s \<Rightarrow> 'e \<Rightarrow> 's" and inv :: "'s \<Rightarrow> bool" +
  fixes abs :: "'s \<Rightarrow> 'a"
    and astep :: "'a \<Rightarrow> 'e \<Rightarrow> 'a"
  assumes abs_step: "inv s \<Longrightarrow> abs (step s e) = astep (abs s) e"
begin

lemma run_refines: "inv s \<Longrightarrow> abs (foldl step s es) = foldl astep (abs s) es"
  by (induction es arbitrary: s) (auto simp: abs_step step_inv)

end

end
