(* ===== verification/Circuit_Breaker.thy ===== *)
theory Circuit_Breaker
  imports Prelude
begin

text \<open>
  The circuit breaker of \<^verbatim>\<open>crates/infra/cce-circuit-breaker/src/lib.rs\<close>: its three states, the
  counters it keeps (\<^verbatim>\<open>u32\<close>, incremented as the code does: saturating for failures, wrapping
  in a release build for successes), the guard \<^verbatim>\<open>try_acquire\<close>, the two recording
  operations and \<^verbatim>\<open>execute\<close>. Reading the clock is an argument \<open>now\<close>. The second half
  states the textbook breaker and proves that the code refines it.
\<close>

section \<open>State\<close>

text \<open>The metrics counters are \<^verbatim>\<open>AtomicU64\<close>: \<^verbatim>\<open>fetch_add\<close> wraps.\<close>

record CircuitBreakerMetrics =
  state_changes_total :: u64
  rejections_total :: u64
  successes_total :: u64
  failures_total :: u64

definition metrics_new :: CircuitBreakerMetrics where
  "metrics_new = \<lparr>state_changes_total = 0, rejections_total = 0, successes_total = 0,
     failures_total = 0\<rparr>"

definition record_state_change :: "CircuitBreakerMetrics \<Rightarrow> CircuitBreakerMetrics" where
  "record_state_change m = m\<lparr>state_changes_total := state_changes_total m + 1\<rparr>"

definition record_rejection :: "CircuitBreakerMetrics \<Rightarrow> CircuitBreakerMetrics" where
  "record_rejection m = m\<lparr>rejections_total := rejections_total m + 1\<rparr>"

definition metrics_record_success :: "CircuitBreakerMetrics \<Rightarrow> CircuitBreakerMetrics" where
  "metrics_record_success m = m\<lparr>successes_total := successes_total m + 1\<rparr>"

definition metrics_record_failure :: "CircuitBreakerMetrics \<Rightarrow> CircuitBreakerMetrics" where
  "metrics_record_failure m = m\<lparr>failures_total := failures_total m + 1\<rparr>"

datatype CircuitState = Closed | Open | HalfOpen

record CircuitBreaker =
  failure_threshold :: u32
  success_threshold :: u32
  cb_timeout :: duration
  cb_state :: CircuitState
  failure_count :: u32
  success_count :: u32
  last_failure :: "instant option"
  cb_metrics :: "CircuitBreakerMetrics option"

section \<open>Operations\<close>

definition cb_new :: "u32 \<Rightarrow> duration \<Rightarrow> CircuitBreaker" where
  "cb_new threshold to =
     \<lparr>failure_threshold = threshold, success_threshold = 2, cb_timeout = to,
      cb_state = Closed, failure_count = 0, success_count = 0, last_failure = None,
      cb_metrics = None\<rparr>"

definition with_metrics :: "CircuitBreakerMetrics \<Rightarrow> CircuitBreaker \<Rightarrow> CircuitBreaker" where
  "with_metrics m b = b\<lparr>cb_metrics := Some m\<rparr>"

definition transition_to :: "CircuitState \<Rightarrow> CircuitBreaker \<Rightarrow> CircuitBreaker" where
  "transition_to new_state b =
     (if cb_state b \<noteq> new_state then
        let b = b\<lparr>cb_metrics := map_option record_state_change (cb_metrics b)\<rparr>;
            b = b\<lparr>cb_state := new_state\<rparr>
        in if new_state = HalfOpen then b\<lparr>success_count := 0\<rparr> else b
      else b)"

text \<open>The error type is the caller's; \<open>circuit_open\<close> is its trait constructor.\<close>

definition try_acquire ::
    "(string \<Rightarrow> 'e) \<Rightarrow> instant \<Rightarrow> CircuitBreaker \<Rightarrow> CircuitBreaker \<times> ('e + unit)" where
  "try_acquire circuit_open now b =
     (case cb_state b of
        Open \<Rightarrow>
          (case last_failure b of
             Some failed_at \<Rightarrow>
               if cb_timeout b \<le> duration_since now failed_at
               then (transition_to HalfOpen b, Inr ())
               else (b\<lparr>cb_metrics := map_option record_rejection (cb_metrics b)\<rparr>,
                     Inl (circuit_open ''Circuit breaker is open''))
           | None \<Rightarrow> (b, Inr ()))
      | HalfOpen \<Rightarrow> (b, Inr ())
      | Closed \<Rightarrow> (b, Inr ()))"

definition on_success :: "CircuitBreaker \<Rightarrow> CircuitBreaker" where
  "on_success b =
     (let b = (case cb_state b of
          HalfOpen \<Rightarrow>
            let b = b\<lparr>success_count := success_count b + 1\<rparr>
            in if success_threshold b \<le> success_count b
               then (transition_to Closed b)\<lparr>failure_count := 0\<rparr>
               else b
        | Closed \<Rightarrow> (if 0 < failure_count b then b\<lparr>failure_count := 0\<rparr> else b)
        | Open \<Rightarrow> b)
      in b\<lparr>cb_metrics := map_option metrics_record_success (cb_metrics b)\<rparr>)"

definition on_failure :: "instant \<Rightarrow> CircuitBreaker \<Rightarrow> CircuitBreaker" where
  "on_failure now b =
     (let b = b\<lparr>failure_count := saturating_add (failure_count b) 1\<rparr>;
          b = b\<lparr>last_failure := Some now\<rparr>;
          b = (if cb_state b = HalfOpen \<or> failure_threshold b \<le> failure_count b
               then transition_to Open b else b)
      in b\<lparr>cb_metrics := map_option metrics_record_failure (cb_metrics b)\<rparr>)"

text \<open>
  \<^verbatim>\<open>execute\<close> runs the guard, then the future \<open>f\<close>, then records its outcome; the clock is read
  at the guard and again when a failure is recorded.
\<close>

definition execute ::
    "(string \<Rightarrow> 'e) \<Rightarrow> instant \<Rightarrow> instant \<Rightarrow> (unit \<Rightarrow> 'e + 't) \<Rightarrow> CircuitBreaker \<Rightarrow>
     CircuitBreaker \<times> ('e + 't)" where
  "execute circuit_open now now' f b =
     (case try_acquire circuit_open now b of
        (b, Inl e) \<Rightarrow> (b, Inl e)
      | (b, Inr _) \<Rightarrow>
          (case f () of
             Inr r \<Rightarrow> (on_success b, Inr r)
           | Inl e \<Rightarrow> (on_failure now' b, Inl e)))"

definition state_name :: "CircuitBreaker \<Rightarrow> string" where
  "state_name b = (case cb_state b of
     Closed \<Rightarrow> ''closed'' | Open \<Rightarrow> ''open'' | HalfOpen \<Rightarrow> ''half-open'')"

definition is_open :: "CircuitBreaker \<Rightarrow> bool" where
  "is_open b \<longleftrightarrow> cb_state b = Open"

lemmas cb_defs [model_defs] =
  transition_to_def try_acquire_def on_success_def on_failure_def Let_def

section \<open>Invariant\<close>

text \<open>
  An open breaker remembers when it failed (so the guard can always expire), a half-open
  one has not yet seen enough successes, and a closed one is below its failure threshold.
\<close>

definition cb_inv :: "CircuitBreaker \<Rightarrow> bool" where
  "cb_inv b \<longleftrightarrow>
     success_threshold b = 2 \<and>
     (cb_state b = Open \<longrightarrow> last_failure b \<noteq> None) \<and>
     (cb_state b = HalfOpen \<longrightarrow> success_count b < success_threshold b) \<and>
     (cb_state b = Closed \<longrightarrow> failure_count b = 0 \<or> failure_count b < failure_threshold b)"

datatype cb_event = Acquire instant | Succeeded | Failed instant

fun cb_step :: "CircuitBreaker \<Rightarrow> cb_event \<Rightarrow> CircuitBreaker" where
  "cb_step b (Acquire now) = fst (try_acquire (\<lambda>_. ()) now b)"
| "cb_step b Succeeded = on_success b"
| "cb_step b (Failed now) = on_failure now b"

lemma cb_inv_new: "cb_inv (cb_new n to)"
  by (simp add: cb_inv_def cb_new_def)

lemma cb_inv_try_acquire [inv_intros]:
  "cb_inv b \<Longrightarrow> cb_inv (fst (try_acquire mk now b))"
  by (auto simp: cb_inv_def cb_defs split: CircuitState.splits option.splits)

lemma cb_inv_on_success [inv_intros]: "cb_inv b \<Longrightarrow> cb_inv (on_success b)"
  by (auto simp: cb_inv_def cb_defs not_le split: CircuitState.splits)

lemma cb_inv_on_failure [inv_intros]: "cb_inv b \<Longrightarrow> cb_inv (on_failure now b)"
  by (auto simp: cb_inv_def cb_defs not_le split: CircuitState.splits)

lemma cb_inv_step: "cb_inv b \<Longrightarrow> cb_inv (cb_step b e)"
  by (cases e) (auto intro: inv_intros)

section \<open>The textbook breaker\<close>

text \<open>
  The specification has no dead counters: a closed breaker counts consecutive failures, an
  open one holds the time of the last failure, a half-open one counts successes.
\<close>

datatype mode = AClosed nat | AOpen instant | AHalf nat

record spec =
  a_threshold :: nat
  a_timeout :: duration
  a_mode :: mode

fun spec_step :: "spec \<Rightarrow> cb_event \<Rightarrow> spec" where
  "spec_step s (Acquire now) =
     (case a_mode s of
        AOpen t \<Rightarrow> if a_timeout s \<le> duration_since now t then s\<lparr>a_mode := AHalf 0\<rparr> else s
      | _ \<Rightarrow> s)"
| "spec_step s Succeeded =
     (case a_mode s of
        AHalf k \<Rightarrow> s\<lparr>a_mode := (if k = 0 then AHalf 1 else AClosed 0)\<rparr>
      | AClosed _ \<Rightarrow> s\<lparr>a_mode := AClosed 0\<rparr>
      | AOpen _ \<Rightarrow> s)"
| "spec_step s (Failed now) =
     (case a_mode s of
        AClosed k \<Rightarrow> s\<lparr>a_mode := (if a_threshold s \<le> Suc k then AOpen now else AClosed (Suc k))\<rparr>
      | _ \<Rightarrow> s\<lparr>a_mode := AOpen now\<rparr>)"

definition cb_abs :: "CircuitBreaker \<Rightarrow> spec" where
  "cb_abs b =
     \<lparr>a_threshold = unat (failure_threshold b), a_timeout = cb_timeout b,
      a_mode = (case cb_state b of
         Closed \<Rightarrow> AClosed (unat (failure_count b))
       | Open \<Rightarrow> AOpen (the (last_failure b))
       | HalfOpen \<Rightarrow> AHalf (unat (success_count b)))\<rparr>"

lemma closed_failure_count:
  assumes "cb_inv b" and "cb_state b = Closed"
  shows "unat (saturating_add (failure_count b) 1) = Suc (unat (failure_count b))"
proof -
  have "unat (failure_count b) < 2 ^ 32 - 1"
  proof (cases "failure_count b = 0")
    case False
    with assms have "failure_count b < failure_threshold b" by (auto simp: cb_inv_def)
    then have "unat (failure_count b) < unat (failure_threshold b)" by (simp add: word_less_nat_alt)
    moreover have "unat (failure_threshold b) < 2 ^ 32" using unsigned_less [of "failure_threshold b"] by simp
    ultimately show ?thesis by linarith
  qed simp
  then show ?thesis by (simp add: unat_saturating_add)
qed

lemma half_open_success_count:
  assumes "cb_inv b" and "cb_state b = HalfOpen"
  shows "success_count b = 0 \<or> success_count b = 1"
proof -
  from assms have "success_count b < 2" by (auto simp: cb_inv_def)
  then have "unat (success_count b) < 2" by (simp add: word_less_nat_alt)
  then have "unat (success_count b) = 0 \<or> unat (success_count b) = 1" by linarith
  then show ?thesis by (auto simp: word_unat_eq_iff)
qed

lemma abs_Acquire: "cb_inv b \<Longrightarrow> cb_abs (cb_step b (Acquire now)) = spec_step (cb_abs b) (Acquire now)"
  by (auto simp: cb_abs_def cb_inv_def cb_defs split: CircuitState.splits option.splits)

lemma abs_Succeeded: "cb_inv b \<Longrightarrow> cb_abs (cb_step b Succeeded) = spec_step (cb_abs b) Succeeded"
proof (cases "cb_state b")
  case HalfOpen
  assume "cb_inv b"
  then have "success_threshold b = 2" and "success_count b = 0 \<or> success_count b = 1"
    using half_open_success_count [OF _ HalfOpen] by (auto simp: cb_inv_def)
  with HalfOpen show ?thesis by (auto simp: cb_abs_def cb_defs word_le_nat_alt)
qed (auto simp: cb_abs_def cb_inv_def cb_defs word_less_nat_alt)

lemma abs_Failed: "cb_inv b \<Longrightarrow> cb_abs (cb_step b (Failed now)) = spec_step (cb_abs b) (Failed now)"
proof (cases "cb_state b")
  case Closed
  assume "cb_inv b"
  with Closed closed_failure_count [of b] show ?thesis
    by (simp add: cb_abs_def cb_defs word_le_nat_alt)
qed (auto simp: cb_abs_def cb_defs)

lemma abs_cb_step: "cb_inv b \<Longrightarrow> cb_abs (cb_step b e) = spec_step (cb_abs b) e"
  by (cases e) (simp_all add: abs_Acquire abs_Succeeded abs_Failed del: cb_step.simps spec_step.simps)

interpretation breaker: refined_machine cb_step cb_inv cb_abs spec_step
  by unfold_locales (auto intro: cb_inv_step simp: abs_cb_step)

section \<open>Properties\<close>


lemma spec_failures:
  "foldl spec_step \<lparr>a_threshold = n, a_timeout = to, a_mode = AClosed 0\<rparr> (map Failed ts) =
   \<lparr>a_threshold = n, a_timeout = to,
    a_mode = (if ts \<noteq> [] \<and> n \<le> length ts then AOpen (last ts) else AClosed (length ts))\<rparr>"
proof (induction ts rule: rev_induct)
  case (snoc t ts)
  then show ?case by (cases "ts = []") auto
qed simp

lemma is_open_abs: "is_open b \<longleftrightarrow> (\<exists>t. a_mode (cb_abs b) = AOpen t)"
  by (simp add: is_open_def cb_abs_def split: CircuitState.splits)

text \<open>
  A fresh breaker that sees only failures is open exactly when it has seen at least one
  failure and at least as many as its threshold: neither early nor late, for every
  \<^verbatim>\<open>u32\<close> threshold including zero.
\<close>

theorem breaker_opens_at_threshold:
  "is_open (foldl (\<lambda>b t. on_failure t b) (cb_new n to) ts) \<longleftrightarrow> ts \<noteq> [] \<and> unat n \<le> length ts"
proof -
  have run: "foldl (\<lambda>b t. on_failure t b) b ts = foldl cb_step b (map Failed ts)" for b
    by (induction ts arbitrary: b) auto
  have "cb_abs (foldl cb_step (cb_new n to) (map Failed ts)) =
      foldl spec_step (cb_abs (cb_new n to)) (map Failed ts)"
    by (rule breaker.run_refines [OF cb_inv_new])
  also have "cb_abs (cb_new n to) = \<lparr>a_threshold = unat n, a_timeout = to, a_mode = AClosed 0\<rparr>"
    by (simp add: cb_abs_def cb_new_def)
  finally show ?thesis by (simp add: run is_open_abs spec_failures)
qed

text \<open>
  An open breaker whose recovery timeout has not elapsed fails fast: \<^verbatim>\<open>execute\<close> returns
  the rejection whatever the operation would have returned, and changes nothing but the
  rejection counter.
\<close>

theorem open_breaker_rejects:
  assumes "cb_inv b" and "is_open b" and "duration_since now (the (last_failure b)) < cb_timeout b"
  shows "execute mk now now' f b =
    (b\<lparr>cb_metrics := map_option record_rejection (cb_metrics b)\<rparr>, Inl (mk ''Circuit breaker is open''))"
  using assms by (auto simp: execute_def try_acquire_def is_open_def cb_inv_def)

theorem open_breaker_rejects_witness:
  "execute (\<lambda>m. m) 5 6 (\<lambda>_. Inr (7::nat)) (on_failure 0 (cb_new 1 10)) =
    (on_failure 0 (cb_new 1 10), Inl ''Circuit breaker is open'')"
  using open_breaker_rejects [of "on_failure 0 (cb_new 1 10)" 5 "\<lambda>m. m" 6 "\<lambda>_. Inr (7::nat)"]
  by (simp add: cb_inv_on_failure cb_inv_new)
    (simp add: is_open_def cb_defs cb_new_def saturating_add_def duration_since_def)

lemma second_success_closes:
  "cb_state b = HalfOpen \<Longrightarrow> success_count b = 1 \<Longrightarrow> success_threshold b = 2 \<Longrightarrow>
   cb_state (on_success b) = Closed \<and> failure_count (on_success b) = 0"
  by (simp add: cb_defs)

text \<open>
  Recovery. Once the timeout has elapsed, an open breaker lets a probe through; after
  two successful executions it is closed again with its failure count cleared, and no
  success in between is lost.
\<close>

theorem breaker_recovers:
  assumes "cb_inv b" and "is_open b" and "cb_timeout b \<le> duration_since now (the (last_failure b))"
  shows "\<exists>b1 b2. execute mk now t1 (\<lambda>_. Inr r1) b = (b1, Inr r1) \<and> cb_state b1 = HalfOpen \<and>
     execute mk now' t2 (\<lambda>_. Inr r2) b1 = (b2, Inr r2) \<and> cb_state b2 = Closed \<and>
     failure_count b2 = 0"
proof -
  let ?b1 = "on_success (transition_to HalfOpen b)"
  from assms have e1: "execute mk now t1 (\<lambda>_. Inr r1) b = (?b1, Inr r1)"
    by (auto simp: execute_def try_acquire_def is_open_def cb_inv_def)
  from assms have s1: "cb_state ?b1 = HalfOpen" "success_count ?b1 = 1" "success_threshold ?b1 = 2"
    by (auto simp: cb_defs is_open_def cb_inv_def word_le_nat_alt)
  then have "execute mk now' t2 (\<lambda>_. Inr r2) ?b1 = (on_success ?b1, Inr r2)"
    by (simp add: execute_def try_acquire_def)
  moreover from s1 have "cb_state (on_success ?b1) = Closed \<and> failure_count (on_success ?b1) = 0"
    by (rule second_success_closes)
  ultimately show ?thesis using e1 s1 by blast
qed

theorem breaker_recovers_witness:
  "\<exists>b1 b2. execute (\<lambda>m. m) 10 11 (\<lambda>_. Inr True) (on_failure 0 (cb_new 1 10)) = (b1, Inr True) \<and>
     cb_state b1 = HalfOpen \<and> execute (\<lambda>m. m) 12 13 (\<lambda>_. Inr False) b1 = (b2, Inr False) \<and>
     cb_state b2 = Closed \<and> failure_count b2 = 0"
  by (rule breaker_recovers)
    (simp_all add: cb_inv_on_failure cb_inv_new,
     simp_all add: is_open_def cb_defs cb_new_def saturating_add_def duration_since_def)

text \<open>Any failure while half-open reopens the breaker and restarts its timeout.\<close>

theorem half_open_failure_reopens:
  assumes "cb_state b = HalfOpen"
  shows "is_open (on_failure now b) \<and> last_failure (on_failure now b) = Some now \<and>
    (duration_since t now < cb_timeout b \<longrightarrow>
       snd (try_acquire mk t (on_failure now b)) = Inl (mk ''Circuit breaker is open''))"
  using assms by (simp add: is_open_def cb_defs)

theorem half_open_failure_reopens_witness:
  "is_open (on_failure 20 (fst (try_acquire (\<lambda>m. m) 10 (on_failure 0 (cb_new 1 10)))))"
  using half_open_failure_reopens
    [of "fst (try_acquire (\<lambda>m. m) 10 (on_failure 0 (cb_new 1 10)))" 20 21 "\<lambda>m. m"]
  by (simp add: cb_defs cb_new_def saturating_add_def duration_since_def)

end
