(* ===== verification/Debounce.thy ===== *)
theory Debounce
  imports Prelude
begin

text \<open>
  The global debounce timer of \<^verbatim>\<open>hot_update/debounce.rs\<close>, which decides when accumulated file
  changes start a hot-update operation: the configuration and its builder, the state behind
  the \<^verbatim>\<open>RwLock\<close>, and every operation of \<^verbatim>\<open>GlobalDebounce\<close>. Each operation is one critical
  section; the clock reading inside it is the argument \<open>now\<close>. \<^verbatim>\<open>DebounceInfo\<close> and
  \<^verbatim>\<open>HotUpdateState\<close> of \<^verbatim>\<open>hot_update/state.rs\<close>, the runtime records that report it, are here too.
\<close>

section \<open>Configuration\<close>

record DebounceConfig =
  pending_interval :: duration
  max_wait_time :: duration

definition DebounceConfig_default :: DebounceConfig where
  "DebounceConfig_default = \<lparr>pending_interval = from_secs 30, max_wait_time = from_secs 300\<rparr>"

definition DebounceConfig_new :: "nat \<Rightarrow> nat \<Rightarrow> DebounceConfig" where
  "DebounceConfig_new pending_secs max_secs =
     \<lparr>pending_interval = from_secs pending_secs, max_wait_time = from_secs max_secs\<rparr>"

definition with_pending_interval :: "nat \<Rightarrow> DebounceConfig \<Rightarrow> DebounceConfig" where
  "with_pending_interval secs c = c\<lparr>pending_interval := from_secs secs\<rparr>"

definition with_max_wait_time :: "nat \<Rightarrow> DebounceConfig \<Rightarrow> DebounceConfig" where
  "with_max_wait_time secs c = c\<lparr>max_wait_time := from_secs secs\<rparr>"

record DebounceConfigBuilder =
  b_pending_interval :: "nat option"
  b_max_wait_time :: "nat option"

definition builder_new :: DebounceConfigBuilder where
  "builder_new = \<lparr>b_pending_interval = None, b_max_wait_time = None\<rparr>"

definition builder_pending_interval :: "nat \<Rightarrow> DebounceConfigBuilder \<Rightarrow> DebounceConfigBuilder" where
  "builder_pending_interval secs b = b\<lparr>b_pending_interval := Some secs\<rparr>"

definition builder_max_wait_time :: "nat \<Rightarrow> DebounceConfigBuilder \<Rightarrow> DebounceConfigBuilder" where
  "builder_max_wait_time secs b = b\<lparr>b_max_wait_time := Some secs\<rparr>"

definition builder_build :: "DebounceConfigBuilder \<Rightarrow> DebounceConfig" where
  "builder_build b =
     (let c = DebounceConfig_default;
          c = (case b_pending_interval b of Some secs \<Rightarrow> c\<lparr>pending_interval := from_secs secs\<rparr> | None \<Rightarrow> c);
          c = (case b_max_wait_time b of Some secs \<Rightarrow> c\<lparr>max_wait_time := from_secs secs\<rparr> | None \<Rightarrow> c)
      in c)"

section \<open>State and operations\<close>

record DebounceState =
  last_trigger :: instant
  has_pending_changes :: bool
  pending_since :: "instant option"
  db_config :: DebounceConfig
  is_first_check :: bool

definition DebounceState_new :: "instant \<Rightarrow> DebounceConfig \<Rightarrow> DebounceState" where
  "DebounceState_new now c =
     \<lparr>last_trigger = now, has_pending_changes = False, pending_since = None,
      db_config = c, is_first_check = True\<rparr>"

definition db_reset :: "instant \<Rightarrow> DebounceState \<Rightarrow> DebounceState" where
  "db_reset now s = s\<lparr>last_trigger := now, has_pending_changes := False, pending_since := None\<rparr>"

definition mark_changes :: "instant \<Rightarrow> DebounceState \<Rightarrow> DebounceState" where
  "mark_changes now s =
     (let s = s\<lparr>has_pending_changes := True\<rparr>
      in if pending_since s = None then s\<lparr>pending_since := Some now\<rparr> else s)"

text \<open>The slow path: the whole check under the write lock.\<close>

definition should_update :: "instant \<Rightarrow> bool \<Rightarrow> bool \<Rightarrow> DebounceState \<Rightarrow> DebounceState \<times> bool" where
  "should_update now cache_miss force s =
     (if force then (db_reset now s, True)
      else
        let first = is_first_check s;
            s = s\<lparr>is_first_check := False\<rparr>
        in if first \<and> cache_miss then (db_reset now s, True)
           else
             let s = (if cache_miss then mark_changes now s else s)
             in if \<not> has_pending_changes s then (s, False)
                else
                  let elapsed = duration_since now (last_trigger s)
                  in if (case pending_since s of
                           Some p \<Rightarrow> max_wait_time (db_config s) \<le> duration_since now p
                         | None \<Rightarrow> False)
                     then (db_reset now s, True)
                     else if pending_interval (db_config s) \<le> elapsed
                     then (db_reset now s, True)
                     else (s, False))"

definition time_until_next :: "instant \<Rightarrow> DebounceState \<Rightarrow> duration" where
  "time_until_next now s =
     (if \<not> has_pending_changes s then from_secs (2 ^ 64 - 1)
      else
        let elapsed = duration_since now (last_trigger s)
        in if pending_interval (db_config s) \<le> elapsed then from_secs 0
           else pending_interval (db_config s) - elapsed)"

text \<open>
  \<^verbatim>\<open>GlobalDebounce::should_update\<close>: a check under the read lock at \<open>now\<close> that may answer
  \<open>false\<close> at once, then the slow path under the write lock at \<open>now'\<close>.
\<close>

definition fast_path_rejects :: "instant \<Rightarrow> bool \<Rightarrow> bool \<Rightarrow> DebounceState \<Rightarrow> bool" where
  "fast_path_rejects now cache_miss force s \<longleftrightarrow>
     \<not> force \<and> \<not> cache_miss \<and>
     (\<not> has_pending_changes s \<or>
      (duration_since now (last_trigger s) < pending_interval (db_config s) \<and>
       (case pending_since s of
          Some p \<Rightarrow> duration_since now p < max_wait_time (db_config s)
        | None \<Rightarrow> True)))"

definition global_should_update ::
    "instant \<Rightarrow> instant \<Rightarrow> bool \<Rightarrow> bool \<Rightarrow> DebounceState \<Rightarrow> DebounceState \<times> bool" where
  "global_should_update now now' cache_miss force s =
     (if fast_path_rejects now cache_miss force s then (s, False)
      else should_update now' cache_miss force s)"

text \<open>
  \<^verbatim>\<open>force_next\<close> moves the last trigger before the pending interval. Subtracting a duration
  from an instant stays on the clock's integer line.
\<close>

definition force_next :: "instant \<Rightarrow> DebounceState \<Rightarrow> DebounceState" where
  "force_next now s =
     s\<lparr>last_trigger := now - int (pending_interval (db_config s)) - int (from_secs 1)\<rparr>"

definition should_process :: "instant \<Rightarrow> DebounceState \<Rightarrow> DebounceState \<times> bool" where
  "should_process now s =
     (if \<not> has_pending_changes s then (s, False)
      else case pending_since s of
        None \<Rightarrow> (s, False)
      | Some p \<Rightarrow>
          let d = duration_since now p
          in if pending_interval (db_config s) \<le> d \<or> max_wait_time (db_config s) \<le> d
             then (db_reset now s, True) else (s, False))"

definition set_config :: "DebounceConfig \<Rightarrow> DebounceState \<Rightarrow> DebounceState" where
  "set_config c s = s\<lparr>db_config := c\<rparr>"

text \<open>\<^verbatim>\<open>wait_for_next\<close> returns at once or sleeps; the result is the instant it resumes.\<close>

definition wait_for_next :: "instant \<Rightarrow> DebounceState \<Rightarrow> instant" where
  "wait_for_next now s =
     (let d = time_until_next now s in if from_secs 0 < d then now + int d else now)"

section \<open>Reported state\<close>

datatype HotUpdateMode = PeriodicScan | FileWatch

record DebounceInfo =
  info_has_pending_changes :: bool
  info_time_until_next :: duration
  info_config :: DebounceConfig

definition DebounceInfo_new :: "DebounceConfig \<Rightarrow> DebounceInfo" where
  "DebounceInfo_new c = \<lparr>info_has_pending_changes = False,
     info_time_until_next = pending_interval c, info_config = c\<rparr>"

definition DebounceInfo_with_pending :: "DebounceConfig \<Rightarrow> DebounceInfo" where
  "DebounceInfo_with_pending c = \<lparr>info_has_pending_changes = True,
     info_time_until_next = pending_interval c, info_config = c\<rparr>"

record HotUpdateState =
  is_active :: bool
  files_processed :: nat
  changes_detected :: nat
  last_update :: "instant option"

definition HotUpdateState_new :: HotUpdateState where
  "HotUpdateState_new = \<lparr>is_active = False, files_processed = 0, changes_detected = 0, last_update = None\<rparr>"

definition activate :: "HotUpdateState \<Rightarrow> HotUpdateState" where
  "activate s = s\<lparr>is_active := True\<rparr>"

definition deactivate :: "instant \<Rightarrow> HotUpdateState \<Rightarrow> HotUpdateState" where
  "deactivate now s = s\<lparr>is_active := False, last_update := Some now\<rparr>"

definition record_file :: "HotUpdateState \<Rightarrow> HotUpdateState" where
  "record_file s = s\<lparr>files_processed := files_processed s + 1\<rparr>"

definition record_change :: "HotUpdateState \<Rightarrow> HotUpdateState" where
  "record_change s = s\<lparr>changes_detected := changes_detected s + 1\<rparr>"

definition reset_counters :: "HotUpdateState \<Rightarrow> HotUpdateState" where
  "reset_counters s = s\<lparr>files_processed := 0, changes_detected := 0\<rparr>"

section \<open>Invariant\<close>

text \<open>The pending flag and the time of the first pending change agree.\<close>

definition db_inv :: "DebounceState \<Rightarrow> bool" where
  "db_inv s \<longleftrightarrow> (has_pending_changes s \<longleftrightarrow> pending_since s \<noteq> None)"

datatype db_event =
    Check instant instant bool bool | Mark instant | Process instant
  | ForceNext instant | Reset instant | SetConfig DebounceConfig

fun db_step :: "DebounceState \<Rightarrow> db_event \<Rightarrow> DebounceState" where
  "db_step s (Check now now' miss force) = fst (global_should_update now now' miss force s)"
| "db_step s (Mark now) = mark_changes now s"
| "db_step s (Process now) = fst (should_process now s)"
| "db_step s (ForceNext now) = force_next now s"
| "db_step s (Reset now) = db_reset now s"
| "db_step s (SetConfig c) = set_config c s"

lemmas db_defs [model_defs] =
  db_reset_def mark_changes_def should_update_def global_should_update_def
  should_process_def force_next_def set_config_def Let_def

lemma db_inv_new: "db_inv (DebounceState_new now c)"
  by (simp add: db_inv_def DebounceState_new_def)

lemma db_inv_should_update [inv_intros]: "db_inv s \<Longrightarrow> db_inv (fst (should_update now m f s))"
  by (auto simp: db_inv_def db_defs split: option.splits)

lemma db_inv_step: "db_inv s \<Longrightarrow> db_inv (db_step s e)"
  by (cases e) (auto simp: global_should_update_def inv_intros,
    auto simp: db_inv_def db_defs split: option.splits)

interpretation debounce: invariant_machine db_step db_inv
  by unfold_locales (rule db_inv_step)

lemma pending_sinceE:
  assumes "db_inv s" and "has_pending_changes s"
  obtains p where "pending_since s = Some p"
  using assms by (auto simp: db_inv_def)

section \<open>Properties\<close>

text \<open>
  The read-locked fast path of \<^verbatim>\<open>GlobalDebounce::should_update\<close> is an optimisation only:
  it answers as the full check under the write lock would, and leaves the same state but
  for the startup flag, which the fast path does not clear.
\<close>

theorem fast_path_equiv:
  "snd (global_should_update now now miss force s) = snd (should_update now miss force s) \<and>
   (fst (global_should_update now now miss force s))\<lparr>is_first_check := False\<rparr> =
   (fst (should_update now miss force s))\<lparr>is_first_check := False\<rparr>"
  by (auto simp: fast_path_rejects_def db_defs split: option.splits)

text \<open>
  A change never waits longer than \<^verbatim>\<open>max_wait_time\<close>: once the first pending change is
  that old, both checks trigger and clear the pending state, whatever their arguments.
\<close>

theorem max_wait_bounds_delay:
  assumes "db_inv s" and "pending_since s = Some p"
    and "p + int (max_wait_time (db_config s)) \<le> now" and "now \<le> now'"
  shows "snd (global_should_update now now' miss force s) \<and> snd (should_process now s) \<and>
    \<not> has_pending_changes (fst (global_should_update now now' miss force s)) \<and>
    \<not> has_pending_changes (fst (should_process now s))"
proof -
  have d: "max_wait_time (db_config s) \<le> duration_since t p" if "now \<le> t" for t
    using assms(3) that by (simp add: duration_since_def)
  from assms(1,2) have "has_pending_changes s" by (simp add: db_inv_def)
  then show ?thesis
    using assms(2) d [of now] d [OF assms(4)] by (auto simp: fast_path_rejects_def db_defs)
qed

theorem max_wait_bounds_delay_witness:
  "snd (global_should_update 300 301 False False (mark_changes 0 (DebounceState_new 0
     \<lparr>pending_interval = 400, max_wait_time = 300\<rparr>)))"
  using max_wait_bounds_delay [of "mark_changes 0 (DebounceState_new 0
     \<lparr>pending_interval = 400, max_wait_time = 300\<rparr>)" 0 300 301 False False]
  by (simp add: db_inv_def mark_changes_def DebounceState_new_def)

text \<open>
  \<^verbatim>\<open>wait_for_next\<close> wakes up at the right time: with a change pending, the check made when
  the sleep ends triggers, and no check strictly before that triggers unless it is forced,
  is the startup check with a cache miss, or the maximum wait has been reached.
\<close>

theorem wait_for_next_exact:
  assumes "db_inv s" and "has_pending_changes s" and "last_trigger s \<le> now"
  shows "snd (should_update (wait_for_next now s) miss force s) \<and>
    (\<forall>t. now \<le> t \<and> t < wait_for_next now s \<and> snd (should_update t miss force s) \<longrightarrow>
      force \<or> is_first_check s \<and> miss \<or>
      max_wait_time (db_config s) \<le> duration_since t (the (pending_since s)))"
proof (intro conjI allI impI)
  obtain p where p: "pending_since s = Some p" using assms(1,2) by (rule pending_sinceE)
  let ?w = "wait_for_next now s"
  have "pending_interval (db_config s) \<le> duration_since ?w (last_trigger s)"
    using assms(2,3) by (auto simp: wait_for_next_def time_until_next_def from_secs_def
        duration_since_def Let_def)
  then show "snd (should_update ?w miss force s)"
    using assms(2) p by (auto simp: db_defs)
  fix t assume t: "now \<le> t \<and> t < ?w \<and> snd (should_update t miss force s)"
  then have "duration_since t (last_trigger s) < pending_interval (db_config s)"
    using assms(2,3) by (auto simp: wait_for_next_def time_until_next_def from_secs_def
        duration_since_def Let_def split: if_splits)
  with t assms(2) p show "force \<or> is_first_check s \<and> miss \<or>
      max_wait_time (db_config s) \<le> duration_since t (the (pending_since s))"
    by (auto simp: db_defs split: if_splits)
qed

theorem wait_for_next_exact_witness:
  "wait_for_next 5 (mark_changes 3 (DebounceState_new 0 \<lparr>pending_interval = 30, max_wait_time = 300\<rparr>)) = 30 \<and>
   snd (should_update 30 False False
     (mark_changes 3 (DebounceState_new 0 \<lparr>pending_interval = 30, max_wait_time = 300\<rparr>)))"
proof -
  let ?s = "mark_changes 3 (DebounceState_new 0 \<lparr>pending_interval = 30, max_wait_time = 300\<rparr>)"
  have "wait_for_next 5 ?s = 30"
    by (simp add: wait_for_next_def time_until_next_def mark_changes_def DebounceState_new_def
        duration_since_def from_secs_def)
  moreover have "snd (should_update (wait_for_next 5 ?s) False False ?s)"
    using wait_for_next_exact [of ?s 5 False False]
    by (simp add: db_inv_def mark_changes_def DebounceState_new_def)
  ultimately show ?thesis by simp
qed

text \<open>
  The event loop only marks changes and polls \<^verbatim>\<open>should_process\<close>. \<open>proc_run\<close> collects the
  instants at which a run of these two operations fires.
\<close>

datatype loop_event = LMark instant | LPoll instant

fun loop_time :: "loop_event \<Rightarrow> instant" where
  "loop_time (LMark t) = t"
| "loop_time (LPoll t) = t"

fun proc_run :: "DebounceState \<Rightarrow> loop_event list \<Rightarrow> instant list" where
  "proc_run s [] = []"
| "proc_run s (LMark t # es) = proc_run (mark_changes t s) es"
| "proc_run s (LPoll t # es) =
     (case should_process t s of
        (s', True) \<Rightarrow> t # proc_run s' es
      | (s', False) \<Rightarrow> proc_run s' es)"

definition db_gap :: "DebounceState \<Rightarrow> duration" where
  "db_gap s = min (pending_interval (db_config s)) (max_wait_time (db_config s))"

lemma should_process_fires:
  "should_process t s = (s', True) \<Longrightarrow>
   \<exists>p. pending_since s = Some p \<and> db_gap s \<le> duration_since t p \<and>
       pending_since s' = None \<and> db_gap s' = db_gap s"
  by (auto simp: db_defs db_gap_def split: if_splits option.splits)

lemma should_process_idle: "should_process t s = (s', False) \<Longrightarrow> s' = s"
  by (auto simp: db_defs split: if_splits option.splits)

lemma mark_changes_gap [simp]: "db_gap (mark_changes t s) = db_gap s"
  by (simp add: db_gap_def mark_changes_def Let_def)

lemma mark_changes_since:
  "pending_since (mark_changes t s) = Some p \<Longrightarrow> p = t \<or> pending_since s = Some p"
  by (auto simp: mark_changes_def Let_def split: if_splits)

lemma proc_run_first:
  assumes "sorted_wrt (\<le>) (t0 # map loop_time es)"
    and "\<And>p. pending_since s = Some p \<Longrightarrow> t0 \<le> p"
    and "t \<in> set (proc_run s es)"
  shows "t0 + int (db_gap s) \<le> t"
  using assms
proof (induction s es arbitrary: t0 rule: proc_run.induct)
  case (2 s u es)
  have "t0 \<le> p" if "pending_since (mark_changes u s) = Some p" for p
    using mark_changes_since [OF that] 2(2,3) by auto
  with 2(2,4) 2(1) [of t0] show ?case by simp
next
  case (3 s u es)
  obtain s' b where sp: "should_process u s = (s', b)" by fastforce
  show ?case
  proof (cases b)
    case False
    then show ?thesis using sp should_process_idle [of u s s'] 3(2) [of s' b t0] 3(3-5) by simp
  next
    case True
    with sp have "should_process u s = (s', True)" by simp
    from should_process_fires [OF this] obtain p where p: "pending_since s = Some p"
      "db_gap s \<le> duration_since u p" "pending_since s' = None" "db_gap s' = db_gap s" by blast
    have gap: "t0 + int (db_gap s) \<le> u"
      using p(2) 3(4) [OF p(1)] 3(3) duration_since_ge_iff [of "db_gap s" u p]
      by (cases "db_gap s = 0") auto
    from 3(5) True sp have "t = u \<or> t \<in> set (proc_run s' es)" by simp
    then show ?thesis
    proof
      assume "t \<in> set (proc_run s' es)"
      then have "u + int (db_gap s') \<le> t"
        using 3(1) [of s' b u] True sp p(3) 3(3) by simp
      with p(4) 3(3) show ?thesis by auto
    qed (use gap in simp)
  qed
qed simp

text \<open>
  Rate limit of the event loop. In any run of change marks and polls with a clock that
  does not go back, two batches are at least the pending interval (or the maximum wait, if
  that is shorter) apart, so a burst of events is forwarded as one batch.
\<close>

theorem batches_are_spaced:
  assumes "sorted_wrt (\<le>) (map loop_time es)"
  shows "sorted_wrt (\<lambda>t t'. t + int (db_gap s) \<le> t') (proc_run s es)"
  using assms
proof (induction s es rule: proc_run.induct)
  case (3 s u es)
  obtain s' b where sp: "should_process u s = (s', b)" by fastforce
  show ?case
  proof (cases b)
    case False
    then show ?thesis using sp should_process_idle [of u s s'] 3(2) [of s' b] 3(3) by simp
  next
    case True
    with sp have "should_process u s = (s', True)" by simp
    from should_process_fires [OF this] have p: "pending_since s' = None" "db_gap s' = db_gap s"
      by blast+
    have "u + int (db_gap s') \<le> t" if "t \<in> set (proc_run s' es)" for t
      using proc_run_first [of u es s' t] 3(3) p(1) that by simp
    with True sp 3(1) [of s' b] 3(3) p(2) show ?thesis by simp
  qed
qed simp_all

theorem batches_are_spaced_witness:
  "proc_run (DebounceState_new 0 \<lparr>pending_interval = 30, max_wait_time = 300\<rparr>)
     [LMark 1, LPoll 2, LMark 3, LPoll 31, LMark 32, LPoll 40, LPoll 62] = [31, 62] \<and>
   sorted_wrt (\<lambda>t t'. t + int (db_gap (DebounceState_new 0 \<lparr>pending_interval = 30, max_wait_time = 300\<rparr>)) \<le> t')
     (proc_run (DebounceState_new 0 \<lparr>pending_interval = 30, max_wait_time = 300\<rparr>)
     [LMark 1, LPoll 2, LMark 3, LPoll 31, LMark 32, LPoll 40, LPoll 62])"
proof
  let ?s = "DebounceState_new 0 \<lparr>pending_interval = 30, max_wait_time = 300\<rparr>"
  let ?es = "[LMark 1, LPoll 2, LMark 3, LPoll 31, LMark 32, LPoll 40, LPoll 62]"
  show "proc_run ?s ?es = [31, 62]"
    by (simp add: db_defs DebounceState_new_def duration_since_def)
  show "sorted_wrt (\<lambda>t t'. t + int (db_gap ?s) \<le> t') (proc_run ?s ?es)"
    by (rule batches_are_spaced) simp
qed

end
