(* ===== verification/Mode_Switch.thy ===== *)
theory Mode_Switch
  imports Debounce
begin

text \<open>
  The mode switch of \<^verbatim>\<open>hot_update/mode_switch.rs\<close>: a state machine that leaves file watching
  for periodic scanning under an event storm and comes back when the rate is low, and the
  poll \<^verbatim>\<open>check_and_update_mode\<close> of \<^verbatim>\<open>coordinator/change_merger.rs\<close> that drives it.
\<close>

section \<open>State and operations\<close>

record ModeSwitchConfig =
  storm_threshold :: nat
  storm_duration_secs :: nat
  recovery_threshold :: nat
  recovery_duration_secs :: nat
  degraded_scan_interval_secs :: nat

definition ModeSwitchConfig_default :: ModeSwitchConfig where
  "ModeSwitchConfig_default =
     \<lparr>storm_threshold = 100, storm_duration_secs = 10, recovery_threshold = 50,
      recovery_duration_secs = 30, degraded_scan_interval_secs = 30\<rparr>"

record ModeStateMachine =
  current_mode :: HotUpdateMode
  mode_since :: instant
  sm_config :: ModeSwitchConfig
  event_timestamps :: "instant list"
  window_size_secs :: nat
  storm_exceeded_since :: "instant option"
  recovery_below_since :: "instant option"

definition sm_new :: "instant \<Rightarrow> ModeSwitchConfig \<Rightarrow> ModeStateMachine" where
  "sm_new now c =
     \<lparr>current_mode = FileWatch, mode_since = now, sm_config = c, event_timestamps = [],
      window_size_secs = 1, storm_exceeded_since = None, recovery_below_since = None\<rparr>"

definition sm_new_default :: "instant \<Rightarrow> ModeStateMachine" where
  "sm_new_default now = sm_new now ModeSwitchConfig_default"

definition record_event_and_check_storm ::
    "instant \<Rightarrow> ModeStateMachine \<Rightarrow> ModeStateMachine \<times> bool" where
  "record_event_and_check_storm now m =
     (let m = m\<lparr>event_timestamps := event_timestamps m @ [now]\<rparr>;
          window_start = now - int (from_secs (window_size_secs m));
          m = m\<lparr>event_timestamps := filter (\<lambda>ts. window_start < ts) (event_timestamps m)\<rparr>
      in (m, storm_threshold (sm_config m) < length (event_timestamps m)))"

definition current_event_rate :: "ModeStateMachine \<Rightarrow> nat" where
  "current_event_rate m = length (event_timestamps m)"

definition should_degrade :: "instant \<Rightarrow> ModeStateMachine \<Rightarrow> ModeStateMachine \<times> bool" where
  "should_degrade now m =
     (if current_mode m \<noteq> FileWatch then (m, False)
      else if storm_threshold (sm_config m) < current_event_rate m then
        let m = (if storm_exceeded_since m = None
                 then m\<lparr>storm_exceeded_since := Some now\<rparr> else m)
        in case storm_exceeded_since m of
             Some since \<Rightarrow>
               (m, from_secs (storm_duration_secs (sm_config m)) \<le> duration_since now since)
           | None \<Rightarrow> (m, False)
      else (m\<lparr>storm_exceeded_since := None\<rparr>, False))"

definition should_recover :: "instant \<Rightarrow> nat \<Rightarrow> ModeStateMachine \<Rightarrow> ModeStateMachine \<times> bool" where
  "should_recover now event_rate m =
     (if current_mode m \<noteq> PeriodicScan then (m, False)
      else if event_rate < recovery_threshold (sm_config m) then
        let m = (if recovery_below_since m = None
                 then m\<lparr>recovery_below_since := Some now\<rparr> else m)
        in case recovery_below_since m of
             Some since \<Rightarrow>
               (m, from_secs (recovery_duration_secs (sm_config m)) \<le> duration_since now since)
           | None \<Rightarrow> (m, False)
      else (m\<lparr>recovery_below_since := None\<rparr>, False))"

definition switch_to_periodic_scan :: "instant \<Rightarrow> ModeStateMachine \<Rightarrow> ModeStateMachine" where
  "switch_to_periodic_scan now m =
     m\<lparr>current_mode := PeriodicScan, mode_since := now, storm_exceeded_since := None,
       recovery_below_since := None, event_timestamps := []\<rparr>"

definition switch_to_file_watch :: "instant \<Rightarrow> ModeStateMachine \<Rightarrow> ModeStateMachine" where
  "switch_to_file_watch now m =
     m\<lparr>current_mode := FileWatch, mode_since := now, storm_exceeded_since := None,
       recovery_below_since := None, event_timestamps := []\<rparr>"

definition time_in_mode :: "instant \<Rightarrow> ModeStateMachine \<Rightarrow> duration" where
  "time_in_mode now m = duration_since now (mode_since m)"

definition sm_reset :: "instant \<Rightarrow> ModeStateMachine \<Rightarrow> ModeStateMachine" where
  "sm_reset now m =
     m\<lparr>current_mode := FileWatch, mode_since := now, event_timestamps := [],
       storm_exceeded_since := None, recovery_below_since := None\<rparr>"

text \<open>
  The periodic poll, reduced to its effect on the state machine (starting and stopping the
  watcher and the scan task is asynchronous I/O). The clock is read by the check and again
  by the switch.
\<close>

definition check_and_update_mode :: "instant \<Rightarrow> instant \<Rightarrow> ModeStateMachine \<Rightarrow> ModeStateMachine" where
  "check_and_update_mode now now' m =
     (case current_mode m of
        FileWatch \<Rightarrow>
          (case should_degrade now m of
             (m, True) \<Rightarrow> switch_to_periodic_scan now' m
           | (m, False) \<Rightarrow> m)
      | PeriodicScan \<Rightarrow>
          (case should_recover now (current_event_rate m) m of
             (m, True) \<Rightarrow> switch_to_file_watch now' m
           | (m, False) \<Rightarrow> m))"

lemmas sm_defs [model_defs] =
  record_event_and_check_storm_def should_degrade_def should_recover_def
  switch_to_periodic_scan_def switch_to_file_watch_def sm_reset_def
  check_and_update_mode_def current_event_rate_def Let_def

section \<open>Invariant\<close>

text \<open>A storm is only tracked while watching, a recovery only while scanning.\<close>

definition sm_inv :: "ModeStateMachine \<Rightarrow> bool" where
  "sm_inv m \<longleftrightarrow>
     (storm_exceeded_since m \<noteq> None \<longrightarrow> current_mode m = FileWatch) \<and>
     (recovery_below_since m \<noteq> None \<longrightarrow> current_mode m = PeriodicScan)"

datatype sm_event = Event instant | Poll instant instant | ResetMode instant

fun sm_step :: "ModeStateMachine \<Rightarrow> sm_event \<Rightarrow> ModeStateMachine" where
  "sm_step m (Event now) = fst (record_event_and_check_storm now m)"
| "sm_step m (Poll now now') = check_and_update_mode now now' m"
| "sm_step m (ResetMode now) = sm_reset now m"

lemma sm_inv_new: "sm_inv (sm_new now c)"
  by (simp add: sm_inv_def sm_new_def)

lemma sm_inv_step: "sm_inv m \<Longrightarrow> sm_inv (sm_step m e)"
  by (cases e; cases "current_mode m")
    (auto simp: sm_inv_def sm_defs split: prod.splits bool.splits option.splits)

interpretation mode_switch: invariant_machine sm_step sm_inv
  by unfold_locales (rule sm_inv_step)

section \<open>Reference definition of the dwell time\<close>

text \<open>
  A poll sees a time and a rate. The storm began at the first poll of the unbroken suffix of
  polls that saw a rate above the threshold.
\<close>

definition storm_start :: "nat \<Rightarrow> (instant \<times> nat) list \<Rightarrow> instant option" where
  "storm_start threshold polls =
     (case takeWhile (\<lambda>(t, r). threshold < r) (rev polls) of
        [] \<Rightarrow> None
      | xs \<Rightarrow> Some (fst (last xs)))"

text \<open>\<open>watch_run\<close> runs events and degrade checks, with the polls seen so far.\<close>

datatype watch_event = WEvent instant | WCheck instant

fun watch_step ::
    "ModeStateMachine \<times> (instant \<times> nat) list \<Rightarrow> watch_event \<Rightarrow> ModeStateMachine \<times> (instant \<times> nat) list" where
  "watch_step (m, polls) (WEvent t) = (fst (record_event_and_check_storm t m), polls)"
| "watch_step (m, polls) (WCheck t) =
     (fst (should_degrade t m), polls @ [(t, current_event_rate m)])"

fun watch_inv :: "ModeSwitchConfig \<Rightarrow> ModeStateMachine \<times> (instant \<times> nat) list \<Rightarrow> bool" where
  "watch_inv c (m, polls) \<longleftrightarrow>
     current_mode m = FileWatch \<and> sm_config m = c \<and>
     storm_exceeded_since m = storm_start (storm_threshold c) polls"

lemma storm_start_snoc:
  "storm_start k (polls @ [(t, r)]) =
     (if k < r then (case storm_start k polls of None \<Rightarrow> Some t | Some s \<Rightarrow> Some s) else None)"
  by (auto simp: storm_start_def split: list.splits)

lemma watch_inv_step: "watch_inv c s \<Longrightarrow> watch_inv c (watch_step s e)"
  by (cases s; cases e) (auto simp: sm_defs storm_start_snoc split: option.splits)

interpretation storm_watch: invariant_machine watch_step "watch_inv c" for c
  by unfold_locales (rule watch_inv_step)

section \<open>Properties\<close>

text \<open>
  The degrade check implements its reference definition. After any interleaving of
  events and checks while watching, the next check asks for periodic scanning exactly when
  the unbroken suffix of checks that saw a rate above the threshold, this one included,
  started at least the storm duration ago.
\<close>

theorem should_degrade_dwell:
  assumes "foldl watch_step (sm_new t0 c, []) es = (m, polls)"
  shows "snd (should_degrade now m) \<longleftrightarrow>
    (\<exists>s. storm_start (storm_threshold c) (polls @ [(now, current_event_rate m)]) = Some s \<and>
         from_secs (storm_duration_secs c) \<le> duration_since now s)"
proof -
  have "watch_inv c (foldl watch_step (sm_new t0 c, []) es)"
    by (rule storm_watch.run_inv) (simp add: sm_new_def storm_start_def)
  with assms have "watch_inv c (m, polls)" by simp
  then show ?thesis
    by (auto simp: should_degrade_def storm_start_snoc Let_def split: option.splits)
qed

theorem should_degrade_dwell_witness:
  "snd (should_degrade 7 (fst (foldl watch_step
      (sm_new 0 \<lparr>storm_threshold = 0, storm_duration_secs = 0, recovery_threshold = 50,
        recovery_duration_secs = 30, degraded_scan_interval_secs = 30\<rparr>, []) [WEvent 1, WCheck 2])))"
proof -
  let ?c = "\<lparr>storm_threshold = 0, storm_duration_secs = 0, recovery_threshold = 50,
        recovery_duration_secs = 30, degraded_scan_interval_secs = 30\<rparr>"
  let ?r = "foldl watch_step (sm_new 0 ?c, []) [WEvent 1, WCheck 2]"
  have "?r = (fst ?r, snd ?r)" by simp
  from should_degrade_dwell [OF this, of 7] show ?thesis
    by (simp add: sm_defs sm_new_def storm_start_def from_secs_def)
qed

definition last_second :: "instant \<Rightarrow> instant list \<Rightarrow> instant list" where
  "last_second now ts = filter (\<lambda>t. now - int (from_secs 1) < t) ts"

lemma last_second_absorb:
  "u \<le> now \<Longrightarrow> last_second now (last_second u ts @ us) = last_second now (ts @ us)"
  by (auto simp: last_second_def intro!: filter_cong)

lemma record_event_eq:
  "window_size_secs m = 1 \<Longrightarrow>
   record_event_and_check_storm now m =
     (let w = last_second now (event_timestamps m @ [now])
      in (m\<lparr>event_timestamps := w\<rparr>, storm_threshold (sm_config m) < length w))"
  by (simp add: record_event_and_check_storm_def last_second_def Let_def)

text \<open>
  The sliding window. After events at non-decreasing times the window holds exactly the
  events of the last second, and the call reports a storm exactly when there are more of
  them than the threshold.
\<close>

theorem window_is_last_second:
  assumes "sorted (ts @ [now])"
  shows "record_event_and_check_storm now
      (foldl (\<lambda>m t. fst (record_event_and_check_storm t m)) (sm_new t0 c) ts) =
    ((sm_new t0 c)\<lparr>event_timestamps := last_second now (ts @ [now])\<rparr>,
     storm_threshold c < length (last_second now (ts @ [now])))"
  using assms
proof (induction ts arbitrary: now rule: rev_induct)
  case Nil
  show ?case by (simp add: record_event_eq sm_new_def Let_def)
next
  case (snoc u ts)
  then have su: "sorted (ts @ [u])" and un: "u \<le> now" by (auto simp: sorted_append)
  from snoc.IH [OF su] last_second_absorb [OF un, of "ts @ [u]" "[now]"] show ?case
    by (simp add: record_event_eq sm_new_def Let_def)
qed

theorem window_is_last_second_witness:
  "snd (record_event_and_check_storm 1500000000
      (foldl (\<lambda>m t. fst (record_event_and_check_storm t m)) (sm_new_default 0) [0, 400000000, 600000000])) = False"
  using window_is_last_second [of "[0, 400000000, 600000000]" 1500000000 0 ModeSwitchConfig_default]
  by (simp add: sm_new_default_def ModeSwitchConfig_default_def last_second_def from_secs_def)

text \<open>
  The window only shrinks when an event arrives, so the rate the poll reads does not
  decay with time: a burst of more events than the threshold within one second, followed by
  silence, still degrades to periodic scanning once the storm duration has passed between
  two polls, although the rate has been zero since.
\<close>

theorem silent_storm_degrades:
  assumes "current_mode m = FileWatch" and "storm_exceeded_since m = None"
    and "storm_threshold (sm_config m) < length (event_timestamps m)"
    and "0 < storm_duration_secs (sm_config m)"
    and "t1 + int (from_secs (storm_duration_secs (sm_config m))) \<le> t2"
  shows "current_mode (check_and_update_mode t2 t2 (check_and_update_mode t1 t1 m)) = PeriodicScan"
proof -
  have poll1: "check_and_update_mode t1 t1 m = m\<lparr>storm_exceeded_since := Some t1\<rparr>"
    using assms by (simp add: sm_defs duration_since_def from_secs_def)
  have "from_secs (storm_duration_secs (sm_config m)) \<le> duration_since t2 t1"
    using assms(5) by (simp add: duration_since_def)
  then show ?thesis using assms by (simp add: poll1, simp add: sm_defs)
qed

theorem silent_storm_degrades_witness:
  "current_mode (check_and_update_mode 10000000001 10000000001 (check_and_update_mode 1 1
     ((sm_new_default 0)\<lparr>event_timestamps := replicate 101 0\<rparr>))) = PeriodicScan"
  using silent_storm_degrades [of "(sm_new_default 0)\<lparr>event_timestamps := replicate 101 0\<rparr>" 1 10000000001]
  by (simp add: sm_new_default_def sm_new_def ModeSwitchConfig_default_def from_secs_def)

end
