(* ===== verification/Watch_Queue.thy ===== *)
theory Watch_Queue
  imports Prelude
begin

text \<open>
  The bounded queue of pending watch changes of \<^verbatim>\<open>hot_update/watch_change_queue.rs\<close>. Every
  operation holds the inner mutex, so it is one step; a path is any type with equality. The
  abstract view is what the next operation may rely on: a map from paths to the deletion
  flag of the last event, or nothing when a full rescan is due.
\<close>

section \<open>State and operations\<close>

record 'p WatchChangeQueue =
  entries :: "('p \<times> bool) list"
  capacity :: nat
  needs_full_rescan :: bool

definition DEFAULT_WATCH_CHANGE_CAPACITY :: nat where
  "DEFAULT_WATCH_CHANGE_CAPACITY = 4096"

definition wq_new :: "nat \<Rightarrow> 'p WatchChangeQueue" where
  "wq_new cap = \<lparr>entries = [], capacity = cap, needs_full_rescan = False\<rparr>"

definition with_default_capacity :: "'p WatchChangeQueue" where
  "with_default_capacity = wq_new DEFAULT_WATCH_CHANGE_CAPACITY"

text \<open>\<^verbatim>\<open>iter_mut().find\<close> updates the first entry with the path in place.\<close>

fun set_flag :: "'p \<Rightarrow> bool \<Rightarrow> ('p \<times> bool) list \<Rightarrow> ('p \<times> bool) list" where
  "set_flag p d [] = []"
| "set_flag p d ((q, f) # es) = (if q = p then (q, d) # es else (q, f) # set_flag p d es)"

definition insert_inner :: "'p \<Rightarrow> bool \<Rightarrow> 'p WatchChangeQueue \<Rightarrow> 'p WatchChangeQueue" where
  "insert_inner path is_deletion q =
     (if path \<in> fst ` set (entries q)
      then q\<lparr>entries := set_flag path is_deletion (entries q)\<rparr>
      else if capacity q \<le> length (entries q)
      then q\<lparr>needs_full_rescan := True\<rparr>
      else q\<lparr>entries := entries q @ [(path, is_deletion)]\<rparr>)"

definition wq_push :: "'p \<Rightarrow> bool \<Rightarrow> 'p WatchChangeQueue \<Rightarrow> 'p WatchChangeQueue" where
  "wq_push path is_deletion q =
     (if needs_full_rescan q then q else insert_inner path is_deletion q)"

definition wq_extend :: "('p \<times> bool) list \<Rightarrow> 'p WatchChangeQueue \<Rightarrow> 'p WatchChangeQueue" where
  "wq_extend incoming q =
     (if needs_full_rescan q then q
      else fold (\<lambda>(path, is_deletion) q. insert_inner path is_deletion q) incoming q)"

definition wq_take :: "'p WatchChangeQueue \<Rightarrow> 'p WatchChangeQueue \<times> ('p \<times> bool) list" where
  "wq_take q = (q\<lparr>needs_full_rescan := False, entries := []\<rparr>, entries q)"

definition mark_full_rescan :: "'p WatchChangeQueue \<Rightarrow> 'p WatchChangeQueue" where
  "mark_full_rescan q = q\<lparr>needs_full_rescan := True\<rparr>"

definition wq_len :: "'p WatchChangeQueue \<Rightarrow> nat" where
  "wq_len q = length (entries q)"

definition wq_is_empty :: "'p WatchChangeQueue \<Rightarrow> bool" where
  "wq_is_empty q \<longleftrightarrow> entries q = []"

definition wq_clear :: "'p WatchChangeQueue \<Rightarrow> 'p WatchChangeQueue" where
  "wq_clear q = q\<lparr>entries := []\<rparr>"

section \<open>Invariant and abstract view\<close>

definition wq_inv :: "'p WatchChangeQueue \<Rightarrow> bool" where
  "wq_inv q \<longleftrightarrow> distinct (map fst (entries q)) \<and> length (entries q) \<le> capacity q"

definition wq_abs :: "'p WatchChangeQueue \<Rightarrow> ('p \<rightharpoonup> bool) option" where
  "wq_abs q = (if needs_full_rescan q then None else Some (map_of (entries q)))"

lemma map_fst_set_flag [simp]: "map fst (set_flag p d es) = map fst es"
  by (induction es rule: set_flag.induct [of _ p d, case_names Nil Cons]) auto

lemma length_set_flag [simp]: "length (set_flag p d es) = length es"
  using map_fst_set_flag [of p d es] by (metis length_map)

lemma map_of_set_flag: "p \<in> fst ` set es \<Longrightarrow> map_of (set_flag p d es) = (map_of es)(p \<mapsto> d)"
  by (induction p d es rule: set_flag.induct) (auto simp: fun_eq_iff, force+)

lemma paths_set_flag [simp]: "fst ` set (set_flag p d es) = fst ` set es"
  by (metis list.set_map map_fst_set_flag)

lemma wq_inv_insert [inv_intros]: "wq_inv q \<Longrightarrow> wq_inv (insert_inner p d q)"
  by (auto simp: wq_inv_def insert_inner_def)

lemma capacity_insert [simp]: "capacity (insert_inner p d q) = capacity q"
  by (simp add: insert_inner_def)

lemma rescan_insert_mono: "needs_full_rescan q \<Longrightarrow> needs_full_rescan (insert_inner p d q)"
  by (simp add: insert_inner_def)

lemma insert_inner_abs:
  "\<not> needs_full_rescan (insert_inner p d q) \<Longrightarrow>
   map_of (entries (insert_inner p d q)) = (map_of (entries q))(p \<mapsto> d)"
  by (auto simp: insert_inner_def map_of_set_flag map_add_def fun_eq_iff
      split: if_splits option.splits dest: map_of_SomeD intro: rev_image_eqI)

lemma fold_insert_inv [inv_intros]:
  "wq_inv q \<Longrightarrow> wq_inv (fold (\<lambda>(p, d) q. insert_inner p d q) es q)"
  by (induction es arbitrary: q) (auto intro: inv_intros)

lemma fold_insert_rescan:
  "needs_full_rescan q \<Longrightarrow> needs_full_rescan (fold (\<lambda>(p, d) q. insert_inner p d q) es q)"
  by (induction es arbitrary: q) (auto simp: rescan_insert_mono)

lemma fold_insert_abs:
  "\<not> needs_full_rescan (fold (\<lambda>(p, d) q. insert_inner p d q) es q) \<Longrightarrow>
   map_of (entries (fold (\<lambda>(p, d) q. insert_inner p d q) es q)) =
   map_of (entries q) ++ map_of (rev es)"
proof (induction es arbitrary: q)
  case (Cons e es)
  obtain p d where e: "e = (p, d)" by (cases e)
  from Cons.prems have "\<not> needs_full_rescan (insert_inner p d q)"
    using fold_insert_rescan [of "insert_inner p d q" es] by (auto simp: e)
  then have "map_of (entries (insert_inner p d q)) = (map_of (entries q))(p \<mapsto> d)"
    by (rule insert_inner_abs)
  moreover have "m ++ map_of (rev (e # es)) = m(p \<mapsto> d) ++ map_of (rev es)" for m
    by (auto simp: e fun_eq_iff map_add_def split: option.splits)
  ultimately show ?case using Cons.IH [of "insert_inner p d q"] Cons.prems
    by (simp add: e fun_upd_def)
qed simp

datatype 'p wq_event = Push 'p bool | Extend "('p \<times> bool) list" | Take | MarkRescan | Clear

fun wq_step :: "'p WatchChangeQueue \<Rightarrow> 'p wq_event \<Rightarrow> 'p WatchChangeQueue" where
  "wq_step q (Push p d) = wq_push p d q"
| "wq_step q (Extend es) = wq_extend es q"
| "wq_step q Take = fst (wq_take q)"
| "wq_step q MarkRescan = mark_full_rescan q"
| "wq_step q Clear = wq_clear q"

lemma wq_inv_step: "wq_inv q \<Longrightarrow> wq_inv (wq_step q e)"
  by (cases e) (auto simp: wq_push_def wq_extend_def inv_intros,
    auto simp: wq_inv_def wq_take_def mark_full_rescan_def wq_clear_def)

interpretation watch_queue: invariant_machine wq_step wq_inv
  by unfold_locales (rule wq_inv_step)

section \<open>Properties\<close>

text \<open>
  In every reachable state of the queue the pending paths are distinct and there are at
  most \<^verbatim>\<open>capacity\<close> of them, whatever sequence of pushes, batches, drains, overflow marks and
  clears led to it.
\<close>

theorem watch_queue_bounded:
  "distinct (map fst (entries (foldl wq_step (wq_new cap) es))) \<and>
   wq_len (foldl wq_step (wq_new cap) es) \<le> cap"
proof -
  have cap: "capacity (foldl wq_step q es) = capacity q" for q :: "'a WatchChangeQueue"
  proof (induction es arbitrary: q)
    case (Cons e es)
    have "capacity (fold (\<lambda>(p, d) q. insert_inner p d q) xs q) = capacity q" for xs q
      by (induction xs arbitrary: q) auto
    then have "capacity (wq_step q e) = capacity q"
      by (cases e) (auto simp: wq_push_def wq_extend_def wq_take_def mark_full_rescan_def wq_clear_def)
    with Cons show ?case by simp
  qed simp
  have "wq_inv (foldl wq_step (wq_new cap) es)"
    by (rule watch_queue.run_inv) (simp add: wq_inv_def wq_new_def)
  with cap [of "wq_new cap"] show ?thesis by (simp add: wq_inv_def wq_len_def wq_new_def)
qed

text \<open>
  No event is lost silently. After a batch, either the queue demands a full rescan, or
  it holds for every path exactly the deletion flag of the last event for that path, from
  this batch or from before it.
\<close>

theorem extend_loses_nothing:
  "wq_abs (wq_extend incoming q) =
     (case wq_abs q of
        None \<Rightarrow> None
      | Some m \<Rightarrow> if needs_full_rescan (wq_extend incoming q) then None
                  else Some (m ++ map_of (rev incoming)))"
  by (auto simp: wq_abs_def wq_extend_def fold_insert_abs)

lemma fold_insert_overflow:
  assumes "wq_inv q"
  shows "needs_full_rescan (fold (\<lambda>(p, d) q. insert_inner p d q) es q) \<longleftrightarrow>
    needs_full_rescan q \<or> capacity q < card (fst ` set (entries q) \<union> fst ` set es)"
  using assms
proof (induction es arbitrary: q)
  case Nil
  then have "card (fst ` set (entries q)) \<le> capacity q"
    by (metis card_length length_map list.set_map order_trans wq_inv_def)
  then show ?case by simp
next
  case (Cons e es)
  obtain p d where e: "e = (p, d)" by (cases e)
  let ?q = "insert_inner p d q"
  have step: "needs_full_rescan (fold (\<lambda>(p, d) q. insert_inner p d q) es ?q) \<longleftrightarrow>
      needs_full_rescan ?q \<or> capacity q < card (fst ` set (entries ?q) \<union> fst ` set es)"
    using Cons.IH [of ?q] Cons.prems by (simp add: inv_intros)
  show ?case
  proof (cases "p \<in> fst ` set (entries q)")
    case True
    then have "fst ` set (entries ?q) = fst ` set (entries q)" "needs_full_rescan ?q = needs_full_rescan q"
      by (simp_all add: insert_inner_def)
    with True step show ?thesis by (simp add: e insert_absorb)
  next
    case new: False
    show ?thesis
    proof (cases "capacity q \<le> length (entries q)")
      case True
      have "card (fst ` set (entries q)) = length (entries q)"
        using Cons.prems by (metis distinct_card length_map list.set_map wq_inv_def)
      with True new have "capacity q < card (insert p (fst ` set (entries q)))" by simp
      also have "\<dots> \<le> card (fst ` set (entries q) \<union> fst ` set (e # es))"
        by (rule card_mono) (auto simp: e)
      finally show ?thesis using True new step by (simp add: e insert_inner_def)
    next
      case False
      with new step show ?thesis by (simp add: e insert_inner_def)
    qed
  qed
qed

text \<open>
  The queue only gives up on an event when it must: a batch demands a rescan exactly
  when one was already due or the distinct paths of the queue and the batch together exceed
  the capacity.
\<close>

theorem extend_overflow_iff:
  assumes "wq_inv q"
  shows "needs_full_rescan (wq_extend incoming q) \<longleftrightarrow>
    needs_full_rescan q \<or> capacity q < card (fst ` set (entries q) \<union> fst ` set incoming)"
  using fold_insert_overflow [OF assms] by (simp add: wq_extend_def)

theorem extend_overflow_iff_witness:
  "needs_full_rescan (wq_extend [(1::nat, False), (2, True), (1, True), (3, False)] (wq_new 2))"
proof -
  have "wq_inv (wq_new 2 :: nat WatchChangeQueue)" by (simp add: wq_inv_def wq_new_def)
  from extend_overflow_iff [OF this, of "[(1, False), (2, True), (1, True), (3, False)]"]
  show ?thesis by (simp add: wq_new_def card_insert_if)
qed

lemma fold_insert_order:
  "\<not> needs_full_rescan (fold (\<lambda>(p, d) q. insert_inner p d q) es q) \<Longrightarrow>
   map fst (entries (fold (\<lambda>(p, d) q. insert_inner p d q) es q)) =
   map fst (entries q) @ filter (\<lambda>p. p \<notin> fst ` set (entries q)) (first_occurrences (map fst es))"
proof (induction es arbitrary: q)
  case (Cons e es)
  obtain p d where e: "e = (p, d)" by (cases e)
  let ?q = "insert_inner p d q"
  from Cons.prems have ok: "\<not> needs_full_rescan ?q"
    using fold_insert_rescan [of ?q es] by (auto simp: e)
  have ents: "map fst (entries ?q) =
      map fst (entries q) @ (if p \<in> fst ` set (entries q) then [] else [p])"
    using ok by (auto simp: insert_inner_def split: if_splits)
  then have "fst ` set (entries ?q) = insert p (fst ` set (entries q))"
    using ok by (auto simp: insert_inner_def split: if_splits)
  with Cons.IH [of ?q] Cons.prems ents show ?case
    by (auto simp: e intro!: filter_cong)
qed simp

text \<open>
  First occurrence keeps its place. Without an overflow, a batch into an empty queue
  leaves the distinct paths in the order of their first event.
\<close>

theorem extend_keeps_first_position:
  assumes "\<not> needs_full_rescan (wq_extend incoming (wq_new cap))"
  shows "map fst (entries (wq_extend incoming (wq_new cap))) = first_occurrences (map fst incoming)"
  using fold_insert_order [of incoming "wq_new cap"] assms by (simp add: wq_extend_def wq_new_def)

theorem extend_keeps_first_position_witness:
  "map fst (entries (wq_extend [(1::nat, False), (2, True), (1, True)] (wq_new 2))) = [1, 2]"
  using extend_keeps_first_position [of "[(1::nat, False), (2, True), (1, True)]" 2]
  by (simp add: wq_extend_def wq_new_def insert_inner_def)

end
