(* ===== verification/Retry_Queue.thy ===== *)
theory Retry_Queue
  imports Prelude
begin

text \<open>
  The retry queue of the query path (\<^verbatim>\<open>cce-orchestrator/src/query/retry_queue.rs\<close>): a bounded
  queue of failed queries with a cooldown, and a dead-letter list. Of \<^verbatim>\<open>QueryOptions\<close> the queue
  reads the query text; the other options are carried in \<open>rest\<close>. Every method holds the mutex
  from start to end, so a run is a sequence of whole operations.
\<close>

section \<open>Model\<close>

record 'o QueryOptions =
  query :: string
  rest :: 'o

record 'o QueuedQuery =
  options :: "'o QueryOptions"
  enqueued_at :: instant
  retry_count :: u32

record 'o RetryQueue =
  queue :: "'o QueuedQuery list"
  dead :: "'o QueuedQuery list"
  max_retries :: u32
  cooldown :: duration
  max_queue_len :: nat

definition DEFAULT_MAX_QUEUE_LEN :: nat where
  "DEFAULT_MAX_QUEUE_LEN = 1024"

definition rq_with_config :: "u32 \<Rightarrow> nat \<Rightarrow> 'o RetryQueue" where
  "rq_with_config mr cooldown_secs =
     \<lparr>queue = [], dead = [], max_retries = mr, cooldown = from_secs cooldown_secs,
      max_queue_len = DEFAULT_MAX_QUEUE_LEN\<rparr>"

definition rq_new :: "'o RetryQueue" where
  "rq_new = \<lparr>queue = [], dead = [], max_retries = 3, cooldown = from_secs 30,
             max_queue_len = DEFAULT_MAX_QUEUE_LEN\<rparr>"

definition rq_push :: "instant \<Rightarrow> 'o QueryOptions \<Rightarrow> 'o RetryQueue \<Rightarrow> 'o RetryQueue" where
  "rq_push now opts q =
     (if list_ex (\<lambda>e. query (options e) = query opts) (queue q) then q
      else let queue1 = queue q @ [\<lparr>options = opts, enqueued_at = now, retry_count = 0\<rparr>]
           in q\<lparr>queue := (if length queue1 > max_queue_len q then tl queue1 else queue1)\<rparr>)"

text \<open>The dead-letter push: append, then drop the oldest past the bound.\<close>

definition push_dead :: "nat \<Rightarrow> 'o QueuedQuery \<Rightarrow> 'o QueuedQuery list \<Rightarrow> 'o QueuedQuery list" where
  "push_dead bound e d = (let d1 = d @ [e] in if length d1 > bound then tl d1 else d1)"

text \<open>
  One entry of the drain. The entry that is ready is updated (its count and time) and then only
  its options are kept.
\<close>

definition drain_entry ::
  "instant \<Rightarrow> 'o RetryQueue \<Rightarrow> 'o QueuedQuery
     \<Rightarrow> 'o QueryOptions list \<times> 'o QueuedQuery list \<times> 'o QueuedQuery list
     \<Rightarrow> 'o QueryOptions list \<times> 'o QueuedQuery list \<times> 'o QueuedQuery list" where
  "drain_entry now q e s =
     (case s of (ready, remaining, d) \<Rightarrow>
        if retry_count e \<ge> max_retries q then (ready, remaining, push_dead (max_queue_len q) e d)
        else if duration_since now (enqueued_at e) \<ge> cooldown q
             then (let e1 = e\<lparr>retry_count := retry_count e + 1, enqueued_at := now\<rparr>
                   in (ready @ [options e1], remaining, d))
             else (ready, remaining @ [e], d))"

definition drain_ready :: "instant \<Rightarrow> 'o RetryQueue \<Rightarrow> 'o QueryOptions list \<times> 'o RetryQueue" where
  "drain_ready now q =
     (case fold (drain_entry now q) (queue q) ([], [], dead q) of
        (ready, remaining, d) \<Rightarrow> (ready, q\<lparr>queue := remaining, dead := d\<rparr>))"

definition rq_len :: "'o RetryQueue \<Rightarrow> nat" where
  "rq_len q = length (queue q)"

definition rq_is_empty :: "'o RetryQueue \<Rightarrow> bool" where
  "rq_is_empty q = (queue q = [])"

definition rq_clear :: "'o RetryQueue \<Rightarrow> 'o RetryQueue" where
  "rq_clear q = q\<lparr>queue := []\<rparr>"

definition dead_len :: "'o RetryQueue \<Rightarrow> nat" where
  "dead_len q = length (dead q)"

definition dead_snapshot :: "'o RetryQueue \<Rightarrow> (string \<times> u32) list" where
  "dead_snapshot q = map (\<lambda>e. (query (options e), retry_count e)) (dead q)"

definition clear_dead :: "'o RetryQueue \<Rightarrow> 'o RetryQueue" where
  "clear_dead q = q\<lparr>dead := []\<rparr>"

section \<open>Invariant\<close>

datatype 'o rq_event = RPush instant "'o QueryOptions" | RDrain instant | RClear | RClearDead

fun rq_step :: "'o RetryQueue \<Rightarrow> 'o rq_event \<Rightarrow> 'o RetryQueue" where
  "rq_step q (RPush now opts) = rq_push now opts q"
| "rq_step q (RDrain now) = snd (drain_ready now q)"
| "rq_step q RClear = rq_clear q"
| "rq_step q RClearDead = clear_dead q"

abbreviation queries :: "'o RetryQueue \<Rightarrow> string list" where
  "queries q \<equiv> map (\<lambda>e. query (options e)) (queue q)"

text \<open>Entries are fresh: whatever a drain counts is thrown away with the entry.\<close>

definition rq_inv :: "'o RetryQueue \<Rightarrow> bool" where
  "rq_inv q \<longleftrightarrow> distinct (queries q) \<and> length (queue q) \<le> max_queue_len q
     \<and> (\<forall>e \<in> set (queue q). retry_count e = 0) \<and> (0 < max_retries q \<longrightarrow> dead q = [])"

lemma distinct_map_tl: "distinct (map f xs) \<Longrightarrow> distinct (map f (tl xs))"
  by (cases xs) auto

lemma rq_push_inv:
  assumes "rq_inv q"
  shows "rq_inv (rq_push now opts q)"
proof (cases "list_ex (\<lambda>e. query (options e) = query opts) (queue q)")
  case True
  with assms show ?thesis by (simp add: rq_push_def)
next
  case False
  let ?q1 = "queue q @ [\<lparr>options = opts, enqueued_at = now, retry_count = 0\<rparr>]"
  have "query opts \<notin> set (queries q)" using False by (fastforce simp: list_ex_iff)
  then have ok: "distinct (map (\<lambda>e. query (options e)) ?q1)" "length ?q1 \<le> Suc (max_queue_len q)"
    "\<forall>e \<in> set ?q1. retry_count e = 0"
    using assms by (auto simp: rq_inv_def)
  have "set (tl ?q1) \<subseteq> set ?q1" by (cases ?q1) auto
  then have "distinct (map (\<lambda>e. query (options e)) (tl ?q1))" "\<forall>e \<in> set (tl ?q1). retry_count e = 0"
    using ok(3) distinct_map_tl [OF ok(1)] by blast+
  with False ok assms show ?thesis by (simp add: rq_push_def rq_inv_def Let_def)
qed

text \<open>The drain as three filters of the queue.\<close>

abbreviation exhausted :: "'o RetryQueue \<Rightarrow> 'o QueuedQuery \<Rightarrow> bool" where
  "exhausted q e \<equiv> max_retries q \<le> retry_count e"

abbreviation cooled :: "instant \<Rightarrow> 'o RetryQueue \<Rightarrow> 'o QueuedQuery \<Rightarrow> bool" where
  "cooled now q e \<equiv> cooldown q \<le> duration_since now (enqueued_at e)"

lemma drain_fold:
  "fold (drain_entry now q) es (r, m, d) =
     (r @ map options (filter (\<lambda>e. \<not> exhausted q e \<and> cooled now q e) es),
      m @ filter (\<lambda>e. \<not> exhausted q e \<and> \<not> cooled now q e) es,
      fold (push_dead (max_queue_len q)) (filter (exhausted q) es) d)"
  by (induction es arbitrary: r m d) (auto simp: drain_entry_def Let_def)

lemma drain_ready_eq:
  "drain_ready now q =
     (map options (filter (\<lambda>e. \<not> exhausted q e \<and> cooled now q e) (queue q)),
      q\<lparr>queue := filter (\<lambda>e. \<not> exhausted q e \<and> \<not> cooled now q e) (queue q),
        dead := fold (push_dead (max_queue_len q)) (filter (exhausted q) (queue q)) (dead q)\<rparr>)"
  by (simp add: drain_ready_def drain_fold)

lemma fresh_not_exhausted:
  assumes "rq_inv q" "0 < max_retries q" "e \<in> set (queue q)"
  shows "\<not> exhausted q e"
  using assms by (simp add: rq_inv_def not_le)

lemma drain_fresh:
  assumes "rq_inv q" "0 < max_retries q"
  shows "drain_ready now q =
     (map options (filter (cooled now q) (queue q)), q\<lparr>queue := filter (\<lambda>e. \<not> cooled now q e) (queue q)\<rparr>)"
proof -
  note fresh = fresh_not_exhausted [OF assms]
  have "filter (exhausted q) (queue q) = []" using fresh by (auto simp: filter_empty_conv)
  moreover have "filter (\<lambda>e. \<not> exhausted q e \<and> cooled now q e) (queue q) = filter (cooled now q) (queue q)"
    "filter (\<lambda>e. \<not> exhausted q e \<and> \<not> cooled now q e) (queue q) = filter (\<lambda>e. \<not> cooled now q e) (queue q)"
    using fresh by (auto intro!: filter_cong)
  ultimately show ?thesis by (simp add: drain_ready_eq)
qed

lemma drain_inv: "rq_inv q \<Longrightarrow> rq_inv (snd (drain_ready now q))"
proof (cases "0 < max_retries q")
  case True
  assume "rq_inv q"
  with True show ?thesis
    by (auto simp: drain_fresh) (auto simp: rq_inv_def distinct_map_filter intro: le_trans [OF length_filter_le])
next
  case False
  assume "rq_inv q"
  with False show ?thesis
    by (auto simp: drain_ready_eq rq_inv_def distinct_map_filter intro: le_trans [OF length_filter_le])
qed

interpretation retry_queue: invariant_machine rq_step rq_inv
proof
  fix q :: "'o RetryQueue" and e :: "'o rq_event"
  assume "rq_inv q"
  then show "rq_inv (rq_step q e)"
    by (cases e) (simp_all add: rq_push_inv drain_inv, simp_all add: rq_inv_def rq_clear_def clear_dead_def)
qed

lemma rq_inv_with_config [simp]: "rq_inv (rq_with_config mr secs)"
  by (simp add: rq_inv_def rq_with_config_def)

lemma rq_with_config_limit: "max_retries (rq_with_config mr secs) = mr"
  by (simp add: rq_with_config_def)

lemma rq_step_config [simp]:
  "max_retries (rq_step q e) = max_retries q" "cooldown (rq_step q e) = cooldown q"
  "max_queue_len (rq_step q e) = max_queue_len q"
  by (cases e; simp add: rq_push_def drain_ready_eq rq_clear_def clear_dead_def Let_def)+

lemma rq_run_config [simp]:
  "max_retries (foldl rq_step q es) = max_retries q" "cooldown (foldl rq_step q es) = cooldown q"
  "max_queue_len (foldl rq_step q es) = max_queue_len q"
  by (induction es arbitrary: q) simp_all

section \<open>Properties\<close>

text \<open>
  A drain loses nothing. In every run of a queue with a positive retry limit, the queued
  query texts are distinct and at most 1024, and a drain hands out, in order, exactly the
  queries whose cooldown has elapsed and leaves exactly the others queued.
\<close>

theorem retry_drain_exact:
  assumes "0 < mr"
  shows "let q = foldl rq_step (rq_with_config mr secs) es; (ready, q') = drain_ready now q
     in distinct (queries q) \<and> rq_len q \<le> 1024
        \<and> ready = map options (filter (\<lambda>e. from_secs secs \<le> duration_since now (enqueued_at e)) (queue q))
        \<and> queue q' = filter (\<lambda>e. duration_since now (enqueued_at e) < from_secs secs) (queue q)"
proof -
  let ?q = "foldl rq_step (rq_with_config mr secs) es"
  have inv: "rq_inv ?q" by (rule retry_queue.run_inv) simp
  have conf: "max_retries ?q = mr" "cooldown ?q = from_secs secs" "max_queue_len ?q = 1024"
    by (simp_all add: rq_with_config_def DEFAULT_MAX_QUEUE_LEN_def)
  with inv drain_fresh [OF inv, of now] assms show ?thesis
    by (simp add: Let_def rq_inv_def rq_len_def not_le)
qed

theorem retry_drain_exact_witness:
  "fst (drain_ready 31000000000 (foldl rq_step (rq_with_config 3 30)
      [RPush 0 \<lparr>query = ''a'', rest = ()\<rparr>, RPush 5000000000 \<lparr>query = ''b'', rest = ()\<rparr>]))
   = [\<lparr>query = ''a'', rest = ()\<rparr>]"
  using retry_drain_exact [of 3 30 "[RPush 0 \<lparr>query = ''a'', rest = ()\<rparr>, RPush 5000000000 \<lparr>query = ''b'', rest = ()\<rparr>]" 31000000000]
  by (simp add: Let_def rq_push_def rq_with_config_def DEFAULT_MAX_QUEUE_LEN_def from_secs_def duration_since_def
      split: prod.splits)

lemma step_ignores_limit:
  assumes "rq_inv q" "0 < max_retries q" "0 < m"
  shows "rq_step (q\<lparr>max_retries := m\<rparr>) e = (rq_step q e)\<lparr>max_retries := m\<rparr>"
proof -
  have "rq_inv (q\<lparr>max_retries := m\<rparr>)" using assms by (simp add: rq_inv_def)
  then show ?thesis
    using assms by (cases e) (simp_all add: drain_fresh, simp_all add: rq_push_def rq_clear_def clear_dead_def Let_def)
qed

lemma run_ignores_limit:
  "rq_inv q \<Longrightarrow> 0 < max_retries q \<Longrightarrow> 0 < m
     \<Longrightarrow> foldl rq_step (q\<lparr>max_retries := m\<rparr>) es = (foldl rq_step q es)\<lparr>max_retries := m\<rparr>"
proof (induction es arbitrary: q)
  case (Cons e es)
  then show ?case using retry_queue.step_inv [of q e] by (simp add: step_ignores_limit)
qed simp

text \<open>
  The retry limit has no effect. A drain hands the query out and forgets its count, and a
  query that fails again is pushed with a count of zero; so in every run no query is ever
  dead-lettered, and two queues that differ only in their positive retry limits hold the same
  entries and hand out the same queries.
\<close>

theorem retry_limit_never_applies:
  fixes es :: "'o rq_event list"
  assumes "0 < mr" "0 < mr'"
  shows "let q = foldl rq_step (rq_with_config mr secs) es; q' = foldl rq_step (rq_with_config mr' secs) es
     in dead_len q = 0 \<and> queue q' = queue q \<and> fst (drain_ready now q') = fst (drain_ready now q)"
proof -
  let ?q = "foldl rq_step (rq_with_config mr secs) es"
  have inv: "rq_inv ?q" by (rule retry_queue.run_inv) simp
  have mr: "max_retries ?q = mr" by (simp add: rq_with_config_def)
  have "(rq_with_config mr' secs :: 'o RetryQueue) = (rq_with_config mr secs)\<lparr>max_retries := mr'\<rparr>"
    by (simp add: rq_with_config_def)
  then have q': "foldl rq_step (rq_with_config mr' secs) es = ?q\<lparr>max_retries := mr'\<rparr>"
    using run_ignores_limit [OF rq_inv_with_config [of mr secs] _ assms(2), where es = es] assms(1)
    by (simp add: rq_with_config_limit)
  have "rq_inv (?q\<lparr>max_retries := mr'\<rparr>)" using inv assms mr by (simp add: rq_inv_def)
  from drain_fresh [OF this, of now] drain_fresh [OF inv, of now] inv assms mr show ?thesis
    unfolding q' by (simp add: Let_def rq_inv_def dead_len_def)
qed

theorem retry_limit_never_applies_witness:
  "dead_len (foldl rq_step (rq_with_config 1 0 :: unit RetryQueue)
      (concat (replicate 9 [RPush 0 \<lparr>query = ''a'', rest = ()\<rparr>, RDrain 1]))) = 0"
  using retry_limit_never_applies [of 1 3 0 "concat (replicate 9 [RPush 0 \<lparr>query = ''a'', rest = ()\<rparr>, RDrain 1])" 0]
  by (simp add: Let_def)

end
