(* ===== verification/Rust_Strings.thy ===== *)
theory Rust_Strings
  imports Prelude
begin

text \<open>
  The operations of \<^verbatim>\<open>str\<close> that the components use. A string is the list of its UTF-8 bytes, and
  every separator, marker and prefix of the program is ASCII, so bytewise search and splitting
  agree with the operations on characters. Nothing here models a line of the program itself.
\<close>

section \<open>Splitting and joining\<close>

text \<open>\<^verbatim>\<open>s.split(p)\<close>: always at least one piece.\<close>

fun split_by :: "(char \<Rightarrow> bool) \<Rightarrow> string \<Rightarrow> string list" where
  "split_by p [] = [[]]"
| "split_by p (c # cs) =
     (if p c then [] # split_by p cs else (case split_by p cs of [] \<Rightarrow> [[c]] | w # ws \<Rightarrow> (c # w) # ws))"

fun join :: "string \<Rightarrow> string list \<Rightarrow> string" where
  "join sep [] = []"
| "join sep [x] = x"
| "join sep (x # y # ys) = x @ sep @ join sep (y # ys)"

lemma split_by_ne [simp]: "split_by p s \<noteq> []"
  by (induction s) (auto split: list.split)

lemma split_by_pieces: "w \<in> set (split_by p s) \<Longrightarrow> c \<in> set w \<Longrightarrow> \<not> p c \<and> c \<in> set s"
  by (induction s arbitrary: w) (fastforce split: list.splits if_splits)+

lemma split_by_no_sep: "\<forall>c \<in> set s. \<not> p c \<Longrightarrow> split_by p s = [s]"
  by (induction s) auto

lemma split_by_append: "p c \<Longrightarrow> split_by p (s @ c # t) = split_by p s @ split_by p t"
  by (induction s) (auto split: list.split simp: append_eq_Cons_conv)

lemma split_by_join:
  "p c \<Longrightarrow> ws \<noteq> [] \<Longrightarrow> \<forall>w \<in> set ws. \<forall>d \<in> set w. \<not> p d \<Longrightarrow> split_by p (join [c] ws) = ws"
  by (induction "[c]" ws rule: join.induct) (auto simp: split_by_append split_by_no_sep)

lemma set_join: "set (join [c] ws) \<subseteq> insert c (\<Union> (set ` set ws))"
  by (induction "[c]" ws rule: join.induct) auto

section \<open>Searching\<close>

definition starts_with :: "string \<Rightarrow> string \<Rightarrow> bool" where
  "starts_with s m = (take (length m) s = m)"

fun str_contains :: "string \<Rightarrow> string \<Rightarrow> bool" where
  "str_contains [] m = (m = [])"
| "str_contains (c # cs) m = (starts_with (c # cs) m \<or> str_contains cs m)"

text \<open>\<^verbatim>\<open>rfind(p)\<close>: the position of the last matching character.\<close>

fun rfind_by :: "(char \<Rightarrow> bool) \<Rightarrow> string \<Rightarrow> nat option" where
  "rfind_by p [] = None"
| "rfind_by p (c # cs) =
     (case rfind_by p cs of Some i \<Rightarrow> Some (Suc i) | None \<Rightarrow> if p c then Some 0 else None)"

lemma starts_with_append: "starts_with (m @ s) m"
  by (simp add: starts_with_def)

lemma starts_with_iff: "starts_with s m \<longleftrightarrow> (\<exists>t. s = m @ t)"
  by (metis append_eq_conv_conj append_take_drop_id starts_with_def)

lemma str_contains_iff: "str_contains s m \<longleftrightarrow> (\<exists>a b. s = a @ m @ b)"
proof (induction s)
  case IH: (Cons c s)
  show ?case
  proof
    assume "str_contains (c # s) m"
    then show "\<exists>a b. c # s = a @ m @ b"
      using IH starts_with_iff by (metis append_Cons append_Nil str_contains.simps(2))
  next
    assume "\<exists>a b. c # s = a @ m @ b"
    then obtain a b where ab: "c # s = a @ m @ b" by blast
    show "str_contains (c # s) m"
    proof (cases a)
      case Nil
      with ab have "starts_with (c # s) m" by (metis append_Nil starts_with_iff)
      then show ?thesis by simp
    next
      case (Cons x xs)
      with ab have "s = xs @ m @ b" by simp
      with IH show ?thesis by auto
    qed
  qed
qed auto

lemma rfind_by_Some: "rfind_by p s = Some i \<Longrightarrow> i < length s \<and> p (s ! i) \<and> (\<forall>c \<in> set (drop (Suc i) s). \<not> p c)"
proof (induction s arbitrary: i)
  case (Cons c s)
  have none: "rfind_by p s = None \<Longrightarrow> \<forall>c \<in> set s. \<not> p c" by (induction s) (auto split: option.splits if_splits)
  show ?case using Cons none by (auto split: option.splits if_splits)
qed simp

lemma rfind_by_None: "rfind_by p s = None \<longleftrightarrow> (\<forall>c \<in> set s. \<not> p c)"
  by (induction s) (auto split: option.splits if_splits)

text \<open>Decimal numbers, as \<^verbatim>\<open>{}\<close> prints an unsigned integer.\<close>

fun show_nat :: "nat \<Rightarrow> string" where
  "show_nat n = (if n < 10 then [char_of (48 + n)] else show_nat (n div 10) @ [char_of (48 + n mod 10)])"

declare show_nat.simps [simp del]

definition show_int :: "int \<Rightarrow> string" where
  "show_int i = (if i < 0 then ''-'' @ show_nat (nat (- i)) else show_nat (nat i))"

end
