(* ===== verification/Dependency_Graph.thy ===== *)
theory Dependency_Graph
  imports Rust_Strings "HOL-Library.List_Lexorder" "HOL-Library.Char_ord"
begin

text \<open>
  The file dependency graph (\<^verbatim>\<open>cce-codegraph/src/dependency_graph.rs\<close>): forward and reverse
  adjacency maps kept in step, Kahn's topological sort with its alphabetical fallback, and the
  breadth-first collection of transitive dependents and dependencies. Hash iteration order is
  the argument \<open>it\<close>. The loops are \<open>partial_function (option)\<close>: \<open>None\<close> is a loop that does not
  return (or, in the sort, a counter that would underflow); the theorems show that it does not
  occur. Scores (\<^verbatim>\<open>f64\<close>) are not modelled; the depth-first cycle searches are in
  \<open>Dependency_Cycles\<close>.
\<close>

section \<open>The graph\<close>

datatype DependencyGraphError =
    CycleDetected string
  | FileNotFound string
  | InvalidOperation string

record FileDependencyGraph =
  forward_edges :: "string \<rightharpoonup> string set"
  reverse_edges :: "string \<rightharpoonup> string set"
  version_counter :: u64

definition dg_new :: FileDependencyGraph where
  "dg_new = \<lparr>forward_edges = Map.empty, reverse_edges = Map.empty, version_counter = 0\<rparr>"

definition add_dependency :: "string \<Rightarrow> string \<Rightarrow> FileDependencyGraph \<Rightarrow> FileDependencyGraph" where
  "add_dependency from to g =
     (if from = to then g
      else let inserted = (case forward_edges g from of None \<Rightarrow> True | Some S \<Rightarrow> to \<notin> S);
               g1 = g\<lparr>forward_edges := map_entry {} from (insert to) (forward_edges g)\<rparr>
           in if \<not> inserted then g1
              else g1\<lparr>reverse_edges := map_entry {} to (insert from) (reverse_edges g1),
                      version_counter := version_counter g1 + 1\<rparr>)"

definition add_dependencies :: "string \<Rightarrow> string list \<Rightarrow> FileDependencyGraph \<Rightarrow> FileDependencyGraph" where
  "add_dependencies from tos g = fold (add_dependency from) tos g"

definition get_dependencies :: "string iter \<Rightarrow> FileDependencyGraph \<Rightarrow> string \<Rightarrow> string list" where
  "get_dependencies it g f = (case forward_edges g f of Some S \<Rightarrow> it S | None \<Rightarrow> [])"

definition get_dependents :: "string iter \<Rightarrow> FileDependencyGraph \<Rightarrow> string \<Rightarrow> string list" where
  "get_dependents it g f = (case reverse_edges g f of Some S \<Rightarrow> it S | None \<Rightarrow> [])"

definition has_dependency :: "FileDependencyGraph \<Rightarrow> string \<Rightarrow> string \<Rightarrow> bool" where
  "has_dependency g from to = (case forward_edges g from of Some S \<Rightarrow> to \<in> S | None \<Rightarrow> False)"

definition has_dependencies :: "FileDependencyGraph \<Rightarrow> string \<Rightarrow> bool" where
  "has_dependencies g f = (case forward_edges g f of Some S \<Rightarrow> S \<noteq> {} | None \<Rightarrow> False)"

definition has_dependents :: "FileDependencyGraph \<Rightarrow> string \<Rightarrow> bool" where
  "has_dependents g f = (case reverse_edges g f of Some S \<Rightarrow> S \<noteq> {} | None \<Rightarrow> False)"

text \<open>\<open>get_mut(k)\<close>, \<open>remove(x)\<close> from the set, and removal of the entry when the set is empty.\<close>

definition drop_edge ::
  "string \<Rightarrow> string \<Rightarrow> (string \<rightharpoonup> string set) \<Rightarrow> (string \<rightharpoonup> string set)" where
  "drop_edge k x m =
     (case m k of
        None \<Rightarrow> m
      | Some S \<Rightarrow> if S - {x} = {} then m(k := None) else m(k \<mapsto> S - {x}))"

definition set_has :: "(string \<rightharpoonup> string set) \<Rightarrow> string \<Rightarrow> string \<Rightarrow> bool" where
  "set_has m k x = (case m k of Some S \<Rightarrow> x \<in> S | None \<Rightarrow> False)"

definition remove_dependency :: "string \<Rightarrow> string \<Rightarrow> FileDependencyGraph \<Rightarrow> FileDependencyGraph" where
  "remove_dependency from to g =
     (let removed = set_has (forward_edges g) from to \<or> set_has (reverse_edges g) to from;
          g1 = g\<lparr>forward_edges := drop_edge from to (forward_edges g),
                 reverse_edges := drop_edge to from (reverse_edges g)\<rparr>
      in if removed then g1\<lparr>version_counter := version_counter g1 + 1\<rparr> else g1)"

definition dg_remove_file :: "string iter \<Rightarrow> string \<Rightarrow> FileDependencyGraph \<Rightarrow> FileDependencyGraph" where
  "dg_remove_file it file g =
     (let (changed1, g1) = (case forward_edges g file of
              None \<Rightarrow> (False, g)
            | Some deps \<Rightarrow> (True, g\<lparr>forward_edges := (forward_edges g)(file := None),
                 reverse_edges := fold (\<lambda>d m. drop_edge d file m) (it deps) (reverse_edges g)\<rparr>));
          (changed2, g2) = (case reverse_edges g1 file of
              None \<Rightarrow> (False, g1)
            | Some dependents \<Rightarrow> (True, g1\<lparr>reverse_edges := (reverse_edges g1)(file := None),
                 forward_edges := fold (\<lambda>d m. drop_edge d file m) (it dependents) (forward_edges g1)\<rparr>))
      in if changed1 \<or> changed2 then g2\<lparr>version_counter := version_counter g2 + 1\<rparr> else g2)"

definition file_set :: "FileDependencyGraph \<Rightarrow> string set" where
  "file_set g = dom (forward_edges g) \<union> \<Union> (ran (forward_edges g))
     \<union> dom (reverse_edges g) \<union> \<Union> (ran (reverse_edges g))"

definition get_all_files :: "string iter \<Rightarrow> FileDependencyGraph \<Rightarrow> string list" where
  "get_all_files it g = it (file_set g)"

definition dg_clear :: "FileDependencyGraph \<Rightarrow> FileDependencyGraph" where
  "dg_clear g = g\<lparr>forward_edges := Map.empty, reverse_edges := Map.empty, version_counter := 0\<rparr>"

definition edge_count :: "FileDependencyGraph \<Rightarrow> nat" where
  "edge_count g = (\<Sum>f \<in> dom (forward_edges g). card (the (forward_edges g f)))"

definition file_count :: "FileDependencyGraph \<Rightarrow> nat" where
  "file_count g = card (dom (forward_edges g) \<union> \<Union> (ran (forward_edges g)))"

section \<open>Topological sort\<close>

text \<open>The subgraph: in-degrees and adjacency lists, built in the order of \<open>files\<close>.\<close>

type_synonym degrees = "string \<rightharpoonup> nat"
type_synonym adjacency = "string \<rightharpoonup> string list"

definition init_maps :: "string list \<Rightarrow> degrees \<times> adjacency" where
  "init_maps files = fold (\<lambda>f (deg, adj). (deg(f \<mapsto> 0), adj(f \<mapsto> []))) files (Map.empty, Map.empty)"

definition link_dep :: "string set \<Rightarrow> string \<Rightarrow> string \<Rightarrow> degrees \<times> adjacency \<Rightarrow> degrees \<times> adjacency" where
  "link_dep fs f d s =
     (case s of (deg, adj) \<Rightarrow>
        if d \<in> fs then (map_entry 0 f Suc deg, map_entry [] d (\<lambda>ns. ns @ [f]) adj) else (deg, adj))"

definition build_subgraph ::
  "string iter \<Rightarrow> FileDependencyGraph \<Rightarrow> string list \<Rightarrow> degrees \<times> adjacency" where
  "build_subgraph it g files =
     fold (\<lambda>f s. fold (link_dep (set files) f) (get_dependencies it g f) s) files (init_maps files)"

text \<open>
  One neighbour: decrement its in-degree (an underflow is \<open>None\<close>) and enqueue it at zero.
\<close>

fun relax :: "string list \<Rightarrow> degrees \<Rightarrow> string list \<Rightarrow> (degrees \<times> string list) option" where
  "relax [] deg q = Some (deg, q)"
| "relax (n # ns) deg q =
     (case deg n of
        None \<Rightarrow> relax ns deg q
      | Some 0 \<Rightarrow> None
      | Some (Suc d) \<Rightarrow> relax ns (deg(n \<mapsto> d)) (if d = 0 then q @ [n] else q))"

partial_function (option) kahn ::
  "adjacency \<Rightarrow> degrees \<Rightarrow> string list \<Rightarrow> string list \<Rightarrow> string list option" where
  "kahn adj deg q res =
     (case q of
        [] \<Rightarrow> Some res
      | node # q1 \<Rightarrow>
          (case adj node of
             None \<Rightarrow> kahn adj deg q1 (res @ [node])
           | Some ns \<Rightarrow> Option.bind (relax ns deg q1)
               (\<lambda>s. kahn adj (fst s) (snd s) (res @ [node]))))"

definition topological_sort ::
  "string iter \<Rightarrow> FileDependencyGraph \<Rightarrow> string list \<Rightarrow> (DependencyGraphError + string list) option" where
  "topological_sort it g files =
     (if files = [] then Some (Inr [])
      else case build_subgraph it g files of
        (deg, adj) \<Rightarrow>
          map_option (\<lambda>res.
              if length res \<noteq> length files
              then Inl (CycleDetected (''Files involved in cycle: '' @
                     join '', '' (filter (\<lambda>f. f \<notin> set res) files)))
              else Inr res)
            (kahn adj deg (it {f. deg f = Some 0}) []))"

definition topological_sort_all ::
  "string iter \<Rightarrow> FileDependencyGraph \<Rightarrow> (DependencyGraphError + string list) option" where
  "topological_sort_all it g = topological_sort it g (get_all_files it g)"

definition topological_sort_with_fallback ::
  "string iter \<Rightarrow> FileDependencyGraph \<Rightarrow> string list \<Rightarrow> string list option" where
  "topological_sort_with_fallback it g files =
     map_option (\<lambda>r. case r of
         Inr order \<Rightarrow> order
       | Inl (CycleDetected msg) \<Rightarrow> sort files
       | Inl _ \<Rightarrow> files) (topological_sort it g files)"

section \<open>Transitive closure by breadth-first search\<close>

definition push_unvisited ::
  "nat \<Rightarrow> string list \<Rightarrow> string set \<times> (string \<times> nat) list \<Rightarrow> string set \<times> (string \<times> nat) list" where
  "push_unvisited depth deps s =
     fold (\<lambda>d (visited, q). if d \<in> visited then (visited, q) else (insert d visited, q @ [(d, depth)])) deps s"

text \<open>Both collections run the same loop, one over dependents, one over dependencies.\<close>

partial_function (option) bfs ::
  "(string \<Rightarrow> string list) \<Rightarrow> nat \<Rightarrow> string set \<Rightarrow> (string \<times> nat) list \<Rightarrow> string set \<Rightarrow> string set option" where
  "bfs nb max_depth visited q acc =
     (case q of
        [] \<Rightarrow> Some acc
      | (current, depth) # q1 \<Rightarrow>
          if max_depth > 0 \<and> depth > max_depth then bfs nb max_depth visited q1 acc
          else bfs nb max_depth (fst (push_unvisited (depth + 1) (nb current) (visited, q1)))
                 (snd (push_unvisited (depth + 1) (nb current) (visited, q1))) (insert current acc))"

definition bfs_from :: "(string \<Rightarrow> string list) \<Rightarrow> string \<Rightarrow> nat \<Rightarrow> string set option" where
  "bfs_from nb file max_depth =
     (case push_unvisited 1 (nb file) ({}, []) of (visited, q) \<Rightarrow> bfs nb max_depth visited q {})"

definition collect_transitive_dependents ::
  "string iter \<Rightarrow> FileDependencyGraph \<Rightarrow> string \<Rightarrow> nat \<Rightarrow> string list option" where
  "collect_transitive_dependents it g file max_depth =
     map_option it (bfs_from (get_dependents it g) file max_depth)"

definition collect_transitive_dependencies ::
  "string iter \<Rightarrow> FileDependencyGraph \<Rightarrow> string \<Rightarrow> nat \<Rightarrow> string list option" where
  "collect_transitive_dependencies it g file max_depth =
     map_option it (bfs_from (get_dependencies it g) file max_depth)"

text \<open>The score of \<^verbatim>\<open>ImpactAnalysis\<close> is a float and is left out.\<close>

record ImpactAnalysis =
  changed :: string
  direct_dependents :: "string list"
  indirect_dependents :: "string list"

definition ImpactAnalysis_new :: "string \<Rightarrow> string list \<Rightarrow> string list \<Rightarrow> ImpactAnalysis" where
  "ImpactAnalysis_new c direct indirect =
     \<lparr>changed = c, direct_dependents = remdups_adj (sort direct),
      indirect_dependents = remdups_adj (sort indirect)\<rparr>"

definition impact_of :: "string iter \<Rightarrow> FileDependencyGraph \<Rightarrow> string \<Rightarrow> nat \<Rightarrow> ImpactAnalysis option" where
  "impact_of it g file max_depth =
     (let direct = set (get_dependents it g file)
      in map_option (\<lambda>ds. ImpactAnalysis_new file (it direct) (filter (\<lambda>d. d \<notin> direct) ds))
           (collect_transitive_dependents it g file max_depth))"

section \<open>The graph as a relation\<close>

definition nbrs :: "(string \<rightharpoonup> string set) \<Rightarrow> string \<Rightarrow> string set" where
  "nbrs m k = (case m k of None \<Rightarrow> {} | Some S \<Rightarrow> S)"

definition map_ok :: "(string \<rightharpoonup> string set) \<Rightarrow> bool" where
  "map_ok m \<longleftrightarrow> finite (dom m) \<and> (\<forall>k S. m k = Some S \<longrightarrow> finite S \<and> S \<noteq> {} \<and> k \<notin> S)"

text \<open>No empty entry, no self-loop, and the two maps are each other's mirror image.\<close>

definition dg_inv :: "FileDependencyGraph \<Rightarrow> bool" where
  "dg_inv g \<longleftrightarrow> map_ok (forward_edges g) \<and> map_ok (reverse_edges g)
     \<and> (\<forall>f t. t \<in> nbrs (forward_edges g) f \<longleftrightarrow> f \<in> nbrs (reverse_edges g) t)"

definition depends :: "FileDependencyGraph \<Rightarrow> (string \<times> string) set" where
  "depends g = {(f, t). t \<in> nbrs (forward_edges g) f}"

lemma edges_map_entry: "nbrs (map_entry {} k (insert x) m) k' = (if k' = k then insert x (nbrs m k) else nbrs m k')"
  by (auto simp: nbrs_def map_entry_def split: option.splits)

lemma edges_drop_edge: "nbrs (drop_edge k x m) k' = (if k' = k then nbrs m k - {x} else nbrs m k')"
  by (auto simp: nbrs_def drop_edge_def split: option.splits)

lemma edges_del: "nbrs (m(k := None)) k' = (if k' = k then {} else nbrs m k')"
  by (simp add: nbrs_def)

lemma edges_empty [simp]: "nbrs Map.empty k = {}"
  by (simp add: nbrs_def)

lemma set_has_edges: "set_has m k x \<longleftrightarrow> x \<in> nbrs m k"
  by (simp add: set_has_def nbrs_def split: option.split)

lemma has_dependency_edges: "has_dependency g f t \<longleftrightarrow> (f, t) \<in> depends g"
  by (simp add: has_dependency_def depends_def nbrs_def split: option.split)

lemma edges_fold_drop:
  "nbrs (fold (\<lambda>d m. drop_edge d x m) ds m) k = (if k \<in> set ds then nbrs m k - {x} else nbrs m k)"
  by (induction ds arbitrary: m) (auto simp: edges_drop_edge)

lemma map_ok_empty [simp]: "map_ok Map.empty"
  by (simp add: map_ok_def)

lemma map_ok_map_entry: "map_ok m \<Longrightarrow> x \<noteq> k \<Longrightarrow> map_ok (map_entry {} k (insert x) m)"
  by (auto simp: map_ok_def map_entry_def split: option.splits)

lemma map_ok_del: "map_ok m \<Longrightarrow> map_ok (m(k := None))"
  by (auto simp: map_ok_def)

lemma map_ok_drop_edge: "map_ok m \<Longrightarrow> map_ok (drop_edge k x m)"
  by (auto simp: map_ok_def drop_edge_def split: option.splits)

lemma map_ok_fold_drop: "map_ok m \<Longrightarrow> map_ok (fold (\<lambda>d m. drop_edge d x m) ds m)"
  by (induction ds arbitrary: m) (simp_all add: map_ok_drop_edge)

lemma map_ok_finite_edges: "map_ok m \<Longrightarrow> finite (nbrs m k)"
  by (auto simp: map_ok_def nbrs_def split: option.split)

lemma map_ok_no_self: "map_ok m \<Longrightarrow> k \<notin> nbrs m k"
  by (auto simp: map_ok_def nbrs_def split: option.splits)

lemma map_ok_None_iff: "map_ok m \<Longrightarrow> m k = None \<longleftrightarrow> nbrs m k = {}"
  by (auto simp: map_ok_def nbrs_def split: option.splits)

lemma set_get_dependencies: "iter_ok it \<Longrightarrow> dg_inv g \<Longrightarrow> set (get_dependencies it g f) = nbrs (forward_edges g) f"
  using map_ok_finite_edges [of "forward_edges g" f]
  by (auto simp: get_dependencies_def dg_inv_def nbrs_def split: option.splits)

lemma distinct_get_dependencies: "iter_ok it \<Longrightarrow> dg_inv g \<Longrightarrow> distinct (get_dependencies it g f)"
  using map_ok_finite_edges [of "forward_edges g" f]
  by (auto simp: get_dependencies_def dg_inv_def nbrs_def split: option.splits)

lemma set_get_dependents: "iter_ok it \<Longrightarrow> dg_inv g \<Longrightarrow> set (get_dependents it g f) = nbrs (reverse_edges g) f"
  using map_ok_finite_edges [of "reverse_edges g" f]
  by (auto simp: get_dependents_def dg_inv_def nbrs_def split: option.splits)

subsection \<open>The operations on the relation\<close>

lemma dg_new_inv [simp]: "dg_inv dg_new"
  by (simp add: dg_inv_def dg_new_def)

lemma inserted_iff: "(case m k of None \<Rightarrow> True | Some S \<Rightarrow> x \<notin> S) \<longleftrightarrow> x \<notin> nbrs m k"
  by (simp add: nbrs_def split: option.split)

lemma add_dependency_fwd:
  "nbrs (forward_edges (add_dependency f t g)) k
     = (if k = f \<and> f \<noteq> t then insert t (nbrs (forward_edges g) f) else nbrs (forward_edges g) k)"
  by (auto simp: add_dependency_def edges_map_entry Let_def)

lemma add_dependency_inv: "dg_inv g \<Longrightarrow> dg_inv (add_dependency f t g)"
  unfolding dg_inv_def add_dependency_def Let_def inserted_iff
  by (auto simp: edges_map_entry map_ok_map_entry split: if_splits)

lemma depends_new [simp]: "depends dg_new = {}"
  by (simp add: depends_def dg_new_def)

lemma add_dependency_rel: "depends (add_dependency f t g) = (if f = t then depends g else insert (f, t) (depends g))"
  by (auto simp: depends_def add_dependency_fwd split: if_splits)

lemma remove_dependency_inv: "dg_inv g \<Longrightarrow> dg_inv (remove_dependency f t g)"
  unfolding dg_inv_def remove_dependency_def Let_def
  by (auto simp: edges_drop_edge map_ok_drop_edge split: if_splits)

lemma remove_dependency_rel: "depends (remove_dependency f t g) = depends g - {(f, t)}"
  by (auto simp: depends_def remove_dependency_def edges_drop_edge Let_def split: if_splits)

lemma remove_file_edges:
  assumes "dg_inv g" "iter_ok it"
  shows "nbrs (forward_edges (dg_remove_file it x g)) k = (if k = x then {} else nbrs (forward_edges g) k - {x})"
    and "nbrs (reverse_edges (dg_remove_file it x g)) k = (if k = x then {} else nbrs (reverse_edges g) k - {x})"
    and "map_ok (forward_edges (dg_remove_file it x g)) \<and> map_ok (reverse_edges (dg_remove_file it x g))"
proof -
  let ?F = "forward_edges g" and ?R = "reverse_edges g"
  have mir: "t \<in> nbrs ?F f \<longleftrightarrow> f \<in> nbrs ?R t" for f t using assms(1) by (simp add: dg_inv_def)
  have fin: "finite (nbrs ?F x)" "finite (nbrs ?R x)" and self: "x \<notin> nbrs ?F x" "x \<notin> nbrs ?R x"
    using assms(1) by (simp_all add: dg_inv_def map_ok_finite_edges map_ok_no_self)
  have F: "?F x = Some S \<Longrightarrow> nbrs ?F x = S" and R: "?R x = Some S \<Longrightarrow> nbrs ?R x = S" for S
    by (simp_all add: nbrs_def)
  have F0: "?F x = None \<Longrightarrow> nbrs ?F x = {}" and R0: "?R x = None \<Longrightarrow> nbrs ?R x = {}"
    by (simp_all add: nbrs_def)
  let ?R1 = "case ?F x of None \<Rightarrow> ?R | Some deps \<Rightarrow> fold (\<lambda>d m. drop_edge d x m) (it deps) ?R"
  have R1: "nbrs ?R1 k = nbrs ?R k - (if x \<in> nbrs ?R k then {x} else {})" for k
    using fin F F0 mir assms(2) by (auto simp: edges_fold_drop split: option.splits)
  have R1x: "?R1 x = ?R x"
  proof (cases "?F x")
    case (Some deps)
    have "x \<notin> set ds \<Longrightarrow> fold (\<lambda>d m. drop_edge d x m) ds m x = m x" for ds m
      by (induction ds arbitrary: m) (auto simp: drop_edge_def split: option.splits)
    with Some F fin self assms(2) show ?thesis by auto
  qed simp
  let ?F1 = "if ?F x = None then ?F else ?F(x := None)"
  let ?F2 = "case ?R x of None \<Rightarrow> ?F1 | Some ds \<Rightarrow> fold (\<lambda>d m. drop_edge d x m) (it ds) ?F1"
  let ?R2 = "if ?R x = None then ?R1 else ?R1(x := None)"
  have fin1: "forward_edges (dg_remove_file it x g) = ?F2" "reverse_edges (dg_remove_file it x g) = ?R2"
    using R1x by (auto simp: dg_remove_file_def Let_def split: option.splits prod.splits if_splits)
  have F1: "nbrs ?F1 k = (if k = x then {} else nbrs ?F k)" using F0 by (auto simp: edges_del)
  show "nbrs (forward_edges (dg_remove_file it x g)) k = (if k = x then {} else nbrs ?F k - {x})"
    unfolding fin1 using F1 fin R R0 mir assms(2) self by (auto simp: edges_fold_drop split: option.splits if_splits)
  show "nbrs (reverse_edges (dg_remove_file it x g)) k = (if k = x then {} else nbrs ?R k - {x})"
    unfolding fin1 using R1 R0 by (auto simp: edges_del split: if_splits)
  have "map_ok ?F1" "map_ok ?R1"
    using assms(1) by (auto simp: dg_inv_def map_ok_del map_ok_fold_drop split: option.splits)
  then show "map_ok (forward_edges (dg_remove_file it x g)) \<and> map_ok (reverse_edges (dg_remove_file it x g))"
    unfolding fin1 by (auto simp: map_ok_del map_ok_fold_drop split: option.splits)
qed

lemma remove_file_inv: "iter_ok it \<Longrightarrow> dg_inv g \<Longrightarrow> dg_inv (dg_remove_file it x g)"
  unfolding dg_inv_def [of "dg_remove_file it x g"]
  using remove_file_edges [of g it x] by (auto simp: dg_inv_def)

lemma remove_file_rel:
  "iter_ok it \<Longrightarrow> dg_inv g \<Longrightarrow> depends (dg_remove_file it x g) = {(f, t) \<in> depends g. f \<noteq> x \<and> t \<noteq> x}"
  by (auto simp: depends_def remove_file_edges split: if_splits)

lemma clear_inv: "dg_inv (dg_clear g)"
  by (simp add: dg_inv_def dg_clear_def)

lemma clear_rel: "depends (dg_clear g) = {}"
  by (simp add: depends_def dg_clear_def)

datatype dg_event = DAdd string string | DAddAll string "string list" | DRemove string string
  | DRemoveFile string | DClear

fun dg_step :: "string iter \<Rightarrow> FileDependencyGraph \<Rightarrow> dg_event \<Rightarrow> FileDependencyGraph" where
  "dg_step it g (DAdd f t) = add_dependency f t g"
| "dg_step it g (DAddAll f ts) = add_dependencies f ts g"
| "dg_step it g (DRemove f t) = remove_dependency f t g"
| "dg_step it g (DRemoveFile f) = dg_remove_file it f g"
| "dg_step it g DClear = dg_clear g"

text \<open>What each operation means for the relation ``depends on''.\<close>

fun rel_step :: "(string \<times> string) set \<Rightarrow> dg_event \<Rightarrow> (string \<times> string) set" where
  "rel_step R (DAdd f t) = R \<union> ({(f, t)} - Id)"
| "rel_step R (DAddAll f ts) = R \<union> ({f} \<times> set ts - Id)"
| "rel_step R (DRemove f t) = R - {(f, t)}"
| "rel_step R (DRemoveFile x) = R - ({x} \<times> UNIV) - (UNIV \<times> {x})"
| "rel_step R DClear = {}"

lemma add_dependencies_inv: "dg_inv g \<Longrightarrow> dg_inv (add_dependencies f ts g)"
  unfolding add_dependencies_def by (induction ts arbitrary: g) (simp_all add: add_dependency_inv)

lemma add_dependencies_rel: "depends (add_dependencies f ts g) = depends g \<union> ({f} \<times> set ts - Id)"
  unfolding add_dependencies_def
  by (induction ts arbitrary: g) (auto simp: add_dependency_rel)

text \<open>Every iteration order that visits each element once gives the same graph machine.\<close>

typedef hash_order = "{it :: string iter. iter_ok it}"
  by (rule exI [of _ sorted_list_of_set]) (simp add: iter_ok_sorted)

lemma hash_order_ok: "iter_ok (Rep_hash_order h)"
  using Rep_hash_order by simp

interpretation dep_graph: refined_machine "dg_step (Rep_hash_order h)" dg_inv depends rel_step for h
proof
  fix g e
  assume inv: "dg_inv g"
  show "dg_inv (dg_step (Rep_hash_order h) g e)"
    using inv by (cases e)
      (simp_all add: add_dependency_inv add_dependencies_inv remove_dependency_inv remove_file_inv hash_order_ok clear_inv)
  show "depends (dg_step (Rep_hash_order h) g e) = rel_step (depends g) e"
    using inv by (cases e)
      (auto simp: add_dependency_rel add_dependencies_rel remove_dependency_rel remove_file_rel hash_order_ok clear_rel)
qed

section \<open>Properties of the graph\<close>

text \<open>
  C28: The graph is the relation its operations describe. After any sequence of additions,
  removals, file removals and clears, for every hash iteration order, a file's dependencies
  are exactly those the abstract relation gives it, its dependents exactly the files that
  depend on it (so the forward and reverse maps agree), and no file depends on itself.
\<close>

theorem graph_refines_relation:
  assumes "iter_ok it"
  shows "let g = foldl (dg_step it) dg_new es; R = foldl rel_step {} es
     in set (get_dependencies it g f) = R `` {f} \<and> set (get_dependents it g f) = R\<inverse> `` {f}
        \<and> (has_dependency g f t \<longleftrightarrow> (f, t) \<in> R) \<and> \<not> has_dependency g f f"
proof -
  obtain h where h: "it = Rep_hash_order h" using assms by (metis Abs_hash_order_inverse mem_Collect_eq)
  let ?g = "foldl (dg_step it) dg_new es"
  have inv: "dg_inv ?g" unfolding h by (rule dep_graph.run_inv) simp
  have R: "foldl rel_step {} es = depends ?g"
    using dep_graph.run_refines [of dg_new h es] unfolding h by simp
  have "\<not> has_dependency ?g f f"
    using inv map_ok_no_self [of "forward_edges ?g" f]
    by (simp add: has_dependency_edges depends_def dg_inv_def)
  with inv assms show ?thesis
    unfolding Let_def R
    by (auto simp: set_get_dependencies set_get_dependents has_dependency_edges depends_def dg_inv_def)
qed

theorem graph_refines_relation_witness:
  "set (get_dependents sorted_list_of_set
      (foldl (dg_step sorted_list_of_set) dg_new
         [DAdd ''a'' ''b'', DAdd ''c'' ''b'', DAdd ''b'' ''b'', DRemoveFile ''c'']) ''b'') = {''a''}"
  using graph_refines_relation [OF iter_ok_sorted,
      of "[DAdd ''a'' ''b'', DAdd ''c'' ''b'', DAdd ''b'' ''b'', DRemoveFile ''c'']" "''b''" "''b''"]
  by (auto simp: Let_def)

section \<open>Breadth-first search by levels\<close>

text \<open>\<open>lev nb s k\<close> holds the nodes reached from \<open>s\<close> in between one and \<open>k\<close> steps.\<close>

fun lev :: "(string \<Rightarrow> string list) \<Rightarrow> string \<Rightarrow> nat \<Rightarrow> string set" where
  "lev nb s 0 = {}"
| "lev nb s (Suc k) = set (nb s) \<union> lev nb s k \<union> (\<Union>x \<in> lev nb s k. set (nb x))"

lemma lev_mono: "i \<le> j \<Longrightarrow> lev nb s i \<subseteq> lev nb s j"
  by (induction j) (auto simp: le_Suc_eq)

lemma lev_closed:
  assumes "1 \<le> k" "\<forall>x \<in> lev nb s k. set (nb x) \<subseteq> lev nb s k"
  shows "k \<le> j \<Longrightarrow> lev nb s j = lev nb s k"
proof (induction j)
  case (Suc j)
  have "set (nb s) \<subseteq> lev nb s k" using lev_mono [OF assms(1), of nb s] by simp
  with Suc assms(2) show ?case by (cases "k = Suc j") auto
qed (use assms in simp)

lemma lev_relpow: "x \<in> lev nb s k \<longleftrightarrow> (\<exists>i. 1 \<le> i \<and> i \<le> k \<and> (s, x) \<in> {(a, b). b \<in> set (nb a)} ^^ i)"
proof (induction k arbitrary: x)
  case (Suc k)
  let ?E = "{(a, b). b \<in> set (nb a)}"
  show ?case
  proof
    assume "x \<in> lev nb s (Suc k)"
    then consider "x \<in> set (nb s)" | "x \<in> lev nb s k" | y where "y \<in> lev nb s k" "x \<in> set (nb y)" by auto
    then show "\<exists>i. 1 \<le> i \<and> i \<le> Suc k \<and> (s, x) \<in> ?E ^^ i"
    proof cases
      case 1
      then show ?thesis by (intro exI [of _ 1]) simp
    next
      case 2
      with Suc.IH show ?thesis using le_SucI by blast
    next
      case 3
      with Suc.IH obtain i where "i \<le> k" "(s, y) \<in> ?E ^^ i" by blast
      with 3 show ?thesis by (intro exI [of _ "Suc i"]) auto
    qed
  next
    assume "\<exists>i. 1 \<le> i \<and> i \<le> Suc k \<and> (s, x) \<in> ?E ^^ i"
    then obtain i where i: "i \<le> k" "(s, x) \<in> ?E ^^ Suc i" by (metis Suc_le_D Suc_le_mono One_nat_def)
    then obtain y where y: "(s, y) \<in> ?E ^^ i" "x \<in> set (nb y)" by auto
    show "x \<in> lev nb s (Suc k)"
    proof (cases i)
      case 0
      with y show ?thesis by simp
    next
      case (Suc j)
      with y(1) i(1) Suc.IH have "y \<in> lev nb s k" by (metis One_nat_def Suc_le_mono le0)
      with y(2) show ?thesis by auto
    qed
  qed
qed auto

lemma push_unvisited_ex:
  "\<exists>new. push_unvisited d deps (v, q) = (v \<union> set deps, q @ map (\<lambda>x. (x, d)) new)
     \<and> set new = set deps - v \<and> distinct new"
proof (induction deps arbitrary: v q)
  case Nil
  then show ?case by (simp add: push_unvisited_def)
next
  case (Cons x deps)
  show ?case
  proof (cases "x \<in> v")
    case True
    then have "push_unvisited d (x # deps) (v, q) = push_unvisited d deps (v, q)"
      by (simp add: push_unvisited_def)
    with Cons [of v q] True show ?thesis by (auto simp: insert_absorb)
  next
    case False
    obtain new where "push_unvisited d deps (insert x v, q @ [(x, d)])
        = (insert x v \<union> set deps, (q @ [(x, d)]) @ map (\<lambda>x. (x, d)) new)"
      "set new = set deps - insert x v" "distinct new" using Cons by blast
    with False show ?thesis
      by (intro exI [of _ "x # new"]) (auto simp: push_unvisited_def)
  qed
qed

lemma bfs_drain:
  "0 < m \<Longrightarrow> \<forall>(x, d) \<in> set q. m < d \<Longrightarrow> bfs nb m visited q acc = Some acc"
  by (induction q) (auto simp: bfs.simps)

definition bfs_result :: "(string \<Rightarrow> string list) \<Rightarrow> string \<Rightarrow> nat \<Rightarrow> string set" where
  "bfs_result nb s m = (if m = 0 then (\<Union>j. lev nb s j) else lev nb s m)"

lemma bfs_result_closed:
  assumes "1 \<le> k" "\<forall>x \<in> lev nb s k. set (nb x) \<subseteq> lev nb s k" "m = 0 \<or> k \<le> m"
  shows "bfs_result nb s m = lev nb s k"
proof -
  have "lev nb s j \<subseteq> lev nb s k" for j
    using lev_closed [OF assms(1,2), of j] lev_mono [of j k nb s] by (cases "k \<le> j") auto
  with assms(3) lev_closed [OF assms(1,2), of m] show ?thesis by (auto simp: bfs_result_def)
qed

lemma card_visit:
  assumes "finite U" "distinct new" "set new \<subseteq> U - v"
  shows "card (U - v) = length new + card (U - (v \<union> set new))"
proof -
  have "U - v = set new \<union> (U - (v \<union> set new))" "set new \<inter> (U - (v \<union> set new)) = {}"
    using assms(3) by auto
  then show ?thesis using assms(1,2) by (metis card_Un_disjoint distinct_card finite_Diff List.finite_set)
qed

lemma bfs_levels:
  assumes "finite U" "\<forall>x \<in> U. set (nb x) \<subseteq> U" "lev nb s k \<union> set B \<subseteq> U"
    and "1 \<le> k" "m = 0 \<or> k \<le> m" "set B \<inter> lev nb s k = {}" "set B \<subseteq> lev nb s (Suc k)"
    and "set A \<subseteq> lev nb s k" "distinct A" "distinct B"
    and "\<forall>x \<in> lev nb s k - set A. set (nb x) \<subseteq> lev nb s k \<union> set B"
  shows "bfs nb m (lev nb s k \<union> set B) (map (\<lambda>x. (x, k)) A @ map (\<lambda>x. (x, Suc k)) B) (lev nb s k - set A)
     = Some (bfs_result nb s m)"
  using assms(3-)
proof (induction "2 * (length A + length B + card (U - (lev nb s k \<union> set B))) + (if A = [] then 1 else 0)"
    arbitrary: A B k rule: less_induct)
  case less
  show ?case
  proof (cases A)
    case (Cons a A')
    let ?v = "lev nb s k \<union> set B"
    obtain new where new: "push_unvisited (Suc k) (nb a) (?v, map (\<lambda>x. (x, k)) A' @ map (\<lambda>x. (x, Suc k)) B)
        = (?v \<union> set (nb a), (map (\<lambda>x. (x, k)) A' @ map (\<lambda>x. (x, Suc k)) B) @ map (\<lambda>x. (x, Suc k)) new)"
      "set new = set (nb a) - ?v" "distinct new" using push_unvisited_ex by blast
    have aU: "a \<in> lev nb s k" "a \<in> U" using less.prems Cons by auto
    with assms(2) have nbU: "set (nb a) \<subseteq> U" by blast
    have v: "?v \<union> set (nb a) = lev nb s k \<union> set (B @ new)" using new(2) by auto
    have acc: "insert a (lev nb s k - set A) = lev nb s k - set A'"
      using aU less.prems(7) Cons by auto
    have "card (U - ?v) = length new + card (U - (?v \<union> set new))"
      using new(2,3) nbU assms(1) by (intro card_visit) auto
    then have "card (U - ?v) = length new + card (U - (lev nb s k \<union> set (B @ new)))"
      by (simp add: Un_assoc)
    then have "bfs nb m (lev nb s k \<union> set (B @ new)) (map (\<lambda>x. (x, k)) A' @ map (\<lambda>x. (x, Suc k)) (B @ new))
        (lev nb s k - set A') = Some (bfs_result nb s m)"
      using less.prems Cons new nbU aU by (intro less.hyps) auto
    moreover have "\<not> (0 < m \<and> m < k)" using less.prems(3) by auto
    ultimately show ?thesis
      using Cons new(1) by (subst bfs.simps) (auto simp add: v acc Cons simp flip: acc)
  next
    case Nil
    show ?thesis
    proof (cases "B = []")
      case True
      then have "\<forall>x \<in> lev nb s k. set (nb x) \<subseteq> lev nb s k" using less.prems Nil by auto
      with less.prems bfs_result_closed [of k nb s m] True Nil show ?thesis by (simp add: bfs.simps)
    next
      case False
      show ?thesis
      proof (cases "m = k")
        case True
        then have "bfs nb m (lev nb s k \<union> set B) (map (\<lambda>x. (x, Suc k)) B) (lev nb s k) = Some (lev nb s k)"
          using less.prems(2) by (intro bfs_drain) auto
        with True Nil less.prems(2) show ?thesis by (simp add: bfs_result_def)
      next
        case neq: False
        have next_lev: "lev nb s (Suc k) = lev nb s k \<union> set B"
          using less.prems Nil lev_mono [of 1 k nb s] by auto
        have "bfs nb m (lev nb s (Suc k) \<union> set []) (map (\<lambda>x. (x, Suc k)) B @ map (\<lambda>x. (x, Suc (Suc k))) [])
            (lev nb s (Suc k) - set B) = Some (bfs_result nb s m)"
        proof (rule less.hyps)
          show "m = 0 \<or> Suc k \<le> m" using less.prems(3) neq by auto
        qed (use less.prems Nil False next_lev in \<open>auto simp del: lev.simps\<close>)
        moreover have "lev nb s (Suc k) - set B = lev nb s k" using next_lev less.prems(4) by auto
        ultimately show ?thesis using Nil next_lev by (simp del: lev.simps)
      qed
    qed
  qed
qed

lemma bfs_from_total:
  assumes "finite U" "\<forall>x. set (nb x) \<subseteq> U"
  shows "bfs_from nb s m = Some (bfs_result nb s m)"
proof -
  obtain new where new: "push_unvisited 1 (nb s) ({}, []) = ({} \<union> set (nb s), [] @ map (\<lambda>x. (x, 1)) new)"
    "set new = set (nb s) - {}" "distinct new" using push_unvisited_ex by blast
  have "bfs nb m (lev nb s 1 \<union> set []) (map (\<lambda>x. (x, 1)) new @ map (\<lambda>x. (x, Suc 1)) []) (lev nb s 1 - set new)
      = Some (bfs_result nb s m)"
    using assms new by (intro bfs_levels [of U]) auto
  with new show ?thesis by (simp add: bfs_from_def)
qed

lemma bfs_result_iff:
  "x \<in> bfs_result nb s m \<longleftrightarrow>
     (\<exists>i. 1 \<le> i \<and> (m = 0 \<or> i \<le> m) \<and> (s, x) \<in> {(a, b). b \<in> set (nb a)} ^^ i)"
  by (auto simp: bfs_result_def lev_relpow)

lemma relpow_converse_iff: "(a, b) \<in> (R\<inverse>) ^^ n \<longleftrightarrow> (b, a) \<in> R ^^ n"
  for R :: "('a \<times> 'a) set"
proof (induction n arbitrary: b)
  case (Suc n)
  have "R ^^ Suc n = R O R ^^ n" by (simp add: relpow_commute)
  then show ?case using Suc by auto
qed auto

lemma finite_ran_edges: "map_ok m \<Longrightarrow> finite (\<Union> (ran m))"
  by (rule finite_Union) (auto simp: map_ok_def finite_ran, auto simp: ran_def)

lemma edges_subset_ran: "nbrs m k \<subseteq> \<Union> (ran m)"
  by (auto simp: nbrs_def ran_def split: option.splits)

lemma bfs_finite:
  assumes "finite U" "\<forall>x. set (nb x) \<subseteq> U"
  shows "finite (bfs_result nb s m)"
proof -
  have "lev nb s k \<subseteq> U" for k using assms(2) by (induction k) auto
  then show ?thesis using assms(1) by (auto simp: bfs_result_def intro: finite_subset)
qed

text \<open>
  C16: The impact set of a change is exact. For every graph the operations can build,
  \<^verbatim>\<open>collect_transitive_dependents\<close> terminates and returns, once each, exactly the files that
  depend on the given one through a chain of at least one and at most \<^verbatim>\<open>max_depth\<close>
  dependencies (of any length when \<^verbatim>\<open>max_depth\<close> is 0).
\<close>

theorem transitive_dependents_exact:
  assumes "iter_ok it" "dg_inv g"
  shows "\<exists>ds. collect_transitive_dependents it g file m = Some ds \<and> distinct ds
     \<and> set ds = {x. \<exists>i. 1 \<le> i \<and> (m = 0 \<or> i \<le> m) \<and> (x, file) \<in> depends g ^^ i}"
proof -
  let ?nb = "get_dependents it g" and ?U = "\<Union> (ran (reverse_edges g))"
  have U: "finite ?U" "\<forall>x. set (?nb x) \<subseteq> ?U"
    using assms edges_subset_ran by (auto simp: dg_inv_def finite_ran_edges set_get_dependents [OF assms])
  have "{(a, b). b \<in> set (?nb a)} = (depends g)\<inverse>"
    using assms by (auto simp: set_get_dependents depends_def dg_inv_def)
  then have "bfs_result ?nb file m = {x. \<exists>i. 1 \<le> i \<and> (m = 0 \<or> i \<le> m) \<and> (x, file) \<in> depends g ^^ i}"
    by (auto simp: bfs_result_iff relpow_converse_iff)
  with bfs_from_total [where nb = ?nb and s = "file" and m = m, OF U]
    bfs_finite [where nb = ?nb and s = "file" and m = m, OF U] assms(1) show ?thesis
    by (simp add: collect_transitive_dependents_def)
qed

theorem transitive_dependents_exact_witness:
  "\<exists>ds. collect_transitive_dependents sorted_list_of_set
       (add_dependency ''a'' ''b'' (add_dependency ''b'' ''c'' dg_new)) ''c'' 0 = Some ds \<and> ''a'' \<in> set ds"
proof -
  let ?g = "add_dependency ''a'' ''b'' (add_dependency ''b'' ''c'' dg_new)"
  have "(''a'', ''c'') \<in> depends ?g ^^ 2"
    by (auto simp: numeral_2_eq_2 add_dependency_rel)
  moreover have "dg_inv ?g" by (simp add: add_dependency_inv)
  ultimately show ?thesis
    using transitive_dependents_exact [OF iter_ok_sorted, of ?g "''c''" 0] by fastforce
qed

section \<open>Kahn's algorithm\<close>

text \<open>The dependencies of a file inside the sorted subset.\<close>

definition sub_deps :: "FileDependencyGraph \<Rightarrow> string list \<Rightarrow> string \<Rightarrow> string set" where
  "sub_deps g files f = nbrs (forward_edges g) f \<inter> set files"

lemma link_fold_deg:
  "deg f = Some n \<Longrightarrow> fst (fold (link_dep fs f) ds (deg, adj)) = deg(f \<mapsto> n + length (filter (\<lambda>d. d \<in> fs) ds))"
  by (induction ds arbitrary: deg adj n) (auto simp: link_dep_def map_entry_def fun_upd_idem)

lemma link_fold_adj:
  "distinct ds \<Longrightarrow> \<forall>d \<in> fs. adj d \<noteq> None \<Longrightarrow>
   snd (fold (link_dep fs f) ds (deg, adj)) d
     = (if d \<in> fs \<and> d \<in> set ds then Some (the (adj d) @ [f]) else adj d)"
  by (induction ds arbitrary: deg adj) (auto simp: link_dep_def map_entry_def split: option.splits)

lemma init_maps_eq:
  "init_maps files = (\<lambda>f. if f \<in> set files then Some 0 else None, \<lambda>f. if f \<in> set files then Some [] else None)"
proof -
  have "fold (\<lambda>f (deg, adj). (deg(f \<mapsto> 0), adj(f \<mapsto> []))) files (deg, adj)
      = (\<lambda>f. if f \<in> set files then Some 0 else deg f, \<lambda>f. if f \<in> set files then Some [] else adj f)" for deg :: degrees and adj :: adjacency
    by (induction files arbitrary: deg adj) (auto simp: fun_eq_iff)
  then show ?thesis by (simp add: init_maps_def)
qed

lemma build_fold:
  assumes "iter_ok it" "dg_inv g" "distinct fl" "\<forall>d \<in> fs. adj d \<noteq> None" "\<forall>f \<in> set fl. deg f = Some 0"
  shows "fold (\<lambda>f s. fold (link_dep fs f) (get_dependencies it g f) s) fl (deg, adj) =
    (\<lambda>f. if f \<in> set fl then Some (card (nbrs (forward_edges g) f \<inter> fs)) else deg f,
     \<lambda>d. if d \<in> fs then Some (the (adj d) @ filter (\<lambda>f. d \<in> nbrs (forward_edges g) f) fl) else adj d)"
  using assms(3-)
proof (induction fl arbitrary: deg adj)
  case Nil
  then show ?case by (auto simp: fun_eq_iff)
next
  case (Cons f fl)
  let ?ds = "get_dependencies it g f"
  obtain deg1 adj1 where s1: "fold (link_dep fs f) ?ds (deg, adj) = (deg1, adj1)" by fastforce
  have len: "length (filter (\<lambda>d. d \<in> fs) ?ds) = card (nbrs (forward_edges g) f \<inter> fs)"
    using distinct_get_dependencies [OF assms(1,2), of f] set_get_dependencies [OF assms(1,2), of f]
    by (simp add: distinct_length_filter) (metis Collect_mem_eq Int_commute)
  have deg: "deg1 = deg(f \<mapsto> card (nbrs (forward_edges g) f \<inter> fs))"
    using link_fold_deg [of deg f 0 fs ?ds adj] Cons.prems(3) len s1 by simp
  have adj: "adj1 d = (if d \<in> fs \<and> d \<in> nbrs (forward_edges g) f then Some (the (adj d) @ [f]) else adj d)" for d
    using link_fold_adj [OF distinct_get_dependencies [OF assms(1,2), of f] Cons.prems(2), of f deg d] s1
    by (simp add: set_get_dependencies [OF assms(1,2)])
  have "fold (\<lambda>f s. fold (link_dep fs f) (get_dependencies it g f) s) fl (deg1, adj1) =
    (\<lambda>f. if f \<in> set fl then Some (card (nbrs (forward_edges g) f \<inter> fs)) else deg1 f,
     \<lambda>d. if d \<in> fs then Some (the (adj1 d) @ filter (\<lambda>f. d \<in> nbrs (forward_edges g) f) fl) else adj1 d)"
    using Cons.prems deg adj by (intro Cons.IH) auto
  then show ?case using Cons.prems s1 by (auto simp: fun_eq_iff deg adj)
qed

lemma build_subgraph_eq:
  assumes "iter_ok it" "dg_inv g" "distinct files"
  shows "build_subgraph it g files =
    (\<lambda>f. if f \<in> set files then Some (card (sub_deps g files f)) else None,
     \<lambda>d. if d \<in> set files then Some (filter (\<lambda>f. d \<in> sub_deps g files f) files) else None)"
  unfolding build_subgraph_def init_maps_eq
  by (subst build_fold [OF assms]) (auto simp: fun_eq_iff sub_deps_def)

lemma relax_distinct:
  assumes "distinct ns" "\<forall>n \<in> set ns. \<exists>d. deg n = Some (Suc d)"
  shows "relax ns deg q = Some (\<lambda>f. if f \<in> set ns then map_option (\<lambda>d. d - 1) (deg f) else deg f,
           q @ filter (\<lambda>n. deg n = Some 1) ns)"
  using assms
proof (induction ns arbitrary: deg q)
  case (Cons n ns)
  then obtain d where d: "deg n = Some (Suc d)" by auto
  have "filter (\<lambda>m. (deg(n \<mapsto> d)) m = Some 1) ns = filter (\<lambda>m. deg m = Some 1) ns"
    using Cons.prems(1) by (intro filter_cong) auto
  moreover have "relax ns (deg(n \<mapsto> d)) q' = Some (\<lambda>f. if f \<in> set ns then map_option (\<lambda>d. d - 1) ((deg(n \<mapsto> d)) f)
      else (deg(n \<mapsto> d)) f, q' @ filter (\<lambda>m. (deg(n \<mapsto> d)) m = Some 1) ns)" for q'
    using Cons.prems by (intro Cons.IH) auto
  ultimately show ?case using Cons.prems(1) d by (auto simp: fun_eq_iff)
qed (simp add: fun_eq_iff)

definition ordered :: "(string \<Rightarrow> string set) \<Rightarrow> string list \<Rightarrow> bool" where
  "ordered D res \<longleftrightarrow> (\<forall>i < length res. D (res ! i) \<subseteq> set (take i res))"

lemma ordered_Nil [simp]: "ordered D []"
  by (simp add: ordered_def)

lemma ordered_snoc: "ordered D (res @ [x]) \<longleftrightarrow> ordered D res \<and> D x \<subseteq> set res"
  by (auto simp: ordered_def nth_append less_Suc_eq)

lemma ordered_member: "ordered D res \<Longrightarrow> x \<in> set res \<Longrightarrow> D x \<subseteq> set res"
  by (force simp: ordered_def in_set_conv_nth dest: in_set_takeD)

text \<open>
  The invariant of the loop: the in-degree of a file counts its dependencies that are not yet
  in the result, the queue holds the files that are ready, and the result is ordered.
\<close>

definition kahn_inv ::
  "string list \<Rightarrow> (string \<Rightarrow> string set) \<Rightarrow> degrees \<Rightarrow> string list \<Rightarrow> string list \<Rightarrow> bool" where
  "kahn_inv files D deg q res \<longleftrightarrow>
     deg = (\<lambda>f. if f \<in> set files then Some (card (D f - set res)) else None)
     \<and> distinct (res @ q) \<and> set res \<subseteq> set files
     \<and> set q = {f \<in> set files - set res. D f \<subseteq> set res} \<and> ordered D res"

lemma kahn_step:
  assumes inv: "kahn_inv files D deg (node # q) res"
    and D: "\<And>f. D f \<subseteq> set files" "\<And>f. f \<notin> D f" and "distinct files"
  shows "\<exists>deg' q'. relax (filter (\<lambda>f. node \<in> D f) files) deg q = Some (deg', q')
     \<and> kahn_inv files D deg' q' (res @ [node])"
proof -
  let ?ns = "filter (\<lambda>f. node \<in> D f) files"
  have node: "node \<notin> set res" "node \<in> set files" "D node \<subseteq> set res" "node \<notin> set q"
    using inv by (auto simp: kahn_inv_def)
  have finD: "finite (D f)" for f using D(1) finite_subset by blast
  have deg: "deg f = (if f \<in> set files then Some (card (D f - set res)) else None)" for f
    using inv by (simp add: kahn_inv_def)
  have dec: "card (D f - set res) = Suc (card (D f - insert node (set res)))" if "node \<in> D f" for f
  proof -
    have "D f - set res = insert node (D f - insert node (set res))" using that node(1) by auto
    then show ?thesis using finD by (metis Diff_iff card_insert_disjoint finite_Diff insertI1)
  qed
  let ?deg = "\<lambda>f. if f \<in> set ?ns then map_option (\<lambda>d. d - 1) (deg f) else deg f"
  let ?new = "filter (\<lambda>n. deg n = Some 1) ?ns"
  have "relax ?ns deg q = Some (?deg, q @ ?new)"
    by (rule relax_distinct) (use \<open>distinct files\<close> dec in \<open>auto simp: deg\<close>)
  moreover have "kahn_inv files D ?deg (q @ ?new) (res @ [node])"
    unfolding kahn_inv_def
  proof (intro conjI)
    show "?deg = (\<lambda>f. if f \<in> set files then Some (card (D f - set (res @ [node]))) else None)"
    proof
      fix f
      have "D f - insert node (set res) = D f - set res" if "node \<notin> D f" using that by auto
      then show "?deg f = (if f \<in> set files then Some (card (D f - set (res @ [node]))) else None)"
        using dec [of f] by (auto simp: deg)
    qed
    have one: "deg n = Some 1 \<longleftrightarrow> D n \<subseteq> insert node (set res)" if "node \<in> D n" "n \<in> set files" for n
      using that dec finD [of n] by (auto simp: deg)
    have fresh: "n \<notin> set res \<and> n \<noteq> node \<and> n \<notin> set q" if "node \<in> D n" for n
      using that node inv ordered_member [of D res n] D(2) by (auto simp: kahn_inv_def)
    show "distinct ((res @ [node]) @ q @ ?new)"
      using inv \<open>distinct files\<close> fresh node by (auto simp: kahn_inv_def)
    show "set (res @ [node]) \<subseteq> set files" using inv node by (auto simp: kahn_inv_def)
    show "set (q @ ?new) = {f \<in> set files - set (res @ [node]). D f \<subseteq> set (res @ [node])}"
    proof -
      have qn: "f \<in> insert node (set q) \<longleftrightarrow> f \<in> set files - set res \<and> D f \<subseteq> set res" for f
        using inv by (auto simp: kahn_inv_def)
      show ?thesis using qn node(4) one fresh by auto
    qed
    show "ordered D (res @ [node])" using inv node by (simp add: kahn_inv_def ordered_snoc)
  qed
  ultimately show ?thesis by blast
qed

lemma kahn_correct:
  assumes "kahn_inv files D deg q res" "\<And>f. D f \<subseteq> set files" "\<And>f. f \<notin> D f" "distinct files"
    and adj: "adj = (\<lambda>d. if d \<in> set files then Some (filter (\<lambda>f. d \<in> D f) files) else None)"
  shows "\<exists>res'. kahn adj deg q res = Some res' \<and> distinct res' \<and> set res' \<subseteq> set files \<and> ordered D res'
     \<and> (\<forall>f \<in> set files - set res'. \<not> D f \<subseteq> set res')"
  using assms(1)
proof (induction "card (set files - set res)" arbitrary: deg q res rule: less_induct)
  case less
  show ?case
  proof (cases q)
    case Nil
    with less.prems show ?thesis by (subst kahn.simps) (auto simp: kahn_inv_def)
  next
    case (Cons node q1)
    then obtain deg' q' where step: "relax (filter (\<lambda>f. node \<in> D f) files) deg q1 = Some (deg', q')"
      "kahn_inv files D deg' q' (res @ [node])"
      using kahn_step less.prems assms(2-4) by blast
    have node: "node \<in> set files" "node \<notin> set res" using less.prems Cons by (auto simp: kahn_inv_def)
    then have "card (set files - set (res @ [node])) < card (set files - set res)"
      by (intro psubset_card_mono) auto
    from less.hyps [OF this step(2)] step(1) Cons node(1) show ?thesis
      by (subst kahn.simps) (simp add: adj)
  qed
qed

lemma topological_sort_run:
  assumes "iter_ok it" "dg_inv g" "distinct files"
  shows "\<exists>res. topological_sort it g files =
       Some (if length res \<noteq> length files
             then Inl (CycleDetected (''Files involved in cycle: '' @ join '', '' (filter (\<lambda>f. f \<notin> set res) files)))
             else Inr res)
     \<and> distinct res \<and> set res \<subseteq> set files \<and> ordered (sub_deps g files) res
     \<and> (\<forall>f \<in> set files - set res. \<not> sub_deps g files f \<subseteq> set res)"
proof (cases "files = []")
  case True
  then show ?thesis by (intro exI [of _ "[]"]) (simp add: topological_sort_def)
next
  case False
  let ?D = "sub_deps g files"
  let ?deg = "\<lambda>f. if f \<in> set files then Some (card (?D f)) else None"
  have fin: "finite (?D f)" for f by (simp add: sub_deps_def)
  have zero: "{f. ?deg f = Some 0} = {f \<in> set files. ?D f = {}}" using fin by auto
  have inv: "kahn_inv files ?D ?deg (it {f. ?deg f = Some 0}) []"
    unfolding kahn_inv_def zero using assms(1) by auto
  have self: "f \<notin> ?D f" and sub: "?D f \<subseteq> set files" for f
    using assms(2) map_ok_no_self [of "forward_edges g" f] by (simp_all add: sub_deps_def dg_inv_def)
  obtain res where "kahn (\<lambda>d. if d \<in> set files then Some (filter (\<lambda>f. d \<in> ?D f) files) else None)
      ?deg (it {f. ?deg f = Some 0}) [] = Some res" "distinct res" "set res \<subseteq> set files" "ordered ?D res"
      "\<forall>f \<in> set files - set res. \<not> ?D f \<subseteq> set res"
    using kahn_correct [OF inv sub self assms(3) refl] by blast
  with False show ?thesis
    unfolding topological_sort_def build_subgraph_eq [OF assms] by (intro exI [of _ res]) simp
qed

lemma ordered_acyclic:
  assumes "ordered D res" "\<And>f t. (f, t) \<in> R \<Longrightarrow> f \<in> set res \<and> t \<in> D f"
  shows "acyclic R"
proof -
  let ?idx = "\<lambda>x. length (takeWhile (\<lambda>y. y \<noteq> x) res)"
  have idx: "?idx x < length res \<and> res ! ?idx x = x" if "x \<in> set res" for x
    using that by (induction res) auto
  have least: "?idx x \<le> i" if "i < length res" "res ! i = x" for x i
    using that
  proof (induction res arbitrary: i)
    case (Cons y res)
    then show ?case by (cases i) auto
  qed simp
  have "(t, f) \<in> measure ?idx" if "(f, t) \<in> R" for f t
  proof -
    from assms(2) [OF that] idx have "?idx f < length res" "t \<in> D (res ! ?idx f)" by auto
    with assms(1) have "t \<in> set (take (?idx f) res)" unfolding ordered_def by blast
    then obtain i where "i < ?idx f" "i < length res" "res ! i = t" by (auto simp: in_set_conv_nth)
    with least [of i t] idx [of f] assms(2) [OF that] show ?thesis by auto
  qed
  then have "R\<inverse> \<subseteq> measure ?idx" by auto
  then have "wf (R\<inverse>)" by (rule wf_subset [OF wf_measure])
  then show ?thesis using wf_acyclic by fastforce
qed

lemma stuck_not_acyclic:
  assumes "finite C" "C \<noteq> {}" "\<And>f. f \<in> C \<Longrightarrow> \<exists>t \<in> C. (f, t) \<in> R"
  shows "\<not> acyclic (R \<inter> C \<times> C)"
proof
  assume "acyclic (R \<inter> C \<times> C)"
  then have wf: "wf ((R \<inter> C \<times> C)\<inverse>)" using assms(1) by (simp add: finite_acyclic_wf_converse)
  obtain c where "c \<in> C" using assms(2) by blast
  show False
  proof (rule wfE_min [OF wf \<open>c \<in> C\<close>])
    fix z
    assume "z \<in> C" and stuck: "\<And>y. (y, z) \<in> (R \<inter> C \<times> C)\<inverse> \<Longrightarrow> y \<notin> C"
    from assms(3) [OF this(1)] obtain t where "t \<in> C" "(z, t) \<in> R" ..
    with stuck [of t] \<open>z \<in> C\<close> show False by simp
  qed
qed

lemma topological_sort_decides:
  assumes "iter_ok it" "dg_inv g" "distinct files"
  shows "let R = depends g \<inter> set files \<times> set files
     in if acyclic R
        then \<exists>order. topological_sort it g files = Some (Inr order) \<and> distinct order \<and> set order = set files
               \<and> (\<forall>i < length order. R `` {order ! i} \<subseteq> set (take i order))
        else \<exists>msg. topological_sort it g files = Some (Inl (CycleDetected msg))"
proof -
  let ?R = "depends g \<inter> set files \<times> set files" and ?D = "sub_deps g files"
  obtain res where run: "topological_sort it g files =
       Some (if length res \<noteq> length files
             then Inl (CycleDetected (''Files involved in cycle: '' @ join '', '' (filter (\<lambda>f. f \<notin> set res) files)))
             else Inr res)"
    and res: "distinct res" "set res \<subseteq> set files" "ordered ?D res" "\<forall>f \<in> set files - set res. \<not> ?D f \<subseteq> set res"
    using topological_sort_run [OF assms] by blast
  have R: "(f, t) \<in> ?R \<longleftrightarrow> f \<in> set files \<and> t \<in> ?D f" for f t by (auto simp: depends_def sub_deps_def)
  have len: "length res = length files \<longleftrightarrow> set res = set files"
    using res(1,2) assms(3) by (metis card_subset_eq distinct_card List.finite_set)
  show ?thesis
  proof (cases "set res = set files")
    case True
    then have "acyclic ?R" using ordered_acyclic [OF res(3)] R by blast
    moreover have "?R `` {res ! i} \<subseteq> set (take i res)" if "i < length res" for i
      using that res(3) R by (auto simp: ordered_def)
    ultimately show ?thesis using run len True res(1) by (auto simp: Let_def)
  next
    case False
    let ?C = "set files - set res"
    have "\<exists>t \<in> ?C. (f, t) \<in> ?R" if "f \<in> ?C" for f
      using that res(4) by (fastforce simp: sub_deps_def depends_def)
    then have "\<not> acyclic (?R \<inter> ?C \<times> ?C)"
      using False res(2) by (intro stuck_not_acyclic) auto
    then have "\<not> acyclic ?R" by (meson acyclic_subset inf_le1)
    with run len False show ?thesis by (simp add: Let_def)
  qed
qed

text \<open>
  C15: The topological sort decides acyclicity and is right when it succeeds. For distinct files
  of any graph the operations can build, it terminates without an arithmetic underflow; it
  returns an order exactly when the dependencies among the given files have no cycle; the order
  holds every file once, with each file after all of its dependencies among them; otherwise it
  reports a cycle.
\<close>

theorem topological_sort_correct:
  assumes "iter_ok it" "dg_inv g" "distinct files"
  shows "let R = depends g \<inter> set files \<times> set files
     in if acyclic R
        then \<exists>order. topological_sort it g files = Some (Inr order) \<and> distinct order \<and> set order = set files
               \<and> (\<forall>i < length order. R `` {order ! i} \<subseteq> set (take i order))
        else \<exists>msg. topological_sort it g files = Some (Inl (CycleDetected msg))"
  by (rule topological_sort_decides [OF assms])

theorem topological_sort_correct_witness:
  "\<exists>order. topological_sort sorted_list_of_set (add_dependency ''a'' ''b'' dg_new) [''a'', ''b'']
      = Some (Inr order) \<and> set order = set [''a'', ''b'']"
proof -
  let ?g = "add_dependency ''a'' ''b'' dg_new"
  have R: "depends ?g \<inter> set [''a'', ''b''] \<times> set [''a'', ''b''] = {(''a'', ''b'')}"
    by (auto simp: add_dependency_rel)
  have "acyclic {(''a'' :: string, ''b'')}" by (simp add: wf_acyclic)
  moreover have "dg_inv ?g" "distinct [''a'', ''b'']" by (simp_all add: add_dependency_inv)
  ultimately show ?thesis
    using topological_sort_correct [OF iter_ok_sorted, of ?g "[''a'', ''b'']"]
    unfolding R Let_def by auto
qed

text \<open>
  Processing always continues. \<^verbatim>\<open>topological_sort_with_fallback\<close> returns a permutation of the
  given distinct files: the dependency order when there is one, and the alphabetical order when
  there is a cycle.
\<close>

theorem fallback_is_permutation:
  assumes "iter_ok it" "dg_inv g" "distinct files"
  shows "\<exists>order. topological_sort_with_fallback it g files = Some order \<and> distinct order
     \<and> set order = set files \<and> (\<not> acyclic (depends g \<inter> set files \<times> set files) \<longrightarrow> order = sort files)"
  using topological_sort_decides [OF assms] assms(3)
  by (auto simp: topological_sort_with_fallback_def Let_def split: if_splits)

theorem fallback_is_permutation_witness:
  "\<exists>order. topological_sort_with_fallback sorted_list_of_set
       (add_dependency ''b'' ''a'' (add_dependency ''a'' ''b'' dg_new)) [''b'', ''a''] = Some order
     \<and> order = sort [''b'', ''a'']"
proof -
  let ?g = "add_dependency ''b'' ''a'' (add_dependency ''a'' ''b'' dg_new)"
  have R: "depends ?g \<inter> set [''b'', ''a''] \<times> set [''b'', ''a''] = {(''a'', ''b''), (''b'', ''a'')}"
    by (auto simp: add_dependency_rel)
  have "\<not> acyclic {(''a'' :: string, ''b''), (''b'', ''a'')}" by auto
  then show ?thesis
    using fallback_is_permutation [OF iter_ok_sorted, of ?g "[''b'', ''a'']"] R
    by (auto simp: add_dependency_inv)
qed

text \<open>
  A file listed twice is reported as a cycle. On a graph without any dependency, sorting a
  list that names one file twice fails with \<^verbatim>\<open>CycleDetected\<close>, because the result is compared with
  the length of the list and not with the number of distinct files.
\<close>

theorem duplicate_file_false_cycle:
  assumes "iter_ok it"
  shows "\<exists>msg. topological_sort it dg_new [f, f] = Some (Inl (CycleDetected msg))"
proof -
  let ?deg = "[f \<mapsto> 0 :: nat]" and ?adj = "[f \<mapsto> [] :: string list]"
  have b: "build_subgraph it dg_new [f, f] = (?deg, ?adj)"
    by (simp add: build_subgraph_def init_maps_def get_dependencies_def dg_new_def)
  have "{x. ?deg x = Some 0} = {f}" by auto
  moreover have "it {f} = [f]"
    using iter_ok_set [OF assms, of "{f}"] iter_ok_distinct [OF assms, of "{f}"]
    by (cases "it {f}"; cases "tl (it {f})") auto
  ultimately have "kahn ?adj ?deg (it {x. ?deg x = Some 0}) [] = Some [f]"
    by (simp add: kahn.simps)
  with b show ?thesis by (simp add: topological_sort_def)
qed

theorem duplicate_file_false_cycle_witness:
  "\<exists>msg. topological_sort sorted_list_of_set dg_new [''a.rs'', ''a.rs''] = Some (Inl (CycleDetected msg))"
  using duplicate_file_false_cycle [OF iter_ok_sorted] by blast

end
