(* ===== verification/Dependency_Cycles.thy ===== *)
theory Dependency_Cycles
  imports Dependency_Graph
begin

text \<open>
  The two depth-first cycle searches of the file dependency graph
  (\<^verbatim>\<open>cce-codegraph/src/dependency_graph.rs\<close>): \<^verbatim>\<open>has_cycle\<close>, which stops at the first back edge,
  and \<^verbatim>\<open>find_all_cycles\<close>, which records one cycle per back edge. Both recurse inside a loop over
  the dependencies of a file, so the loops are combinators that a \<open>partial_function\<close> may recurse
  through; \<open>None\<close> is a search that does not return, and the theorems show that it does.
\<close>

section \<open>Loops\<close>

text \<open>A \<^verbatim>\<open>for\<close> loop whose body may return \<^verbatim>\<open>true\<close> early, and one that runs to its end.\<close>

fun for_until :: "('a \<Rightarrow> 's \<Rightarrow> (bool \<times> 's) option) \<Rightarrow> 'a list \<Rightarrow> 's \<Rightarrow> (bool \<times> 's) option" where
  "for_until body [] s = Some (False, s)"
| "for_until body (x # xs) s =
     Option.bind (body x s) (\<lambda>(b, s'). if b then Some (True, s') else for_until body xs s')"

fun for_each :: "('a \<Rightarrow> 's \<Rightarrow> 's option) \<Rightarrow> 'a list \<Rightarrow> 's \<Rightarrow> 's option" where
  "for_each body [] s = Some s"
| "for_each body (x # xs) s = Option.bind (body x s) (for_each body xs)"

lemma for_until_mono [partial_function_mono]:
  assumes "\<And>x s. mono_option (\<lambda>f. body f x s)"
  shows "mono_option (\<lambda>f. for_until (body f) xs s)"
proof (induction xs arbitrary: s)
  case (Cons x xs)
  have "mono_option (\<lambda>f. case p of (b, s') \<Rightarrow> if b then Some (True, s') else for_until (body f) xs s')" for p
    using Cons by (cases p; cases "fst p") (simp_all add: option.const_mono)
  then show ?case by (simp add: bind_mono assms)
qed (simp add: option.const_mono)

lemma for_each_mono [partial_function_mono]:
  assumes "\<And>x s. mono_option (\<lambda>f. body f x s)"
  shows "mono_option (\<lambda>f. for_each (body f) xs s)"
  by (induction xs arbitrary: s) (simp_all add: option.const_mono bind_mono assms)

section \<open>The searches\<close>

text \<open>The state of a search is the pair of \<^verbatim>\<open>visited\<close> and \<^verbatim>\<open>recursion_stack\<close>.\<close>

partial_function (option) has_cycle_dfs ::
  "(string \<Rightarrow> string list) \<Rightarrow> string \<Rightarrow> string set \<times> string set \<Rightarrow> (bool \<times> string set \<times> string set) option" where
  "has_cycle_dfs deps file st =
     Option.bind
       (for_until (\<lambda>dep (visited, recursion_stack).
            if dep \<notin> visited then has_cycle_dfs deps dep (visited, recursion_stack)
            else Some (dep \<in> recursion_stack, visited, recursion_stack))
          (deps file) (insert file (fst st), insert file (snd st)))
       (\<lambda>(found, visited, recursion_stack).
          if found then Some (True, visited, recursion_stack)
          else Some (False, visited, recursion_stack - {file}))"

definition has_cycle :: "string iter \<Rightarrow> FileDependencyGraph \<Rightarrow> bool option" where
  "has_cycle it g = map_option fst
     (for_until (has_cycle_dfs (get_dependencies it g)) (get_all_files it g) ({}, {}))"

partial_function (option) find_cycles_dfs ::
  "(string \<Rightarrow> string list) \<Rightarrow> string \<Rightarrow> string set \<times> string list \<times> string list list
     \<Rightarrow> (string set \<times> string list \<times> string list list) option" where
  "find_cycles_dfs deps file st =
     (case st of (visited, path, cycles) \<Rightarrow>
        if file \<in> set path
        then Some (visited, path, cycles @ [dropWhile (\<lambda>f. f \<noteq> file) path])
        else if file \<in> visited then Some st
        else Option.bind
               (for_each (find_cycles_dfs deps) (deps file) (visited, path @ [file], cycles))
               (\<lambda>(visited, path, cycles). Some (insert file visited, butlast path, cycles)))"

definition find_all_cycles :: "string iter \<Rightarrow> FileDependencyGraph \<Rightarrow> string list list option" where
  "find_all_cycles it g = map_option snd
     (for_each (\<lambda>file (visited, cycles).
          if file \<notin> visited
          then map_option (\<lambda>(visited, path, cycles). (visited, cycles))
                 (find_cycles_dfs (get_dependencies it g) file (visited, [], cycles))
          else Some (visited, cycles))
        (get_all_files it g) ({}, []))"

section \<open>Searching a finite closed set of files\<close>

definition succ_rel :: "(string \<Rightarrow> string list) \<Rightarrow> (string \<times> string) set" where
  "succ_rel deps = {(a, b). b \<in> set (deps a)}"

text \<open>A set of finished files: closed under dependencies and on no cycle.\<close>

definition finished :: "(string \<Rightarrow> string list) \<Rightarrow> string set \<Rightarrow> bool" where
  "finished deps B \<longleftrightarrow> (\<forall>b \<in> B. set (deps b) \<subseteq> B \<and> (b, b) \<notin> (succ_rel deps)\<^sup>+)"

lemma finished_empty [simp]: "finished deps {}"
  by (simp add: finished_def)

lemma finished_reach: "finished deps B \<Longrightarrow> b \<in> B \<Longrightarrow> (b, x) \<in> (succ_rel deps)\<^sup>* \<Longrightarrow> x \<in> B"
  by (rotate_tac 2, induction rule: rtrancl_induct) (auto simp: finished_def succ_rel_def)

lemma finished_insert:
  assumes "finished deps B" "set (deps f) \<subseteq> B" "f \<notin> B"
  shows "finished deps (insert f B)"
proof -
  have "(f, f) \<notin> (succ_rel deps)\<^sup>+"
  proof
    assume "(f, f) \<in> (succ_rel deps)\<^sup>+"
    then obtain d where "(f, d) \<in> succ_rel deps" "(d, f) \<in> (succ_rel deps)\<^sup>*" by (meson tranclD)
    with assms finished_reach show False by (auto simp: succ_rel_def)
  qed
  with assms show ?thesis by (auto simp: finished_def)
qed

lemma finished_acyclic:
  assumes "finished deps B" "Domain (succ_rel deps) \<subseteq> B"
  shows "acyclic (succ_rel deps)"
  unfolding acyclic_def
proof
  fix x
  show "(x, x) \<notin> (succ_rel deps)\<^sup>+"
    using assms by (metis DomainI finished_def subsetD tranclD)
qed

section \<open>Correctness of \<open>has_cycle\<close>\<close>

text \<open>The body of the loop over the dependencies of a file.\<close>

abbreviation hc_body ::
  "(string \<Rightarrow> string list) \<Rightarrow> string \<Rightarrow> string set \<times> string set \<Rightarrow> (bool \<times> string set \<times> string set) option" where
  "hc_body deps \<equiv> (\<lambda>dep (visited, recursion_stack).
     if dep \<notin> visited then has_cycle_dfs deps dep (visited, recursion_stack)
     else Some (dep \<in> recursion_stack, visited, recursion_stack))"

text \<open>
  What a search from \<open>(vis, stk)\<close> may return: a cycle was found and there is one, or the stack is
  restored and the files \<open>fin\<close> have joined the finished ones.
\<close>

inductive hc_post ::
  "(string \<Rightarrow> string list) \<Rightarrow> string set \<Rightarrow> string set \<Rightarrow> string set \<Rightarrow> string set
     \<Rightarrow> (bool \<times> string set \<times> string set) option \<Rightarrow> bool" for deps U vis stk fin where
  found: "\<not> acyclic (succ_rel deps) \<Longrightarrow> hc_post deps U vis stk fin (Some (True, vis', stk'))"
| clean: "vis \<subseteq> vis' \<Longrightarrow> vis' \<subseteq> U \<Longrightarrow> fin \<subseteq> vis' - stk \<Longrightarrow> finished deps (vis' - stk)
    \<Longrightarrow> hc_post deps U vis stk fin (Some (False, vis', stk))"

lemma has_cycle_loop:
  assumes "\<And>d vis. d \<in> set ds \<Longrightarrow> d \<notin> vis \<Longrightarrow> v \<subseteq> vis \<Longrightarrow> vis \<subseteq> U \<Longrightarrow> finished deps (vis - s)
      \<Longrightarrow> hc_post deps U vis s {d} (has_cycle_dfs deps d (vis, s))"
    and "\<And>d. d \<in> set ds \<Longrightarrow> d \<in> s \<Longrightarrow> \<not> acyclic (succ_rel deps)"
    and "v \<subseteq> U" "finished deps (v - s)"
  shows "hc_post deps U v s (set ds) (for_until (hc_body deps) ds (v, s))"
  using assms
proof (induction ds arbitrary: v)
  case Nil
  then show ?case by (auto intro: hc_post.clean)
next
  case (Cons d ds)
  have step: "hc_post deps U v s (set (d # ds)) (for_until (hc_body deps) ds (v', s))"
    if v': "v \<subseteq> v'" "v' \<subseteq> U" "d \<in> v'" "d \<notin> s" "finished deps (v' - s)" for v'
  proof -
    have "hc_post deps U v' s (set ds) (for_until (hc_body deps) ds (v', s))"
      using Cons.prems v' by (intro Cons.IH) auto
    then show ?thesis using v' by cases (auto intro!: hc_post.intros)
  qed
  show ?case
  proof (cases "d \<in> v")
    case True
    with step [of v] Cons.prems(2) [of d] Cons.prems(3,4) show ?thesis
      by (cases "d \<in> s") (auto intro: hc_post.found)
  next
    case False
    then have "hc_post deps U v s {d} (has_cycle_dfs deps d (v, s))"
      using Cons.prems(1,3,4) by simp
    then show ?thesis using False step by cases (auto intro: hc_post.found)
  qed
qed

lemma has_cycle_dfs_spec:
  assumes U: "finite U" "\<And>u. u \<in> U \<Longrightarrow> set (deps u) \<subseteq> U"
  shows "f \<in> U \<Longrightarrow> f \<notin> vis \<Longrightarrow> stk \<subseteq> vis \<Longrightarrow> vis \<subseteq> U \<Longrightarrow> finished deps (vis - stk)
    \<Longrightarrow> (\<And>s. s \<in> stk \<Longrightarrow> (s, f) \<in> (succ_rel deps)\<^sup>*) \<Longrightarrow> hc_post deps U vis stk {f} (has_cycle_dfs deps f (vis, stk))"
proof (induction "card (U - vis)" arbitrary: f vis stk rule: less_induct)
  case less
  let ?v = "insert f vis" and ?s = "insert f stk"
  have "?v - ?s = vis - stk" using less.prems(2) by blast
  then have "finished deps (?v - ?s)" using less.prems(5) by simp
  moreover have "hc_post deps U vis' ?s {d} (has_cycle_dfs deps d (vis', ?s))"
    if d: "d \<in> set (deps f)" "d \<notin> vis'" "?v \<subseteq> vis'" "vis' \<subseteq> U" "finished deps (vis' - ?s)" for d vis'
  proof (rule less.hyps)
    have "U - vis' \<subset> U - vis" using less.prems(1,2) d(3) by auto
    then show "card (U - vis') < card (U - vis)" using U(1) by (simp add: psubset_card_mono)
    show "(s, d) \<in> (succ_rel deps)\<^sup>*" if "s \<in> ?s" for s
      using less.prems(6) [of s] that d(1) by (auto simp: succ_rel_def intro: rtrancl_into_rtrancl)
    show "d \<in> U" using U(2) [OF less.prems(1)] d(1) by blast
  qed (use d less.prems in auto)
  moreover have "\<not> acyclic (succ_rel deps)" if "d \<in> set (deps f)" "d \<in> ?s" for d
  proof -
    have "(d, f) \<in> (succ_rel deps)\<^sup>*" using less.prems(6) that(2) by auto
    moreover have "(f, d) \<in> succ_rel deps" using that(1) by (simp add: succ_rel_def)
    ultimately show ?thesis by (auto simp: acyclic_def intro: rtrancl_into_trancl2)
  qed
  ultimately have loop: "hc_post deps U ?v ?s (set (deps f)) (for_until (hc_body deps) (deps f) (?v, ?s))"
    using less.prems(1,4) by (intro has_cycle_loop) auto
  have fin: "finished deps (vis' - stk)"
    if "?v \<subseteq> vis'" "set (deps f) \<subseteq> vis' - ?s" "finished deps (vis' - ?s)" for vis'
  proof -
    have "vis' - stk = insert f (vis' - ?s)" using that(1) less.prems(2,3) by auto
    with finished_insert [OF that(3,2)] show ?thesis by simp
  qed
  have "f \<notin> stk" "?s - {f} = stk" using less.prems(2,3) by auto
  with loop fin show ?case
    by (subst has_cycle_dfs.simps) (erule hc_post.cases, auto intro: hc_post.intros)
qed

text \<open>A file that is finished already is searched again by the outer loop, without effect.\<close>

lemma has_cycle_dfs_again:
  assumes "finished deps vis" "f \<in> vis"
  shows "has_cycle_dfs deps f (vis, {}) = Some (False, vis, {})"
proof -
  have self: "f \<notin> set (deps f)" and sub: "set (deps f) \<subseteq> vis"
    using assms by (auto simp: finished_def succ_rel_def)
  have "for_until (hc_body deps) ds (vis, {f}) = Some (False, vis, {f})" if "set ds \<subseteq> set (deps f)" for ds
    using that sub self by (induction ds) auto
  from this [of "deps f"] assms(2) show ?thesis
    by (subst has_cycle_dfs.simps) (simp add: insert_absorb)
qed

lemma has_cycle_outer:
  assumes U: "finite U" "\<And>u. u \<in> U \<Longrightarrow> set (deps u) \<subseteq> U"
  shows "set fs \<subseteq> U \<Longrightarrow> vis \<subseteq> U \<Longrightarrow> finished deps vis
    \<Longrightarrow> hc_post deps U vis {} (set fs) (for_until (has_cycle_dfs deps) fs (vis, {}))"
proof (induction fs arbitrary: vis)
  case Nil
  then show ?case by (auto intro: hc_post.clean)
next
  case (Cons f fs)
  have "hc_post deps U vis {} {f} (has_cycle_dfs deps f (vis, {}))"
    using Cons.prems has_cycle_dfs_again [of deps vis f] has_cycle_dfs_spec [OF U, where f = f and vis = vis and stk = "{}"]
    by (cases "f \<in> vis") (auto intro: hc_post.clean)
  then show ?case
  proof cases
    case (found vis' stk')
    then show ?thesis by (simp add: hc_post.found)
  next
    case (clean vis')
    have "hc_post deps U vis' {} (set fs) (for_until (has_cycle_dfs deps) fs (vis', {}))"
      using Cons clean by auto
    then show ?thesis using clean by cases (auto intro!: hc_post.intros)
  qed
qed

section \<open>Correctness of \<open>find_all_cycles\<close>\<close>

text \<open>A recorded cycle: distinct files, each depending on the next and the last on the first.\<close>

definition is_cycle :: "(string \<Rightarrow> string list) \<Rightarrow> string list \<Rightarrow> bool" where
  "is_cycle deps c \<longleftrightarrow> c \<noteq> [] \<and> distinct c \<and> successively (\<lambda>a b. b \<in> set (deps a)) (c @ [hd c])"

lemma successively_trancl:
  "successively (\<lambda>a b. b \<in> set (deps a)) (x # xs @ [y]) \<Longrightarrow> (x, y) \<in> (succ_rel deps)\<^sup>+"
  by (induction xs arbitrary: x) (auto simp: succ_rel_def intro: trancl_into_trancl2)

lemma is_cycle_not_acyclic: "is_cycle deps c \<Longrightarrow> \<not> acyclic (succ_rel deps)"
  by (cases c) (auto simp: is_cycle_def acyclic_def dest: successively_trancl)

lemma is_cycle_back_edge:
  assumes "successively (\<lambda>a b. b \<in> set (deps a)) (path @ [f])" "distinct path" "f \<in> set path"
  shows "is_cycle deps (dropWhile (\<lambda>x. x \<noteq> f) path)"
proof -
  let ?c = "dropWhile (\<lambda>x. x \<noteq> f) path"
  have ne: "?c \<noteq> []" using assms(3) by (auto simp: dropWhile_eq_Nil_conv)
  then have hd: "hd ?c = f" using hd_dropWhile [of "\<lambda>x. x \<noteq> f" path] by auto
  have "path @ [f] = takeWhile (\<lambda>x. x \<noteq> f) path @ (?c @ [f])" by simp
  with assms(1) have "successively (\<lambda>a b. b \<in> set (deps a)) (?c @ [f])"
    by (metis successively_append_iff)
  with ne hd assms(2) show ?thesis by (simp add: is_cycle_def distinct_dropWhile)
qed

inductive fc_post ::
  "(string \<Rightarrow> string list) \<Rightarrow> string set \<Rightarrow> string set \<Rightarrow> string list \<Rightarrow> string list list \<Rightarrow> string set
     \<Rightarrow> (string set \<times> string list \<times> string list list) option \<Rightarrow> bool" for deps U vis path cycles fin where
  fc_postI: "vis \<subseteq> vis' \<Longrightarrow> vis' \<subseteq> U \<Longrightarrow> vis' \<inter> set path = {}
    \<Longrightarrow> (\<And>c. c \<in> set new \<Longrightarrow> is_cycle deps c)
    \<Longrightarrow> (new = [] \<Longrightarrow> fin \<subseteq> vis' \<and> (finished deps vis \<longrightarrow> finished deps vis'))
    \<Longrightarrow> fc_post deps U vis path cycles fin (Some (vis', path, cycles @ new))"

lemma find_cycles_loop:
  assumes "\<And>d v cs. d \<in> set ds \<Longrightarrow> vis \<subseteq> v \<Longrightarrow> v \<subseteq> U \<Longrightarrow> v \<inter> set path = {}
      \<Longrightarrow> fc_post deps U v path cs {d} (find_cycles_dfs deps d (v, path, cs))"
    and "vis \<subseteq> U" "vis \<inter> set path = {}"
  shows "fc_post deps U vis path cycles (set ds) (for_each (find_cycles_dfs deps) ds (vis, path, cycles))"
  using assms
proof (induction ds arbitrary: vis cycles)
  case Nil
  then show ?case using fc_postI [of vis vis U path "[]"] by simp
next
  case (Cons d ds)
  have "fc_post deps U vis path cycles {d} (find_cycles_dfs deps d (vis, path, cycles))"
    using Cons.prems by simp
  then show ?case
  proof cases
    case 1: (fc_postI v1 new1)
    have "fc_post deps U v1 path (cycles @ new1) (set ds)
        (for_each (find_cycles_dfs deps) ds (v1, path, cycles @ new1))"
      using Cons.prems 1 by (intro Cons.IH) auto
    then show ?thesis
    proof cases
      case 2: (fc_postI v2 new2)
      have "fc_post deps U vis path cycles (set (d # ds)) (Some (v2, path, cycles @ (new1 @ new2)))"
        using 1 2 by (intro fc_postI) auto
      with 1 2 show ?thesis by simp
    qed
  qed
qed

lemma find_cycles_dfs_spec:
  assumes U: "finite U" "\<And>u. u \<in> U \<Longrightarrow> set (deps u) \<subseteq> U"
  shows "f \<in> U \<Longrightarrow> vis \<subseteq> U \<Longrightarrow> vis \<inter> set path = {} \<Longrightarrow> distinct path \<Longrightarrow> set path \<subseteq> U
    \<Longrightarrow> successively (\<lambda>a b. b \<in> set (deps a)) (path @ [f])
    \<Longrightarrow> fc_post deps U vis path cycles {f} (find_cycles_dfs deps f (vis, path, cycles))"
proof (induction "card (U - vis - set path)" arbitrary: f vis path cycles rule: less_induct)
  case less
  show ?case
  proof (cases "f \<in> set path")
    case True
    then have "fc_post deps U vis path cycles {f} (Some (vis, path, cycles @ [dropWhile (\<lambda>x. x \<noteq> f) path]))"
      using less.prems is_cycle_back_edge [of deps path f] by (intro fc_postI) auto
    with True show ?thesis by (subst find_cycles_dfs.simps) simp
  next
    case path: False
    show ?thesis
    proof (cases "f \<in> vis")
      case True
      then have "fc_post deps U vis path cycles {f} (Some (vis, path, cycles @ []))"
        using less.prems by (intro fc_postI) auto
      with True path show ?thesis by (subst find_cycles_dfs.simps) simp
    next
      case False
      have body: "fc_post deps U v (path @ [f]) cs {d} (find_cycles_dfs deps d (v, path @ [f], cs))"
        if d: "d \<in> set (deps f)" "vis \<subseteq> v" "v \<subseteq> U" "v \<inter> set (path @ [f]) = {}" for d v cs
      proof (rule less.hyps)
        have "U - v - set (path @ [f]) \<subset> U - vis - set path" using less.prems(1) path False d(2) by auto
        then show "card (U - v - set (path @ [f])) < card (U - vis - set path)"
          using U(1) by (simp add: psubset_card_mono)
        show "d \<in> U" using U(2) [OF less.prems(1)] d(1) by blast
        show "successively (\<lambda>a b. b \<in> set (deps a)) ((path @ [f]) @ [d])"
          using less.prems(6) d(1) by (simp add: successively_append_iff)
      qed (use d less.prems path in auto)
      have "fc_post deps U vis (path @ [f]) cycles (set (deps f))
          (for_each (find_cycles_dfs deps) (deps f) (vis, path @ [f], cycles))"
        using less.prems path False body by (intro find_cycles_loop) auto
      then show ?thesis
      proof cases
        case 1: (fc_postI v1 new1)
        have "finished deps (insert f v1)" if "new1 = []" "finished deps vis"
          using 1 that by (intro finished_insert) auto
        then have "fc_post deps U vis path cycles {f} (Some (insert f v1, path, cycles @ new1))"
          using 1 less.prems path by (intro fc_postI) auto
        with 1 path False show ?thesis by (subst find_cycles_dfs.simps) simp
      qed
    qed
  qed
qed

abbreviation fc_body ::
  "(string \<Rightarrow> string list) \<Rightarrow> string \<Rightarrow> string set \<times> string list list \<Rightarrow> (string set \<times> string list list) option" where
  "fc_body deps \<equiv> (\<lambda>file (visited, cycles).
     if file \<notin> visited
     then map_option (\<lambda>(visited, path, cycles). (visited, cycles)) (find_cycles_dfs deps file (visited, [], cycles))
     else Some (visited, cycles))"

lemma find_cycles_outer:
  assumes U: "finite U" "\<And>u. u \<in> U \<Longrightarrow> set (deps u) \<subseteq> U"
  shows "set fs \<subseteq> U \<Longrightarrow> vis \<subseteq> U \<Longrightarrow> \<exists>vis' new. for_each (fc_body deps) fs (vis, cycles) = Some (vis', cycles @ new)
    \<and> vis \<subseteq> vis' \<and> (\<forall>c \<in> set new. is_cycle deps c) \<and> (new = [] \<longrightarrow> finished deps vis \<longrightarrow> finished deps vis' \<and> set fs \<subseteq> vis')"
proof (induction fs arbitrary: vis cycles)
  case (Cons f fs)
  have step: "fc_post deps U vis [] cycles {f} (find_cycles_dfs deps f (vis, [], cycles))"
    using Cons.prems by (intro find_cycles_dfs_spec [OF U]) auto
  have "\<exists>vis1 new1. fc_body deps f (vis, cycles) = Some (vis1, cycles @ new1) \<and> vis \<subseteq> vis1 \<and> vis1 \<subseteq> U
      \<and> (\<forall>c \<in> set new1. is_cycle deps c) \<and> (new1 = [] \<longrightarrow> f \<in> vis1 \<and> (finished deps vis \<longrightarrow> finished deps vis1))"
  proof (cases "f \<in> vis")
    case True
    with Cons.prems show ?thesis by (intro exI [of _ vis] exI [of _ "[]"]) auto
  next
    case False
    from step show ?thesis using False by cases auto
  qed
  then obtain vis1 new1 where 1: "fc_body deps f (vis, cycles) = Some (vis1, cycles @ new1)" "vis \<subseteq> vis1" "vis1 \<subseteq> U"
      "\<forall>c \<in> set new1. is_cycle deps c" "new1 = [] \<longrightarrow> f \<in> vis1 \<and> (finished deps vis \<longrightarrow> finished deps vis1)"
    by blast
  obtain vis2 new2 where "for_each (fc_body deps) fs (vis1, cycles @ new1) = Some (vis2, (cycles @ new1) @ new2)"
      "vis1 \<subseteq> vis2" "\<forall>c \<in> set new2. is_cycle deps c"
      "new2 = [] \<longrightarrow> finished deps vis1 \<longrightarrow> finished deps vis2 \<and> set fs \<subseteq> vis2"
    using Cons.IH [of vis1 "cycles @ new1"] Cons.prems(1) 1(3) by auto
  with 1 show ?case by (intro exI [of _ vis2] exI [of _ "new1 @ new2"]) auto
qed auto

section \<open>Properties\<close>

lemma succ_rel_depends: "iter_ok it \<Longrightarrow> dg_inv g \<Longrightarrow> succ_rel (get_dependencies it g) = depends g"
  by (auto simp: succ_rel_def depends_def set_get_dependencies)

lemma finite_file_set: "dg_inv g \<Longrightarrow> finite (file_set g)"
  by (simp add: file_set_def dg_inv_def finite_ran_edges) (simp add: map_ok_def)

lemma file_set_closed: "iter_ok it \<Longrightarrow> dg_inv g \<Longrightarrow> set (get_dependencies it g f) \<subseteq> file_set g"
  using edges_subset_ran [of "forward_edges g" f] by (auto simp: set_get_dependencies file_set_def)

lemma Domain_depends: "Domain (depends g) \<subseteq> file_set g"
  by (auto simp: depends_def file_set_def nbrs_def split: option.splits)

text \<open>
  C23: \<^verbatim>\<open>has_cycle\<close> terminates and decides cycles. On every graph the operations can build and for
  every hash iteration order, the depth-first search returns, and its answer is whether the
  dependency relation has a cycle. The outer loop starts a search at every file, also at the
  ones an earlier search has visited; that never makes it report a cycle that is not there.
\<close>

theorem has_cycle_decides:
  assumes "iter_ok it" "dg_inv g"
  shows "has_cycle it g = Some (\<not> acyclic (depends g))"
proof -
  let ?d = "get_dependencies it g" and ?U = "file_set g"
  have files: "set (get_all_files it g) = ?U" using assms by (simp add: get_all_files_def finite_file_set)
  have "hc_post ?d ?U {} {} (set (get_all_files it g)) (for_until (has_cycle_dfs ?d) (get_all_files it g) ({}, {}))"
    using assms by (intro has_cycle_outer) (auto simp: finite_file_set file_set_closed files)
  then show ?thesis
  proof cases
    case (found vis' stk')
    with assms show ?thesis by (simp add: has_cycle_def succ_rel_depends)
  next
    case (clean vis')
    with assms have "acyclic (succ_rel ?d)"
      using Domain_depends [of g] by (intro finished_acyclic [of _ vis']) (auto simp: files succ_rel_depends)
    with assms clean show ?thesis by (simp add: has_cycle_def succ_rel_depends)
  qed
qed

theorem has_cycle_decides_witness:
  "has_cycle sorted_list_of_set (add_dependency ''b'' ''a'' (add_dependency ''a'' ''b'' dg_new)) = Some True"
proof -
  let ?g = "add_dependency ''b'' ''a'' (add_dependency ''a'' ''b'' dg_new)"
  have "depends ?g = {(''a'', ''b''), (''b'', ''a'')}" by (auto simp: add_dependency_rel)
  moreover have "\<not> acyclic {(''a'' :: string, ''b''), (''b'', ''a'')}" by auto
  ultimately show ?thesis
    using has_cycle_decides [OF iter_ok_sorted, of ?g] by (simp add: add_dependency_inv)
qed

text \<open>
  What \<^verbatim>\<open>find_all_cycles\<close> guarantees. It returns; every list it records is a cycle of distinct
  files in which each file depends on the next and the last on the first; and it records none
  exactly when the dependency relation is acyclic.
\<close>

theorem find_all_cycles_sound:
  assumes "iter_ok it" "dg_inv g"
  shows "\<exists>cs. find_all_cycles it g = Some cs \<and> (cs = [] \<longleftrightarrow> acyclic (depends g))
    \<and> (\<forall>c \<in> set cs. c \<noteq> [] \<and> distinct c \<and> successively (\<lambda>a b. (a, b) \<in> depends g) (c @ [hd c]))"
proof -
  let ?d = "get_dependencies it g" and ?U = "file_set g"
  have files: "set (get_all_files it g) = ?U" using assms by (simp add: get_all_files_def finite_file_set)
  have dep: "b \<in> set (?d a) \<longleftrightarrow> (a, b) \<in> depends g" for a b
    using assms by (simp add: set_get_dependencies depends_def)
  obtain vis' cs where r: "for_each (fc_body ?d) (get_all_files it g) ({}, []) = Some (vis', cs)"
    and cs: "\<forall>c \<in> set cs. is_cycle ?d c" and fin: "cs = [] \<longrightarrow> finished ?d vis' \<and> ?U \<subseteq> vis'"
    using find_cycles_outer [of ?U ?d "get_all_files it g" "{}" "[]"] assms
    by (auto simp: finite_file_set file_set_closed files)
  have "acyclic (depends g)" if "cs = []"
    using finished_acyclic [of ?d vis'] fin that Domain_depends [of g] assms by (auto simp: succ_rel_depends)
  moreover have "cs = []" if "acyclic (depends g)"
    using cs that is_cycle_not_acyclic [of ?d] assms by (cases cs) (auto simp: succ_rel_depends)
  ultimately show ?thesis
    using r cs by (auto simp: find_all_cycles_def is_cycle_def dep)
qed

theorem find_all_cycles_sound_witness:
  "\<exists>cs. find_all_cycles sorted_list_of_set (add_dependency ''b'' ''a'' (add_dependency ''a'' ''b'' dg_new)) = Some cs
     \<and> cs \<noteq> []"
proof -
  let ?g = "add_dependency ''b'' ''a'' (add_dependency ''a'' ''b'' dg_new)"
  have "depends ?g = {(''a'', ''b''), (''b'', ''a'')}" by (auto simp: add_dependency_rel)
  moreover have "\<not> acyclic {(''a'' :: string, ''b''), (''b'', ''a'')}" by auto
  ultimately show ?thesis
    using find_all_cycles_sound [OF iter_ok_sorted, of ?g] by (auto simp: add_dependency_inv)
qed

text \<open>
  \<^verbatim>\<open>find_all_cycles\<close> does not find all cycles. In a graph where \<open>a\<close> depends on \<open>b\<close> and \<open>c\<close>, \<open>b\<close>
  on \<open>c\<close> and \<open>c\<close> on \<open>a\<close>, the search that takes dependencies in alphabetical order records the
  cycle \<open>a, b, c\<close> only; the cycle \<open>a, c\<close> is missed because \<open>c\<close> is already marked visited.
\<close>

theorem find_all_cycles_misses:
  "let g = foldl (dg_step sorted_list_of_set) dg_new
             [DAdd ''a'' ''b'', DAdd ''a'' ''c'', DAdd ''b'' ''c'', DAdd ''c'' ''a'']
   in find_all_cycles sorted_list_of_set g = Some [[''a'', ''b'', ''c'']]
      \<and> is_cycle (get_dependencies sorted_list_of_set g) [''a'', ''c'']"
proof -
  let ?g = "foldl (dg_step sorted_list_of_set) dg_new
             [DAdd ''a'' ''b'', DAdd ''a'' ''c'', DAdd ''b'' ''c'', DAdd ''c'' ''a'']"
  let ?d = "get_dependencies sorted_list_of_set ?g"
  have fwd: "forward_edges ?g = [''a'' \<mapsto> {''b'', ''c''}, ''b'' \<mapsto> {''c''}, ''c'' \<mapsto> {''a''}]"
    by (auto simp: add_dependency_def dg_new_def map_entry_def Let_def)
  have d: "?d ''a'' = [''b'', ''c'']" "?d ''b'' = [''c'']" "?d ''c'' = [''a'']"
    unfolding get_dependencies_def fwd by simp_all
  have "file_set ?g = {''a'', ''b'', ''c''}"
    by (auto simp: add_dependency_def dg_new_def map_entry_def Let_def file_set_def ran_def split: if_splits)
  then have files: "get_all_files sorted_list_of_set ?g = [''a'', ''b'', ''c'']"
    by (simp add: get_all_files_def)
  have "find_cycles_dfs d ''a'' ({}, [], []) = Some ({''a'', ''b'', ''c''}, [], [[''a'', ''b'', ''c'']])"
    if "d ''a'' = [''b'', ''c'']" "d ''b'' = [''c'']" "d ''c'' = [''a'']" for d
    using that by (simp add: find_cycles_dfs.simps insert_commute)
  from this [OF d] have "for_each (fc_body ?d) [''a'', ''b'', ''c''] ({}, []) = Some ({''a'', ''b'', ''c''}, [[''a'', ''b'', ''c'']])"
    by (simp del: foldl.simps)
  with files d show ?thesis
    unfolding Let_def find_all_cycles_def files is_cycle_def by (simp del: foldl.simps)
qed

end
