(* ===== verification/Relation_Types.thy ===== *)
theory Relation_Types
  imports Prelude
begin

text \<open>
  The vocabulary of the relation graph: source positions and spans
  (\<^verbatim>\<open>cce-types/src/types/position.rs\<close>), entity ids (\<^verbatim>\<open>entity/id.rs\<close>), and the classification of
  relations (\<^verbatim>\<open>relation/classification.rs\<close>). A \<^verbatim>\<open>usize\<close> is a 64-bit word.
\<close>

section \<open>Positions and spans\<close>

type_synonym usize = "64 word"

record Position =
  row :: usize
  column :: usize

record Span =
  start_byte :: usize
  end_byte :: usize
  start_position :: Position
  end_position :: Position

definition Position_new :: "usize \<Rightarrow> usize \<Rightarrow> Position" where
  "Position_new r c = \<lparr>row = r, column = c\<rparr>"

definition Span_new :: "usize \<Rightarrow> usize \<Rightarrow> usize \<Rightarrow> usize \<Rightarrow> usize \<Rightarrow> usize \<Rightarrow> Span" where
  "Span_new sb eb sr sc er ec =
     \<lparr>start_byte = sb, end_byte = eb, start_position = \<lparr>row = sr, column = sc\<rparr>,
      end_position = \<lparr>row = er, column = ec\<rparr>\<rparr>"

text \<open>\<open>usize::MAX\<close> is \<open>- 1\<close>.\<close>

definition unavailable :: Span where
  "unavailable = \<lparr>start_byte = 0, end_byte = 0, start_position = \<lparr>row = - 1, column = - 1\<rparr>,
                  end_position = \<lparr>row = - 1, column = - 1\<rparr>\<rparr>"

definition is_available :: "Span \<Rightarrow> bool" where
  "is_available s = (row (start_position s) \<noteq> - 1)"

text \<open>The \<^verbatim>\<open>debug_assert\<close> on the order of the rows is not executed in a release build.\<close>

definition from_lines :: "usize \<Rightarrow> usize \<Rightarrow> Span" where
  "from_lines r1 r2 = Span_new 0 0 r1 0 (saturating_add r2 1) 0"

definition from_line :: "usize \<Rightarrow> Span" where
  "from_line r = from_lines r r"

definition line_range_opt :: "Span \<Rightarrow> (usize \<times> usize) option" where
  "line_range_opt s =
     (if \<not> is_available s then None
      else let start_line = saturating_add (row (start_position s)) 1;
               end_line = (if column (end_position s) = 0
                              \<and> row (end_position s) > row (start_position s)
                           then row (end_position s)
                           else saturating_add (row (end_position s)) 1)
           in Some (start_line, max end_line start_line))"

text \<open>A source text is its UTF-8 bytes; a boundary is an index that is not inside a character.\<close>

definition is_char_boundary :: "u8 list \<Rightarrow> nat \<Rightarrow> bool" where
  "is_char_boundary src i \<longleftrightarrow>
     i = 0 \<or> i = length src \<or> (i < length src \<and> \<not> (128 \<le> src ! i \<and> src ! i < 192))"

definition newlines :: "u8 list \<Rightarrow> nat" where
  "newlines bs = length (filter (\<lambda>b. b = 10) bs)"

fun rfind_newline :: "u8 list \<Rightarrow> nat option" where
  "rfind_newline [] = None"
| "rfind_newline (b # bs) =
     (case rfind_newline bs of
        Some i \<Rightarrow> Some (Suc i)
      | None \<Rightarrow> if b = 10 then Some 0 else None)"

definition column_of :: "u8 list \<Rightarrow> nat \<Rightarrow> nat" where
  "column_of src i = (case rfind_newline (take i src) of None \<Rightarrow> i | Some j \<Rightarrow> i - j - 1)"

definition from_byte_range :: "u8 list \<Rightarrow> nat \<Rightarrow> nat \<Rightarrow> Span option" where
  "from_byte_range src sb eb =
     (if sb > eb \<or> eb > length src \<or> \<not> is_char_boundary src sb \<or> \<not> is_char_boundary src eb then None
      else Some (Span_new (of_nat sb) (of_nat eb)
             (of_nat (newlines (take sb src))) (of_nat (column_of src sb))
             (of_nat (newlines (take eb src))) (of_nat (column_of src eb))))"

definition span_len :: "Span \<Rightarrow> usize" where
  "span_len s = (if end_byte s \<ge> start_byte s then end_byte s - start_byte s else 0)"

definition span_is_empty :: "Span \<Rightarrow> bool" where
  "span_is_empty s = (start_byte s = end_byte s)"

definition span_contains :: "Span \<Rightarrow> Span \<Rightarrow> bool" where
  "span_contains s t = (start_byte s \<le> start_byte t \<and> end_byte s \<ge> end_byte t)"

definition span_overlaps :: "Span \<Rightarrow> Span \<Rightarrow> bool" where
  "span_overlaps s t = (start_byte s < end_byte t \<and> start_byte t < end_byte s)"

section \<open>Entity ids\<close>

text \<open>\<^verbatim>\<open>EntityId(u64)\<close> derives its order from the number.\<close>

type_synonym EntityId = u64

definition FILE_DOC_SENTINEL_ID :: EntityId where
  "FILE_DOC_SENTINEL_ID = - 2"

definition FILE_FALLBACK_SENTINEL_ID :: EntityId where
  "FILE_FALLBACK_SENTINEL_ID = - 1"

section \<open>Levels and external references\<close>

datatype RelationLevel = FileLevel | EntityLevel

fun level_display :: "RelationLevel \<Rightarrow> string" where
  "level_display FileLevel = ''file''"
| "level_display EntityLevel = ''entity''"

definition level_from_str :: "string \<Rightarrow> string + RelationLevel" where
  "level_from_str s =
     (if s = ''file'' then Inr FileLevel else if s = ''entity'' then Inr EntityLevel else Inl s)"

datatype ExternalCallType =
    StandardLibrary (library: string)
  | ExternalLibrary (package: string)
  | DevDependency (package: string)
  | LocalDependency (package: string)
  | Unknown (raw_target: string)

fun library_name :: "ExternalCallType \<Rightarrow> string option" where
  "library_name (StandardLibrary l) = Some l"
| "library_name (ExternalLibrary p) = Some p"
| "library_name (DevDependency p) = Some p"
| "library_name (LocalDependency p) = Some p"
| "library_name (Unknown _) = None"

section \<open>Relation types\<close>

datatype (plugins only: code) RelationType =
    DirectCall | InstanceMethodCall | StaticMethodCall | ChainedMethodCall | ConstructorCall
    | PointerCall | CallbackCall | GenericCall | MacroCall | GoroutineCall | DeferredCall
    | AsyncCall | HigherOrderCall | IncludeLocal | ImportStandard | ImportNamed
    | ImportDefault | ImportNamespace | ImportDynamic | Use | Using | MacroDependency
    | ModuleDependency | Inheritance | Implementation | TraitBound | Contains
    | ImplAssociation | Embedding | Mixin | TraitInheritance | ProtocolImplementation
    | TypeReference | FieldAccess | FunctionReference | ElementContains | TemplateReference
    | ParameterBinding | EventCallback

fun rt_display :: "RelationType \<Rightarrow> string" where
  "rt_display DirectCall = ''call.direct''"
| "rt_display InstanceMethodCall = ''call.method''"
| "rt_display StaticMethodCall = ''call.method.static''"
| "rt_display ChainedMethodCall = ''call.method.chained''"
| "rt_display ConstructorCall = ''call.constructor''"
| "rt_display PointerCall = ''call.pointer''"
| "rt_display CallbackCall = ''call.callback''"
| "rt_display GenericCall = ''call.generic''"
| "rt_display MacroCall = ''call.macro''"
| "rt_display GoroutineCall = ''call.goroutine''"
| "rt_display DeferredCall = ''call.deferred''"
| "rt_display AsyncCall = ''call.async''"
| "rt_display HigherOrderCall = ''call.higher_order''"
| "rt_display IncludeLocal = ''dependency.include''"
| "rt_display ImportStandard = ''dependency.import.standard''"
| "rt_display ImportNamed = ''dependency.import.named''"
| "rt_display ImportDefault = ''dependency.import.default''"
| "rt_display ImportNamespace = ''dependency.import.namespace''"
| "rt_display ImportDynamic = ''dependency.import.dynamic''"
| "rt_display Use = ''dependency.use''"
| "rt_display Using = ''dependency.using''"
| "rt_display MacroDependency = ''dependency.macro''"
| "rt_display ModuleDependency = ''dependency.module''"
| "rt_display Inheritance = ''inheritance''"
| "rt_display Implementation = ''implementation''"
| "rt_display TraitBound = ''trait_bound''"
| "rt_display Contains = ''contains''"
| "rt_display ImplAssociation = ''impl_association''"
| "rt_display Embedding = ''embedding''"
| "rt_display Mixin = ''mixin''"
| "rt_display TraitInheritance = ''trait_inheritance''"
| "rt_display ProtocolImplementation = ''protocol_implementation''"
| "rt_display TypeReference = ''type_reference''"
| "rt_display FieldAccess = ''field_access''"
| "rt_display FunctionReference = ''reference.function''"
| "rt_display ElementContains = ''contains.element''"
| "rt_display TemplateReference = ''reference.template''"
| "rt_display ParameterBinding = ''parameter.binding''"
| "rt_display EventCallback = ''callback.event''"

text \<open>The arms of the match, first match wins; an unknown text is returned as the error.\<close>

definition rt_arms :: "(string \<times> RelationType) list" where
  "rt_arms = [
     (''call.direct'', DirectCall),
     (''call.method'', InstanceMethodCall),
     (''call.method.static'', StaticMethodCall),
     (''call.method.chained'', ChainedMethodCall),
     (''call.constructor'', ConstructorCall),
     (''call.pointer'', PointerCall),
     (''call.callback'', CallbackCall),
     (''call.generic'', GenericCall),
     (''call.macro'', MacroCall),
     (''call.goroutine'', GoroutineCall),
     (''call.deferred'', DeferredCall),
     (''call.async'', AsyncCall),
     (''call.higher_order'', HigherOrderCall),
     (''dependency.include'', IncludeLocal),
     (''dependency.import.standard'', ImportStandard),
     (''dependency.import.named'', ImportNamed),
     (''dependency.import.default'', ImportDefault),
     (''dependency.import.namespace'', ImportNamespace),
     (''dependency.import.dynamic'', ImportDynamic),
     (''dependency.use'', Use),
     (''dependency.using'', Using),
     (''dependency.macro'', MacroDependency),
     (''dependency.module'', ModuleDependency),
     (''inheritance'', Inheritance),
     (''implementation'', Implementation),
     (''trait_bound'', TraitBound),
     (''contains'', Contains),
     (''impl_association'', ImplAssociation),
     (''embedding'', Embedding),
     (''mixin'', Mixin),
     (''trait_inheritance'', TraitInheritance),
     (''protocol_implementation'', ProtocolImplementation),
     (''type_reference'', TypeReference),
     (''field_access'', FieldAccess),
     (''reference.function'', FunctionReference),
     (''contains.element'', ElementContains),
     (''reference.template'', TemplateReference),
     (''parameter.binding'', ParameterBinding),
     (''callback.event'', EventCallback)]"

definition rt_from_str :: "string \<Rightarrow> string + RelationType" where
  "rt_from_str s = (case map_of rt_arms s of Some t \<Rightarrow> Inr t | None \<Rightarrow> Inl s)"

definition is_call :: "RelationType \<Rightarrow> bool" where
  "is_call t \<longleftrightarrow> t \<in> {DirectCall, InstanceMethodCall, StaticMethodCall, ChainedMethodCall, ConstructorCall
        , PointerCall, CallbackCall, GenericCall, MacroCall, GoroutineCall, DeferredCall
        , AsyncCall, HigherOrderCall}"

definition is_dependency :: "RelationType \<Rightarrow> bool" where
  "is_dependency t \<longleftrightarrow> t \<in> {IncludeLocal, ImportStandard, ImportNamed, ImportDefault, ImportNamespace
        , ImportDynamic, Use, Using, MacroDependency, ModuleDependency}"

definition is_structural :: "RelationType \<Rightarrow> bool" where
  "is_structural t \<longleftrightarrow> t \<in> {Inheritance, Implementation, TraitBound, Contains, ImplAssociation, Embedding, Mixin
        , TraitInheritance, ProtocolImplementation}"

definition is_reference :: "RelationType \<Rightarrow> bool" where
  "is_reference t \<longleftrightarrow> t \<in> {TypeReference, FieldAccess, FunctionReference}"

definition is_method_call :: "RelationType \<Rightarrow> bool" where
  "is_method_call t \<longleftrightarrow> t \<in> {InstanceMethodCall, StaticMethodCall, ChainedMethodCall}"

definition is_import :: "RelationType \<Rightarrow> bool" where
  "is_import t \<longleftrightarrow> t \<in> {ImportStandard, ImportNamed, ImportDefault, ImportNamespace, ImportDynamic}"

definition is_include :: "RelationType \<Rightarrow> bool" where
  "is_include t \<longleftrightarrow> t \<in> {IncludeLocal}"

definition is_template_relation :: "RelationType \<Rightarrow> bool" where
  "is_template_relation t \<longleftrightarrow> t \<in> {ElementContains, TemplateReference, ParameterBinding, EventCallback}"

definition is_constructor_call :: "RelationType \<Rightarrow> bool" where
  "is_constructor_call t \<longleftrightarrow> t \<in> {ConstructorCall}"

definition domain :: "RelationType \<Rightarrow> string" where
  "domain t =
     (if is_call t then ''call''
      else if is_dependency t then ''dependency''
      else if is_structural t then ''structural''
      else if is_template_relation t then ''template''
      else if is_reference t then ''reference''
      else ''other'')"

section \<open>Lemmas\<close>

lemma rt_arms_display: "map (\<lambda>(s, t). rt_display t = s) rt_arms = replicate 39 True"
  by (simp add: rt_arms_def numeral_nat)

lemma rt_arms_sound: "(s, t) \<in> set rt_arms \<Longrightarrow> rt_display t = s"
proof -
  assume "(s, t) \<in> set rt_arms"
  then have "(\<lambda>(s, t). rt_display t = s) (s, t) \<in> set (map (\<lambda>(s, t). rt_display t = s) rt_arms)"
    by (metis image_eqI list.set_map)
  then show ?thesis unfolding rt_arms_display by simp
qed

lemma rt_from_display: "rt_from_str (rt_display t) = Inr t"
  by (cases t) (simp_all add: rt_from_str_def rt_arms_def)

lemma newlines_le: "newlines bs \<le> length bs"
  by (simp add: newlines_def)

lemma newlines_snoc: "newlines (bs @ [b]) = newlines bs + (if b = 10 then 1 else 0)"
  by (simp add: newlines_def)

lemma newlines_take_mono: "i \<le> j \<Longrightarrow> newlines (take i bs) \<le> newlines (take j bs)"
proof -
  assume "i \<le> j"
  then have "take j bs = take i bs @ take (j - i) (drop i bs)" by (metis le_add_diff_inverse take_add)
  then show ?thesis by (simp add: newlines_def)
qed

lemma rfind_snoc: "rfind_newline (bs @ [b]) = (if b = 10 then Some (length bs) else rfind_newline bs)"
  by (induction bs) (auto split: option.splits)

lemma rfind_less: "rfind_newline bs = Some i \<Longrightarrow> i < length bs"
  by (induction bs arbitrary: i) (auto split: option.splits if_splits)

lemma take_Suc_snoc: "i < length bs \<Longrightarrow> take (Suc i) bs = take i bs @ [bs ! i]"
  by (simp add: take_Suc_conv_app_nth)

lemma column_of_Suc:
  assumes "i < length src"
  shows "column_of src (Suc i) = 0 \<longleftrightarrow> src ! i = 10"
proof -
  have "rfind_newline (take i src) = Some j \<Longrightarrow> j < i" for j
    using assms rfind_less [of "take i src" j] by simp
  with assms show ?thesis
    by (auto simp: column_of_def take_Suc_snoc rfind_snoc split: option.splits)
qed

lemma unat_of_nat_small: "n < 2 ^ 64 \<Longrightarrow> unat (of_nat n :: usize) = n"
  by (simp add: unat_of_nat)

lemma unat_saturating_Suc: "n < 2 ^ 64 - 1 \<Longrightarrow> unat (saturating_add (of_nat n :: usize) 1) = Suc n"
  using unat_of_nat_small [of n] by (simp add: unat_saturating_add)

section \<open>Properties\<close>

text \<open>
  The text form of a relation type is a faithful encoding: parsing accepts exactly the
  texts that \<^verbatim>\<open>Display\<close> prints and returns the type that prints them, so stored relation types
  survive the round trip and no two types share a text. The five domain predicates cut the
  types into disjoint groups that cover all of them, so \<^verbatim>\<open>domain\<close> never answers \<^verbatim>\<open>other\<close>.
\<close>

theorem relation_type_encoding:
  "(rt_from_str s = Inr t \<longleftrightarrow> rt_display t = s)
   \<and> length (filter id [is_call t, is_dependency t, is_structural t, is_reference t, is_template_relation t]) = 1
   \<and> domain t \<noteq> ''other''"
proof (intro conjI)
  show "rt_from_str s = Inr t \<longleftrightarrow> rt_display t = s"
  proof
    assume "rt_from_str s = Inr t"
    then have "map_of rt_arms s = Some t" by (simp add: rt_from_str_def split: option.splits)
    then show "rt_display t = s" by (intro rt_arms_sound map_of_SomeD)
  qed (use rt_from_display in blast)
  show "length (filter id [is_call t, is_dependency t, is_structural t, is_reference t, is_template_relation t]) = 1"
    by (cases t) (simp_all add: is_call_def is_dependency_def is_structural_def is_reference_def is_template_relation_def)
  show "domain t \<noteq> ''other''"
    by (cases t) (simp_all add: domain_def is_call_def is_dependency_def is_structural_def is_reference_def
        is_template_relation_def)
qed

text \<open>
  Line numbers of a span are exact. For a non-empty byte range of a text, the line range
  of the span \<^verbatim>\<open>from_byte_range\<close> builds is, one-based, from the line of its first byte to the line
  of its last byte; a range that ends just after a newline does not claim the next line.
\<close>

theorem span_lines_exact:
  assumes "from_byte_range src a b = Some s" "a < b" "length src < 2 ^ 64 - 1"
  shows "map_option (\<lambda>(l1, l2). (unat l1, unat l2)) (line_range_opt s)
     = Some (Suc (newlines (take a src)), Suc (newlines (take (b - 1) src)))"
proof -
  define sr er ec where defs: "sr = newlines (take a src)" "er = newlines (take b src)" "ec = column_of src b"
  have b: "b \<le> length src" using assms(1) by (auto simp: from_byte_range_def split: if_splits)
  have s: "s = Span_new (of_nat a) (of_nat b) (of_nat sr) (of_nat (column_of src a)) (of_nat er) (of_nat ec)"
    using assms(1) by (auto simp: from_byte_range_def defs split: if_splits)
  obtain i where i: "b = Suc i" "i < length src" "a \<le> i" using assms(2) b by (cases b) auto
  have small: "sr < 2 ^ 64 - 1" "er < 2 ^ 64 - 1" "ec < 2 ^ 64"
    using newlines_le [of "take a src"] newlines_le [of "take b src"] assms(3) b i
    by (auto simp: column_of_def defs split: option.splits)
  have end_row: "er = newlines (take i src) + (if src ! i = 10 then 1 else 0)"
    using i by (simp add: take_Suc_snoc newlines_snoc defs)
  have mono: "sr \<le> newlines (take i src)" unfolding defs using i(3) by (rule newlines_take_mono)
  have avail: "is_available s"
    using small(1) by (auto simp: is_available_def s Span_new_def word_unat_eq_iff unat_of_nat unat_max_word)
  have col0: "(of_nat ec :: usize) = 0 \<longleftrightarrow> src ! i = 10"
    using small(3) column_of_Suc [OF i(2)] i(1) by (simp add: word_unat_eq_iff unat_of_nat defs)
  have gt: "(of_nat sr :: usize) < of_nat er \<longleftrightarrow> sr < er"
    using small by (simp add: word_less_nat_alt unat_of_nat)
  have max: "unat (max x y) = max (unat x) (unat y)" for x y :: usize
    by (simp add: max_def word_le_nat_alt)
  have "map_option (\<lambda>(l1, l2). (unat l1, unat l2)) (line_range_opt s)
      = Some (Suc sr, max (if src ! i = 10 \<and> sr < er then er else Suc er) (Suc sr))"
    using avail small
    by (simp add: line_range_opt_def s Span_new_def col0 gt max Let_def unat_saturating_Suc unat_of_nat_small)
  with end_row mono i(1) show ?thesis by (simp add: defs(1) split: if_splits)
qed

theorem span_lines_exact_witness:
  "\<exists>s. from_byte_range [97, 10, 98, 10, 99] 2 4 = Some s
     \<and> map_option (\<lambda>(l1, l2). (unat l1, unat l2)) (line_range_opt s) = Some (Suc 1, Suc 1)"
proof -
  obtain s where s: "from_byte_range [97, 10, 98, 10, 99] 2 4 = Some s"
    by (simp add: from_byte_range_def is_char_boundary_def)
  from span_lines_exact [OF this] have "map_option (\<lambda>(l1, l2). (unat l1, unat l2)) (line_range_opt s) = Some (Suc 1, Suc 1)"
    by (simp add: newlines_def)
  with s show ?thesis by blast
qed

end
