(* ===== verification/Entity_Model.thy ===== *)
theory Entity_Model
  imports Relation_Types
begin

text \<open>
  The semantic entity (\<^verbatim>\<open>core/cce-types/src/types/entity/full.rs\<close>), its cross-language kind
  (\<^verbatim>\<open>entity/kind.rs\<close>) and the standard library category (\<^verbatim>\<open>stdlib_category.rs\<close>). The kinds
  carry the prefix \<open>K\<close>, the fields of an entity the prefix \<open>e_\<close>.
\<close>

section \<open>Kinds\<close>

datatype (plugins only: code) EntityKind =
    KUnknown | KClass | KStruct | KEnum | KInterface | KTrait | KTraitImpl | KInherentImpl
    | KTypeAlias | KUnion | KEnumVariant | KAnnotation | KMacro | KFunction | KMethod
    | KConstructor | KAccessor | KDestructor | KOperator | KField | KProperty | KVariable
    | KConstant | KModule | KNamespace | KPackage | KImport | KRequire | KInclude | KExport
    | KStyleRule | KStyleSelector | KStyleProperty | KKeyframe | KElement | KAttribute
    | KExpression | KComponent | KTemplate | KDirective | KControlFlow | KAnimation | KBinding
    | KAction | KAtRule | KEventHandler | KScriptContent | KStyleContent | KEmbeddedBlock
    | KTestSuite | KTestCase | KTestHook | KAssertion | KMock

primrec kind_display :: "EntityKind \<Rightarrow> string" where
  "kind_display KUnknown = ''unknown''"
| "kind_display KClass = ''class''"
| "kind_display KStruct = ''struct''"
| "kind_display KEnum = ''enum''"
| "kind_display KInterface = ''interface''"
| "kind_display KTrait = ''trait''"
| "kind_display KTraitImpl = ''trait_impl''"
| "kind_display KInherentImpl = ''inherent_impl''"
| "kind_display KTypeAlias = ''type_alias''"
| "kind_display KUnion = ''union''"
| "kind_display KEnumVariant = ''enum_variant''"
| "kind_display KAnnotation = ''annotation''"
| "kind_display KMacro = ''macro''"
| "kind_display KFunction = ''function''"
| "kind_display KMethod = ''method''"
| "kind_display KConstructor = ''constructor''"
| "kind_display KAccessor = ''accessor''"
| "kind_display KDestructor = ''destructor''"
| "kind_display KOperator = ''operator''"
| "kind_display KField = ''field''"
| "kind_display KProperty = ''property''"
| "kind_display KVariable = ''variable''"
| "kind_display KConstant = ''constant''"
| "kind_display KModule = ''module''"
| "kind_display KNamespace = ''namespace''"
| "kind_display KPackage = ''package''"
| "kind_display KImport = ''import''"
| "kind_display KRequire = ''require''"
| "kind_display KInclude = ''include''"
| "kind_display KExport = ''export''"
| "kind_display KStyleRule = ''style_rule''"
| "kind_display KStyleSelector = ''style_selector''"
| "kind_display KStyleProperty = ''style_property''"
| "kind_display KKeyframe = ''keyframe''"
| "kind_display KElement = ''element''"
| "kind_display KAttribute = ''attribute''"
| "kind_display KExpression = ''expression''"
| "kind_display KComponent = ''component''"
| "kind_display KTemplate = ''template''"
| "kind_display KDirective = ''directive''"
| "kind_display KControlFlow = ''control_flow''"
| "kind_display KAnimation = ''animation''"
| "kind_display KBinding = ''binding''"
| "kind_display KAction = ''action''"
| "kind_display KAtRule = ''at_rule''"
| "kind_display KEventHandler = ''event_handler''"
| "kind_display KScriptContent = ''script_content''"
| "kind_display KStyleContent = ''style_content''"
| "kind_display KEmbeddedBlock = ''embedded_block''"
| "kind_display KTestSuite = ''test_suite''"
| "kind_display KTestCase = ''test_case''"
| "kind_display KTestHook = ''test_hook''"
| "kind_display KAssertion = ''assertion''"
| "kind_display KMock = ''mock''"

primrec kind_label :: "EntityKind \<Rightarrow> string" where
  "kind_label KModule = ''module''"
| "kind_label KNamespace = ''namespace''"
| "kind_label KPackage = ''package''"
| "kind_label KClass = ''class''"
| "kind_label KStruct = ''struct''"
| "kind_label KEnum = ''enum''"
| "kind_label KEnumVariant = ''variant''"
| "kind_label KUnion = ''union''"
| "kind_label KTrait = ''trait''"
| "kind_label KInterface = ''interface''"
| "kind_label KTraitImpl = ''trait implementation''"
| "kind_label KInherentImpl = ''inherent implementation''"
| "kind_label KTypeAlias = ''type alias''"
| "kind_label KFunction = ''function''"
| "kind_label KMethod = ''method''"
| "kind_label KConstructor = ''constructor''"
| "kind_label KAccessor = ''accessor''"
| "kind_label KDestructor = ''destructor''"
| "kind_label KOperator = ''operator''"
| "kind_label KField = ''field''"
| "kind_label KProperty = ''property''"
| "kind_label KVariable = ''variable''"
| "kind_label KConstant = ''constant''"
| "kind_label KImport = ''import''"
| "kind_label KRequire = ''require''"
| "kind_label KInclude = ''include''"
| "kind_label KExport = ''export''"
| "kind_label KAnnotation = ''annotation''"
| "kind_label KMacro = ''macro''"
| "kind_label KStyleRule = ''style rule''"
| "kind_label KStyleSelector = ''style selector''"
| "kind_label KStyleProperty = ''style property''"
| "kind_label KKeyframe = ''keyframe''"
| "kind_label KElement = ''element''"
| "kind_label KAttribute = ''attribute''"
| "kind_label KExpression = ''expression''"
| "kind_label KComponent = ''component''"
| "kind_label KTemplate = ''template''"
| "kind_label KDirective = ''directive''"
| "kind_label KControlFlow = ''control flow''"
| "kind_label KAnimation = ''animation''"
| "kind_label KBinding = ''binding''"
| "kind_label KAction = ''action''"
| "kind_label KAtRule = ''at-rule''"
| "kind_label KEventHandler = ''event handler''"
| "kind_label KScriptContent = ''script content''"
| "kind_label KStyleContent = ''style content''"
| "kind_label KEmbeddedBlock = ''embedded block''"
| "kind_label KTestSuite = ''test suite''"
| "kind_label KTestCase = ''test case''"
| "kind_label KTestHook = ''test hook''"
| "kind_label KAssertion = ''assertion''"
| "kind_label KMock = ''mock''"
| "kind_label KUnknown = ''unknown''"

definition is_type_definition :: "EntityKind \<Rightarrow> bool" where
  "is_type_definition k = (k \<in> {KClass, KStruct, KEnum, KInterface, KTrait, KTraitImpl, KInherentImpl, KTypeAlias, KUnion})"

definition is_macro_like :: "EntityKind \<Rightarrow> bool" where
  "is_macro_like k = (k \<in> {KMacro})"

definition is_annotation_like :: "EntityKind \<Rightarrow> bool" where
  "is_annotation_like k = (k \<in> {KAnnotation})"

definition is_function_like :: "EntityKind \<Rightarrow> bool" where
  "is_function_like k = (k \<in> {KFunction, KMethod, KAccessor, KConstructor, KDestructor, KOperator})"

definition is_callable_target :: "EntityKind \<Rightarrow> bool" where
  "is_callable_target k = (k \<in> {KFunction, KMethod, KConstructor, KDestructor, KOperator})"

definition is_variable_like :: "EntityKind \<Rightarrow> bool" where
  "is_variable_like k = (k \<in> {KField, KProperty, KVariable, KConstant, KEnumVariant})"

definition is_module_like :: "EntityKind \<Rightarrow> bool" where
  "is_module_like k = (k \<in> {KModule, KNamespace, KPackage})"

definition is_namespace :: "EntityKind \<Rightarrow> bool" where
  "is_namespace k = (k \<in> {KNamespace})"

definition is_import_like :: "EntityKind \<Rightarrow> bool" where
  "is_import_like k = (k \<in> {KImport, KRequire, KInclude, KExport})"

definition is_template_entity :: "EntityKind \<Rightarrow> bool" where
  "is_template_entity k = (k \<in> {KElement, KAttribute, KExpression, KComponent, KTemplate, KDirective, KControlFlow,
     KBinding, KAction, KEventHandler})"

definition is_style_related :: "EntityKind \<Rightarrow> bool" where
  "is_style_related k = (k \<in> {KStyleRule, KStyleSelector, KStyleProperty, KKeyframe})"

definition is_element_like :: "EntityKind \<Rightarrow> bool" where
  "is_element_like k = (k \<in> {KElement, KClass})"

definition is_test_entity :: "EntityKind \<Rightarrow> bool" where
  "is_test_entity k = (k \<in> {KTestSuite, KTestCase, KTestHook})"

definition is_constructible_type :: "EntityKind \<Rightarrow> bool" where
  "is_constructible_type k = (k \<in> {KStruct, KClass, KEnum, KEnumVariant, KUnion})"

definition is_test_related :: "EntityKind \<Rightarrow> bool" where
  "is_test_related k = (k \<in> {KTestSuite, KTestCase, KTestHook, KAssertion, KMock})"

definition is_impl_block :: "EntityKind \<Rightarrow> bool" where
  "is_impl_block k = (k \<in> {KTraitImpl, KInherentImpl})"

definition is_named_semantic_entity :: "EntityKind \<Rightarrow> bool" where
  "is_named_semantic_entity k = (k \<in> {KClass, KStruct, KEnum, KInterface, KTrait, KTypeAlias, KUnion, KFunction, KMethod,
     KConstructor, KDestructor, KOperator, KConstant, KModule, KNamespace, KPackage,
     KComponent, KTestSuite, KTestCase})"

section \<open>Domains\<close>

datatype EntityDomain = DCode | DModule | DStyle | DTemplate | DTest | DUnknown

definition kind_domain :: "EntityKind \<Rightarrow> EntityDomain" where
  "kind_domain k =
     (if is_style_related k then DStyle
      else if is_template_entity k then DTemplate
      else if is_test_related k then DTest
      else if is_module_like k \<or> is_import_like k then DModule
      else if k = KUnknown then DUnknown
      else DCode)"

definition is_code_domain :: "EntityKind \<Rightarrow> bool" where
  "is_code_domain k = (kind_domain k = DCode)"

definition is_position_scoped :: "EntityKind \<Rightarrow> bool" where
  "is_position_scoped k = (is_variable_like k \<or> is_annotation_like k)"

definition can_have_children :: "EntityKind \<Rightarrow> bool" where
  "can_have_children k = (is_type_definition k \<or> is_module_like k
     \<or> k \<in> {KElement, KStyleRule, KComponent, KTemplate, KControlFlow})"

definition can_be_caller :: "EntityKind \<Rightarrow> bool" where
  "can_be_caller k = (is_code_domain k \<and> is_function_like k)"

lemmas kind_preds = is_type_definition_def is_macro_like_def is_annotation_like_def is_function_like_def
  is_callable_target_def is_variable_like_def is_module_like_def is_namespace_def is_import_like_def
  is_template_entity_def is_style_related_def is_element_like_def is_test_entity_def
  is_constructible_type_def is_test_related_def is_impl_block_def is_named_semantic_entity_def
  kind_domain_def is_code_domain_def is_position_scoped_def can_have_children_def can_be_caller_def

section \<open>Entities\<close>

datatype StdlibCategory =
    ScCollection | ScIo | ScConcurrency | ScUtility | ScString | ScNumeric | ScError | ScMacro | ScTrait | ScOther

fun stdlib_display :: "StdlibCategory \<Rightarrow> string" where
  "stdlib_display ScCollection = ''collections''"
| "stdlib_display ScIo = ''io''"
| "stdlib_display ScConcurrency = ''concurrency''"
| "stdlib_display ScUtility = ''utilities''"
| "stdlib_display ScString = ''strings''"
| "stdlib_display ScNumeric = ''numerics''"
| "stdlib_display ScError = ''errors''"
| "stdlib_display ScMacro = ''macros''"
| "stdlib_display ScTrait = ''traits''"
| "stdlib_display ScOther = ''other_stdlib''"

record Entity =
  e_id :: EntityId
  e_kind :: EntityKind
  e_name :: string
  e_signature :: string
  e_parameters :: "(string \<times> string option) list"
  e_return_type :: "string option"
  e_span :: Span
  e_depth :: usize
  e_parent :: "EntityId option"
  e_children :: "EntityId list"
  e_doc_comment :: "string option"
  e_modifiers :: "string list"
  e_attributes :: "string \<rightharpoonup> string"
  e_metadata :: "string \<rightharpoonup> string"
  e_is_stdlib :: bool
  e_stdlib_category :: "StdlibCategory option"
  e_subtype :: "string option"

definition Entity_new :: "EntityId \<Rightarrow> EntityKind \<Rightarrow> string \<Rightarrow> Span \<Rightarrow> Entity" where
  "Entity_new i k n s =
     \<lparr>e_id = i, e_kind = k, e_name = n, e_signature = [], e_parameters = [], e_return_type = None, e_span = s,
      e_depth = 0, e_parent = None, e_children = [], e_doc_comment = None, e_modifiers = [],
      e_attributes = Map.empty, e_metadata = Map.empty, e_is_stdlib = False, e_stdlib_category = None,
      e_subtype = None\<rparr>"

definition add_child :: "EntityId \<Rightarrow> Entity \<Rightarrow> Entity" where
  "add_child c e = (if c \<in> set (e_children e) then e else e\<lparr>e_children := e_children e @ [c]\<rparr>)"

definition source_len :: "Entity \<Rightarrow> usize" where
  "source_len e = span_len (e_span e)"

definition is_top_level :: "Entity \<Rightarrow> bool" where
  "is_top_level e = (e_depth e = 0)"

definition get_metadata :: "Entity \<Rightarrow> string \<Rightarrow> string option" where
  "get_metadata e key = e_metadata e key"

definition set_metadata :: "string \<Rightarrow> string \<Rightarrow> Entity \<Rightarrow> Entity" where
  "set_metadata key v e = e\<lparr>e_metadata := (e_metadata e)(key \<mapsto> v)\<rparr>"

section \<open>Properties\<close>

lemma all_kinds: "k \<in> set
     [KUnknown, KClass, KStruct, KEnum, KInterface, KTrait, KTraitImpl, KInherentImpl,
      KTypeAlias, KUnion, KEnumVariant, KAnnotation, KMacro, KFunction, KMethod, KConstructor,
      KAccessor, KDestructor, KOperator, KField, KProperty, KVariable, KConstant, KModule,
      KNamespace, KPackage, KImport, KRequire, KInclude, KExport, KStyleRule, KStyleSelector,
      KStyleProperty, KKeyframe, KElement, KAttribute, KExpression, KComponent, KTemplate,
      KDirective, KControlFlow, KAnimation, KBinding, KAction, KAtRule, KEventHandler,
      KScriptContent, KStyleContent, KEmbeddedBlock, KTestSuite, KTestCase, KTestHook,
      KAssertion, KMock]"
  by (cases k) simp_all

lemma all_kinds_distinct: "distinct (map kind_display
     [KUnknown, KClass, KStruct, KEnum, KInterface, KTrait, KTraitImpl, KInherentImpl,
      KTypeAlias, KUnion, KEnumVariant, KAnnotation, KMacro, KFunction, KMethod, KConstructor,
      KAccessor, KDestructor, KOperator, KField, KProperty, KVariable, KConstant, KModule,
      KNamespace, KPackage, KImport, KRequire, KInclude, KExport, KStyleRule, KStyleSelector,
      KStyleProperty, KKeyframe, KElement, KAttribute, KExpression, KComponent, KTemplate,
      KDirective, KControlFlow, KAnimation, KBinding, KAction, KAtRule, KEventHandler,
      KScriptContent, KStyleContent, KEmbeddedBlock, KTestSuite, KTestCase, KTestHook,
      KAssertion, KMock])"
  by code_simp

text \<open>The text of a kind identifies it.\<close>

lemma kind_display_eq [simp]: "kind_display k = kind_display k' \<longleftrightarrow> k = k'"
  using all_kinds_distinct all_kinds [of k] all_kinds [of k'] unfolding distinct_map by (metis inj_onD)



end
