(* ===== verification/Entity_Changes.thy ===== *)
theory Entity_Changes
  imports Entity_Model
begin

text \<open>
  Change detection of the hot-update path: the change types
  (\<^verbatim>\<open>hot_update/change/types.rs\<close>), the comparison of two entity lists (\<^verbatim>\<open>change/compute.rs\<close>), the
  entity rows that indexing writes (\<^verbatim>\<open>index/storage_coordinator/entities.rs\<close>) and that the file
  processor reads back as the previous version (\<^verbatim>\<open>hot_update/file_processor.rs\<close>), and the
  coalescing of pending watch events (\<^verbatim>\<open>hot_update/coordinator/change_merger.rs\<close>). The parsed
  file and its summary are type parameters; JSON texts (serde) and the repository lookup are
  arguments. An \<^verbatim>\<open>i64\<close> is an \<open>int\<close>, converted from and to \<^verbatim>\<open>usize\<close> by \<open>sint\<close> and \<open>word_of_int\<close>.
\<close>

section \<open>Change types\<close>

datatype FileChangeType = FAdded | FModified | FDeleted | FRenamed

fun file_change_display :: "FileChangeType \<Rightarrow> string" where
  "file_change_display FAdded = ''added''"
| "file_change_display FModified = ''modified''"
| "file_change_display FDeleted = ''deleted''"
| "file_change_display FRenamed = ''renamed''"

record FileChange =
  fc_path :: string
  fc_change_type :: FileChangeType
  fc_previous_path :: "string option"
  fc_content_hash :: string
  fc_size :: u64
  fc_modified :: int

definition FileChange_new :: "string \<Rightarrow> FileChangeType \<Rightarrow> string \<Rightarrow> u64 \<Rightarrow> int \<Rightarrow> FileChange" where
  "FileChange_new p t h s m =
     \<lparr>fc_path = p, fc_change_type = t, fc_previous_path = None, fc_content_hash = h, fc_size = s, fc_modified = m\<rparr>"

definition with_previous_path :: "string \<Rightarrow> FileChange \<Rightarrow> FileChange" where
  "with_previous_path p c = c\<lparr>fc_previous_path := Some p\<rparr>"

datatype EntityChangeType = EAdded | EModified | EDeleted | EUnchanged

fun entity_change_display :: "EntityChangeType \<Rightarrow> string" where
  "entity_change_display EAdded = ''added''"
| "entity_change_display EModified = ''modified''"
| "entity_change_display EDeleted = ''deleted''"
| "entity_change_display EUnchanged = ''unchanged''"

record EntityChange =
  ec_entity_id :: EntityId
  ec_entity_name :: string
  ec_change_type :: EntityChangeType
  ec_entity :: "Entity option"
  ec_previous_entity :: "Entity option"

definition EntityChange_new :: "EntityId \<Rightarrow> string \<Rightarrow> EntityChangeType \<Rightarrow> EntityChange" where
  "EntityChange_new i n t =
     \<lparr>ec_entity_id = i, ec_entity_name = n, ec_change_type = t, ec_entity = None, ec_previous_entity = None\<rparr>"

definition with_entity :: "Entity \<Rightarrow> EntityChange \<Rightarrow> EntityChange" where
  "with_entity e c = c\<lparr>ec_entity := Some e\<rparr>"

definition with_previous_entity :: "Entity \<Rightarrow> EntityChange \<Rightarrow> EntityChange" where
  "with_previous_entity e c = c\<lparr>ec_previous_entity := Some e\<rparr>"

section \<open>Comparing two entity lists\<close>

fun params_differ :: "(string \<times> string option) list \<Rightarrow> (string \<times> string option) list \<Rightarrow> bool" where
  "params_differ (p # ps) (q # qs) = (p \<noteq> q \<or> params_differ ps qs)"
| "params_differ _ _ = False"

definition entities_differ :: "Entity \<Rightarrow> Entity \<Rightarrow> bool" where
  "entities_differ old new =
     (if e_name old \<noteq> e_name new then True
      else if e_kind old \<noteq> e_kind new then True
      else if e_signature old \<noteq> e_signature new then True
      else if e_return_type old \<noteq> e_return_type new then True
      else if length (e_parameters old) \<noteq> length (e_parameters new) then True
      else if params_differ (e_parameters old) (e_parameters new) then True
      else if e_span old \<noteq> e_span new then True
      else False)"

text \<open>Collecting pairs into a \<^verbatim>\<open>HashMap\<close>: the last pair of a key wins.\<close>

definition entity_map :: "Entity list \<Rightarrow> EntityId \<rightharpoonup> Entity" where
  "entity_map es = map_of (rev (map (\<lambda>e. (e_id e, e)) es))"

definition classify_new :: "(EntityId \<rightharpoonup> Entity) \<Rightarrow> Entity \<Rightarrow> EntityChange" where
  "classify_new old_map new_entity =
     (case old_map (e_id new_entity) of
        None \<Rightarrow> with_entity new_entity (EntityChange_new (e_id new_entity) (e_name new_entity) EAdded)
      | Some old_entity \<Rightarrow>
          if entities_differ old_entity new_entity
          then with_previous_entity old_entity
                 (with_entity new_entity (EntityChange_new (e_id new_entity) (e_name new_entity) EModified))
          else EntityChange_new (e_id new_entity) (e_name new_entity) EUnchanged)"

definition compute_entity_changes :: "Entity list \<Rightarrow> Entity list \<Rightarrow> EntityChange list" where
  "compute_entity_changes old_entities new_entities =
     (let old_map = entity_map old_entities; new_map = entity_map new_entities
      in map (classify_new old_map) new_entities
         @ map (\<lambda>old. with_previous_entity old (EntityChange_new (e_id old) (e_name old) EDeleted))
             (filter (\<lambda>old. new_map (e_id old) = None) old_entities))"

section \<open>Stored entities\<close>

definition parse_kind_arms :: "(string \<times> EntityKind) list" where
  "parse_kind_arms = [
     (''Unknown'', KUnknown), (''Class'', KClass), (''Struct'', KStruct), (''Enum'', KEnum),
     (''Interface'', KInterface), (''Trait'', KTrait), (''TraitImpl'', KTraitImpl),
     (''InherentImpl'', KInherentImpl), (''TypeAlias'', KTypeAlias), (''Union'', KUnion),
     (''EnumVariant'', KEnumVariant), (''Annotation'', KAnnotation), (''Macro'', KMacro),
     (''Function'', KFunction), (''Method'', KMethod), (''Accessor'', KAccessor),
     (''Constructor'', KConstructor), (''Destructor'', KDestructor), (''Operator'', KOperator),
     (''Field'', KField), (''Property'', KProperty), (''Variable'', KVariable),
     (''Constant'', KConstant), (''Module'', KModule), (''Namespace'', KNamespace),
     (''Package'', KPackage), (''StyleRule'', KStyleRule), (''StyleSelector'', KStyleSelector),
     (''StyleProperty'', KStyleProperty), (''Keyframe'', KKeyframe), (''Element'', KElement),
     (''Attribute'', KAttribute), (''Expression'', KExpression), (''Component'', KComponent),
     (''Template'', KTemplate), (''Directive'', KDirective), (''ControlFlow'', KControlFlow),
     (''Animation'', KAnimation), (''Binding'', KBinding), (''Action'', KAction),
     (''AtRule'', KAtRule), (''EventHandler'', KEventHandler),
     (''ScriptContent'', KScriptContent), (''StyleContent'', KStyleContent),
     (''EmbeddedBlock'', KEmbeddedBlock), (''TestSuite'', KTestSuite),
     (''TestCase'', KTestCase), (''TestHook'', KTestHook), (''Assertion'', KAssertion),
     (''Mock'', KMock)]"
definition parse_entity_kind :: "string \<Rightarrow> EntityKind" where
  "parse_entity_kind s = (case map_of parse_kind_arms s of Some k \<Rightarrow> k | None \<Rightarrow> KUnknown)"

text \<open>The row of an entity without its ranking score.\<close>

record EntityRecord =
  er_id :: int
  er_name :: string
  er_kind :: string
  er_file_id :: int
  er_signature :: "string option"
  er_span_start_row :: "int option"
  er_span_end_row :: "int option"
  er_span_start_column :: "int option"
  er_span_end_column :: "int option"
  er_span_start_byte :: "int option"
  er_span_end_byte :: "int option"
  er_scoped_name :: "string option"
  er_overload_discriminator :: string
  er_depth :: "int option"
  er_parent_id :: "int option"
  er_metadata :: "string option"
  er_parameters_json :: "string option"
  er_return_type :: "string option"
  er_doc_comment :: "string option"
  er_modifiers_json :: "string option"
  er_project_id :: int
  er_epoch :: int
  er_batch_id :: int

text \<open>What the writer knows besides the entity.\<close>

record RecordContext =
  rc_file_id :: int
  rc_project_id :: int
  rc_epoch :: int
  rc_batch_id :: int
  rc_scoped_name :: "EntityId \<rightharpoonup> string"
  rc_discriminator :: "string \<Rightarrow> Entity \<Rightarrow> string"
  rc_json_metadata :: "Entity \<Rightarrow> string"
  rc_json_parameters :: "Entity \<Rightarrow> string"
  rc_json_modifiers :: "Entity \<Rightarrow> string"

definition entity_to_record :: "RecordContext \<Rightarrow> Entity \<Rightarrow> EntityRecord" where
  "entity_to_record cx e =
     \<lparr>er_id = 0, er_name = e_name e, er_kind = kind_display (e_kind e), er_file_id = rc_file_id cx,
      er_signature = Some (e_signature e),
      er_span_start_row = Some (sint (row (start_position (e_span e)))),
      er_span_end_row = Some (sint (row (end_position (e_span e)))),
      er_span_start_column = Some (sint (column (start_position (e_span e)))),
      er_span_end_column = Some (sint (column (end_position (e_span e)))),
      er_span_start_byte = Some (sint (start_byte (e_span e))),
      er_span_end_byte = Some (sint (end_byte (e_span e))),
      er_scoped_name = rc_scoped_name cx (e_id e),
      er_overload_discriminator =
        (case rc_scoped_name cx (e_id e) of None \<Rightarrow> [] | Some n \<Rightarrow> rc_discriminator cx n e),
      er_depth = Some (sint (e_depth e)), er_parent_id = None,
      er_metadata = Some (rc_json_metadata cx e), er_parameters_json = Some (rc_json_parameters cx e),
      er_return_type = e_return_type e, er_doc_comment = e_doc_comment e,
      er_modifiers_json = Some (rc_json_modifiers cx e),
      er_project_id = rc_project_id cx, er_epoch = rc_epoch cx, er_batch_id = rc_batch_id cx\<rparr>"

definition unwrap_or :: "'a \<Rightarrow> 'a option \<Rightarrow> 'a" where
  "unwrap_or d x = (case x of None \<Rightarrow> d | Some v \<Rightarrow> v)"

definition record_to_entity :: "nat \<Rightarrow> EntityRecord \<Rightarrow> Entity" where
  "record_to_entity i r =
     \<lparr>e_id = of_nat i, e_kind = parse_entity_kind (er_kind r), e_name = er_name r,
      e_signature = unwrap_or [] (er_signature r), e_parameters = [], e_return_type = er_return_type r,
      e_span = Span_new (word_of_int (unwrap_or 0 (er_span_start_byte r)))
        (word_of_int (unwrap_or 0 (er_span_end_byte r)))
        (word_of_int (unwrap_or 0 (er_span_start_row r))) (word_of_int (unwrap_or 0 (er_span_start_column r)))
        (word_of_int (unwrap_or 0 (er_span_end_row r))) (word_of_int (unwrap_or 0 (er_span_end_column r))),
      e_depth = word_of_int (unwrap_or 0 (er_depth r)), e_parent = None, e_children = [],
      e_doc_comment = er_doc_comment r, e_modifiers = [], e_attributes = Map.empty, e_metadata = Map.empty,
      e_is_stdlib = False, e_stdlib_category = None, e_subtype = None\<rparr>"

definition entity_records_to_entities :: "EntityRecord list \<Rightarrow> Entity list" where
  "entity_records_to_entities rs = map (\<lambda>(i, r). record_to_entity i r) (List.enumerate 0 rs)"

section \<open>Batches\<close>

record 'p ParseResultWithChanges =
  pr_file_path :: string
  pr_parsed :: 'p
  pr_file_change_type :: FileChangeType
  pr_entity_changes :: "EntityChange list"
  pr_is_new_file :: bool

definition add_entity_change :: "EntityChange \<Rightarrow> 'p ParseResultWithChanges \<Rightarrow> 'p ParseResultWithChanges" where
  "add_entity_change c r = r\<lparr>pr_entity_changes := pr_entity_changes r @ [c]\<rparr>"

definition changes_of_type :: "EntityChangeType \<Rightarrow> 'p ParseResultWithChanges \<Rightarrow> EntityChange list" where
  "changes_of_type t r = filter (\<lambda>c. ec_change_type c = t) (pr_entity_changes r)"

definition has_entity_changes :: "'p ParseResultWithChanges \<Rightarrow> bool" where
  "has_entity_changes r = list_ex (\<lambda>c. ec_change_type c \<noteq> EUnchanged) (pr_entity_changes r)"

text \<open>
  \<open>stored\<close> is what the repository holds for the file, \<open>None\<close> when the store is missing, the
  connection or a query fails, or the file has no row.
\<close>

definition populate_entity_changes ::
  "EntityRecord list option \<Rightarrow> FileChangeType \<Rightarrow> Entity list \<Rightarrow> 'p ParseResultWithChanges
     \<Rightarrow> 'p ParseResultWithChanges" where
  "populate_entity_changes stored change_type new_entities result =
     (let old_entities = (if change_type = FAdded then None
            else case stored of
                   Some rs \<Rightarrow> if rs \<noteq> [] then Some (entity_records_to_entities rs) else None
                 | None \<Rightarrow> None)
      in case old_entities of
           Some old \<Rightarrow> fold add_entity_change (compute_entity_changes old new_entities) result
         | None \<Rightarrow> fold add_entity_change
             (map (\<lambda>e. with_entity e (EntityChange_new (e_id e) (e_name e) EAdded)) new_entities) result)"

record 'p BatchChangeResult =
  br_file_changes :: "FileChange list"
  br_parse_results :: "'p ParseResultWithChanges list"
  br_failed_files :: "(string \<times> string) list"
  br_rename_mappings :: "(string \<times> string) list"

definition BatchChangeResult_new :: "'p BatchChangeResult" where
  "BatchChangeResult_new =
     \<lparr>br_file_changes = [], br_parse_results = [], br_failed_files = [], br_rename_mappings = []\<rparr>"

definition br_is_empty :: "'p BatchChangeResult \<Rightarrow> bool" where
  "br_is_empty b = (br_file_changes b = [] \<and> br_parse_results b = [])"

definition all_entity_changes :: "'p BatchChangeResult \<Rightarrow> EntityChange list" where
  "all_entity_changes b = concat (map pr_entity_changes (br_parse_results b))"

definition add_rename_mapping :: "string \<Rightarrow> string \<Rightarrow> 'p BatchChangeResult \<Rightarrow> 'p BatchChangeResult" where
  "add_rename_mapping a b r = r\<lparr>br_rename_mappings := br_rename_mappings r @ [(a, b)]\<rparr>"

section \<open>Coalescing pending events\<close>

definition coalesce_step ::
  "string \<times> bool \<Rightarrow> string list \<times> (string \<rightharpoonup> bool) \<Rightarrow> string list \<times> (string \<rightharpoonup> bool)" where
  "coalesce_step ev st =
     (case (ev, st) of ((path, is_deletion), (order, flags)) \<Rightarrow>
        (if flags path = None then order @ [path] else order, flags(path \<mapsto> is_deletion)))"

fun take_flags :: "string list \<Rightarrow> (string \<rightharpoonup> bool) \<Rightarrow> (string \<times> bool) list" where
  "take_flags [] flags = []"
| "take_flags (p # ps) flags =
     (p, case flags p of Some b \<Rightarrow> b | None \<Rightarrow> False) # take_flags ps (flags(p := None))"

definition coalesce_pending_changes :: "(string \<times> bool) list \<Rightarrow> (string \<times> bool) list" where
  "coalesce_pending_changes pending =
     (case fold coalesce_step pending ([], Map.empty) of (order, flags) \<Rightarrow> take_flags order flags)"

section \<open>Lemmas\<close>

lemma params_differ_iff: "length ps = length qs \<Longrightarrow> params_differ ps qs \<longleftrightarrow> ps \<noteq> qs"
  by (induction ps qs rule: list_induct2) auto

text \<open>The fields whose change counts.\<close>

definition tracked :: "Entity \<Rightarrow> string \<times> EntityKind \<times> string \<times> string option \<times> (string \<times> string option) list \<times> Span" where
  "tracked e = (e_name e, e_kind e, e_signature e, e_return_type e, e_parameters e, e_span e)"

lemma entities_differ_iff: "entities_differ a b \<longleftrightarrow> tracked a \<noteq> tracked b"
  using params_differ_iff [of "e_parameters a" "e_parameters b"]
  by (auto simp: entities_differ_def tracked_def)

lemma entity_map_None: "entity_map es i = None \<longleftrightarrow> i \<notin> e_id ` set es"
  by (auto simp: entity_map_def map_of_eq_None_iff image_image)

lemma entity_map_Some: "entity_map es i = Some e \<Longrightarrow> e \<in> set es \<and> e_id e = i"
  by (auto simp: entity_map_def dest!: map_of_SomeD)

lemma entity_map_distinct: "distinct (map e_id es) \<Longrightarrow> e \<in> set es \<Longrightarrow> entity_map es (e_id e) = Some e"
  unfolding entity_map_def by (intro map_of_is_SomeI) (auto simp: rev_map [symmetric] comp_def)

lemma classify_new_fields [simp]:
  "ec_entity_id (classify_new m e) = e_id e"
  "ec_change_type (classify_new m e) = (case m (e_id e) of None \<Rightarrow> EAdded
     | Some old \<Rightarrow> if tracked old \<noteq> tracked e then EModified else EUnchanged)"
  by (simp_all add: classify_new_def with_entity_def with_previous_entity_def EntityChange_new_def entities_differ_iff
      split: option.split)

lemma fold_add_entity_change: "pr_entity_changes (fold add_entity_change cs r) = pr_entity_changes r @ cs"
  by (induction cs arbitrary: r) (auto simp: add_entity_change_def)

lemma entity_records_nth:
  "entity_records_to_entities rs = map (\<lambda>i. record_to_entity i (rs ! i)) [0..<length rs]"
  by (intro nth_equalityI) (simp_all add: entity_records_to_entities_def nth_enumerate_eq)

text \<open>Every name that the reader accepts starts with a capital, every name that is stored with a small letter.\<close>

lemma parse_arms_capital: "(s, k) \<in> set parse_kind_arms \<Longrightarrow> of_char (hd s) < (97 :: nat)"
  by (auto simp: parse_kind_arms_def)

lemma kind_display_small: "(97 :: nat) \<le> of_char (hd (kind_display k))"
  by (cases k) simp_all

lemma parse_stored_kind: "parse_entity_kind (kind_display k) = KUnknown"
proof -
  have "map_of parse_kind_arms (kind_display k) = None"
  proof (rule ccontr)
    assume "map_of parse_kind_arms (kind_display k) \<noteq> None"
    then obtain k' where "(kind_display k, k') \<in> set parse_kind_arms" by (auto dest: map_of_SomeD)
    from parse_arms_capital [OF this] kind_display_small [of k] show False by simp
  qed
  then show ?thesis by (simp add: parse_entity_kind_def)
qed

lemma record_roundtrip_span: "e_span (record_to_entity i (entity_to_record cx e)) = e_span e"
  by (simp add: record_to_entity_def entity_to_record_def unwrap_or_def Span_new_def)

lemma coalesce_fold:
  assumes "distinct order" "set order = dom flags"
  shows "fold coalesce_step pending (order, flags)
    = (order @ filter (\<lambda>p. p \<notin> set order) (first_occurrences (map fst pending)), flags ++ map_of (rev pending))"
  using assms
proof (induction pending arbitrary: order flags)
  case (Cons ev pending)
  obtain p b where ev: "ev = (p, b)" by (cases ev)
  have p: "p \<in> set order \<longleftrightarrow> flags p \<noteq> None" using Cons.prems(2) by auto
  show ?case
  proof (cases "flags p")
    case None
    then have "distinct (order @ [p])" "set (order @ [p]) = dom (flags(p \<mapsto> b))"
      using Cons.prems p by auto
    moreover have "coalesce_step ev (order, flags) = (order @ [p], flags(p \<mapsto> b))"
      using None by (simp add: ev coalesce_step_def)
    moreover have "flags(p \<mapsto> b) ++ map_of (rev pending) = flags ++ map_of (rev (ev # pending))"
      by (simp add: ev map_add_def fun_eq_iff split: option.split)
    ultimately show ?thesis using Cons.IH [of "order @ [p]" "flags(p \<mapsto> b)"] None p
      by (simp add: ev conj_commute del: fun_upd_apply dom_fun_upd) (simp add: conj_commute flip: Cons.prems(2))
  next
    case (Some b')
    then have "distinct order" "set order = dom (flags(p \<mapsto> b))" using Cons.prems p by auto
    moreover have "coalesce_step ev (order, flags) = (order, flags(p \<mapsto> b))"
      using Some by (simp add: ev coalesce_step_def)
    moreover have "flags(p \<mapsto> b) ++ map_of (rev pending) = flags ++ map_of (rev (ev # pending))"
      by (simp add: ev map_add_def fun_eq_iff split: option.split)
    moreover have "filter (\<lambda>q. q \<notin> set order) (filter (\<lambda>q. q \<noteq> p) ps) = filter (\<lambda>q. q \<notin> set order) ps" for ps
      using Some p by (induction ps) auto
    ultimately show ?thesis using Cons.IH Some p by (simp add: ev del: fun_upd_apply filter_filter)
  qed
qed simp

lemma take_flags_eq: "distinct ps \<Longrightarrow> set ps \<subseteq> dom flags \<Longrightarrow> take_flags ps flags = map (\<lambda>p. (p, the (flags p))) ps"
proof (induction ps arbitrary: flags)
  case (Cons p ps)
  then have "set ps \<subseteq> dom (flags(p := None))" by auto
  then have "take_flags ps (flags(p := None)) = map (\<lambda>q. (q, the ((flags(p := None)) q))) ps"
    using Cons by simp
  also have "\<dots> = map (\<lambda>q. (q, the (flags q))) ps" using Cons.prems(1) by auto
  finally show ?case using Cons.prems(2) by (auto simp del: fun_upd_apply)
qed simp

lemma coalesce_eq: "coalesce_pending_changes evs = map (\<lambda>p. (p, the (map_of (rev evs) p))) (first_occurrences (map fst evs))"
proof -
  have "fold coalesce_step evs ([], Map.empty) = (first_occurrences (map fst evs), map_of (rev evs))"
    using coalesce_fold [of "[]" Map.empty evs] by simp
  then show ?thesis
    by (simp add: coalesce_pending_changes_def) (simp add: take_flags_eq dom_map_of_conv_image_fst)
qed

section \<open>Properties\<close>

text \<open>
  The comparison of two entity lists is exact. When the ids in each list are distinct, every
  new entity gets one change in order, followed by one per old entity whose id is gone; a new
  entity is added, modified or unchanged according to whether its id is new, or the entity of
  that id in the old list differs in name, kind, signature, return type, parameters or span.
\<close>

theorem entity_changes_exact:
  assumes "distinct (map e_id old)" "distinct (map e_id new)"
  shows "map (\<lambda>c. (ec_entity_id c, ec_change_type c)) (compute_entity_changes old new) =
     map (\<lambda>e. (e_id e, case find (\<lambda>x. e_id x = e_id e) old of None \<Rightarrow> EAdded
                | Some x \<Rightarrow> if tracked x = tracked e then EUnchanged else EModified)) new
     @ map (\<lambda>x. (e_id x, EDeleted)) (filter (\<lambda>x. e_id x \<notin> set (map e_id new)) old)"
proof -
  have "entity_map old i = find (\<lambda>x. e_id x = i) old" for i
  proof (cases "find (\<lambda>x. e_id x = i) old")
    case None
    moreover from this have "i \<notin> e_id ` set old" by (auto simp: find_None_iff)
    ultimately show ?thesis by (simp add: entity_map_None)
  next
    case (Some x)
    then have "x \<in> set old" "e_id x = i" by (auto simp: find_Some_iff)
    with Some show ?thesis using entity_map_distinct [OF assms(1)] by auto
  qed
  then show ?thesis
    by (simp add: compute_entity_changes_def Let_def entity_map_None with_previous_entity_def EntityChange_new_def comp_def
        split: option.split)
qed

theorem entity_changes_exact_witness:
  "map (\<lambda>c. (ec_entity_id c, ec_change_type c))
     (compute_entity_changes [Entity_new 1 KFunction ''f'' unavailable, Entity_new 2 KFunction ''g'' unavailable]
        [Entity_new 1 KFunction ''f'' unavailable, Entity_new 3 KClass ''C'' unavailable])
   = [(1, EUnchanged), (3, EAdded), (2, EDeleted)]"
  by (subst entity_changes_exact) (simp_all add: Entity_new_def)



text \<open>
  Coalescing pending events keeps, for every path, exactly one entry with the flag of its last
  event, in the order in which the paths first occurred.
\<close>

theorem coalesce_exact:
  "map fst (coalesce_pending_changes evs) = first_occurrences (map fst evs)
   \<and> map_of (coalesce_pending_changes evs) = map_of (rev evs)"
proof -
  have "map_of (map (\<lambda>p. (p, the (map_of (rev evs) p))) (first_occurrences (map fst evs))) = map_of (rev evs)"
  proof
    fix p
    show "map_of (map (\<lambda>p. (p, the (map_of (rev evs) p))) (first_occurrences (map fst evs))) p = map_of (rev evs) p"
    proof (cases "map_of (rev evs) p")
      case None
      then have "p \<notin> set (map fst evs)" by (auto simp: map_of_eq_None_iff)
      with None show ?thesis by (simp add: map_of_map_restrict)
    next
      case (Some b)
      then have "p \<in> set (map fst evs)" by (force dest: map_of_SomeD)
      with Some show ?thesis by (simp add: map_of_map_restrict)
    qed
  qed
  then show ?thesis by (simp add: coalesce_eq comp_def)
qed

end
