(* ===== verification/Project_Path.thy ===== *)
theory Project_Path
  imports Rust_Strings
begin

text \<open>
  The canonical project-relative path (\<^verbatim>\<open>core/cce-types/src/path.rs\<close>), which every storage and
  identity boundary uses as its key: lexical normalisation, relativisation against the scan
  root, file names, segments and extensions, path equality, group ids and the classification of
  generated and dependency paths. Unicode lowercasing and SHA-256 are arguments.
\<close>

section \<open>Normalisation\<close>

definition backslash :: char where
  "backslash = CHR 0x5C"

definition is_sep :: "char \<Rightarrow> bool" where
  "is_sep c = (c = CHR ''/'' \<or> c = backslash)"

definition norm_component :: "string list \<Rightarrow> string \<Rightarrow> string list" where
  "norm_component components component =
     (if component = '''' \<or> component = ''.'' then components
      else if component = ''..''
           then if components \<noteq> [] \<and> last components \<noteq> ''..'' then butlast components
                else components @ [component]
      else components @ [component])"

definition normalize_components :: "string \<Rightarrow> string list" where
  "normalize_components replaced = foldl norm_component [] (split_by (\<lambda>c. c = CHR ''/'') replaced)"

definition normalize_project_path :: "string \<Rightarrow> string" where
  "normalize_project_path path =
     (let replaced = map (\<lambda>c. if c = backslash then CHR ''/'' else c) path;
          is_absolute = starts_with replaced ''/'';
          normalized = join ''/'' (normalize_components replaced)
      in if is_absolute then ''/'' @ normalized else normalized)"

text \<open>
  \<^verbatim>\<open>std::path::Path\<close> on Unix: a root, then the components between slashes; empty ones and
  \<^verbatim>\<open>.\<close> are skipped, except a leading \<^verbatim>\<open>.\<close>. \<^verbatim>\<open>strip_prefix\<close> compares components.
\<close>

definition path_components :: "string \<Rightarrow> string list" where
  "path_components p =
     (let ws = split_by (\<lambda>c. c = CHR ''/'') p;
          rest = filter (\<lambda>w. w \<noteq> '''' \<and> w \<noteq> ''.'')
      in if starts_with p ''/'' then ''/'' # rest ws
         else if hd ws = ''.'' then ''.'' # rest (tl ws) else rest ws)"

definition strip_prefix :: "string \<Rightarrow> string \<Rightarrow> string option" where
  "strip_prefix path root =
     (let ps = path_components path; rs = path_components root
      in if take (length rs) ps = rs then Some (join ''/'' (drop (length rs) ps)) else None)"

definition relativize :: "string \<Rightarrow> string \<Rightarrow> string" where
  "relativize root path =
     normalize_project_path (case strip_prefix path root of Some r \<Rightarrow> r | None \<Rightarrow> path)"

section \<open>Names, segments, equality\<close>

definition file_name_str :: "string \<Rightarrow> string" where
  "file_name_str path = (case rfind_by is_sep path of Some idx \<Rightarrow> drop (idx + 1) path | None \<Rightarrow> path)"

definition segments :: "string \<Rightarrow> string list" where
  "segments path = filter (\<lambda>s. s \<noteq> '''') (split_by is_sep path)"

definition extension_lower :: "(string \<Rightarrow> string) \<Rightarrow> string \<Rightarrow> string option" where
  "extension_lower to_lowercase path =
     (let name = file_name_str path
      in case rfind_by (\<lambda>c. c = CHR ''.'') name of
           None \<Rightarrow> None
         | Some idx \<Rightarrow> let ext = drop (idx + 1) name
                       in if ext = '''' then None else Some (to_lowercase ext))"

definition trim_start_slashes :: "string \<Rightarrow> string" where
  "trim_start_slashes s = dropWhile (\<lambda>c. c = CHR ''/'') s"

definition normalized_equals :: "string \<Rightarrow> string \<Rightarrow> bool" where
  "normalized_equals left right =
     (let l = normalize_project_path left; r = normalize_project_path right
      in l = r \<or> trim_start_slashes l = r \<or> l = trim_start_slashes r)"

section \<open>Identifiers and classes of paths\<close>

definition stable_path_id :: "(string \<Rightarrow> string) \<Rightarrow> string \<Rightarrow> string" where
  "stable_path_id sha256_hex path = sha256_hex path"

definition group_id_base :: "string \<Rightarrow> string" where
  "group_id_base path =
     (let escaped = concat (map (\<lambda>c. if c = CHR ''_'' then ''__'' else [c]) path)
      in map (\<lambda>c. if is_sep c then CHR ''_'' else c) escaped)"

definition EXTENSIONLESS_DOC_NAMES :: "string list" where
  "EXTENSIONLESS_DOC_NAMES =
     [''readme'', ''changelog'', ''contributing'', ''copying'', ''license'', ''authors'', ''notice'']"

definition is_extensionless_doc_name :: "string \<Rightarrow> bool" where
  "is_extensionless_doc_name lower_name = (lower_name \<in> set EXTENSIONLESS_DOC_NAMES)"

definition is_generated_path :: "string \<Rightarrow> bool" where
  "is_generated_path path =
     (list_ex (str_contains path)
        [''target/'', ''build/'', ''dist/'', ''out/'', ''generated/'', ''.next/'', ''__pycache__/'']
      \<or> starts_with path ''target/'' \<or> starts_with path ''build/'' \<or> starts_with path ''dist/''
      \<or> list_ex (str_contains path)
          [''.generated.'', ''.pb.'', ''.min.js'', ''.bundle.js'', ''.lock'', ''.rkyv''])"

definition is_dependency_path :: "string \<Rightarrow> bool" where
  "is_dependency_path path =
     (list_ex (str_contains path)
        [''node_modules/'', ''vendor/'', ''third_party/'', ''third-party/'', ''.cargo/'', ''.venv/'', ''site-packages/'']
      \<or> starts_with path ''vendor/'' \<or> starts_with path ''third_party/'')"

section \<open>Normal forms\<close>

text \<open>Leading \<^verbatim>\<open>..\<close> components, then proper names without separators.\<close>

definition normal_components :: "string list \<Rightarrow> bool" where
  "normal_components cs \<longleftrightarrow>
     (\<exists>k ds. cs = replicate k ''..'' @ ds \<and> (\<forall>d \<in> set ds. d \<notin> {'''', ''.'', ''..''}))
     \<and> (\<forall>c \<in> set cs. \<forall>x \<in> set c. \<not> is_sep x)"

lemma normal_Nil [simp]: "normal_components []"
  by (simp add: normal_components_def)

lemma normal_snoc:
  assumes "normal_components cs" "\<forall>x \<in> set c. \<not> is_sep x"
  shows "normal_components (norm_component cs c)"
proof -
  obtain k ds where cs: "cs = replicate k ''..'' @ ds" and ds: "\<forall>d \<in> set ds. d \<notin> {'''', ''.'', ''..''}"
    and sep: "\<forall>c \<in> set cs. \<forall>x \<in> set c. \<not> is_sep x"
    using assms(1) by (auto simp: normal_components_def)
  show ?thesis
  proof (cases "c = ''..''")
    case up: True
    show ?thesis
    proof (cases ds rule: rev_cases)
      case Nil
      then have "norm_component cs c = replicate (Suc k) ''..''"
        using up cs by (auto simp: norm_component_def replicate_append_same last_replicate split: if_splits)
      then show ?thesis
        by (auto simp: normal_components_def is_sep_def backslash_def intro: exI [of _ "Suc k"])
    next
      case (snoc es e)
      then have "norm_component cs c = replicate k ''..'' @ es"
        using up cs ds by (simp add: norm_component_def butlast_append)
      then show ?thesis using ds sep snoc cs unfolding normal_components_def by (auto intro!: exI [of _ k] exI [of _ es])
    qed
  next
    case False
    then show ?thesis
    proof (cases "c = '''' \<or> c = ''.''")
      case True
      then show ?thesis using assms(1) by (auto simp: norm_component_def)
    next
      case name: False
      then have "norm_component cs c = replicate k ''..'' @ (ds @ [c])"
        using False cs by (simp add: norm_component_def)
      then show ?thesis
        unfolding normal_components_def using False name ds sep assms(2) cs
        by (intro conjI exI [of _ k] exI [of _ "ds @ [c]"]) auto
    qed
  qed
qed

lemma normal_foldl:
  "normal_components cs \<Longrightarrow> \<forall>w \<in> set ws. \<forall>x \<in> set w. \<not> is_sep x \<Longrightarrow> normal_components (foldl norm_component cs ws)"
  by (induction ws arbitrary: cs) (auto intro: normal_snoc)

lemma norm_component_name: "c \<notin> {'''', ''.'', ''..''} \<Longrightarrow> norm_component cs c = cs @ [c]"
  by (simp add: norm_component_def)

lemma foldl_names: "\<forall>d \<in> set ds. d \<notin> {'''', ''.'', ''..''} \<Longrightarrow> foldl norm_component cs ds = cs @ ds"
  by (induction ds arbitrary: cs) (auto simp: norm_component_name)

lemma foldl_ups: "foldl norm_component (replicate j ''..'') (replicate k ''..'') = replicate (j + k) ''..''"
proof (induction k arbitrary: j)
  case (Suc k)
  have "norm_component (replicate j ''..'') ''..'' = replicate (Suc j) ''..''"
    by (auto simp: norm_component_def replicate_append_same last_replicate)
  with Suc [of "Suc j"] show ?case by simp
qed simp

lemma normal_fixed: "normal_components cs \<Longrightarrow> foldl norm_component [] cs = cs"
  using foldl_ups [of 0] by (auto simp: normal_components_def foldl_names)

text \<open>The components of a path, and the text of a component list.\<close>

definition unbackslash :: "string \<Rightarrow> string" where
  "unbackslash = map (\<lambda>c. if c = backslash then CHR ''/'' else c)"

definition components_of :: "string \<Rightarrow> string list" where
  "components_of path = normalize_components (unbackslash path)"

definition is_absolute :: "string \<Rightarrow> bool" where
  "is_absolute path = starts_with (unbackslash path) ''/''"

definition path_text :: "bool \<Rightarrow> string list \<Rightarrow> string" where
  "path_text b cs = (if b then ''/'' else '''') @ join ''/'' cs"

lemma normalize_path_text: "normalize_project_path p = path_text (is_absolute p) (components_of p)"
  by (simp add: normalize_project_path_def path_text_def is_absolute_def components_of_def unbackslash_def)

lemma normal_components_of: "normal_components (components_of p)"
proof -
  have "\<not> is_sep x" if w: "w \<in> set (split_by (\<lambda>c. c = CHR ''/'') (unbackslash p))" "x \<in> set w" for w x
    using split_by_pieces [OF w] by (auto simp: unbackslash_def is_sep_def backslash_def)
  then show ?thesis
    unfolding components_of_def normalize_components_def by (intro normal_foldl) auto
qed

lemma foldl_split_join:
  assumes "\<forall>w \<in> set ws. CHR ''/'' \<notin> set w"
  shows "foldl norm_component cs (split_by (\<lambda>c. c = CHR ''/'') (join ''/'' ws)) = foldl norm_component cs ws"
proof (cases "ws = []")
  case False
  have "\<forall>w \<in> set ws. \<forall>d \<in> set w. d \<noteq> CHR ''/''" using assms by metis
  with False show ?thesis by (simp add: split_by_join)
qed (simp add: norm_component_def)

lemma join_relative:
  assumes "\<forall>w \<in> set ws. w \<noteq> [] \<and> CHR ''/'' \<notin> set w"
  shows "\<not> starts_with (join ''/'' ws) ''/''"
proof (cases ws)
  case (Cons w rest)
  then show ?thesis using assms by (cases rest; cases w) (auto simp: starts_with_def)
qed (simp add: starts_with_def)

lemma normal_pieces: "normal_components cs \<Longrightarrow> \<forall>w \<in> set cs. w \<noteq> [] \<and> CHR ''/'' \<notin> set w \<and> backslash \<notin> set w"
proof
  fix w
  assume n: "normal_components cs" and w: "w \<in> set cs"
  then obtain k ds where "cs = replicate k ''..'' @ ds" "\<forall>d \<in> set ds. d \<notin> {'''', ''.'', ''..''}"
    unfolding normal_components_def by blast
  with w have "w \<noteq> []" by auto
  moreover have "\<forall>x \<in> set w. \<not> is_sep x" using n w unfolding normal_components_def by blast
  ultimately show "w \<noteq> [] \<and> CHR ''/'' \<notin> set w \<and> backslash \<notin> set w" by (auto simp: is_sep_def)
qed

lemma normal_split:
  "normal_components cs \<Longrightarrow> foldl norm_component [] (split_by (\<lambda>c. c = CHR ''/'') (join ''/'' cs)) = cs"
  using normal_pieces [of cs] by (simp add: foldl_split_join normal_fixed)

lemma normal_text_plain:
  assumes "normal_components cs"
  shows "unbackslash (path_text b cs) = path_text b cs"
proof -
  have "backslash \<notin> set (path_text b cs)"
    using set_join [of "CHR ''/''" cs] assms
    by (auto simp: path_text_def normal_components_def is_sep_def backslash_def)
  then show ?thesis unfolding unbackslash_def by (intro map_idI) auto
qed

lemma normal_text_relative: "normal_components cs \<Longrightarrow> \<not> starts_with (join ''/'' cs) ''/''"
  by (rule join_relative) (use normal_pieces [of cs] in blast)

lemma components_path_text:
  assumes "normal_components cs"
  shows "components_of (path_text b cs) = cs" "is_absolute (path_text b cs) = b"
proof -
  show "components_of (path_text b cs) = cs"
    unfolding components_of_def normal_text_plain [OF assms] normalize_components_def
    using normal_split [OF assms] by (cases b) (simp_all add: path_text_def norm_component_def)
  show "is_absolute (path_text b cs) = b"
    unfolding is_absolute_def normal_text_plain [OF assms]
    using normal_text_relative [OF assms] by (cases b) (simp_all add: path_text_def starts_with_def)
qed

lemma normalize_components [simp]:
  "components_of (normalize_project_path p) = components_of p"
  "is_absolute (normalize_project_path p) = is_absolute p"
  by (simp_all add: normalize_path_text components_path_text normal_components_of)

lemma path_text_inj:
  assumes "normal_components cs" "normal_components ds"
  shows "path_text b cs = path_text b' ds \<longleftrightarrow> b = b' \<and> cs = ds"
proof
  assume "path_text b cs = path_text b' ds"
  then show "b = b' \<and> cs = ds"
    using components_path_text [OF assms(1), of b] components_path_text [OF assms(2), of b'] by simp
qed simp

lemma trim_path_text:
  assumes "normal_components cs"
  shows "trim_start_slashes (path_text b cs) = path_text False cs"
proof -
  have "dropWhile (\<lambda>c. c = CHR ''/'') (join ''/'' cs) = join ''/'' cs"
    using normal_text_relative [OF assms] by (cases "join ''/'' cs") (auto simp: starts_with_def)
  then show ?thesis by (simp add: trim_start_slashes_def path_text_def)
qed

lemma path_components_join:
  assumes "root \<noteq> []"
  shows "path_components (root @ ''/'' @ p)
    = path_components root @ filter (\<lambda>w. w \<noteq> '''' \<and> w \<noteq> ''.'') (split_by (\<lambda>c. c = CHR ''/'') p)"
proof -
  let ?split = "split_by (\<lambda>c. c = CHR ''/'')"
  have "?split (root @ ''/'' @ p) = ?split root @ ?split p"
    using split_by_append [of "\<lambda>c. c = CHR ''/''" "CHR ''/''" root p] by simp
  moreover have "starts_with (root @ ''/'' @ p) ''/'' = starts_with root ''/''"
    using assms by (cases root) (auto simp: starts_with_def)
  moreover obtain w ws where "?split root = w # ws" using split_by_ne by (metis neq_Nil_conv)
  ultimately show ?thesis by (simp add: path_components_def Let_def)
qed

lemma foldl_skip:
  "foldl norm_component cs (filter (\<lambda>w. w \<noteq> '''' \<and> w \<noteq> ''.'') ws) = foldl norm_component cs ws"
  by (induction ws arbitrary: cs) (auto simp: norm_component_def)

section \<open>Group ids\<close>

text \<open>
  Paths on which the group id is injective: no backslash, and no separator right after an
  underscore or another separator.
\<close>

fun id_safe :: "string \<Rightarrow> bool" where
  "id_safe [] = True"
| "id_safe [c] = (c \<noteq> backslash)"
| "id_safe (c # d # cs) =
     (c \<noteq> backslash \<and> (d = CHR ''/'' \<longrightarrow> c \<noteq> CHR ''_'' \<and> c \<noteq> CHR ''/'') \<and> id_safe (d # cs))"

lemma id_safe_tl: "id_safe (c # cs) \<Longrightarrow> id_safe cs"
  by (cases cs) auto

lemma id_safe_after: "id_safe (c # cs) \<Longrightarrow> c = CHR ''_'' \<or> c = CHR ''/'' \<Longrightarrow> \<not> starts_with cs ''/''"
  by (cases cs) (auto simp: starts_with_def)

lemma group_id_simps:
  "group_id_base [] = []"
  "group_id_base (CHR ''_'' # cs) = ''__'' @ group_id_base cs"
  "group_id_base (CHR ''/'' # cs) = ''_'' @ group_id_base cs"
  "c \<noteq> CHR ''_'' \<Longrightarrow> \<not> is_sep c \<Longrightarrow> group_id_base (c # cs) = c # group_id_base cs"
  by (simp_all add: group_id_base_def is_sep_def backslash_def)

lemma group_id_cases:
  assumes "id_safe (c # cs)"
  obtains "c = CHR ''_''" | "c = CHR ''/''" | "c \<noteq> CHR ''_''" "\<not> is_sep c"
  using assms by (cases cs) (auto simp: is_sep_def)

text \<open>A run of underscores never starts with a separator after a separator or an underscore.\<close>

lemma group_id_descent:
  "id_safe x \<Longrightarrow> id_safe y \<Longrightarrow> \<not> starts_with x ''/'' \<Longrightarrow> \<not> starts_with y ''/''
    \<Longrightarrow> group_id_base x \<noteq> CHR ''_'' # group_id_base y"
proof (induction "length x + length y" arbitrary: x y rule: less_induct)
  case less
  show ?case
  proof
    assume eq: "group_id_base x = CHR ''_'' # group_id_base y"
    then obtain c x' where x: "x = c # x'" by (cases x) (auto simp: group_id_simps)
    from less.prems(1) have "c = CHR ''_''"
      unfolding x by (cases rule: group_id_cases) (use eq less.prems(3) x in \<open>auto simp: group_id_simps starts_with_def\<close>)
    with eq x have "group_id_base y = CHR ''_'' # group_id_base x'" by (simp add: group_id_simps)
    moreover have "id_safe x'" "\<not> starts_with x' ''/''"
      using less.prems(1) id_safe_tl id_safe_after \<open>c = CHR ''_''\<close> unfolding x by blast+
    ultimately show False
      using less.hyps [of y x'] less.prems(2,4) x by simp
  qed
qed

lemma group_id_inj: "id_safe p \<Longrightarrow> id_safe q \<Longrightarrow> group_id_base p = group_id_base q \<Longrightarrow> p = q"
proof (induction p arbitrary: q)
  case Nil
  then show ?case
    by (cases q) (auto simp: group_id_simps elim!: group_id_cases)
next
  case (Cons c p)
  then obtain d q' where q: "q = d # q'"
    by (cases q) (auto simp: group_id_simps elim!: group_id_cases)
  have safe: "id_safe p" "id_safe q'" using Cons.prems id_safe_tl q by blast+
  have "c = d \<and> group_id_base p = group_id_base q'"
    using Cons.prems(1)
  proof (cases rule: group_id_cases)
    case 1
    from Cons.prems(2) show ?thesis unfolding q
    proof (cases rule: group_id_cases)
      case 2
      with 1 Cons.prems(3) q have "group_id_base q' = CHR ''_'' # group_id_base p" by (simp add: group_id_simps)
      with group_id_descent [of q' p] safe id_safe_after 1 2 Cons.prems q show ?thesis by blast
    qed (use 1 Cons.prems(3) q in \<open>auto simp: group_id_simps\<close>)
  next
    case 2
    from Cons.prems(2) show ?thesis unfolding q
    proof (cases rule: group_id_cases)
      case 1
      with 2 Cons.prems(3) q have "group_id_base p = CHR ''_'' # group_id_base q'" by (simp add: group_id_simps)
      with group_id_descent [of p q'] safe id_safe_after 1 2 Cons.prems q show ?thesis by blast
    qed (use 2 Cons.prems(3) q in \<open>auto simp: group_id_simps\<close>)
  next
    case 3
    from Cons.prems(2) show ?thesis unfolding q
      by (cases rule: group_id_cases) (use 3 Cons.prems(3) q in \<open>auto simp: group_id_simps is_sep_def\<close>)
  qed
  with Cons.IH safe q show ?case by blast
qed

section \<open>Properties\<close>

text \<open>
  Normalisation gives a canonical form. Two paths have the same normalised text exactly when
  both or neither are absolute and they resolve to the same components; the normalised path is
  itself normalised; its components are leading \<^verbatim>\<open>..\<close> steps followed by proper names.
\<close>

theorem normalize_canonical:
  "(normalize_project_path p = normalize_project_path q \<longleftrightarrow>
      is_absolute p = is_absolute q \<and> components_of p = components_of q)
   \<and> normalize_project_path (normalize_project_path p) = normalize_project_path p
   \<and> (\<exists>k ds. components_of p = replicate k ''..'' @ ds \<and> '''' \<notin> set ds \<and> ''.'' \<notin> set ds \<and> ''..'' \<notin> set ds)"
proof -
  have "\<exists>k ds. components_of p = replicate k ''..'' @ ds \<and> (\<forall>d \<in> set ds. d \<notin> {'''', ''.'', ''..''})"
    using normal_components_of [of p] unfolding normal_components_def by blast
  then have "\<exists>k ds. components_of p = replicate k ''..'' @ ds \<and> '''' \<notin> set ds \<and> ''.'' \<notin> set ds \<and> ''..'' \<notin> set ds"
    by blast
  moreover have "normalize_project_path (normalize_project_path p) = normalize_project_path p"
    by (simp add: normalize_path_text [of "normalize_project_path p"]) (simp add: normalize_path_text)
  ultimately show ?thesis
    by (auto simp: normalize_path_text path_text_inj normal_components_of)
qed

text \<open>
  Path equality is equality of components. \<^verbatim>\<open>normalized_equals\<close> holds exactly when the two
  paths resolve to the same components, so it is an equivalence relation: a leading slash is the
  only difference it forgives, and a path never equals one of its proper suffixes.
\<close>

theorem normalized_equals_iff: "normalized_equals p q \<longleftrightarrow> components_of p = components_of q"
  by (auto simp: normalized_equals_def Let_def normalize_path_text trim_path_text path_text_inj normal_components_of)

text \<open>
  Relativising a file below the scan root gives its normalised remainder: the components of
  the root are stripped, whatever redundant separators and dots the two paths contain.
\<close>

theorem relativize_below_root:
  assumes "root \<noteq> []" "backslash \<notin> set p" "\<not> starts_with p ''/''"
  shows "relativize root (root @ ''/'' @ p) = normalize_project_path p"
proof -
  define ws where "ws = filter (\<lambda>w. w \<noteq> '''' \<and> w \<noteq> ''.'') (split_by (\<lambda>c. c = CHR ''/'') p)"
  have strip: "strip_prefix (root @ ''/'' @ p) root = Some (join ''/'' ws)"
    unfolding strip_prefix_def path_components_join [OF assms(1)] by (simp add: ws_def)
  have pieces: "w \<noteq> [] \<and> CHR ''/'' \<notin> set w \<and> backslash \<notin> set w" if "w \<in> set ws" for w
    using split_by_pieces [of w "\<lambda>c. c = CHR ''/''" p] assms(2) that by (auto simp: ws_def)
  have "backslash \<notin> set (join ''/'' ws)"
    using set_join [of "CHR ''/''" ws] pieces by (auto simp: backslash_def)
  then have ub: "unbackslash (join ''/'' ws) = join ''/'' ws" "unbackslash p = p"
    using assms(2) by (auto simp: unbackslash_def intro!: map_idI)
  have "components_of (join ''/'' ws) = components_of p"
    using pieces by (simp add: components_of_def ub normalize_components_def foldl_split_join)
      (simp add: ws_def foldl_skip)
  moreover have "\<not> is_absolute (join ''/'' ws)" "\<not> is_absolute p"
    using join_relative [of ws] pieces assms(3) by (simp_all add: is_absolute_def ub)
  ultimately show ?thesis unfolding relativize_def strip by (simp add: normalize_path_text)
qed

theorem relativize_below_root_witness:
  "relativize ''/work/project'' (''/work/project'' @ ''/'' @ ''./src//main.rs'') = normalize_project_path ''./src//main.rs''"
  by (rule relativize_below_root) (simp_all add: backslash_def starts_with_def)

text \<open>
  Group ids are injective on paths in which no separator follows an underscore or another
  separator and which contain no backslash.
\<close>

theorem group_id_injective:
  assumes "id_safe p" "id_safe q" "p \<noteq> q"
  shows "group_id_base p \<noteq> group_id_base q"
  using group_id_inj [OF assms(1,2)] assms(3) by blast

theorem group_id_injective_witness: "group_id_base ''a/b.c'' \<noteq> group_id_base ''a_b.c''"
  by (rule group_id_injective) (simp_all add: backslash_def)

text \<open>
  Group ids are not injective in general, although the documentation of \<^verbatim>\<open>group_id_base\<close> says
  that distinct paths can never collide: a directory whose name ends in an underscore and a file
  whose name starts with one give the same group id, and both paths are normalised.
\<close>

theorem group_id_collision:
  "let p = ''src_/a.py''; q = ''src/_a.py''
   in p \<noteq> q \<and> normalize_project_path p = p \<and> normalize_project_path q = q \<and> group_id_base p = group_id_base q"
  by (simp add: group_id_base_def is_sep_def backslash_def normalize_project_path_def normalize_components_def
      norm_component_def starts_with_def)

text \<open>
  The directory markers of \<^verbatim>\<open>is_generated_path\<close> are matched as substrings: every file below a
  directory whose name merely ends in \<^verbatim>\<open>out\<close> (\<^verbatim>\<open>layout/\<close>, \<^verbatim>\<open>checkout/\<close>) is classified as generated.
\<close>

theorem generated_marker_is_substring: "is_generated_path (dir @ ''out/'' @ file)"
  by (simp add: is_generated_path_def str_contains_iff) blast

end
