(* ===== verification/Symbol_Key.thy ===== *)
theory Symbol_Key
  imports Entity_Model Project_Path
begin

text \<open>
  The stable symbol key (\<^verbatim>\<open>core/cce-types/src/types/relation/canonical.rs\<close>): the identity of a
  symbol across sessions, and the opaque identifier derived from it. SHA-256 is third-party code;
  its lower-case hexadecimal digest of a byte string is the argument \<open>sha256_hex\<close>.
\<close>

section \<open>Keys\<close>

text \<open>\<^verbatim>\<open>to_le_bytes\<close> of an integer of \<open>n\<close> bytes.\<close>

primrec le_bytes :: "nat \<Rightarrow> nat \<Rightarrow> string" where
  "le_bytes 0 x = []"
| "le_bytes (Suc n) x = char_of (x mod 256) # le_bytes n (x div 256)"

definition RELATION_SNAPSHOT_SCHEMA_VERSION :: nat where
  "RELATION_SNAPSHOT_SCHEMA_VERSION = 1"

record StableSymbolKey =
  sk_file_path :: string
  sk_scoped_name :: string
  sk_kind :: EntityKind
  sk_overload_discriminator :: string

definition discriminator ::
  "(string \<Rightarrow> string) \<Rightarrow> EntityKind \<Rightarrow> string \<Rightarrow> string \<Rightarrow> usize \<Rightarrow> usize \<Rightarrow> bool \<Rightarrow> string" where
  "discriminator sha256_hex kind cfg_predicate ordinal span_start span_end fold_span =
     sha256_hex (kind_display kind @ cfg_predicate @ ordinal
       @ (if fold_span then le_bytes 8 (unat span_start) @ le_bytes 8 (unat span_end) else []))"

definition StableSymbolKey_new :: "(string \<Rightarrow> string) \<Rightarrow> string \<Rightarrow> string \<Rightarrow> EntityKind \<Rightarrow> string \<Rightarrow> StableSymbolKey" where
  "StableSymbolKey_new sha256_hex file_path scoped_name kind signature =
     \<lparr>sk_file_path = normalize_project_path file_path, sk_scoped_name = scoped_name, sk_kind = kind,
      sk_overload_discriminator = discriminator sha256_hex kind [] [] 0 0 False\<rparr>"

definition CFG_PREDICATE :: string where
  "CFG_PREDICATE = ''cfg_predicate''"

definition DUPLICATE_SIBLING_ORDINAL :: string where
  "DUPLICATE_SIBLING_ORDINAL = ''duplicate_sibling_ordinal''"

definition for_entity :: "(string \<Rightarrow> string) \<Rightarrow> string \<Rightarrow> string \<Rightarrow> Entity \<Rightarrow> StableSymbolKey" where
  "for_entity sha256_hex file_path scoped_name entity =
     (let cfg_predicate = (case get_metadata entity CFG_PREDICATE of Some v \<Rightarrow> v | None \<Rightarrow> []);
          sibling_ordinal = (case get_metadata entity DUPLICATE_SIBLING_ORDINAL of Some v \<Rightarrow> v | None \<Rightarrow> []);
          fold_span = is_position_scoped (e_kind entity)
      in \<lparr>sk_file_path = normalize_project_path file_path, sk_scoped_name = scoped_name,
          sk_kind = e_kind entity,
          sk_overload_discriminator = discriminator sha256_hex (e_kind entity) cfg_predicate sibling_ordinal
            (start_byte (e_span entity)) (end_byte (e_span entity)) fold_span\<rparr>)"

definition stable_id :: "(string \<Rightarrow> string) \<Rightarrow> StableSymbolKey \<Rightarrow> string" where
  "stable_id sha256_hex key =
     ''sym_'' @ sha256_hex (le_bytes 4 RELATION_SNAPSHOT_SCHEMA_VERSION
       @ concat (map (\<lambda>component. le_bytes 8 (length component) @ component)
           [sk_file_path key, sk_scoped_name key, kind_display (sk_kind key), sk_overload_discriminator key]))"

definition is_file_placeholder :: "StableSymbolKey \<Rightarrow> bool" where
  "is_file_placeholder key = (sk_scoped_name key = ''<file>'' \<and> sk_kind key = KModule)"

section \<open>Injectivity of the encoding\<close>

lemma length_le_bytes [simp]: "length (le_bytes n x) = n"
  by (induction n arbitrary: x) auto

lemma le_bytes_inj: "x < 256 ^ n \<Longrightarrow> y < 256 ^ n \<Longrightarrow> le_bytes n x = le_bytes n y \<Longrightarrow> x = y"
proof (induction n arbitrary: x y)
  case (Suc n)
  have "of_char (char_of (x mod 256) :: char) = (of_char (char_of (y mod 256) :: char) :: nat)"
    using Suc.prems(3) by simp
  then have "x mod 256 = y mod 256" by simp
  moreover have "x div 256 = y div 256"
    using Suc.prems by (intro Suc.IH) (auto simp: less_mult_imp_div_less mult.commute)
  ultimately show ?case by (metis mult_div_mod_eq)
qed simp

definition encode :: "string \<Rightarrow> string" where
  "encode c = le_bytes 8 (length c) @ c"

lemma encode_inj:
  assumes "encode c @ r = encode d @ s" "length c < 256 ^ 8" "length d < 256 ^ 8"
  shows "c = d \<and> r = s"
proof -
  have "le_bytes 8 (length c) @ (c @ r) = le_bytes 8 (length d) @ (d @ s)"
    using assms(1) by (simp add: encode_def)
  then have "le_bytes 8 (length c) = le_bytes 8 (length d)" "c @ r = d @ s" by simp_all
  with le_bytes_inj [OF assms(2,3)] show ?thesis by simp
qed

lemma kind_display_length: "length (kind_display k) < 256 ^ 8"
  by (cases k) simp_all

section \<open>Properties\<close>

text \<open>
  The stable identifier identifies the key. If SHA-256 does not collide on the encodings of
  two keys, equal identifiers mean equal keys: the length prefixes keep the four components apart,
  and the text of the kind determines the kind.
\<close>

theorem stable_id_identifies:
  assumes "inj sha256_hex"
    and "length (sk_file_path k) < 256 ^ 8" "length (sk_file_path k') < 256 ^ 8"
      "length (sk_scoped_name k) < 256 ^ 8" "length (sk_scoped_name k') < 256 ^ 8"
      "length (sk_overload_discriminator k) < 256 ^ 8" "length (sk_overload_discriminator k') < 256 ^ 8"
    and "stable_id sha256_hex k = stable_id sha256_hex k'"
  shows "k = k'"
proof -
  have "le_bytes 4 RELATION_SNAPSHOT_SCHEMA_VERSION @ encode (sk_file_path k) @ encode (sk_scoped_name k)
        @ encode (kind_display (sk_kind k)) @ encode (sk_overload_discriminator k) @ []
      = le_bytes 4 RELATION_SNAPSHOT_SCHEMA_VERSION @ encode (sk_file_path k') @ encode (sk_scoped_name k')
        @ encode (kind_display (sk_kind k')) @ encode (sk_overload_discriminator k') @ []"
    using assms(8) by (simp add: stable_id_def encode_def inj_eq [OF assms(1)])
  then have 1: "encode (sk_file_path k) @ encode (sk_scoped_name k)
        @ encode (kind_display (sk_kind k)) @ encode (sk_overload_discriminator k) @ []
      = encode (sk_file_path k') @ encode (sk_scoped_name k')
        @ encode (kind_display (sk_kind k')) @ encode (sk_overload_discriminator k') @ []" by simp
  note 2 = encode_inj [OF 1 assms(2,3)]
  note 3 = encode_inj [OF conjunct2 [OF 2] assms(4,5)]
  note 4 = encode_inj [OF conjunct2 [OF 3] kind_display_length kind_display_length]
  note 5 = encode_inj [OF conjunct2 [OF 4] assms(6,7)]
  show ?thesis using 2 3 4 5 by (simp add: StableSymbolKey.equality)
qed

theorem stable_id_identifies_witness:
  "stable_id (\<lambda>x. x) (StableSymbolKey_new (\<lambda>x. x) ''a.rs'' ''f'' KFunction ''fn f'')
   \<noteq> stable_id (\<lambda>x. x) (StableSymbolKey_new (\<lambda>x. x) ''a.rs'' ''f'' KMethod ''fn f'')"
proof
  let ?k = "StableSymbolKey_new (\<lambda>x. x) ''a.rs'' ''f'' KFunction ''fn f''"
    and ?k' = "StableSymbolKey_new (\<lambda>x. x) ''a.rs'' ''f'' KMethod ''fn f''"
  have p: "normalize_project_path ''a.rs'' = ''a.rs''"
    by (simp add: normalize_project_path_def normalize_components_def norm_component_def starts_with_def backslash_def)
  assume "stable_id (\<lambda>x. x) ?k = stable_id (\<lambda>x. x) ?k'"
  then have "?k = ?k'"
    by (intro stable_id_identifies) (simp_all add: StableSymbolKey_new_def discriminator_def p)
  then show False by (simp add: StableSymbolKey_new_def)
qed

text \<open>
  The identity of a symbol survives edits of its signature. Two entities that agree on kind,
  conditional-compilation predicate and sibling ordinal, and on their byte span when their kind is
  addressed by position, have the same key under the same file and scoped name; a position-scoped
  entity that moves gets another key unless SHA-256 collides.
\<close>

theorem symbol_key_ignores_signature:
  "for_entity sha256_hex f n (e\<lparr>e_signature := sig, e_parameters := ps, e_return_type := rt, e_doc_comment := dc\<rparr>)
     = for_entity sha256_hex f n e
   \<and> (\<not> is_position_scoped (e_kind e) \<longrightarrow>
        for_entity sha256_hex f n (e\<lparr>e_span := sp\<rparr>) = for_entity sha256_hex f n e)
   \<and> (is_position_scoped (e_kind e) \<and> inj sha256_hex
        \<and> for_entity sha256_hex f n (e\<lparr>e_span := sp\<rparr>) = for_entity sha256_hex f n e
      \<longrightarrow> start_byte sp = start_byte (e_span e) \<and> end_byte sp = end_byte (e_span e))"
proof -
  have "start_byte sp = start_byte (e_span e) \<and> end_byte sp = end_byte (e_span e)"
    if "is_position_scoped (e_kind e)" "inj sha256_hex"
      "for_entity sha256_hex f n (e\<lparr>e_span := sp\<rparr>) = for_entity sha256_hex f n e"
  proof -
    have "le_bytes 8 (unat (start_byte sp)) @ le_bytes 8 (unat (end_byte sp))
        = le_bytes 8 (unat (start_byte (e_span e))) @ le_bytes 8 (unat (end_byte (e_span e)))"
      using that by (simp add: for_entity_def discriminator_def get_metadata_def inj_eq)
    then have "le_bytes 8 (unat (start_byte sp)) = le_bytes 8 (unat (start_byte (e_span e)))"
      "le_bytes 8 (unat (end_byte sp)) = le_bytes 8 (unat (end_byte (e_span e)))" by simp_all
    moreover have "unat w < 256 ^ 8" for w :: "64 word" using unsigned_less [of w] by (simp add: nat_less_iff)
    ultimately show ?thesis by (metis le_bytes_inj word_eq_iff_unsigned)
  qed
  then show ?thesis by (simp add: for_entity_def discriminator_def get_metadata_def)
qed

theorem symbol_key_ignores_signature_witness:
  "for_entity (\<lambda>x. x) ''a.rs'' ''x'' ((Entity_new 1 KFunction ''f'' unavailable)\<lparr>e_span := from_line 3\<rparr>)
     = for_entity (\<lambda>x. x) ''a.rs'' ''x'' (Entity_new 1 KFunction ''f'' unavailable)"
  using symbol_key_ignores_signature [where sha256_hex = "\<lambda>x. x" and f = "''a.rs''" and n = "''x''"
      and e = "Entity_new 1 KFunction ''f'' unavailable" and sp = "from_line 3"]
  by (simp add: Entity_new_def kind_preds)

end
