(* ===== verification/Edge_Set.thy ===== *)
theory Edge_Set
  imports Relation_Types
begin

text \<open>
  The ordered edge set of the relation index
  (\<^verbatim>\<open>cce-codegraph/src/index/core/edge_set.rs\<close>): edges in insertion order, a parallel set of their
  identities for deduplication, and the sorted list of callers that embeds the reverse index.
  Of \<^verbatim>\<open>ResolvedRelation\<close> (\<^verbatim>\<open>cce-types/src/types/relation/resolved.rs\<close>) the fields that identity and
  queries read are fields here; the presentation fields (symbol snapshot, stdlib category,
  owner type, call context, overload signature, call frequency, cfg condition) are carried
  unread in \<open>payload\<close>.
\<close>

section \<open>Relations and their identity\<close>

record 'p ResolvedRelation =
  caller :: EntityId
  callee_id :: "EntityId option"
  callee_name :: string
  relation_type :: RelationType
  span :: Span
  is_external :: bool
  external_type :: "ExternalCallType option"
  payload :: 'p

definition is_internal :: "'p ResolvedRelation \<Rightarrow> bool" where
  "is_internal r = (callee_id r \<noteq> None)"

definition is_external_inferred :: "'p ResolvedRelation \<Rightarrow> bool" where
  "is_external_inferred r = (callee_id r = None)"

definition is_consistent :: "'p ResolvedRelation \<Rightarrow> bool" where
  "is_consistent r = (is_external r = is_external_inferred r)"

definition is_stdlib :: "'p ResolvedRelation \<Rightarrow> bool" where
  "is_stdlib r = (case external_type r of Some (StandardLibrary _) \<Rightarrow> True | _ \<Rightarrow> False)"

definition callee_name_from_index ::
  "(EntityId \<Rightarrow> string option) \<Rightarrow> 'p ResolvedRelation \<Rightarrow> string option" where
  "callee_name_from_index lookup r =
     (case callee_id r of Some i \<Rightarrow> lookup i | None \<Rightarrow> Some (callee_name r))"

datatype RelationEdgeKind =
    Internal EntityId RelationType
  | External RelationType "ExternalCallType option" string
  | Unresolved RelationType string

record RelationEdgeIdentity =
  id_caller :: EntityId
  id_kind :: RelationEdgeKind
  id_callsite :: "Span option"

definition relation_identity :: "'p ResolvedRelation \<Rightarrow> RelationEdgeIdentity" where
  "relation_identity r =
     \<lparr>id_caller = caller r,
      id_kind = (case callee_id r of
          Some i \<Rightarrow> Internal i (relation_type r)
        | None \<Rightarrow> if is_external r then External (relation_type r) (external_type r) (callee_name r)
                  else Unresolved (relation_type r) (callee_name r)),
      id_callsite = (if is_call (relation_type r) then Some (span r) else None)\<rparr>"

section \<open>The edge set\<close>

record 'p RelationEdgeSet =
  edges :: "'p ResolvedRelation list"
  identities :: "RelationEdgeIdentity set"
  callers :: "EntityId list"

definition es_empty :: "'p RelationEdgeSet" where
  "es_empty = \<lparr>edges = [], identities = {}, callers = []\<rparr>"

definition es_len :: "'p RelationEdgeSet \<Rightarrow> nat" where
  "es_len s = length (edges s)"

definition es_is_empty :: "'p RelationEdgeSet \<Rightarrow> bool" where
  "es_is_empty s = (edges s = [])"

definition contains_identity :: "RelationEdgeIdentity \<Rightarrow> 'p RelationEdgeSet \<Rightarrow> bool" where
  "contains_identity i s = (i \<in> identities s)"

definition es_insert :: "'p ResolvedRelation \<Rightarrow> 'p RelationEdgeSet \<Rightarrow> 'p RelationEdgeSet \<times> bool" where
  "es_insert r s =
     (let i = relation_identity r
      in if i \<in> identities s then (s, False)
         else (s\<lparr>identities := insert i (identities s), edges := edges s @ [r]\<rparr>, True))"

definition remove_by_identity ::
  "RelationEdgeIdentity \<Rightarrow> 'p RelationEdgeSet \<Rightarrow> 'p RelationEdgeSet \<times> bool" where
  "remove_by_identity i s =
     (if i \<notin> identities s then (s, False)
      else (s\<lparr>identities := identities s - {i},
              edges := filter (\<lambda>e. relation_identity e \<noteq> i) (edges s)\<rparr>, True))"

text \<open>
  The index loop of \<^verbatim>\<open>retain\<close>: the position moves only past an edge that is kept. The predicate
  is pure here.
\<close>

function retain_loop ::
  "('p ResolvedRelation \<Rightarrow> bool) \<Rightarrow> nat \<Rightarrow> 'p RelationEdgeSet \<Rightarrow> 'p RelationEdgeSet" where
  "retain_loop f i s =
     (if i < length (edges s)
      then if \<not> f (edges s ! i)
           then retain_loop f i (s\<lparr>edges := remove_at i (edges s),
                                   identities := identities s - {relation_identity (edges s ! i)}\<rparr>)
           else retain_loop f (Suc i) s
      else s)"
  by pat_completeness auto
termination
  by (relation "measure (\<lambda>(f, i, s). length (edges s) - i)") (auto simp: remove_at_def)

definition retain :: "('p ResolvedRelation \<Rightarrow> bool) \<Rightarrow> 'p RelationEdgeSet \<Rightarrow> 'p RelationEdgeSet" where
  "retain f s = retain_loop f 0 s"

definition add_caller :: "EntityId \<Rightarrow> 'p RelationEdgeSet \<Rightarrow> 'p RelationEdgeSet" where
  "add_caller c s =
     (case binary_search c (callers s) of
        Inl pos \<Rightarrow> s\<lparr>callers := insert_at pos c (callers s)\<rparr>
      | Inr _ \<Rightarrow> s)"

definition remove_caller :: "EntityId \<Rightarrow> 'p RelationEdgeSet \<Rightarrow> 'p RelationEdgeSet \<times> bool" where
  "remove_caller c s =
     (case binary_search c (callers s) of
        Inr pos \<Rightarrow> (s\<lparr>callers := remove_at pos (callers s)\<rparr>, True)
      | Inl _ \<Rightarrow> (s, False))"

definition is_callers_empty :: "'p RelationEdgeSet \<Rightarrow> bool" where
  "is_callers_empty s = (callers s = [])"

declare retain_loop.simps [simp del]

section \<open>The invariant\<close>

definition es_inv :: "'p RelationEdgeSet \<Rightarrow> bool" where
  "es_inv s \<longleftrightarrow> distinct (map relation_identity (edges s))
     \<and> identities s = relation_identity ` set (edges s) \<and> sorted_wrt (<) (callers s)"

lemma es_inv_empty [simp]: "es_inv es_empty"
  by (simp add: es_inv_def es_empty_def)

lemma sorted_insert_lower_bound:
  assumes "sorted_wrt (<) xs" "c \<notin> set xs"
  shows "sorted_wrt (<) (insert_at (lower_bound c xs) c xs)" "set (insert_at (lower_bound c xs) c xs) = insert c (set xs)"
proof -
  let ?t = "takeWhile (\<lambda>y. y < c) xs" and ?d = "dropWhile (\<lambda>y. y < c) xs"
  have split: "insert_at (lower_bound c xs) c xs = ?t @ c # ?d"
    by (simp add: insert_at_def take_lower_bound drop_lower_bound)
  have xs: "?t @ ?d = xs" by (rule takeWhile_dropWhile_id)
  then show "set (insert_at (lower_bound c xs) c xs) = insert c (set xs)"
    unfolding split by (metis Un_insert_right list.set(2) set_append)
  have "sorted_wrt (<) (?t @ ?d)" unfolding xs by (rule assms(1))
  moreover have "\<forall>y \<in> set ?t. y < c" by (auto dest: set_takeWhileD)
  moreover have "\<forall>y \<in> set ?d. c < y"
    using sorted_wrt_dropWhile_ge [OF assms(1)] assms(2) set_dropWhileD
    by (metis order_le_imp_less_or_eq)
  ultimately show "sorted_wrt (<) (insert_at (lower_bound c xs) c xs)"
    unfolding split by (auto simp: sorted_wrt_append intro: less_trans)
qed

lemma add_caller_spec:
  assumes "sorted_wrt (<) (callers s)"
  shows "sorted_wrt (<) (callers (add_caller c s))" "set (callers (add_caller c s)) = insert c (set (callers s))"
    "edges (add_caller c s) = edges s" "identities (add_caller c s) = identities s"
proof -
  have found: "c \<in> set (callers s)" if "binary_search c (callers s) = Inr p" for p
    using binary_search_Inr [OF that] nth_mem by blast
  have miss: "c \<notin> set (callers s)" "p = lower_bound c (callers s)" if "binary_search c (callers s) = Inl p" for p
    using binary_search_Inl [OF assms that] by simp_all
  show "sorted_wrt (<) (callers (add_caller c s))"
    using assms miss sorted_insert_lower_bound(1) [OF assms] by (auto simp: add_caller_def split: sum.split)
  show "set (callers (add_caller c s)) = insert c (set (callers s))"
    using found miss sorted_insert_lower_bound(2) [OF assms]
    by (auto simp: add_caller_def insert_absorb split: sum.split)
  show "edges (add_caller c s) = edges s" "identities (add_caller c s) = identities s"
    by (simp_all add: add_caller_def split: sum.split)
qed

lemma remove_at_nth:
  assumes "sorted_wrt (<) xs" "p < length xs"
  shows "sorted_wrt (<) (remove_at p xs)" "set (remove_at p xs) = set xs - {xs ! p :: 'a :: linorder}"
proof -
  have xs: "xs = take p xs @ xs ! p # drop (Suc p) xs" using assms(2) by (rule id_take_nth_drop)
  have srt: "sorted_wrt (<) (take p xs @ xs ! p # drop (Suc p) xs)" using assms(1) xs by simp
  then show "sorted_wrt (<) (remove_at p xs)" by (simp add: remove_at_def sorted_wrt_append)
  have "set xs = set (take p xs @ xs ! p # drop (Suc p) xs)" using xs by simp
  with srt show "set (remove_at p xs) = set xs - {xs ! p}"
    by (auto simp: remove_at_def sorted_wrt_append)
qed

lemma remove_caller_spec:
  assumes "sorted_wrt (<) (callers s)"
  shows "sorted_wrt (<) (callers (fst (remove_caller c s)))"
    "set (callers (fst (remove_caller c s))) = set (callers s) - {c}"
    "snd (remove_caller c s) \<longleftrightarrow> c \<in> set (callers s)"
    "edges (fst (remove_caller c s)) = edges s" "identities (fst (remove_caller c s)) = identities s"
proof -
  have found: "p < length (callers s)" "callers s ! p = c" if "binary_search c (callers s) = Inr p" for p
    using binary_search_Inr [OF that] by simp_all
  have miss: "c \<notin> set (callers s)" if "binary_search c (callers s) = Inl p" for p
    using binary_search_Inl [OF assms that] by simp
  show "sorted_wrt (<) (callers (fst (remove_caller c s)))"
    using assms found remove_at_nth(1) [OF assms] by (auto simp: remove_caller_def split: sum.split)
  show "set (callers (fst (remove_caller c s))) = set (callers s) - {c}"
    using found miss remove_at_nth(2) [OF assms] by (auto simp: remove_caller_def split: sum.split)
  show "snd (remove_caller c s) \<longleftrightarrow> c \<in> set (callers s)"
    using found nth_mem [of _ "callers s"] by (cases "binary_search c (callers s)") (auto simp: remove_caller_def dest: miss)
  show "edges (fst (remove_caller c s)) = edges s" "identities (fst (remove_caller c s)) = identities s"
    by (simp_all add: remove_caller_def split: sum.split)
qed

lemma retain_loop_spec:
  "retain_loop f i s = s\<lparr>edges := take i (edges s) @ filter f (drop i (edges s)),
     identities := identities s - relation_identity ` {e \<in> set (drop i (edges s)). \<not> f e}\<rparr>"
proof (induction f i s rule: retain_loop.induct)
  case (1 f i s)
  show ?case
  proof (cases "i < length (edges s)")
    case True
    then have drop: "drop i (edges s) = edges s ! i # drop (Suc i) (edges s)" by (simp add: Cons_nth_drop_Suc)
    show ?thesis
    proof (cases "f (edges s ! i)")
      case keep: True
      have "retain_loop f i s = retain_loop f (Suc i) s"
        using True keep by (subst retain_loop.simps) simp
      with 1(2) [OF True] keep True show ?thesis
        by (simp add: drop take_Suc_conv_app_nth) (simp add: Collect_disj_eq conj_disj_distribR Collect_conv_if)
    next
      case rem: False
      let ?s = "s\<lparr>edges := remove_at i (edges s), identities := identities s - {relation_identity (edges s ! i)}\<rparr>"
      have "retain_loop f i s = retain_loop f i ?s"
        using True rem by (subst retain_loop.simps) simp
      moreover have "take i (remove_at i (edges s)) = take i (edges s)"
        "drop i (remove_at i (edges s)) = drop (Suc i) (edges s)"
        using True by (simp_all add: remove_at_def)
      moreover have "{e \<in> set (drop i (edges s)). \<not> f e} = insert (edges s ! i) {e \<in> set (drop (Suc i) (edges s)). \<not> f e}"
        using rem by (auto simp: drop)
      ultimately show ?thesis
        using 1(1) [OF True] rem by (simp add: drop Diff_insert2 [symmetric])
    qed
  next
    case False
    then show ?thesis by (subst retain_loop.simps) simp
  qed
qed

lemma retain_spec:
  assumes "es_inv s"
  shows "retain f s = s\<lparr>edges := filter f (edges s), identities := relation_identity ` set (filter f (edges s))\<rparr>"
proof -
  have "inj_on relation_identity (set (edges s))" using assms by (simp add: es_inv_def distinct_map)
  then have "relation_identity ` set (edges s) - relation_identity ` {e \<in> set (edges s). \<not> f e}
      = relation_identity ` {e \<in> set (edges s). f e}"
    by (auto simp: inj_on_def)
  then show ?thesis using assms by (simp add: retain_def retain_loop_spec es_inv_def)
qed

section \<open>The specification: a list of edges with distinct identities\<close>

datatype 'p es_event =
    EInsert "'p ResolvedRelation" | ERemove RelationEdgeIdentity | ERetain "'p ResolvedRelation \<Rightarrow> bool"
  | EAddCaller EntityId | ERemoveCaller EntityId

fun es_step :: "'p RelationEdgeSet \<Rightarrow> 'p es_event \<Rightarrow> 'p RelationEdgeSet" where
  "es_step s (EInsert r) = fst (es_insert r s)"
| "es_step s (ERemove i) = fst (remove_by_identity i s)"
| "es_step s (ERetain f) = retain f s"
| "es_step s (EAddCaller c) = add_caller c s"
| "es_step s (ERemoveCaller c) = fst (remove_caller c s)"

fun spec_edges :: "'p ResolvedRelation list \<times> EntityId set \<Rightarrow> 'p es_event
    \<Rightarrow> 'p ResolvedRelation list \<times> EntityId set" where
  "spec_edges (es, cs) (EInsert r) =
     (if list_ex (\<lambda>e. relation_identity e = relation_identity r) es then es else es @ [r], cs)"
| "spec_edges (es, cs) (ERemove i) = (filter (\<lambda>e. relation_identity e \<noteq> i) es, cs)"
| "spec_edges (es, cs) (ERetain f) = (filter f es, cs)"
| "spec_edges (es, cs) (EAddCaller c) = (es, insert c cs)"
| "spec_edges (es, cs) (ERemoveCaller c) = (es, cs - {c})"

definition es_abs :: "'p RelationEdgeSet \<Rightarrow> 'p ResolvedRelation list \<times> EntityId set" where
  "es_abs s = (edges s, set (callers s))"

lemma es_abs_empty [simp]: "es_abs es_empty = ([], {})"
  by (simp add: es_abs_def es_empty_def)

lemma es_insert_inv: "es_inv s \<Longrightarrow> es_inv (fst (es_insert r s))"
  by (auto simp: es_inv_def es_insert_def Let_def)

lemma remove_by_identity_inv: "es_inv s \<Longrightarrow> es_inv (fst (remove_by_identity i s))"
  by (auto simp: es_inv_def remove_by_identity_def distinct_map_filter)

lemma retain_inv: "es_inv s \<Longrightarrow> es_inv (retain f s)"
  by (simp add: retain_spec) (simp add: es_inv_def distinct_map_filter)

lemma caller_inv: "es_inv s \<Longrightarrow> es_inv (add_caller c s)" "es_inv s \<Longrightarrow> es_inv (fst (remove_caller c s))"
  by (simp_all add: es_inv_def add_caller_spec remove_caller_spec)

interpretation edge_set: refined_machine es_step es_inv es_abs spec_edges
proof
  fix s :: "'p RelationEdgeSet" and e :: "'p es_event"
  assume inv: "es_inv s"
  show "es_inv (es_step s e)"
    using inv by (cases e) (simp_all add: es_insert_inv remove_by_identity_inv retain_inv caller_inv)
  have srt: "sorted_wrt (<) (callers s)" and ids: "identities s = relation_identity ` set (edges s)"
    using inv by (simp_all add: es_inv_def)
  show "es_abs (es_step s e) = spec_edges (es_abs s) e"
  proof (cases e)
    case (EInsert r)
    then show ?thesis using ids by (auto simp: es_abs_def es_insert_def Let_def list_ex_iff image_iff)
  next
    case (ERemove i)
    then show ?thesis
      using ids by (auto simp: es_abs_def remove_by_identity_def image_iff intro!: filter_True [symmetric])
  qed (simp_all add: es_abs_def retain_spec [OF inv] add_caller_spec [OF srt] remove_caller_spec [OF srt])
qed

section \<open>Properties\<close>

text \<open>
  The edge set is the ordered list of its edges with distinct identities. After any
  operations from the empty set, the edges are those a plain list would hold with a linear
  duplicate check, in insertion order; the identity set used for the constant-time check holds
  exactly their identities; the callers are strictly sorted and are the set the operations give.
\<close>

theorem edge_set_refines_list:
  "let s = foldl es_step es_empty evs; a = foldl spec_edges ([], {}) evs
   in edges s = fst a \<and> set (callers s) = snd a \<and> sorted_wrt (<) (callers s)
      \<and> identities s = relation_identity ` set (edges s) \<and> distinct (map relation_identity (edges s))"
proof -
  let ?s = "foldl es_step es_empty evs"
  have "es_inv ?s" by (rule edge_set.run_inv) simp
  moreover have "es_abs ?s = foldl spec_edges ([], {}) evs"
    using edge_set.run_refines [OF es_inv_empty, of evs] by simp
  ultimately show ?thesis by (auto simp: Let_def es_inv_def es_abs_def dest: sym)
qed

text \<open>
  What the deduplication merges. Inserting a second edge into a set that holds an equal
  caller, callee and type keeps both exactly when the type is a call and the call sites differ:
  every call site stays an edge of its own, and a repeated reference that is not a call does
  not.
\<close>

theorem dedup_per_callsite:
  assumes "callee_id r = Some c" "callee_id r' = Some c" "caller r = caller r'" "relation_type r = relation_type r'"
  shows "es_len (fst (es_insert r' (fst (es_insert r es_empty)))) =
    (if is_call (relation_type r) \<and> span r \<noteq> span r' then 2 else 1)"
  using assms by (auto simp: es_len_def es_insert_def es_empty_def relation_identity_def Let_def)

theorem dedup_per_callsite_witness:
  "let r = \<lparr>caller = 1, callee_id = Some 2, callee_name = ''f'', relation_type = DirectCall, span = from_line 3,
            is_external = False, external_type = None, payload = ()\<rparr>
   in es_len (fst (es_insert (r\<lparr>span := from_line 4\<rparr>) (fst (es_insert r es_empty)))) = 2"
proof -
  define r :: "unit ResolvedRelation" where
    "r = \<lparr>caller = 1, callee_id = Some 2, callee_name = ''f'', relation_type = DirectCall, span = from_line 3,
          is_external = False, external_type = None, payload = ()\<rparr>"
  have "from_line 3 \<noteq> from_line 4" by (simp add: from_line_def from_lines_def Span_new_def)
  with dedup_per_callsite [of r 2 "r\<lparr>span := from_line 4\<rparr>"] show ?thesis
    by (simp add: r_def is_call_def Let_def)
qed

end
