(* ===== verification/Relation_Index.thy ===== *)
theory Relation_Index
  imports Symbol_Key Edge_Set Dependency_Graph "HOL-Library.Product_Lexorder"
begin

text \<open>
  The relation index (\<^verbatim>\<open>parser/cce-codegraph/src/index\<close>): its state (\<^verbatim>\<open>core.rs\<close>), the entity and
  name operations (\<^verbatim>\<open>core.rs\<close>, \<^verbatim>\<open>entity_index.rs\<close>), relations and their reverse indexes, symbol
  keys, file records and file removal (\<^verbatim>\<open>file_index.rs\<close>), the queries (\<^verbatim>\<open>relation_query.rs\<close>) and
  the validation before publication. Each \<^verbatim>\<open>DashMap\<close> or locked \<^verbatim>\<open>HashMap\<close> is a map; an operation that
  iterates takes the hash order as an argument. \<open>sha256_hex\<close> is the digest of symbol keys. The
  type parameters stand for the unread payload of a relation and for standardized imports.
\<close>

section \<open>State\<close>

datatype ExportType = ExNamed | ExDefault | ExWildcard

record ExportInfo =
  ex_function_id :: EntityId
  ex_function_name :: string
  ex_export_type :: ExportType

text \<open>Of \<^verbatim>\<open>FileInfo\<close> the fields that identify a file and its version.\<close>

record FileInfo =
  fi_id :: string
  fi_path :: string
  fi_language :: string
  fi_file_hash :: string
  fi_file_size :: u64
  fi_modified_time :: u64
  fi_parse_version :: u64

definition FileInfo_default :: FileInfo where
  "FileInfo_default = \<lparr>fi_id = [], fi_path = [], fi_language = [], fi_file_hash = [], fi_file_size = 0,
     fi_modified_time = 0, fi_parse_version = 0\<rparr>"

record 'i ImportTable =
  imt_file_id :: string
  imt_standardized_imports :: "'i list"

record 'i FileRecord =
  fr_info :: FileInfo
  fr_imports :: "'i ImportTable"
  fr_exports :: "ExportInfo list"

definition FileRecord_default :: "'i FileRecord" where
  "FileRecord_default = \<lparr>fr_info = FileInfo_default,
     fr_imports = \<lparr>imt_file_id = [], imt_standardized_imports = []\<rparr>, fr_exports = []\<rparr>"

record SymbolKeyConflictRecord =
  sc_file_path :: string
  sc_scoped_name :: string
  sc_kind :: EntityKind
  sc_kept_entity :: u64
  sc_rejected_entity :: u64

record RelationDiagnostics =
  symbol_key_conflict_count :: u64
  symbol_key_conflict_samples :: "SymbolKeyConflictRecord list"
  entity_derived_key_count :: u64
  relation_derived_key_count :: u64
  delta_export_unresolved_count :: u64

definition RelationDiagnostics_new :: RelationDiagnostics where
  "RelationDiagnostics_new = \<lparr>symbol_key_conflict_count = 0, symbol_key_conflict_samples = [],
     entity_derived_key_count = 0, relation_derived_key_count = 0, delta_export_unresolved_count = 0\<rparr>"

record ('p, 'i) RelationIndex =
  function_index :: "EntityId \<rightharpoonup> Entity"
  name_index :: "string \<rightharpoonup> EntityId list"
  entity_file_index :: "EntityId \<rightharpoonup> string"
  resolved_relation_index :: "EntityId \<rightharpoonup> 'p RelationEdgeSet"
  reverse_callee_index :: "EntityId \<rightharpoonup> EntityId list"
  file_relation_index :: "string \<rightharpoonup> 'p RelationEdgeSet"
  file_callers_by_callee :: "EntityId \<rightharpoonup> string set"
  file_records :: "string \<rightharpoonup> 'i FileRecord"
  dependency_graph :: FileDependencyGraph
  symbol_key_to_entity :: "StableSymbolKey \<rightharpoonup> EntityId"
  entity_to_symbol_key :: "EntityId \<rightharpoonup> StableSymbolKey"
  stable_id_to_entity :: "string \<rightharpoonup> EntityId"
  entity_id_counter :: u64
  entity_id_remaps :: "string \<rightharpoonup> (EntityId \<rightharpoonup> EntityId)"
  diagnostics :: RelationDiagnostics
  file_symbol_keys :: "string \<rightharpoonup> StableSymbolKey list"
  file_entities_by_start :: "string \<rightharpoonup> (u32 \<times> EntityId) list"

definition RelationIndex_new :: "('p, 'i) RelationIndex" where
  "RelationIndex_new =
     \<lparr>function_index = Map.empty, name_index = Map.empty, entity_file_index = Map.empty,
      resolved_relation_index = Map.empty, reverse_callee_index = Map.empty,
      file_relation_index = Map.empty, file_callers_by_callee = Map.empty, file_records = Map.empty,
      dependency_graph = dg_new, symbol_key_to_entity = Map.empty, entity_to_symbol_key = Map.empty,
      stable_id_to_entity = Map.empty, entity_id_counter = 0, entity_id_remaps = Map.empty,
      diagnostics = RelationDiagnostics_new, file_symbol_keys = Map.empty, file_entities_by_start = Map.empty\<rparr>"

section \<open>Entity ids\<close>

definition SYNTHETIC_MARK :: u64 where
  "SYNTHETIC_MARK = push_bit 63 1"

definition is_synthetic_id :: "EntityId \<Rightarrow> bool" where
  "is_synthetic_id i = (and i SYNTHETIC_MARK \<noteq> 0)"

definition synthetic_counter :: "EntityId \<Rightarrow> u64" where
  "synthetic_counter i = and i (not SYNTHETIC_MARK)"

definition allocate_entity_id :: "('p, 'i) RelationIndex \<Rightarrow> EntityId \<times> ('p, 'i) RelationIndex" where
  "allocate_entity_id s = (entity_id_counter s, s\<lparr>entity_id_counter := entity_id_counter s + 1\<rparr>)"

text \<open>The compare-and-swap loop, run without interference, stores the maximum.\<close>

definition ensure_counter_at_least :: "u64 \<Rightarrow> ('p, 'i) RelationIndex \<Rightarrow> ('p, 'i) RelationIndex" where
  "ensure_counter_at_least n s = (if n > entity_id_counter s then s\<lparr>entity_id_counter := n\<rparr> else s)"

text \<open>The scan starts from zero and keeps the largest id seen.\<close>

definition scan_max_id :: "EntityId iter \<Rightarrow> ('p, 'i) RelationIndex \<Rightarrow> u64" where
  "scan_max_id it s = fold max (it (dom (function_index s))) 0"

definition max_entity_id :: "EntityId iter \<Rightarrow> ('p, 'i) RelationIndex \<Rightarrow> u64 \<times> ('p, 'i) RelationIndex" where
  "max_entity_id it s =
     (if function_index s = Map.empty then (0, s)
      else let counter = entity_id_counter s; max_id = scan_max_id it s
           in if counter > 0
              then if max_id + 1 > counter then (max_id, ensure_counter_at_least (max_id + 1) s)
                   else (if counter \<ge> 1 then counter - 1 else 0, s)
              else (max_id, ensure_counter_at_least (max_id + 1) s))"

definition new_with_entity_id_start :: "u64 \<Rightarrow> ('p, 'i) RelationIndex" where
  "new_with_entity_id_start start = RelationIndex_new\<lparr>entity_id_counter := start\<rparr>"

text \<open>Draining: the taken snapshot, and the emptied source, which keeps the metrics sink only.\<close>

definition snapshot_take :: "('p, 'i) RelationIndex \<Rightarrow> ('p, 'i) RelationIndex \<times> ('p, 'i) RelationIndex" where
  "snapshot_take s = (s, RelationIndex_new)"

section \<open>Buckets\<close>

text \<open>
  \<^verbatim>\<open>get_mut(k)\<close>, \<^verbatim>\<open>retain(!= x)\<close> and removal of an empty bucket; \<^verbatim>\<open>entry(k).or_default()\<close> and a push
  of an absent element.
\<close>

definition bucket_remove :: "'k \<Rightarrow> 'v \<Rightarrow> ('k \<rightharpoonup> 'v list) \<Rightarrow> ('k \<rightharpoonup> 'v list)" where
  "bucket_remove k x m =
     (case m k of
        None \<Rightarrow> m
      | Some b \<Rightarrow> let b' = filter (\<lambda>y. y \<noteq> x) b in if b' = [] then m(k := None) else m(k \<mapsto> b'))"

definition bucket_push :: "'k \<Rightarrow> 'v \<Rightarrow> ('k \<rightharpoonup> 'v list) \<Rightarrow> ('k \<rightharpoonup> 'v list)" where
  "bucket_push k x m = map_entry [] k (\<lambda>b. if x \<in> set b then b else b @ [x]) m"

section \<open>Entities, names and start rows\<close>

definition track_file_entity :: "string \<Rightarrow> u32 \<Rightarrow> EntityId \<Rightarrow> ('p, 'i) RelationIndex \<Rightarrow> ('p, 'i) RelationIndex" where
  "track_file_entity file_path r entity_id s =
     s\<lparr>file_entities_by_start := map_entry [] file_path
         (\<lambda>vec. let pos = (case binary_search (r, entity_id) vec of Inr p \<Rightarrow> p | Inl p \<Rightarrow> p)
                in if pos < length vec \<and> snd (vec ! pos) = entity_id then vec
                   else insert_at pos (r, entity_id) vec)
         (file_entities_by_start s)\<rparr>"

fun remove_first :: "('a \<Rightarrow> bool) \<Rightarrow> 'a list \<Rightarrow> 'a list" where
  "remove_first p [] = []"
| "remove_first p (x # xs) = (if p x then xs else x # remove_first p xs)"

definition untrack_file_entity :: "string \<Rightarrow> EntityId \<Rightarrow> ('p, 'i) RelationIndex \<Rightarrow> ('p, 'i) RelationIndex" where
  "untrack_file_entity file_path entity_id s =
     s\<lparr>file_entities_by_start :=
         (case file_entities_by_start s file_path of
            None \<Rightarrow> file_entities_by_start s
          | Some vec \<Rightarrow>
              let vec' = remove_first (\<lambda>(_, i). i = entity_id) vec
              in if vec' = [] then (file_entities_by_start s)(file_path := None)
                 else (file_entities_by_start s)(file_path \<mapsto> vec'))\<rparr>"

definition remove_function :: "EntityId \<Rightarrow> ('p, 'i) RelationIndex \<Rightarrow> Entity option \<times> ('p, 'i) RelationIndex" where
  "remove_function entity_id s =
     (case function_index s entity_id of
        None \<Rightarrow> (None, s)
      | Some entity \<Rightarrow>
          let file_path = entity_file_index s entity_id;
              symbol_key = entity_to_symbol_key s entity_id;
              s1 = s\<lparr>function_index := (function_index s)(entity_id := None),
                     name_index := bucket_remove (e_name entity) entity_id (name_index s)\<rparr>;
              s2 = (case file_path of None \<Rightarrow> s1 | Some fp \<Rightarrow> untrack_file_entity fp entity_id s1);
              s3 = (case symbol_key of
                      None \<Rightarrow> s2
                    | Some key \<Rightarrow> s2\<lparr>file_symbol_keys := bucket_remove (sk_file_path key) key (file_symbol_keys s2)\<rparr>)
          in (Some entity, s3))"

text \<open>The id plus one wraps for the largest id, as in a release build.\<close>

definition insert_function :: "EntityId \<Rightarrow> Entity \<Rightarrow> ('p, 'i) RelationIndex \<Rightarrow> ('p, 'i) RelationIndex" where
  "insert_function entity_id entity s =
     (let s1 = (case function_index s entity_id of
                  Some existing \<Rightarrow> if e_name existing \<noteq> e_name entity
                    then s\<lparr>name_index := bucket_remove (e_name existing) entity_id (name_index s)\<rparr> else s
                | None \<Rightarrow> s);
          s2 = s1\<lparr>function_index := (function_index s1)(entity_id \<mapsto> entity),
                  name_index := bucket_push (e_name entity) entity_id (name_index s1)\<rparr>
      in ensure_counter_at_least (entity_id + 1) s2)"

definition register_external_entity_name ::
  "string \<Rightarrow> EntityId \<Rightarrow> string \<Rightarrow> ('p, 'i) RelationIndex \<Rightarrow> ('p, 'i) RelationIndex" where
  "register_external_entity_name name entity_id file_path s =
     s\<lparr>name_index := bucket_push name entity_id (name_index s),
       entity_file_index := (entity_file_index s)(entity_id \<mapsto> file_path)\<rparr>"

definition add_function_with_path ::
  "EntityId \<Rightarrow> Entity \<Rightarrow> string \<Rightarrow> ('p, 'i) RelationIndex \<Rightarrow> ('p, 'i) RelationIndex" where
  "add_function_with_path entity_id entity file_path s =
     (let r = ucast (row (start_position (e_span entity)));
          s1 = (case function_index s entity_id of
                  Some _ \<Rightarrow> (case entity_file_index s entity_id of
                      Some old_file \<Rightarrow> untrack_file_entity old_file entity_id s
                    | None \<Rightarrow> s)
                | None \<Rightarrow> s);
          s2 = insert_function entity_id entity s1;
          s3 = s2\<lparr>entity_file_index := (entity_file_index s2)(entity_id \<mapsto> file_path)\<rparr>
      in track_file_entity file_path r entity_id s3)"

definition add_functions_with_paths ::
  "(EntityId \<times> Entity \<times> string) list \<Rightarrow> ('p, 'i) RelationIndex \<Rightarrow> ('p, 'i) RelationIndex" where
  "add_functions_with_paths fs s = fold (\<lambda>(i, e, f). add_function_with_path i e f) fs s"

definition get_function_ids_by_name :: "string \<Rightarrow> ('p, 'i) RelationIndex \<Rightarrow> EntityId list" where
  "get_function_ids_by_name name s = (case name_index s name of Some ids \<Rightarrow> ids | None \<Rightarrow> [])"

definition overlaps_lines :: "('p, 'i) RelationIndex \<Rightarrow> usize \<Rightarrow> usize \<Rightarrow> EntityId \<Rightarrow> bool" where
  "overlaps_lines s start_line end_line entity_id =
     (case function_index s entity_id of
        Some e \<Rightarrow> row (start_position (e_span e)) \<le> end_line \<and> row (end_position (e_span e)) \<ge> start_line
      | None \<Rightarrow> False)"

text \<open>
  \<^verbatim>\<open>partition_point\<close> on a vector sorted by start row: the length of the prefix that satisfies the
  predicate.
\<close>

definition get_entities_in_line_range ::
  "EntityId iter \<Rightarrow> string \<Rightarrow> usize \<Rightarrow> usize \<Rightarrow> ('p, 'i) RelationIndex \<Rightarrow> EntityId list" where
  "get_entities_in_line_range it file_path start_line end_line s =
     (case file_entities_by_start s file_path of
        Some (v # vs) \<Rightarrow>
          filter (overlaps_lines s start_line end_line)
            (map snd (takeWhile (\<lambda>(r, _). ucast r \<le> end_line) (v # vs)))
      | _ \<Rightarrow> filter (overlaps_lines s start_line end_line)
            (it {i. entity_file_index s i = Some file_path}))"

section \<open>Relations and reverse indexes\<close>

definition track_reverse_caller :: "EntityId \<Rightarrow> EntityId \<Rightarrow> ('p, 'i) RelationIndex \<Rightarrow> ('p, 'i) RelationIndex" where
  "track_reverse_caller c k s =
     s\<lparr>reverse_callee_index := map_entry [] c
         (\<lambda>entry. case binary_search k entry of Inl pos \<Rightarrow> insert_at pos k entry | Inr _ \<Rightarrow> entry)
         (reverse_callee_index s)\<rparr>"

definition untrack_reverse_caller :: "EntityId \<Rightarrow> EntityId \<Rightarrow> ('p, 'i) RelationIndex \<Rightarrow> ('p, 'i) RelationIndex" where
  "untrack_reverse_caller c k s =
     s\<lparr>reverse_callee_index :=
         (case reverse_callee_index s c of
            None \<Rightarrow> reverse_callee_index s
          | Some entry \<Rightarrow>
              (case binary_search k entry of
                 Inl _ \<Rightarrow> reverse_callee_index s
               | Inr pos \<Rightarrow> let entry' = remove_at pos entry
                            in if entry' = [] then (reverse_callee_index s)(c := None)
                               else (reverse_callee_index s)(c \<mapsto> entry')))\<rparr>"

definition still_calls :: "EntityId \<Rightarrow> EntityId \<Rightarrow> ('p, 'i) RelationIndex \<Rightarrow> bool" where
  "still_calls k c s =
     (case resolved_relation_index s k of
        None \<Rightarrow> False
      | Some rels \<Rightarrow> list_ex (\<lambda>r. callee_id r = Some c) (edges rels))"

definition maybe_untrack_reverse_caller ::
  "EntityId \<Rightarrow> EntityId \<Rightarrow> ('p, 'i) RelationIndex \<Rightarrow> ('p, 'i) RelationIndex" where
  "maybe_untrack_reverse_caller c k s =
     (if still_calls k c s then s else untrack_reverse_caller c k s)"

definition add_resolved_relation :: "'p ResolvedRelation \<Rightarrow> ('p, 'i) RelationIndex \<Rightarrow> ('p, 'i) RelationIndex" where
  "add_resolved_relation relation s =
     (let k = caller relation;
          (es, inserted) = es_insert relation
             (case resolved_relation_index s k of Some es \<Rightarrow> es | None \<Rightarrow> es_empty);
          s1 = s\<lparr>resolved_relation_index := (resolved_relation_index s)(k \<mapsto> es)\<rparr>
      in if \<not> inserted then s1
         else case callee_id relation of
                Some c \<Rightarrow> track_reverse_caller c k s1
              | None \<Rightarrow> s1)"

definition add_resolved_relations ::
  "'p ResolvedRelation list \<Rightarrow> ('p, 'i) RelationIndex \<Rightarrow> ('p, 'i) RelationIndex" where
  "add_resolved_relations relations s = fold add_resolved_relation relations s"

definition track_file_caller :: "EntityId option \<Rightarrow> string \<Rightarrow> ('p, 'i) RelationIndex \<Rightarrow> ('p, 'i) RelationIndex" where
  "track_file_caller callee file_path s =
     (case callee of
        None \<Rightarrow> s
      | Some c \<Rightarrow> s\<lparr>file_callers_by_callee := map_entry {} c (insert file_path) (file_callers_by_callee s)\<rparr>)"

definition untrack_file_caller :: "EntityId option \<Rightarrow> string \<Rightarrow> ('p, 'i) RelationIndex \<Rightarrow> ('p, 'i) RelationIndex" where
  "untrack_file_caller callee file_path s =
     (case callee of
        None \<Rightarrow> s
      | Some c \<Rightarrow>
          (case file_callers_by_callee s c of
             None \<Rightarrow> s
           | Some fs \<Rightarrow>
               s\<lparr>file_callers_by_callee :=
                   (if fs - {file_path} = {} then (file_callers_by_callee s)(c := None)
                    else (file_callers_by_callee s)(c \<mapsto> fs - {file_path}))\<rparr>))"

definition add_file_relation ::
  "string \<Rightarrow> 'p ResolvedRelation \<Rightarrow> ('p, 'i) RelationIndex \<Rightarrow> ('p, 'i) RelationIndex" where
  "add_file_relation file_path relation s =
     (let (es, inserted) = es_insert relation
             (case file_relation_index s file_path of Some es \<Rightarrow> es | None \<Rightarrow> es_empty);
          s1 = s\<lparr>file_relation_index := (file_relation_index s)(file_path \<mapsto> es)\<rparr>
      in if inserted then track_file_caller (callee_id relation) file_path s1 else s1)"

definition take_file_relations ::
  "string \<Rightarrow> ('p, 'i) RelationIndex \<Rightarrow> 'p RelationEdgeSet option \<times> ('p, 'i) RelationIndex" where
  "take_file_relations file_path s =
     (let removed = file_relation_index s file_path;
          s1 = s\<lparr>file_relation_index := (file_relation_index s)(file_path := None)\<rparr>
      in (removed,
          case removed of
            None \<Rightarrow> s1
          | Some es \<Rightarrow> fold (\<lambda>rel. untrack_file_caller (callee_id rel) file_path) (edges es) s1))"

definition file_relations :: "string \<Rightarrow> ('p, 'i) RelationIndex \<Rightarrow> 'p ResolvedRelation list option" where
  "file_relations file_path s = map_option edges (file_relation_index s file_path)"

definition rebuild_reverse_callee_index ::
  "EntityId iter \<Rightarrow> ('p, 'i) RelationIndex \<Rightarrow> ('p, 'i) RelationIndex" where
  "rebuild_reverse_callee_index it s =
     fold (\<lambda>k. fold (\<lambda>rel s. case callee_id rel of Some c \<Rightarrow> track_reverse_caller c k s | None \<Rightarrow> s)
                  (case resolved_relation_index s k of Some es \<Rightarrow> edges es | None \<Rightarrow> []))
       (it (dom (resolved_relation_index s))) (s\<lparr>reverse_callee_index := Map.empty\<rparr>)"

definition rebuild_file_caller_index ::
  "string iter \<Rightarrow> ('p, 'i) RelationIndex \<Rightarrow> ('p, 'i) RelationIndex" where
  "rebuild_file_caller_index it s =
     fold (\<lambda>f. fold (\<lambda>rel. track_file_caller (callee_id rel) f)
                  (case file_relation_index s f of Some es \<Rightarrow> edges es | None \<Rightarrow> []))
       (it (dom (file_relation_index s))) (s\<lparr>file_callers_by_callee := Map.empty\<rparr>)"

section \<open>Symbol keys\<close>

definition SYMBOL_KEY_CONFLICT_SAMPLE_CAP :: nat where
  "SYMBOL_KEY_CONFLICT_SAMPLE_CAP = 64"

definition record_symbol_key_conflict ::
  "StableSymbolKey \<Rightarrow> EntityId \<Rightarrow> EntityId \<Rightarrow> ('p, 'i) RelationIndex \<Rightarrow> ('p, 'i) RelationIndex" where
  "record_symbol_key_conflict key kept rejected s =
     (let d = diagnostics s;
          samples = symbol_key_conflict_samples d;
          trimmed = (if length samples \<ge> SYMBOL_KEY_CONFLICT_SAMPLE_CAP then tl samples else samples)
      in s\<lparr>diagnostics := d\<lparr>symbol_key_conflict_count := symbol_key_conflict_count d + 1,
            symbol_key_conflict_samples := trimmed @
              [\<lparr>sc_file_path = sk_file_path key, sc_scoped_name = sk_scoped_name key, sc_kind = sk_kind key,
                sc_kept_entity = kept, sc_rejected_entity = rejected\<rparr>]\<rparr>\<rparr>)"

text \<open>The four maps that a successful registration writes.\<close>

definition store_symbol_key ::
  "(string \<Rightarrow> string) \<Rightarrow> StableSymbolKey \<Rightarrow> EntityId \<Rightarrow> ('p, 'i) RelationIndex \<Rightarrow> ('p, 'i) RelationIndex" where
  "store_symbol_key sha256_hex key entity_id s =
     s\<lparr>symbol_key_to_entity := (symbol_key_to_entity s)(key \<mapsto> entity_id),
       entity_to_symbol_key := (entity_to_symbol_key s)(entity_id \<mapsto> key),
       stable_id_to_entity := (stable_id_to_entity s)(stable_id sha256_hex key \<mapsto> entity_id),
       file_symbol_keys := map_entry [] (sk_file_path key) (\<lambda>ks. ks @ [key]) (file_symbol_keys s)\<rparr>"

text \<open>The span suffix \<^verbatim>\<open>{scoped_name}#{start}-{end}\<close>; \<open>show_usize\<close> prints a decimal number.\<close>

definition show_usize :: "usize \<Rightarrow> string" where
  "show_usize w = show_nat (unat w)"

definition span_scoped_name :: "string \<Rightarrow> Entity \<Rightarrow> string" where
  "span_scoped_name scoped_name entity =
     scoped_name @ ''#'' @ show_usize (start_byte (e_span entity)) @ ''-'' @ show_usize (end_byte (e_span entity))"

definition register_symbol_key ::
  "(string \<Rightarrow> string) \<Rightarrow> string \<Rightarrow> string \<Rightarrow> Entity \<Rightarrow> EntityId \<Rightarrow> ('p, 'i) RelationIndex
     \<Rightarrow> bool \<times> ('p, 'i) RelationIndex" where
  "register_symbol_key sha256_hex file_path scoped_name entity entity_id s =
     (let key = for_entity sha256_hex file_path scoped_name entity
      in case symbol_key_to_entity s key of
           Some existing_id \<Rightarrow>
             if existing_id \<noteq> entity_id
             then let owner_differs =
                        (case function_index s existing_id of
                           Some owner \<Rightarrow> start_byte (e_span owner) \<noteq> start_byte (e_span entity)
                                         \<or> end_byte (e_span owner) \<noteq> end_byte (e_span entity)
                         | None \<Rightarrow> False);
                      span_key = for_entity sha256_hex file_path (span_scoped_name scoped_name entity) entity;
                      span_taken = (case symbol_key_to_entity s span_key of
                                      Some i \<Rightarrow> i \<noteq> entity_id | None \<Rightarrow> False)
                  in if \<not> owner_differs \<or> span_taken
                     then (False, record_symbol_key_conflict key existing_id entity_id s)
                     else (True, store_symbol_key sha256_hex span_key entity_id s)
             else (True, s)
         | None \<Rightarrow> (True, store_symbol_key sha256_hex key entity_id s))"

definition get_entity_id_by_symbol_key :: "StableSymbolKey \<Rightarrow> ('p, 'i) RelationIndex \<Rightarrow> EntityId option" where
  "get_entity_id_by_symbol_key key s = symbol_key_to_entity s key"

definition get_entity_id_by_stable_symbol_id :: "string \<Rightarrow> ('p, 'i) RelationIndex \<Rightarrow> EntityId option" where
  "get_entity_id_by_stable_symbol_id sid s = stable_id_to_entity s sid"

definition get_symbol_key_by_entity_id :: "EntityId \<Rightarrow> ('p, 'i) RelationIndex \<Rightarrow> StableSymbolKey option" where
  "get_symbol_key_by_entity_id i s = entity_to_symbol_key s i"

section \<open>Files\<close>

definition add_file :: "FileInfo \<Rightarrow> ('p, 'i) RelationIndex \<Rightarrow> ('p, 'i) RelationIndex" where
  "add_file f s = s\<lparr>file_records := map_entry FileRecord_default (fi_id f) (\<lambda>r. r\<lparr>fr_info := f\<rparr>) (file_records s)\<rparr>"

definition get_file :: "string \<Rightarrow> ('p, 'i) RelationIndex \<Rightarrow> FileInfo option" where
  "get_file file_id s = map_option fr_info (file_records s file_id)"

definition add_import_table :: "string \<Rightarrow> 'i ImportTable \<Rightarrow> ('p, 'i) RelationIndex \<Rightarrow> ('p, 'i) RelationIndex" where
  "add_import_table file_id t s =
     s\<lparr>file_records := map_entry FileRecord_default file_id (\<lambda>r. r\<lparr>fr_imports := t\<rparr>) (file_records s)\<rparr>"

definition get_import_table :: "string \<Rightarrow> ('p, 'i) RelationIndex \<Rightarrow> 'i ImportTable option" where
  "get_import_table file_id s = map_option fr_imports (file_records s file_id)"

definition has_imports :: "string \<Rightarrow> ('p, 'i) RelationIndex \<Rightarrow> bool" where
  "has_imports file_id s = (file_records s file_id \<noteq> None)"

definition add_exports :: "string \<Rightarrow> ExportInfo list \<Rightarrow> ('p, 'i) RelationIndex \<Rightarrow> ('p, 'i) RelationIndex" where
  "add_exports file_id es s =
     s\<lparr>file_records := map_entry FileRecord_default file_id (\<lambda>r. r\<lparr>fr_exports := es\<rparr>) (file_records s)\<rparr>"

definition add_export :: "string \<Rightarrow> ExportInfo \<Rightarrow> ('p, 'i) RelationIndex \<Rightarrow> ('p, 'i) RelationIndex" where
  "add_export file_id e s =
     s\<lparr>file_records := map_entry FileRecord_default file_id (\<lambda>r. r\<lparr>fr_exports := fr_exports r @ [e]\<rparr>) (file_records s)\<rparr>"

definition get_exports :: "string \<Rightarrow> ('p, 'i) RelationIndex \<Rightarrow> ExportInfo list option" where
  "get_exports file_id s = map_option fr_exports (file_records s file_id)"

definition find_export_by_name :: "string \<Rightarrow> string \<Rightarrow> ('p, 'i) RelationIndex \<Rightarrow> ExportInfo option" where
  "find_export_by_name file_id function_name s =
     Option.bind (file_records s file_id) (\<lambda>r. find (\<lambda>e. ex_function_name e = function_name) (fr_exports r))"

definition get_entity_ids_by_file :: "EntityId iter \<Rightarrow> string \<Rightarrow> ('p, 'i) RelationIndex \<Rightarrow> EntityId list" where
  "get_entity_ids_by_file it file_id s = it {i. entity_file_index s i = Some file_id}"

definition get_entities_by_file :: "EntityId iter \<Rightarrow> string \<Rightarrow> ('p, 'i) RelationIndex \<Rightarrow> (EntityId \<times> Entity) list" where
  "get_entities_by_file it file_id s =
     List.map_filter (\<lambda>i. map_option (\<lambda>e. (i, e)) (function_index s i)) (get_entity_ids_by_file it file_id s)"

definition get_resolved_relations_by_file ::
  "EntityId iter \<Rightarrow> string \<Rightarrow> ('p, 'i) RelationIndex \<Rightarrow> (EntityId \<times> 'p ResolvedRelation list) list" where
  "get_resolved_relations_by_file it file_id s =
     List.map_filter (\<lambda>i. map_option (\<lambda>rels. (i, edges rels)) (resolved_relation_index s i))
       (get_entity_ids_by_file it file_id s)"

text \<open>Step 4a for one callee of a removed entity: the reverse entry, then the embedded caller list.\<close>

definition drop_embedded_caller :: "EntityId \<Rightarrow> EntityId \<Rightarrow> ('p, 'i) RelationIndex \<Rightarrow> ('p, 'i) RelationIndex" where
  "drop_embedded_caller c entity_id s =
     (case resolved_relation_index s c of
        None \<Rightarrow> s
      | Some callee_entry \<Rightarrow>
          let callee_entry' = fst (remove_caller entity_id callee_entry)
          in if es_is_empty callee_entry' \<and> is_callers_empty callee_entry'
             then s\<lparr>resolved_relation_index := (resolved_relation_index s)(c := None)\<rparr>
             else s\<lparr>resolved_relation_index := (resolved_relation_index s)(c \<mapsto> callee_entry')\<rparr>)"

text \<open>Step 4b for one embedded caller of a removed entity.\<close>

definition drop_incoming :: "EntityId \<Rightarrow> EntityId \<Rightarrow> ('p, 'i) RelationIndex \<Rightarrow> ('p, 'i) RelationIndex" where
  "drop_incoming entity_id k s =
     (let s1 = untrack_reverse_caller entity_id k s
      in case resolved_relation_index s1 k of
           None \<Rightarrow> s1
         | Some relations \<Rightarrow>
             let relations' = retain (\<lambda>r. callee_id r \<noteq> Some entity_id) relations;
                 s2 = (if es_is_empty relations' \<and> is_callers_empty relations'
                       then s1\<lparr>resolved_relation_index := (resolved_relation_index s1)(k := None)\<rparr>
                       else s1\<lparr>resolved_relation_index := (resolved_relation_index s1)(k \<mapsto> relations')\<rparr>)
             in maybe_untrack_reverse_caller entity_id k s2)"

definition callee_ids_of :: "EntityId \<Rightarrow> ('p, 'i) RelationIndex \<Rightarrow> EntityId list" where
  "callee_ids_of k s =
     (case resolved_relation_index s k of Some rels \<Rightarrow> List.map_filter callee_id (edges rels) | None \<Rightarrow> [])"

definition remove_entity_relations :: "EntityId \<Rightarrow> ('p, 'i) RelationIndex \<Rightarrow> ('p, 'i) RelationIndex" where
  "remove_entity_relations entity_id s =
     (let callee_ids = callee_ids_of entity_id s;
          s1 = s\<lparr>resolved_relation_index := (resolved_relation_index s)(entity_id := None)\<rparr>;
          s2 = fold (\<lambda>c s. drop_embedded_caller c entity_id (untrack_reverse_caller c entity_id s)) callee_ids s1;
          s3 = s2\<lparr>reverse_callee_index := (reverse_callee_index s2)(entity_id := None)\<rparr>
      in case resolved_relation_index s3 entity_id of
           None \<Rightarrow> s3
         | Some callee_entry \<Rightarrow>
             fold (drop_incoming entity_id) (callers callee_entry)
               (s3\<lparr>resolved_relation_index := (resolved_relation_index s3)(entity_id := None)\<rparr>))"

definition remove_symbol :: "(string \<Rightarrow> string) \<Rightarrow> EntityId \<Rightarrow> ('p, 'i) RelationIndex \<Rightarrow> ('p, 'i) RelationIndex" where
  "remove_symbol sha256_hex entity_id s =
     (case entity_to_symbol_key s entity_id of
        None \<Rightarrow> s
      | Some symbol \<Rightarrow>
          s\<lparr>entity_to_symbol_key := (entity_to_symbol_key s)(entity_id := None),
            symbol_key_to_entity := (symbol_key_to_entity s)(symbol := None),
            stable_id_to_entity := (stable_id_to_entity s)(stable_id sha256_hex symbol := None)\<rparr>)"

definition remove_file ::
  "(string \<Rightarrow> string) \<Rightarrow> EntityId iter \<Rightarrow> string iter \<Rightarrow> string \<Rightarrow> ('p, 'i) RelationIndex \<Rightarrow> ('p, 'i) RelationIndex" where
  "remove_file sha256_hex it fit file_id s =
     (let entities_to_remove = get_entity_ids_by_file it file_id s;
          s2 = fold (\<lambda>i s. snd (remove_function i s)) entities_to_remove s;
          s3 = fold (\<lambda>i s. s\<lparr>entity_file_index := (entity_file_index s)(i := None)\<rparr>) entities_to_remove s2;
          s35 = fold (remove_symbol sha256_hex) entities_to_remove s3;
          s4 = fold remove_entity_relations entities_to_remove s35;
          s5 = snd (take_file_relations file_id (s4\<lparr>file_records := (file_records s4)(file_id := None)\<rparr>))
      in s5\<lparr>dependency_graph := dg_remove_file fit file_id (dependency_graph s5),
            entity_id_remaps := (entity_id_remaps s5)(file_id := None)\<rparr>)"

definition update_file ::
  "(string \<Rightarrow> string) \<Rightarrow> EntityId iter \<Rightarrow> string iter \<Rightarrow> string \<Rightarrow> ('p, 'i) RelationIndex \<Rightarrow> ('p, 'i) RelationIndex" where
  "update_file sha256_hex it fit file_id s = remove_file sha256_hex it fit file_id s"

section \<open>Validation\<close>

datatype SnapshotError =
    CallerMissing EntityId
  | TargetMissing EntityId EntityId
  | FileTargetMissing string EntityId
  | NoFileMembership EntityId
  | KeyNotListed StableSymbolKey
  | StaleKey StableSymbolKey
  | KeyMisfiled StableSymbolKey string

text \<open>A loop whose body may return an error.\<close>

fun first_error :: "('a \<Rightarrow> 'e option) \<Rightarrow> 'a list \<Rightarrow> 'e option" where
  "first_error chk [] = None"
| "first_error chk (x # xs) = (case chk x of Some e \<Rightarrow> Some e | None \<Rightarrow> first_error chk xs)"

definition or_else :: "'e option \<Rightarrow> 'e option \<Rightarrow> 'e option" where
  "or_else a b = (case a of Some e \<Rightarrow> Some e | None \<Rightarrow> b)"

definition check_target :: "('p, 'i) RelationIndex \<Rightarrow> (EntityId \<Rightarrow> 'e) \<Rightarrow> 'p ResolvedRelation \<Rightarrow> 'e option" where
  "check_target s err relation =
     (case callee_id relation of
        Some c \<Rightarrow> if function_index s c = None then Some (err c) else None
      | None \<Rightarrow> None)"

record hash_orders =
  ho_ids :: "EntityId iter"
  ho_paths :: "string iter"
  ho_keys :: "StableSymbolKey iter"

definition validate_snapshot :: "hash_orders \<Rightarrow> ('p, 'i) RelationIndex \<Rightarrow> SnapshotError option" where
  "validate_snapshot ho s =
     or_else (first_error (\<lambda>k. if function_index s k = None then Some (CallerMissing k)
                else first_error (check_target s (TargetMissing k)) (edges (the (resolved_relation_index s k))))
              (ho_ids ho (dom (resolved_relation_index s))))
    (or_else (first_error (\<lambda>f. first_error (check_target s (FileTargetMissing f)) (edges (the (file_relation_index s f))))
              (ho_paths ho (dom (file_relation_index s))))
    (or_else (first_error (\<lambda>i. if entity_file_index s i = None then Some (NoFileMembership i) else None)
              (ho_ids ho (dom (function_index s))))
    (or_else (first_error (\<lambda>key. if (case file_symbol_keys s (sk_file_path key) of Some ks \<Rightarrow> key \<in> set ks | None \<Rightarrow> False)
                then None else Some (KeyNotListed key))
              (ho_keys ho (dom (symbol_key_to_entity s))))
             (first_error (\<lambda>path. first_error (\<lambda>key. if symbol_key_to_entity s key = None then Some (StaleKey key)
                  else if sk_file_path key \<noteq> path then Some (KeyMisfiled key path) else None)
                (the (file_symbol_keys s path)))
              (ho_paths ho (dom (file_symbol_keys s)))))))"

section \<open>Queries\<close>

datatype IndexError = EntityNotFound EntityId

definition MAX_REVERSE_FANIN :: nat where
  "MAX_REVERSE_FANIN = 10000"

definition get_resolved_relations_by_caller_checked ::
  "EntityId \<Rightarrow> ('p, 'i) RelationIndex \<Rightarrow> IndexError + 'p ResolvedRelation list" where
  "get_resolved_relations_by_caller_checked k s =
     (if function_index s k = None then Inl (EntityNotFound k)
      else Inr (case resolved_relation_index s k of Some r \<Rightarrow> edges r | None \<Rightarrow> []))"

definition limited_callers :: "EntityId \<Rightarrow> ('p, 'i) RelationIndex \<Rightarrow> EntityId list" where
  "limited_callers c s =
     (case reverse_callee_index s c of
        None \<Rightarrow> []
      | Some ks \<Rightarrow> take MAX_REVERSE_FANIN (remdups_adj (sort ks)))"

definition get_callers_by_callee_entity :: "EntityId \<Rightarrow> ('p, 'i) RelationIndex \<Rightarrow> EntityId list" where
  "get_callers_by_callee_entity c s = limited_callers c s"

definition get_callers_by_callee_entity_checked ::
  "EntityId \<Rightarrow> ('p, 'i) RelationIndex \<Rightarrow> IndexError + EntityId list" where
  "get_callers_by_callee_entity_checked c s =
     (if function_index s c = None then Inl (EntityNotFound c) else Inr (get_callers_by_callee_entity c s))"

definition get_relations_to_entity :: "EntityId \<Rightarrow> ('p, 'i) RelationIndex \<Rightarrow> 'p ResolvedRelation list" where
  "get_relations_to_entity c s =
     concat (map (\<lambda>k. case resolved_relation_index s k of
                        Some relations \<Rightarrow> filter (\<lambda>r. callee_id r = Some c) (edges relations)
                      | None \<Rightarrow> []) (limited_callers c s))"

definition get_relations_to_entity_by_type ::
  "EntityId \<Rightarrow> RelationType \<Rightarrow> ('p, 'i) RelationIndex \<Rightarrow> 'p ResolvedRelation list" where
  "get_relations_to_entity_by_type c t s = filter (\<lambda>r. relation_type r = t) (get_relations_to_entity c s)"

text \<open>The loop with \<^verbatim>\<open>seen\<close>: first occurrences in order, cut when the bound is reached.\<close>

fun collect_callers :: "'p ResolvedRelation list \<Rightarrow> EntityId list \<Rightarrow> EntityId list" where
  "collect_callers [] acc = acc"
| "collect_callers (r # rs) acc =
     (if caller r \<in> set acc then collect_callers rs acc
      else if length (acc @ [caller r]) \<ge> MAX_REVERSE_FANIN then acc @ [caller r]
      else collect_callers rs (acc @ [caller r]))"

definition get_callers_by_callee_and_type ::
  "EntityId \<Rightarrow> RelationType \<Rightarrow> ('p, 'i) RelationIndex \<Rightarrow> EntityId list" where
  "get_callers_by_callee_and_type c t s = collect_callers (get_relations_to_entity_by_type c t s) []"

definition get_relations_from_entity_by_type ::
  "EntityId \<Rightarrow> RelationType \<Rightarrow> ('p, 'i) RelationIndex \<Rightarrow> 'p ResolvedRelation list" where
  "get_relations_from_entity_by_type k t s =
     (case resolved_relation_index s k of
        Some relations \<Rightarrow> filter (\<lambda>r. relation_type r = t) (edges relations)
      | None \<Rightarrow> [])"

definition resolved_relation_count :: "('p, 'i) RelationIndex \<Rightarrow> nat" where
  "resolved_relation_count s = (\<Sum>k \<in> dom (resolved_relation_index s). es_len (the (resolved_relation_index s k)))"

definition get_derived_classes :: "EntityId \<Rightarrow> ('p, 'i) RelationIndex \<Rightarrow> EntityId list" where
  "get_derived_classes i s = get_callers_by_callee_and_type i Inheritance s"

definition get_implementing_classes :: "EntityId \<Rightarrow> ('p, 'i) RelationIndex \<Rightarrow> EntityId list" where
  "get_implementing_classes i s = get_callers_by_callee_and_type i Implementation s"

definition get_types_with_trait_bound :: "EntityId \<Rightarrow> ('p, 'i) RelationIndex \<Rightarrow> EntityId list" where
  "get_types_with_trait_bound i s = get_callers_by_callee_and_type i TraitBound s"

definition get_base_classes :: "EntityId \<Rightarrow> ('p, 'i) RelationIndex \<Rightarrow> EntityId list" where
  "get_base_classes i s = List.map_filter callee_id (get_relations_from_entity_by_type i Inheritance s)"

definition get_implemented_interfaces :: "EntityId \<Rightarrow> ('p, 'i) RelationIndex \<Rightarrow> EntityId list" where
  "get_implemented_interfaces i s = List.map_filter callee_id (get_relations_from_entity_by_type i Implementation s)"

definition get_child_elements :: "EntityId \<Rightarrow> ('p, 'i) RelationIndex \<Rightarrow> EntityId list" where
  "get_child_elements i s = List.map_filter callee_id (get_relations_from_entity_by_type i ElementContains s)"

definition get_parent_element :: "EntityId \<Rightarrow> ('p, 'i) RelationIndex \<Rightarrow> EntityId list" where
  "get_parent_element i s = get_callers_by_callee_and_type i ElementContains s"

definition get_event_handlers :: "EntityId \<Rightarrow> ('p, 'i) RelationIndex \<Rightarrow> 'p ResolvedRelation list" where
  "get_event_handlers i s = get_relations_from_entity_by_type i EventCallback s"

definition get_elements_by_handler :: "EntityId \<Rightarrow> ('p, 'i) RelationIndex \<Rightarrow> EntityId list" where
  "get_elements_by_handler i s = get_callers_by_callee_and_type i EventCallback s"

definition get_parameter_bindings :: "EntityId \<Rightarrow> ('p, 'i) RelationIndex \<Rightarrow> 'p ResolvedRelation list" where
  "get_parameter_bindings i s = get_relations_from_entity_by_type i ParameterBinding s"

definition get_template_references :: "EntityId \<Rightarrow> ('p, 'i) RelationIndex \<Rightarrow> 'p ResolvedRelation list" where
  "get_template_references i s = get_relations_from_entity_by_type i TemplateReference s"

definition get_elements_by_template_ref :: "EntityId \<Rightarrow> ('p, 'i) RelationIndex \<Rightarrow> EntityId list" where
  "get_elements_by_template_ref i s = get_callers_by_callee_and_type i TemplateReference s"

end
