(* ===== verification/Relation_Graph.thy ===== *)
theory Relation_Graph
  imports Relation_Index
begin

text \<open>
  The call graph inside the relation index: the forward edge sets, the reverse index over them and
  the file-level edges with theirs. The forward and reverse indexes describe one relation in every
  build; a file removal keeps the reverse index sound and loses the reverse entries of the
  removed entities only.
\<close>

section \<open>The two relations\<close>

definition fwd_edges :: "('p, 'i) RelationIndex \<Rightarrow> EntityId \<Rightarrow> 'p ResolvedRelation list" where
  "fwd_edges s k = (case resolved_relation_index s k of Some es \<Rightarrow> edges es | None \<Rightarrow> [])"

definition fwd_rel :: "('p, 'i) RelationIndex \<Rightarrow> (EntityId \<times> EntityId) set" where
  "fwd_rel s = {(k, c). \<exists>r \<in> set (fwd_edges s k). callee_id r = Some c}"

definition rev_callers :: "('p, 'i) RelationIndex \<Rightarrow> EntityId \<Rightarrow> EntityId list" where
  "rev_callers s c = (case reverse_callee_index s c of Some ks \<Rightarrow> ks | None \<Rightarrow> [])"

definition rev_rel :: "('p, 'i) RelationIndex \<Rightarrow> (EntityId \<times> EntityId) set" where
  "rev_rel s = {(k, c). k \<in> set (rev_callers s c)}"

text \<open>
  Well-formed edge sets: filed under their caller, not empty, the embedded caller list unused;
  well-formed reverse lists: not empty, strictly sorted.
\<close>

definition fwd_wf :: "('p, 'i) RelationIndex \<Rightarrow> bool" where
  "fwd_wf s \<longleftrightarrow> (\<forall>k es. resolved_relation_index s k = Some es \<longrightarrow>
     es_inv es \<and> edges es \<noteq> [] \<and> callers es = [] \<and> (\<forall>r \<in> set (edges es). caller r = k))"

definition rev_wf :: "('p, 'i) RelationIndex \<Rightarrow> bool" where
  "rev_wf s \<longleftrightarrow> (\<forall>c ks. reverse_callee_index s c = Some ks \<longrightarrow> ks \<noteq> [] \<and> sorted_wrt (<) ks)"

lemma graph_new [simp]:
  "fwd_wf RelationIndex_new" "rev_wf RelationIndex_new" "fwd_rel RelationIndex_new = {}" "rev_rel RelationIndex_new = {}"
  by (simp_all add: fwd_wf_def rev_wf_def fwd_rel_def rev_rel_def fwd_edges_def rev_callers_def RelationIndex_new_def)

lemma rev_callers_sorted: "rev_wf s \<Longrightarrow> sorted_wrt (<) (rev_callers s c)"
  by (simp add: rev_wf_def rev_callers_def split: option.split)

lemma fwd_wf_cong: "resolved_relation_index s = resolved_relation_index s' \<Longrightarrow> fwd_wf s = fwd_wf s'"
  by (simp add: fwd_wf_def)

lemma fwd_edges_cong: "resolved_relation_index s = resolved_relation_index s' \<Longrightarrow> fwd_edges s k = fwd_edges s' k"
  by (simp add: fwd_edges_def)

lemma fwd_rel_cong: "resolved_relation_index s = resolved_relation_index s' \<Longrightarrow> fwd_rel s = fwd_rel s'"
  by (simp add: fwd_rel_def fwd_edges_def)

lemma rev_cong:
  "reverse_callee_index s = reverse_callee_index s' \<Longrightarrow> rev_wf s = rev_wf s'"
  "reverse_callee_index s = reverse_callee_index s' \<Longrightarrow> rev_rel s = rev_rel s'"
  by (simp_all add: rev_wf_def rev_rel_def rev_callers_def)

section \<open>Tracking and untracking\<close>

lemma track_reverse_callers:
  "rev_callers (track_reverse_caller c k s) c' =
     (if c' = c then (case binary_search k (rev_callers s c) of Inl p \<Rightarrow> insert_at p k (rev_callers s c) | Inr _ \<Rightarrow> rev_callers s c)
      else rev_callers s c')"
  by (cases "reverse_callee_index s c") (simp_all add: rev_callers_def track_reverse_caller_def split: sum.split)

lemma track_sorted:
  assumes "sorted_wrt (<) ks"
  shows "sorted_wrt (<) (case binary_search k ks of Inl p \<Rightarrow> insert_at p k ks | Inr _ \<Rightarrow> ks)"
    "set (case binary_search k ks of Inl p \<Rightarrow> insert_at p k ks | Inr _ \<Rightarrow> ks) = insert k (set ks)"
proof -
  have miss: "p = lower_bound k ks \<and> k \<notin> set ks" if "binary_search k ks = Inl p" for p
    using binary_search_Inl [OF assms that] by simp
  have found: "k \<in> set ks" if "binary_search k ks = Inr p" for p
    using binary_search_Inr [OF that] nth_mem by blast
  show "sorted_wrt (<) (case binary_search k ks of Inl p \<Rightarrow> insert_at p k ks | Inr _ \<Rightarrow> ks)"
    using miss sorted_insert_lower_bound(1) [OF assms] assms by (auto split: sum.split)
  show "set (case binary_search k ks of Inl p \<Rightarrow> insert_at p k ks | Inr _ \<Rightarrow> ks) = insert k (set ks)"
    using miss found sorted_insert_lower_bound(2) [OF assms] by (auto simp: insert_absorb split: sum.split)
qed

lemma track_reverse_spec:
  assumes "rev_wf s"
  shows "rev_wf (track_reverse_caller c k s)" "rev_rel (track_reverse_caller c k s) = insert (k, c) (rev_rel s)"
proof -
  note t = track_sorted [OF rev_callers_sorted [OF assms, of c], of k]
  have "rev_callers (track_reverse_caller c k s) c \<noteq> []"
    using t(2) by (simp add: track_reverse_callers) (metis empty_iff insert_not_empty list.set(1))
  then show "rev_wf (track_reverse_caller c k s)"
    unfolding rev_wf_def
  proof (intro allI impI)
    fix c' ks
    assume ks: "reverse_callee_index (track_reverse_caller c k s) c' = Some ks"
    then have eq: "rev_callers (track_reverse_caller c k s) c' = ks" by (simp add: rev_callers_def)
    show "ks \<noteq> [] \<and> sorted_wrt (<) ks"
    proof (cases "c' = c")
      case True
      with eq t(1) \<open>rev_callers (track_reverse_caller c k s) c \<noteq> []\<close> show ?thesis
        by (auto simp: track_reverse_callers)
    next
      case False
      with ks assms show ?thesis by (auto simp: track_reverse_caller_def rev_wf_def)
    qed
  qed
  show "rev_rel (track_reverse_caller c k s) = insert (k, c) (rev_rel s)"
    using t(2) by (auto simp: rev_rel_def track_reverse_callers split: if_splits)
qed

lemma untrack_reverse_spec:
  assumes "rev_wf s"
  shows "rev_wf (untrack_reverse_caller c k s)" "rev_rel (untrack_reverse_caller c k s) = rev_rel s - {(k, c)}"
proof -
  let ?s = "untrack_reverse_caller c k s"
  have other: "reverse_callee_index ?s c' = reverse_callee_index s c'" if "c' \<noteq> c" for c'
    using that by (auto simp: untrack_reverse_caller_def Let_def split: option.split sum.split)
  have here: "set (rev_callers ?s c) = set (rev_callers s c) - {k}
      \<and> (\<forall>ks. reverse_callee_index ?s c = Some ks \<longrightarrow> ks \<noteq> [] \<and> sorted_wrt (<) ks)"
  proof (cases "reverse_callee_index s c")
    case None
    then show ?thesis by (simp add: untrack_reverse_caller_def rev_callers_def)
  next
    case (Some ks)
    then have srt: "sorted_wrt (<) ks" "ks \<noteq> []" using assms by (auto simp: rev_wf_def)
    show ?thesis
    proof (cases "binary_search k ks")
      case (Inl p)
      with Some srt binary_search_Inl [OF srt(1) Inl] show ?thesis
        by (simp add: untrack_reverse_caller_def rev_callers_def)
    next
      case (Inr p)
      then have "p < length ks" "ks ! p = k" using binary_search_Inr by blast+
      then have rem: "sorted_wrt (<) (remove_at p ks)" "set (remove_at p ks) = set ks - {k}"
        using remove_at_nth [OF srt(1), of p] by simp_all
      have "rev_callers ?s c = remove_at p ks"
        "reverse_callee_index ?s c = (if remove_at p ks = [] then None else Some (remove_at p ks))"
        using Some Inr by (simp_all add: untrack_reverse_caller_def rev_callers_def Let_def)
      moreover have "rev_callers s c = ks" using Some by (simp add: rev_callers_def)
      ultimately show ?thesis using rem by simp
    qed
  qed
  show "rev_wf ?s"
    unfolding rev_wf_def
  proof (intro allI impI)
    fix c' ks
    assume "reverse_callee_index ?s c' = Some ks"
    with here other [of c'] assms show "ks \<noteq> [] \<and> sorted_wrt (<) ks"
      by (cases "c' = c") (simp_all add: rev_wf_def)
  qed
  have "rev_callers ?s c' = rev_callers s c'" if "c' \<noteq> c" for c' using other [OF that] by (simp add: rev_callers_def)
  then have "(k', c') \<in> rev_rel ?s \<longleftrightarrow> (k', c') \<in> rev_rel s - {(k, c)}" for k' c'
    using here by (cases "c' = c") (auto simp: rev_rel_def)
  then show "rev_rel ?s = rev_rel s - {(k, c)}" by auto
qed

text \<open>Operations on the reverse index leave everything else alone.\<close>

lemma track_reverse_frame [simp]:
  "resolved_relation_index (track_reverse_caller c k s) = resolved_relation_index s"
  "function_index (track_reverse_caller c k s) = function_index s"
  "name_index (track_reverse_caller c k s) = name_index s"
  "entity_file_index (track_reverse_caller c k s) = entity_file_index s"
  "file_relation_index (track_reverse_caller c k s) = file_relation_index s"
  "file_callers_by_callee (track_reverse_caller c k s) = file_callers_by_callee s"
  "file_entities_by_start (track_reverse_caller c k s) = file_entities_by_start s"
  "symbol_key_to_entity (track_reverse_caller c k s) = symbol_key_to_entity s"
  "entity_to_symbol_key (track_reverse_caller c k s) = entity_to_symbol_key s"
  "file_symbol_keys (track_reverse_caller c k s) = file_symbol_keys s"
  by (simp_all add: track_reverse_caller_def)

lemma untrack_reverse_frame [simp]:
  "resolved_relation_index (untrack_reverse_caller c k s) = resolved_relation_index s"
  "function_index (untrack_reverse_caller c k s) = function_index s"
  "name_index (untrack_reverse_caller c k s) = name_index s"
  "entity_file_index (untrack_reverse_caller c k s) = entity_file_index s"
  "file_relation_index (untrack_reverse_caller c k s) = file_relation_index s"
  "file_callers_by_callee (untrack_reverse_caller c k s) = file_callers_by_callee s"
  "file_entities_by_start (untrack_reverse_caller c k s) = file_entities_by_start s"
  "symbol_key_to_entity (untrack_reverse_caller c k s) = symbol_key_to_entity s"
  "entity_to_symbol_key (untrack_reverse_caller c k s) = entity_to_symbol_key s"
  "file_symbol_keys (untrack_reverse_caller c k s) = file_symbol_keys s"
  by (simp_all add: untrack_reverse_caller_def)

section \<open>Adding relations\<close>

definition forward_set :: "('p, 'i) RelationIndex \<Rightarrow> EntityId \<Rightarrow> 'p RelationEdgeSet" where
  "forward_set s k = (case resolved_relation_index s k of Some es \<Rightarrow> es | None \<Rightarrow> es_empty)"

lemma forward_set_edges [simp]: "edges (forward_set s k) = fwd_edges s k"
  by (simp add: forward_set_def fwd_edges_def es_empty_def split: option.split)

lemma add_resolved_relation_eq:
  "add_resolved_relation r s =
     (let s1 = s\<lparr>resolved_relation_index := (resolved_relation_index s)(caller r \<mapsto> fst (es_insert r (forward_set s (caller r))))\<rparr>
      in if snd (es_insert r (forward_set s (caller r)))
         then (case callee_id r of Some c \<Rightarrow> track_reverse_caller c (caller r) s1 | None \<Rightarrow> s1) else s1)"
  by (simp add: add_resolved_relation_def forward_set_def Let_def split_beta)

lemma es_insert_edges:
  "edges (fst (es_insert r es)) = edges es @ (if snd (es_insert r es) then [r] else [])"
  "callers (fst (es_insert r es)) = callers es"
  "snd (es_insert r es) \<longleftrightarrow> relation_identity r \<notin> identities es"
  by (simp_all add: es_insert_def Let_def)

text \<open>An edge that is refused as a duplicate has an edge with the same callee in the set.\<close>

lemma duplicate_same_callee:
  assumes "es_inv es" "\<not> snd (es_insert r es)"
  shows "\<exists>r' \<in> set (edges es). callee_id r' = callee_id r"
proof -
  obtain r' where "r' \<in> set (edges es)" "relation_identity r' = relation_identity r"
    using assms by (auto simp: es_insert_edges es_inv_def image_iff)
  moreover from this(2) have "callee_id r' = callee_id r"
    by (auto simp: relation_identity_def split: option.splits if_splits)
  ultimately show ?thesis by blast
qed

lemma add_relation_fwd_edges:
  "fwd_edges (add_resolved_relation r s) k =
     (if k = caller r then fwd_edges s k @ (if snd (es_insert r (forward_set s k)) then [r] else []) else fwd_edges s k)"
  by (simp add: add_resolved_relation_eq Let_def fwd_edges_def es_insert_edges split: option.split)

lemma forward_set_inv: "fwd_wf s \<Longrightarrow> es_inv (forward_set s k)"
  by (simp add: forward_set_def fwd_wf_def split: option.split)

lemma add_relation_spec:
  assumes "fwd_wf s" "rev_wf s"
  shows "fwd_wf (add_resolved_relation r s)" "rev_wf (add_resolved_relation r s)"
    "fwd_rel (add_resolved_relation r s) = fwd_rel s \<union> (case callee_id r of Some c \<Rightarrow> {(caller r, c)} | None \<Rightarrow> {})"
proof -
  let ?k = "caller r" and ?s = "add_resolved_relation r s"
  let ?es = "forward_set s ?k"
  have inv: "es_inv ?es" using assms(1) by (rule forward_set_inv)
  have rri: "resolved_relation_index ?s = (resolved_relation_index s)(?k \<mapsto> fst (es_insert r ?es))"
    by (auto simp: add_resolved_relation_eq Let_def split: option.split)
  have dup: "\<not> snd (es_insert r ?es) \<Longrightarrow> \<exists>r' \<in> set (fwd_edges s ?k). callee_id r' = callee_id r"
    using duplicate_same_callee [OF inv] by simp
  have "edges (fst (es_insert r ?es)) \<noteq> []"
    using dup by (auto simp: es_insert_edges)
  moreover have "callers ?es = []" "\<forall>r' \<in> set (edges ?es). caller r' = ?k"
    using assms(1) by (auto simp: forward_set_def fwd_wf_def es_empty_def fwd_edges_def split: option.split)
  ultimately show "fwd_wf ?s"
    using assms(1) es_insert_inv [OF inv, of r] unfolding fwd_wf_def rri
    by (auto simp: es_insert_edges)
  show rev: "rev_wf ?s"
    using assms(2) by (auto simp: add_resolved_relation_eq Let_def rev_wf_def [of "_\<lparr>resolved_relation_index := _\<rparr>"] rev_wf_def [of s]
        intro!: track_reverse_spec(1) split: option.split)
  show fwd: "fwd_rel ?s = fwd_rel s \<union> (case callee_id r of Some c \<Rightarrow> {(?k, c)} | None \<Rightarrow> {})"
    using dup
    by (cases "snd (es_insert r ?es)") (auto simp: fwd_rel_def add_relation_fwd_edges split: option.splits if_splits)
qed

lemma add_relation_rev:
  assumes "rev_wf s"
  shows "rev_rel (add_resolved_relation r s) = rev_rel s \<union>
    (if snd (es_insert r (forward_set s (caller r))) then (case callee_id r of Some c \<Rightarrow> {(caller r, c)} | None \<Rightarrow> {}) else {})"
proof -
  let ?s1 = "s\<lparr>resolved_relation_index := (resolved_relation_index s)(caller r \<mapsto> fst (es_insert r (forward_set s (caller r))))\<rparr>"
  have "rev_wf ?s1" "rev_rel ?s1 = rev_rel s"
    using assms rev_cong [of ?s1 s] by simp_all
  then show ?thesis
    by (simp add: add_resolved_relation_eq Let_def track_reverse_spec split: option.split)
qed

lemma add_relation_mirror:
  assumes "fwd_wf s" "rev_wf s" "rev_rel s = fwd_rel s"
  shows "rev_rel (add_resolved_relation r s) = fwd_rel (add_resolved_relation r s)"
proof (cases "snd (es_insert r (forward_set s (caller r)))")
  case True
  then show ?thesis using assms by (simp add: add_relation_rev add_relation_spec(3))
next
  case False
  then have "fwd_edges (add_resolved_relation r s) k = fwd_edges s k" for k by (simp add: add_relation_fwd_edges)
  then have "fwd_rel (add_resolved_relation r s) = fwd_rel s" by (simp add: fwd_rel_def)
  with False show ?thesis using assms by (simp add: add_relation_rev)
qed

section \<open>Removing the relations of an entity\<close>

text \<open>
  The operations here leave the embedded caller list of a stored edge set empty, so step 4a takes
  nothing from it; step 4b, which runs over it, never finds an entry, since 4a has removed it.
\<close>

lemma drop_embedded_caller_id:
  assumes "fwd_wf s"
  shows "drop_embedded_caller c e s = s"
proof (cases "resolved_relation_index s c")
  case None
  then show ?thesis by (simp add: drop_embedded_caller_def)
next
  case (Some es)
  with assms have "callers es = []" "edges es \<noteq> []" by (auto simp: fwd_wf_def)
  moreover from this have "fst (remove_caller e es) = es"
    by (simp add: remove_caller_def binary_search_def lower_bound_def)
  ultimately show ?thesis
    using Some by (simp add: drop_embedded_caller_def es_is_empty_def fun_upd_idem)
qed

text \<open>The state outside the two call-graph indexes.\<close>

definition same_rest :: "('p, 'i) RelationIndex \<Rightarrow> ('p, 'i) RelationIndex \<Rightarrow> bool" where
  "same_rest s s' \<longleftrightarrow> s'\<lparr>resolved_relation_index := Map.empty, reverse_callee_index := Map.empty\<rparr>
     = s\<lparr>resolved_relation_index := Map.empty, reverse_callee_index := Map.empty\<rparr>"

lemma same_rest_refl [simp]: "same_rest s s"
  by (simp add: same_rest_def)

lemma same_rest_trans: "same_rest s s' \<Longrightarrow> same_rest s' s'' \<Longrightarrow> same_rest s s''"
  by (simp add: same_rest_def)

lemma same_restD:
  assumes "same_rest s s'"
  shows "function_index s' = function_index s" "name_index s' = name_index s"
    "entity_file_index s' = entity_file_index s" "file_relation_index s' = file_relation_index s"
    "file_callers_by_callee s' = file_callers_by_callee s" "file_entities_by_start s' = file_entities_by_start s"
    "symbol_key_to_entity s' = symbol_key_to_entity s" "entity_to_symbol_key s' = entity_to_symbol_key s"
    "file_symbol_keys s' = file_symbol_keys s" "file_records s' = file_records s"
    "dependency_graph s' = dependency_graph s" "entity_id_remaps s' = entity_id_remaps s"
    "stable_id_to_entity s' = stable_id_to_entity s"
  using assms by (cases s; cases s'; simp add: same_rest_def)+

lemma untrack_all_spec:
  assumes "fwd_wf s" "rev_wf s"
  shows "let s' = fold (\<lambda>c s. drop_embedded_caller c e (untrack_reverse_caller c e s)) cs s
    in fwd_wf s' \<and> rev_wf s' \<and> resolved_relation_index s' = resolved_relation_index s
       \<and> rev_rel s' = rev_rel s - {e} \<times> set cs \<and> same_rest s s'"
  using assms
proof (induction cs arbitrary: s)
  case (Cons c cs)
  let ?s = "untrack_reverse_caller c e s"
  have wf: "fwd_wf ?s" using Cons.prems(1) fwd_wf_cong [of ?s s] by simp
  have rest: "same_rest s ?s" by (simp add: same_rest_def untrack_reverse_caller_def)
  from Cons.IH [OF wf untrack_reverse_spec(1) [OF Cons.prems(2)]] show ?case
    using untrack_reverse_spec(2) [OF Cons.prems(2), of c e] same_rest_trans [OF rest]
    by (auto simp: drop_embedded_caller_id [OF wf] Let_def)
qed simp

lemma set_map_filter_iff: "y \<in> set (List.map_filter f xs) \<longleftrightarrow> (\<exists>x \<in> set xs. f x = Some y)"
  by (induction xs) (auto simp: map_filter_simps split: option.split)

lemma set_callee_ids: "set (callee_ids_of e s) = {c. (e, c) \<in> fwd_rel s}"
  by (cases "resolved_relation_index s e")
    (auto simp: callee_ids_of_def fwd_rel_def fwd_edges_def set_map_filter_iff)

lemma rev_rel_drop:
  "rev_rel (s\<lparr>reverse_callee_index := (reverse_callee_index s)(e := None)\<rparr>) = {(k, c) \<in> rev_rel s. c \<noteq> e}"
  by (auto simp: rev_rel_def rev_callers_def)

lemma remove_entity_relations_spec:
  assumes "fwd_wf s" "rev_wf s" "rev_rel s \<subseteq> fwd_rel s"
  shows "let s' = remove_entity_relations e s
    in fwd_wf s' \<and> rev_wf s' \<and> resolved_relation_index s' = (resolved_relation_index s)(e := None)
       \<and> rev_rel s' = {(k, c) \<in> rev_rel s. k \<noteq> e \<and> c \<noteq> e} \<and> same_rest s s'"
proof -
  let ?s1 = "s\<lparr>resolved_relation_index := (resolved_relation_index s)(e := None)\<rparr>"
  let ?s2 = "fold (\<lambda>c s. drop_embedded_caller c e (untrack_reverse_caller c e s)) (callee_ids_of e s) ?s1"
  let ?s3 = "?s2\<lparr>reverse_callee_index := (reverse_callee_index ?s2)(e := None)\<rparr>"
  have "fwd_wf ?s1" "rev_wf ?s1" using assms(1,2) by (auto simp: fwd_wf_def rev_wf_def)
  from untrack_all_spec [OF this, of e "callee_ids_of e s"]
  have s2: "fwd_wf ?s2" "rev_wf ?s2" "resolved_relation_index ?s2 = (resolved_relation_index s)(e := None)"
    "rev_rel ?s2 = rev_rel s - {e} \<times> set (callee_ids_of e s)" "same_rest ?s1 ?s2"
    using rev_cong(2) [of ?s1 s] by (simp_all add: Let_def)
  have eq: "remove_entity_relations e s = ?s3"
    using s2(3) by (simp add: remove_entity_relations_def Let_def)
  have "rev_rel ?s3 = {(k, c) \<in> rev_rel s. k \<noteq> e \<and> c \<noteq> e}"
    using s2(4) assms(3) by (auto simp: rev_rel_drop set_callee_ids)
  moreover have "fwd_wf ?s3" using s2(1) fwd_wf_cong [of ?s3 ?s2] by simp
  moreover have "rev_wf ?s3" using s2(2) by (auto simp: rev_wf_def)
  moreover have "same_rest s ?s3" using s2(5) by (simp add: same_rest_def)
  ultimately show ?thesis using s2(3) unfolding eq Let_def by simp
qed

end
