(* ===== verification/Relation_Entities.thy ===== *)
theory Relation_Entities
  imports Relation_Index
begin

text \<open>
  The entity side of the relation index: the name index and the start-row index describe the
  entities that are stored, after any sequence of insertions, replacements, moves between files
  and file removals.
\<close>

section \<open>Buckets\<close>

definition bucket :: "('k \<rightharpoonup> 'v list) \<Rightarrow> 'k \<Rightarrow> 'v list" where
  "bucket m k = (case m k of Some b \<Rightarrow> b | None \<Rightarrow> [])"

definition buckets_ok :: "('v list \<Rightarrow> bool) \<Rightarrow> ('k \<rightharpoonup> 'v list) \<Rightarrow> bool" where
  "buckets_ok P m \<longleftrightarrow> (\<forall>k b. m k = Some b \<longrightarrow> b \<noteq> [] \<and> P b)"

lemma bucket_empty [simp]: "bucket Map.empty k = []" "buckets_ok P Map.empty"
  by (simp_all add: bucket_def buckets_ok_def)

lemma bucket_upd: "bucket (m(k \<mapsto> b)) k' = (if k' = k then b else bucket m k')"
  by (simp add: bucket_def)

lemma bucket_remove_bucket:
  "bucket (bucket_remove k x m) k' = (if k' = k then filter (\<lambda>y. y \<noteq> x) (bucket m k) else bucket m k')"
  by (cases "m k") (auto simp: bucket_remove_def bucket_def Let_def)

lemma bucket_push_bucket:
  "bucket (bucket_push k x m) k' = (if k' = k then (if x \<in> set (bucket m k) then bucket m k else bucket m k @ [x]) else bucket m k')"
  by (cases "m k") (auto simp: bucket_push_def bucket_def)

lemma buckets_okD: "buckets_ok P m \<Longrightarrow> m k = Some b \<Longrightarrow> b \<noteq> [] \<and> P b"
  by (simp add: buckets_ok_def)

lemma buckets_ok_bucket: "buckets_ok P m \<Longrightarrow> P [] \<Longrightarrow> P (bucket m k)"
  by (auto simp: bucket_def buckets_ok_def split: option.split)

lemma buckets_ok_remove: "buckets_ok distinct m \<Longrightarrow> buckets_ok distinct (bucket_remove k x m)"
  unfolding buckets_ok_def bucket_remove_def by (auto simp: Let_def split: option.split)

lemma buckets_ok_push: "buckets_ok distinct m \<Longrightarrow> buckets_ok distinct (bucket_push k x m)"
  unfolding buckets_ok_def bucket_push_def map_entry_def by (auto split: option.split)

lemma remove_first_filter:
  assumes "distinct xs" "\<And>x y. x \<in> set xs \<Longrightarrow> y \<in> set xs \<Longrightarrow> p x \<Longrightarrow> p y \<Longrightarrow> x = y"
  shows "remove_first p xs = filter (\<lambda>x. \<not> p x) xs"
  using assms
proof (induction xs)
  case (Cons x xs)
  show ?case
  proof (cases "p x")
    case True
    then have "\<not> p y" if "y \<in> set xs" for y using Cons.prems that by fastforce
    with True show ?thesis by (simp add: filter_id_conv)
  next
    case False
    with Cons show ?thesis by fastforce
  qed
qed simp

section \<open>The invariant\<close>

definition entity_row :: "Entity \<Rightarrow> u32" where
  "entity_row e = ucast (row (start_position (e_span e)))"

text \<open>What the two secondary indexes should hold.\<close>

definition named :: "('p, 'i) RelationIndex \<Rightarrow> string \<Rightarrow> EntityId set" where
  "named s n = {i. \<exists>e. function_index s i = Some e \<and> e_name e = n}"

definition placed :: "('p, 'i) RelationIndex \<Rightarrow> string \<Rightarrow> (u32 \<times> EntityId) set" where
  "placed s f = {(r, i). \<exists>e. function_index s i = Some e \<and> entity_file_index s i = Some f \<and> r = entity_row e}"

definition names_ok :: "('p, 'i) RelationIndex \<Rightarrow> bool" where
  "names_ok s \<longleftrightarrow> buckets_ok distinct (name_index s) \<and> (\<forall>n. set (bucket (name_index s) n) = named s n)"

definition starts_ok :: "('p, 'i) RelationIndex \<Rightarrow> bool" where
  "starts_ok s \<longleftrightarrow> buckets_ok (sorted_wrt (<)) (file_entities_by_start s)
     \<and> (\<forall>f. set (bucket (file_entities_by_start s) f) = placed s f)"

definition entity_wf :: "('p, 'i) RelationIndex \<Rightarrow> bool" where
  "entity_wf s \<longleftrightarrow> names_ok s \<and> starts_ok s \<and> dom (function_index s) \<subseteq> dom (entity_file_index s)
     \<and> finite (dom (entity_file_index s))"

definition entity_inv :: "('p, 'i) RelationIndex \<Rightarrow> bool" where
  "entity_inv s \<longleftrightarrow> entity_wf s \<and> dom (function_index s) = dom (entity_file_index s)"

lemma entity_inv_new [simp]: "entity_inv RelationIndex_new"
  by (simp add: entity_inv_def entity_wf_def names_ok_def starts_ok_def named_def placed_def RelationIndex_new_def)

lemma placed_unique: "(r, i) \<in> placed s f \<Longrightarrow> (r', i) \<in> placed s f' \<Longrightarrow> r = r' \<and> f = f'"
  by (auto simp: placed_def)

lemma entity_cong:
  assumes "function_index s' = function_index s" "name_index s' = name_index s"
    "entity_file_index s' = entity_file_index s" "file_entities_by_start s' = file_entities_by_start s"
  shows "entity_wf s' = entity_wf s" "entity_inv s' = entity_inv s"
  using assms by (simp_all add: entity_inv_def entity_wf_def names_ok_def starts_ok_def named_def placed_def)

section \<open>Untracking and tracking a start row\<close>

lemma untrack_bucket:
  assumes "buckets_ok (sorted_wrt (<)) (file_entities_by_start s)"
    "\<And>r r'. (r, i) \<in> set (bucket (file_entities_by_start s) f) \<Longrightarrow> (r', i) \<in> set (bucket (file_entities_by_start s) f) \<Longrightarrow> r = r'"
  shows "bucket (file_entities_by_start (untrack_file_entity f i s)) f' =
      (if f' = f then filter (\<lambda>x. snd x \<noteq> i) (bucket (file_entities_by_start s) f) else bucket (file_entities_by_start s) f')"
    "buckets_ok (sorted_wrt (<)) (file_entities_by_start (untrack_file_entity f i s))"
proof -
  let ?m = "file_entities_by_start s"
  have "bucket (file_entities_by_start (untrack_file_entity f i s)) f' =
      (if f' = f then filter (\<lambda>x. snd x \<noteq> i) (bucket ?m f) else bucket ?m f')
    \<and> buckets_ok (sorted_wrt (<)) (file_entities_by_start (untrack_file_entity f i s))"
  proof (cases "?m f")
    case None
    with assms(1) show ?thesis by (simp add: untrack_file_entity_def bucket_def)
  next
    case (Some v)
    then have b: "bucket ?m f = v" by (simp add: bucket_def)
    have srt: "sorted_wrt (<) v" using buckets_okD [OF assms(1) Some] by simp
    have rf: "remove_first (\<lambda>(_, j). j = i) v = filter (\<lambda>x. snd x \<noteq> i) v"
      using remove_first_filter [of v "\<lambda>(_, j). j = i"] assms(2) srt
      by (auto simp: b strict_sorted_iff case_prod_beta')
    have "sorted_wrt (<) (filter (\<lambda>x. snd x \<noteq> i) v)" using srt by (rule sorted_wrt_filter)
    with Some assms(1) show ?thesis
      by (auto simp: untrack_file_entity_def rf Let_def bucket_def buckets_ok_def)
  qed
  then show "bucket (file_entities_by_start (untrack_file_entity f i s)) f' =
      (if f' = f then filter (\<lambda>x. snd x \<noteq> i) (bucket ?m f) else bucket ?m f')"
    "buckets_ok (sorted_wrt (<)) (file_entities_by_start (untrack_file_entity f i s))" by simp_all
qed

lemma track_bucket:
  assumes ok: "buckets_ok (sorted_wrt (<)) (file_entities_by_start s)"
    and fresh: "i \<notin> snd ` set (bucket (file_entities_by_start s) f)"
  shows "set (bucket (file_entities_by_start (track_file_entity f r i s)) f') =
      (if f' = f then insert (r, i) (set (bucket (file_entities_by_start s) f)) else set (bucket (file_entities_by_start s) f'))"
    "buckets_ok (sorted_wrt (<)) (file_entities_by_start (track_file_entity f r i s))"
proof -
  let ?m = "file_entities_by_start s"
  let ?v = "bucket ?m f"
  have srt: "sorted_wrt (<) ?v" using buckets_ok_bucket [OF ok] by simp
  have notin: "(r, i) \<notin> set ?v" using fresh by force
  let ?p = "lower_bound (r, i) ?v"
  have bs: "binary_search (r, i) ?v = Inl ?p"
    using notin nth_mem unfolding binary_search_def Let_def by metis
  have "\<not> (?p < length ?v \<and> snd (?v ! ?p) = i)" using fresh nth_mem by (metis imageI)
  then have m': "file_entities_by_start (track_file_entity f r i s) = ?m(f \<mapsto> insert_at ?p (r, i) ?v)"
    using bs by (auto simp: track_file_entity_def map_entry_def bucket_def Let_def)
  note ins = sorted_insert_lower_bound [OF srt notin]
  have "insert_at ?p (r, i) ?v \<noteq> []" by (simp add: insert_at_def)
  with ok ins(1) show "buckets_ok (sorted_wrt (<)) (file_entities_by_start (track_file_entity f r i s))"
    unfolding m' buckets_ok_def by auto
  show "set (bucket (file_entities_by_start (track_file_entity f r i s)) f') =
      (if f' = f then insert (r, i) (set ?v) else set (bucket ?m f'))"
    using ins(2) unfolding m' bucket_upd by simp
qed

section \<open>Insertion and removal of an entity\<close>

lemma tracking_frame [simp]:
  "function_index (untrack_file_entity f i s) = function_index s" "function_index (track_file_entity f r i s) = function_index s"
  "name_index (untrack_file_entity f i s) = name_index s" "name_index (track_file_entity f r i s) = name_index s"
  "entity_file_index (untrack_file_entity f i s) = entity_file_index s" "entity_file_index (track_file_entity f r i s) = entity_file_index s"
  by (simp_all add: untrack_file_entity_def track_file_entity_def)

lemma insert_function_fields:
  "function_index (insert_function i e s) = (function_index s)(i \<mapsto> e)"
  "entity_file_index (insert_function i e s) = entity_file_index s"
  "file_entities_by_start (insert_function i e s) = file_entities_by_start s"
  "name_index (insert_function i e s) = bucket_push (e_name e) i
     (case function_index s i of
        Some x \<Rightarrow> if e_name x \<noteq> e_name e then bucket_remove (e_name x) i (name_index s) else name_index s
      | None \<Rightarrow> name_index s)"
  by (auto simp: insert_function_def ensure_counter_at_least_def Let_def split: option.split)

text \<open>The state with the old row of a replaced entity untracked.\<close>

definition untracked :: "EntityId \<Rightarrow> ('p, 'i) RelationIndex \<Rightarrow> ('p, 'i) RelationIndex" where
  "untracked i s =
     (case function_index s i of
        Some _ \<Rightarrow> (case entity_file_index s i of Some f \<Rightarrow> untrack_file_entity f i s | None \<Rightarrow> s)
      | None \<Rightarrow> s)"

lemma untracked_frame [simp]:
  "function_index (untracked i s) = function_index s" "name_index (untracked i s) = name_index s"
  "entity_file_index (untracked i s) = entity_file_index s"
  by (simp_all add: untracked_def split: option.split)

lemma add_function_fields:
  "function_index (add_function_with_path i e f s) = (function_index s)(i \<mapsto> e)"
  "entity_file_index (add_function_with_path i e f s) = (entity_file_index s)(i \<mapsto> f)"
  "name_index (add_function_with_path i e f s) = name_index (insert_function i e s)"
  "file_entities_by_start (add_function_with_path i e f s) =
     file_entities_by_start (track_file_entity f (entity_row e) i (untracked i s))"
  by (simp_all add: add_function_with_path_def Let_def insert_function_fields track_file_entity_def
      untracked_def entity_row_def split: option.split)

lemma untracked_spec:
  assumes "starts_ok s" "dom (function_index s) \<subseteq> dom (entity_file_index s)"
  shows "buckets_ok (sorted_wrt (<)) (file_entities_by_start (untracked i s))"
    "set (bucket (file_entities_by_start (untracked i s)) f) = {x \<in> placed s f. snd x \<noteq> i}"
proof -
  have here: "set (bucket (file_entities_by_start s) f) = placed s f" for f using assms(1) by (simp add: starts_ok_def)
  have ok: "buckets_ok (sorted_wrt (<)) (file_entities_by_start s)" using assms(1) by (simp add: starts_ok_def)
  have "buckets_ok (sorted_wrt (<)) (file_entities_by_start (untracked i s))
      \<and> set (bucket (file_entities_by_start (untracked i s)) f) = {x \<in> placed s f. snd x \<noteq> i}"
  proof (cases "function_index s i")
    case None
    with here ok show ?thesis by (auto simp: untracked_def placed_def)
  next
    case (Some x)
    with assms(2) obtain g where g: "entity_file_index s i = Some g" by blast
    have u: "untracked i s = untrack_file_entity g i s" using Some g by (simp add: untracked_def)
    have "f = g" if "(r, i) \<in> placed s f" for r using that g by (auto simp: placed_def)
    moreover have "r = r'" if "(r, i) \<in> set (bucket (file_entities_by_start s) g)"
      "(r', i) \<in> set (bucket (file_entities_by_start s) g)" for r r'
      using that unfolding here by (auto dest: placed_unique)
    note untrack_bucket [OF ok this]
    ultimately show ?thesis
      unfolding u by (auto simp: here)
  qed
  then show "buckets_ok (sorted_wrt (<)) (file_entities_by_start (untracked i s))"
    "set (bucket (file_entities_by_start (untracked i s)) f) = {x \<in> placed s f. snd x \<noteq> i}" by simp_all
qed

lemma insert_names_ok:
  assumes "names_ok s"
  shows "buckets_ok distinct (name_index (insert_function i e s))"
    "set (bucket (name_index (insert_function i e s)) n) = {j. \<exists>x. ((function_index s)(i \<mapsto> e)) j = Some x \<and> e_name x = n}"
proof -
  have ok: "buckets_ok distinct (name_index s)" and here: "set (bucket (name_index s) m) = named s m" for m
    using assms by (simp_all add: names_ok_def)
  show "buckets_ok distinct (name_index (insert_function i e s))"
    using ok by (auto simp: insert_function_fields intro!: buckets_ok_push buckets_ok_remove split: option.split)
  show "set (bucket (name_index (insert_function i e s)) n) = {j. \<exists>x. ((function_index s)(i \<mapsto> e)) j = Some x \<and> e_name x = n}"
    by (cases "function_index s i") (auto simp: insert_function_fields bucket_push_bucket bucket_remove_bucket here named_def split: if_splits)
qed

lemma add_function_inv:
  assumes "entity_inv s"
  shows "entity_inv (add_function_with_path i e f s)"
proof -
  let ?s = "add_function_with_path i e f s"
  have wf: "names_ok s" "starts_ok s" "dom (function_index s) \<subseteq> dom (entity_file_index s)"
    using assms by (simp_all add: entity_inv_def entity_wf_def)
  have "names_ok ?s"
    using insert_names_ok [OF wf(1), of i e] by (simp add: names_ok_def named_def add_function_fields)
  moreover have "starts_ok ?s"
  proof -
    note u = untracked_spec [OF wf(2,3), of i]
    have fresh: "i \<notin> snd ` set (bucket (file_entities_by_start (untracked i s)) f)" by (auto simp: u)
    show ?thesis
      unfolding starts_ok_def add_function_fields track_bucket [OF u(1) fresh] u
      using track_bucket(2) [OF u(1) fresh] by (auto simp: placed_def add_function_fields split: if_splits)
  qed
  ultimately show ?thesis using assms by (simp add: entity_inv_def entity_wf_def add_function_fields)
qed

lemma remove_function_fields:
  "function_index (snd (remove_function i s)) = (function_index s)(i := None)"
  "entity_file_index (snd (remove_function i s)) = entity_file_index s"
  "file_entities_by_start (snd (remove_function i s)) = file_entities_by_start (untracked i s)"
  "name_index (snd (remove_function i s)) =
     (case function_index s i of Some e \<Rightarrow> bucket_remove (e_name e) i (name_index s) | None \<Rightarrow> name_index s)"
  by (auto simp: remove_function_def untracked_def untrack_file_entity_def Let_def split: option.split)

lemma remove_function_wf:
  assumes "entity_wf s"
  shows "entity_wf (snd (remove_function i s))"
proof -
  let ?s = "snd (remove_function i s)"
  have wf: "names_ok s" "starts_ok s" "dom (function_index s) \<subseteq> dom (entity_file_index s)"
    using assms by (simp_all add: entity_wf_def)
  have ok: "buckets_ok distinct (name_index s)" and here: "set (bucket (name_index s) m) = named s m" for m
    using wf(1) by (simp_all add: names_ok_def)
  have "buckets_ok distinct (name_index ?s)"
    using ok by (simp add: remove_function_fields buckets_ok_remove split: option.split)
  moreover have "set (bucket (name_index ?s) n) = named ?s n" for n
    by (cases "function_index s i") (auto simp: remove_function_fields bucket_remove_bucket here named_def split: if_splits)
  ultimately have "names_ok ?s" by (simp add: names_ok_def)
  moreover have "starts_ok ?s"
    using untracked_spec [OF wf(2,3), of i] by (auto simp: starts_ok_def remove_function_fields placed_def split: if_splits)
  ultimately show ?thesis using assms by (auto simp: entity_wf_def remove_function_fields)
qed

end
