(* ===== verification/Relation_Machine.thy ===== *)
theory Relation_Machine
  imports Relation_Graph Relation_Entities
begin

text \<open>
  The relation index as a machine: insertions of entities, relations, file-level relations, symbol
  keys and file records, and file removals, in any order. The invariants of the call graph, of
  the entity indexes and of the file-level relations hold after every sequence of them, and the
  queries are exact on it.
\<close>

section \<open>File-level relations\<close>

definition file_edges :: "('p, 'i) RelationIndex \<Rightarrow> string \<Rightarrow> 'p ResolvedRelation list" where
  "file_edges s f = (case file_relation_index s f of Some es \<Rightarrow> edges es | None \<Rightarrow> [])"

definition file_callers :: "('p, 'i) RelationIndex \<Rightarrow> EntityId \<Rightarrow> string set" where
  "file_callers s c = (case file_callers_by_callee s c of Some fs \<Rightarrow> fs | None \<Rightarrow> {})"

definition file_ok :: "('p, 'i) RelationIndex \<Rightarrow> bool" where
  "file_ok s \<longleftrightarrow> (\<forall>f es. file_relation_index s f = Some es \<longrightarrow> es_inv es)
     \<and> (\<forall>c. file_callers s c = {f. \<exists>r \<in> set (file_edges s f). callee_id r = Some c})"

lemma file_ok_new [simp]: "file_ok RelationIndex_new"
  by (simp add: file_ok_def file_callers_def file_edges_def RelationIndex_new_def)

lemma file_ok_cong:
  "file_relation_index s' = file_relation_index s \<Longrightarrow> file_callers_by_callee s' = file_callers_by_callee s
     \<Longrightarrow> file_ok s' = file_ok s"
  by (simp add: file_ok_def file_callers_def file_edges_def)

lemma track_file_callers:
  "file_callers (track_file_caller c f s) c' = file_callers s c' \<union> (if c = Some c' then {f} else {})"
  by (cases c; cases "file_callers_by_callee s c'")
    (auto simp: track_file_caller_def file_callers_def map_entry_def split: if_splits option.splits)

lemma untrack_file_callers:
  "file_callers (untrack_file_caller c f s) c' = file_callers s c' - (if c = Some c' then {f} else {})"
  by (auto simp: untrack_file_caller_def file_callers_def split: if_splits option.splits)

lemma file_tracking_frame [simp]:
  "file_relation_index (track_file_caller c f s) = file_relation_index s"
  "file_relation_index (untrack_file_caller c f s) = file_relation_index s"
  by (simp_all add: track_file_caller_def untrack_file_caller_def split: option.split)

definition file_edge_set :: "('p, 'i) RelationIndex \<Rightarrow> string \<Rightarrow> 'p RelationEdgeSet" where
  "file_edge_set s f = (case file_relation_index s f of Some es \<Rightarrow> es | None \<Rightarrow> es_empty)"

lemma file_edge_set_edges [simp]: "edges (file_edge_set s f) = file_edges s f"
  by (simp add: file_edge_set_def file_edges_def es_empty_def split: option.split)

lemma add_file_relation_eq:
  "add_file_relation f r s =
     (let s1 = s\<lparr>file_relation_index := (file_relation_index s)(f \<mapsto> fst (es_insert r (file_edge_set s f)))\<rparr>
      in if snd (es_insert r (file_edge_set s f)) then track_file_caller (callee_id r) f s1 else s1)"
  by (simp add: add_file_relation_def file_edge_set_def Let_def split_beta)

lemma add_file_relation_ok:
  assumes "file_ok s"
  shows "file_ok (add_file_relation f r s)"
proof -
  let ?s = "add_file_relation f r s" and ?es = "file_edge_set s f"
  have inv: "es_inv ?es" using assms by (simp add: file_edge_set_def file_ok_def split: option.split)
  have fri: "file_relation_index ?s = (file_relation_index s)(f \<mapsto> fst (es_insert r ?es))"
    by (simp add: add_file_relation_eq Let_def)
  have wf: "\<forall>g es. file_relation_index ?s g = Some es \<longrightarrow> es_inv es"
    using assms es_insert_inv [OF inv] by (simp add: fri file_ok_def)
  have new: "file_edges ?s g = (if g = f then file_edges s f @ (if snd (es_insert r ?es) then [r] else []) else file_edges s g)" for g
    using es_insert_edges(1) [of r ?es] unfolding file_edge_set_edges by (simp add: file_edges_def fri)
  have old: "file_callers s c = {f. \<exists>r \<in> set (file_edges s f). callee_id r = Some c}" for c
    using assms by (simp add: file_ok_def)
  have upd: "file_callers ?s c = file_callers s c \<union> (if snd (es_insert r ?es) \<and> callee_id r = Some c then {f} else {})" for c
    by (simp add: add_file_relation_eq Let_def track_file_callers) (simp add: file_callers_def)
  have "file_callers ?s c = {f. \<exists>r \<in> set (file_edges ?s f). callee_id r = Some c}" for c
    using duplicate_same_callee [OF inv, of r] unfolding upd new old by auto
  with wf show ?thesis by (simp add: file_ok_def)
qed

lemma untrack_files_fold:
  "file_callers (fold (\<lambda>rel. untrack_file_caller (callee_id rel) f) rs s) c =
     file_callers s c - (if \<exists>r \<in> set rs. callee_id r = Some c then {f} else {})"
  "file_relation_index (fold (\<lambda>rel. untrack_file_caller (callee_id rel) f) rs s) = file_relation_index s"
  by (induction rs arbitrary: s) (auto simp: untrack_file_callers)

lemma take_file_relations_spec:
  assumes "file_ok s"
  shows "file_ok (snd (take_file_relations f s))"
    "file_relation_index (snd (take_file_relations f s)) = (file_relation_index s)(f := None)"
    "file_callers (snd (take_file_relations f s)) c = file_callers s c - {f}"
proof -
  let ?s = "snd (take_file_relations f s)"
  have eq: "?s = fold (\<lambda>rel. untrack_file_caller (callee_id rel) f) (file_edges s f)
      (s\<lparr>file_relation_index := (file_relation_index s)(f := None)\<rparr>)"
    by (simp add: take_file_relations_def file_edges_def Let_def split: option.split)
  show fri: "file_relation_index ?s = (file_relation_index s)(f := None)"
    unfolding eq untrack_files_fold by simp
  have old: "file_callers s c = {f. \<exists>r \<in> set (file_edges s f). callee_id r = Some c}" for c
    using assms by (simp add: file_ok_def)
  have gone: "file_callers ?s c = file_callers s c - {f}" for c
    unfolding eq untrack_files_fold by (auto simp: file_callers_def [of "s\<lparr>file_relation_index := _\<rparr>"] file_callers_def [of s, symmetric] old)
  then show "file_callers ?s c = file_callers s c - {f}" .
  show "file_ok ?s"
    using assms unfolding file_ok_def gone old by (auto simp: fri file_edges_def split: if_splits)
qed

section \<open>File removal\<close>

lemma forget_one: "m(e := None) = m |` (- {e})"
  by (auto simp: restrict_map_def)

lemma forget_none [simp]: "m |` UNIV = m"
  by (simp add: restrict_map_def)

lemma forget_more: "m |` (- set es \<inter> - {e}) = m |` (- insert e (set es))"
  by (rule arg_cong [of _ _ "restrict_map m"]) auto

definition graph_ok :: "('p, 'i) RelationIndex \<Rightarrow> bool" where
  "graph_ok s \<longleftrightarrow> fwd_wf s \<and> rev_wf s \<and> rev_rel s \<subseteq> fwd_rel s \<and> finite (dom (resolved_relation_index s))"

lemma graph_ok_new [simp]: "graph_ok RelationIndex_new"
proof -
  have "resolved_relation_index RelationIndex_new = Map.empty" by (simp add: RelationIndex_new_def)
  then show ?thesis by (simp add: graph_ok_def)
qed

lemma graph_ok_cong:
  "resolved_relation_index s' = resolved_relation_index s \<Longrightarrow> reverse_callee_index s' = reverse_callee_index s
     \<Longrightarrow> graph_ok s' = graph_ok s"
  by (simp add: graph_ok_def fwd_wf_def rev_wf_def rev_rel_def fwd_rel_def fwd_edges_def rev_callers_def)

lemma fwd_edges_restrict:
  "resolved_relation_index s' = resolved_relation_index s |` (- I) \<Longrightarrow> fwd_edges s' k = (if k \<in> I then [] else fwd_edges s k)"
  by (simp add: fwd_edges_def)

lemma fwd_rel_restrict:
  "resolved_relation_index s' = resolved_relation_index s |` (- I) \<Longrightarrow> fwd_rel s' = {(k, c) \<in> fwd_rel s. k \<notin> I}"
  by (auto simp: fwd_rel_def fwd_edges_restrict split: if_splits)

lemma remove_relations_fold:
  assumes "graph_ok s"
  shows "let s' = fold remove_entity_relations is s
    in graph_ok s' \<and> resolved_relation_index s' = resolved_relation_index s |` (- set is)
       \<and> rev_rel s' = {(k, c) \<in> rev_rel s. k \<notin> set is \<and> c \<notin> set is} \<and> same_rest s s'"
  using assms
proof (induction "is" arbitrary: s)
  case (Cons e es)
  let ?s = "remove_entity_relations e s"
  have e: "fwd_wf ?s" "rev_wf ?s" "resolved_relation_index ?s = (resolved_relation_index s)(e := None)"
    "rev_rel ?s = {(k, c) \<in> rev_rel s. k \<noteq> e \<and> c \<noteq> e}" "same_rest s ?s"
    using remove_entity_relations_spec [of s e] Cons.prems by (simp_all add: graph_ok_def Let_def)
  have "fwd_rel ?s = {(k, c) \<in> fwd_rel s. k \<notin> {e}}"
    by (rule fwd_rel_restrict) (simp add: e forget_one)
  then have "graph_ok ?s" using e Cons.prems by (auto simp: graph_ok_def)
  from Cons.IH [OF this] show ?case
    using e(3,4) same_rest_trans [OF e(5)] by (auto simp: Let_def forget_one forget_more Int_commute)
qed (simp add: Let_def)

text \<open>What steps 2 to 3.5 leave alone.\<close>

lemma remove_function_frame [simp]:
  "resolved_relation_index (snd (remove_function i s)) = resolved_relation_index s"
  "reverse_callee_index (snd (remove_function i s)) = reverse_callee_index s"
  "file_relation_index (snd (remove_function i s)) = file_relation_index s"
  "file_callers_by_callee (snd (remove_function i s)) = file_callers_by_callee s"
  "file_records (snd (remove_function i s)) = file_records s"
  "dependency_graph (snd (remove_function i s)) = dependency_graph s"
  by (simp_all add: remove_function_def untrack_file_entity_def Let_def split: option.split)

lemma remove_functions_fold:
  assumes "entity_wf s"
  shows "let s' = fold (\<lambda>i s. snd (remove_function i s)) is s
    in entity_wf s' \<and> function_index s' = function_index s |` (- set is) \<and> entity_file_index s' = entity_file_index s
       \<and> resolved_relation_index s' = resolved_relation_index s \<and> reverse_callee_index s' = reverse_callee_index s
       \<and> file_relation_index s' = file_relation_index s \<and> file_callers_by_callee s' = file_callers_by_callee s
       \<and> file_records s' = file_records s \<and> dependency_graph s' = dependency_graph s"
  using assms
proof (induction "is" arbitrary: s)
  case (Cons e es)
  from Cons.IH [OF remove_function_wf [OF Cons.prems, of e]] show ?case
    by (simp add: Let_def remove_function_fields forget_one forget_more Int_commute)
qed (simp add: Let_def)

lemma drop_files_fold:
  "fold (\<lambda>i s. s\<lparr>entity_file_index := (entity_file_index s)(i := None)\<rparr>) is s =
     s\<lparr>entity_file_index := entity_file_index s |` (- set is)\<rparr>"
proof (induction "is" arbitrary: s)
  case (Cons e es)
  then show ?case by (simp add: forget_one forget_more Int_commute)
qed simp

lemma remove_symbols_fold:
  "let s' = fold (remove_symbol h) is s
   in function_index s' = function_index s \<and> name_index s' = name_index s \<and> entity_file_index s' = entity_file_index s
      \<and> file_entities_by_start s' = file_entities_by_start s
      \<and> resolved_relation_index s' = resolved_relation_index s \<and> reverse_callee_index s' = reverse_callee_index s
      \<and> file_relation_index s' = file_relation_index s \<and> file_callers_by_callee s' = file_callers_by_callee s
      \<and> file_records s' = file_records s \<and> dependency_graph s' = dependency_graph s"
proof (induction "is" arbitrary: s)
  case (Cons e es)
  from Cons.IH [of "remove_symbol h e s"] show ?case
    by (simp add: Let_def) (simp add: remove_symbol_def split: option.split)
qed (simp add: Let_def)

definition index_inv :: "('p, 'i) RelationIndex \<Rightarrow> bool" where
  "index_inv s \<longleftrightarrow> entity_inv s \<and> graph_ok s \<and> file_ok s"

lemma index_inv_new [simp]: "index_inv RelationIndex_new"
  by (simp add: index_inv_def)

lemma forget_entities_inv:
  assumes "entity_wf s" "\<And>i. i \<in> I \<Longrightarrow> function_index s i = None"
    "dom (entity_file_index s) - I = dom (function_index s)"
  shows "entity_inv (s\<lparr>entity_file_index := entity_file_index s |` (- I)\<rparr>)"
proof -
  let ?s = "s\<lparr>entity_file_index := entity_file_index s |` (- I)\<rparr>"
  have "named ?s n = named s n" "placed ?s f = placed s f" for n f
    using assms(2) by (auto simp: named_def placed_def restrict_map_def)
  moreover have "finite (dom (entity_file_index s) - I)" using assms(1) by (simp add: entity_wf_def)
  ultimately show ?thesis
    using assms(1,3) by (simp add: entity_inv_def entity_wf_def names_ok_def starts_ok_def Diff_eq)
qed

lemma take_file_frame:
  "let s' = snd (take_file_relations f s)
   in function_index s' = function_index s \<and> name_index s' = name_index s \<and> entity_file_index s' = entity_file_index s
      \<and> file_entities_by_start s' = file_entities_by_start s
      \<and> resolved_relation_index s' = resolved_relation_index s \<and> reverse_callee_index s' = reverse_callee_index s
      \<and> file_records s' = file_records s \<and> dependency_graph s' = dependency_graph s"
proof -
  have "let s' = fold (\<lambda>rel. untrack_file_caller (callee_id rel) f) rs s
   in function_index s' = function_index s \<and> name_index s' = name_index s \<and> entity_file_index s' = entity_file_index s
      \<and> file_entities_by_start s' = file_entities_by_start s
      \<and> resolved_relation_index s' = resolved_relation_index s \<and> reverse_callee_index s' = reverse_callee_index s
      \<and> file_records s' = file_records s \<and> dependency_graph s' = dependency_graph s" for rs s
    by (induction rs arbitrary: s) (auto simp: Let_def untrack_file_caller_def split: option.splits)
  from this [of "file_edges s f" "s\<lparr>file_relation_index := (file_relation_index s)(f := None)\<rparr>"] show ?thesis
    by (cases "file_relation_index s f") (simp_all add: take_file_relations_def file_edges_def Let_def)
qed

lemma remove_file_spec:
  fixes s :: "('p, 'i) RelationIndex" and f :: string and h fit
  assumes inv: "index_inv s" and it: "iter_ok it"
  defines "I \<equiv> {i. entity_file_index s i = Some f}"
  defines "s' \<equiv> remove_file h it fit f s"
  shows "index_inv s'" "function_index s' = function_index s |` (- I)" "entity_file_index s' = entity_file_index s |` (- I)"
    "resolved_relation_index s' = resolved_relation_index s |` (- I)"
    "rev_rel s' = {(k, c) \<in> rev_rel s. k \<notin> I \<and> c \<notin> I}"
    "file_relation_index s' = (file_relation_index s)(f := None)" "file_callers s' c = file_callers s c - {f}"
    "file_records s' = (file_records s)(f := None)"
    "dependency_graph s' = dg_remove_file fit f (dependency_graph s)"
proof -
  have e: "entity_wf s" "dom (function_index s) = dom (entity_file_index s)" and g: "graph_ok s" and fo: "file_ok s"
    using inv by (simp_all add: index_inv_def entity_inv_def)
  have "finite I" using e(1) by (rule_tac finite_subset [of _ "dom (entity_file_index s)"]) (auto simp: I_def entity_wf_def)
  then have L: "set (it I) = I" using it by simp
  define s2 where "s2 = fold (\<lambda>i s. snd (remove_function i s)) (it I) s"
  define s3 where "s3 = s2\<lparr>entity_file_index := entity_file_index s2 |` (- I)\<rparr>"
  define s35 where "s35 = fold (remove_symbol h) (it I) s3"
  define s4 where "s4 = fold remove_entity_relations (it I) s35"
  define s5 where "s5 = snd (take_file_relations f (s4\<lparr>file_records := (file_records s4)(f := None)\<rparr>))"
  have s': "s' = s5\<lparr>dependency_graph := dg_remove_file fit f (dependency_graph s5), entity_id_remaps := (entity_id_remaps s5)(f := None)\<rparr>"
    unfolding s'_def remove_file_def get_entity_ids_by_file_def Let_def drop_files_fold L I_def [symmetric]
      s2_def s3_def s35_def s4_def s5_def ..
  note F2 = remove_functions_fold [OF e(1), of "it I", unfolded Let_def L, folded s2_def]
  have inv3: "entity_inv s3" unfolding s3_def
    using F2 e(2) by (intro forget_entities_inv) (simp_all add: Diff_eq)
  note F35 = remove_symbols_fold [of h "it I" s3, unfolded Let_def, folded s35_def]
  have "graph_ok s35" using g F2 F35 by (subst graph_ok_cong [of _ s]) (simp_all add: s3_def)
  note F4 = remove_relations_fold [OF this, of "it I", unfolded Let_def L, folded s4_def]
  note R4 = same_restD [OF conjunct2 [OF conjunct2 [OF conjunct2 [OF F4]]]]
  let ?t = "s4\<lparr>file_records := (file_records s4)(f := None)\<rparr>"
  have "file_ok s4" using fo F2 F35 R4 by (subst file_ok_cong [of _ s]) (simp_all add: s3_def)
  then have "file_ok ?t" by (subst file_ok_cong [of _ s4]) simp_all
  note T = take_file_relations_spec [OF this, of f, folded s5_def]
  note F5 = take_file_frame [of f ?t, folded s5_def, unfolded Let_def]
  show "function_index s' = function_index s |` (- I)" "entity_file_index s' = entity_file_index s |` (- I)"
    "resolved_relation_index s' = resolved_relation_index s |` (- I)"
    "file_relation_index s' = (file_relation_index s)(f := None)"
    "file_records s' = (file_records s)(f := None)"
    "dependency_graph s' = dg_remove_file fit f (dependency_graph s)"
    using F2 F35 F4 F5 R4 T(2) by (simp_all add: s' s3_def)
  have "rev_rel s' = rev_rel s4" "rev_rel s35 = rev_rel s"
    using rev_cong(2) [of s' s4] rev_cong(2) [of s35 s] F2 F35 F5 by (simp_all add: s' s3_def)
  with F4 show "rev_rel s' = {(k, c) \<in> rev_rel s. k \<notin> I \<and> c \<notin> I}" by simp
  have "file_callers s' c = file_callers s5 c" "file_callers ?t c = file_callers s c" for c
    using F2 F35 R4 by (simp_all add: s' s3_def file_callers_def)
  then show "file_callers s' c = file_callers s c - {f}" by (simp add: T(3))
  have "entity_inv s'" using inv3 F35 F5 R4 by (subst entity_cong(2) [of _ s3]) (simp_all add: s')
  moreover have "graph_ok s'" using F4 F5 by (subst graph_ok_cong [of _ s4]) (simp_all add: s')
  moreover have "file_ok s'" using T(1) by (subst file_ok_cong [of _ s5]) (simp_all add: s')
  ultimately show "index_inv s'" by (simp add: index_inv_def)
qed

section \<open>The machine\<close>

datatype ('p, 'i) build_event =
    BFunction EntityId Entity string | BRelation "'p ResolvedRelation" | BFileRelation string "'p ResolvedRelation"
  | BSymbol string string Entity EntityId | BFile FileInfo | BImports string "'i ImportTable" | BExports string "ExportInfo list"

fun build_step :: "(string \<Rightarrow> string) \<Rightarrow> ('p, 'i) RelationIndex \<Rightarrow> ('p, 'i) build_event \<Rightarrow> ('p, 'i) RelationIndex" where
  "build_step h s (BFunction i e f) = add_function_with_path i e f s"
| "build_step h s (BRelation r) = add_resolved_relation r s"
| "build_step h s (BFileRelation f r) = add_file_relation f r s"
| "build_step h s (BSymbol f n e i) = snd (register_symbol_key h f n e i s)"
| "build_step h s (BFile x) = add_file x s"
| "build_step h s (BImports f t) = add_import_table f t s"
| "build_step h s (BExports f xs) = add_exports f xs s"

datatype ('p, 'i) index_event = Build "('p, 'i) build_event" | RemoveFile string

fun index_step :: "(string \<Rightarrow> string) \<Rightarrow> EntityId iter \<Rightarrow> string iter
    \<Rightarrow> ('p, 'i) RelationIndex \<Rightarrow> ('p, 'i) index_event \<Rightarrow> ('p, 'i) RelationIndex" where
  "index_step h it fit s (Build b) = build_step h s b"
| "index_step h it fit s (RemoveFile f) = remove_file h it fit f s"

lemma add_function_frame [simp]:
  "resolved_relation_index (add_function_with_path i e f s) = resolved_relation_index s"
  "reverse_callee_index (add_function_with_path i e f s) = reverse_callee_index s"
  "file_relation_index (add_function_with_path i e f s) = file_relation_index s"
  "file_callers_by_callee (add_function_with_path i e f s) = file_callers_by_callee s"
  by (simp_all add: add_function_with_path_def insert_function_def ensure_counter_at_least_def
      track_file_entity_def untrack_file_entity_def Let_def split: option.split)

lemma add_relation_frame [simp]:
  "function_index (add_resolved_relation r s) = function_index s" "name_index (add_resolved_relation r s) = name_index s"
  "entity_file_index (add_resolved_relation r s) = entity_file_index s"
  "file_entities_by_start (add_resolved_relation r s) = file_entities_by_start s"
  "file_relation_index (add_resolved_relation r s) = file_relation_index s"
  "file_callers_by_callee (add_resolved_relation r s) = file_callers_by_callee s"
  by (simp_all add: add_resolved_relation_eq Let_def split: option.split)

lemma add_file_relation_frame [simp]:
  "function_index (add_file_relation f r s) = function_index s" "name_index (add_file_relation f r s) = name_index s"
  "entity_file_index (add_file_relation f r s) = entity_file_index s"
  "file_entities_by_start (add_file_relation f r s) = file_entities_by_start s"
  "resolved_relation_index (add_file_relation f r s) = resolved_relation_index s"
  "reverse_callee_index (add_file_relation f r s) = reverse_callee_index s"
  by (simp_all add: add_file_relation_eq track_file_caller_def Let_def split: option.split)

lemma register_frame [simp]:
  "function_index (snd (register_symbol_key h f n e i s)) = function_index s"
  "name_index (snd (register_symbol_key h f n e i s)) = name_index s"
  "entity_file_index (snd (register_symbol_key h f n e i s)) = entity_file_index s"
  "file_entities_by_start (snd (register_symbol_key h f n e i s)) = file_entities_by_start s"
  "resolved_relation_index (snd (register_symbol_key h f n e i s)) = resolved_relation_index s"
  "reverse_callee_index (snd (register_symbol_key h f n e i s)) = reverse_callee_index s"
  "file_relation_index (snd (register_symbol_key h f n e i s)) = file_relation_index s"
  "file_callers_by_callee (snd (register_symbol_key h f n e i s)) = file_callers_by_callee s"
  by (simp_all add: register_symbol_key_def store_symbol_key_def record_symbol_key_conflict_def Let_def split: option.split)

text \<open>Equal fields, equal invariants.\<close>

lemma index_inv_cong:
  assumes "function_index s' = function_index s" "name_index s' = name_index s"
    "entity_file_index s' = entity_file_index s" "file_entities_by_start s' = file_entities_by_start s"
    "resolved_relation_index s' = resolved_relation_index s" "reverse_callee_index s' = reverse_callee_index s"
    "file_relation_index s' = file_relation_index s" "file_callers_by_callee s' = file_callers_by_callee s"
  shows "index_inv s' = index_inv s" "rev_rel s' = rev_rel s" "fwd_rel s' = fwd_rel s"
  using entity_cong(2) [of s' s] graph_ok_cong [of s' s] file_ok_cong [of s' s] rev_cong(2) [of s' s] fwd_rel_cong [of s' s] assms
  by (simp_all add: index_inv_def)

lemma add_relation_graph_ok:
  assumes "graph_ok s"
  shows "graph_ok (add_resolved_relation r s)"
  using assms add_relation_spec [of s r] add_relation_rev [of s r]
  by (auto simp: graph_ok_def add_resolved_relation_eq Let_def split: option.splits if_splits)

lemma build_step_inv:
  assumes "index_inv s"
  shows "index_inv (build_step h s ev)"
proof (cases ev)
  case (BFunction i e f)
  with assms add_function_inv [of s i e f] show ?thesis
    using graph_ok_cong [of "add_function_with_path i e f s" s] file_ok_cong [of "add_function_with_path i e f s" s]
    by (simp add: index_inv_def)
next
  case (BRelation r)
  with assms add_relation_graph_ok [of s r] show ?thesis
    using entity_cong(2) [of "add_resolved_relation r s" s] file_ok_cong [of "add_resolved_relation r s" s]
    by (simp add: index_inv_def)
next
  case (BFileRelation f r)
  with assms add_file_relation_ok [of s f r] show ?thesis
    using entity_cong(2) [of "add_file_relation f r s" s] graph_ok_cong [of "add_file_relation f r s" s]
    by (simp add: index_inv_def)
qed (use assms index_inv_cong(1) [of "build_step h s ev" s] in
    \<open>simp_all add: add_file_def add_import_table_def add_exports_def\<close>)

interpretation index: invariant_machine "index_step h it fit" "\<lambda>s. iter_ok it \<longrightarrow> index_inv s" for h it fit
proof
  fix s :: "('p, 'i) RelationIndex" and e
  assume "iter_ok it \<longrightarrow> index_inv s"
  then show "iter_ok it \<longrightarrow> index_inv (index_step h it fit s e)"
    by (cases e) (simp_all add: build_step_inv remove_file_spec(1))
qed

interpretation build: invariant_machine "build_step h" "\<lambda>s. index_inv s \<and> rev_rel s = fwd_rel s" for h
proof
  fix s :: "('p, 'i) RelationIndex" and e :: "('p, 'i) build_event"
  assume inv: "index_inv s \<and> rev_rel s = fwd_rel s"
  have "rev_rel (build_step h s e) = fwd_rel (build_step h s e)"
  proof (cases "\<exists>r. e = BRelation r")
    case True
    with inv show ?thesis by (auto simp: index_inv_def graph_ok_def add_relation_mirror)
  next
    case False
    then have "resolved_relation_index (build_step h s e) = resolved_relation_index s"
      "reverse_callee_index (build_step h s e) = reverse_callee_index s"
      by (cases e; simp add: add_file_def add_import_table_def add_exports_def)+
    then show ?thesis using inv rev_cong(2) fwd_rel_cong by metis
  qed
  with inv show "index_inv (build_step h s e) \<and> rev_rel (build_step h s e) = fwd_rel (build_step h s e)"
    by (simp add: build_step_inv)
qed

lemma index_run: "iter_ok it \<Longrightarrow> index_inv (foldl (index_step h it fit) RelationIndex_new evs)"
  using index.run_inv [of it RelationIndex_new h fit evs] by simp

lemma build_run:
  "index_inv (foldl (build_step h) RelationIndex_new evs)"
  "rev_rel (foldl (build_step h) RelationIndex_new evs) = fwd_rel (foldl (build_step h) RelationIndex_new evs)"
  using build.run_inv [of RelationIndex_new h evs] by simp_all

end
