(* ===== verification/Relation_Queries.thy ===== *)
theory Relation_Queries
  imports Relation_Machine
begin

text \<open>
  What the queries of the relation index return after any sequence of its operations, what a
  file removal leaves behind, and what the validation before publication decides.
\<close>

section \<open>The reverse index is determined by its relation\<close>

lemma rev_callers_canonical:
  assumes "rev_wf s"
  shows "rev_callers s c = sorted_list_of_set {k. (k, c) \<in> rev_rel s}"
  using sorted_list_of_set.idem_if_sorted_distinct [of "rev_callers s c"] rev_callers_sorted [OF assms, of c]
  by (simp add: rev_rel_def strict_sorted_iff)

lemma reverse_index_unique:
  assumes "rev_wf s" "rev_wf s'" "rev_rel s = rev_rel s'"
  shows "reverse_callee_index s = reverse_callee_index s'"
proof
  fix c
  have "rev_callers s c = rev_callers s' c" using assms by (simp add: rev_callers_canonical)
  then show "reverse_callee_index s c = reverse_callee_index s' c"
    using assms(1,2) by (auto simp: rev_callers_def rev_wf_def split: option.splits)
qed

lemma limited_callers_eq: "rev_wf s \<Longrightarrow> limited_callers c s = take MAX_REVERSE_FANIN (rev_callers s c)"
  using rev_callers_sorted [of s c]
  by (auto simp: limited_callers_def rev_callers_def strict_sorted_iff sorted_sort_id remdups_adj_distinct split: option.splits)

lemma rebuild_entity:
  assumes "rev_wf t"
  shows "let t' = fold (\<lambda>rel t. case callee_id rel of Some c \<Rightarrow> track_reverse_caller c k t | None \<Rightarrow> t) rs t
    in rev_wf t' \<and> rev_rel t' = rev_rel t \<union> {(k, c) | c. \<exists>r \<in> set rs. callee_id r = Some c}
       \<and> t'\<lparr>reverse_callee_index := Map.empty\<rparr> = t\<lparr>reverse_callee_index := Map.empty\<rparr>"
  using assms
proof (induction rs arbitrary: t)
  case (Cons r rs)
  show ?case
  proof (cases "callee_id r")
    case None
    with Cons show ?thesis by (simp add: Let_def)
  next
    case (Some c)
    with Cons.IH [OF track_reverse_spec(1) [OF Cons.prems, of c k]] track_reverse_spec(2) [OF Cons.prems, of c k]
    show ?thesis by (auto simp: Let_def track_reverse_caller_def)
  qed
qed (simp add: Let_def)

lemma rebuild_fold:
  assumes "rev_wf t"
  shows "let t' = fold (\<lambda>k. fold (\<lambda>rel t. case callee_id rel of Some c \<Rightarrow> track_reverse_caller c k t | None \<Rightarrow> t) (fwd_edges s k)) ks t
    in rev_wf t' \<and> rev_rel t' = rev_rel t \<union> {(k, c) \<in> fwd_rel s. k \<in> set ks}
       \<and> t'\<lparr>reverse_callee_index := Map.empty\<rparr> = t\<lparr>reverse_callee_index := Map.empty\<rparr>"
  using assms
proof (induction ks arbitrary: t)
  case (Cons k ks)
  let ?t = "fold (\<lambda>rel t. case callee_id rel of Some c \<Rightarrow> track_reverse_caller c k t | None \<Rightarrow> t) (fwd_edges s k) t"
  have t: "rev_wf ?t" "rev_rel ?t = rev_rel t \<union> {(k, c) | c. (k, c) \<in> fwd_rel s}"
    "?t\<lparr>reverse_callee_index := Map.empty\<rparr> = t\<lparr>reverse_callee_index := Map.empty\<rparr>"
    using rebuild_entity [OF Cons.prems, of k "fwd_edges s k"] by (simp_all add: Let_def fwd_rel_def)
  from Cons.IH [OF t(1)] t(2,3) show ?case by (simp add: Let_def) blast
qed (simp add: Let_def)

lemma rebuild_is_identity:
  assumes "graph_ok s" "rev_rel s = fwd_rel s" "iter_ok it"
  shows "rebuild_reverse_callee_index it s = s"
proof -
  let ?t = "s\<lparr>reverse_callee_index := Map.empty\<rparr>" and ?r = "rebuild_reverse_callee_index it s"
  have eq: "?r = fold (\<lambda>k. fold (\<lambda>rel t. case callee_id rel of Some c \<Rightarrow> track_reverse_caller c k t | None \<Rightarrow> t) (fwd_edges s k))
      (it (dom (resolved_relation_index s))) ?t"
    by (simp add: rebuild_reverse_callee_index_def fwd_edges_def)
  have dom: "set (it (dom (resolved_relation_index s))) = dom (resolved_relation_index s)"
    using assms by (simp add: graph_ok_def)
  have "rev_wf ?t" "rev_rel ?t = {}" by (simp_all add: rev_wf_def rev_rel_def rev_callers_def)
  from rebuild_fold [OF this(1), of s "it (dom (resolved_relation_index s))"] this(2)
  have r: "rev_wf ?r" "rev_rel ?r = {(k, c) \<in> fwd_rel s. k \<in> dom (resolved_relation_index s)}"
    "?r\<lparr>reverse_callee_index := Map.empty\<rparr> = s\<lparr>reverse_callee_index := Map.empty\<rparr>"
    unfolding eq [symmetric] dom by (simp_all add: Let_def)
  have "{(k, c) \<in> fwd_rel s. k \<in> dom (resolved_relation_index s)} = fwd_rel s"
    by (auto simp: fwd_rel_def fwd_edges_def split: option.splits dest: sym)
  with r(1,2) assms have "reverse_callee_index ?r = reverse_callee_index s"
    by (intro reverse_index_unique) (simp_all add: graph_ok_def)
  with r(3) show ?thesis by (cases ?r; cases s) simp
qed

section \<open>The start-row index\<close>

lemma takeWhile_sorted_filter:
  assumes "sorted_wrt (<) xs" "\<And>x y. x < y \<Longrightarrow> p y \<Longrightarrow> p x"
  shows "takeWhile p xs = filter p xs"
  using assms(1)
proof (induction xs)
  case (Cons x xs)
  show ?case
  proof (cases "p x")
    case False
    with Cons.prems assms(2) have "\<forall>y \<in> set xs. \<not> p y" by (metis sorted_wrt.simps(2))
    with False show ?thesis by (simp add: filter_False)
  qed (use Cons in simp)
qed simp

lemma truncated_row_le: "ucast (ucast r :: u32) \<le> (r :: usize)"
  by (simp add: word_le_nat_alt unsigned_ucast_eq unsigned_take_bit_eq take_bit_nat_less_eq_self)

lemma unat_widened: "unat (ucast w :: usize) = unat (w :: u32)"
proof -
  have "unat w < 2 ^ 32" using unsigned_less [of w] by simp
  then show ?thesis by (simp add: unsigned_ucast_eq take_bit_nat_eq_self)
qed

lemma line_range_set:
  assumes "entity_inv s" "iter_ok it"
  shows "set (get_entities_in_line_range it f a b s) = {i. entity_file_index s i = Some f \<and> overlaps_lines s a b i}"
    "distinct (get_entities_in_line_range it f a b s)"
proof -
  let ?v = "bucket (file_entities_by_start s) f" and ?p = "\<lambda>(r :: u32, _ :: EntityId). ucast r \<le> b"
  let ?files = "{i. entity_file_index s i = Some f}"
  have ok: "buckets_ok (sorted_wrt (<)) (file_entities_by_start s)" and here: "set ?v = placed s f"
    using assms(1) by (simp_all add: entity_inv_def entity_wf_def starts_ok_def)
  have srt: "sorted_wrt (<) ?v" using buckets_ok_bucket [OF ok] by simp
  have fin: "finite ?files"
    using assms(1) by (auto simp: entity_inv_def entity_wf_def intro: finite_subset [of _ "dom (entity_file_index s)"])
  have prefix: "takeWhile ?p ?v = filter ?p ?v"
  proof (rule takeWhile_sorted_filter [OF srt])
    fix x y :: "u32 \<times> EntityId"
    assume "x < y" "?p y"
    then have "fst x \<le> fst y" by (auto simp: less_prod_def')
    then have "(ucast (fst x) :: usize) \<le> ucast (fst y)" by (simp add: word_le_nat_alt unat_widened)
    with \<open>?p y\<close> show "?p x" by (auto simp: case_prod_beta intro: order_trans)
  qed
  have scan: "set (filter (overlaps_lines s a b) (it ?files)) = {i. entity_file_index s i = Some f \<and> overlaps_lines s a b i}"
    "distinct (filter (overlaps_lines s a b) (it ?files))" using assms(2) fin by auto
  have fast: "i \<in> snd ` set (filter ?p ?v) \<and> overlaps_lines s a b i \<longleftrightarrow> entity_file_index s i = Some f \<and> overlaps_lines s a b i" for i
  proof (cases "function_index s i")
    case (Some e)
    have "ucast (entity_row e) \<le> b" if "row (start_position (e_span e)) \<le> b"
      using truncated_row_le that unfolding entity_row_def by (rule order_trans)
    with Some here show ?thesis by (force simp: overlaps_lines_def placed_def)
  qed (simp add: overlaps_lines_def)
  have dist: "distinct (map snd (filter ?p ?v))"
    using srt here by (auto simp: distinct_map strict_sorted_iff inj_on_def dest: placed_unique)
  have "set (get_entities_in_line_range it f a b s) = {i. entity_file_index s i = Some f \<and> overlaps_lines s a b i}
      \<and> distinct (get_entities_in_line_range it f a b s)"
  proof (cases ?v)
    case Nil
    then have "get_entities_in_line_range it f a b s = filter (overlaps_lines s a b) (it ?files)"
      by (auto simp: get_entities_in_line_range_def bucket_def split: option.splits list.splits)
    with scan show ?thesis by simp
  next
    case (Cons x xs)
    then have "get_entities_in_line_range it f a b s = filter (overlaps_lines s a b) (map snd (takeWhile ?p ?v))"
      by (auto simp: get_entities_in_line_range_def bucket_def split: option.splits list.splits)
    with fast dist show ?thesis unfolding prefix by auto
  qed
  then show "set (get_entities_in_line_range it f a b s) = {i. entity_file_index s i = Some f \<and> overlaps_lines s a b i}"
    "distinct (get_entities_in_line_range it f a b s)" by simp_all
qed

section \<open>Validation\<close>

lemma first_error_None: "first_error chk xs = None \<longleftrightarrow> (\<forall>x \<in> set xs. chk x = None)"
  by (induction xs) (auto split: option.split)

lemma first_error_at: "first_error chk xs = None \<Longrightarrow> x \<in> set xs \<Longrightarrow> chk x = None"
  by (simp add: first_error_None)

lemma or_else_None: "or_else a b = None \<longleftrightarrow> a = None \<and> b = None"
  by (simp add: or_else_def split: option.split)

lemma check_target_None: "check_target s err r = None \<longleftrightarrow> (\<forall>c. callee_id r = Some c \<longrightarrow> c \<in> dom (function_index s))"
  by (auto simp: check_target_def split: option.split)

text \<open>What a published snapshot promises.\<close>

definition snapshot_consistent :: "('p, 'i) RelationIndex \<Rightarrow> bool" where
  "snapshot_consistent s \<longleftrightarrow>
     (\<forall>k es. resolved_relation_index s k = Some es \<longrightarrow> k \<in> dom (function_index s)
        \<and> (\<forall>r \<in> set (edges es). \<forall>c. callee_id r = Some c \<longrightarrow> c \<in> dom (function_index s)))
   \<and> (\<forall>f es. file_relation_index s f = Some es \<longrightarrow>
        (\<forall>r \<in> set (edges es). \<forall>c. callee_id r = Some c \<longrightarrow> c \<in> dom (function_index s)))
   \<and> dom (function_index s) \<subseteq> dom (entity_file_index s)
   \<and> (\<forall>key i. symbol_key_to_entity s key = Some i \<longrightarrow> key \<in> set (bucket (file_symbol_keys s) (sk_file_path key)))
   \<and> (\<forall>p. \<forall>key \<in> set (bucket (file_symbol_keys s) p). key \<in> dom (symbol_key_to_entity s) \<and> sk_file_path key = p)"

definition finite_index :: "('p, 'i) RelationIndex \<Rightarrow> bool" where
  "finite_index s \<longleftrightarrow> finite (dom (resolved_relation_index s)) \<and> finite (dom (file_relation_index s))
     \<and> finite (dom (function_index s)) \<and> finite (dom (symbol_key_to_entity s)) \<and> finite (dom (file_symbol_keys s))"

definition orders_ok :: "hash_orders \<Rightarrow> bool" where
  "orders_ok ho \<longleftrightarrow> iter_ok (ho_ids ho) \<and> iter_ok (ho_paths ho) \<and> iter_ok (ho_keys ho)"

lemma if_None: "(if c then Some e else x) = None \<longleftrightarrow> \<not> c \<and> x = None"
  by simp

lemma all_dom_Some: "(\<forall>k \<in> dom m. P k (the (m k))) \<longleftrightarrow> (\<forall>k v. m k = Some v \<longrightarrow> P k v)"
  by force

lemma valid_edges_iff:
  assumes "orders_ok ho" "finite_index s"
  shows "first_error (\<lambda>k. if function_index s k = None then Some (CallerMissing k)
                else first_error (check_target s (TargetMissing k)) (edges (the (resolved_relation_index s k))))
              (ho_ids ho (dom (resolved_relation_index s))) = None \<longleftrightarrow>
     (\<forall>k es. resolved_relation_index s k = Some es \<longrightarrow> k \<in> dom (function_index s)
        \<and> (\<forall>r \<in> set (edges es). \<forall>c. callee_id r = Some c \<longrightarrow> c \<in> dom (function_index s)))"
proof -
  have "set (ho_ids ho (dom (resolved_relation_index s))) = dom (resolved_relation_index s)"
    using assms by (simp add: orders_ok_def finite_index_def)
  then show ?thesis
    unfolding all_dom_Some [symmetric] by (simp add: first_error_None check_target_None if_None domIff)
qed

lemma valid_file_edges_iff:
  assumes "orders_ok ho" "finite_index s"
  shows "first_error (\<lambda>f. first_error (check_target s (FileTargetMissing f)) (edges (the (file_relation_index s f))))
              (ho_paths ho (dom (file_relation_index s))) = None \<longleftrightarrow>
     (\<forall>f es. file_relation_index s f = Some es \<longrightarrow>
        (\<forall>r \<in> set (edges es). \<forall>c. callee_id r = Some c \<longrightarrow> c \<in> dom (function_index s)))"
  using assms unfolding all_dom_Some [symmetric] by (simp add: orders_ok_def finite_index_def first_error_None check_target_None)

lemma valid_members_iff:
  assumes "orders_ok ho" "finite_index s"
  shows "first_error (\<lambda>i. if entity_file_index s i = None then Some (NoFileMembership i) else None)
              (ho_ids ho (dom (function_index s))) = None \<longleftrightarrow> dom (function_index s) \<subseteq> dom (entity_file_index s)"
  using assms by (auto simp: orders_ok_def finite_index_def first_error_None split: if_splits)

lemma valid_keys_iff:
  assumes "orders_ok ho" "finite_index s"
  shows "first_error (\<lambda>key. if (case file_symbol_keys s (sk_file_path key) of Some ks \<Rightarrow> key \<in> set ks | None \<Rightarrow> False)
                then None else Some (KeyNotListed key)) (ho_keys ho (dom (symbol_key_to_entity s))) = None \<longleftrightarrow>
     (\<forall>key i. symbol_key_to_entity s key = Some i \<longrightarrow> key \<in> set (bucket (file_symbol_keys s) (sk_file_path key)))"
proof -
  have listed: "(case file_symbol_keys s p of Some ks \<Rightarrow> key \<in> set ks | None \<Rightarrow> False) \<longleftrightarrow> key \<in> set (bucket (file_symbol_keys s) p)" for p key
    by (simp add: bucket_def split: option.split)
  show ?thesis using assms by (auto simp: orders_ok_def finite_index_def first_error_None listed split: if_splits)
qed

lemma valid_listing_iff:
  assumes "orders_ok ho" "finite_index s"
  shows "first_error (\<lambda>path. first_error (\<lambda>key. if symbol_key_to_entity s key = None then Some (StaleKey key)
                  else if sk_file_path key \<noteq> path then Some (KeyMisfiled key path) else None)
                (the (file_symbol_keys s path))) (ho_paths ho (dom (file_symbol_keys s))) = None \<longleftrightarrow>
     (\<forall>p. \<forall>key \<in> set (bucket (file_symbol_keys s) p). key \<in> dom (symbol_key_to_entity s) \<and> sk_file_path key = p)"
proof -
  have "set (ho_paths ho (dom (file_symbol_keys s))) = dom (file_symbol_keys s)"
    using assms by (simp add: orders_ok_def finite_index_def)
  moreover have "(\<forall>p \<in> dom (file_symbol_keys s). \<forall>key \<in> set (the (file_symbol_keys s p)). Q p key)
      \<longleftrightarrow> (\<forall>p. \<forall>key \<in> set (bucket (file_symbol_keys s) p). Q p key)" for Q
    using all_dom_Some [of "file_symbol_keys s" "\<lambda>p ks. \<forall>key \<in> set ks. Q p key"]
    by (simp add: bucket_def Ball_def [of "set (case _ of None \<Rightarrow> _ | Some x \<Rightarrow> _ x)"] split: option.split) metis
  ultimately show ?thesis
    by (simp add: first_error_None if_None domIff)
qed

lemma validate_iff:
  assumes "orders_ok ho" "finite_index s"
  shows "validate_snapshot ho s = None \<longleftrightarrow> snapshot_consistent s"
  unfolding validate_snapshot_def or_else_None valid_edges_iff [OF assms] valid_file_edges_iff [OF assms]
    valid_members_iff [OF assms] valid_keys_iff [OF assms] valid_listing_iff [OF assms] snapshot_consistent_def ..

section \<open>Properties\<close>

text \<open>
  C3: The reverse index mirrors the call graph. After any sequence of insertions, the callers of
  an entity that a query returns are exactly the entities with a stored edge to it, in
  ascending order and cut at the fan-in bound, and rebuilding the reverse index from the edges,
  in whatever order the hash map is scanned, changes nothing.
\<close>

theorem reverse_index_mirrors:
  assumes "iter_ok it"
  shows "let s = foldl (build_step h) RelationIndex_new evs
    in get_callers_by_callee_entity c s =
         take MAX_REVERSE_FANIN (sorted_list_of_set {k. \<exists>r \<in> set (fwd_edges s k). callee_id r = Some c})
       \<and> rebuild_reverse_callee_index it s = s"
proof -
  let ?s = "foldl (build_step h) RelationIndex_new evs"
  have g: "graph_ok ?s" "rev_rel ?s = fwd_rel ?s" using build_run [of h evs] by (simp_all add: index_inv_def)
  then have "rev_wf ?s" by (simp add: graph_ok_def)
  moreover have "{k. (k, c) \<in> fwd_rel ?s} = {k. \<exists>r \<in> set (fwd_edges ?s k). callee_id r = Some c}"
    by (simp add: fwd_rel_def)
  ultimately show ?thesis
    using g rebuild_is_identity [OF g assms]
    by (simp add: get_callers_by_callee_entity_def limited_callers_eq rev_callers_canonical)
qed

text \<open>
  C21: Lookups by name are exact. After any sequence of insertions, replacements, moves and file
  removals, the ids filed under a name are, without repetition, those of the stored entities
  with that name.
\<close>

theorem name_lookup_exact:
  assumes "iter_ok it"
  shows "let s = foldl (index_step h it fit) RelationIndex_new evs
    in distinct (get_function_ids_by_name n s)
       \<and> set (get_function_ids_by_name n s) = {i. \<exists>e. function_index s i = Some e \<and> e_name e = n}"
proof -
  let ?s = "foldl (index_step h it fit) RelationIndex_new evs"
  have "names_ok ?s" using index_run [OF assms, of h fit evs] by (simp add: index_inv_def entity_inv_def entity_wf_def)
  moreover have "get_function_ids_by_name n ?s = bucket (name_index ?s) n"
    by (simp add: get_function_ids_by_name_def bucket_def)
  ultimately show ?thesis
    using buckets_ok_bucket [of distinct "name_index ?s" n] by (simp add: Let_def names_ok_def named_def)
qed

text \<open>
  The search by lines is exact. After any sequence of operations, the entities returned for
  a range of lines of a file, by the start-row index or by the scan that replaces it, are,
  without repetition, those of that file whose span meets the range; the truncation of rows to
  32 bits in the index loses none.
\<close>

theorem line_range_exact:
  assumes "iter_ok it"
  shows "let s = foldl (index_step h it fit) RelationIndex_new evs
    in distinct (get_entities_in_line_range it f a b s)
       \<and> set (get_entities_in_line_range it f a b s) =
           {i. entity_file_index s i = Some f \<and> (\<exists>e. function_index s i = Some e
              \<and> row (start_position (e_span e)) \<le> b \<and> a \<le> row (end_position (e_span e)))}"
proof -
  let ?s = "foldl (index_step h it fit) RelationIndex_new evs"
  have "entity_inv ?s" using index_run [OF assms, of h fit evs] by (simp add: index_inv_def)
  from line_range_set [OF this assms] show ?thesis
    by (auto simp: Let_def overlaps_lines_def split: option.splits)
qed

text \<open>
  C4: What a file removal removes. After any sequence of operations, removing a file takes away
  exactly its entities, with their memberships, their outgoing edges, every reverse entry from
  or to them, the file's record, its file-level edges and its place among the callers, and
  leaves everything else in place.
\<close>

theorem remove_file_exact:
  assumes "iter_ok it"
  shows "let s = foldl (index_step h it fit) RelationIndex_new evs; s' = remove_file h it fit f s;
      I = {i. entity_file_index s i = Some f}
    in function_index s' = function_index s |` (- I) \<and> entity_file_index s' = entity_file_index s |` (- I)
       \<and> resolved_relation_index s' = resolved_relation_index s |` (- I)
       \<and> (\<forall>k c. k \<in> set (rev_callers s' c) \<longleftrightarrow> k \<in> set (rev_callers s c) \<and> k \<notin> I \<and> c \<notin> I)
       \<and> file_relation_index s' = (file_relation_index s)(f := None) \<and> file_records s' = (file_records s)(f := None)
       \<and> (\<forall>c. file_callers s' c = file_callers s c - {f})"
  using remove_file_spec [OF index_run [OF assms, of h fit evs] assms, where f = f and h = h and fit = fit]
  by (simp add: Let_def rev_rel_def set_eq_iff)

text \<open>
  C34: A file removal leaves the calls into the file behind. When an entity of another file calls
  an entity of the removed file, its edge stays in the forward index with a target that no
  longer exists, the reverse index forgets the caller, and the validation before publication
  refuses the index.
\<close>

theorem removal_leaves_dangling:
  assumes "iter_ok it" "orders_ok ho" "s = foldl (index_step h it fit) RelationIndex_new evs"
    and "r \<in> set (fwd_edges s k)" "callee_id r = Some c"
    and "entity_file_index s c = Some f" "entity_file_index s k = Some g" "g \<noteq> f"
  shows "let s' = remove_file h it fit f s
    in r \<in> set (fwd_edges s' k) \<and> function_index s' c = None
       \<and> k \<notin> set (get_callers_by_callee_entity c s') \<and> validate_snapshot ho s' \<noteq> None"
proof -
  let ?s = "remove_file h it fit f s"
  note inv = index_run [OF assms(1), of h fit evs, folded assms(3)]
  note spec = remove_file_spec [OF inv assms(1), where f = f and h = h and fit = fit]
  have wf: "rev_wf ?s" "finite (dom (resolved_relation_index ?s))"
    using spec(1) by (simp_all add: index_inv_def graph_ok_def)
  have edge: "r \<in> set (fwd_edges ?s k)" using assms spec(4) by (simp add: fwd_edges_def)
  have gone: "function_index ?s c = None" using assms(6) spec(2) by simp
  have "k \<notin> set (rev_callers ?s c)" using spec(5) assms(6) by (auto simp: rev_rel_def set_eq_iff)
  then have unlisted: "k \<notin> set (get_callers_by_callee_entity c ?s)"
    using wf(1) by (auto simp: get_callers_by_callee_entity_def limited_callers_eq dest: in_set_takeD)
  obtain es where es: "resolved_relation_index ?s k = Some es" "r \<in> set (edges es)"
    using edge by (cases "resolved_relation_index ?s k") (auto simp: fwd_edges_def)
  have "check_target ?s (TargetMissing k) r \<noteq> None" using gone assms(5) by (simp add: check_target_def)
  with es have bad: "first_error (check_target ?s (TargetMissing k)) (edges (the (resolved_relation_index ?s k))) \<noteq> None"
    by (auto simp: first_error_None)
  have "k \<in> set (ho_ids ho (dom (resolved_relation_index ?s)))"
    using wf(2) assms(2) es(1) by (auto simp: orders_ok_def)
  have "validate_snapshot ho ?s \<noteq> None"
  proof
    assume "validate_snapshot ho ?s = None"
    then have "first_error (\<lambda>k. if function_index ?s k = None then Some (CallerMissing k)
        else first_error (check_target ?s (TargetMissing k)) (edges (the (resolved_relation_index ?s k))))
      (ho_ids ho (dom (resolved_relation_index ?s))) = None"
      unfolding validate_snapshot_def or_else_None by (rule conjunct1)
    from first_error_at [OF this \<open>k \<in> _\<close>] bad show False by (simp split: if_splits)
  qed
  with edge gone unlisted show ?thesis by (simp add: Let_def)
qed

text \<open>
  C22: What the validation decides. Whatever the order of the hash maps, it accepts exactly the
  indexes in which every edge has a stored caller and target, every file-level edge a stored
  target, every entity a file, and the symbol keys and the keys listed per file are the same.
\<close>

theorem validate_snapshot_decides:
  assumes "orders_ok ho" "finite_index s"
  shows "validate_snapshot ho s = None \<longleftrightarrow> snapshot_consistent s"
  by (rule validate_iff [OF assms])

text \<open>
  The first registration of a symbol key wins. Registering an entity never takes a key from
  the entity that holds it; a refused registration changes nothing but the conflict record, and
  happens only when the entity's own key belongs to another entity; a registration that
  succeeds leaves the entity with a key of its file and kind.
\<close>

theorem register_first_wins:
  assumes "register_symbol_key h f n e i s = (ok, s')"
  shows "(\<forall>k j. symbol_key_to_entity s k = Some j \<longrightarrow> symbol_key_to_entity s' k = Some j)
    \<and> (\<not> ok \<longrightarrow> s' = s\<lparr>diagnostics := diagnostics s'\<rparr>
        \<and> (\<exists>j. j \<noteq> i \<and> symbol_key_to_entity s (for_entity h f n e) = Some j)
        \<and> symbol_key_conflict_count (diagnostics s') = symbol_key_conflict_count (diagnostics s) + 1)
    \<and> (ok \<longrightarrow> (\<exists>m. symbol_key_to_entity s' (for_entity h f m e) = Some i))"
proof (cases "symbol_key_to_entity s (for_entity h f n e)")
  case None
  with assms show ?thesis by (auto simp: register_symbol_key_def store_symbol_key_def Let_def)
next
  case (Some j)
  show ?thesis
  proof (cases "j = i")
    case True
    with Some assms show ?thesis by (auto simp: register_symbol_key_def Let_def)
  next
    case False
    let ?key = "for_entity h f (span_scoped_name n e) e"
    consider "ok" "symbol_key_to_entity s ?key \<in> {None, Some i}" "s' = store_symbol_key h ?key i s"
      | "\<not> ok" "s' = record_symbol_key_conflict (for_entity h f n e) j i s"
      using Some False assms by (auto simp: register_symbol_key_def Let_def split: if_splits option.splits)
    then show ?thesis
    proof cases
      case 1
      then have "symbol_key_to_entity s' = (symbol_key_to_entity s)(?key \<mapsto> i)" by (simp add: store_symbol_key_def)
      with 1 show ?thesis by auto
    next
      case 2
      with Some False show ?thesis by (simp add: record_symbol_key_conflict_def Let_def)
    qed
  qed
qed

section \<open>Witnesses\<close>

text \<open>Function \<^verbatim>\<open>f\<close> of file \<^verbatim>\<open>a\<close> calls function \<^verbatim>\<open>g\<close> of file \<^verbatim>\<open>b\<close>.\<close>

definition sample_call :: "unit ResolvedRelation" where
  "sample_call = \<lparr>caller = 1, callee_id = Some 2, callee_name = ''g'', relation_type = DirectCall, span = from_line 3,
     is_external = False, external_type = None, payload = ()\<rparr>"

definition sample_build :: "(unit, unit) build_event list" where
  "sample_build = [BFunction 1 (Entity_new 1 KFunction ''f'' (from_line 3)) ''a'',
     BFunction 2 (Entity_new 2 KFunction ''g'' (from_line 5)) ''b'', BRelation sample_call]"

definition sample_index :: "(unit, unit) RelationIndex" where
  "sample_index = foldl (build_step id) RelationIndex_new sample_build"

lemma sample_events: "foldl (index_step h it fit) s (map Build bs) = foldl (build_step h) s bs"
  by (induction bs arbitrary: s) simp_all

lemma sample_index_fields:
  "function_index sample_index = [1 \<mapsto> Entity_new 1 KFunction ''f'' (from_line 3), 2 \<mapsto> Entity_new 2 KFunction ''g'' (from_line 5)]"
  "entity_file_index sample_index = [1 \<mapsto> ''a'', 2 \<mapsto> ''b'']"
  by (simp_all add: sample_index_def sample_build_def add_function_fields RelationIndex_new_def)

lemma sample_index_edges: "fwd_edges sample_index k = (if k = 1 then [sample_call] else [])"
proof -
  have "caller sample_call = 1" by (simp add: sample_call_def)
  then show ?thesis
    by (simp add: sample_index_def sample_build_def add_relation_fwd_edges)
      (simp add: fwd_edges_def forward_set_def RelationIndex_new_def es_insert_def es_empty_def Let_def)
qed

lemma sample_entity_rows [simp]:
  "row (start_position (from_line n)) = n" "row (end_position (from_line n)) = saturating_add n 1"
  by (simp_all add: from_line_def from_lines_def Span_new_def)

theorem reverse_index_mirrors_witness:
  "get_callers_by_callee_entity 2 sample_index = [1] \<and> rebuild_reverse_callee_index sorted_list_of_set sample_index = sample_index"
proof -
  have "{k. \<exists>r \<in> set (fwd_edges sample_index k). callee_id r = Some 2} = {1}"
    by (auto simp: sample_index_edges sample_call_def split: if_splits)
  with reverse_index_mirrors [OF iter_ok_sorted, of id sample_build 2] show ?thesis
    by (simp add: sample_index_def Let_def MAX_REVERSE_FANIN_def)
qed

theorem name_lookup_exact_witness:
  "set (get_function_ids_by_name ''g'' sample_index) = {2}"
proof -
  have "{i. \<exists>e. function_index sample_index i = Some e \<and> e_name e = ''g''} = {2}"
    by (auto simp: sample_index_fields Entity_new_def split: if_splits)
  with name_lookup_exact [OF iter_ok_sorted, of id sorted_list_of_set "map Build sample_build" "''g''"] show ?thesis
    by (simp add: sample_events sample_index_def Let_def)
qed

theorem line_range_exact_witness:
  "set (get_entities_in_line_range sorted_list_of_set ''b'' 4 5 sample_index) = {2}"
proof -
  have "{i. entity_file_index sample_index i = Some ''b'' \<and> (\<exists>e. function_index sample_index i = Some e
      \<and> row (start_position (e_span e)) \<le> 5 \<and> 4 \<le> row (end_position (e_span e)))} = {2}"
    by (auto simp: sample_index_fields Entity_new_def saturating_add_def split: if_splits)
  with line_range_exact [OF iter_ok_sorted, of id sorted_list_of_set "map Build sample_build" "''b''" 4 5] show ?thesis
    by (simp add: sample_events sample_index_def Let_def)
qed

theorem remove_file_exact_witness:
  "let s' = remove_file id sorted_list_of_set sorted_list_of_set ''b'' sample_index
   in function_index s' 2 = None \<and> function_index s' 1 \<noteq> None \<and> entity_file_index s' 2 = None"
  using remove_file_exact [OF iter_ok_sorted, of id sorted_list_of_set "map Build sample_build" "''b''"]
  by (simp add: sample_events Let_def sample_index_fields sample_index_def [symmetric])

text \<open>An order of the elements of a finite set, for the key type without an order of its own.\<close>

definition some_order :: "'a iter" where
  "some_order S = (SOME xs. set xs = S \<and> distinct xs)"

lemma iter_ok_some_order: "iter_ok some_order"
  unfolding iter_ok_def some_order_def by (metis (mono_tags, lifting) finite_distinct_list someI_ex)

definition sample_orders :: hash_orders where
  "sample_orders = \<lparr>ho_ids = sorted_list_of_set, ho_paths = sorted_list_of_set, ho_keys = some_order\<rparr>"

lemma sample_orders_ok: "orders_ok sample_orders"
  by (simp add: orders_ok_def sample_orders_def iter_ok_sorted iter_ok_some_order)

theorem removal_leaves_dangling_witness:
  "let s' = remove_file id sorted_list_of_set sorted_list_of_set ''b'' sample_index
   in sample_call \<in> set (fwd_edges s' 1) \<and> function_index s' 2 = None \<and> validate_snapshot sample_orders s' \<noteq> None"
proof -
  have "sample_index = foldl (index_step id sorted_list_of_set sorted_list_of_set) RelationIndex_new (map Build sample_build)"
    by (simp add: sample_events sample_index_def)
  from removal_leaves_dangling [OF iter_ok_sorted sample_orders_ok this, of sample_call 1 2 "''b''" "''a''"] show ?thesis
    by (simp add: Let_def sample_index_edges sample_index_fields sample_call_def)
qed

lemma sample_index_maps:
  "resolved_relation_index sample_index = [1 \<mapsto> fst (es_insert sample_call es_empty)]"
  "file_relation_index sample_index = Map.empty"
  "symbol_key_to_entity sample_index = Map.empty" "file_symbol_keys sample_index = Map.empty"
proof -
  have "caller sample_call = 1" "callee_id sample_call = Some 2" by (simp_all add: sample_call_def)
  then show "resolved_relation_index sample_index = [1 \<mapsto> fst (es_insert sample_call es_empty)]"
    "file_relation_index sample_index = Map.empty"
    "symbol_key_to_entity sample_index = Map.empty" "file_symbol_keys sample_index = Map.empty"
    by (simp_all add: sample_index_def sample_build_def add_resolved_relation_eq Let_def forward_set_def RelationIndex_new_def
        add_function_with_path_def insert_function_def ensure_counter_at_least_def track_file_entity_def untrack_file_entity_def)
qed

theorem validate_snapshot_decides_witness:
  "validate_snapshot sample_orders sample_index = None"
proof -
  have "finite_index sample_index" by (simp add: finite_index_def sample_index_maps sample_index_fields)
  moreover have "snapshot_consistent sample_index"
    by (simp add: snapshot_consistent_def sample_index_maps sample_index_fields es_insert_def es_empty_def sample_call_def Let_def)
  ultimately show ?thesis using validate_snapshot_decides [OF sample_orders_ok, of sample_index] by simp
qed

theorem register_first_wins_witness:
  "let s = snd (register_symbol_key id ''a'' ''f'' (Entity_new 1 KFunction ''f'' (from_line 3)) 1 sample_index);
       e = Entity_new 2 KFunction ''f'' (from_line 3)
   in \<not> fst (register_symbol_key id ''a'' ''f'' e 2 s)
      \<and> symbol_key_to_entity (snd (register_symbol_key id ''a'' ''f'' e 2 s)) (for_entity id ''a'' ''f'' e) = Some 1"
proof -
  define e1 e2 where "e1 = Entity_new 1 KFunction ''f'' (from_line 3)" and "e2 = Entity_new 2 KFunction ''f'' (from_line 3)"
  define s where "s = snd (register_symbol_key id ''a'' ''f'' e1 1 sample_index)"
  have same: "for_entity id ''a'' ''f'' e2 = for_entity id ''a'' ''f'' e1"
    by (simp add: e1_def e2_def Entity_new_def for_entity_def get_metadata_def Let_def)
  have s: "symbol_key_to_entity s (for_entity id ''a'' ''f'' e1) = Some 1" "function_index s 1 = Some e1"
    by (simp_all add: s_def register_symbol_key_def sample_index_maps sample_index_fields store_symbol_key_def e1_def Let_def)
  have "\<not> fst (register_symbol_key id ''a'' ''f'' e2 2 s)"
    using s by (simp add: register_symbol_key_def same Let_def) (simp add: e1_def e2_def Entity_new_def)
  moreover have "symbol_key_to_entity (snd (register_symbol_key id ''a'' ''f'' e2 2 s)) (for_entity id ''a'' ''f'' e2) = Some 1"
    using register_first_wins [of id "''a''" "''f''" e2 2 s] s(1) by (metis prod.collapse same)
  ultimately show ?thesis unfolding s_def e1_def e2_def Let_def by blast
qed

end
