(* ===== verification/Snapshot_Index.thy ===== *)
theory Snapshot_Index
  imports Relation_Queries
begin

text \<open>
  Published snapshots of the relation index (\<^verbatim>\<open>parser/cce-codegraph/src/index/snapshot_index.rs\<close>,
  \<^verbatim>\<open>snapshot_index/query_optimized.rs\<close>, \<^verbatim>\<open>snapshot_view/snapshot_view_impl.rs\<close> and
  \<^verbatim>\<open>snapshot_query/snapshot_impls.rs\<close>). A snapshot shares the maps of the index it is made from, which are
  \<open>snap_index\<close> here, and adds two precomputed indexes: the edges by caller and the callers by
  callee, and the transitive closure of the file dependencies up to a depth.
\<close>

section \<open>The precomputed indexes\<close>

record 'p QueryOptimizedIndex =
  callers_by_callee :: "EntityId \<rightharpoonup> EntityId list"
  callees_by_caller :: "EntityId \<rightharpoonup> 'p ResolvedRelation list"

record TransitiveFileDeps =
  transitive_dependents :: "string \<rightharpoonup> string set"
  transitive_dependencies :: "string \<rightharpoonup> string set"

definition push_caller :: "EntityId \<Rightarrow> 'p ResolvedRelation \<Rightarrow> (EntityId \<rightharpoonup> EntityId list) \<Rightarrow> (EntityId \<rightharpoonup> EntityId list)" where
  "push_caller k rel m = (case callee_id rel of
     Some c \<Rightarrow> m(c \<mapsto> (case m c of Some ks \<Rightarrow> ks | None \<Rightarrow> []) @ [k]) | None \<Rightarrow> m)"

definition from_resolved_map :: "EntityId iter \<Rightarrow> (EntityId \<rightharpoonup> 'p RelationEdgeSet) \<Rightarrow> 'p QueryOptimizedIndex" where
  "from_resolved_map it resolved =
     (let pushed = fold (\<lambda>k. fold (push_caller k) (edges (the (resolved k)))) (it (dom resolved)) Map.empty
      in \<lparr>callers_by_callee = (\<lambda>c. map_option (\<lambda>ks. remdups_adj (sort ks)) (pushed c)),
          callees_by_caller = (\<lambda>k. map_option edges (resolved k))\<rparr>)"

definition get_callees :: "EntityId \<Rightarrow> 'p QueryOptimizedIndex \<Rightarrow> 'p ResolvedRelation list option" where
  "get_callees k q = callees_by_caller q k"

definition get_callers :: "EntityId \<Rightarrow> 'p QueryOptimizedIndex \<Rightarrow> EntityId list option" where
  "get_callers c q = callers_by_callee q c"

subsection \<open>Transitive file dependencies\<close>

definition touch_key :: "string \<Rightarrow> (string \<rightharpoonup> string set) \<Rightarrow> (string \<rightharpoonup> string set)" where
  "touch_key f m = m(f \<mapsto> (case m f of Some S \<Rightarrow> S | None \<Rightarrow> {}))"

definition add_link :: "string \<Rightarrow> string \<Rightarrow> (string \<rightharpoonup> string set) \<Rightarrow> (string \<rightharpoonup> string set)" where
  "add_link f t m = m(f \<mapsto> insert t (case m f of Some S \<Rightarrow> S | None \<Rightarrow> {}))"

text \<open>Both maps learn that one file depends on another.\<close>

definition link_files :: "string \<Rightarrow> string \<Rightarrow> TransitiveFileDeps \<Rightarrow> TransitiveFileDeps" where
  "link_files file dep t =
     t\<lparr>transitive_dependents := add_link dep file (transitive_dependents t),
       transitive_dependencies := add_link file dep (transitive_dependencies t)\<rparr>"

definition touch_file :: "string \<Rightarrow> TransitiveFileDeps \<Rightarrow> TransitiveFileDeps" where
  "touch_file file t =
     t\<lparr>transitive_dependents := touch_key file (transitive_dependents t),
       transitive_dependencies := touch_key file (transitive_dependencies t)\<rparr>"

definition link_relation ::
  "('p, 'i) RelationIndex \<Rightarrow> string \<Rightarrow> 'p ResolvedRelation \<Rightarrow> TransitiveFileDeps \<Rightarrow> TransitiveFileDeps" where
  "link_relation s caller_file rel t =
     (case callee_id rel of
        None \<Rightarrow> t
      | Some c \<Rightarrow> (case entity_file_index s c of
            None \<Rightarrow> t
          | Some callee_file \<Rightarrow> if caller_file \<noteq> callee_file then link_files caller_file callee_file t else t))"

text \<open>One round over the keys, in place; the flag tells whether some set has grown.\<close>

definition propagate_key ::
  "string \<Rightarrow> (string \<rightharpoonup> string set) \<times> bool \<Rightarrow> (string \<rightharpoonup> string set) \<times> bool" where
  "propagate_key key acc =
     (case acc of (deps, grown) \<Rightarrow>
        let current = (case deps key of Some S \<Rightarrow> S | None \<Rightarrow> {});
            new_deps = (current \<union> (\<Union>d \<in> current. case deps d of Some S \<Rightarrow> S | None \<Rightarrow> {})) - {key}
        in if card new_deps > card current then (deps(key \<mapsto> new_deps), True) else (deps, grown))"

fun propagate :: "string iter \<Rightarrow> nat \<Rightarrow> (string \<rightharpoonup> string set) \<Rightarrow> (string \<rightharpoonup> string set)" where
  "propagate it 0 deps = deps"
| "propagate it (Suc rounds) deps =
     (case fold propagate_key (it (dom deps)) (deps, False) of
        (deps', grown) \<Rightarrow> if grown then propagate it rounds deps' else deps')"

text \<open>The direct links: the dependency graph, the file-level edges and the edges of entities.\<close>

definition direct_links :: "hash_orders \<Rightarrow> ('p, 'i) RelationIndex \<Rightarrow> TransitiveFileDeps" where
  "direct_links ho s =
     (let files = get_all_files (ho_paths ho) (dependency_graph s);
          t0 = \<lparr>transitive_dependents = Map.empty, transitive_dependencies = Map.empty\<rparr>;
          t1 = fold touch_file (ho_paths ho (dom (file_records s))) t0;
          t2 = fold touch_file files t1;
          t3 = fold touch_file (ho_paths ho (dom (file_relation_index s))) t2;
          t4 = fold (\<lambda>file. fold (link_files file) (get_dependencies (ho_paths ho) (dependency_graph s) file)) files t3;
          t5 = fold (\<lambda>file. fold (link_relation s file) (edges (the (file_relation_index s file))))
                 (ho_paths ho (dom (file_relation_index s))) t4
      in fold (\<lambda>k. case entity_file_index s k of
                     None \<Rightarrow> id
                   | Some file \<Rightarrow> fold (link_relation s file) (edges (the (resolved_relation_index s k))))
           (ho_ids ho (dom (resolved_relation_index s))) t5)"

definition from_relation_index :: "hash_orders \<Rightarrow> ('p, 'i) RelationIndex \<Rightarrow> nat \<Rightarrow> TransitiveFileDeps" where
  "from_relation_index ho s max_depth =
     (let t = direct_links ho s
      in \<lparr>transitive_dependents = propagate (ho_paths ho) max_depth (transitive_dependents t),
          transitive_dependencies = propagate (ho_paths ho) max_depth (transitive_dependencies t)\<rparr>)"

definition sorted_set :: "string set option \<Rightarrow> string list" where
  "sorted_set v = (case v of Some S \<Rightarrow> sorted_list_of_set S | None \<Rightarrow> [])"

definition transitive_dependents_of :: "string \<Rightarrow> TransitiveFileDeps \<Rightarrow> string list" where
  "transitive_dependents_of f t = sorted_set (transitive_dependents t f)"

definition transitive_dependencies_of :: "string \<Rightarrow> TransitiveFileDeps \<Rightarrow> string list" where
  "transitive_dependencies_of f t = sorted_set (transitive_dependencies t f)"

section \<open>Snapshots\<close>

record ('p, 'i) RelationSnapshotIndex =
  snap_index :: "('p, 'i) RelationIndex"
  query_optimized :: "'p QueryOptimizedIndex"
  transitive_deps :: TransitiveFileDeps
  classification_stats_cache :: "(ExternalCallType \<rightharpoonup> nat) option"

definition from_index_shared :: "hash_orders \<Rightarrow> ('p, 'i) RelationIndex \<Rightarrow> ('p, 'i) RelationSnapshotIndex" where
  "from_index_shared ho index =
     \<lparr>snap_index = index, query_optimized = from_resolved_map (ho_ids ho) (resolved_relation_index index),
      transitive_deps = from_relation_index ho index 10, classification_stats_cache = None\<rparr>"

text \<open>Taking the index leaves an empty one behind.\<close>

definition from_index_owned ::
  "hash_orders \<Rightarrow> ('p, 'i) RelationIndex \<Rightarrow> ('p, 'i) RelationSnapshotIndex \<times> ('p, 'i) RelationIndex" where
  "from_index_owned ho index = (case snapshot_take index of (taken, left) \<Rightarrow> (from_index_shared ho taken, left))"

definition count_class :: "ExternalCallType option \<Rightarrow> (ExternalCallType \<rightharpoonup> nat) \<Rightarrow> (ExternalCallType \<rightharpoonup> nat)" where
  "count_class e m = (case e of Some t \<Rightarrow> m(t \<mapsto> (case m t of Some n \<Rightarrow> n | None \<Rightarrow> 0) + 1) | None \<Rightarrow> m)"

definition classification_stats_memoized ::
  "EntityId iter \<Rightarrow> ('p, 'i) RelationSnapshotIndex
     \<Rightarrow> (ExternalCallType \<rightharpoonup> nat) \<times> ('p, 'i) RelationSnapshotIndex" where
  "classification_stats_memoized it s =
     (case classification_stats_cache s of
        Some cached \<Rightarrow> (cached, s)
      | None \<Rightarrow>
          let resolved = resolved_relation_index (snap_index s);
              stats = fold (\<lambda>k. fold (\<lambda>r. count_class (external_type r)) (edges (the (resolved k)))) (it (dom resolved)) Map.empty
          in (stats, s\<lparr>classification_stats_cache := Some stats\<rparr>))"

definition function_count_s :: "('p, 'i) RelationSnapshotIndex \<Rightarrow> nat" where
  "function_count_s s = card (dom (function_index (snap_index s)))"

definition resolved_relation_count_s :: "('p, 'i) RelationSnapshotIndex \<Rightarrow> nat" where
  "resolved_relation_count_s s = resolved_relation_count (snap_index s)"

section \<open>The snapshot as a view\<close>

definition callers_of_s :: "EntityId \<Rightarrow> ('p, 'i) RelationSnapshotIndex \<Rightarrow> EntityId list" where
  "callers_of_s c s =
     (case reverse_callee_index (snap_index s) c of
        Some ks \<Rightarrow> ks
      | None \<Rightarrow> (case get_callers c (query_optimized s) of Some ks \<Rightarrow> ks | None \<Rightarrow> []))"

text \<open>The entities of a file in hash order.\<close>

definition entities_by_file_s :: "EntityId iter \<Rightarrow> ('p, 'i) RelationSnapshotIndex \<Rightarrow> (string \<rightharpoonup> Entity list)" where
  "entities_by_file_s it s =
     fold (\<lambda>i grouped. case (entity_file_index (snap_index s) i, function_index (snap_index s) i) of
             (Some file, Some e) \<Rightarrow> grouped(file \<mapsto> (case grouped file of Some es \<Rightarrow> es | None \<Rightarrow> []) @ [e])
           | _ \<Rightarrow> grouped)
       (it (dom (entity_file_index (snap_index s)))) Map.empty"

definition entities_of_file_s :: "string \<Rightarrow> ('p, 'i) RelationSnapshotIndex \<Rightarrow> Entity list" where
  "entities_of_file_s path s =
     (case file_entities_by_start (snap_index s) path of
        None \<Rightarrow> []
      | Some rows \<Rightarrow> List.map_filter (\<lambda>(_, i). function_index (snap_index s) i) rows)"

definition file_callers_of_s :: "string iter \<Rightarrow> EntityId \<Rightarrow> ('p, 'i) RelationSnapshotIndex \<Rightarrow> string list" where
  "file_callers_of_s it c s = (case file_callers_by_callee (snap_index s) c of Some S \<Rightarrow> it S | None \<Rightarrow> [])"

definition stable_symbol_keys_in_files_s ::
  "string iter \<Rightarrow> string set \<Rightarrow> ('p, 'i) RelationSnapshotIndex \<Rightarrow> StableSymbolKey list" where
  "stable_symbol_keys_in_files_s it files s =
     concat (map (\<lambda>f. case file_symbol_keys (snap_index s) f of Some ks \<Rightarrow> ks | None \<Rightarrow> []) (it files))"

definition max_entity_id_s :: "('p, 'i) RelationSnapshotIndex \<Rightarrow> u64" where
  "max_entity_id_s s =
     (if function_index (snap_index s) = Map.empty then 0 else Max (dom (function_index (snap_index s))))"

section \<open>Queries\<close>

definition get_entities_in_line_range_s ::
  "EntityId iter \<Rightarrow> string \<Rightarrow> usize \<Rightarrow> usize \<Rightarrow> ('p, 'i) RelationSnapshotIndex \<Rightarrow> EntityId list" where
  "get_entities_in_line_range_s it file start_line end_line s =
     filter (overlaps_lines (snap_index s) start_line end_line)
       (filter (\<lambda>i. entity_file_index (snap_index s) i = Some file) (it (dom (entity_file_index (snap_index s)))))"

definition get_resolved_relations_by_caller_s ::
  "EntityId \<Rightarrow> ('p, 'i) RelationSnapshotIndex \<Rightarrow> 'p ResolvedRelation list option" where
  "get_resolved_relations_by_caller_s k s =
     (case get_callees k (query_optimized s) of
        Some callees \<Rightarrow> Some callees
      | None \<Rightarrow> map_option edges (resolved_relation_index (snap_index s) k))"

definition get_resolved_relations_by_caller_checked_s ::
  "EntityId \<Rightarrow> ('p, 'i) RelationSnapshotIndex \<Rightarrow> IndexError + 'p ResolvedRelation list" where
  "get_resolved_relations_by_caller_checked_s k s =
     (if function_index (snap_index s) k = None then Inl (EntityNotFound k)
      else Inr (case get_resolved_relations_by_caller_s k s of Some rs \<Rightarrow> rs | None \<Rightarrow> []))"

definition get_callers_by_callee_entity_s :: "EntityId \<Rightarrow> ('p, 'i) RelationSnapshotIndex \<Rightarrow> EntityId list" where
  "get_callers_by_callee_entity_s c s =
     (case (case get_callers c (query_optimized s) of
              Some ks \<Rightarrow> Some ks | None \<Rightarrow> reverse_callee_index (snap_index s) c) of
        None \<Rightarrow> []
      | Some ks \<Rightarrow> take MAX_REVERSE_FANIN (remdups_adj (sort ks)))"

definition get_callers_by_callee_entity_checked_s ::
  "EntityId \<Rightarrow> ('p, 'i) RelationSnapshotIndex \<Rightarrow> IndexError + EntityId list" where
  "get_callers_by_callee_entity_checked_s c s =
     (if function_index (snap_index s) c = None then Inl (EntityNotFound c) else Inr (get_callers_by_callee_entity_s c s))"

definition get_relations_to_entity_s :: "EntityId \<Rightarrow> ('p, 'i) RelationSnapshotIndex \<Rightarrow> 'p ResolvedRelation list" where
  "get_relations_to_entity_s c s =
     concat (map (\<lambda>k. filter (\<lambda>r. callee_id r = Some c)
                    (case get_resolved_relations_by_caller_s k s of Some rs \<Rightarrow> rs | None \<Rightarrow> []))
       (get_callers_by_callee_entity_s c s))"

definition get_relations_to_entity_by_type_s ::
  "EntityId \<Rightarrow> RelationType \<Rightarrow> ('p, 'i) RelationSnapshotIndex \<Rightarrow> 'p ResolvedRelation list" where
  "get_relations_to_entity_by_type_s c t s = filter (\<lambda>r. relation_type r = t) (get_relations_to_entity_s c s)"

definition get_callers_by_callee_and_type_s ::
  "EntityId \<Rightarrow> RelationType \<Rightarrow> ('p, 'i) RelationSnapshotIndex \<Rightarrow> EntityId list" where
  "get_callers_by_callee_and_type_s c t s = collect_callers (get_relations_to_entity_by_type_s c t s) []"

definition get_relations_from_entity_by_type_s ::
  "EntityId \<Rightarrow> RelationType \<Rightarrow> ('p, 'i) RelationSnapshotIndex \<Rightarrow> 'p ResolvedRelation list" where
  "get_relations_from_entity_by_type_s k t s =
     (case resolved_relation_index (snap_index s) k of
        Some relations \<Rightarrow> filter (\<lambda>r. relation_type r = t) (edges relations) | None \<Rightarrow> [])"

definition get_relations_by_classification_s ::
  "EntityId iter \<Rightarrow> ExternalCallType \<Rightarrow> ('p, 'i) RelationSnapshotIndex \<Rightarrow> 'p ResolvedRelation list" where
  "get_relations_by_classification_s it t s =
     (let resolved = resolved_relation_index (snap_index s)
      in concat (map (\<lambda>k. filter (\<lambda>r. external_type r = Some t) (edges (the (resolved k)))) (it (dom resolved))))"

definition get_derived_classes_s :: "EntityId \<Rightarrow> ('p, 'i) RelationSnapshotIndex \<Rightarrow> EntityId list" where
  "get_derived_classes_s i s = get_callers_by_callee_and_type_s i Inheritance s"

definition get_implementing_classes_s :: "EntityId \<Rightarrow> ('p, 'i) RelationSnapshotIndex \<Rightarrow> EntityId list" where
  "get_implementing_classes_s i s = get_callers_by_callee_and_type_s i Implementation s"

definition get_types_with_trait_bound_s :: "EntityId \<Rightarrow> ('p, 'i) RelationSnapshotIndex \<Rightarrow> EntityId list" where
  "get_types_with_trait_bound_s i s = get_callers_by_callee_and_type_s i TraitBound s"

definition get_base_classes_s :: "EntityId \<Rightarrow> ('p, 'i) RelationSnapshotIndex \<Rightarrow> EntityId list" where
  "get_base_classes_s i s = List.map_filter callee_id (get_relations_from_entity_by_type_s i Inheritance s)"

definition get_implemented_interfaces_s :: "EntityId \<Rightarrow> ('p, 'i) RelationSnapshotIndex \<Rightarrow> EntityId list" where
  "get_implemented_interfaces_s i s = List.map_filter callee_id (get_relations_from_entity_by_type_s i Implementation s)"

definition get_child_elements_s :: "EntityId \<Rightarrow> ('p, 'i) RelationSnapshotIndex \<Rightarrow> EntityId list" where
  "get_child_elements_s i s = List.map_filter callee_id (get_relations_from_entity_by_type_s i ElementContains s)"

definition get_parent_element_s :: "EntityId \<Rightarrow> ('p, 'i) RelationSnapshotIndex \<Rightarrow> EntityId list" where
  "get_parent_element_s i s = get_callers_by_callee_and_type_s i ElementContains s"

definition get_event_handlers_s :: "EntityId \<Rightarrow> ('p, 'i) RelationSnapshotIndex \<Rightarrow> 'p ResolvedRelation list" where
  "get_event_handlers_s i s = get_relations_from_entity_by_type_s i EventCallback s"

definition get_elements_by_handler_s :: "EntityId \<Rightarrow> ('p, 'i) RelationSnapshotIndex \<Rightarrow> EntityId list" where
  "get_elements_by_handler_s i s = get_callers_by_callee_and_type_s i EventCallback s"

definition get_parameter_bindings_s :: "EntityId \<Rightarrow> ('p, 'i) RelationSnapshotIndex \<Rightarrow> 'p ResolvedRelation list" where
  "get_parameter_bindings_s i s = get_relations_from_entity_by_type_s i ParameterBinding s"

definition get_template_references_s :: "EntityId \<Rightarrow> ('p, 'i) RelationSnapshotIndex \<Rightarrow> 'p ResolvedRelation list" where
  "get_template_references_s i s = get_relations_from_entity_by_type_s i TemplateReference s"

definition get_elements_by_template_ref_s :: "EntityId \<Rightarrow> ('p, 'i) RelationSnapshotIndex \<Rightarrow> EntityId list" where
  "get_elements_by_template_ref_s i s = get_callers_by_callee_and_type_s i TemplateReference s"

definition get_entity_ids_by_file_s :: "EntityId iter \<Rightarrow> string \<Rightarrow> ('p, 'i) RelationSnapshotIndex \<Rightarrow> EntityId list" where
  "get_entity_ids_by_file_s it file_id s =
     filter (\<lambda>i. entity_file_index (snap_index s) i = Some file_id) (it (dom (entity_file_index (snap_index s))))"

definition get_entities_by_file_s :: "EntityId iter \<Rightarrow> string \<Rightarrow> ('p, 'i) RelationSnapshotIndex \<Rightarrow> (EntityId \<times> Entity) list" where
  "get_entities_by_file_s it file_id s =
     List.map_filter (\<lambda>i. map_option (\<lambda>e. (i, e)) (function_index (snap_index s) i)) (get_entity_ids_by_file_s it file_id s)"

definition get_resolved_relations_by_file_s ::
  "EntityId iter \<Rightarrow> string \<Rightarrow> ('p, 'i) RelationSnapshotIndex \<Rightarrow> (EntityId \<times> 'p ResolvedRelation list) list" where
  "get_resolved_relations_by_file_s it file_id s =
     List.map_filter (\<lambda>i. map_option (\<lambda>rels. (i, rels)) (get_resolved_relations_by_caller_s i s))
       (get_entity_ids_by_file_s it file_id s)"

end
