(* ===== verification/Relation_Delta.thy ===== *)
theory Relation_Delta
  imports Relation_Queries
begin

text \<open>
  Deltas between two relation indexes (\<^verbatim>\<open>parser/cce-codegraph/src/index/delta.rs\<close> and the files of
  \<^verbatim>\<open>delta/\<close>): what a hot update computes from the base and the candidate, and its replay on the base.
  The base is a relation index here, one of the implementations of the view trait (\<^verbatim>\<open>view.rs\<close>).
  Of the unread payload of a relation the delta reads the call count and the conditional guard,
  which are fields of \<open>RelationDetails\<close>.

  \<^verbatim>\<open>DashMap\<close> keeps its entries in shards, each behind a lock that a mutable reference holds while it
  lives; a second access to the same shard in the same thread then never returns. The assignment
  of keys to shards is the parameter \<open>shard\<close>, and \<open>None\<close> is a replay that does not return.
\<close>

section \<open>Data\<close>

record 'q RelationDetails =
  call_frequency :: u64
  cfg_condition :: "string option"
  details_rest :: 'q

type_synonym 'q edge = "'q RelationDetails ResolvedRelation"
type_synonym ('q, 'i) rindex = "('q RelationDetails, 'i) RelationIndex"

record 'i ImportDiff =
  imd_file_path :: string
  imd_removed :: "'i list"
  imd_added :: "'i list"

record CanonicalExport =
  cx_symbol :: StableSymbolKey
  cx_export_type :: string

record ExportDiff =
  exd_file_path :: string
  exd_removed :: "CanonicalExport list"
  exd_added :: "CanonicalExport list"

record DependencyDiff =
  dpd_source_file :: string
  dpd_removed :: "string list"
  dpd_added :: "string list"

record 'q FileRelationDiff =
  frd_file_path :: string
  frd_removed :: "'q edge list"
  frd_added :: "'q edge list"

record AddedEntity =
  ae_entity :: Entity
  ae_symbol_key :: StableSymbolKey
  ae_file_path :: string

type_synonym renamed = "EntityId \<times> EntityId \<times> string \<times> string"

record ('q, 'i) SnapshotDelta =
  sd_epoch :: int
  sd_base_epoch :: int
  sd_config_fingerprint :: string
  removed_files :: "string list"
  added_files :: "FileInfo list"
  removed_entities :: "EntityId list"
  added_entities :: "AddedEntity list"
  removed_relations :: "'q edge list"
  added_relations :: "'q edge list"
  file_relation_diffs :: "'q FileRelationDiff list"
  import_diffs :: "'i ImportDiff list"
  export_diffs :: "ExportDiff list"
  dependency_diffs :: "DependencyDiff list"
  relation_edges_dropped_unbounded :: u64
  renamed_entities :: "renamed list"

section \<open>Scope and the view of the base\<close>

type_synonym scope = "string set option"

definition in_files :: "scope \<Rightarrow> string \<Rightarrow> bool" where
  "in_files affected path = (case affected of None \<Rightarrow> True | Some files \<Rightarrow> path \<in> files)"

definition entity_in_scope :: "('p, 'i) RelationIndex \<Rightarrow> scope \<Rightarrow> EntityId \<Rightarrow> bool" where
  "entity_in_scope index affected i =
     (case affected of
        None \<Rightarrow> True
      | Some files \<Rightarrow> (case entity_file_index index i of Some file \<Rightarrow> file \<in> files | None \<Rightarrow> False))"

definition relations_of :: "('p, 'i) RelationIndex \<Rightarrow> EntityId \<Rightarrow> 'p ResolvedRelation list option" where
  "relations_of s k = map_option edges (resolved_relation_index s k)"

definition callers_of :: "('p, 'i) RelationIndex \<Rightarrow> EntityId \<Rightarrow> EntityId list" where
  "callers_of s c = (case reverse_callee_index s c of None \<Rightarrow> [] | Some ks \<Rightarrow> remdups_adj (sort ks))"

definition file_relations_of :: "('p, 'i) RelationIndex \<Rightarrow> string \<Rightarrow> 'p ResolvedRelation list" where
  "file_relations_of s path = (case file_relation_index s path of Some v \<Rightarrow> edges v | None \<Rightarrow> [])"

section \<open>Entity differences\<close>

record removed_meta =
  rm_id :: EntityId
  rm_name :: string
  rm_kind :: EntityKind
  rm_file :: string
  rm_line :: usize

definition removed_entity_meta ::
  "hash_orders \<Rightarrow> ('p, 'i) RelationIndex \<Rightarrow> ('p, 'i) RelationIndex \<Rightarrow> scope \<Rightarrow> removed_meta list" where
  "removed_entity_meta ho new_index old affected =
     List.map_filter (\<lambda>i.
       case function_index old i of
         None \<Rightarrow> None
       | Some entity \<Rightarrow>
           if entity_in_scope old affected i \<and> function_index new_index i = None
           then Some \<lparr>rm_id = i, rm_name = e_name entity, rm_kind = e_kind entity,
                      rm_file = (case entity_file_index old i of Some f \<Rightarrow> f | None \<Rightarrow> []),
                      rm_line = row (start_position (e_span entity))\<rparr>
           else None)
       (ho_ids ho (dom (function_index old)))"

definition added_entity :: "(string \<Rightarrow> string) \<Rightarrow> ('p, 'i) RelationIndex \<Rightarrow> EntityId \<Rightarrow> Entity \<Rightarrow> AddedEntity" where
  "added_entity sha256_hex new_index i entity =
     (case (get_symbol_key_by_entity_id i new_index, entity_file_index new_index i) of
        (Some key, Some path) \<Rightarrow> \<lparr>ae_entity = entity, ae_symbol_key = key, ae_file_path = path\<rparr>
      | (_, path) \<Rightarrow>
          let fallback_path = (case path of Some p \<Rightarrow> p | None \<Rightarrow> [])
          in \<lparr>ae_entity = entity, ae_symbol_key = for_entity sha256_hex fallback_path (e_name entity) entity,
              ae_file_path = fallback_path\<rparr>)"

definition added_candidates ::
  "(string \<Rightarrow> string) \<Rightarrow> hash_orders \<Rightarrow> ('p, 'i) RelationIndex \<Rightarrow> ('p, 'i) RelationIndex \<Rightarrow> scope
     \<Rightarrow> AddedEntity list" where
  "added_candidates sha256_hex ho new_index old affected =
     List.map_filter (\<lambda>i.
       case function_index new_index i of
         None \<Rightarrow> None
       | Some entity \<Rightarrow>
           if entity_in_scope new_index affected i \<and> function_index old i = None
           then Some (added_entity sha256_hex new_index i entity) else None)
       (ho_ids ho (dom (function_index new_index)))"

text \<open>
  Rows are compared as \<^verbatim>\<open>i64\<close>: the difference and its absolute value wrap as in a release build.
\<close>

definition i64_abs :: "usize \<Rightarrow> usize" where
  "i64_abs d = (if sint d < 0 then - d else d)"

definition rename_match :: "removed_meta \<Rightarrow> AddedEntity \<Rightarrow> bool" where
  "rename_match m added =
     (rm_file m = ae_file_path added \<and> rm_kind m = e_kind (ae_entity added)
      \<and> sint (i64_abs (rm_line m - row (start_position (e_span (ae_entity added))))) \<le> 2
      \<and> rm_name m \<noteq> e_name (ae_entity added))"

fun detect_renames ::
  "removed_meta list \<Rightarrow> AddedEntity list \<Rightarrow> nat list \<Rightarrow> renamed list \<Rightarrow> nat list \<times> renamed list" where
  "detect_renames [] added matched pairs = (matched, pairs)"
| "detect_renames (m # ms) added matched pairs =
     (case find (\<lambda>(ai, a). ai \<notin> set matched \<and> rename_match m a) (enumerate 0 added) of
        None \<Rightarrow> detect_renames ms added matched pairs
      | Some (ai, a) \<Rightarrow> detect_renames ms added (matched @ [ai])
          (pairs @ [(rm_id m, e_id (ae_entity a), rm_name m, e_name (ae_entity a))]))"

text \<open>The removed ids, the added entities and the renamed pairs.\<close>

definition compute_entity_diff ::
  "(string \<Rightarrow> string) \<Rightarrow> hash_orders \<Rightarrow> hash_orders \<Rightarrow> ('p, 'i) RelationIndex \<Rightarrow> ('p, 'i) RelationIndex \<Rightarrow> scope
     \<Rightarrow> EntityId list \<times> AddedEntity list \<times> renamed list" where
  "compute_entity_diff sha256_hex ho hn new_index old affected =
     (let meta = removed_entity_meta ho new_index old affected;
          removed = map rm_id meta;
          added = added_candidates sha256_hex hn new_index old affected;
          (matched, pairs) = detect_renames meta added [] [];
          added' = (if matched \<noteq> [] then map snd (filter (\<lambda>(i, _). i \<notin> set matched) (enumerate 0 added)) else added);
          removed' = (if pairs \<noteq> [] then filter (\<lambda>i. i \<notin> fst ` set pairs) removed else removed)
      in (removed', added', pairs))"

section \<open>Edge differences\<close>

type_synonym EdgeContent = "u64 \<times> string option"

definition edge_content :: "'q edge \<Rightarrow> EdgeContent" where
  "edge_content relation = (call_frequency (payload relation), cfg_condition (payload relation))"

definition edge_table :: "'q edge list \<Rightarrow> (RelationEdgeIdentity \<rightharpoonup> EdgeContent)" where
  "edge_table rs = fold (\<lambda>r m. m(relation_identity r \<mapsto> edge_content r)) rs Map.empty"

definition edge_survives :: "(RelationEdgeIdentity \<rightharpoonup> EdgeContent) \<Rightarrow> 'q edge \<Rightarrow> bool" where
  "edge_survives carried relation = (carried (relation_identity relation) = Some (edge_content relation))"

text \<open>The edges of all callers of an index in hash order, limited by a predicate on the caller.\<close>

definition edges_from :: "hash_orders \<Rightarrow> ('p, 'i) RelationIndex \<Rightarrow> (EntityId \<Rightarrow> bool) \<Rightarrow> 'p ResolvedRelation list" where
  "edges_from ho s p =
     concat (map (\<lambda>k. case resolved_relation_index s k of Some es \<Rightarrow> edges es | None \<Rightarrow> [])
       (filter p (ho_ids ho (dom (resolved_relation_index s)))))"

definition unbounded_edges ::
  "hash_orders \<Rightarrow> ('p, 'i) RelationIndex \<Rightarrow> scope \<Rightarrow> EntityId set \<Rightarrow> 'p ResolvedRelation list" where
  "unbounded_edges ho old affected removed_entity_set =
     concat (map (\<lambda>removed_id.
       concat (map (\<lambda>k.
         if entity_in_scope old affected k then []
         else case relations_of old k of
                None \<Rightarrow> []
              | Some relations \<Rightarrow> filter (\<lambda>r. callee_id r = Some removed_id) relations)
       (callers_of old removed_id)))
     (ho_ids ho removed_entity_set))"

definition compute_relation_diff ::
  "hash_orders \<Rightarrow> hash_orders \<Rightarrow> ('q, 'i) rindex \<Rightarrow> ('q, 'i) rindex \<Rightarrow> scope \<Rightarrow> EntityId set
     \<Rightarrow> 'q edge list \<times> 'q edge list \<times> u64" where
  "compute_relation_diff ho hn new_index old affected removed_entity_set =
     (let new_edges = edge_table (edges_from hn new_index (entity_in_scope new_index affected));
          old_edges = edge_table (edges_from ho old (entity_in_scope old affected));
          removed = filter (\<lambda>r. \<not> edge_survives new_edges r)
            (edges_from ho old (\<lambda>k. k \<notin> removed_entity_set \<and> entity_in_scope old affected k));
          unbounded = unbounded_edges hn old affected removed_entity_set;
          added = filter (\<lambda>r. \<not> edge_survives old_edges r)
            (edges_from hn new_index (entity_in_scope new_index affected))
      in (removed @ unbounded, added, of_nat (length unbounded)))"

definition compute_file_relation_diff ::
  "hash_orders \<Rightarrow> ('q, 'i) rindex \<Rightarrow> ('q, 'i) rindex \<Rightarrow> scope \<Rightarrow> 'q FileRelationDiff list" where
  "compute_file_relation_diff hn new_index old affected =
     List.map_filter (\<lambda>path.
       let old_relations = file_relations_of old path;
           new_relations = file_relations_of new_index path;
           removed = filter (\<lambda>r. \<not> edge_survives (edge_table new_relations) r) old_relations;
           added = filter (\<lambda>r. \<not> edge_survives (edge_table old_relations) r) new_relations
       in if removed \<noteq> [] \<or> added \<noteq> []
          then Some \<lparr>frd_file_path = path, frd_removed = removed, frd_added = added\<rparr> else None)
     (filter (in_files affected) (ho_paths hn (dom (file_relation_index old) \<union> dom (file_relation_index new_index))))"

section \<open>Import, export and dependency differences\<close>

definition standardized_imports_of :: "('p, 'i) RelationIndex \<Rightarrow> string \<Rightarrow> 'i list" where
  "standardized_imports_of s path =
     (case get_import_table path s of Some t \<Rightarrow> imt_standardized_imports t | None \<Rightarrow> [])"

definition compute_import_diff ::
  "hash_orders \<Rightarrow> ('p, 'i) RelationIndex \<Rightarrow> ('p, 'i) RelationIndex \<Rightarrow> scope \<Rightarrow> 'i ImportDiff list" where
  "compute_import_diff hn new_index old affected =
     List.map_filter (\<lambda>path.
       let old_imports = standardized_imports_of old path;
           new_imports = standardized_imports_of new_index path;
           removed = filter (\<lambda>i. i \<notin> set new_imports) old_imports;
           added = filter (\<lambda>i. i \<notin> set old_imports) new_imports
       in if removed \<noteq> [] \<or> added \<noteq> []
          then Some \<lparr>imd_file_path = path, imd_removed = removed, imd_added = added\<rparr> else None)
     (filter (in_files affected) (ho_paths hn (dom (file_records old) \<union> dom (file_records new_index))))"

text \<open>The debug form of the variant in lower case.\<close>

fun export_type_name :: "ExportType \<Rightarrow> string" where
  "export_type_name ExNamed = ''named''"
| "export_type_name ExDefault = ''default''"
| "export_type_name ExWildcard = ''wildcard''"

definition canonical_export ::
  "(string \<Rightarrow> string) \<Rightarrow> ('p, 'i) RelationIndex \<Rightarrow> string \<Rightarrow> ExportInfo \<Rightarrow> CanonicalExport" where
  "canonical_export sha256_hex s file_path e =
     \<lparr>cx_symbol = (case get_symbol_key_by_entity_id (ex_function_id e) s of
          Some key \<Rightarrow> key
        | None \<Rightarrow> StableSymbolKey_new sha256_hex file_path (ex_function_name e) KFunction (ex_function_name e)),
      cx_export_type = export_type_name (ex_export_type e)\<rparr>"

definition exports_in :: "('p, 'i) RelationIndex \<Rightarrow> string \<Rightarrow> ExportInfo list" where
  "exports_in s path = (case get_exports path s of Some es \<Rightarrow> es | None \<Rightarrow> [])"

definition compute_export_diff ::
  "(string \<Rightarrow> string) \<Rightarrow> hash_orders \<Rightarrow> ('p, 'i) RelationIndex \<Rightarrow> ('p, 'i) RelationIndex \<Rightarrow> scope \<Rightarrow> ExportDiff list" where
  "compute_export_diff sha256_hex hn new_index old affected =
     List.map_filter (\<lambda>path.
       let old_exports = exports_in old path;
           new_exports = exports_in new_index path;
           removed = map (canonical_export sha256_hex old path)
             (filter (\<lambda>e. ex_function_name e \<notin> ex_function_name ` set new_exports) old_exports);
           added = map (canonical_export sha256_hex new_index path)
             (filter (\<lambda>e. ex_function_name e \<notin> ex_function_name ` set old_exports) new_exports)
       in if removed \<noteq> [] \<or> added \<noteq> []
          then Some \<lparr>exd_file_path = path, exd_removed = removed, exd_added = added\<rparr> else None)
     (filter (in_files affected) (ho_paths hn (dom (file_records old) \<union> dom (file_records new_index))))"

definition compute_dependency_diff ::
  "hash_orders \<Rightarrow> hash_orders \<Rightarrow> ('p, 'i) RelationIndex \<Rightarrow> ('p, 'i) RelationIndex \<Rightarrow> scope \<Rightarrow> DependencyDiff list" where
  "compute_dependency_diff ho hn new_index old affected =
     List.map_filter (\<lambda>source_file.
       let old_deps = get_dependencies (ho_paths ho) (dependency_graph old) source_file;
           new_deps = get_dependencies (ho_paths hn) (dependency_graph new_index) source_file;
           removed = filter (\<lambda>d. d \<notin> set new_deps) old_deps;
           added = filter (\<lambda>d. d \<notin> set old_deps) new_deps
       in if removed \<noteq> [] \<or> added \<noteq> []
          then Some \<lparr>dpd_source_file = source_file, dpd_removed = removed, dpd_added = added\<rparr> else None)
     (filter (in_files affected)
       (ho_paths hn (set (get_all_files (ho_paths ho) (dependency_graph old))
                     \<union> set (get_all_files (ho_paths hn) (dependency_graph new_index)))))"

section \<open>Computing the delta\<close>

definition removed_paths :: "hash_orders \<Rightarrow> ('p, 'i) RelationIndex \<Rightarrow> ('p, 'i) RelationIndex \<Rightarrow> scope \<Rightarrow> string list" where
  "removed_paths ho new_index old affected =
     filter (\<lambda>path. in_files affected path \<and> file_records new_index path = None) (ho_paths ho (dom (file_records old)))"

definition added_infos :: "hash_orders \<Rightarrow> ('p, 'i) RelationIndex \<Rightarrow> ('p, 'i) RelationIndex \<Rightarrow> scope \<Rightarrow> FileInfo list" where
  "added_infos hn new_index old affected =
     map (\<lambda>path. fr_info (the (file_records new_index path)))
       (filter (\<lambda>path. in_files affected path \<and> file_records old path = None) (ho_paths hn (dom (file_records new_index))))"

definition empty_delta :: "int \<Rightarrow> int \<Rightarrow> string \<Rightarrow> ('q, 'i) SnapshotDelta" where
  "empty_delta epoch base_epoch config_fingerprint =
     \<lparr>sd_epoch = epoch, sd_base_epoch = base_epoch, sd_config_fingerprint = config_fingerprint,
      removed_files = [], added_files = [], removed_entities = [], added_entities = [],
      removed_relations = [], added_relations = [], file_relation_diffs = [], import_diffs = [],
      export_diffs = [], dependency_diffs = [], relation_edges_dropped_unbounded = 0, renamed_entities = []\<rparr>"

definition compute_delta ::
  "(string \<Rightarrow> string) \<Rightarrow> hash_orders \<Rightarrow> hash_orders \<Rightarrow> ('q, 'i) rindex \<Rightarrow> ('q, 'i) rindex \<Rightarrow> int \<Rightarrow> int \<Rightarrow> string
     \<Rightarrow> scope \<Rightarrow> ('q, 'i) SnapshotDelta" where
  "compute_delta sha256_hex ho hn new_index old epoch base_epoch config_fingerprint affected =
     (if affected = Some {} then empty_delta epoch base_epoch config_fingerprint
      else let (removed, added, pairs) = compute_entity_diff sha256_hex ho hn new_index old affected;
               (removed_rels, added_rels, dropped) = compute_relation_diff ho hn new_index old affected (set removed)
           in \<lparr>sd_epoch = epoch, sd_base_epoch = base_epoch, sd_config_fingerprint = config_fingerprint,
               removed_files = removed_paths ho new_index old affected,
               added_files = added_infos hn new_index old affected,
               removed_entities = removed, added_entities = added,
               removed_relations = removed_rels, added_relations = added_rels,
               file_relation_diffs = compute_file_relation_diff hn new_index old affected,
               import_diffs = compute_import_diff hn new_index old affected,
               export_diffs = compute_export_diff sha256_hex hn new_index old affected,
               dependency_diffs = compute_dependency_diff ho hn new_index old affected,
               relation_edges_dropped_unbounded = dropped, renamed_entities = pairs\<rparr>)"

section \<open>Replaying files and entities\<close>

definition apply_removed_file ::
  "string iter \<Rightarrow> string \<Rightarrow> ('p, 'i) RelationIndex \<Rightarrow> ('p, 'i) RelationIndex" where
  "apply_removed_file fit path s =
     (let s1 = s\<lparr>file_records := (file_records s)(path := None),
                 dependency_graph := dg_remove_file fit path (dependency_graph s)\<rparr>;
          s2 = snd (take_file_relations path s1)
      in s2\<lparr>entity_id_remaps := (entity_id_remaps s2)(path := None),
            file_symbol_keys := (file_symbol_keys s2)(path := None),
            file_entities_by_start := (file_entities_by_start s2)(path := None)\<rparr>)"

definition apply_added_file :: "FileInfo \<Rightarrow> ('p, 'i) RelationIndex \<Rightarrow> ('p, 'i) RelationIndex" where
  "apply_added_file file_info s =
     s\<lparr>file_records := map_entry FileRecord_default (fi_path file_info) (\<lambda>r. r\<lparr>fr_info := file_info\<rparr>) (file_records s)\<rparr>"

definition forget_symbol_key :: "(string \<Rightarrow> string) \<Rightarrow> EntityId \<Rightarrow> ('p, 'i) RelationIndex \<Rightarrow> ('p, 'i) RelationIndex" where
  "forget_symbol_key sha256_hex entity_id s =
     (case entity_to_symbol_key s entity_id of
        None \<Rightarrow> s
      | Some key \<Rightarrow>
          s\<lparr>entity_to_symbol_key := (entity_to_symbol_key s)(entity_id := None),
            symbol_key_to_entity := (symbol_key_to_entity s)(key := None),
            stable_id_to_entity := (stable_id_to_entity s)(stable_id sha256_hex key := None),
            file_symbol_keys := bucket_remove (sk_file_path key) key (file_symbol_keys s)\<rparr>)"

definition forget_relations :: "EntityId iter \<Rightarrow> EntityId \<Rightarrow> ('p, 'i) RelationIndex \<Rightarrow> ('p, 'i) RelationIndex" where
  "forget_relations it entity_id s =
     (let callee_ids = callee_ids_of entity_id s;
          s1 = s\<lparr>resolved_relation_index := (resolved_relation_index s)(entity_id := None)\<rparr>;
          s2 = fold (\<lambda>c s. drop_embedded_caller c entity_id (untrack_reverse_caller c entity_id s)) callee_ids s1;
          s3 = s2\<lparr>reverse_callee_index := (reverse_callee_index s2)(entity_id := None)\<rparr>;
          keys = filter (\<lambda>k. entity_id \<in> set (callers (the (resolved_relation_index s3 k))))
                   (it (dom (resolved_relation_index s3)));
          s4 = fold (\<lambda>c s. drop_embedded_caller c entity_id (untrack_reverse_caller c entity_id s)) keys s3;
          reverse_keys = filter (\<lambda>c. entity_id \<in> set (the (reverse_callee_index s4 c)))
                   (it (dom (reverse_callee_index s4)))
      in fold (\<lambda>c. untrack_reverse_caller c entity_id) reverse_keys s4)"

definition apply_removed_entity ::
  "(string \<Rightarrow> string) \<Rightarrow> EntityId iter \<Rightarrow> EntityId \<Rightarrow> ('p, 'i) RelationIndex \<Rightarrow> ('p, 'i) RelationIndex" where
  "apply_removed_entity sha256_hex it entity_id s =
     (let s1 = snd (remove_function entity_id s);
          s2 = s1\<lparr>entity_file_index := (entity_file_index s1)(entity_id := None)\<rparr>
      in forget_relations it entity_id (forget_symbol_key sha256_hex entity_id s2))"

definition apply_removed_entities ::
  "(string \<Rightarrow> string) \<Rightarrow> EntityId iter \<Rightarrow> EntityId list \<Rightarrow> ('p, 'i) RelationIndex \<Rightarrow> ('p, 'i) RelationIndex" where
  "apply_removed_entities sha256_hex it removed s = fold (apply_removed_entity sha256_hex it) removed s"

definition migrate_edges ::
  "EntityId \<Rightarrow> EntityId \<Rightarrow> string \<Rightarrow> 'p RelationEdgeSet \<Rightarrow> 'p RelationEdgeSet" where
  "migrate_edges old_id new_id new_name relations =
     fold (\<lambda>old_edge rels.
         fst (es_insert (old_edge\<lparr>callee_id := Some new_id, callee_name := new_name\<rparr>)
               (fst (remove_by_identity (relation_identity old_edge) rels))))
       (filter (\<lambda>r. callee_id r = Some old_id) (edges relations)) relations"

definition rename_relations ::
  "EntityId \<Rightarrow> EntityId \<Rightarrow> string \<Rightarrow> ('p, 'i) RelationIndex \<Rightarrow> ('p, 'i) RelationIndex" where
  "rename_relations old_id new_id new_name s =
     (let caller_ids = (case resolved_relation_index s old_id of Some entry \<Rightarrow> callers entry | None \<Rightarrow> []);
          s1 = fold (\<lambda>k s. case resolved_relation_index s k of
                 None \<Rightarrow> s
               | Some relations \<Rightarrow>
                   s\<lparr>resolved_relation_index := (resolved_relation_index s)(k \<mapsto> migrate_edges old_id new_id new_name relations)\<rparr>)
               caller_ids s;
          s2 = s1\<lparr>resolved_relation_index := (resolved_relation_index s1)(old_id := None)\<rparr>
      in case resolved_relation_index s2 new_id of
           None \<Rightarrow> s2
         | Some new_entry \<Rightarrow>
             s2\<lparr>resolved_relation_index := (resolved_relation_index s2)(new_id \<mapsto>
               fold add_caller (map caller (filter (\<lambda>r. callee_id r = Some new_id) (edges new_entry)))
                 (new_entry\<lparr>callers := []\<rparr>))\<rparr>)"

definition rename_symbol ::
  "(string \<Rightarrow> string) \<Rightarrow> EntityId \<Rightarrow> EntityId \<Rightarrow> string \<Rightarrow> ('p, 'i) RelationIndex \<Rightarrow> ('p, 'i) RelationIndex" where
  "rename_symbol sha256_hex old_id new_id new_name s =
     (case entity_to_symbol_key s old_id of
        None \<Rightarrow> s
      | Some key \<Rightarrow>
          let new_key = key\<lparr>sk_scoped_name := new_name, sk_file_path := normalize_project_path (sk_file_path key)\<rparr>
          in s\<lparr>entity_to_symbol_key := (entity_to_symbol_key s)(old_id := None, new_id \<mapsto> new_key),
               symbol_key_to_entity := (symbol_key_to_entity s)(key := None, new_key \<mapsto> new_id),
               stable_id_to_entity := (stable_id_to_entity s)(stable_id sha256_hex key := None,
                 stable_id sha256_hex new_key \<mapsto> new_id)\<rparr>)"

definition apply_renamed_entity ::
  "(string \<Rightarrow> string) \<Rightarrow> renamed \<Rightarrow> ('p, 'i) RelationIndex \<Rightarrow> ('p, 'i) RelationIndex" where
  "apply_renamed_entity sha256_hex pair s =
     (case pair of (old_id, new_id, _, new_name) \<Rightarrow>
        let s1 = rename_relations old_id new_id new_name s;
            s2 = (case function_index s1 old_id of
                    None \<Rightarrow> s1
                  | Some entity \<Rightarrow> s1\<lparr>function_index := (function_index s1)(old_id := None, new_id \<mapsto> entity)\<rparr>);
            s3 = (case entity_file_index s2 old_id of
                    None \<Rightarrow> s2
                  | Some file_path \<Rightarrow> s2\<lparr>entity_file_index := (entity_file_index s2)(old_id := None, new_id \<mapsto> file_path)\<rparr>)
        in rename_symbol sha256_hex old_id new_id new_name s3)"

definition apply_renamed_entities ::
  "(string \<Rightarrow> string) \<Rightarrow> EntityId iter \<Rightarrow> renamed list \<Rightarrow> ('p, 'i) RelationIndex \<Rightarrow> ('p, 'i) RelationIndex" where
  "apply_renamed_entities sha256_hex it renamed s =
     (let s' = fold (apply_renamed_entity sha256_hex) renamed s
      in if renamed \<noteq> [] then rebuild_reverse_callee_index it s' else s')"

definition apply_added_entity ::
  "(string \<Rightarrow> string) \<Rightarrow> AddedEntity \<Rightarrow> ('p, 'i) RelationIndex \<Rightarrow> ('p, 'i) RelationIndex" where
  "apply_added_entity sha256_hex added s =
     (let entity = ae_entity added;
          s1 = insert_function (e_id entity) entity s;
          s2 = s1\<lparr>entity_file_index := (entity_file_index s1)(e_id entity \<mapsto> ae_file_path added)\<rparr>;
          s3 = snd (register_symbol_key sha256_hex (sk_file_path (ae_symbol_key added))
                 (sk_scoped_name (ae_symbol_key added)) entity (e_id entity) s2)
      in track_file_entity (ae_file_path added) (ucast (row (start_position (e_span entity)))) (e_id entity) s3)"

definition apply_added_entities ::
  "(string \<Rightarrow> string) \<Rightarrow> AddedEntity list \<Rightarrow> ('p, 'i) RelationIndex \<Rightarrow> ('p, 'i) RelationIndex" where
  "apply_added_entities sha256_hex added s = fold (apply_added_entity sha256_hex) added s"

section \<open>Replaying edges\<close>

text \<open>
  While the entry of the callee is held mutably the code reads the entry of the caller from the
  same map.
\<close>

definition apply_removed_relation ::
  "(EntityId \<Rightarrow> nat) \<Rightarrow> 'p ResolvedRelation \<Rightarrow> ('p, 'i) RelationIndex \<Rightarrow> ('p, 'i) RelationIndex option" where
  "apply_removed_relation shard relation s =
     (let k = caller relation;
          s1 = (case resolved_relation_index s k of
                  None \<Rightarrow> s
                | Some relations \<Rightarrow>
                    let relations' = fst (remove_by_identity (relation_identity relation) relations)
                    in s\<lparr>resolved_relation_index := (resolved_relation_index s)
                          (k := if es_is_empty relations' then None else Some relations')\<rparr>)
      in case callee_id relation of
           None \<Rightarrow> Some s1
         | Some c \<Rightarrow>
             let s2 = maybe_untrack_reverse_caller c k s1
             in case resolved_relation_index s2 c of
                  None \<Rightarrow> Some s2
                | Some callee_entry \<Rightarrow>
                    if shard k = shard c then None
                    else if still_calls k c s2 then Some s2
                    else Some (drop_embedded_caller c k s2))"

fun apply_removed_relations ::
  "(EntityId \<Rightarrow> nat) \<Rightarrow> 'p ResolvedRelation list \<Rightarrow> ('p, 'i) RelationIndex \<Rightarrow> ('p, 'i) RelationIndex option" where
  "apply_removed_relations shard [] s = Some s"
| "apply_removed_relations shard (r # rs) s =
     (case apply_removed_relation shard r s of None \<Rightarrow> None | Some s' \<Rightarrow> apply_removed_relations shard rs s')"

definition apply_added_relations :: "'p ResolvedRelation list \<Rightarrow> ('p, 'i) RelationIndex \<Rightarrow> ('p, 'i) RelationIndex" where
  "apply_added_relations added s = fold add_resolved_relation added s"

definition touch_callee :: "'p ResolvedRelation \<Rightarrow> EntityId list \<Rightarrow> EntityId list" where
  "touch_callee relation touched =
     (case callee_id relation of
        Some c \<Rightarrow> if c \<in> set touched then touched else touched @ [c]
      | None \<Rightarrow> touched)"

definition retrack_file_caller :: "string \<Rightarrow> EntityId \<Rightarrow> ('p, 'i) RelationIndex \<Rightarrow> ('p, 'i) RelationIndex" where
  "retrack_file_caller file_path c s =
     (let s1 = untrack_file_caller (Some c) file_path s
      in if (case file_relation_index s1 file_path of
               Some es \<Rightarrow> list_ex (\<lambda>r. callee_id r = Some c) (edges es) | None \<Rightarrow> False)
         then track_file_caller (Some c) file_path s1 else s1)"

definition apply_file_relation_diff :: "'q FileRelationDiff \<Rightarrow> ('q, 'i) rindex \<Rightarrow> ('q, 'i) rindex" where
  "apply_file_relation_diff diff s =
     (let es = (case file_relation_index s (frd_file_path diff) of Some es \<Rightarrow> es | None \<Rightarrow> es_empty);
          es1 = fold (\<lambda>r es. fst (remove_by_identity (relation_identity r) es)) (frd_removed diff) es;
          es2 = fold (\<lambda>r es. fst (es_insert r es)) (frd_added diff) es1;
          touched = fold touch_callee (frd_removed diff @ frd_added diff) [];
          s1 = s\<lparr>file_relation_index := (file_relation_index s)
                  (frd_file_path diff := if es_is_empty es2 then None else Some es2)\<rparr>
      in fold (retrack_file_caller (frd_file_path diff)) touched s1)"

definition apply_file_relation_diffs :: "'q FileRelationDiff list \<Rightarrow> ('q, 'i) rindex \<Rightarrow> ('q, 'i) rindex" where
  "apply_file_relation_diffs diffs s = fold apply_file_relation_diff diffs s"

section \<open>Replaying imports, exports and dependencies\<close>

definition apply_import_diff :: "'i ImportDiff \<Rightarrow> ('p, 'i) RelationIndex \<Rightarrow> ('p, 'i) RelationIndex" where
  "apply_import_diff diff s =
     (case file_records s (imd_file_path diff) of
        None \<Rightarrow> s
      | Some record \<Rightarrow>
          let kept = filter (\<lambda>i. i \<notin> set (imd_removed diff)) (imt_standardized_imports (fr_imports record));
              all = fold (\<lambda>i is. if i \<in> set is then is else is @ [i]) (imd_added diff) kept
          in s\<lparr>file_records := (file_records s)(imd_file_path diff \<mapsto>
                record\<lparr>fr_imports := (fr_imports record)\<lparr>imt_standardized_imports := all\<rparr>\<rparr>)\<rparr>)"

definition export_type_of :: "string \<Rightarrow> ExportType" where
  "export_type_of name = (if name = ''default'' then ExDefault else if name = ''wildcard'' then ExWildcard else ExNamed)"

text \<open>The exports and the counter of unresolved ones, for one exported symbol of the diff.\<close>

definition add_diff_export ::
  "('p, 'i) RelationIndex \<Rightarrow> string set \<Rightarrow> CanonicalExport \<Rightarrow> ExportInfo list \<times> u64 \<Rightarrow> ExportInfo list \<times> u64" where
  "add_diff_export s existing e acc =
     (case acc of (exports, unresolved) \<Rightarrow>
        if sk_scoped_name (cx_symbol e) \<in> existing then (exports, unresolved)
        else case get_entity_id_by_symbol_key (cx_symbol e) s of
               None \<Rightarrow> (exports, unresolved + 1)
             | Some entity_id \<Rightarrow>
                 (exports @ [\<lparr>ex_function_id = entity_id, ex_function_name = sk_scoped_name (cx_symbol e),
                              ex_export_type = export_type_of (cx_export_type e)\<rparr>], unresolved))"

definition apply_export_diff :: "ExportDiff \<Rightarrow> ('p, 'i) RelationIndex \<Rightarrow> ('p, 'i) RelationIndex" where
  "apply_export_diff diff s =
     (case file_records s (exd_file_path diff) of
        None \<Rightarrow> s
      | Some record \<Rightarrow>
          let removed = (\<lambda>e. sk_scoped_name (cx_symbol e)) ` set (exd_removed diff);
              kept = filter (\<lambda>e. ex_function_name e \<notin> removed) (fr_exports record);
              existing = ex_function_name ` set kept;
              (exports, unresolved) = fold (add_diff_export s existing) (exd_added diff)
                (kept, delta_export_unresolved_count (diagnostics s))
          in s\<lparr>file_records := (file_records s)(exd_file_path diff \<mapsto> record\<lparr>fr_exports := exports\<rparr>),
               diagnostics := (diagnostics s)\<lparr>delta_export_unresolved_count := unresolved\<rparr>\<rparr>)"

definition apply_dependency_diff :: "DependencyDiff \<Rightarrow> ('p, 'i) RelationIndex \<Rightarrow> ('p, 'i) RelationIndex" where
  "apply_dependency_diff diff s =
     s\<lparr>dependency_graph := fold (add_dependency (dpd_source_file diff)) (dpd_added diff)
         (fold (remove_dependency (dpd_source_file diff)) (dpd_removed diff) (dependency_graph s))\<rparr>"

section \<open>Replaying the delta\<close>

definition apply_delta ::
  "(string \<Rightarrow> string) \<Rightarrow> hash_orders \<Rightarrow> (EntityId \<Rightarrow> nat) \<Rightarrow> ('q, 'i) SnapshotDelta \<Rightarrow> ('q, 'i) rindex
     \<Rightarrow> ('q, 'i) rindex option" where
  "apply_delta sha256_hex ho shard delta s =
     (let s1 = fold (apply_removed_file (ho_paths ho)) (removed_files delta) s;
          s2 = fold apply_added_file (added_files delta) s1;
          s3 = apply_removed_entities sha256_hex (ho_ids ho) (removed_entities delta) s2;
          s4 = apply_renamed_entities sha256_hex (ho_ids ho) (renamed_entities delta) s3;
          s5 = apply_added_entities sha256_hex (added_entities delta) s4
      in case apply_removed_relations shard (removed_relations delta) s5 of
           None \<Rightarrow> None
         | Some s6 \<Rightarrow>
             let s7 = apply_added_relations (added_relations delta) s6;
                 s8 = apply_file_relation_diffs (file_relation_diffs delta) s7;
                 s9 = fold apply_import_diff (import_diffs delta) s8;
                 s10 = fold apply_export_diff (export_diffs delta) s9
             in Some (fold apply_dependency_diff (dependency_diffs delta) s10))"

end
