(* ===== verification/Snapshot_Closure.thy ===== *)
theory Snapshot_Closure
  imports Snapshot_Index Relation_Delta Dependency_Cycles
begin

text \<open>
  What a published snapshot answers: the precomputed edges are those of the index, and the
  precomputed file dependencies lie between the files reached in so many steps and the closure of
  the links.
\<close>

section \<open>The precomputed edges agree with the index\<close>

definition bucket_set :: "('k \<rightharpoonup> 'v list) \<Rightarrow> 'k \<Rightarrow> 'v set" where
  "bucket_set m k = set (bucket m k)"

lemma push_caller_bucket:
  assumes "\<forall>c. m c \<noteq> Some []"
  shows "bucket_set (fold (push_caller k) rs m) c = bucket_set m c \<union> {k' . k' = k \<and> (\<exists>r \<in> set rs. callee_id r = Some c)}"
    "\<forall>c. fold (push_caller k) rs m c \<noteq> Some []"
proof -
  have "bucket_set (fold (push_caller k) rs m) c = bucket_set m c \<union> {k' . k' = k \<and> (\<exists>r \<in> set rs. callee_id r = Some c)}
      \<and> (\<forall>c. fold (push_caller k) rs m c \<noteq> Some [])" using assms
  proof (induction rs arbitrary: m)
    case (Cons r rs)
    have step: "\<forall>c. push_caller k r m c \<noteq> Some []" using Cons.prems by (auto simp: push_caller_def split: option.splits)
    have b: "bucket_set (push_caller k r m) c = bucket_set m c \<union> {k' . k' = k \<and> callee_id r = Some c}" for c
      by (auto simp: push_caller_def bucket_set_def bucket_def split: option.splits)
    from Cons.IH [OF step] show ?case by (auto simp: b)
  qed simp
  then show "bucket_set (fold (push_caller k) rs m) c = bucket_set m c \<union> {k' . k' = k \<and> (\<exists>r \<in> set rs. callee_id r = Some c)}"
    "\<forall>c. fold (push_caller k) rs m c \<noteq> Some []" by simp_all
qed

lemma push_callers_bucket:
  assumes "\<forall>c. m c \<noteq> Some []"
  shows "bucket_set (fold (\<lambda>k. fold (push_caller k) (g k)) ks m) c = bucket_set m c \<union> {k \<in> set ks. \<exists>r \<in> set (g k). callee_id r = Some c}
    \<and> (\<forall>c. fold (\<lambda>k. fold (push_caller k) (g k)) ks m c \<noteq> Some [])"
  using assms
proof (induction ks arbitrary: m)
  case (Cons k ks)
  from Cons.IH [OF push_caller_bucket(2) [OF Cons.prems, of k "g k"]] show ?case
    by (auto simp: push_caller_bucket(1) [OF Cons.prems])
qed simp

lemma remdups_sort: "remdups_adj (sort ks) = sorted_list_of_set (set (ks :: 'a::linorder list))"
proof -
  have distinct_remdups_adj_sorted: "distinct (remdups_adj xs)" if "sorted xs" for xs :: "'a list"
    using that by (induction xs rule: remdups_adj.induct) (auto simp: antisym)
  have "sorted (remdups_adj (sort ks))" "distinct (remdups_adj (sort ks))"
    by (simp_all add: sorted_remdups_adj distinct_remdups_adj_sorted)
  then show ?thesis
    using sorted_list_of_set.idem_if_sorted_distinct [of "remdups_adj (sort ks)"] by simp
qed

lemma optimized_callers:
  assumes "graph_ok s" "rev_rel s = fwd_rel s" "iter_ok it"
  shows "get_callers c (from_resolved_map it (resolved_relation_index s)) = reverse_callee_index s c"
proof -
  let ?R = "resolved_relation_index s"
  let ?m = "fold (\<lambda>k. fold (push_caller k) (edges (the (?R k)))) (it (dom ?R)) Map.empty"
  have fin: "finite (dom ?R)" and rw: "rev_wf s" using assms(1) by (simp_all add: graph_ok_def)
  have dom: "set (it (dom ?R)) = dom ?R" using fin assms(3) by simp
  have B: "bucket_set ?m c = {k \<in> dom ?R. \<exists>r \<in> set (edges (the (?R k))). callee_id r = Some c} \<and> (\<forall>c. ?m c \<noteq> Some [])"
    using push_callers_bucket [of Map.empty "\<lambda>k. edges (the (?R k))" "it (dom ?R)" c] dom
    by (simp add: bucket_set_def bucket_def)
  have "{k \<in> dom ?R. \<exists>r \<in> set (edges (the (?R k))). callee_id r = Some c} = {k. (k, c) \<in> fwd_rel s}"
  proof (rule set_eqI, goal_cases)
    case (1 k)
    show ?case by (cases "?R k") (auto simp: fwd_rel_def fwd_edges_def)
  qed
  also have "\<dots> = set (rev_callers s c)" using assms(2) by (auto simp: rev_rel_def)
  finally have S: "bucket_set ?m c = set (rev_callers s c)" using B by simp
  show ?thesis
  proof (cases "reverse_callee_index s c")
    case None
    then have "rev_callers s c = []" by (simp add: rev_callers_def)
    with S B have "?m c = None" by (auto simp: bucket_set_def bucket_def split: option.splits)
    with None show ?thesis by (simp add: get_callers_def from_resolved_map_def Let_def)
  next
    case (Some ks)
    then have r: "rev_callers s c = ks" "ks \<noteq> []" using rw by (auto simp: rev_callers_def rev_wf_def)
    have "?m c = None \<Longrightarrow> bucket_set ?m c = {}" by (simp add: bucket_set_def bucket_def)
    with S r have "?m c \<noteq> None" by fastforce
    then obtain ks' where m: "?m c = Some ks'" by blast
    then have ks': "?m c = Some ks'" "set ks' = set ks" using S r by (simp_all add: bucket_set_def bucket_def)
    have "ks = sorted_list_of_set (set ks)"
      using rev_callers_sorted [OF rw, of c] r sorted_list_of_set.idem_if_sorted_distinct [of ks] by (simp add: strict_sorted_iff)
    with ks' Some show ?thesis by (simp add: get_callers_def from_resolved_map_def Let_def remdups_sort)
  qed
qed

lemma snapshot_relations:
  "get_resolved_relations_by_caller_s k (from_index_shared ho s) = map_option edges (resolved_relation_index s k)"
  by (simp add: get_resolved_relations_by_caller_s_def from_index_shared_def get_callees_def from_resolved_map_def Let_def split: option.split)

text \<open>
  C8: A published snapshot answers like the index it was made from. For an index whose reverse
  entries mirror its edges, and for every hash order, the queries over the precomputed edges return
  the lists of the index, in its order and with its bound: the relations of a caller, the callers of a
  callee, the edges into an entity, also by type, and the checked forms with their errors.
\<close>

theorem snapshot_queries_agree:
  assumes "graph_ok s" "rev_rel s = fwd_rel s" "orders_ok ho"
  defines "snap \<equiv> from_index_shared ho s"
  shows "get_resolved_relations_by_caller_s k snap = relations_of s k
    \<and> get_resolved_relations_by_caller_checked_s k snap = get_resolved_relations_by_caller_checked k s
    \<and> get_callers_by_callee_entity_s c snap = get_callers_by_callee_entity c s
    \<and> get_callers_by_callee_entity_checked_s c snap = get_callers_by_callee_entity_checked c s
    \<and> get_relations_to_entity_s c snap = get_relations_to_entity c s
    \<and> get_callers_by_callee_and_type_s c t snap = get_callers_by_callee_and_type c t s
    \<and> callers_of_s c snap = callers_of s c"
proof -
  have it: "iter_ok (ho_ids ho)" using assms(3) by (simp add: orders_ok_def)
  have idx: "snap_index snap = s" "query_optimized snap = from_resolved_map (ho_ids ho) (resolved_relation_index s)"
    by (simp_all add: snap_def from_index_shared_def)
  note callers = optimized_callers [OF assms(1,2) it]
  have R: "get_resolved_relations_by_caller_s k snap = relations_of s k" for k
    by (simp add: snap_def snapshot_relations relations_of_def)
  have C: "get_callers_by_callee_entity_s c snap = get_callers_by_callee_entity c s" for c
    by (simp add: get_callers_by_callee_entity_s_def idx callers get_callers_by_callee_entity_def limited_callers_def split: option.split)
  have E: "get_relations_to_entity_s c snap = get_relations_to_entity c s"
    unfolding get_relations_to_entity_s_def get_relations_to_entity_def C R
    by (intro arg_cong [where f = concat] map_cong) (auto simp: get_callers_by_callee_entity_def relations_of_def split: option.splits)
  have V: "callers_of_s c snap = callers_of s c"
  proof (cases "reverse_callee_index s c")
    case (Some ks)
    have "sorted_wrt (<) ks" using Some assms(1) by (auto simp: graph_ok_def rev_wf_def)
    then have "remdups_adj (sort ks) = ks" by (simp add: strict_sorted_iff sorted_sort_id remdups_adj_distinct)
    with Some show ?thesis by (simp add: callers_of_s_def callers_of_def idx)
  qed (simp add: callers_of_s_def callers_of_def idx callers)
  show ?thesis
    by (simp add: R C E V idx get_resolved_relations_by_caller_checked_s_def get_resolved_relations_by_caller_checked_def
        get_callers_by_callee_entity_checked_s_def get_callers_by_callee_entity_checked_def relations_of_def
        get_callers_by_callee_and_type_s_def get_callers_by_callee_and_type_def
        get_relations_to_entity_by_type_s_def get_relations_to_entity_by_type_def split: option.split)
qed

section \<open>The closure of the file links\<close>

definition map_rel :: "(string \<rightharpoonup> string set) \<Rightarrow> (string \<times> string) set" where
  "map_rel m = {(f, g). g \<in> nbrs m f}"

definition sets_ok :: "(string \<rightharpoonup> string set) \<Rightarrow> bool" where
  "sets_ok m \<longleftrightarrow> finite (dom m) \<and> (\<forall>f. finite (nbrs m f) \<and> f \<notin> nbrs m f)"

lemma nbrs_upd [simp]: "nbrs (m(f \<mapsto> S)) = (nbrs m)(f := S)"
  by (simp add: nbrs_def fun_eq_iff)

lemma case_nbrs: "(case m f of Some S \<Rightarrow> S | None \<Rightarrow> {}) = nbrs m f" "(case m f of None \<Rightarrow> {} | Some S \<Rightarrow> S) = nbrs m f"
  by (simp_all add: nbrs_def split: option.split)

text \<open>One key: it learns what its neighbours reach, and the flag tells whether the relation grew.\<close>

lemma propagate_key_spec:
  assumes ok: "sets_ok m" and key: "key \<in> dom m" and step: "propagate_key key (m, c) = (m', c')"
  shows "map_rel m' = map_rel m \<union> {(key, x) |x d. x \<noteq> key \<and> (key, d) \<in> map_rel m \<and> (d, x) \<in> map_rel m}"
    "sets_ok m'" "dom m' = dom m" "c' \<longleftrightarrow> c \<or> map_rel m' \<noteq> map_rel m" "\<not> c' \<Longrightarrow> m' = m"
proof -
  let ?cur = "nbrs m key"
  let ?new = "(?cur \<union> (\<Union>d \<in> ?cur. nbrs m d)) - {key}"
  have fin: "finite ?cur" "finite ?new" and irr: "key \<notin> ?cur" using ok by (simp_all add: sets_ok_def)
  have sub: "?cur \<subseteq> ?new" using irr by auto
  have eq: "(m', c') = (if card ?new > card ?cur then (m(key \<mapsto> ?new), True) else (m, c))"
    using step by (simp add: propagate_key_def case_nbrs Let_def)
  have "\<not> card ?new > card ?cur \<Longrightarrow> ?new = ?cur"
    using card_subset_eq [OF fin(2) sub] card_mono [OF fin(2) sub] by simp
  moreover have "card ?new > card ?cur \<Longrightarrow> ?new \<noteq> ?cur" by (metis order_less_irrefl)
  ultimately have grow: "card ?new > card ?cur \<longleftrightarrow> ?new \<noteq> ?cur" by blast
  have R: "map_rel (m(key \<mapsto> ?new)) = map_rel m \<union> {(key, x) |x d. x \<noteq> key \<and> (key, d) \<in> map_rel m \<and> (d, x) \<in> map_rel m}"
  proof -
    have "(f, g) \<in> map_rel (m(key \<mapsto> ?new)) \<longleftrightarrow>
        (f, g) \<in> map_rel m \<or> f = key \<and> g \<noteq> key \<and> (\<exists>d. (key, d) \<in> map_rel m \<and> (d, g) \<in> map_rel m)" for f g
      using irr by (cases "f = key"; cases "g = key") (simp_all add: map_rel_def Bex_def)
    then show ?thesis by (simp add: set_eq_iff split_paired_all)
  qed
  have differ: "map_rel (m(key \<mapsto> ?new)) \<noteq> map_rel m" if "?new \<noteq> ?cur"
  proof
    assume "map_rel (m(key \<mapsto> ?new)) = map_rel m"
    moreover have "nbrs n key = map_rel n `` {key}" for n by (auto simp: map_rel_def)
    ultimately have "nbrs (m(key \<mapsto> ?new)) key = nbrs m key" by metis
    with that show False by (simp only: nbrs_upd fun_upd_same)
  qed
  have same: "map_rel (m(key \<mapsto> ?new)) = map_rel m" if "?new = ?cur"
    using that by (simp add: map_rel_def fun_upd_idem)
  show "map_rel m' = map_rel m \<union> {(key, x) |x d. x \<noteq> key \<and> (key, d) \<in> map_rel m \<and> (d, x) \<in> map_rel m}"
    using eq R same grow by (cases "?new = ?cur") simp_all
  show "sets_ok m'" "dom m' = dom m"
    using eq key ok fin(2) by (auto simp: sets_ok_def split: if_splits)
  show "c' \<longleftrightarrow> c \<or> map_rel m' \<noteq> map_rel m" using eq grow differ by (cases "?new = ?cur") simp_all
  show "\<not> c' \<Longrightarrow> m' = m" using eq by (simp split: if_splits)
qed

lemma propagate_round:
  assumes "sets_ok m" "set keys \<subseteq> dom m" "fold propagate_key keys (m, c) = (m', c')"
  shows "map_rel m \<subseteq> map_rel m' \<and> map_rel m' \<subseteq> (map_rel m)\<^sup>+ \<and> sets_ok m' \<and> dom m' = dom m
    \<and> (\<forall>key \<in> set keys. \<forall>d x. (key, d) \<in> map_rel m \<and> (d, x) \<in> map_rel m \<and> x \<noteq> key \<longrightarrow> (key, x) \<in> map_rel m')
    \<and> (\<not> c' \<longrightarrow> \<not> c \<and> m' = m)"
  using assms
proof (induction keys arbitrary: m c)
  case (Cons key keys)
  obtain m1 c1 where s: "propagate_key key (m, c) = (m1, c1)" by (rule prod.exhaust)
  have kd: "key \<in> dom m" using Cons.prems(2) by simp
  note K = propagate_key_spec [OF Cons.prems(1) kd s]
  have "set keys \<subseteq> dom m1" "fold propagate_key keys (m1, c1) = (m', c')" using Cons.prems(2,3) K(3) s by simp_all
  note IH = Cons.IH [OF K(2) this]
  have two: "(key, x) \<in> (map_rel m)\<^sup>+" if "(key, d) \<in> map_rel m" "(d, x) \<in> map_rel m" for d x
    using that by (rule trancl_into_trancl [OF r_into_trancl])
  have sub: "map_rel m \<subseteq> map_rel m1" "map_rel m1 \<subseteq> (map_rel m)\<^sup>+"
    unfolding K(1)
    by (rule Un_upper1) (intro Un_least subsetI, rule r_into_trancl', assumption, clarify, rule two)
  have "(map_rel m1)\<^sup>+ \<subseteq> (map_rel m)\<^sup>+" using trancl_mono [OF _ sub(2)] by auto
  then have up: "map_rel m' \<subseteq> (map_rel m)\<^sup>+" using IH by blast
  have here: "(key, x) \<in> map_rel m'" if "(key, d) \<in> map_rel m" "(d, x) \<in> map_rel m" "x \<noteq> key" for d x
    using that IH unfolding K(1) by blast
  have later: "(k, x) \<in> map_rel m'" if "k \<in> set keys" "(k, d) \<in> map_rel m" "(d, x) \<in> map_rel m" "x \<noteq> k" for k d x
    using that IH sub(1) by blast
  have flag: "\<not> c' \<longrightarrow> \<not> c \<and> m' = m" using IH K(4,5) by blast
  have dom: "dom m' = dom m" "sets_ok m'" using IH K(3) by simp_all
  have "map_rel m \<subseteq> map_rel m'" using sub(1) IH by blast
  with up here later flag dom show ?case unfolding list.set by (intro conjI) blast+
qed (auto intro: r_into_trancl')

lemma steps_closed:
  assumes "E \<subseteq> R" "\<And>f d x. (f, d) \<in> R \<Longrightarrow> (d, x) \<in> R \<Longrightarrow> x \<noteq> f \<Longrightarrow> (f, x) \<in> R" "(f, x) \<in> E ^^ Suc j" "f \<noteq> x"
  shows "(f, x) \<in> R"
  using assms(3,4)
proof (induction j arbitrary: f)
  case (Suc j)
  from Suc.prems(1) obtain d where d: "(f, d) \<in> E" "(d, x) \<in> E ^^ Suc j" by (metis relpow_Suc_D2)
  show ?case
  proof (cases "d = x")
    case False
    have "(f, d) \<in> R" using d(1) assms(1) by (rule rev_subsetD)
    then show ?thesis using Suc.IH [OF d(2) False] Suc.prems(2) [symmetric] by (rule assms(2))
  next
    case True
    with d(1) show ?thesis using assms(1) by blast
  qed
qed (use assms(1) in auto)

text \<open>
  All rounds: the result stays inside the transitive closure, and after \<open>n\<close> rounds it contains every
  pair joined by at most \<open>n\<close> steps more than before.
\<close>

lemma propagate_spec:
  assumes it: "iter_ok it" and ok: "sets_ok m" and base: "E \<subseteq> map_rel m" "map_rel m \<subseteq> E\<^sup>+"
    and reached: "\<And>f x j. j < k \<Longrightarrow> (f, x) \<in> E ^^ Suc j \<Longrightarrow> f \<noteq> x \<Longrightarrow> (f, x) \<in> map_rel m"
  shows "sets_ok (propagate it n m) \<and> map_rel (propagate it n m) \<subseteq> E\<^sup>+
    \<and> (\<forall>f x j. j < k + n \<and> (f, x) \<in> E ^^ Suc j \<and> f \<noteq> x \<longrightarrow> (f, x) \<in> map_rel (propagate it n m))"
  using ok base reached
proof (induction n arbitrary: m k)
  case (Suc n)
  obtain m' c' where r: "fold propagate_key (it (dom m)) (m, False) = (m', c')" by (rule prod.exhaust)
  have keys: "set (it (dom m)) = dom m" using it Suc.prems(1) by (simp add: sets_ok_def)
  note P = propagate_round [OF Suc.prems(1) eq_refl [OF keys] r]
  have up: "map_rel m' \<subseteq> E\<^sup>+" using P trancl_mono [OF _ Suc.prems(3)] by auto
  have compose: "(f, x) \<in> map_rel m'" if "(f, d) \<in> map_rel m" "(d, x) \<in> map_rel m" "x \<noteq> f" for f d x
  proof -
    have "f \<in> dom m" using that(1) by (auto simp: map_rel_def nbrs_def split: option.splits)
    with P that show ?thesis unfolding keys by blast
  qed
  have low: "E \<subseteq> map_rel m'" using Suc.prems(2) P by blast
  show ?case
  proof (cases c')
    case False
    then have "m' = m" using P by simp
    with False r have eq: "propagate it (Suc n) m = m" by simp
    have "(f, x) \<in> map_rel m" if "(f, x) \<in> E ^^ Suc j" "f \<noteq> x" for f x j
      using steps_closed [OF Suc.prems(2) _ that] compose \<open>m' = m\<close> by blast
    with Suc.prems show ?thesis unfolding eq by blast
  next
    case True
    with r have eq: "propagate it (Suc n) m = propagate it n m'" by simp
    have more: "(f, x) \<in> map_rel m'" if j: "j < Suc k" "(f, x) \<in> E ^^ Suc j" "f \<noteq> x" for f x j
    proof (cases j)
      case 0
      with j(2) low show ?thesis by auto
    next
      case (Suc i)
      with j obtain d where d: "(f, d) \<in> E" "(d, x) \<in> E ^^ Suc i" by (metis relpow_Suc_D2)
      show ?thesis
      proof (cases "d = x")
        case False
        with d j(1) Suc have "(d, x) \<in> map_rel m" by (intro Suc.prems(4)) auto
        with d(1) Suc.prems(2) j(3) show ?thesis by (intro compose [of f d]) auto
      qed (use d low in auto)
    qed
    from P have ok': "sets_ok m'" by simp
    from Suc.IH [OF ok' low up more] show ?thesis unfolding eq by simp
  qed
qed (auto simp del: relpow.simps)

section \<open>The direct links\<close>

text \<open>One file depends on another by the graph, by a file-level edge, or by an edge of an entity.\<close>

definition edge_link :: "('p, 'i) RelationIndex \<Rightarrow> string \<Rightarrow> 'p ResolvedRelation \<Rightarrow> (string \<times> string) set" where
  "edge_link s f r =
     (case callee_id r of
        None \<Rightarrow> {}
      | Some c \<Rightarrow> (case entity_file_index s c of Some g \<Rightarrow> if f = g then {} else {(f, g)} | None \<Rightarrow> {}))"

definition file_links :: "('p, 'i) RelationIndex \<Rightarrow> (string \<times> string) set" where
  "file_links s = depends (dependency_graph s)
     \<union> (\<Union>f. \<Union> (edge_link s f ` set (file_edges s f)))
     \<union> (\<Union>k. case entity_file_index s k of Some f \<Rightarrow> \<Union> (edge_link s f ` set (fwd_edges s k)) | None \<Rightarrow> {})"

definition links_ok :: "(string \<times> string) set \<Rightarrow> TransitiveFileDeps \<Rightarrow> bool" where
  "links_ok R t \<longleftrightarrow> sets_ok (transitive_dependencies t) \<and> sets_ok (transitive_dependents t)
     \<and> map_rel (transitive_dependencies t) = R \<and> map_rel (transitive_dependents t) = R\<inverse>"

lemma touch_file_ok: "links_ok R t \<Longrightarrow> links_ok R (touch_file f t)"
proof -
  have "map_rel (touch_key f m) = map_rel m" "sets_ok m \<Longrightarrow> sets_ok (touch_key f m)" for m
    by (auto simp: touch_key_def case_nbrs map_rel_def sets_ok_def)
  then show "links_ok R t \<Longrightarrow> ?thesis" by (simp add: links_ok_def touch_file_def)
qed

lemma link_files_ok:
  assumes "links_ok R t" "f \<noteq> d"
  shows "links_ok (R \<union> {(f, d)}) (link_files f d t)"
proof -
  have "(a, b) \<in> map_rel (add_link x y m) \<longleftrightarrow> (a, b) = (x, y) \<or> (a, b) \<in> map_rel m" for x y m a b
    by (auto simp: add_link_def case_nbrs map_rel_def)
  then have "map_rel (add_link x y m) = map_rel m \<union> {(x, y)}" for x y m by (simp add: set_eq_iff split_paired_all)
  moreover have "sets_ok m \<Longrightarrow> x \<noteq> y \<Longrightarrow> sets_ok (add_link x y m)" for x y m
    by (simp add: add_link_def case_nbrs sets_ok_def)
  moreover have "(R \<union> {(f, d)})\<inverse> = R\<inverse> \<union> {(d, f)}" by blast
  ultimately show ?thesis using assms by (simp add: links_ok_def link_files_def)
qed

lemma link_relation_ok: "links_ok R t \<Longrightarrow> links_ok (R \<union> edge_link s f r) (link_relation s f r t)"
  using link_files_ok [of R t f] by (simp add: link_relation_def edge_link_def split: option.split)

lemma fold_links_ok:
  assumes "links_ok R t" "\<And>x R t. x \<in> set xs \<Longrightarrow> links_ok R t \<Longrightarrow> links_ok (R \<union> G x) (F x t)"
  shows "links_ok (R \<union> \<Union> (G ` set xs)) (fold F xs t)"
  using assms
proof (induction xs arbitrary: R t)
  case (Cons x xs)
  then have "links_ok (R \<union> G x) (F x t)" by simp
  with Cons.IH [of "R \<union> G x" "F x t"] Cons.prems(2) show ?case by (simp add: Un_assoc)
qed simp

lemma fold_relations_ok: "links_ok R t \<Longrightarrow> links_ok (R \<union> \<Union> (edge_link s f ` set rs)) (fold (link_relation s f) rs t)"
  by (rule fold_links_ok) (auto intro: link_relation_ok)

lemma UN_dom: "(\<And>k. m k = None \<Longrightarrow> G k = {}) \<Longrightarrow> (\<Union>k \<in> dom m. G k) = (\<Union>k. G k)"
  by (auto simp: dom_def) blast

lemma fold_touch_ok: "links_ok R t \<Longrightarrow> links_ok R (fold touch_file fs t)"
  by (induction fs arbitrary: t) (simp_all add: touch_file_ok)

lemma direct_links_ok:
  assumes ho: "orders_ok ho" and dg: "dg_inv (dependency_graph s)"
    and fin: "finite (dom (file_records s))" "finite (dom (file_relation_index s))" "finite (dom (resolved_relation_index s))"
  shows "links_ok (file_links s) (direct_links ho s)"
proof -
  have it: "iter_ok (ho_ids ho)" "iter_ok (ho_paths ho)" using ho by (simp_all add: orders_ok_def)
  let ?g = "dependency_graph s" and ?deps = "get_dependencies (ho_paths ho) (dependency_graph s)"
  let ?files = "get_all_files (ho_paths ho) ?g"
  define t0 where "t0 = \<lparr>transitive_dependents = Map.empty, transitive_dependencies = Map.empty\<rparr>"
  define t3 where "t3 = fold touch_file (ho_paths ho (dom (file_relation_index s)))
    (fold touch_file ?files (fold touch_file (ho_paths ho (dom (file_records s))) t0))"
  have "links_ok {} t0" by (simp add: t0_def links_ok_def sets_ok_def map_rel_def nbrs_def)
  then have t3: "links_ok {} t3" unfolding t3_def by (intro fold_touch_ok)
  have deps: "set (?deps f) = {d. (f, d) \<in> depends ?g}" "f \<notin> set (?deps f)" for f
    using set_get_dependencies [OF it(2) dg] dg by (auto simp: depends_def dg_inv_def map_ok_no_self)
  define t4 where "t4 = fold (\<lambda>file. fold (link_files file) (?deps file)) ?files t3"
  have "links_ok ({} \<union> (\<Union>f \<in> set ?files. \<Union>d \<in> set (?deps f). {(f, d)})) t4"
    unfolding t4_def
    by (rule fold_links_ok [OF t3]) (rule fold_links_ok, assumption, rule link_files_ok, use deps(2) in auto)
  moreover have "(\<Union>f \<in> set ?files. \<Union>d \<in> set (?deps f). {(f, d)}) = depends ?g"
  proof -
    have "(f, d) \<in> depends ?g \<Longrightarrow> f \<in> file_set ?g" for f d
      by (auto simp: depends_def nbrs_def file_set_def split: option.splits)
    then show ?thesis using it(2) finite_file_set [OF dg] by (auto simp: deps get_all_files_def)
  qed
  ultimately have t4: "links_ok (depends ?g) t4" by simp
  define t5 where "t5 = fold (\<lambda>file. fold (link_relation s file) (edges (the (file_relation_index s file))))
                 (ho_paths ho (dom (file_relation_index s))) t4"
  have "links_ok (depends ?g \<union> (\<Union>f \<in> set (ho_paths ho (dom (file_relation_index s))).
      \<Union> (edge_link s f ` set (edges (the (file_relation_index s f)))))) t5"
    unfolding t5_def by (rule fold_links_ok [OF t4]) (rule fold_relations_ok)
  moreover have "(\<Union>f \<in> set (ho_paths ho (dom (file_relation_index s))). \<Union> (edge_link s f ` set (edges (the (file_relation_index s f)))))
      = (\<Union>f. \<Union> (edge_link s f ` set (file_edges s f)))"
    using it(2) fin(2) by (simp add: file_edges_def UN_dom [symmetric, of "file_relation_index s"] cong: SUP_cong_simp split: option.split)
      (intro SUP_cong, auto)
  ultimately have t5: "links_ok (depends ?g \<union> (\<Union>f. \<Union> (edge_link s f ` set (file_edges s f)))) t5" by simp
  let ?F = "\<lambda>k. case entity_file_index s k of None \<Rightarrow> id
    | Some file \<Rightarrow> fold (link_relation s file) (edges (the (resolved_relation_index s k)))"
  let ?G = "\<lambda>k. case entity_file_index s k of None \<Rightarrow> {}
    | Some f \<Rightarrow> \<Union> (edge_link s f ` set (edges (the (resolved_relation_index s k))))"
  have one: "links_ok (R \<union> ?G k) (?F k t)" if "links_ok R t" for R t k
    using that by (cases "entity_file_index s k") (simp_all only: option.case id_apply Un_empty_right fold_relations_ok)
  have "direct_links ho s = fold ?F (ho_ids ho (dom (resolved_relation_index s))) t5"
    by (simp add: direct_links_def Let_def t5_def t4_def t3_def t0_def)
  moreover have "(\<Union>k \<in> set (ho_ids ho (dom (resolved_relation_index s))). ?G k)
      = (\<Union>k. case entity_file_index s k of Some f \<Rightarrow> \<Union> (edge_link s f ` set (fwd_edges s k)) | None \<Rightarrow> {})"
    using it(1) fin(3) by (simp add: fwd_edges_def UN_dom [symmetric, of "resolved_relation_index s"] split: option.split)
      (intro SUP_cong, auto simp: fwd_edges_def split: option.split)
  moreover have "links_ok (depends ?g \<union> (\<Union>f. \<Union> (edge_link s f ` set (file_edges s f)))
      \<union> (\<Union>k \<in> set (ho_ids ho (dom (resolved_relation_index s))). ?G k)) (fold ?F (ho_ids ho (dom (resolved_relation_index s))) t5)"
    by (rule fold_links_ok [OF t5 one])
  ultimately show ?thesis by (simp only: file_links_def)
qed

lemma relpow_conv:
  fixes R :: "('a \<times> 'a) set"
  shows "(x, y) \<in> (R\<inverse>) ^^ n \<longleftrightarrow> (y, x) \<in> R ^^ n"
proof (induction n arbitrary: y)
  case (Suc n)
  have "(x, y) \<in> (R\<inverse>) ^^ Suc n \<longleftrightarrow> (\<exists>z. (y, z) \<in> R \<and> (z, x) \<in> R ^^ n)" using Suc by auto
  also have "\<dots> \<longleftrightarrow> (y, x) \<in> R ^^ Suc n" using relpow_Suc_I2 [of y _ R x n] relpow_Suc_D2 [of y x n R] by blast
  finally show ?case .
qed auto

text \<open>
  C9: The transitive file queries of a snapshot are bounded by the closure. For an index with a
  consistent dependency graph and every hash order, precomputing with a depth returns for each file,
  sorted and without itself, only files it reaches by links (dependencies, file-level edges, edges
  of its entities), and every file it reaches in at most one step more than the depth; the dependents
  are the same for the reversed links.
\<close>

theorem transitive_closure_bounded:
  fixes s :: "('p, 'i) RelationIndex" and depth :: nat and f :: string and ho :: hash_orders
  assumes "orders_ok ho" "dg_inv (dependency_graph s)" "finite (dom (file_records s))"
    "finite (dom (file_relation_index s))" "finite (dom (resolved_relation_index s))"
  defines "t \<equiv> from_relation_index ho s depth" and "L \<equiv> file_links s"
  shows "set (transitive_dependencies_of f t) \<subseteq> {g. (f, g) \<in> L\<^sup>+ \<and> g \<noteq> f}
    \<and> {g. g \<noteq> f \<and> (\<exists>j \<le> depth. (f, g) \<in> L ^^ Suc j)} \<subseteq> set (transitive_dependencies_of f t)
    \<and> set (transitive_dependents_of f t) \<subseteq> {g. (g, f) \<in> L\<^sup>+ \<and> g \<noteq> f}
    \<and> {g. g \<noteq> f \<and> (\<exists>j \<le> depth. (g, f) \<in> L ^^ Suc j)} \<subseteq> set (transitive_dependents_of f t)
    \<and> sorted_wrt (<) (transitive_dependencies_of f t) \<and> sorted_wrt (<) (transitive_dependents_of f t)"
proof -
  have it: "iter_ok (ho_paths ho)" using assms(1) by (simp add: orders_ok_def)
  note D = direct_links_ok [OF assms(1-5), unfolded links_ok_def, folded L_def]
  have P: "sets_ok (propagate (ho_paths ho) depth m) \<and> map_rel (propagate (ho_paths ho) depth m) \<subseteq> R\<^sup>+
    \<and> (\<forall>f x j. j \<le> depth \<and> (f, x) \<in> R ^^ Suc j \<and> f \<noteq> x \<longrightarrow> (f, x) \<in> map_rel (propagate (ho_paths ho) depth m))"
    if "sets_ok m" "map_rel m = R" for m R
  proof -
    have "map_rel m \<subseteq> R\<^sup>+" "R \<subseteq> map_rel m" using that(2) by auto
    moreover have "(f, x) \<in> map_rel m" if "j < 1" "(f, x) \<in> R ^^ Suc j" for f x j using that \<open>R \<subseteq> map_rel m\<close> by auto
    ultimately show ?thesis using propagate_spec [OF it that(1), of R 1 depth] by (simp add: less_Suc_eq_le del: relpow.simps)
  qed
  have S: "set (sorted_set (m f)) = map_rel m `` {f}" "sorted_wrt (<) (sorted_set (m f))" "f \<notin> map_rel m `` {f}"
    if "sets_ok m" for m :: "string \<rightharpoonup> string set" and f
  proof -
    have "finite (nbrs m f)" "f \<notin> nbrs m f" using that by (simp_all add: sets_ok_def)
    then show "set (sorted_set (m f)) = map_rel m `` {f}" "sorted_wrt (<) (sorted_set (m f))" "f \<notin> map_rel m `` {f}"
      by (auto simp: sorted_set_def map_rel_def nbrs_def split: option.splits)
  qed
  note Pd = P [of "transitive_dependencies (direct_links ho s)" L] and Pr = P [of "transitive_dependents (direct_links ho s)" "L\<inverse>"]
  note Sd = S [of "propagate (ho_paths ho) depth (transitive_dependencies (direct_links ho s))" f]
    and Sr = S [of "propagate (ho_paths ho) depth (transitive_dependents (direct_links ho s))" f]
  let ?Md = "propagate (ho_paths ho) depth (transitive_dependencies (direct_links ho s))"
    and ?Mr = "propagate (ho_paths ho) depth (transitive_dependents (direct_links ho s))"
  have t: "transitive_dependencies_of f t = sorted_set (?Md f)" "transitive_dependents_of f t = sorted_set (?Mr f)"
    by (simp_all add: transitive_dependencies_of_def transitive_dependents_of_def t_def from_relation_index_def Let_def)
  have ok: "sets_ok ?Md" "sets_ok ?Mr" using Pd Pr D by simp_all
  have up: "map_rel ?Md \<subseteq> L\<^sup>+" "map_rel ?Mr \<subseteq> (L\<inverse>)\<^sup>+" using Pd Pr D by simp_all
  have low: "(f, x) \<in> map_rel ?Md" if "j \<le> depth" "(f, x) \<in> L ^^ Suc j" "f \<noteq> x" for x j using Pd D that by blast
  have low': "(f, x) \<in> map_rel ?Mr" if "j \<le> depth" "(x, f) \<in> L ^^ Suc j" "f \<noteq> x" for x j
    using Pr D that relpow_conv [of f x "Suc j" L] by blast
  have up': "(x, f) \<in> L\<^sup>+" if "(f, x) \<in> map_rel ?Mr" for x using up(2) that by (auto simp: trancl_converse)
  show ?thesis
    unfolding t S(1) [OF ok(1)] S(1) [OF ok(2)]
    using S(2,3) [OF ok(1)] S(2,3) [OF ok(2)] up(1) up' low low' by (auto simp del: relpow.simps)
qed

section \<open>Witnesses\<close>

lemma snapshot_queries_agree_witness:
  "get_resolved_relations_by_caller_s 1 (from_index_shared sample_orders sample_index) = Some [sample_call]"
proof -
  have inv: "graph_ok sample_index" "rev_rel sample_index = fwd_rel sample_index"
    using build_run [of id sample_build] by (simp_all add: sample_index_def index_inv_def)
  have "relations_of sample_index 1 = Some [sample_call]"
    using sample_index_edges [of 1] by (simp add: relations_of_def fwd_edges_def split: option.splits)
  then show ?thesis using snapshot_queries_agree [OF inv sample_orders_ok, of 1 0 DirectCall] by simp
qed

definition chain_index :: "(unit, unit) RelationIndex" where
  "chain_index = RelationIndex_new\<lparr>dependency_graph := add_dependency ''a'' ''b'' (add_dependency ''b'' ''c'' dg_new)\<rparr>"

lemma transitive_closure_bounded_witness:
  "set (transitive_dependencies_of ''a'' (from_relation_index sample_orders chain_index 1)) = {''b'', ''c''}"
proof -
  have links: "file_links chain_index = {(''a'', ''b''), (''b'', ''c'')}"
    by (auto simp: file_links_def chain_index_def add_dependency_rel RelationIndex_new_def file_edges_def fwd_edges_def)
  have "dg_inv (dependency_graph chain_index)" by (simp add: chain_index_def add_dependency_inv)
  note B = transitive_closure_bounded [OF sample_orders_ok this]
  have "{(''a'', ''b''), (''b'', ''c'')}\<^sup>+ \<subseteq> {(''a'', ''b''), (''b'', ''c''), (''a'', ''c'')}\<^sup>+" by (rule trancl_mono_subset) simp
  also have "\<dots> = {(''a'', ''b''), (''b'', ''c''), (''a'', ''c'')}" by (rule trancl_id) (auto simp: trans_def)
  finally have up: "(file_links chain_index)\<^sup>+ \<subseteq> {(''a'', ''b''), (''b'', ''c''), (''a'', ''c'')}" by (simp add: links)
  have b: "(''a'', ''b'') \<in> file_links chain_index ^^ Suc 0" and c: "(''a'', ''c'') \<in> file_links chain_index ^^ Suc 1"
    by (auto simp: links)
  let ?T = "set (transitive_dependencies_of ''a'' (from_relation_index sample_orders chain_index 1))"
  have fin: "finite (dom (file_records chain_index))" "finite (dom (file_relation_index chain_index))"
    "finite (dom (resolved_relation_index chain_index))" by (simp_all add: chain_index_def RelationIndex_new_def)
  note B = B [OF fin, of "''a''" 1]
  note low = subsetD [OF conjunct1 [OF conjunct2 [OF B]]]
  have "''b'' \<in> ?T"
  proof (rule low, intro CollectI conjI exI [of _ 0])
    show "(''a'', ''b'') \<in> file_links chain_index ^^ Suc 0" by (rule b)
  qed simp_all
  moreover have "''c'' \<in> ?T"
  proof (rule low, intro CollectI conjI exI [of _ 1])
    show "(''a'', ''c'') \<in> file_links chain_index ^^ Suc 1" by (rule c)
  qed simp_all
  moreover have "?T \<subseteq> {''b'', ''c''}"
  proof
    fix g
    assume "g \<in> ?T"
    then have "(''a'', g) \<in> (file_links chain_index)\<^sup>+" using subsetD [OF conjunct1 [OF B]] by blast
    then show "g \<in> {''b'', ''c''}" using up by auto
  qed
  ultimately show ?thesis by blast
qed


end
