(* ===== verification/Delta_Replay.thy ===== *)
theory Delta_Replay
  imports Relation_Delta
begin

text \<open>
  What replaying a delta does: each step on the call graph, the names and the entities, the parts
  of a computed delta, and their composition. A delta without renames carries the base to the
  candidate; a removed edge within one shard blocks the replay.
\<close>

section \<open>Removing edges by identity\<close>

lemma identity_determines:
  assumes "relation_identity r = relation_identity r'"
  shows "caller r = caller r'" "callee_id r = callee_id r'"
  using assms by (auto simp: relation_identity_def split: option.splits if_splits)

lemma remove_by_identity_edges:
  assumes "es_inv es"
  shows "edges (fst (remove_by_identity i es)) = filter (\<lambda>e. relation_identity e \<noteq> i) (edges es)"
    "callers (fst (remove_by_identity i es)) = callers es"
proof -
  have "filter (\<lambda>e. relation_identity e \<noteq> i) (edges es) = edges es" if "i \<notin> identities es"
    using that assms by (auto simp: es_inv_def filter_id_conv)
  then show "edges (fst (remove_by_identity i es)) = filter (\<lambda>e. relation_identity e \<noteq> i) (edges es)"
    by (simp add: remove_by_identity_def)
  show "callers (fst (remove_by_identity i es)) = callers es" by (simp add: remove_by_identity_def)
qed

lemma fwd_caller: "fwd_wf s \<Longrightarrow> e \<in> set (fwd_edges s k) \<Longrightarrow> caller e = k"
  by (cases "resolved_relation_index s k") (auto simp: fwd_wf_def fwd_edges_def)

text \<open>The index after the edge set of the caller has lost one identity.\<close>

definition without_edge :: "'p ResolvedRelation \<Rightarrow> ('p, 'i) RelationIndex \<Rightarrow> ('p, 'i) RelationIndex" where
  "without_edge r s =
     (case resolved_relation_index s (caller r) of
        None \<Rightarrow> s
      | Some es \<Rightarrow>
          let es' = fst (remove_by_identity (relation_identity r) es)
          in s\<lparr>resolved_relation_index := (resolved_relation_index s)
                (caller r := if es_is_empty es' then None else Some es')\<rparr>)"

lemma without_edge_spec:
  assumes "fwd_wf s"
  shows "fwd_wf (without_edge r s)"
    "fwd_edges (without_edge r s) k = filter (\<lambda>e. relation_identity e \<noteq> relation_identity r) (fwd_edges s k)"
    "reverse_callee_index (without_edge r s) = reverse_callee_index s" "same_rest s (without_edge r s)"
    "dom (resolved_relation_index (without_edge r s)) \<subseteq> dom (resolved_relation_index s)"
proof -
  have inv: "es_inv es" "callers es = []" "\<forall>e \<in> set (edges es). caller e = k"
    if "resolved_relation_index s k = Some es" for k es
    using assms that by (auto simp: fwd_wf_def)
  note rem = remove_by_identity_edges [OF inv(1)] remove_by_identity_inv [OF inv(1)]
  have other: "filter (\<lambda>e. relation_identity e \<noteq> relation_identity r) (fwd_edges s k) = fwd_edges s k" if "k \<noteq> caller r" for k
  proof -
    have "caller e = k" if "e \<in> set (fwd_edges s k)" for e
      using that by (rule fwd_caller [OF assms])
    then show ?thesis
      using that identity_determines(1) [of _ r] by (auto simp: filter_id_conv)
  qed
  show "fwd_wf (without_edge r s)"
    unfolding fwd_wf_def without_edge_def Let_def
    using assms rem inv by (auto simp: es_is_empty_def fwd_wf_def split: option.splits if_splits)
  show "fwd_edges (without_edge r s) k = filter (\<lambda>e. relation_identity e \<noteq> relation_identity r) (fwd_edges s k)"
  proof (cases "k = caller r")
    case True
    then show ?thesis
      using rem(1) [of "caller r"] by (auto simp: fwd_edges_def without_edge_def Let_def es_is_empty_def split: option.split)
  next
    case False
    moreover from this have "fwd_edges (without_edge r s) k = fwd_edges s k"
      by (auto simp: fwd_edges_def without_edge_def Let_def split: option.split)
    ultimately show ?thesis using other by simp
  qed
  show "reverse_callee_index (without_edge r s) = reverse_callee_index s" "same_rest s (without_edge r s)"
    "dom (resolved_relation_index (without_edge r s)) \<subseteq> dom (resolved_relation_index s)"
    by (auto simp: without_edge_def same_rest_def Let_def split: option.splits if_splits)
qed

lemma still_calls_rel: "still_calls k c s \<longleftrightarrow> (k, c) \<in> fwd_rel s"
  by (auto simp: still_calls_def fwd_rel_def fwd_edges_def list_ex_iff split: option.split)

text \<open>
  Replaying one removed edge either blocks, because caller and callee share a shard and the
  callee has edges of its own, or removes the edge and its reverse entry if no other edge needs it.
\<close>

lemma apply_removed_relation_eq:
  assumes "fwd_wf s"
  shows "apply_removed_relation shard r s =
    (let s1 = without_edge r s
     in case callee_id r of
          None \<Rightarrow> Some s1
        | Some c \<Rightarrow> if fwd_edges s1 c \<noteq> [] \<and> shard (caller r) = shard c then None
                    else Some (maybe_untrack_reverse_caller c (caller r) s1))"
proof -
  let ?s1 = "without_edge r s"
  have wf: "fwd_wf ?s1" by (rule without_edge_spec [OF assms])
  have rri: "resolved_relation_index (maybe_untrack_reverse_caller c k ?s1) = resolved_relation_index ?s1" for c k
    by (simp add: maybe_untrack_reverse_caller_def)
  have wf2: "fwd_wf (maybe_untrack_reverse_caller c k ?s1)" for c k
    using wf fwd_wf_cong [OF rri] by blast
  have some: "resolved_relation_index ?s1 c = None \<longleftrightarrow> fwd_edges ?s1 c = []" for c
    using wf by (auto simp: fwd_wf_def fwd_edges_def split: option.split)
  show ?thesis
    unfolding apply_removed_relation_def Let_def without_edge_def [unfolded Let_def, symmetric]
    by (auto simp: rri some [symmetric] drop_embedded_caller_id [OF wf2] split: option.split)
qed

definition mirror_but :: "EntityId set \<Rightarrow> ('p, 'i) RelationIndex \<Rightarrow> bool" where
  "mirror_but D s \<longleftrightarrow> rev_rel s = {(k, c) \<in> fwd_rel s. c \<notin> D}"

lemma fwd_rel_filter:
  assumes "\<And>k. fwd_edges s' k = filter (\<lambda>e. relation_identity e \<noteq> relation_identity r) (fwd_edges s k)"
  shows "fwd_rel s' \<subseteq> fwd_rel s" "(k, c) \<in> fwd_rel s \<Longrightarrow> callee_id r \<noteq> Some c \<or> k \<noteq> caller r \<Longrightarrow> fwd_wf s \<Longrightarrow> (k, c) \<in> fwd_rel s'"
proof -
  show "fwd_rel s' \<subseteq> fwd_rel s" by (auto simp: fwd_rel_def assms)
  assume "(k, c) \<in> fwd_rel s" and differ: "callee_id r \<noteq> Some c \<or> k \<noteq> caller r" and "fwd_wf s"
  then obtain e where e: "e \<in> set (fwd_edges s k)" "callee_id e = Some c" "caller e = k"
    using fwd_caller [of s _ k] by (auto simp: fwd_rel_def)
  with differ identity_determines [of e r] have "relation_identity e \<noteq> relation_identity r" by auto
  with e show "(k, c) \<in> fwd_rel s'" by (auto simp: fwd_rel_def assms)
qed

lemma apply_removed_relation_spec:
  fixes s :: "('a, 'b) RelationIndex"
  assumes wf: "fwd_wf s" "rev_wf s" "mirror_but D s" and ret: "apply_removed_relation shard r s = Some s'"
  shows "fwd_wf s'" "rev_wf s'" "mirror_but D s'" "same_rest s s'"
    "fwd_edges s' k = filter (\<lambda>e. relation_identity e \<noteq> relation_identity r) (fwd_edges s k)"
    "dom (resolved_relation_index s') \<subseteq> dom (resolved_relation_index s)"
proof -
  let ?s1 = "without_edge r s"
  note W = without_edge_spec [OF wf(1), of r]
  have R: "rev_wf ?s1" "rev_rel ?s1 = rev_rel s" using wf(2) rev_cong [OF W(3)] by simp_all
  obtain c where s': "s' = (case callee_id r of None \<Rightarrow> ?s1 | Some c \<Rightarrow> maybe_untrack_reverse_caller c (caller r) ?s1)"
    using ret by (auto simp: apply_removed_relation_eq [OF wf(1)] Let_def split: option.splits if_splits)
  have rri: "resolved_relation_index s' = resolved_relation_index ?s1"
    by (simp add: s' maybe_untrack_reverse_caller_def split: option.split)
  show "fwd_wf s'" using W(1) fwd_wf_cong [OF rri] by simp
  show "rev_wf s'" using R(1) by (simp add: s' maybe_untrack_reverse_caller_def untrack_reverse_spec split: option.split)
  show fe: "fwd_edges s' k = filter (\<lambda>e. relation_identity e \<noteq> relation_identity r) (fwd_edges s k)" for k
    using W(2) fwd_edges_cong [OF rri] by simp
  show "dom (resolved_relation_index s') \<subseteq> dom (resolved_relation_index s)" using W(5) rri by simp
  have "same_rest ?s1 s'"
    by (simp add: s' maybe_untrack_reverse_caller_def untrack_reverse_caller_def same_rest_def split: option.split)
  with W(4) show "same_rest s s'" by (rule same_rest_trans)
  have fr: "fwd_rel s' = fwd_rel ?s1" by (rule fwd_rel_cong [OF rri])
  have un: "fwd_rel (untrack_reverse_caller c k s) = fwd_rel s" for c k and s :: "('a, 'b) RelationIndex"
    by (rule fwd_rel_cong) simp
  have rr: "rev_rel s' = rev_rel s - (case callee_id r of None \<Rightarrow> {} | Some c \<Rightarrow> if (caller r, c) \<in> fwd_rel s' then {} else {(caller r, c)})"
    unfolding s' by (cases "callee_id r") (auto simp: maybe_untrack_reverse_caller_def untrack_reverse_spec R still_calls_rel un)
  show "mirror_but D s'"
    unfolding mirror_but_def
  proof (intro set_eqI, clarify)
    fix k c
    have "(k, c) \<in> fwd_rel s' \<longleftrightarrow> (k, c) \<in> fwd_rel s" if "callee_id r \<noteq> Some c \<or> k \<noteq> caller r"
      using fwd_rel_filter(1) [OF fe] fwd_rel_filter(2) [OF fe _ that wf(1)] by blast
    then show "(k, c) \<in> rev_rel s' \<longleftrightarrow> (k, c) \<in> {(k, c) \<in> fwd_rel s'. c \<notin> D}"
      using wf(3) fwd_rel_filter(1) [OF fe] unfolding mirror_but_def rr
      by (cases "callee_id r = Some c \<and> k = caller r") (auto split: option.split)
  qed
qed

lemma apply_removed_relations_spec:
  fixes s :: "('a, 'b) RelationIndex"
  assumes "fwd_wf s" "rev_wf s" "mirror_but D s" "apply_removed_relations shard rs s = Some s'"
  shows "fwd_wf s' \<and> rev_wf s' \<and> mirror_but D s' \<and> same_rest s s'
    \<and> (\<forall>k. fwd_edges s' k = filter (\<lambda>e. relation_identity e \<notin> relation_identity ` set rs) (fwd_edges s k))
    \<and> dom (resolved_relation_index s') \<subseteq> dom (resolved_relation_index s)"
  using assms
proof (induction rs arbitrary: s)
  case (Cons r rs)
  then obtain s1 where s1: "apply_removed_relation shard r s = Some s1" "apply_removed_relations shard rs s1 = Some s'"
    by (auto split: option.splits)
  note A = apply_removed_relation_spec [OF Cons.prems(1-3) s1(1)]
  have D: "dom (resolved_relation_index s') \<subseteq> dom (resolved_relation_index s)"
    using Cons.IH [OF A(1-3) s1(2)] A(6) by (elim conjE) (rule subset_trans)
  have "filter P (filter Q xs) = filter (\<lambda>x. Q x \<and> P x) xs" for P Q and xs :: "'a ResolvedRelation list"
    by (simp add: conj_commute)
  with Cons.IH [OF A(1-3) s1(2)] A(5) same_rest_trans [OF A(4)] D show ?case by simp
qed (simp_all add: mirror_but_def)

lemma apply_removed_relations_returns:
  assumes "fwd_wf s" "rev_wf s" "mirror_but D s"
    "\<And>r c. r \<in> set rs \<Longrightarrow> callee_id r = Some c \<Longrightarrow> shard (caller r) \<noteq> shard c"
  shows "\<exists>s'. apply_removed_relations shard rs s = Some s'"
  using assms
proof (induction rs arbitrary: s)
  case (Cons r rs)
  obtain s1 where s1: "apply_removed_relation shard r s = Some s1"
    using Cons.prems(4) [of r] by (cases "callee_id r") (auto simp: apply_removed_relation_eq [OF Cons.prems(1)] Let_def)
  note A = apply_removed_relation_spec [OF Cons.prems(1-3) s1]
  from Cons.IH [OF A(1-3)] Cons.prems(4) s1 show ?case by auto
qed simp

text \<open>A removed edge whose callee keeps an edge of its own blocks the replay on a shared shard.\<close>

lemma apply_removed_relations_blocks:
  assumes "fwd_wf s" "rev_wf s" "mirror_but D s"
    "r \<in> set rs" "callee_id r = Some c" "shard (caller r) = shard c"
    "e \<in> set (fwd_edges s c)" "relation_identity e \<notin> relation_identity ` set rs"
  shows "apply_removed_relations shard rs s = None"
  using assms
proof (induction rs arbitrary: s)
  case (Cons r' rs)
  show ?case
  proof (cases "apply_removed_relation shard r' s")
    case (Some s1)
    note A = apply_removed_relation_spec [OF Cons.prems(1-3) Some]
    have keep: "e \<in> set (fwd_edges s1 c)" using Cons.prems(7,8) A(5) by auto
    have "r' \<noteq> r"
    proof
      assume "r' = r"
      with Some Cons.prems(5,6) have "fwd_edges (without_edge r s) c = []"
        by (auto simp: apply_removed_relation_eq [OF Cons.prems(1)] Let_def split: if_splits)
      with Cons.prems(7,8) show False by (auto simp: without_edge_spec [OF Cons.prems(1)] \<open>r' = r\<close> filter_empty_conv)
    qed
    with Cons.IH [OF A(1-3) _ Cons.prems(5,6) keep] Cons.prems(4,8) Some show ?thesis by auto
  qed simp
qed simp

section \<open>Removing entities\<close>

lemma untrack_fold:
  assumes "rev_wf s"
  shows "let s' = fold (\<lambda>c. untrack_reverse_caller c e) cs s
    in rev_wf s' \<and> resolved_relation_index s' = resolved_relation_index s
       \<and> rev_rel s' = rev_rel s - {e} \<times> set cs \<and> same_rest s s'"
  using assms
proof (induction cs arbitrary: s)
  case (Cons c cs)
  let ?s = "untrack_reverse_caller c e s"
  have "same_rest s ?s" by (simp add: untrack_reverse_caller_def same_rest_def)
  note T = same_rest_trans [OF this]
  from Cons.IH [OF untrack_reverse_spec(1) [OF Cons.prems]] T show ?case
    by (auto simp: Let_def untrack_reverse_spec [OF Cons.prems])
qed (simp add: Let_def)

lemma forget_relations_spec:
  assumes g: "graph_ok s" and it: "iter_ok it"
  shows "let s' = forget_relations it e s
    in graph_ok s' \<and> resolved_relation_index s' = (resolved_relation_index s)(e := None)
       \<and> rev_rel s' = {(k, c) \<in> rev_rel s. k \<noteq> e \<and> c \<noteq> e} \<and> same_rest s s'"
proof -
  have wf: "fwd_wf s" "rev_wf s" "rev_rel s \<subseteq> fwd_rel s" using g by (simp_all add: graph_ok_def)
  define s2 where "s2 = fold (\<lambda>c s. drop_embedded_caller c e (untrack_reverse_caller c e s)) (callee_ids_of e s)
    (s\<lparr>resolved_relation_index := (resolved_relation_index s)(e := None)\<rparr>)"
  define s3 where "s3 = s2\<lparr>reverse_callee_index := (reverse_callee_index s2)(e := None)\<rparr>"
  let ?s1 = "s\<lparr>resolved_relation_index := (resolved_relation_index s)(e := None)\<rparr>"
  have "fwd_wf ?s1" "rev_wf ?s1" using wf(1,2) by (auto simp: fwd_wf_def rev_wf_def)
  from untrack_all_spec [OF this, of e "callee_ids_of e s", folded s2_def]
  have rri: "resolved_relation_index s3 = (resolved_relation_index s)(e := None)" by (simp add: Let_def s3_def)
  have eq: "remove_entity_relations e s = s3"
    unfolding remove_entity_relations_def Let_def s2_def [symmetric] s3_def [symmetric] using rri by simp
  from remove_entity_relations_spec [OF wf, of e]
  have s3: "fwd_wf s3" "rev_wf s3" "rev_rel s3 = {(k, c) \<in> rev_rel s. k \<noteq> e \<and> c \<noteq> e}" "same_rest s s3"
    by (simp_all add: Let_def eq)
  have fin: "finite (dom (resolved_relation_index s3))"
    using g unfolding rri graph_ok_def by (auto intro: finite_subset [of _ "dom (resolved_relation_index s)"])
  have none: "filter (\<lambda>k. e \<in> set (callers (the (resolved_relation_index s3 k)))) (it (dom (resolved_relation_index s3))) = []"
    using s3(1) it fin by (auto simp: filter_empty_conv fwd_wf_def)
  define rk where "rk = filter (\<lambda>c. e \<in> set (the (reverse_callee_index s3 c))) (it (dom (reverse_callee_index s3)))"
  have fr: "forget_relations it e s = fold (\<lambda>c. untrack_reverse_caller c e) rk s3"
    unfolding forget_relations_def Let_def s2_def [symmetric] s3_def [symmetric] none by (simp add: rk_def)
  note U = untrack_fold [OF s3(2), of e rk, folded fr, unfolded Let_def]
  have rev: "rev_rel (forget_relations it e s) = {(k, c) \<in> rev_rel s. k \<noteq> e \<and> c \<noteq> e}" using U s3(3) by auto
  have "fwd_rel (forget_relations it e s) = {(k, c) \<in> fwd_rel s. k \<notin> {e}}"
    using U by (intro fwd_rel_restrict) (simp add: rri forget_one)
  with U rev s3 fin wf(3) fwd_wf_cong [of "forget_relations it e s" s3] have "graph_ok (forget_relations it e s)"
    by (auto simp: graph_ok_def)
  with U rev show ?thesis using rri same_rest_trans [OF s3(4)] by (simp add: Let_def)
qed

lemma remove_names_ok:
  assumes "names_ok s"
  shows "names_ok (snd (remove_function i s))"
proof -
  have ok: "buckets_ok distinct (name_index s)" and here: "set (bucket (name_index s) m) = named s m" for m
    using assms by (simp_all add: names_ok_def)
  have "buckets_ok distinct (name_index (snd (remove_function i s)))"
    using ok by (simp add: remove_function_fields buckets_ok_remove split: option.split)
  moreover have "set (bucket (name_index (snd (remove_function i s))) n) = named (snd (remove_function i s)) n" for n
    by (cases "function_index s i") (auto simp: remove_function_fields bucket_remove_bucket here named_def split: if_splits)
  ultimately show ?thesis by (simp add: names_ok_def)
qed

lemma names_ok_cong:
  "function_index s' = function_index s \<Longrightarrow> name_index s' = name_index s \<Longrightarrow> names_ok s' = names_ok s"
  by (simp add: names_ok_def named_def)

lemma forget_symbol_frame [simp]:
  "function_index (forget_symbol_key h i s) = function_index s" "name_index (forget_symbol_key h i s) = name_index s"
  "entity_file_index (forget_symbol_key h i s) = entity_file_index s"
  "resolved_relation_index (forget_symbol_key h i s) = resolved_relation_index s"
  "reverse_callee_index (forget_symbol_key h i s) = reverse_callee_index s"
  "file_relation_index (forget_symbol_key h i s) = file_relation_index s"
  "file_callers_by_callee (forget_symbol_key h i s) = file_callers_by_callee s"
  "file_records (forget_symbol_key h i s) = file_records s" "dependency_graph (forget_symbol_key h i s) = dependency_graph s"
  by (simp_all add: forget_symbol_key_def split: option.split)

text \<open>The file-level state, which entity operations leave alone.\<close>

definition same_files :: "('p, 'i) RelationIndex \<Rightarrow> ('p, 'i) RelationIndex \<Rightarrow> bool" where
  "same_files s s' \<longleftrightarrow> file_relation_index s' = file_relation_index s \<and> file_callers_by_callee s' = file_callers_by_callee s
     \<and> file_records s' = file_records s \<and> dependency_graph s' = dependency_graph s"

lemma same_files_refl [simp]: "same_files s s"
  by (simp add: same_files_def)

lemma same_files_trans: "same_files s s' \<Longrightarrow> same_files s' s'' \<Longrightarrow> same_files s s''"
  by (simp add: same_files_def)

lemma same_rest_files: "same_rest s s' \<Longrightarrow> same_files s s'"
  by (simp add: same_files_def same_restD)

lemma apply_removed_entity_spec:
  fixes e :: EntityId and h :: "string \<Rightarrow> string"
  assumes g: "graph_ok s" "names_ok s" and it: "iter_ok it"
  defines "s' \<equiv> apply_removed_entity h it e s"
  shows "graph_ok s'" "names_ok s'" "function_index s' = (function_index s)(e := None)"
    "entity_file_index s' = (entity_file_index s)(e := None)"
    "resolved_relation_index s' = (resolved_relation_index s)(e := None)"
    "rev_rel s' = {(k, c) \<in> rev_rel s. k \<noteq> e \<and> c \<noteq> e}" "same_files s s'"
proof -
  let ?r = "snd (remove_function e s)"
  let ?t = "forget_symbol_key h e (?r\<lparr>entity_file_index := (entity_file_index ?r)(e := None)\<rparr>)"
  have s': "s' = forget_relations it e ?t" by (simp add: s'_def apply_removed_entity_def Let_def)
  have gt: "graph_ok ?t" using g(1) by (subst graph_ok_cong [of _ s]) simp_all
  note F = forget_relations_spec [OF gt it, of e, folded s', unfolded Let_def]
  note R = same_restD [OF conjunct2 [OF conjunct2 [OF conjunct2 [OF F]]]]
  have rr: "rev_rel ?t = rev_rel s" by (rule rev_cong(2)) simp
  show "graph_ok s'" "function_index s' = (function_index s)(e := None)"
    "entity_file_index s' = (entity_file_index s)(e := None)"
    "resolved_relation_index s' = (resolved_relation_index s)(e := None)"
    "rev_rel s' = {(k, c) \<in> rev_rel s. k \<noteq> e \<and> c \<noteq> e}"
    using F R rr by (simp_all add: remove_function_fields)
  show "names_ok s'" using R by (subst names_ok_cong [of _ ?r]) (simp_all add: remove_names_ok [OF g(2)])
  show "same_files s s'" using same_rest_files [OF conjunct2 [OF conjunct2 [OF conjunct2 [OF F]]]]
    by (simp add: same_files_def)
qed

lemma apply_removed_entities_spec:
  assumes "graph_ok s" "names_ok s" "iter_ok it"
  shows "let s' = apply_removed_entities h it is s
    in graph_ok s' \<and> names_ok s' \<and> function_index s' = function_index s |` (- set is)
       \<and> entity_file_index s' = entity_file_index s |` (- set is)
       \<and> resolved_relation_index s' = resolved_relation_index s |` (- set is)
       \<and> rev_rel s' = {(k, c) \<in> rev_rel s. k \<notin> set is \<and> c \<notin> set is} \<and> same_files s s'"
  using assms(1,2)
proof (induction "is" arbitrary: s)
  case (Cons e es)
  note A = apply_removed_entity_spec [OF Cons.prems assms(3), of h e]
  from Cons.IH [OF A(1,2)] A(3-6) same_files_trans [OF A(7)] show ?case
    by (auto simp: Let_def apply_removed_entities_def forget_one forget_more Int_commute)
qed (simp add: Let_def apply_removed_entities_def)

section \<open>Adding entities\<close>

lemma apply_added_entity_fields:
  "function_index (apply_added_entity h a s) = (function_index s)(e_id (ae_entity a) \<mapsto> ae_entity a)"
  "name_index (apply_added_entity h a s) = name_index (insert_function (e_id (ae_entity a)) (ae_entity a) s)"
  "entity_file_index (apply_added_entity h a s) = (entity_file_index s)(e_id (ae_entity a) \<mapsto> ae_file_path a)"
  "resolved_relation_index (apply_added_entity h a s) = resolved_relation_index s"
  "reverse_callee_index (apply_added_entity h a s) = reverse_callee_index s" "same_files s (apply_added_entity h a s)"
proof -
  have i: "resolved_relation_index (insert_function i e s) = resolved_relation_index s"
    "reverse_callee_index (insert_function i e s) = reverse_callee_index s"
    "file_relation_index (insert_function i e s) = file_relation_index s"
    "file_callers_by_callee (insert_function i e s) = file_callers_by_callee s"
    "file_records (insert_function i e s) = file_records s" "dependency_graph (insert_function i e s) = dependency_graph s" for i e
    by (simp_all add: insert_function_def ensure_counter_at_least_def Let_def split: option.split)
  have r: "file_records (snd (register_symbol_key h f n e j t)) = file_records t"
    "dependency_graph (snd (register_symbol_key h f n e j t)) = dependency_graph t" for f n e j and t :: "('a, 'b) RelationIndex"
    by (simp_all add: register_symbol_key_def store_symbol_key_def record_symbol_key_conflict_def Let_def split: option.split)
  show "function_index (apply_added_entity h a s) = (function_index s)(e_id (ae_entity a) \<mapsto> ae_entity a)"
    "name_index (apply_added_entity h a s) = name_index (insert_function (e_id (ae_entity a)) (ae_entity a) s)"
    "entity_file_index (apply_added_entity h a s) = (entity_file_index s)(e_id (ae_entity a) \<mapsto> ae_file_path a)"
    "resolved_relation_index (apply_added_entity h a s) = resolved_relation_index s"
    "reverse_callee_index (apply_added_entity h a s) = reverse_callee_index s" "same_files s (apply_added_entity h a s)"
    by (simp_all add: apply_added_entity_def Let_def insert_function_fields i r track_file_entity_def same_files_def)
qed

lemma apply_added_entities_spec:
  assumes "names_ok s"
  shows "let s' = apply_added_entities h as s
    in names_ok s' \<and> function_index s' = function_index s ++ map_of (rev (map (\<lambda>a. (e_id (ae_entity a), ae_entity a)) as))
       \<and> resolved_relation_index s' = resolved_relation_index s \<and> reverse_callee_index s' = reverse_callee_index s
       \<and> same_files s s'"
  using assms
proof (induction as arbitrary: s)
  case (Cons a as)
  let ?s = "apply_added_entity h a s"
  have "names_ok ?s"
    using insert_names_ok [OF Cons.prems, of "e_id (ae_entity a)" "ae_entity a"]
    by (simp add: names_ok_def named_def apply_added_entity_fields)
  note IH = Cons.IH [OF this, unfolded Let_def apply_added_entity_fields(1-5)]
  have "apply_added_entities h (a # as) s = apply_added_entities h as ?s" by (simp add: apply_added_entities_def)
  with IH same_files_trans [OF apply_added_entity_fields(6) [of s h a]] show ?case by (simp add: Let_def)
qed (simp add: Let_def apply_added_entities_def)

section \<open>What a delta carries\<close>

text \<open>An edge as far as the delta compares it: identity and content.\<close>

definition edge_fact :: "'q edge \<Rightarrow> RelationEdgeIdentity \<times> EdgeContent" where
  "edge_fact r = (relation_identity r, edge_content r)"

definition edge_facts :: "('q, 'i) rindex \<Rightarrow> EntityId \<Rightarrow> (RelationEdgeIdentity \<times> EdgeContent) set" where
  "edge_facts s k = edge_fact ` set (fwd_edges s k)"

lemma fwd_identity_inj:
  assumes "fwd_wf s" "e \<in> set (fwd_edges s k)" "e' \<in> set (fwd_edges s k')" "relation_identity e = relation_identity e'"
  shows "e = e'"
proof -
  have "k = k'" using fwd_caller [OF assms(1,2)] fwd_caller [OF assms(1,3)] identity_determines(1) [OF assms(4)] by simp
  moreover have "distinct (map relation_identity (fwd_edges s k))"
    using assms(1) by (auto simp: fwd_edges_def fwd_wf_def es_inv_def split: option.split)
  ultimately show ?thesis using assms(2-4) by (auto simp: distinct_map dest: inj_onD)
qed

lemma set_edges_from:
  assumes "orders_ok ho" "finite (dom (resolved_relation_index s))"
  shows "set (edges_from ho s p) = {r. \<exists>k. p k \<and> r \<in> set (fwd_edges s k)}"
proof -
  have eq: "edges_from ho s p = concat (map (fwd_edges s) (filter p (ho_ids ho (dom (resolved_relation_index s)))))"
    by (simp add: edges_from_def fwd_edges_def [abs_def])
  have mem: "k \<in> dom (resolved_relation_index s)" if "r \<in> set (fwd_edges s k)" for r k
    using that by (cases "resolved_relation_index s k") (auto simp: fwd_edges_def)
  have D: "set (ho_ids ho (dom (resolved_relation_index s))) = dom (resolved_relation_index s)"
    using assms by (simp add: orders_ok_def)
  have "(\<exists>k \<in> dom (resolved_relation_index s). p k \<and> r \<in> set (fwd_edges s k)) \<longleftrightarrow> (\<exists>k. p k \<and> r \<in> set (fwd_edges s k))" for r
    using mem by metis
  moreover have "r \<in> set (edges_from ho s p) \<longleftrightarrow> (\<exists>k \<in> dom (resolved_relation_index s). p k \<and> r \<in> set (fwd_edges s k))" for r
    unfolding eq set_concat set_map set_filter D by (simp only: Union_iff image_iff mem_Collect_eq bex_simps) metis
  ultimately show ?thesis by (simp add: set_eq_iff)
qed

lemma edge_table_snoc: "edge_table (rs @ [r]) = (edge_table rs)(relation_identity r \<mapsto> edge_content r)"
  by (simp add: edge_table_def)

lemma edge_table_Some: "edge_table rs i = Some c \<Longrightarrow> \<exists>r \<in> set rs. relation_identity r = i \<and> edge_content r = c"
proof (induction rs rule: rev_induct)
  case (snoc r rs)
  then show ?case by (auto simp: edge_table_snoc split: if_splits)
qed (simp add: edge_table_def)

lemma edge_table_dom: "r \<in> set rs \<Longrightarrow> edge_table rs (relation_identity r) \<noteq> None"
proof (induction rs rule: rev_induct)
  case (snoc x rs)
  then show ?case by (auto simp: edge_table_snoc)
qed simp

lemma survives_iff:
  assumes "orders_ok ho" "graph_ok s"
  shows "edge_survives (edge_table (edges_from ho s p)) r \<longleftrightarrow> p (caller r) \<and> edge_fact r \<in> edge_facts s (caller r)"
proof -
  have wf: "fwd_wf s" and fin: "finite (dom (resolved_relation_index s))" using assms(2) by (simp_all add: graph_ok_def)
  note S = set_edges_from [OF assms(1) fin, of p]
  show ?thesis
  proof
    assume "edge_survives (edge_table (edges_from ho s p)) r"
    then obtain e k where "p k" "e \<in> set (fwd_edges s k)" "relation_identity e = relation_identity r" "edge_content e = edge_content r"
      using edge_table_Some [of "edges_from ho s p" "relation_identity r" "edge_content r"]
      unfolding edge_survives_def S mem_Collect_eq by blast
    moreover from this have "caller r = k" using fwd_caller [OF wf] identity_determines(1) by metis
    ultimately show "p (caller r) \<and> edge_fact r \<in> edge_facts s (caller r)"
      by (auto simp: edge_facts_def edge_fact_def image_iff intro!: bexI [of _ e])
  next
    assume "p (caller r) \<and> edge_fact r \<in> edge_facts s (caller r)"
    then obtain e where "p (caller r)" "e \<in> set (fwd_edges s (caller r))" "edge_fact e = edge_fact r"
      unfolding edge_facts_def by (metis imageE)
    then have e: "e \<in> set (edges_from ho s p)" "relation_identity e = relation_identity r" "edge_content e = edge_content r"
      unfolding S by (auto simp: edge_fact_def)
    with edge_table_dom [OF e(1)] obtain c where c: "edge_table (edges_from ho s p) (relation_identity r) = Some c" by auto
    from edge_table_Some [OF c] obtain e' where e': "e' \<in> set (edges_from ho s p)" "relation_identity e' = relation_identity r" "edge_content e' = c"
      by blast
    obtain k k' where "e \<in> set (fwd_edges s k)" "e' \<in> set (fwd_edges s k')" using e(1) e'(1) unfolding S by blast
    then have "e' = e" using fwd_identity_inj [OF wf, of e' k' e k] e(2) e'(2) by simp
    with c e(3) e'(3) show "edge_survives (edge_table (edges_from ho s p)) r" by (simp add: edge_survives_def)
  qed
qed

lemma set_callers_of: "set (callers_of s c) = set (rev_callers s c)"
  by (simp add: callers_of_def rev_callers_def split: option.split)

lemma set_unbounded:
  assumes "orders_ok ho" "finite D" "rev_rel old = fwd_rel old"
  shows "set (unbounded_edges ho old affected D) =
    {r. \<exists>k. \<not> entity_in_scope old affected k \<and> r \<in> set (fwd_edges old k) \<and> (\<exists>c \<in> D. callee_id r = Some c)}"
proof -
  have mir: "k \<in> set (rev_callers old c) \<longleftrightarrow> (k, c) \<in> fwd_rel old" for k c
    using assms(3) by (auto simp: rev_rel_def)
  have rel: "(case relations_of old k of None \<Rightarrow> [] | Some rs \<Rightarrow> filter (\<lambda>r. callee_id r = Some c) rs)
      = filter (\<lambda>r. callee_id r = Some c) (fwd_edges old k)" for k c
    by (simp add: relations_of_def fwd_edges_def split: option.split)
  have D: "set (ho_ids ho D) = D" using assms(1,2) by (simp add: orders_ok_def)
  have known: "k \<in> set (rev_callers old c)" if "r \<in> set (fwd_edges old k)" "callee_id r = Some c" for r k c
    using that unfolding mir by (auto simp: fwd_rel_def)
  have "set (unbounded_edges ho old affected D) = {r. \<exists>c \<in> D. \<exists>k \<in> set (rev_callers old c).
      \<not> entity_in_scope old affected k \<and> r \<in> set (fwd_edges old k) \<and> callee_id r = Some c}"
    by (auto simp: unbounded_edges_def set_callers_of rel D split: if_splits)
  then show ?thesis using known by blast
qed

lemma detect_renames_length:
  "detect_renames ms added m p = (m', p') \<Longrightarrow> length m' + length p = length m + length p'"
  by (induction ms added m p arbitrary: m' p' rule: detect_renames.induct) (fastforce split: option.splits)+

lemma entity_diff_without_renames:
  assumes "compute_entity_diff h ho hn new old affected = (R, A, [])"
  shows "R = map rm_id (removed_entity_meta ho new old affected)" "A = added_candidates h hn new old affected"
proof -
  obtain m p where mp: "detect_renames (removed_entity_meta ho new old affected) (added_candidates h hn new old affected) [] [] = (m, p)"
    by fastforce
  with assms have "p = []" by (simp add: compute_entity_diff_def Let_def)
  moreover from this detect_renames_length [OF mp] have "m = []" by simp
  ultimately show "R = map rm_id (removed_entity_meta ho new old affected)" "A = added_candidates h hn new old affected"
    using assms mp by (simp_all add: compute_entity_diff_def Let_def)
qed

text \<open>A scan over the entries of a map that keeps some of them.\<close>

lemma set_scan:
  assumes "iter_ok it" "finite (dom m)"
  shows "set (List.map_filter (\<lambda>i. case m i of None \<Rightarrow> None | Some x \<Rightarrow> if P i then Some (f i x) else None) (it (dom m)))
    = {f i x | i x. m i = Some x \<and> P i}"
proof -
  have D: "set (it (dom m)) = dom m" using assms by simp
  have one: "(case m i of None \<Rightarrow> None | Some x \<Rightarrow> if P i then Some (f i x) else None) = Some y
      \<longleftrightarrow> (\<exists>x. m i = Some x \<and> P i \<and> y = f i x)" for i y
    by (cases "m i") auto
  show ?thesis unfolding set_eq_iff set_map_filter_iff D one by blast
qed

lemma set_map_scan:
  assumes "iter_ok it" "finite (dom m)"
  shows "set (map g (List.map_filter (\<lambda>i. case m i of None \<Rightarrow> None | Some x \<Rightarrow> if P i then Some (f i x) else None) (it (dom m))))
    = {g (f i x) | i x. m i = Some x \<and> P i}"
  unfolding set_map set_scan [OF assms] by blast

lemma set_removed:
  assumes "orders_ok ho" "finite (dom (function_index old))"
  shows "set (map rm_id (removed_entity_meta ho new old affected)) =
    {i. function_index old i \<noteq> None \<and> entity_in_scope old affected i \<and> function_index new i = None}"
proof -
  have it: "iter_ok (ho_ids ho)" using assms(1) by (simp add: orders_ok_def)
  show ?thesis
    unfolding removed_entity_meta_def set_map_scan [OF it assms(2)] by auto
qed

lemma set_added:
  assumes "orders_ok hn" "finite (dom (function_index new))" "\<And>i e. function_index new i = Some e \<Longrightarrow> e_id e = i"
  shows "set (map (\<lambda>a. (e_id (ae_entity a), ae_entity a)) (added_candidates h hn new old affected)) =
    {(i, e). function_index new i = Some e \<and> entity_in_scope new affected i \<and> function_index old i = None}"
proof -
  have it: "iter_ok (ho_ids hn)" using assms(1) by (simp add: orders_ok_def)
  have ae: "ae_entity (added_entity h new i e) = e" for i e
    by (simp add: added_entity_def Let_def split: option.split)
  show ?thesis
    unfolding added_candidates_def set_map_scan [OF it assms(2)] ae using assms(3) by auto
qed

lemma map_of_functional:
  assumes "set xs = {(i, e). m i = Some e}"
  shows "map_of xs = m"
proof
  fix i
  show "map_of xs i = m i"
  proof (cases "map_of xs i")
    case None
    then have "i \<notin> fst ` set xs" by (simp add: map_of_eq_None_iff)
    then show ?thesis using None assms by (cases "m i") (auto simp: image_iff)
  next
    case (Some e)
    then show ?thesis using map_of_SomeD [OF Some] assms by simp
  qed
qed

section \<open>Adding relations\<close>

lemma add_relations_fold:
  assumes "graph_ok s" "rev_rel s = fwd_rel s"
    "\<forall>r \<in> set rs. \<forall>e \<in> set (fwd_edges s (caller r)) \<union> set rs. relation_identity e = relation_identity r \<longrightarrow> e = r"
  shows "let s' = apply_added_relations rs s
    in graph_ok s' \<and> rev_rel s' = fwd_rel s' \<and> same_rest s s'
       \<and> (\<forall>k. set (fwd_edges s' k) = set (fwd_edges s k) \<union> {r \<in> set rs. caller r = k})"
  using assms
proof (induction rs arbitrary: s)
  case (Cons r rs)
  let ?s = "add_resolved_relation r s"
  have g: "fwd_wf s" "rev_wf s" using Cons.prems(1) by (simp_all add: graph_ok_def)
  have mem: "r \<in> set (fwd_edges s (caller r))" if "\<not> snd (es_insert r (forward_set s (caller r)))"
  proof -
    have "relation_identity r \<in> relation_identity ` set (fwd_edges s (caller r))"
      using that forward_set_inv [OF g(1), of "caller r"] by (simp add: es_insert_edges es_inv_def)
    then show ?thesis using Cons.prems(3) by force
  qed
  have fe: "set (fwd_edges ?s k) = set (fwd_edges s k) \<union> (if k = caller r then {r} else {})" for k
    using mem by (cases "snd (es_insert r (forward_set s k))") (auto simp: add_relation_fwd_edges)
  have "same_rest s ?s"
    by (simp add: add_resolved_relation_eq Let_def same_rest_def track_reverse_caller_def split: option.split)
  note T = same_rest_trans [OF this]
  have uniq: "\<forall>x \<in> set rs. \<forall>e \<in> set (fwd_edges ?s (caller x)) \<union> set rs. relation_identity e = relation_identity x \<longrightarrow> e = x"
    using Cons.prems(3) unfolding fe by auto
  have "graph_ok ?s" "rev_rel ?s = fwd_rel ?s"
    using add_relation_graph_ok [OF Cons.prems(1)] add_relation_mirror [OF g Cons.prems(2)] by blast+
  note IH = Cons.IH [OF this uniq, unfolded Let_def fe]
  have eq: "apply_added_relations (r # rs) s = apply_added_relations rs ?s" by (simp add: apply_added_relations_def)
  from IH have t: "graph_ok (apply_added_relations rs ?s)" "same_rest ?s (apply_added_relations rs ?s)"
    "rev_rel (apply_added_relations rs ?s) = fwd_rel (apply_added_relations rs ?s)"
    "\<And>k. set (fwd_edges (apply_added_relations rs ?s) k) =
       set (fwd_edges s k) \<union> (if k = caller r then {r} else {}) \<union> {x \<in> set rs. caller x = k}" by simp_all
  have "set (fwd_edges s k) \<union> (if k = caller r then {r} else {}) \<union> {x \<in> set rs. caller x = k}
      = set (fwd_edges s k) \<union> {x \<in> set (r # rs). caller x = k}" for k by auto
  then have e: "set (fwd_edges (apply_added_relations rs ?s) k) = set (fwd_edges s k) \<union> {x \<in> set (r # rs). caller x = k}" for k
    unfolding t(4) .
  show ?case unfolding eq Let_def by (intro conjI allI t(1,3) T [OF t(2)] e)
qed (simp add: Let_def apply_added_relations_def)

section \<open>Steps that leave entities and edges alone\<close>

definition same_graph :: "('p, 'i) RelationIndex \<Rightarrow> ('p, 'i) RelationIndex \<Rightarrow> bool" where
  "same_graph s s' \<longleftrightarrow> function_index s' = function_index s \<and> name_index s' = name_index s
     \<and> resolved_relation_index s' = resolved_relation_index s \<and> reverse_callee_index s' = reverse_callee_index s"

lemma same_graph_refl [simp]: "same_graph s s"
  by (simp add: same_graph_def)

lemma same_graph_trans: "same_graph s s' \<Longrightarrow> same_graph s' s'' \<Longrightarrow> same_graph s s''"
  by (simp add: same_graph_def)

lemma same_graph_fold: "(\<And>x s. same_graph s (f x s)) \<Longrightarrow> same_graph s (fold f xs s)"
  by (induction xs arbitrary: s) (auto intro: same_graph_trans)

lemma same_graphD:
  assumes "same_graph s s'"
  shows "graph_ok s' = graph_ok s" "names_ok s' = names_ok s" "fwd_rel s' = fwd_rel s" "rev_rel s' = rev_rel s"
    "function_index s' = function_index s" "fwd_edges s' k = fwd_edges s k"
  using assms graph_ok_cong [of s' s] names_ok_cong [of s' s] fwd_rel_cong [of s' s] rev_cong(2) [of s' s] fwd_edges_cong [of s' s k]
  by (simp_all add: same_graph_def)

lemma removed_file_same_graph: "same_graph s (apply_removed_file fit p s)"
proof -
  let ?t = "s\<lparr>file_records := (file_records s)(p := None), dependency_graph := dg_remove_file fit p (dependency_graph s)\<rparr>"
  show ?thesis
    using take_file_frame [of p ?t] by (simp add: apply_removed_file_def same_graph_def Let_def)
qed

lemma added_file_same_graph: "same_graph s (apply_added_file f s)"
  by (simp add: apply_added_file_def same_graph_def)

lemma file_diff_same_graph: "same_graph s (apply_file_relation_diff d s)"
proof -
  have "same_graph s (retrack_file_caller f c s)" for f c and s :: "('q, 'i) rindex"
    by (auto simp: retrack_file_caller_def untrack_file_caller_def track_file_caller_def same_graph_def Let_def split: option.split)
  note F = same_graph_fold [of "retrack_file_caller f" for f, OF this]
  show ?thesis
    unfolding apply_file_relation_diff_def Let_def by (rule same_graph_trans [OF _ F]) (simp add: same_graph_def)
qed

lemma diffs_same_graph:
  "same_graph s (apply_import_diff md s)" "same_graph s (apply_export_diff ed s)" "same_graph s (apply_dependency_diff dd s)"
  by (simp_all add: apply_import_diff_def apply_export_diff_def apply_dependency_diff_def same_graph_def Let_def split_beta split: option.split)

section \<open>The replay theorem\<close>

definition removed_ids :: "('p, 'i) RelationIndex \<Rightarrow> ('p, 'i) RelationIndex \<Rightarrow> scope \<Rightarrow> EntityId set" where
  "removed_ids new old affected =
     {i. function_index old i \<noteq> None \<and> entity_in_scope old affected i \<and> function_index new i = None}"

text \<open>
  What a candidate built on a base provides: entities filed under their own ids; callers in scope
  are entities of the candidate, and have edges in the base only if they are in scope there too;
  no edge of theirs leads to an entity the delta removes.
\<close>

definition candidate_ok :: "('p, 'i) RelationIndex \<Rightarrow> ('p, 'i) RelationIndex \<Rightarrow> scope \<Rightarrow> bool" where
  "candidate_ok new old affected \<longleftrightarrow>
     (\<forall>i e. function_index new i = Some e \<longrightarrow> e_id e = i)
   \<and> (\<forall>k. entity_in_scope new affected k \<and> fwd_edges new k \<noteq> [] \<longrightarrow>
        function_index new k \<noteq> None \<and> (entity_in_scope old affected k \<or> fwd_edges old k = []))
   \<and> (\<forall>k r c. entity_in_scope new affected k \<and> r \<in> set (fwd_edges new k) \<and> callee_id r = Some c \<longrightarrow>
        c \<notin> removed_ids new old affected)"

text \<open>No removed edge has caller and callee in one shard.\<close>

definition shards_apart :: "(EntityId \<Rightarrow> nat) \<Rightarrow> 'q edge list \<Rightarrow> bool" where
  "shards_apart shard rs \<longleftrightarrow> (\<forall>r \<in> set rs. \<forall>c. callee_id r = Some c \<longrightarrow> shard (caller r) \<noteq> shard c)"

text \<open>The index before edges are replayed.\<close>

definition entities_replayed ::
  "(string \<Rightarrow> string) \<Rightarrow> hash_orders \<Rightarrow> ('q, 'i) SnapshotDelta \<Rightarrow> ('q, 'i) rindex \<Rightarrow> ('q, 'i) rindex" where
  "entities_replayed h ho delta s =
     apply_added_entities h (added_entities delta)
       (apply_removed_entities h (ho_ids ho) (removed_entities delta)
         (fold apply_added_file (added_files delta) (fold (apply_removed_file (ho_paths ho)) (removed_files delta) s)))"

definition files_replayed :: "('q, 'i) SnapshotDelta \<Rightarrow> ('q, 'i) rindex \<Rightarrow> ('q, 'i) rindex" where
  "files_replayed delta s =
     fold apply_dependency_diff (dependency_diffs delta) (fold apply_export_diff (export_diffs delta)
       (fold apply_import_diff (import_diffs delta) (apply_file_relation_diffs (file_relation_diffs delta) s)))"

lemma apply_delta_eq:
  assumes "renamed_entities delta = []"
  shows "apply_delta h ho shard delta s =
    map_option (\<lambda>s6. files_replayed delta (apply_added_relations (added_relations delta) s6))
      (apply_removed_relations shard (removed_relations delta) (entities_replayed h ho delta s))"
  using assms by (simp add: apply_delta_def entities_replayed_def files_replayed_def apply_renamed_entities_def Let_def split: option.split)

lemma files_replayed_same_graph: "same_graph s (files_replayed delta s)"
  unfolding files_replayed_def apply_file_relation_diffs_def
  by (intro same_graph_trans [OF _ same_graph_fold] same_graph_fold diffs_same_graph file_diff_same_graph)

text \<open>The parts of a computed delta that concern entities and edges, without renames.\<close>

lemma computed_parts:
  fixes new old :: "('q, 'i) rindex" and ep be :: int and h :: "string \<Rightarrow> string" and fp :: string and affected :: scope and ho hn
  defines "delta \<equiv> compute_delta h ho hn new old ep be fp affected"
  assumes ho: "orders_ok ho" "orders_ok hn" and old: "index_inv old" "rev_rel old = fwd_rel old" and new: "index_inv new"
    and cand: "candidate_ok new old affected" and ren: "renamed_entities delta = []"
  shows "set (removed_entities delta) = removed_ids new old affected"
    "map_of (rev (map (\<lambda>a. (e_id (ae_entity a), ae_entity a)) (added_entities delta)))
       = (\<lambda>i. if entity_in_scope new affected i \<and> function_index old i = None then function_index new i else None)"
    "set (removed_relations delta) =
       {r. \<exists>k. r \<in> set (fwd_edges old k) \<and> k \<notin> removed_ids new old affected \<and> entity_in_scope old affected k
           \<and> \<not> (entity_in_scope new affected k \<and> edge_fact r \<in> edge_facts new k)}
     \<union> {r. \<exists>k. r \<in> set (fwd_edges old k) \<and> \<not> entity_in_scope old affected k
           \<and> (\<exists>c \<in> removed_ids new old affected. callee_id r = Some c)}"
    "set (added_relations delta) =
       {r. \<exists>k. r \<in> set (fwd_edges new k) \<and> entity_in_scope new affected k
           \<and> \<not> (entity_in_scope old affected k \<and> edge_fact r \<in> edge_facts old k)}"
proof -
  let ?D = "removed_ids new old affected"
  have fin: "finite (dom (function_index old))" "finite (dom (function_index new))"
    using old(1) new by (simp_all add: index_inv_def entity_inv_def entity_wf_def)
  have g: "graph_ok old" "graph_ok new" using old(1) new by (simp_all add: index_inv_def)
  then have wf: "fwd_wf old" "fwd_wf new" "finite (dom (resolved_relation_index old))" "finite (dom (resolved_relation_index new))"
    by (simp_all add: graph_ok_def)
  have key: "\<And>i e. function_index new i = Some e \<Longrightarrow> e_id e = i" using cand by (simp add: candidate_ok_def)
  have none: "entity_in_scope s (Some {}) k = False" for s :: "('q, 'i) rindex" and k
    by (simp add: entity_in_scope_def split: option.split)
  obtain R A P where RAP: "compute_entity_diff h ho hn new old affected = (R, A, P)" using prod_cases3 by blast
  obtain RR AR c where RR: "compute_relation_diff ho hn new old affected (set R) = (RR, AR, c)" using prod_cases3 by blast
  have R0: "set (map rm_id (removed_entity_meta ho new old affected)) = ?D"
    unfolding removed_ids_def by (rule set_removed [OF ho(1) fin(1)])
  note A0 = set_added [OF ho(2) fin(2) key, of h old affected]
  have ent: "set (removed_entities delta) = ?D \<and> set (map (\<lambda>a. (e_id (ae_entity a), ae_entity a)) (added_entities delta))
      = {(i, e). function_index new i = Some e \<and> entity_in_scope new affected i \<and> function_index old i = None}
    \<and> (affected \<noteq> Some {} \<longrightarrow> set R = ?D)"
  proof (cases "affected = Some {}")
    case True
    then show ?thesis by (simp add: delta_def compute_delta_def empty_delta_def removed_ids_def none)
  next
    case False
    then have d: "removed_entities delta = R" "added_entities delta = A" "P = []"
      using ren by (simp_all add: delta_def compute_delta_def RAP RR)
    from entity_diff_without_renames [OF RAP [unfolded d(3)]] R0 A0 d show ?thesis by simp
  qed
  then show "set (removed_entities delta) = ?D" by simp
  show "map_of (rev (map (\<lambda>a. (e_id (ae_entity a), ae_entity a)) (added_entities delta)))
       = (\<lambda>i. if entity_in_scope new affected i \<and> function_index old i = None then function_index new i else None)"
    using ent by (intro map_of_functional) (auto split: if_splits)
  have finD: "finite ?D" by (rule finite_subset [OF _ fin(1)]) (auto simp: removed_ids_def)
  have rel: "set (removed_relations delta) = (if affected = Some {} then {} else set RR)"
    "set (added_relations delta) = (if affected = Some {} then {} else set AR)"
    by (simp_all add: delta_def compute_delta_def RAP RR empty_delta_def)
  note FR = set_edges_from [OF ho(1) wf(3)] set_edges_from [OF ho(2) wf(4)]
  note S = survives_iff [OF ho(1) g(1)] survives_iff [OF ho(2) g(2)]
  note C = fwd_caller [OF wf(1)] fwd_caller [OF wf(2)]
  have RRs: "affected \<noteq> Some {} \<Longrightarrow> set RR = {r. \<exists>k. r \<in> set (fwd_edges old k) \<and> k \<notin> ?D \<and> entity_in_scope old affected k
           \<and> \<not> (entity_in_scope new affected k \<and> edge_fact r \<in> edge_facts new k)}
     \<union> {r. \<exists>k. r \<in> set (fwd_edges old k) \<and> \<not> entity_in_scope old affected k \<and> (\<exists>c \<in> ?D. callee_id r = Some c)}"
    using RR [symmetric] ent set_unbounded [OF ho(2) finD old(2), of affected] C(1)
    by (auto simp: compute_relation_diff_def Let_def FR S) 
  then show "set (removed_relations delta) = {r. \<exists>k. r \<in> set (fwd_edges old k) \<and> k \<notin> ?D \<and> entity_in_scope old affected k
           \<and> \<not> (entity_in_scope new affected k \<and> edge_fact r \<in> edge_facts new k)}
     \<union> {r. \<exists>k. r \<in> set (fwd_edges old k) \<and> \<not> entity_in_scope old affected k \<and> (\<exists>c \<in> ?D. callee_id r = Some c)}"
    by (cases "affected = Some {}") (simp_all add: rel none removed_ids_def)
  have "affected \<noteq> Some {} \<Longrightarrow> set AR = {r. \<exists>k. r \<in> set (fwd_edges new k) \<and> entity_in_scope new affected k
           \<and> \<not> (entity_in_scope old affected k \<and> edge_fact r \<in> edge_facts old k)}"
    using RR [symmetric] C(2) by (auto simp: compute_relation_diff_def Let_def FR S)
  then show "set (added_relations delta) = {r. \<exists>k. r \<in> set (fwd_edges new k) \<and> entity_in_scope new affected k
           \<and> \<not> (entity_in_scope old affected k \<and> edge_fact r \<in> edge_facts old k)}"
    by (cases "affected = Some {}") (simp_all add: rel none)
qed

section \<open>The result of a replay\<close>

definition replay_entities :: "('q, 'i) rindex \<Rightarrow> ('q, 'i) rindex \<Rightarrow> scope \<Rightarrow> EntityId \<Rightarrow> Entity option" where
  "replay_entities new old affected i =
     (if i \<in> removed_ids new old affected then None
      else case function_index old i of
             Some e \<Rightarrow> Some e
           | None \<Rightarrow> if entity_in_scope new affected i then function_index new i else None)"

definition replay_facts :: "('q, 'i) rindex \<Rightarrow> ('q, 'i) rindex \<Rightarrow> scope \<Rightarrow> EntityId \<Rightarrow> (RelationEdgeIdentity \<times> EdgeContent) set" where
  "replay_facts new old affected k =
     (if entity_in_scope new affected k then edge_facts new k else {})
   \<union> (if entity_in_scope old affected k then {}
      else edge_fact ` {r \<in> set (fwd_edges old k). \<forall>c. callee_id r = Some c \<longrightarrow> c \<notin> removed_ids new old affected})"

lemma index_inv_parts: "index_inv s \<Longrightarrow> graph_ok s" "index_inv s \<Longrightarrow> names_ok s"
  by (simp_all add: index_inv_def entity_inv_def entity_wf_def)

lemma entities_replayed_spec:
  fixes old :: "('q, 'i) rindex" and delta :: "('q, 'i) SnapshotDelta"
  assumes old: "graph_ok old" "names_ok old" "rev_rel old = fwd_rel old" and hr: "orders_ok hr"
  defines "R \<equiv> set (removed_entities delta)"
  shows "let s = entities_replayed h hr delta old
    in graph_ok s \<and> names_ok s
       \<and> function_index s = (function_index old |` (- R))
           ++ map_of (rev (map (\<lambda>a. (e_id (ae_entity a), ae_entity a)) (added_entities delta)))
       \<and> (\<forall>k. fwd_edges s k = (if k \<in> R then [] else fwd_edges old k)) \<and> mirror_but R s"
proof -
  let ?s2 = "fold apply_added_file (added_files delta) (fold (apply_removed_file (ho_paths hr)) (removed_files delta) old)"
  let ?s3 = "apply_removed_entities h (ho_ids hr) (removed_entities delta) ?s2"
  have "same_graph old ?s2"
    by (intro same_graph_trans [OF _ same_graph_fold] same_graph_fold removed_file_same_graph added_file_same_graph)
  note S2 = same_graphD [OF this] this [unfolded same_graph_def]
  have it: "iter_ok (ho_ids hr)" using hr by (simp add: orders_ok_def)
  have g2: "graph_ok ?s2" "names_ok ?s2"
    using old by (simp_all add: S2)
  note A3 = apply_removed_entities_spec [OF g2 it, of h "removed_entities delta", unfolded Let_def, folded R_def]
  note A4 = apply_added_entities_spec [OF conjunct1 [OF conjunct2 [OF A3]], of h "added_entities delta", unfolded Let_def,
      folded entities_replayed_def]
  let ?s = "entities_replayed h hr delta old"
  have rri: "resolved_relation_index ?s = resolved_relation_index old |` (- R)" and rci: "reverse_callee_index ?s = reverse_callee_index ?s3"
    using A3 A4 S2(7) by simp_all
  have fe: "fwd_edges ?s k = (if k \<in> R then [] else fwd_edges old k)" for k by (rule fwd_edges_restrict [OF rri])
  have "graph_ok ?s" using A3 A4 by (subst graph_ok_cong [of _ ?s3]) simp_all
  moreover have "mirror_but R ?s"
    using A3 old(3) rev_cong(2) [OF rci] S2(4) fwd_rel_restrict [OF rri] by (auto simp: mirror_but_def)
  moreover have "function_index ?s = (function_index old |` (- R))
           ++ map_of (rev (map (\<lambda>a. (e_id (ae_entity a), ae_entity a)) (added_entities delta)))"
    using A3 A4 S2(5) by simp
  ultimately show ?thesis using A4 fe by (simp add: Let_def)
qed

lemma image_common_or_new: "f ` ({a \<in> A. f a \<in> f ` B} \<union> {b \<in> B. f b \<notin> f ` A}) = f ` B"
proof (intro equalityI subsetI)
  fix y
  assume "y \<in> f ` B"
  then obtain b where b: "b \<in> B" "y = f b" by blast
  show "y \<in> f ` ({a \<in> A. f a \<in> f ` B} \<union> {b \<in> B. f b \<notin> f ` A})"
  proof (cases "f b \<in> f ` A")
    case True
    then obtain a where "a \<in> A" "f a = f b" by force
    with b show ?thesis by (intro image_eqI [of _ _ a]) auto
  qed (use b in blast)
qed auto

text \<open>The edges that are left and the edges that are added make up the result.\<close>

lemma replay_edges:
  fixes new old :: "('q, 'i) rindex" and affected :: scope
  defines "D \<equiv> removed_ids new old affected"
  assumes wf: "fwd_wf old" "fwd_wf new" and cand: "candidate_ok new old affected"
    and RR: "RR = {r. \<exists>k. r \<in> set (fwd_edges old k) \<and> k \<notin> D \<and> entity_in_scope old affected k
           \<and> \<not> (entity_in_scope new affected k \<and> edge_fact r \<in> edge_facts new k)}
     \<union> {r. \<exists>k. r \<in> set (fwd_edges old k) \<and> \<not> entity_in_scope old affected k \<and> (\<exists>c \<in> D. callee_id r = Some c)}"
    and AR: "AR = {r. \<exists>k. r \<in> set (fwd_edges new k) \<and> entity_in_scope new affected k
           \<and> \<not> (entity_in_scope old affected k \<and> edge_fact r \<in> edge_facts old k)}"
    and L: "\<And>k. L k = {e \<in> set (fwd_edges old k). k \<notin> D \<and> relation_identity e \<notin> relation_identity ` RR}"
  shows "edge_fact ` (L k \<union> {r \<in> AR. caller r = k}) = replay_facts new old affected k"
    "r \<in> AR \<Longrightarrow> e \<in> L (caller r) \<union> AR \<Longrightarrow> relation_identity e = relation_identity r \<Longrightarrow> e = r"
    "e \<in> L k \<union> AR \<Longrightarrow> callee_id e = Some c \<Longrightarrow> c \<notin> D"
proof -
  note C = fwd_caller [OF wf(1)] fwd_caller [OF wf(2)]
  have scoped: "entity_in_scope old affected i" if "i \<in> D" for i using that by (simp add: D_def removed_ids_def)
  have live: "k \<notin> D" "entity_in_scope old affected k \<or> fwd_edges old k = []"
    if "entity_in_scope new affected k" "fwd_edges new k \<noteq> []" for k
    using cand that by (auto simp: candidate_ok_def D_def removed_ids_def)
  have target: "c \<notin> D" if "entity_in_scope new affected k" "r \<in> set (fwd_edges new k)" "callee_id r = Some c" for k r c
    using cand that by (auto simp: candidate_ok_def D_def)
  have inj: "e = e'" if "e \<in> set (fwd_edges old k)" "e' \<in> set (fwd_edges old k')" "relation_identity e = relation_identity e'" for e e' k k'
    using fwd_identity_inj [OF wf(1) that] .
  have mem: "e \<in> L k \<longleftrightarrow> e \<in> set (fwd_edges old k) \<and> k \<notin> D
      \<and> (if entity_in_scope old affected k then entity_in_scope new affected k \<and> edge_fact e \<in> edge_facts new k
         else \<forall>c. callee_id e = Some c \<longrightarrow> c \<notin> D)" for e k
  proof (cases "e \<in> set (fwd_edges old k)")
    case e: True
    have "relation_identity e \<in> relation_identity ` RR \<longleftrightarrow> e \<in> RR"
    proof
      assume "relation_identity e \<in> relation_identity ` RR"
      then obtain r where "relation_identity e = relation_identity r" "r \<in> RR" by blast
      moreover from this(2) obtain k' where "r \<in> set (fwd_edges old k')" unfolding RR by blast
      ultimately show "e \<in> RR" using inj [OF e] by metis
    qed simp
    moreover have "k' = k" if "e \<in> set (fwd_edges old k')" for k' using C(1) [OF that] C(1) [OF e] by simp
    then have "(\<exists>k'. e \<in> set (fwd_edges old k') \<and> P k') \<longleftrightarrow> P k" for P using e by metis
    then have "e \<in> RR \<longleftrightarrow> (if entity_in_scope old affected k then k \<notin> D \<and> \<not> (entity_in_scope new affected k \<and> edge_fact e \<in> edge_facts new k)
        else \<exists>c \<in> D. callee_id e = Some c)"
      unfolding RR Un_iff mem_Collect_eq by (simp del: ex_simps)
    ultimately show ?thesis unfolding L mem_Collect_eq using e by auto
  qed (simp add: L)
  have ar: "r \<in> AR \<longleftrightarrow> r \<in> set (fwd_edges new (caller r)) \<and> entity_in_scope new affected (caller r)
           \<and> \<not> (entity_in_scope old affected (caller r) \<and> edge_fact r \<in> edge_facts old (caller r))" for r
    using C(2) [of r] by (auto simp: AR)
  show "c \<notin> D" if e: "e \<in> L k \<union> AR" "callee_id e = Some c"
  proof (cases "e \<in> AR")
    case True
    with target e(2) show ?thesis by (auto simp: ar)
  next
    case False
    with e(1) have l: "e \<in> L k" by simp
    show ?thesis
    proof (cases "entity_in_scope old affected k")
      case True
      with l have "entity_in_scope new affected k" "edge_fact e \<in> edge_facts new k" by (simp_all add: mem)
      then obtain r where r: "r \<in> set (fwd_edges new k)" "edge_fact r = edge_fact e" by (auto simp: edge_facts_def)
      then have "callee_id r = Some c" using identity_determines(2) [of r e] e(2) by (simp add: edge_fact_def)
      with target [OF \<open>entity_in_scope new affected k\<close> r(1)] show ?thesis by simp
    next
      case False
      with l e(2) show ?thesis by (simp add: mem)
    qed
  qed
  show "e = r" if r: "r \<in> AR" and e: "e \<in> L (caller r) \<union> AR" and same: "relation_identity e = relation_identity r"
  proof (cases "e \<in> AR")
    case True
    with r same show ?thesis using fwd_identity_inj [OF wf(2), of e "caller e" r "caller r"] by (simp add: ar)
  next
    case False
    with e have l: "e \<in> L (caller r)" by simp
    have n: "r \<in> set (fwd_edges new (caller r))" "entity_in_scope new affected (caller r)" using r by (simp_all add: ar)
    have old: "e \<in> set (fwd_edges old (caller r))" using l by (simp add: mem)
    with live(2) [OF n(2)] n(1) have sc: "entity_in_scope old affected (caller r)" by fastforce
    with l obtain r' where r': "r' \<in> set (fwd_edges new (caller r))" "edge_fact r' = edge_fact e"
      by (auto simp: mem edge_facts_def)
    then have "r' = r" using fwd_identity_inj [OF wf(2) r'(1) n(1)] same by (simp add: edge_fact_def)
    with r' old have "edge_fact r \<in> edge_facts old (caller r)" unfolding edge_facts_def by (metis imageI)
    with r sc show ?thesis by (simp add: ar)
  qed
  show "edge_fact ` (L k \<union> {r \<in> AR. caller r = k}) = replay_facts new old affected k"
  proof -
    have A: "{r \<in> AR. caller r = k} = {r \<in> set (fwd_edges new k). entity_in_scope new affected k
        \<and> \<not> (entity_in_scope old affected k \<and> edge_fact r \<in> edge_facts old k)}"
      using C(2) by (auto simp: ar)
    have no_old: "k \<notin> D" if "\<not> entity_in_scope old affected k" using scoped that by blast
    have alive: "k \<notin> D" if "r \<in> set (fwd_edges new k)" "entity_in_scope new affected k" for r using live(1) that by fastforce
    have Lk: "L k = (if entity_in_scope old affected k
        then {e \<in> set (fwd_edges old k). k \<notin> D \<and> entity_in_scope new affected k \<and> edge_fact e \<in> edge_facts new k}
        else {e \<in> set (fwd_edges old k). \<forall>c. callee_id e = Some c \<longrightarrow> c \<notin> D})"
      using no_old by (auto simp: set_eq_iff mem)
    show ?thesis
    proof (cases "entity_in_scope old affected k")
      case True
      show ?thesis
      proof (cases "entity_in_scope new affected k \<and> set (fwd_edges new k) \<noteq> {}")
        case sc: True
        then have "k \<notin> D" using alive by fastforce
        with sc True image_common_or_new [of edge_fact "set (fwd_edges old k)" "set (fwd_edges new k)"] show ?thesis
          unfolding A Lk replay_facts_def by (simp add: edge_facts_def)
      next
        case False
        with True show ?thesis unfolding A Lk replay_facts_def by (auto simp: edge_facts_def)
      qed
    next
      case False
      show ?thesis
        unfolding A Lk replay_facts_def using False by (auto simp: edge_facts_def D_def image_Un)
    qed
  qed
qed



end
