(* ===== verification/Delta_Effects.thy ===== *)
theory Delta_Effects
  imports Delta_Replay Dependency_Cycles
begin

text \<open>
  The rest of a delta: the renames it detects and what their replay does to entities and names,
  and the file records and dependencies. The witnesses of the delta theorems stand at the end.
\<close>

section \<open>Renames\<close>

text \<open>The replay of a rename moves the stored entity to the new id as it is.\<close>

lemma rename_relations_frame [simp]:
  "function_index (rename_relations o' n nn s) = function_index s" "name_index (rename_relations o' n nn s) = name_index s"
  "entity_file_index (rename_relations o' n nn s) = entity_file_index s"
proof -
  have f: "function_index (fold (\<lambda>k s. case resolved_relation_index s k of None \<Rightarrow> s
        | Some rs \<Rightarrow> s\<lparr>resolved_relation_index := (resolved_relation_index s)(k \<mapsto> migrate_edges o' n nn rs)\<rparr>) ks t) = function_index t
      \<and> name_index (fold (\<lambda>k s. case resolved_relation_index s k of None \<Rightarrow> s
        | Some rs \<Rightarrow> s\<lparr>resolved_relation_index := (resolved_relation_index s)(k \<mapsto> migrate_edges o' n nn rs)\<rparr>) ks t) = name_index t
      \<and> entity_file_index (fold (\<lambda>k s. case resolved_relation_index s k of None \<Rightarrow> s
        | Some rs \<Rightarrow> s\<lparr>resolved_relation_index := (resolved_relation_index s)(k \<mapsto> migrate_edges o' n nn rs)\<rparr>) ks t) = entity_file_index t" for ks t
    by (induction ks arbitrary: t) (auto split: option.split)
  show "function_index (rename_relations o' n nn s) = function_index s" "name_index (rename_relations o' n nn s) = name_index s"
    "entity_file_index (rename_relations o' n nn s) = entity_file_index s"
    by (simp_all add: rename_relations_def Let_def f split: option.split)
qed

lemma apply_renamed_entity_fields:
  "function_index (apply_renamed_entity h (o', n, on, nn) s) =
     (case function_index s o' of None \<Rightarrow> function_index s | Some e \<Rightarrow> (function_index s)(o' := None, n \<mapsto> e))"
  "name_index (apply_renamed_entity h (o', n, on, nn) s) = name_index s"
  by (simp_all add: apply_renamed_entity_def rename_symbol_def Let_def split: option.split)

lemma fold_frame: "(\<And>x t. g (f x t) = g t) \<Longrightarrow> g (fold f xs t) = g t"
  by (induction xs arbitrary: t) auto

lemma rebuild_reverse_frame:
  "function_index (rebuild_reverse_callee_index it s) = function_index s" "name_index (rebuild_reverse_callee_index it s) = name_index s"
proof -
  have one: "function_index (case callee_id rel of Some c \<Rightarrow> track_reverse_caller c k t | None \<Rightarrow> t) = function_index t"
    "name_index (case callee_id rel of Some c \<Rightarrow> track_reverse_caller c k t | None \<Rightarrow> t) = name_index t"
    for rel :: "'a ResolvedRelation" and k and t :: "('a, 'b) RelationIndex"
    by (simp_all split: option.split)
  show "function_index (rebuild_reverse_callee_index it s) = function_index s"
    unfolding rebuild_reverse_callee_index_def
    by (subst fold_frame [where g = function_index]) (auto intro: fold_frame [where g = function_index] one)
  show "name_index (rebuild_reverse_callee_index it s) = name_index s"
    unfolding rebuild_reverse_callee_index_def
    by (subst fold_frame [where g = name_index]) (auto intro: fold_frame [where g = name_index] one)
qed

lemma apply_removed_relation_entities:
  assumes "apply_removed_relation shard r s = Some s'"
  shows "function_index s' = function_index s \<and> name_index s' = name_index s"
proof -
  have d: "function_index (drop_embedded_caller c k t) = function_index t" "name_index (drop_embedded_caller c k t) = name_index t" for c k t
    by (simp_all add: drop_embedded_caller_def Let_def split: option.split)
  from assms show ?thesis
    by (auto simp: apply_removed_relation_def Let_def maybe_untrack_reverse_caller_def d split: option.splits if_splits)
qed

lemma apply_removed_relations_entities:
  "apply_removed_relations shard rs s = Some s' \<Longrightarrow> function_index s' = function_index s \<and> name_index s' = name_index s"
  by (induction rs arbitrary: s) (auto dest!: apply_removed_relation_entities split: option.splits)

lemma apply_removed_relations_apart: "shards_apart shard rs \<Longrightarrow> \<exists>s'. apply_removed_relations shard rs s = Some s'"
proof (induction rs arbitrary: s)
  case (Cons r rs)
  then have "\<exists>s1. apply_removed_relation shard r s = Some s1"
    by (auto simp: shards_apart_def apply_removed_relation_def Let_def split: option.split)
  then obtain s1 where "apply_removed_relation shard r s = Some s1" by blast
  with Cons.IH [of s1] Cons.prems show ?case by (simp add: shards_apart_def)
qed simp

lemma map_filter_none: "\<forall>k \<in> set xs. f k = None \<Longrightarrow> List.map_filter f xs = []"
  by (induction xs) (simp_all add: List.map_filter_simps)

lemma map_filter_one:
  "distinct xs \<Longrightarrow> i \<in> set xs \<Longrightarrow> f i = Some y \<Longrightarrow> \<forall>k \<in> set xs - {i}. f k = None \<Longrightarrow> List.map_filter f xs = [y]"
proof (induction xs)
  case (Cons x xs)
  then show ?case by (cases "x = i") (auto simp: List.map_filter_simps map_filter_none)
qed simp

lemma map_filter_two:
  "distinct xs \<Longrightarrow> i \<noteq> j \<Longrightarrow> i \<in> set xs \<Longrightarrow> j \<in> set xs \<Longrightarrow> f i = Some y \<Longrightarrow> f j = Some z
     \<Longrightarrow> \<forall>k \<in> set xs - {i, j}. f k = None \<Longrightarrow> List.map_filter f xs = [y, z] \<or> List.map_filter f xs = [z, y]"
proof (induction xs)
  case (Cons x xs)
  then have d: "distinct xs" "x \<notin> set xs" by simp_all
  consider "x = i" | "x = j" | "x \<noteq> i" "x \<noteq> j" by blast
  then show ?case
  proof cases
    case 1
    with Cons.prems map_filter_one [OF d(1), of j f z] show ?thesis by (auto simp: List.map_filter_simps)
  next
    case 2
    with Cons.prems map_filter_one [OF d(1), of i f y] show ?thesis by (auto simp: List.map_filter_simps)
  next
    case 3
    with Cons.prems have "f x = None" by simp
    with 3 Cons.IH Cons.prems show ?thesis by (auto simp: List.map_filter_simps)
  qed
qed simp

text \<open>Two entities of one kind that start within two rows of each other in one file.\<close>

definition neighbours :: "Entity \<Rightarrow> Entity \<Rightarrow> bool" where
  "neighbours a b \<longleftrightarrow> e_name a \<noteq> e_name b \<and> e_kind a = e_kind b
     \<and> row (start_position (e_span b)) - row (start_position (e_span a)) \<in> {0, 1, 2}"

lemma neighbours_match:
  assumes "neighbours a b"
  shows "sint (i64_abs (row (start_position (e_span a)) - row (start_position (e_span b)))) \<le> 2"
    "sint (i64_abs (row (start_position (e_span b)) - row (start_position (e_span a)))) \<le> 2"
proof -
  let ?d = "row (start_position (e_span b)) - row (start_position (e_span a))"
  have eq: "row (start_position (e_span a)) - row (start_position (e_span b)) = - ?d" by simp
  have "?d \<in> {0, 1, 2}" using assms by (simp add: neighbours_def)
  then have "sint (i64_abs (- ?d)) \<le> 2 \<and> sint (i64_abs ?d) \<le> 2"
    by (elim insertE emptyE) (simp_all add: i64_abs_def)
  then show "sint (i64_abs (row (start_position (e_span a)) - row (start_position (e_span b)))) \<le> 2"
    "sint (i64_abs (row (start_position (e_span b)) - row (start_position (e_span a)))) \<le> 2"
    unfolding eq by simp_all
qed

text \<open>
  The entities of the base in the scope are \<open>a\<close> and \<open>b\<close> of the file \<open>f\<close> under the ids \<open>i\<close> and \<open>j\<close>, and the
  candidate, parsed from the same text, holds the same two under the fresh ids \<open>i'\<close> and \<open>j'\<close>.
\<close>

definition reparsed_pair ::
  "('p, 'i) RelationIndex \<Rightarrow> ('p, 'i) RelationIndex \<Rightarrow> scope \<Rightarrow> string \<Rightarrow> Entity \<times> EntityId \<times> EntityId \<Rightarrow> Entity \<times> EntityId \<times> EntityId \<Rightarrow> bool" where
  "reparsed_pair new old affected f = (\<lambda>(a, i, i') (b, j, j').
     function_index old i = Some a \<and> function_index old j = Some b \<and> i \<noteq> j
   \<and> {k \<in> dom (function_index old). entity_in_scope old affected k} = {i, j}
   \<and> entity_file_index old i = Some f \<and> entity_file_index old j = Some f
   \<and> function_index new i' = Some (a\<lparr>e_id := i'\<rparr>) \<and> function_index new j' = Some (b\<lparr>e_id := j'\<rparr>) \<and> i' \<noteq> j'
   \<and> {k \<in> dom (function_index new). entity_in_scope new affected k} = {i', j'}
   \<and> entity_file_index new i' = Some f \<and> entity_file_index new j' = Some f
   \<and> function_index new i = None \<and> function_index new j = None
   \<and> function_index old i' = None \<and> function_index old j' = None)"

lemma reparsed_renames:
  fixes new old :: "('p, 'i) RelationIndex"
  assumes ho: "orders_ok ho" "orders_ok hn" and fin: "finite (dom (function_index old))" "finite (dom (function_index new))"
    and pair: "reparsed_pair new old affected f (a, i, i') (b, j, j')" and near: "neighbours a b"
  shows "compute_entity_diff h ho hn new old affected \<in>
    {([], [], [(i, j', e_name a, e_name b), (j, i', e_name b, e_name a)]),
     ([], [], [(j, i', e_name b, e_name a), (i, j', e_name a, e_name b)])}"
proof -
  note P = pair [unfolded reparsed_pair_def prod.case]
  let ?m = "\<lambda>k e. \<lparr>rm_id = k, rm_name = e_name e, rm_kind = e_kind e, rm_file = f, rm_line = row (start_position (e_span e))\<rparr>"
  have it: "distinct (ho_ids ho (dom (function_index old)))" "set (ho_ids ho (dom (function_index old))) = dom (function_index old)"
    "distinct (ho_ids hn (dom (function_index new)))" "set (ho_ids hn (dom (function_index new))) = dom (function_index new)"
    using ho fin by (simp_all add: orders_ok_def)
  have sc: "entity_in_scope old affected k \<longleftrightarrow> k \<in> {i, j}" if "k \<in> dom (function_index old)" for k using P that by blast
  have sc': "entity_in_scope new affected k \<longleftrightarrow> k \<in> {i', j'}" if "k \<in> dom (function_index new)" for k using P that by blast
  have M: "removed_entity_meta ho new old affected \<in> {[?m i a, ?m j b], [?m j b, ?m i a]}"
    unfolding removed_entity_meta_def using P sc it(1,2)
    by (simp add: insert_iff, intro map_filter_two [of _ i j]) (auto split: option.split)
  have ae: "ae_entity (added_entity h new k e) = e" "entity_file_index new k = Some f \<Longrightarrow> ae_file_path (added_entity h new k e) = f" for k e
    by (simp_all add: added_entity_def Let_def split: option.split)
  let ?x = "added_entity h new i' (a\<lparr>e_id := i'\<rparr>)" and ?y = "added_entity h new j' (b\<lparr>e_id := j'\<rparr>)"
  have A: "added_candidates h hn new old affected \<in> {[?x, ?y], [?y, ?x]}"
    unfolding added_candidates_def using P sc' it(3,4)
    by (simp add: insert_iff, intro map_filter_two [of _ i' j']) (auto split: option.split)
  have match: "rename_match (?m i a) ?y" "rename_match (?m j b) ?x" "\<not> rename_match (?m i a) ?x" "\<not> rename_match (?m j b) ?y"
    using near neighbours_match [OF near] P by (auto simp: rename_match_def ae neighbours_def)
  have id: "e_id (ae_entity ?x) = i'" "e_name (ae_entity ?x) = e_name a" "e_id (ae_entity ?y) = j'" "e_name (ae_entity ?y) = e_name b"
    by (simp_all add: ae)
  show ?thesis
    using M A P match id by (auto simp: compute_entity_diff_def Let_def)
qed

lemma add_relations_entities:
  "function_index (apply_added_relations rs s) = function_index s" "name_index (apply_added_relations rs s) = name_index s"
  by (simp_all add: apply_added_relations_def fold_frame [where g = function_index] fold_frame [where g = name_index])

lemma renamed_fold_names: "name_index (fold (apply_renamed_entity h) ps s) = name_index s"
  by (rule fold_frame) (auto simp: apply_renamed_entity_fields)


section \<open>File records and dependencies\<close>

lemma same_files_info: "same_files s s' \<Longrightarrow> get_file p s' = get_file p s \<and> dependency_graph s' = dependency_graph s"
  by (simp add: same_files_def get_file_def)

lemma removed_file_record:
  "get_file p (apply_removed_file fit q s) = (if p = q then None else get_file p s)"
  "dependency_graph (apply_removed_file fit q s) = dg_remove_file fit q (dependency_graph s)"
proof -
  let ?t = "s\<lparr>file_records := (file_records s)(q := None), dependency_graph := dg_remove_file fit q (dependency_graph s)\<rparr>"
  show "get_file p (apply_removed_file fit q s) = (if p = q then None else get_file p s)"
    "dependency_graph (apply_removed_file fit q s) = dg_remove_file fit q (dependency_graph s)"
    using take_file_frame [of q ?t] by (simp_all add: apply_removed_file_def get_file_def Let_def)
qed

lemma removed_files_records:
  "get_file p (fold (apply_removed_file fit) qs s) = (if p \<in> set qs then None else get_file p s)"
  by (induction qs arbitrary: s) (simp_all add: removed_file_record)

lemma removed_files_depends:
  assumes "iter_ok fit" "dg_inv (dependency_graph s)"
  shows "dg_inv (dependency_graph (fold (apply_removed_file fit) qs s))
    \<and> depends (dependency_graph (fold (apply_removed_file fit) qs s)) = {(f, t) \<in> depends (dependency_graph s). f \<notin> set qs \<and> t \<notin> set qs}"
  using assms(2)
proof (induction qs arbitrary: s)
  case (Cons q qs)
  have "dg_inv (dependency_graph (apply_removed_file fit q s))"
    using remove_file_inv [OF assms(1) Cons.prems] by (simp add: removed_file_record)
  from Cons.IH [OF this] show ?case
    by (auto simp: removed_file_record remove_file_rel [OF assms(1) Cons.prems])
qed simp

lemma added_file_record:
  "get_file p (apply_added_file i s) = (if p = fi_path i then Some i else get_file p s)"
  "dependency_graph (apply_added_file i s) = dependency_graph s"
  by (auto simp: apply_added_file_def get_file_def map_entry_def split: option.split)

lemma added_files_records:
  assumes "\<And>q. q \<in> set qs \<Longrightarrow> fi_path (I q) = q"
  shows "get_file p (fold apply_added_file (map I qs) s) = (if p \<in> set qs then Some (I p) else get_file p s)"
    "dependency_graph (fold apply_added_file (map I qs) s) = dependency_graph s"
  using assms by (induction qs arbitrary: s) (auto simp: added_file_record)

lemma diffs_records:
  "get_file p (apply_import_diff md s) = get_file p s" "dependency_graph (apply_import_diff md s) = dependency_graph s"
  "get_file p (apply_export_diff ed s) = get_file p s" "dependency_graph (apply_export_diff ed s) = dependency_graph s"
  "get_file p (apply_dependency_diff dd s) = get_file p s"
  by (simp_all add: apply_import_diff_def apply_export_diff_def apply_dependency_diff_def get_file_def Let_def split_beta split: option.split)

lemma file_diff_records:
  fixes s :: "('q, 'i) rindex"
  shows "get_file p (apply_file_relation_diff d s) = get_file p s" "dependency_graph (apply_file_relation_diff d s) = dependency_graph s"
proof -
  have r: "file_records (retrack_file_caller f c t) = file_records t" "dependency_graph (retrack_file_caller f c t) = dependency_graph t"
    for f c and t :: "('q, 'i) rindex"
    by (simp_all add: retrack_file_caller_def untrack_file_caller_def track_file_caller_def Let_def split: option.split)
  show "get_file p (apply_file_relation_diff d s) = get_file p s" "dependency_graph (apply_file_relation_diff d s) = dependency_graph s"
    by (simp_all add: apply_file_relation_diff_def get_file_def Let_def fold_frame [where g = file_records] fold_frame [where g = dependency_graph] r)
qed

text \<open>The dependencies after one diff, and after the diffs of distinct source files.\<close>

lemma add_fold_depends: "dg_inv g \<Longrightarrow> dg_inv (fold (add_dependency f) ts g) \<and> depends (fold (add_dependency f) ts g) = depends g \<union> ({f} \<times> set ts - Id)"
  by (induction ts arbitrary: g) (auto simp: add_dependency_inv add_dependency_rel)

lemma remove_fold_depends: "dg_inv g \<Longrightarrow> dg_inv (fold (remove_dependency f) ts g) \<and> depends (fold (remove_dependency f) ts g) = depends g - {f} \<times> set ts"
  by (induction ts arbitrary: g) (auto simp: remove_dependency_inv remove_dependency_rel)

lemma dependency_diff_depends:
  assumes "dg_inv (dependency_graph s)"
  shows "dg_inv (dependency_graph (apply_dependency_diff d s))"
    "depends (dependency_graph (apply_dependency_diff d s)) =
       depends (dependency_graph s) - {dpd_source_file d} \<times> set (dpd_removed d) \<union> ({dpd_source_file d} \<times> set (dpd_added d) - Id)"
  using add_fold_depends remove_fold_depends [OF assms] by (simp_all add: apply_dependency_diff_def)

definition dep_diff :: "(string \<Rightarrow> string list) \<Rightarrow> (string \<Rightarrow> string list) \<Rightarrow> string \<Rightarrow> DependencyDiff option" where
  "dep_diff old_deps new_deps f =
     (let removed = filter (\<lambda>d. d \<notin> set (new_deps f)) (old_deps f); added = filter (\<lambda>d. d \<notin> set (old_deps f)) (new_deps f)
      in if removed \<noteq> [] \<or> added \<noteq> []
         then Some \<lparr>dpd_source_file = f, dpd_removed = removed, dpd_added = added\<rparr> else None)"

lemma dependency_diffs_depends:
  assumes "distinct fs" "dg_inv (dependency_graph s)" "\<And>f. f \<notin> set (new_deps f)"
  shows "depends (dependency_graph (fold apply_dependency_diff (List.map_filter (dep_diff old_deps new_deps) fs) s)) =
    {(f, t). if f \<in> set fs then ((f, t) \<in> depends (dependency_graph s) \<and> (t \<in> set (old_deps f) \<longrightarrow> t \<in> set (new_deps f)))
                              \<or> (t \<in> set (new_deps f) \<and> t \<notin> set (old_deps f))
             else (f, t) \<in> depends (dependency_graph s)}"
  using assms(1,2)
proof (induction fs arbitrary: s)
  case (Cons f fs)
  let ?r = "set (old_deps f) - set (new_deps f)" and ?a = "set (new_deps f) - set (old_deps f)"
  have no_self: "{f} \<times> ?a - Id = {f} \<times> ?a" using assms(3) [of f] by auto
  show ?case
  proof (cases "dep_diff old_deps new_deps f")
    case None
    then have e: "?r = {}" "?a = {}" by (auto simp: dep_diff_def Let_def filter_empty_conv split: if_splits)
    from None Cons.IH [of s] Cons.prems e show ?thesis by (auto simp: List.map_filter_simps)
  next
    case (Some d)
    then have d: "dpd_source_file d = f" "set (dpd_removed d) = ?r" "set (dpd_added d) = ?a"
      by (auto simp: dep_diff_def Let_def split: if_splits)
    note A = dependency_diff_depends [OF Cons.prems(2), of d, unfolded d no_self]
    from Some Cons.IH [OF _ A(1)] Cons.prems show ?thesis by (auto simp: List.map_filter_simps A(2))
  qed
qed simp

definition removed_file_set :: "('p, 'i) RelationIndex \<Rightarrow> ('p, 'i) RelationIndex \<Rightarrow> scope \<Rightarrow> string set" where
  "removed_file_set new old affected = {p. in_files affected p \<and> file_records old p \<noteq> None \<and> file_records new p = None}"

text \<open>
  File records are finitely many and filed under their paths; the dependencies of the candidate
  in scope are between files it keeps.
\<close>

definition files_ok :: "('p, 'i) RelationIndex \<Rightarrow> ('p, 'i) RelationIndex \<Rightarrow> scope \<Rightarrow> bool" where
  "files_ok new old affected \<longleftrightarrow>
     finite (dom (file_records old)) \<and> finite (dom (file_records new))
   \<and> (\<forall>p r. file_records new p = Some r \<longrightarrow> fi_path (fr_info r) = p)
   \<and> dg_inv (dependency_graph old) \<and> dg_inv (dependency_graph new)
   \<and> (\<forall>f t. (f, t) \<in> depends (dependency_graph new) \<and> in_files affected f \<longrightarrow>
        f \<notin> removed_file_set new old affected \<and> t \<notin> removed_file_set new old affected)"

lemma file_parts:
  fixes new old :: "('q, 'i) rindex"
  shows "removed_files (compute_delta h ho hn new old ep be fp affected) = removed_paths ho new old affected"
    "added_files (compute_delta h ho hn new old ep be fp affected) = added_infos hn new old affected"
    "dependency_diffs (compute_delta h ho hn new old ep be fp affected) = compute_dependency_diff ho hn new old affected"
  by (auto simp: compute_delta_def empty_delta_def removed_paths_def added_infos_def compute_dependency_diff_def in_files_def
      List.map_filter_simps split: prod.splits)

text \<open>The replay up to the dependency diffs leaves the files as the file steps made them.\<close>

lemma replay_up_to_dependencies:
  fixes old :: "('q, 'i) rindex" and delta :: "('q, 'i) SnapshotDelta"
  assumes hr: "orders_ok hr" and old: "graph_ok old" "names_ok old" "rev_rel old = fwd_rel old"
    and ren: "renamed_entities delta = []" and apart: "shards_apart shard (removed_relations delta)"
  defines "s2 \<equiv> fold apply_added_file (added_files delta) (fold (apply_removed_file (ho_paths hr)) (removed_files delta) old)"
  shows "\<exists>t. apply_delta h hr shard delta old = Some (fold apply_dependency_diff (dependency_diffs delta) t)
    \<and> (\<forall>p. get_file p t = get_file p s2) \<and> dependency_graph t = dependency_graph s2"
proof -
  let ?s5 = "entities_replayed h hr delta old"
  have it: "iter_ok (ho_ids hr)" using hr by (simp add: orders_ok_def)
  have sg: "same_graph old s2" unfolding s2_def
    by (intro same_graph_trans [OF _ same_graph_fold] same_graph_fold removed_file_same_graph added_file_same_graph)
  have g2: "graph_ok s2" "names_ok s2" using old by (simp_all add: same_graphD [OF sg])
  note A3 = apply_removed_entities_spec [OF g2 it, of h "removed_entities delta", unfolded Let_def]
  note A4 = apply_added_entities_spec [OF conjunct1 [OF conjunct2 [OF A3]], of h "added_entities delta", unfolded Let_def s2_def,
      folded entities_replayed_def, folded s2_def]
  have sf5: "same_files s2 ?s5" using A3 A4 same_files_trans by blast
  have g5: "fwd_wf ?s5" "rev_wf ?s5" "mirror_but (set (removed_entities delta)) ?s5"
    using entities_replayed_spec [OF old hr, of h delta] by (simp_all add: Let_def graph_ok_def)
  obtain s6 where s6: "apply_removed_relations shard (removed_relations delta) ?s5 = Some s6"
    using apply_removed_relations_apart [OF apart] by blast
  have "same_rest ?s5 s6" using apply_removed_relations_spec [OF g5 s6] by blast
  then have sf6: "same_files s2 s6" using sf5 same_rest_files same_files_trans by blast
  let ?s7 = "apply_added_relations (added_relations delta) s6"
  have one: "same_files s (add_resolved_relation r s)" for r and s :: "('q, 'i) rindex"
    by (simp add: add_resolved_relation_eq Let_def same_files_def track_reverse_caller_def split: option.split)
  have "same_files s (fold add_resolved_relation rs s)" for rs and s :: "('q, 'i) rindex"
    using one by (induction rs arbitrary: s) (auto intro: same_files_trans)
  then have sf7: "same_files s2 ?s7" using sf6 same_files_trans unfolding apply_added_relations_def by blast
  define t where "t = fold apply_export_diff (export_diffs delta)
       (fold apply_import_diff (import_diffs delta) (apply_file_relation_diffs (file_relation_diffs delta) ?s7))"
  have "get_file p t = get_file p s2" "dependency_graph t = dependency_graph s2" for p
    using same_files_info [OF sf7]
    by (simp_all add: t_def apply_file_relation_diffs_def diffs_records file_diff_records
        fold_frame [where g = "get_file p"] fold_frame [where g = dependency_graph])
  moreover have "apply_delta h hr shard delta old = Some (fold apply_dependency_diff (dependency_diffs delta) t)"
    by (simp add: apply_delta_eq [OF ren] s6 files_replayed_def t_def)
  ultimately show ?thesis by blast
qed

text \<open>The dependency diffs turn the graph without the removed files into the one in scope.\<close>

lemma replayed_dependencies:
  fixes new old t :: "('q, 'i) rindex"
  assumes it: "iter_ok (ho_paths ho)" "iter_ok (ho_paths hn)" and files: "files_ok new old affected"
    and t: "dg_inv (dependency_graph t)" "depends (dependency_graph t) =
      {(f, g) \<in> depends (dependency_graph old). f \<notin> removed_file_set new old affected \<and> g \<notin> removed_file_set new old affected}"
  shows "depends (dependency_graph (fold apply_dependency_diff (compute_dependency_diff ho hn new old affected) t)) =
         {(f, g). if in_files affected f then (f, g) \<in> depends (dependency_graph new)
                  else (f, g) \<in> depends (dependency_graph old) \<and> g \<notin> removed_file_set new old affected}"
proof -
  let ?R = "removed_file_set new old affected" and ?go = "dependency_graph old" and ?gn = "dependency_graph new"
  have dg: "dg_inv ?go" "dg_inv ?gn"
    and cur: "(f, t) \<in> depends ?gn \<Longrightarrow> in_files affected f \<Longrightarrow> f \<notin> ?R \<and> t \<notin> ?R" for f t
    using files by (simp_all add: files_ok_def)
  let ?od = "get_dependencies (ho_paths ho) ?go" and ?nd = "get_dependencies (ho_paths hn) ?gn"
  let ?fs = "filter (in_files affected) (ho_paths hn (set (get_all_files (ho_paths ho) ?go) \<union> set (get_all_files (ho_paths hn) ?gn)))"
  have dd: "compute_dependency_diff ho hn new old affected = List.map_filter (dep_diff ?od ?nd) ?fs"
    by (simp add: compute_dependency_diff_def dep_diff_def [abs_def] Let_def)
  have ns: "t \<in> set (?od f) \<longleftrightarrow> (f, t) \<in> depends ?go" "t \<in> set (?nd f) \<longleftrightarrow> (f, t) \<in> depends ?gn" for f t
    using set_get_dependencies [OF it(1) dg(1)] set_get_dependencies [OF it(2) dg(2)] by (simp_all add: depends_def)
  have self: "f \<notin> set (?nd f)" for f
    using dg(2) map_ok_no_self by (auto simp: set_get_dependencies [OF it(2) dg(2)] dg_inv_def)
  have U: "finite (file_set ?go \<union> file_set ?gn)" using dg by (simp add: finite_file_set)
  have fs: "set ?fs = {f. in_files affected f \<and> f \<in> file_set ?go \<union> file_set ?gn}" "distinct ?fs"
    using it U by (auto simp: get_all_files_def finite_file_set dg)
  have mem: "f \<in> file_set g" if "(f, t) \<in> depends g" for f t g
    using that by (auto simp: depends_def nbrs_def file_set_def split: option.splits)
  have inR: "\<not> in_files affected f \<Longrightarrow> f \<notin> ?R" for f by (simp add: removed_file_set_def)
  have clash: "(f, t) \<in> depends ?gn \<Longrightarrow> f \<notin> ?R" for f t using cur by (auto simp: removed_file_set_def)
  show ?thesis
    unfolding dd dependency_diffs_depends [OF fs(2) t(1) self] ns t(2) fs(1)
    using mem cur clash inR by (auto split: if_splits)
qed


section \<open>Witnesses\<close>

definition demo_edge :: "EntityId \<Rightarrow> EntityId \<Rightarrow> unit edge" where
  "demo_edge k c = \<lparr>caller = k, callee_id = Some c, callee_name = [], relation_type = DirectCall, span = from_line 3,
     is_external = False, external_type = None, payload = \<lparr>call_frequency = 1, cfg_condition = None, details_rest = ()\<rparr>\<rparr>"

definition demo_index :: "(EntityId \<times> string \<times> usize) list \<Rightarrow> (EntityId \<times> EntityId) list \<Rightarrow> (unit, unit) rindex" where
  "demo_index fs es = foldl (build_step id) RelationIndex_new
     (map (\<lambda>(i, n, l). BFunction i (Entity_new i KFunction n (from_line l)) ''a'') fs @ map (\<lambda>(k, c). BRelation (demo_edge k c)) es)"

lemma demo_inv: "index_inv (demo_index fs es)" "rev_rel (demo_index fs es) = fwd_rel (demo_index fs es)"
  unfolding demo_index_def by (rule build_run)+

lemma demo_relations:
  "function_index (foldl (build_step id) s (map (\<lambda>(k, c). BRelation (demo_edge k c)) es)) = function_index s"
  "entity_file_index (foldl (build_step id) s (map (\<lambda>(k, c). BRelation (demo_edge k c)) es)) = entity_file_index s"
  by (induction es arbitrary: s) auto

lemma demo_function_index:
  "function_index (demo_index fs es) = foldl (\<lambda>m (i, n, l). m(i \<mapsto> Entity_new i KFunction n (from_line l))) Map.empty fs"
  "entity_file_index (demo_index fs es) = foldl (\<lambda>m (i, n, l). m(i \<mapsto> ''a'')) Map.empty fs"
proof -
  have "function_index (foldl (build_step id) s (map (\<lambda>(i, n, l). BFunction i (Entity_new i KFunction n (from_line l)) ''a'') fs))
        = foldl (\<lambda>m (i, n, l). m(i \<mapsto> Entity_new i KFunction n (from_line l))) (function_index s) fs
    \<and> entity_file_index (foldl (build_step id) s (map (\<lambda>(i, n, l). BFunction i (Entity_new i KFunction n (from_line l)) ''a'') fs))
        = foldl (\<lambda>m (i, n, l). m(i \<mapsto> ''a'')) (entity_file_index s) fs" for s :: "(unit, unit) rindex"
    by (induction fs arbitrary: s) (auto simp: add_function_fields)
  then show "function_index (demo_index fs es) = foldl (\<lambda>m (i, n, l). m(i \<mapsto> Entity_new i KFunction n (from_line l))) Map.empty fs"
    "entity_file_index (demo_index fs es) = foldl (\<lambda>m (i, n, l). m(i \<mapsto> ''a'')) Map.empty fs"
    by (simp_all add: demo_index_def demo_relations) (simp_all add: RelationIndex_new_def)
qed

lemma demo_identity: "relation_identity (demo_edge k c) = relation_identity (demo_edge k' c') \<longleftrightarrow> k = k' \<and> c = c'"
  by (auto simp: demo_edge_def relation_identity_def)

lemma demo_edges:
  assumes "distinct es"
  shows "set (fwd_edges (demo_index fs es) k) = {demo_edge k c | c. (k, c) \<in> set es}"
proof -
  have base: "fwd_edges (foldl (build_step id) (RelationIndex_new :: (unit, unit) rindex)
      (map (\<lambda>(i, n, l). BFunction i (Entity_new i KFunction n (from_line l)) ''a'') fs)) k = []" for k
  proof -
    have "fwd_edges (foldl (build_step id) s (map (\<lambda>(i, n, l). BFunction i (Entity_new i KFunction n (from_line l)) ''a'') fs)) k = fwd_edges s k"
      for s :: "(unit, unit) rindex" by (induction fs arbitrary: s) (auto simp: fwd_edges_cong [OF add_function_frame(1)])
    then show ?thesis by (simp add: fwd_edges_def RelationIndex_new_def)
  qed
  have "set (fwd_edges (foldl (build_step id) s (map (\<lambda>(k, c). BRelation (demo_edge k c)) es)) k)
      = set (fwd_edges s k) \<union> {demo_edge k c | c. (k, c) \<in> set es}"
    if "index_inv s" "\<forall>k c. (k, c) \<in> set es \<longrightarrow> relation_identity (demo_edge k c) \<notin> relation_identity ` set (fwd_edges s k)"
    for s :: "(unit, unit) rindex"
    using that assms
  proof (induction es arbitrary: s)
    case (Cons e es)
    obtain k0 c0 where e: "e = (k0, c0)" by fastforce
    let ?s = "add_resolved_relation (demo_edge k0 c0) s"
    have ck: "caller (demo_edge k0 c0) = k0" by (simp add: demo_edge_def)
    have "es_inv (forward_set s k0)" using Cons.prems(1) by (simp add: forward_set_inv index_inv_def graph_ok_def)
    then have ins: "snd (es_insert (demo_edge k0 c0) (forward_set s k0))"
      using Cons.prems(2) e by (auto simp: es_insert_edges es_inv_def)
    have fe: "set (fwd_edges ?s k) = set (fwd_edges s k) \<union> (if k = k0 then {demo_edge k0 c0} else {})" for k
      using ins by (simp add: add_relation_fwd_edges ck)
    have "index_inv ?s" using build_step_inv [OF Cons.prems(1), of id "BRelation (demo_edge k0 c0)"] by simp
    moreover have "\<forall>k c. (k, c) \<in> set es \<longrightarrow> relation_identity (demo_edge k c) \<notin> relation_identity ` set (fwd_edges ?s k)"
      using Cons.prems(2,3) unfolding e fe by (auto simp: demo_identity split: if_splits)
    ultimately show ?case using Cons.IH [of ?s] Cons.prems(3) unfolding e by (auto simp: fe split: if_splits)
  qed simp
  from this [of "foldl (build_step id) RelationIndex_new (map (\<lambda>(i, n, l). BFunction i (Entity_new i KFunction n (from_line l)) ''a'') fs)"]
  show ?thesis using build_run(1) [of id "map (\<lambda>(i, n, l). BFunction i (Entity_new i KFunction n (from_line l)) ''a'') fs"]
    by (simp add: demo_index_def base)
qed

lemma demo_facts:
  "distinct es \<Longrightarrow> edge_fact (demo_edge k c) \<in> edge_facts (demo_index fs es) k \<longleftrightarrow> (k, c) \<in> set es"
  by (auto simp: edge_facts_def demo_edges edge_fact_def demo_identity edge_content_def)

lemma whole_scope [simp]: "entity_in_scope s None k"
  by (simp add: entity_in_scope_def)

text \<open>With the same entities on both sides, nothing is renamed and every candidate is in order.\<close>

lemma demo_same_entities:
  assumes "\<forall>(k, c) \<in> set es' . function_index (demo_index fs es') k \<noteq> None" "distinct es'"
  shows "candidate_ok (demo_index fs es') (demo_index fs es) None"
    "renamed_entities (compute_delta id sample_orders sample_orders (demo_index fs es') (demo_index fs es) ep be fp None) = []"
proof -
  have key: "e_id e = i" if "foldl (\<lambda>m (i, n, l). m(i \<mapsto> Entity_new i KFunction n (from_line l))) m fs i = Some e"
    "\<forall>i e. m i = Some e \<longrightarrow> e_id e = i" for m i e
    using that by (induction fs arbitrary: m) (auto simp: Entity_new_def split: if_splits)
  have none: "removed_ids (demo_index fs es') (demo_index fs es) None = {}"
    by (auto simp: removed_ids_def demo_function_index simp del: not_None_eq)
  show "candidate_ok (demo_index fs es') (demo_index fs es) None"
    unfolding candidate_ok_def none
  proof (intro conjI allI impI)
    fix k
    assume "entity_in_scope (demo_index fs es') None k \<and> fwd_edges (demo_index fs es') k \<noteq> []"
    then obtain c where "(k, c) \<in> set es'" using demo_edges [OF assms(2), of fs k] by fastforce
    then show "function_index (demo_index fs es') k \<noteq> None" using assms(1) by blast
  qed (use key [of Map.empty] in \<open>auto simp: demo_function_index\<close>)
  have "removed_entity_meta sample_orders (demo_index fs es') (demo_index fs es) None = []"
    unfolding removed_entity_meta_def by (rule map_filter_none) (auto simp: demo_function_index split: option.split)
  then show "renamed_entities (compute_delta id sample_orders sample_orders (demo_index fs es') (demo_index fs es) ep be fp None) = []"
    by (auto simp: compute_delta_def compute_entity_diff_def Let_def split: prod.splits)
qed

lemma demo_removed:
  assumes "distinct es" "distinct es'" "\<forall>(k, c) \<in> set es' . function_index (demo_index fs es') k \<noteq> None"
  shows "set (removed_relations (compute_delta id sample_orders sample_orders (demo_index fs es') (demo_index fs es) ep be fp None))
    = {demo_edge k c | k c. (k, c) \<in> set es - set es'}"
proof -
  have none: "removed_ids (demo_index fs es') (demo_index fs es) None = {}"
    by (auto simp: removed_ids_def demo_function_index simp del: not_None_eq)
  show ?thesis
    using computed_parts(3) [OF sample_orders_ok sample_orders_ok demo_inv demo_inv(1) demo_same_entities [OF assms(3,2)]]
    by (auto simp: none demo_edges [OF assms(1)] demo_facts [OF assms(2)]) blast
qed

abbreviation demo_fs :: "(EntityId \<times> string \<times> usize) list" where
  "demo_fs \<equiv> [(1, ''f'', 3), (2, ''g'', 9)]"




definition demo_file :: "string \<Rightarrow> FileInfo" where
  "demo_file hash = FileInfo_default\<lparr>fi_id := ''a'', fi_path := ''a'', fi_file_hash := hash\<rparr>"


end
