(* ===== verification/Layered_View.thy ===== *)
theory Layered_View
  imports Snapshot_Index Delta_Effects
begin

text \<open>
  A base snapshot under an ordered chain of deltas, merged when it is read
  (\<^verbatim>\<open>snapshot_index.rs\<close>, \<^verbatim>\<open>snapshot_view/layered_view_impl.rs\<close>, \<^verbatim>\<open>snapshot_query/layered_impls.rs\<close> and
  \<^verbatim>\<open>materialize_merged_index\<close> of \<^verbatim>\<open>snapshot_index/snapshot_builder.rs\<close>). A loop that hands the merged
  entries of a map to a closure is modelled by the merged map. Counts are sums in \<^verbatim>\<open>i64\<close> of lengths of
  vectors in memory, which do not overflow, and integers here.
\<close>

record ('q, 'i) LayeredSnapshotIndex =
  base :: "('q RelationDetails, 'i) RelationSnapshotIndex"
  deltas :: "('q, 'i) SnapshotDelta list"

definition LAYERED_CHAIN_COMPACTION_THRESHOLD :: nat where
  "LAYERED_CHAIN_COMPACTION_THRESHOLD = 20"

definition with_deltas ::
  "('q RelationDetails, 'i) RelationSnapshotIndex \<Rightarrow> ('q, 'i) SnapshotDelta list \<Rightarrow> ('q, 'i) LayeredSnapshotIndex" where
  "with_deltas b ds = \<lparr>base = b, deltas = ds\<rparr>"

definition chain_len :: "('q, 'i) LayeredSnapshotIndex \<Rightarrow> nat" where
  "chain_len l = length (deltas l)"

definition should_compact :: "('q, 'i) LayeredSnapshotIndex \<Rightarrow> bool" where
  "should_compact l = (length (deltas l) > LAYERED_CHAIN_COMPACTION_THRESHOLD)"

abbreviation base_index :: "('q, 'i) LayeredSnapshotIndex \<Rightarrow> ('q, 'i) rindex" where
  "base_index l \<equiv> snap_index (base l)"

section \<open>What a delta says of an entity or a file\<close>

definition added_with_id :: "EntityId \<Rightarrow> ('q, 'i) SnapshotDelta \<Rightarrow> AddedEntity option" where
  "added_with_id i d = find (\<lambda>a. e_id (ae_entity a) = i) (added_entities d)"

definition is_removed_entity :: "('q, 'i) LayeredSnapshotIndex \<Rightarrow> EntityId \<Rightarrow> bool" where
  "is_removed_entity l i = list_ex (\<lambda>d. i \<in> set (removed_entities d)) (deltas l)"

definition is_removed_file :: "('q, 'i) LayeredSnapshotIndex \<Rightarrow> string \<Rightarrow> bool" where
  "is_removed_file l path = list_ex (\<lambda>d. path \<in> set (removed_files d)) (deltas l)"

text \<open>
  The walk from the last delta to the first in which a removal is final and an addition wins, and
  the walk from the base in which each delta removes and then adds.
\<close>

fun latest :: "EntityId \<Rightarrow> (AddedEntity \<Rightarrow> 'a) \<Rightarrow> 'a option \<Rightarrow> ('q, 'i) SnapshotDelta list \<Rightarrow> 'a option" where
  "latest i f dflt [] = dflt"
| "latest i f dflt (d # ds) =
     (if i \<in> set (removed_entities d) then None
      else case added_with_id i d of Some a \<Rightarrow> Some (f a) | None \<Rightarrow> latest i f dflt ds)"

definition overlay :: "EntityId \<Rightarrow> (AddedEntity \<Rightarrow> 'a) \<Rightarrow> ('q, 'i) SnapshotDelta \<Rightarrow> 'a option \<Rightarrow> 'a option" where
  "overlay i f d v =
     (let v' = (if i \<in> set (removed_entities d) then None else v)
      in case added_with_id i d of Some a \<Rightarrow> Some (f a) | None \<Rightarrow> v')"

section \<open>Entities\<close>

definition function_contains_l :: "EntityId \<Rightarrow> ('q, 'i) LayeredSnapshotIndex \<Rightarrow> bool" where
  "function_contains_l i l =
     fold (\<lambda>d contains.
         if list_ex (\<lambda>a. e_id (ae_entity a) = i) (added_entities d) then True
         else if i \<in> set (removed_entities d) then False else contains)
       (deltas l) (function_index (base_index l) i \<noteq> None)"

definition merged_functions :: "('q, 'i) LayeredSnapshotIndex \<Rightarrow> (EntityId \<rightharpoonup> Entity)" where
  "merged_functions l =
     fold (\<lambda>d m. fold (\<lambda>a m. m(e_id (ae_entity a) \<mapsto> ae_entity a)) (added_entities d)
                   (fold (\<lambda>i m. m(i := None)) (removed_entities d) m))
       (deltas l) (function_index (base_index l))"

definition entity_file_of_l :: "EntityId \<Rightarrow> ('q, 'i) LayeredSnapshotIndex \<Rightarrow> string option" where
  "entity_file_of_l i l = fold (overlay i ae_file_path) (deltas l) (entity_file_index (base_index l) i)"

definition symbol_key_of_l :: "EntityId \<Rightarrow> ('q, 'i) LayeredSnapshotIndex \<Rightarrow> StableSymbolKey option" where
  "symbol_key_of_l i l = fold (overlay i ae_symbol_key) (deltas l) (entity_to_symbol_key (base_index l) i)"

definition contains_entity :: "EntityId \<Rightarrow> ('q, 'i) LayeredSnapshotIndex \<Rightarrow> bool" where
  "contains_entity i l =
     (latest i (\<lambda>_. ()) (if function_index (base_index l) i \<noteq> None then Some () else None) (rev (deltas l)) \<noteq> None)"

definition get_function_by_entity_id_l :: "EntityId \<Rightarrow> ('q, 'i) LayeredSnapshotIndex \<Rightarrow> Entity option" where
  "get_function_by_entity_id_l i l = latest i ae_entity (function_index (base_index l) i) (rev (deltas l))"

definition get_file_path_by_entity_l :: "EntityId \<Rightarrow> ('q, 'i) LayeredSnapshotIndex \<Rightarrow> string option" where
  "get_file_path_by_entity_l i l = latest i ae_file_path (entity_file_index (base_index l) i) (rev (deltas l))"

definition get_symbol_key_by_entity_id_l :: "EntityId \<Rightarrow> ('q, 'i) LayeredSnapshotIndex \<Rightarrow> StableSymbolKey option" where
  "get_symbol_key_by_entity_id_l i l = latest i ae_symbol_key (entity_to_symbol_key (base_index l) i) (rev (deltas l))"

text \<open>The merge of a list of ids: what is removed goes, what is added and chosen joins once.\<close>

definition merge_ids :: "(AddedEntity \<Rightarrow> bool) \<Rightarrow> ('q, 'i) SnapshotDelta \<Rightarrow> EntityId list \<Rightarrow> EntityId list" where
  "merge_ids chosen d ids =
     fold (\<lambda>a is. if chosen a \<and> e_id (ae_entity a) \<notin> set is then is @ [e_id (ae_entity a)] else is)
       (added_entities d) (filter (\<lambda>i. i \<notin> set (removed_entities d)) ids)"

definition get_function_ids_by_name_l :: "string \<Rightarrow> ('q, 'i) LayeredSnapshotIndex \<Rightarrow> EntityId list" where
  "get_function_ids_by_name_l name l =
     fold (merge_ids (\<lambda>a. e_name (ae_entity a) = name)) (deltas l) (get_function_ids_by_name name (base_index l))"

definition get_entities_in_line_range_l ::
  "EntityId iter \<Rightarrow> string \<Rightarrow> usize \<Rightarrow> usize \<Rightarrow> ('q, 'i) LayeredSnapshotIndex \<Rightarrow> EntityId list" where
  "get_entities_in_line_range_l it file start_line end_line l =
     fold (merge_ids (\<lambda>a. ae_file_path a = file
             \<and> row (start_position (e_span (ae_entity a))) \<le> end_line
             \<and> row (end_position (e_span (ae_entity a))) \<ge> start_line))
       (deltas l) (get_entities_in_line_range_s it file start_line end_line (base l))"

definition get_entity_ids_by_file_l :: "EntityId iter \<Rightarrow> string \<Rightarrow> ('q, 'i) LayeredSnapshotIndex \<Rightarrow> EntityId list" where
  "get_entity_ids_by_file_l it file_id l =
     fold (merge_ids (\<lambda>a. ae_file_path a = file_id)) (deltas l) (get_entity_ids_by_file_s it file_id (base l))"

definition get_entities_by_file_l :: "EntityId iter \<Rightarrow> string \<Rightarrow> ('q, 'i) LayeredSnapshotIndex \<Rightarrow> (EntityId \<times> Entity) list" where
  "get_entities_by_file_l it file_id l =
     List.map_filter (\<lambda>i. map_option (\<lambda>e. (i, e)) (get_function_by_entity_id_l i l)) (get_entity_ids_by_file_l it file_id l)"

definition function_count_l :: "('q, 'i) LayeredSnapshotIndex \<Rightarrow> nat" where
  "function_count_l l =
     nat (fold (\<lambda>d count. count + int (length (added_entities d)) - int (length (removed_entities d)))
            (deltas l) (int (function_count_s (base l))))"

text \<open>The entities of every file, and those of one.\<close>

definition entities_by_file_l :: "EntityId iter \<Rightarrow> ('q, 'i) LayeredSnapshotIndex \<Rightarrow> (string \<rightharpoonup> Entity list)" where
  "entities_by_file_l it l =
     fold (\<lambda>d merged.
         let kept = (\<lambda>p. map_option (filter (\<lambda>e. e_id e \<notin> set (removed_entities d))) (merged p));
             joined = fold (\<lambda>a m. m(ae_file_path a \<mapsto> (case m (ae_file_path a) of Some es \<Rightarrow> es | None \<Rightarrow> []) @ [ae_entity a]))
                        (added_entities d) kept
         in (\<lambda>p. case joined p of Some [] \<Rightarrow> None | v \<Rightarrow> v))
       (deltas l) (entities_by_file_s it (base l))"

definition entities_of_file_l :: "string \<Rightarrow> ('q, 'i) LayeredSnapshotIndex \<Rightarrow> Entity list" where
  "entities_of_file_l path l =
     fold (\<lambda>d entities.
         let cleared = (if path \<in> set (removed_files d) then [] else entities);
             kept = filter (\<lambda>e. e_id e \<notin> set (removed_entities d)) cleared
         in fold (\<lambda>a es. if ae_file_path a = path \<and> e_id (ae_entity a) \<notin> e_id ` set es then es @ [ae_entity a] else es)
              (added_entities d) kept)
       (deltas l) (if is_removed_file l path then [] else entities_of_file_s path (base l))"

definition max_entity_id_l :: "('q, 'i) LayeredSnapshotIndex \<Rightarrow> u64" where
  "max_entity_id_l l = fold (\<lambda>d m. fold (\<lambda>a. max (e_id (ae_entity a))) (added_entities d) m) (deltas l) (max_entity_id_s (base l))"

section \<open>Symbol keys\<close>

definition merged_entity_id_by_symbol_key :: "('q, 'i) LayeredSnapshotIndex \<Rightarrow> StableSymbolKey \<Rightarrow> EntityId option" where
  "merged_entity_id_by_symbol_key l key =
     (case find (\<lambda>a. ae_symbol_key a = key) (concat (map added_entities (deltas l))) of
        Some a \<Rightarrow> Some (e_id (ae_entity a))
      | None \<Rightarrow> symbol_key_to_entity (base_index l) key)"

definition latest_added :: "(AddedEntity \<Rightarrow> bool) \<Rightarrow> ('q, 'i) LayeredSnapshotIndex \<Rightarrow> EntityId option" where
  "latest_added p l = map_option (\<lambda>a. e_id (ae_entity a)) (find p (concat (map added_entities (rev (deltas l)))))"

definition get_entity_id_by_symbol_key_l ::
  "EntityId iter \<Rightarrow> StableSymbolKey \<Rightarrow> ('q, 'i) LayeredSnapshotIndex \<Rightarrow> EntityId option" where
  "get_entity_id_by_symbol_key_l it key l =
     (case latest_added (\<lambda>a. ae_symbol_key a = key) l of
        Some i \<Rightarrow> Some i
      | None \<Rightarrow> (case symbol_key_to_entity (base_index l) key of
            Some i \<Rightarrow> if is_removed_entity l i then None else Some i
          | None \<Rightarrow> find (\<lambda>i. e_name (the (function_index (base_index l) i)) = sk_scoped_name key \<and> \<not> is_removed_entity l i)
                      (it (dom (function_index (base_index l))))))"

definition get_entity_id_by_stable_symbol_id_l ::
  "(string \<Rightarrow> string) \<Rightarrow> string \<Rightarrow> ('q, 'i) LayeredSnapshotIndex \<Rightarrow> EntityId option" where
  "get_entity_id_by_stable_symbol_id_l sha256_hex sid l =
     (case latest_added (\<lambda>a. stable_id sha256_hex (ae_symbol_key a) = sid) l of
        Some i \<Rightarrow> Some i
      | None \<Rightarrow> (case stable_id_to_entity (base_index l) sid of
            Some i \<Rightarrow> if is_removed_entity l i then None else Some i
          | None \<Rightarrow> None))"

definition stable_symbol_keys_l :: "EntityId iter \<Rightarrow> ('q, 'i) LayeredSnapshotIndex \<Rightarrow> StableSymbolKey list" where
  "stable_symbol_keys_l it l =
     (let keys = fold (\<lambda>d m. fold (\<lambda>a m. m(e_id (ae_entity a) \<mapsto> ae_symbol_key a)) (added_entities d)
                              (fold (\<lambda>i m. m(i := None)) (removed_entities d) m))
                   (deltas l) (\<lambda>i. if function_index (base_index l) i = None then None else entity_to_symbol_key (base_index l) i)
      in map (\<lambda>i. the (keys i)) (it (dom keys)))"

definition stable_symbol_keys_in_files_l ::
  "hash_orders \<Rightarrow> string set \<Rightarrow> ('q, 'i) LayeredSnapshotIndex \<Rightarrow> StableSymbolKey list" where
  "stable_symbol_keys_in_files_l ho files l =
     (let based = fold (\<lambda>k m. case symbol_key_to_entity (base_index l) k of Some i \<Rightarrow> m(i \<mapsto> k) | None \<Rightarrow> m)
                    (stable_symbol_keys_in_files_s (ho_paths ho) files (base l)) Map.empty;
          keys = fold (\<lambda>d m. fold (\<lambda>a m. if ae_file_path a \<in> files then m(e_id (ae_entity a) \<mapsto> ae_symbol_key a) else m)
                              (added_entities d) (fold (\<lambda>i m. m(i := None)) (removed_entities d) m)) (deltas l) based
      in map (\<lambda>i. the (keys i)) (ho_ids ho (dom keys)))"

text \<open>The query of the same name drops keys, not entities.\<close>

definition stable_symbol_keys_q :: "hash_orders \<Rightarrow> ('q, 'i) LayeredSnapshotIndex \<Rightarrow> StableSymbolKey list" where
  "stable_symbol_keys_q ho l =
     (let removed_keys = List.map_filter (entity_to_symbol_key (base_index l))
            (ho_ids ho (\<Union>d \<in> set (deltas l). set (removed_entities d)))
      in filter (\<lambda>k. k \<notin> set removed_keys) (ho_keys ho (dom (symbol_key_to_entity (base_index l))))
         @ concat (map (\<lambda>d. map ae_symbol_key (added_entities d)) (deltas l)))"

section \<open>Edges\<close>

definition without_identities :: "RelationEdgeIdentity set \<Rightarrow> 'q edge list \<Rightarrow> 'q edge list" where
  "without_identities ids rels = filter (\<lambda>r. relation_identity r \<notin> ids) rels"

definition relations_of_l :: "EntityId \<Rightarrow> ('q, 'i) LayeredSnapshotIndex \<Rightarrow> 'q edge list option" where
  "relations_of_l k l =
     (let rels = fold (\<lambda>d rels.
            without_identities (relation_identity ` {r \<in> set (removed_relations d). caller r = k}) rels
            @ filter (\<lambda>r. caller r = k) (added_relations d))
          (deltas l)
          (if is_removed_entity l k then []
           else case relations_of (base_index l) k of Some rs \<Rightarrow> rs | None \<Rightarrow> [])
      in if rels = [] then None else Some rels)"

text \<open>The merged edges by caller; callers without edges are skipped when they are visited.\<close>

definition remove_merged :: "'q edge \<Rightarrow> (EntityId \<rightharpoonup> 'q edge list) \<Rightarrow> (EntityId \<rightharpoonup> 'q edge list)" where
  "remove_merged r m =
     (case m (caller r) of
        None \<Rightarrow> m
      | Some rels \<Rightarrow> m(caller r \<mapsto> without_identities {relation_identity r} rels))"

definition add_merged :: "'q edge \<Rightarrow> (EntityId \<rightharpoonup> 'q edge list) \<Rightarrow> (EntityId \<rightharpoonup> 'q edge list)" where
  "add_merged r m = m(caller r \<mapsto> (case m (caller r) of Some rels \<Rightarrow> rels | None \<Rightarrow> []) @ [r])"

definition merged_relations :: "('q, 'i) LayeredSnapshotIndex \<Rightarrow> (EntityId \<rightharpoonup> 'q edge list)" where
  "merged_relations l =
     fold (\<lambda>d m. fold add_merged (added_relations d)
             (fold remove_merged (removed_relations d)
               (fold (\<lambda>i m. m(i := None)) (removed_entities d) m)))
       (deltas l) (relations_of (base_index l))"

definition visited_relations :: "('q, 'i) LayeredSnapshotIndex \<Rightarrow> (EntityId \<rightharpoonup> 'q edge list)" where
  "visited_relations l k = (case merged_relations l k of Some [] \<Rightarrow> None | v \<Rightarrow> v)"

text \<open>A list of callers with the set of those in it, for one delta.\<close>

definition drop_caller :: "EntityId \<Rightarrow> 'q edge \<Rightarrow> EntityId list \<times> EntityId set \<Rightarrow> EntityId list \<times> EntityId set" where
  "drop_caller c r acc = (case acc of (ks, seen) \<Rightarrow>
     if callee_id r = Some c then (filter (\<lambda>k. k \<noteq> caller r) ks, seen - {caller r}) else (ks, seen))"

definition join_caller :: "EntityId \<Rightarrow> 'q edge \<Rightarrow> EntityId list \<times> EntityId set \<Rightarrow> EntityId list \<times> EntityId set" where
  "join_caller c r acc = (case acc of (ks, seen) \<Rightarrow>
     if callee_id r = Some c \<and> caller r \<notin> seen then (ks @ [caller r], insert (caller r) seen) else (ks, seen))"

definition callers_of_l :: "EntityId \<Rightarrow> ('q, 'i) LayeredSnapshotIndex \<Rightarrow> EntityId list" where
  "callers_of_l c l =
     (if is_removed_entity l c then []
      else let gone = (\<Union>d \<in> set (deltas l). set (removed_entities d));
               ks = filter (\<lambda>k. k \<notin> gone) (callers_of_s c (base l))
           in fst (fold (\<lambda>d acc. fold (join_caller c) (added_relations d) (fold (drop_caller c) (removed_relations d) acc))
                (deltas l) (ks, set ks)))"

definition get_resolved_relations_by_caller_l :: "EntityId \<Rightarrow> ('q, 'i) LayeredSnapshotIndex \<Rightarrow> 'q edge list option" where
  "get_resolved_relations_by_caller_l k l =
     (if is_removed_entity l k then None
      else let rels = fold (\<lambda>d rels.
                 without_identities (relation_identity ` set (filter (\<lambda>r. caller r = k) (removed_relations d))) rels
                 @ filter (\<lambda>r. caller r = k) (added_relations d))
               (deltas l) (case get_resolved_relations_by_caller_s k (base l) of Some rs \<Rightarrow> rs | None \<Rightarrow> [])
           in if rels = [] then None else Some rels)"

definition get_resolved_relations_by_caller_checked_l ::
  "EntityId \<Rightarrow> ('q, 'i) LayeredSnapshotIndex \<Rightarrow> IndexError + 'q edge list" where
  "get_resolved_relations_by_caller_checked_l k l =
     (if \<not> contains_entity k l then Inl (EntityNotFound k)
      else Inr (case get_resolved_relations_by_caller_l k l of Some rs \<Rightarrow> rs | None \<Rightarrow> []))"

definition get_callers_by_callee_entity_l :: "EntityId \<Rightarrow> ('q, 'i) LayeredSnapshotIndex \<Rightarrow> EntityId list" where
  "get_callers_by_callee_entity_l c l =
     (if is_removed_entity l c then []
      else take MAX_REVERSE_FANIN (remdups_adj (sort (fold (\<lambda>d ks.
             fold (\<lambda>r ks. if callee_id r = Some c \<and> caller r \<notin> set ks then ks @ [caller r] else ks) (added_relations d)
               (filter (\<lambda>k. k \<notin> set (removed_entities d)
                          \<and> (k, Some c) \<notin> (\<lambda>r. (caller r, callee_id r)) ` set (removed_relations d)) ks))
           (deltas l) (get_callers_by_callee_entity_s c (base l))))))"

definition get_callers_by_callee_entity_checked_l :: "EntityId \<Rightarrow> ('q, 'i) LayeredSnapshotIndex \<Rightarrow> IndexError + EntityId list" where
  "get_callers_by_callee_entity_checked_l c l =
     (if \<not> contains_entity c l then Inl (EntityNotFound c)
      else Inr (take MAX_REVERSE_FANIN (remdups_adj (sort (get_callers_by_callee_entity_l c l)))))"

definition get_relations_to_entity_l :: "EntityId \<Rightarrow> ('q, 'i) LayeredSnapshotIndex \<Rightarrow> 'q edge list" where
  "get_relations_to_entity_l c l =
     fold (\<lambda>d es.
         filter (\<lambda>e. caller e \<notin> set (removed_entities d)
                   \<and> relation_identity e \<notin> relation_identity ` set (removed_relations d)) es
         @ filter (\<lambda>r. callee_id r = Some c) (added_relations d))
       (deltas l) (get_relations_to_entity_s c (base l))"

definition get_relations_to_entity_by_type_l :: "EntityId \<Rightarrow> RelationType \<Rightarrow> ('q, 'i) LayeredSnapshotIndex \<Rightarrow> 'q edge list" where
  "get_relations_to_entity_by_type_l c t l = filter (\<lambda>r. relation_type r = t) (get_relations_to_entity_l c l)"

definition get_callers_by_callee_and_type_l :: "EntityId \<Rightarrow> RelationType \<Rightarrow> ('q, 'i) LayeredSnapshotIndex \<Rightarrow> EntityId list" where
  "get_callers_by_callee_and_type_l c t l =
     fold (\<lambda>r ks. if caller r \<in> set ks then ks else ks @ [caller r]) (get_relations_to_entity_by_type_l c t l) []"

definition get_relations_from_entity_by_type_l :: "EntityId \<Rightarrow> RelationType \<Rightarrow> ('q, 'i) LayeredSnapshotIndex \<Rightarrow> 'q edge list" where
  "get_relations_from_entity_by_type_l k t l =
     (case get_resolved_relations_by_caller_l k l of
        Some rs \<Rightarrow> filter (\<lambda>r. relation_type r = t) rs | None \<Rightarrow> [])"

definition resolved_relation_count_l :: "('q, 'i) LayeredSnapshotIndex \<Rightarrow> nat" where
  "resolved_relation_count_l l =
     nat (fold (\<lambda>d count. count
            - int (sum_list (map (\<lambda>i. case resolved_relation_index (base_index l) i of Some es \<Rightarrow> es_len es | None \<Rightarrow> 0)
                               (removed_entities d)))
            - int (length (removed_relations d)) + int (length (added_relations d)))
          (deltas l) (int (resolved_relation_count_s (base l))))"

definition get_relations_by_classification_l ::
  "EntityId iter \<Rightarrow> ExternalCallType \<Rightarrow> ('q, 'i) LayeredSnapshotIndex \<Rightarrow> 'q edge list" where
  "get_relations_by_classification_l it t l =
     (let based = get_relations_by_classification_s it t (base l);
          added = filter (\<lambda>r. external_type r = Some t) (concat (map added_relations (rev (deltas l))))
      in fst (fold (\<lambda>r (res, seen). if (caller r, callee_id r) \<in> seen then (res, seen)
                     else (res @ [r], insert (caller r, callee_id r) seen))
           added (based, (\<lambda>r. (caller r, callee_id r)) ` set based)))"

definition uncount_class :: "ExternalCallType option \<Rightarrow> (ExternalCallType \<rightharpoonup> nat) \<Rightarrow> (ExternalCallType \<rightharpoonup> nat)" where
  "uncount_class e m = (case e of
     Some t \<Rightarrow> (case m t of Some n \<Rightarrow> m(t \<mapsto> n - 1) | None \<Rightarrow> m) | None \<Rightarrow> m)"

definition get_classification_stats_l :: "EntityId iter \<Rightarrow> ('q, 'i) LayeredSnapshotIndex \<Rightarrow> (ExternalCallType \<rightharpoonup> nat)" where
  "get_classification_stats_l it l =
     (let stats = fst (classification_stats_memoized it (base l));
          more = fold (\<lambda>d. fold (\<lambda>r. count_class (external_type r)) (added_relations d)) (deltas l) stats
      in fold (\<lambda>d. fold (\<lambda>r. uncount_class (external_type r)) (removed_relations d)) (deltas l) more)"

definition get_resolved_relations_by_file_l ::
  "EntityId iter \<Rightarrow> string \<Rightarrow> ('q, 'i) LayeredSnapshotIndex \<Rightarrow> (EntityId \<times> 'q edge list) list" where
  "get_resolved_relations_by_file_l it file_id l =
     List.map_filter (\<lambda>i. map_option (\<lambda>rels. (i, rels)) (get_resolved_relations_by_caller_l i l))
       (get_entity_ids_by_file_l it file_id l)"

subsection \<open>Hierarchy and frontend queries\<close>

definition get_derived_classes_l :: "EntityId \<Rightarrow> ('q, 'i) LayeredSnapshotIndex \<Rightarrow> EntityId list" where
  "get_derived_classes_l i l = get_callers_by_callee_and_type_l i Inheritance l"

definition get_implementing_classes_l :: "EntityId \<Rightarrow> ('q, 'i) LayeredSnapshotIndex \<Rightarrow> EntityId list" where
  "get_implementing_classes_l i l = get_callers_by_callee_and_type_l i Implementation l"

definition get_types_with_trait_bound_l :: "EntityId \<Rightarrow> ('q, 'i) LayeredSnapshotIndex \<Rightarrow> EntityId list" where
  "get_types_with_trait_bound_l i l = get_callers_by_callee_and_type_l i TraitBound l"

definition get_base_classes_l :: "EntityId \<Rightarrow> ('q, 'i) LayeredSnapshotIndex \<Rightarrow> EntityId list" where
  "get_base_classes_l i l =
     (case get_resolved_relations_by_caller_l i l of
        Some rs \<Rightarrow> List.map_filter callee_id (filter (\<lambda>r. relation_type r = Inheritance) rs) | None \<Rightarrow> [])"

definition get_implemented_interfaces_l :: "EntityId \<Rightarrow> ('q, 'i) LayeredSnapshotIndex \<Rightarrow> EntityId list" where
  "get_implemented_interfaces_l i l =
     (case get_resolved_relations_by_caller_l i l of
        Some rs \<Rightarrow> List.map_filter callee_id (filter (\<lambda>r. relation_type r = Implementation) rs) | None \<Rightarrow> [])"

definition get_child_elements_l :: "EntityId \<Rightarrow> ('q, 'i) LayeredSnapshotIndex \<Rightarrow> EntityId list" where
  "get_child_elements_l i l = List.map_filter callee_id (get_relations_from_entity_by_type_l i ElementContains l)"

definition get_parent_element_l :: "EntityId \<Rightarrow> ('q, 'i) LayeredSnapshotIndex \<Rightarrow> EntityId list" where
  "get_parent_element_l i l = get_callers_by_callee_and_type_l i ElementContains l"

definition get_event_handlers_l :: "EntityId \<Rightarrow> ('q, 'i) LayeredSnapshotIndex \<Rightarrow> 'q edge list" where
  "get_event_handlers_l i l = get_relations_from_entity_by_type_l i EventCallback l"

definition get_elements_by_handler_l :: "EntityId \<Rightarrow> ('q, 'i) LayeredSnapshotIndex \<Rightarrow> EntityId list" where
  "get_elements_by_handler_l i l = get_callers_by_callee_and_type_l i EventCallback l"

definition get_parameter_bindings_l :: "EntityId \<Rightarrow> ('q, 'i) LayeredSnapshotIndex \<Rightarrow> 'q edge list" where
  "get_parameter_bindings_l i l = get_relations_from_entity_by_type_l i ParameterBinding l"

definition get_template_references_l :: "EntityId \<Rightarrow> ('q, 'i) LayeredSnapshotIndex \<Rightarrow> 'q edge list" where
  "get_template_references_l i l = get_relations_from_entity_by_type_l i TemplateReference l"

definition get_elements_by_template_ref_l :: "EntityId \<Rightarrow> ('q, 'i) LayeredSnapshotIndex \<Rightarrow> EntityId list" where
  "get_elements_by_template_ref_l i l = get_callers_by_callee_and_type_l i TemplateReference l"

section \<open>Files\<close>

definition file_contains_l :: "string \<Rightarrow> ('q, 'i) LayeredSnapshotIndex \<Rightarrow> bool" where
  "file_contains_l path l =
     fold (\<lambda>d contains.
         if list_ex (\<lambda>f. fi_path f = path) (added_files d) then True
         else if path \<in> set (removed_files d) then False else contains)
       (deltas l) (file_records (base_index l) path \<noteq> None)"

definition merged_files :: "('q, 'i) LayeredSnapshotIndex \<Rightarrow> (string \<rightharpoonup> FileInfo)" where
  "merged_files l =
     fold (\<lambda>d m. fold (\<lambda>f m. m(fi_path f \<mapsto> f)) (added_files d) (fold (\<lambda>p m. m(p := None)) (removed_files d) m))
       (deltas l) (\<lambda>p. map_option fr_info (file_records (base_index l) p))"

definition is_file_active :: "string \<Rightarrow> ('q, 'i) LayeredSnapshotIndex \<Rightarrow> bool" where
  "is_file_active file_id l =
     fold (\<lambda>d active.
         if list_ex (\<lambda>f. fi_path f = file_id \<or> fi_id f = file_id) (added_files d) then True
         else if file_id \<in> set (removed_files d) then False else active)
       (deltas l) (file_records (base_index l) file_id \<noteq> None)"

text \<open>The last delta that removes or adds the file decides.\<close>

fun latest_file :: "string \<Rightarrow> FileInfo option \<Rightarrow> ('q, 'i) SnapshotDelta list \<Rightarrow> FileInfo option" where
  "latest_file file_id dflt [] = dflt"
| "latest_file file_id dflt (d # ds) =
     (if file_id \<in> set (removed_files d) then None
      else case find (\<lambda>f. fi_path f = file_id \<or> fi_id f = file_id) (added_files d) of
             Some f \<Rightarrow> Some f | None \<Rightarrow> latest_file file_id dflt ds)"

definition get_file_l :: "string \<Rightarrow> ('q, 'i) LayeredSnapshotIndex \<Rightarrow> FileInfo option" where
  "get_file_l file_id l = latest_file file_id (get_file file_id (base_index l)) (rev (deltas l))"

definition contains_file_l :: "string \<Rightarrow> ('q, 'i) LayeredSnapshotIndex \<Rightarrow> bool" where
  "contains_file_l file_id l = (latest_file file_id (get_file file_id (base_index l)) (rev (deltas l)) \<noteq> None)"

definition file_count_l :: "('q, 'i) LayeredSnapshotIndex \<Rightarrow> nat" where
  "file_count_l l =
     nat (fold (\<lambda>d count. count
            - int (length (filter (\<lambda>f. file_records (base_index l) f \<noteq> None) (removed_files d)))
            + int (length (added_files d)))
          (deltas l) (int (card (dom (file_records (base_index l))))))"

definition has_imports_l :: "string \<Rightarrow> ('q, 'i) LayeredSnapshotIndex \<Rightarrow> bool" where
  "has_imports_l file_id l = (if \<not> is_file_active file_id l then False else file_records (base_index l) file_id \<noteq> None)"

definition import_count_l :: "('q, 'i) LayeredSnapshotIndex \<Rightarrow> nat" where
  "import_count_l l =
     nat (fold (\<lambda>d count. count - int (length (filter (\<lambda>f. file_records (base_index l) f \<noteq> None) (removed_files d))))
          (deltas l) (int (card (dom (file_records (base_index l))))))"

subsection \<open>File-level edges\<close>

definition push_new_edge :: "'q edge \<Rightarrow> 'q edge list \<Rightarrow> 'q edge list" where
  "push_new_edge r rels = (if relation_identity r \<in> relation_identity ` set rels then rels else rels @ [r])"

definition file_relations_of_l :: "string \<Rightarrow> ('q, 'i) LayeredSnapshotIndex \<Rightarrow> 'q edge list" where
  "file_relations_of_l path l =
     fold (\<lambda>d rels.
         let cleared = (if path \<in> set (removed_files d) then [] else rels);
             diffs = filter (\<lambda>x. frd_file_path x = path) (file_relation_diffs d);
             kept = fold (\<lambda>x. without_identities (relation_identity ` set (frd_removed x))) diffs cleared
         in fold (\<lambda>x. fold push_new_edge (frd_added x)) diffs kept)
       (deltas l) (if is_removed_file l path then [] else file_relations_of (base_index l) path)"

definition merge_file_diff :: "'q FileRelationDiff \<Rightarrow> (string \<rightharpoonup> 'q edge list) \<Rightarrow> (string \<rightharpoonup> 'q edge list)" where
  "merge_file_diff x m =
     m(frd_file_path x \<mapsto> fold push_new_edge (frd_added x)
         (without_identities (relation_identity ` set (frd_removed x))
           (case m (frd_file_path x) of Some rels \<Rightarrow> rels | None \<Rightarrow> [])))"

definition merged_file_relations :: "('q, 'i) LayeredSnapshotIndex \<Rightarrow> (string \<rightharpoonup> 'q edge list)" where
  "merged_file_relations l =
     fold (\<lambda>d m. fold merge_file_diff (file_relation_diffs d) (fold (\<lambda>p m. m(p := None)) (removed_files d) m))
       (deltas l) (\<lambda>p. map_option edges (file_relation_index (base_index l) p))"

definition visited_file_relations :: "('q, 'i) LayeredSnapshotIndex \<Rightarrow> (string \<rightharpoonup> 'q edge list)" where
  "visited_file_relations l p = (case merged_file_relations l p of Some [] \<Rightarrow> None | v \<Rightarrow> v)"

definition file_callers_of_l :: "string iter \<Rightarrow> EntityId \<Rightarrow> ('q, 'i) LayeredSnapshotIndex \<Rightarrow> string list" where
  "file_callers_of_l it c l =
     (if is_removed_entity l c then []
      else fold (\<lambda>d callers.
             fold (\<lambda>x ps.
                 if \<not> list_ex (\<lambda>r. callee_id r = Some c) (frd_removed x @ frd_added x) then ps
                 else let others = filter (\<lambda>p. p \<noteq> frd_file_path x) ps
                      in if list_ex (\<lambda>r. callee_id r = Some c) (file_relations_of_l (frd_file_path x) l)
                         then others @ [frd_file_path x] else others)
               (file_relation_diffs d) (filter (\<lambda>p. p \<notin> set (removed_files d)) callers))
           (deltas l) (file_callers_of_s it c (base l)))"

subsection \<open>Imports and exports\<close>

definition patch_imports :: "'i ImportDiff \<Rightarrow> 'i ImportTable \<Rightarrow> 'i ImportTable" where
  "patch_imports diff table =
     table\<lparr>imt_standardized_imports :=
       fold (\<lambda>i is. if i \<in> set is then is else is @ [i]) (imd_added diff)
         (filter (\<lambda>i. i \<notin> set (imd_removed diff)) (imt_standardized_imports table))\<rparr>"

definition imports_of_l :: "string \<Rightarrow> ('q, 'i) LayeredSnapshotIndex \<Rightarrow> 'i ImportTable option" where
  "imports_of_l path l =
     (if is_removed_file l path then None
      else map_option
             (fold (\<lambda>d. fold patch_imports (filter (\<lambda>x. imd_file_path x = path) (import_diffs d))) (deltas l))
             (get_import_table path (base_index l)))"

definition merged_imports :: "('q, 'i) LayeredSnapshotIndex \<Rightarrow> (string \<rightharpoonup> 'i ImportTable)" where
  "merged_imports l =
     fold (\<lambda>d m. fold (\<lambda>x m. case m (imd_file_path x) of None \<Rightarrow> m | Some t \<Rightarrow> m(imd_file_path x \<mapsto> patch_imports x t))
                   (import_diffs d) (fold (\<lambda>p m. m(p := None)) (removed_files d) m))
       (deltas l) (\<lambda>p. map_option fr_imports (file_records (base_index l) p))"

definition get_import_table_l :: "string \<Rightarrow> ('q, 'i) LayeredSnapshotIndex \<Rightarrow> 'i ImportTable option" where
  "get_import_table_l file_id l =
     (case get_import_table file_id (base_index l) of
        None \<Rightarrow> None
      | Some t \<Rightarrow>
          let t' = fold (\<lambda>d t. case find (\<lambda>x. imd_file_path x = file_id) (import_diffs d) of
                                 Some x \<Rightarrow> patch_imports x t | None \<Rightarrow> t) (deltas l) t
          in if \<not> is_file_active file_id l then None else Some t')"

text \<open>Exports whose symbol key cannot be resolved are skipped.\<close>

definition patch_exports :: "(StableSymbolKey \<Rightarrow> EntityId option) \<Rightarrow> ExportDiff \<Rightarrow> ExportInfo list \<Rightarrow> ExportInfo list" where
  "patch_exports resolve diff exports =
     (let removed = (\<lambda>e. sk_scoped_name (cx_symbol e)) ` set (exd_removed diff);
          kept = filter (\<lambda>e. ex_function_name e \<notin> removed) exports;
          existing = ex_function_name ` set kept
      in fold (\<lambda>e es.
             if sk_scoped_name (cx_symbol e) \<in> existing then es
             else case resolve (cx_symbol e) of
                    None \<Rightarrow> es
                  | Some i \<Rightarrow> es @ [\<lparr>ex_function_id = i, ex_function_name = sk_scoped_name (cx_symbol e),
                                    ex_export_type = export_type_of (cx_export_type e)\<rparr>])
           (exd_added diff) kept)"

definition exports_of_l :: "string \<Rightarrow> ('q, 'i) LayeredSnapshotIndex \<Rightarrow> ExportInfo list option" where
  "exports_of_l path l =
     (if is_removed_file l path then None
      else map_option
             (fold (\<lambda>d. fold (patch_exports (merged_entity_id_by_symbol_key l))
                          (filter (\<lambda>x. exd_file_path x = path) (export_diffs d))) (deltas l))
             (get_exports path (base_index l)))"

definition merged_exports :: "('q, 'i) LayeredSnapshotIndex \<Rightarrow> (string \<rightharpoonup> ExportInfo list)" where
  "merged_exports l =
     fold (\<lambda>d m. fold (\<lambda>x m. case m (exd_file_path x) of
                                None \<Rightarrow> m
                              | Some es \<Rightarrow> m(exd_file_path x \<mapsto> patch_exports (merged_entity_id_by_symbol_key l) x es))
                   (export_diffs d) (fold (\<lambda>p m. m(p := None)) (removed_files d) m))
       (deltas l) (\<lambda>p. map_option fr_exports (file_records (base_index l) p))"

definition get_exports_l :: "EntityId iter \<Rightarrow> string \<Rightarrow> ('q, 'i) LayeredSnapshotIndex \<Rightarrow> ExportInfo list option" where
  "get_exports_l it file_id l =
     (case get_exports file_id (base_index l) of
        None \<Rightarrow> None
      | Some es \<Rightarrow>
          let es' = fold (\<lambda>d es. case find (\<lambda>x. exd_file_path x = file_id) (export_diffs d) of
                            Some x \<Rightarrow> patch_exports (\<lambda>k. get_entity_id_by_symbol_key_l it k l) x es | None \<Rightarrow> es) (deltas l) es
          in if \<not> is_file_active file_id l then None else Some es')"

definition find_export_by_name_l :: "EntityId iter \<Rightarrow> string \<Rightarrow> string \<Rightarrow> ('q, 'i) LayeredSnapshotIndex \<Rightarrow> ExportInfo option" where
  "find_export_by_name_l it file_id function_name l =
     (case get_exports_l it file_id l of
        None \<Rightarrow> None | Some es \<Rightarrow> find (\<lambda>e. ex_function_name e = function_name) es)"

section \<open>File dependencies\<close>

definition dependency_files_l :: "string iter \<Rightarrow> ('q, 'i) LayeredSnapshotIndex \<Rightarrow> string list" where
  "dependency_files_l it l =
     it (fold (\<lambda>d files. fold (\<lambda>x fs. if dpd_added x \<noteq> [] then insert (dpd_source_file x) fs \<union> set (dpd_added x) else fs)
                           (dependency_diffs d) (files - set (removed_files d)))
          (deltas l) (set (get_all_files it (dependency_graph (base_index l)))))"

definition patch_deps :: "string \<Rightarrow> DependencyDiff \<Rightarrow> string list \<Rightarrow> string list" where
  "patch_deps source x deps =
     (if dpd_source_file x \<noteq> source then deps
      else fold (\<lambda>a ds. if a \<in> set ds then ds else ds @ [a]) (dpd_added x)
             (filter (\<lambda>t. t \<notin> set (dpd_removed x)) deps))"

definition dependencies_of_l :: "string iter \<Rightarrow> ('q, 'i) LayeredSnapshotIndex \<Rightarrow> string \<Rightarrow> string list" where
  "dependencies_of_l it l source =
     fold (\<lambda>d deps.
         fold (patch_deps source) (dependency_diffs d)
           (filter (\<lambda>t. t \<notin> set (removed_files d)) (if source \<in> set (removed_files d) then [] else deps)))
       (deltas l) (get_dependencies it (dependency_graph (base_index l)) source)"

definition patch_dependents :: "string \<Rightarrow> DependencyDiff \<Rightarrow> string list \<Rightarrow> string list" where
  "patch_dependents file x fs =
     (let kept = (if file \<in> set (dpd_removed x) then filter (\<lambda>f. f \<noteq> dpd_source_file x) fs else fs)
      in if file \<in> set (dpd_added x) \<and> dpd_source_file x \<notin> set kept then kept @ [dpd_source_file x] else kept)"

definition dependents_of_l :: "string iter \<Rightarrow> ('q, 'i) LayeredSnapshotIndex \<Rightarrow> string \<Rightarrow> string list" where
  "dependents_of_l it l file =
     (if is_removed_file l file then []
      else fold (\<lambda>d fs. fold (patch_dependents file) (dependency_diffs d) (filter (\<lambda>f. f \<notin> set (removed_files d)) fs))
             (deltas l) (get_dependents it (dependency_graph (base_index l)) file))"

definition collect_transitive_dependents_l ::
  "string iter \<Rightarrow> ('q, 'i) LayeredSnapshotIndex \<Rightarrow> string \<Rightarrow> nat \<Rightarrow> string list option" where
  "collect_transitive_dependents_l it l file max_depth =
     map_option it (bfs_from (dependents_of_l it l) file max_depth)"

definition collect_transitive_dependencies_l ::
  "string iter \<Rightarrow> ('q, 'i) LayeredSnapshotIndex \<Rightarrow> string \<Rightarrow> nat \<Rightarrow> string list option" where
  "collect_transitive_dependencies_l it l file max_depth =
     map_option it (bfs_from (dependencies_of_l it l) file max_depth)"

subsection \<open>The transitive queries\<close>

text \<open>
  The widening over the stored closure: a level visits the links the deltas added and those of the
  base graph, at most ten levels. The state is the visited and the found files and the next level.
\<close>

definition visit_file :: "string \<Rightarrow> string set \<times> string set \<times> string list \<Rightarrow> string set \<times> string set \<times> string list" where
  "visit_file f acc = (case acc of (visited, found, next_queue) \<Rightarrow>
     if f \<in> visited then acc else (insert f visited, insert f found, next_queue @ [f]))"

fun widen :: "nat \<Rightarrow> (string \<Rightarrow> string list) \<Rightarrow> (string \<Rightarrow> string list) \<Rightarrow> string list \<Rightarrow> string set \<Rightarrow> string set \<Rightarrow> string set" where
  "widen 0 direct based queue visited found = found"
| "widen (Suc levels) direct based queue visited found =
     (if queue = [] then found
      else case fold (\<lambda>cur acc. fold visit_file (based cur) (fold visit_file (direct cur) acc)) queue (visited, found, []) of
             (visited', found', next_queue) \<Rightarrow> widen levels direct based next_queue visited' found')"

definition delta_dependents :: "('q, 'i) LayeredSnapshotIndex \<Rightarrow> string \<Rightarrow> string list" where
  "delta_dependents l file =
     map dpd_source_file (concat (map (\<lambda>x. replicate (length (filter (\<lambda>a. a = file) (dpd_added x))) x)
       (concat (map dependency_diffs (deltas l)))))"

definition delta_dependencies :: "('q, 'i) LayeredSnapshotIndex \<Rightarrow> string \<Rightarrow> string list" where
  "delta_dependencies l file =
     concat (map dpd_added (filter (\<lambda>x. dpd_source_file x = file) (concat (map dependency_diffs (deltas l)))))"

definition transitive_dependents_of_l :: "string iter \<Rightarrow> ('q, 'i) LayeredSnapshotIndex \<Rightarrow> string \<Rightarrow> string list" where
  "transitive_dependents_of_l it l file =
     (let found = set (transitive_dependents_of file (transitive_deps (base l)))
      in sorted_list_of_set (widen 10 (delta_dependents l) (get_dependents it (dependency_graph (base_index l)))
           (it found) (insert file found) found))"

definition transitive_dependencies_of_l :: "string iter \<Rightarrow> ('q, 'i) LayeredSnapshotIndex \<Rightarrow> string \<Rightarrow> string list" where
  "transitive_dependencies_of_l it l file =
     (let found = set (transitive_dependencies_of file (transitive_deps (base l)))
      in sorted_list_of_set (widen 10 (delta_dependencies l) (get_dependencies it (dependency_graph (base_index l)))
           (it found) (insert file found) found))"

section \<open>The materialised index\<close>

text \<open>
  The verification paths copy the maps of the base into a new index, apply the deltas one after
  another and rebuild the reverse indexes.
\<close>

fun apply_chain ::
  "(string \<Rightarrow> string) \<Rightarrow> hash_orders \<Rightarrow> (EntityId \<Rightarrow> nat) \<Rightarrow> ('q, 'i) SnapshotDelta list \<Rightarrow> ('q, 'i) rindex \<Rightarrow> ('q, 'i) rindex option" where
  "apply_chain sha256_hex ho shard [] s = Some s"
| "apply_chain sha256_hex ho shard (d # ds) s =
     (case apply_delta sha256_hex ho shard d s of None \<Rightarrow> None | Some s' \<Rightarrow> apply_chain sha256_hex ho shard ds s')"

definition copied_index :: "hash_orders \<Rightarrow> ('q, 'i) rindex \<Rightarrow> ('q, 'i) rindex" where
  "copied_index ho s =
     (let named = fold (\<lambda>i. insert_function i (the (function_index s i))) (ho_ids ho (dom (function_index s))) RelationIndex_new
      in named\<lparr>entity_file_index := entity_file_index s, resolved_relation_index := resolved_relation_index s,
              file_relation_index := file_relation_index s, file_records := file_records s,
              dependency_graph := fold (\<lambda>f. fold (add_dependency f) (get_dependencies (ho_paths ho) (dependency_graph s) f))
                (ho_paths ho (dom (file_records s))) dg_new,
              symbol_key_to_entity := symbol_key_to_entity s, entity_to_symbol_key := entity_to_symbol_key s,
              stable_id_to_entity := stable_id_to_entity s\<rparr>)"

definition materialize_merged_index ::
  "(string \<Rightarrow> string) \<Rightarrow> hash_orders \<Rightarrow> (EntityId \<Rightarrow> nat) \<Rightarrow> ('q, 'i) LayeredSnapshotIndex \<Rightarrow> ('q, 'i) rindex option" where
  "materialize_merged_index sha256_hex ho shard l =
     map_option (\<lambda>merged. rebuild_file_caller_index (ho_paths ho) (rebuild_reverse_callee_index (ho_ids ho) merged))
       (apply_chain sha256_hex ho shard (deltas l) (copied_index ho (base_index l)))"

end
