(* ===== verification/Layered_Merge.thy ===== *)
theory Layered_Merge
  imports Layered_View
begin

text \<open>
  One delta, and a chain of them, on the index and on the maps the layered view merges: what a delta
  relies on, the index a replay gives in terms of the maps, and the merges of the view as the same
  operation on each map.
\<close>

section \<open>One delta, on the index and on the merged maps\<close>

abbreviation added_id :: "AddedEntity \<Rightarrow> EntityId" where
  "added_id a \<equiv> e_id (ae_entity a)"

text \<open>
  What a delta relies on: it renames nothing, removes entities that exist, adds entities and edges
  that do not, and schedules every edge into a removed entity for removal.
\<close>

definition delta_fits :: "('q, 'i) rindex \<Rightarrow> ('q, 'i) SnapshotDelta \<Rightarrow> bool" where
  "delta_fits s d \<longleftrightarrow>
     renamed_entities d = []
   \<and> distinct (removed_entities d) \<and> set (removed_entities d) \<subseteq> dom (function_index s)
   \<and> distinct (map added_id (added_entities d)) \<and> (\<forall>a \<in> set (added_entities d). function_index s (added_id a) = None)
   \<and> distinct (map relation_identity (added_relations d))
   \<and> (\<forall>r \<in> set (added_relations d). \<forall>e \<in> set (fwd_edges s (caller r)). relation_identity e = relation_identity r \<longrightarrow>
        caller r \<in> set (removed_entities d) \<or> relation_identity r \<in> relation_identity ` set (removed_relations d))
   \<and> (\<forall>k r c. r \<in> set (fwd_edges s k) \<and> k \<notin> set (removed_entities d) \<and> callee_id r = Some c
        \<and> c \<in> set (removed_entities d) \<longrightarrow> relation_identity r \<in> relation_identity ` set (removed_relations d))
   \<and> (\<forall>r \<in> set (added_relations d). \<forall>c \<in> set (removed_entities d). callee_id r \<noteq> Some c)"

definition merged_with :: "(AddedEntity \<Rightarrow> 'v) \<Rightarrow> ('q, 'i) SnapshotDelta \<Rightarrow> (EntityId \<rightharpoonup> 'v) \<Rightarrow> (EntityId \<rightharpoonup> 'v)" where
  "merged_with f d m = (m |` (- set (removed_entities d))) ++ map_of (rev (map (\<lambda>a. (added_id a, f a)) (added_entities d)))"

definition edges_with :: "('q, 'i) SnapshotDelta \<Rightarrow> (EntityId \<Rightarrow> 'q edge list) \<Rightarrow> EntityId \<Rightarrow> 'q edge list" where
  "edges_with d E k =
     filter (\<lambda>e. relation_identity e \<notin> relation_identity ` set (removed_relations d)) (if k \<in> set (removed_entities d) then [] else E k)
     @ filter (\<lambda>r. caller r = k) (added_relations d)"

lemma fold_forget: "fold (\<lambda>i m. m(i := None)) is m = m |` (- set is)"
  by (induction "is" arbitrary: m) (auto simp: restrict_map_def fun_eq_iff)

lemma fold_updates: "fold (\<lambda>a m. m(g a \<mapsto> f a)) as m = m ++ map_of (rev (map (\<lambda>a. (g a, f a)) as))"
  by (induction as arbitrary: m) simp_all

lemma merged_with_fold:
  "fold (\<lambda>a m. m(added_id a \<mapsto> f a)) (added_entities d) (fold (\<lambda>i m. m(i := None)) (removed_entities d) m) = merged_with f d m"
  by (simp add: fold_forget fold_updates merged_with_def)

lemma find_map_of:
  assumes "distinct (map g xs)"
  shows "map_option f (find (\<lambda>a. g a = i) xs) = map_of (rev (map (\<lambda>a. (g a, f a)) xs)) i"
proof -
  have "map_option f (find (\<lambda>a. g a = i) xs) = map_of (map (\<lambda>a. (g a, f a)) xs) i" by (induction xs) simp_all
  also have "\<dots> = map_of (rev (map (\<lambda>a. (g a, f a)) xs)) i"
    using assms by (subst map_of_inject_set [THEN iffD2]) (simp_all add: comp_def rev_map [symmetric])
  finally show ?thesis .
qed

lemma overlay_merged:
  assumes "distinct (map added_id (added_entities d))"
  shows "overlay i f d (m i) = merged_with f d m i"
  using find_map_of [OF assms, of f i]
  by (auto simp: overlay_def added_with_id_def merged_with_def map_add_def Let_def split: option.splits)

text \<open>Edges that are new by identity join at the end, in order.\<close>

lemma add_relations_append:
  assumes "fwd_wf s" "distinct (map relation_identity rs)"
    "\<And>r e. r \<in> set rs \<Longrightarrow> e \<in> set (fwd_edges s (caller r)) \<Longrightarrow> relation_identity e \<noteq> relation_identity r" "rev_wf s"
  shows "fwd_edges (apply_added_relations rs s) k = fwd_edges s k @ filter (\<lambda>r. caller r = k) rs"
  using assms
proof (induction rs arbitrary: s)
  case (Cons r rs)
  let ?s = "add_resolved_relation r s"
  have "relation_identity r \<notin> relation_identity ` set (fwd_edges s (caller r))" using Cons.prems(3) [of r] by fastforce
  then have new: "snd (es_insert r (forward_set s (caller r)))"
    using forward_set_inv [OF Cons.prems(1), of "caller r"] by (simp add: es_insert_edges es_inv_def)
  have fe: "fwd_edges ?s k = fwd_edges s k @ (if k = caller r then [r] else [])" for k
    using new by (simp add: add_relation_fwd_edges)
  note wf = add_relation_spec(1,2) [OF Cons.prems(1,4)]
  have ids: "relation_identity e \<noteq> relation_identity x" if "x \<in> set rs" "e \<in> set (fwd_edges ?s (caller x))" for x e
    using that Cons.prems(2,3) unfolding fe by (force split: if_splits)
  have "fwd_edges (apply_added_relations rs ?s) k = fwd_edges ?s k @ filter (\<lambda>r. caller r = k) rs"
    using Cons.prems(2) by (intro Cons.IH wf ids) simp_all
  moreover have "apply_added_relations (r # rs) s = apply_added_relations rs ?s" by (simp add: apply_added_relations_def)
  ultimately show ?case by (simp add: fe)
qed (simp add: apply_added_relations_def)

lemma retrack_entity_files: "entity_file_index (fold (retrack_file_caller f) cs s) = entity_file_index s"
  by (rule fold_frame)
    (simp add: retrack_file_caller_def untrack_file_caller_def track_file_caller_def Let_def split: option.split)

lemma entity_file_frames:
  "entity_file_index (apply_removed_file fit p s) = entity_file_index s" "entity_file_index (apply_added_file fi s) = entity_file_index s"
  "entity_file_index (apply_file_relation_diff x t) = entity_file_index t"
  "entity_file_index (apply_import_diff y s) = entity_file_index s" "entity_file_index (apply_export_diff z s) = entity_file_index s"
  "entity_file_index (apply_dependency_diff w s) = entity_file_index s"
proof -
  show "entity_file_index (apply_removed_file fit p s) = entity_file_index s" "entity_file_index (apply_added_file fi s) = entity_file_index s"
    "entity_file_index (apply_file_relation_diff x t) = entity_file_index t"
    "entity_file_index (apply_import_diff y s) = entity_file_index s" "entity_file_index (apply_export_diff z s) = entity_file_index s"
    "entity_file_index (apply_dependency_diff w s) = entity_file_index s"
    using take_file_frame [of p "s\<lparr>file_records := (file_records s)(p := None), dependency_graph := dg_remove_file fit p (dependency_graph s)\<rparr>"]
    by (simp_all add: apply_removed_file_def apply_added_file_def apply_file_relation_diff_def
        apply_import_diff_def apply_export_diff_def apply_dependency_diff_def Let_def split_beta
        retrack_entity_files split: option.split)
qed

lemma files_replayed_entity_files: "entity_file_index (files_replayed d s) = entity_file_index s"
  by (simp add: files_replayed_def apply_file_relation_diffs_def fold_frame [where g = entity_file_index] entity_file_frames)

lemma entities_replayed_files:
  assumes "graph_ok s" "names_ok s" "orders_ok ho"
  shows "entity_file_index (entities_replayed h ho d s) = merged_with ae_file_path d (entity_file_index s)"
proof -
  let ?s2 = "fold apply_added_file (added_files d) (fold (apply_removed_file (ho_paths ho)) (removed_files d) s)"
  have "same_graph s ?s2"
    by (intro same_graph_trans [OF _ same_graph_fold] same_graph_fold removed_file_same_graph added_file_same_graph)
  then have g2: "graph_ok ?s2" "names_ok ?s2" using assms by (simp_all add: same_graphD)
  have it: "iter_ok (ho_ids ho)" using assms(3) by (simp add: orders_ok_def)
  note A3 = apply_removed_entities_spec [OF g2 it, of h "removed_entities d", unfolded Let_def]
  have "entity_file_index (apply_added_entities h as t) = entity_file_index t ++ map_of (rev (map (\<lambda>a. (added_id a, ae_file_path a)) as))"
    for as and t :: "('a, 'b) rindex"
    unfolding fold_updates [symmetric] apply_added_entities_def
    by (induction as arbitrary: t) (simp_all add: apply_added_entity_fields(3))
  with A3 show ?thesis
    by (simp add: entities_replayed_def merged_with_def fold_frame [where g = entity_file_index] entity_file_frames)
qed

lemma apply_delta_returns:
  fixes s :: "('q, 'i) rindex"
  assumes "graph_ok s" "names_ok s" "rev_rel s = fwd_rel s" "orders_ok ho" "delta_fits s d" "shards_apart shard (removed_relations d)"
  shows "\<exists>s'. apply_delta h ho shard d s = Some s'"
proof -
  note E = entities_replayed_spec [OF assms(1-4), of h d, unfolded Let_def]
  have ren: "renamed_entities d = []" using assms(5) by (simp add: delta_fits_def)
  have g: "fwd_wf (entities_replayed h ho d s)" "rev_wf (entities_replayed h ho d s)"
    "mirror_but (set (removed_entities d)) (entities_replayed h ho d s)" using E by (simp_all add: graph_ok_def)
  obtain s6 where "apply_removed_relations shard (removed_relations d) (entities_replayed h ho d s) = Some s6"
    using apply_removed_relations_returns [OF g, of "removed_relations d" shard] assms(6) unfolding shards_apart_def by blast
  then show ?thesis by (simp add: apply_delta_eq [OF ren])
qed

lemma apply_delta_step:
  fixes s :: "('q, 'i) rindex"
  assumes s: "graph_ok s" "names_ok s" "rev_rel s = fwd_rel s" and ho: "orders_ok ho" and fits: "delta_fits s d"
    and ret: "apply_delta h ho shard d s = Some s'"
  shows "graph_ok s' \<and> names_ok s' \<and> rev_rel s' = fwd_rel s'
    \<and> function_index s' = merged_with ae_entity d (function_index s)
    \<and> entity_file_index s' = merged_with ae_file_path d (entity_file_index s) \<and> fwd_edges s' = edges_with d (fwd_edges s)"
proof -
  let ?R = "set (removed_entities d)" and ?I = "relation_identity ` set (removed_relations d)" and ?AR = "added_relations d"
  let ?s5 = "entities_replayed h ho d s"
  have ren: "renamed_entities d = []" using fits by (simp add: delta_fits_def)
  obtain s6 where s6: "apply_removed_relations shard (removed_relations d) ?s5 = Some s6"
    and s': "s' = files_replayed d (apply_added_relations ?AR s6)"
    using ret by (auto simp: apply_delta_eq [OF ren])
  note E = entities_replayed_spec [OF s ho, of h d, unfolded Let_def]
  then have g5: "fwd_wf ?s5" "rev_wf ?s5" "mirror_but ?R ?s5" by (simp_all add: graph_ok_def)
  note A6 = apply_removed_relations_spec [OF g5 s6]
  have fe6: "fwd_edges s6 k = filter (\<lambda>e. relation_identity e \<notin> ?I) (if k \<in> ?R then [] else fwd_edges s k)" for k
    using A6 E by simp
  have "(k, c) \<notin> fwd_rel s6" if "c \<in> ?R" for k c
    using fits that by (auto simp: fwd_rel_def fe6 delta_fits_def split: if_splits)
  then have m6: "rev_rel s6 = fwd_rel s6" using A6 by (auto simp: mirror_but_def)
  have "finite (dom (resolved_relation_index ?s5))" using E by (simp add: graph_ok_def)
  then have g6: "graph_ok s6" using A6 m6 by (auto simp: graph_ok_def intro: finite_subset)
  have new: "relation_identity e \<noteq> relation_identity r" if "r \<in> set ?AR" "e \<in> set (fwd_edges s6 (caller r))" for r e
    using fits that by (force simp: fe6 delta_fits_def split: if_splits)
  have dist: "distinct (map relation_identity ?AR)" using fits by (simp add: delta_fits_def)
  then have "\<forall>r \<in> set ?AR. \<forall>e \<in> set (fwd_edges s6 (caller r)) \<union> set ?AR. relation_identity e = relation_identity r \<longrightarrow> e = r"
    using new by (auto simp: distinct_map dest: inj_onD)
  note A7 = add_relations_fold [OF g6 m6 this, unfolded Let_def]
  let ?s7 = "apply_added_relations ?AR s6"
  have fe: "fwd_edges ?s7 k = fwd_edges s6 k @ filter (\<lambda>r. caller r = k) ?AR" for k
    using g6 by (intro add_relations_append dist new) (simp_all add: graph_ok_def)
  note SG = same_graphD [OF files_replayed_same_graph [of ?s7 d], folded s']
  have sr: "same_rest ?s5 s6" "same_rest s6 ?s7" using A6 A7 by simp_all
  have fi: "function_index s' = function_index ?s5" "name_index ?s7 = name_index ?s5" "function_index ?s7 = function_index ?s5"
    by (simp_all add: SG same_restD [OF sr(1)] same_restD [OF sr(2)])
  have "function_index s' = merged_with ae_entity d (function_index s)" using E fi by (simp add: merged_with_def)
  moreover have "entity_file_index s' = merged_with ae_file_path d (entity_file_index s)"
    by (simp add: s' files_replayed_entity_files same_restD [OF sr(1)] same_restD [OF sr(2)] entities_replayed_files [OF s(1,2) ho])
  moreover have "fwd_edges s' = edges_with d (fwd_edges s)" by (simp add: fun_eq_iff SG(6) fe fe6 edges_with_def)
  moreover have "names_ok s'" using E fi names_ok_cong [of ?s7 ?s5] by (simp add: SG)
  moreover have "graph_ok s'" "rev_rel s' = fwd_rel s'" using A7 by (simp_all add: SG)
  ultimately show ?thesis by simp
qed

section \<open>A chain of deltas\<close>

fun chain_fits ::
  "(string \<Rightarrow> string) \<Rightarrow> hash_orders \<Rightarrow> (EntityId \<Rightarrow> nat) \<Rightarrow> ('q, 'i) SnapshotDelta list \<Rightarrow> ('q, 'i) rindex \<Rightarrow> bool" where
  "chain_fits h ho shard [] s = True"
| "chain_fits h ho shard (d # ds) s =
     (delta_fits s d \<and> shards_apart shard (removed_relations d)
      \<and> (case apply_delta h ho shard d s of None \<Rightarrow> True | Some s' \<Rightarrow> chain_fits h ho shard ds s'))"

definition delta_shape :: "('q, 'i) SnapshotDelta \<Rightarrow> bool" where
  "delta_shape d \<longleftrightarrow> distinct (map added_id (added_entities d)) \<and> (\<forall>a \<in> set (added_entities d). added_id a \<notin> set (removed_entities d))"

lemma delta_fits_shape: "delta_fits s d \<Longrightarrow> delta_shape d"
  by (auto simp: delta_fits_def delta_shape_def)

definition ids_named :: "string \<Rightarrow> (EntityId \<rightharpoonup> Entity) \<Rightarrow> EntityId set" where
  "ids_named n m = {i. \<exists>e. m i = Some e \<and> e_name e = n}"

lemma set_merge_ids:
  "set (merge_ids chosen d ids) = (set ids - set (removed_entities d)) \<union> added_id ` {a \<in> set (added_entities d). chosen a}"
proof -
  have "set (fold (\<lambda>a is. if chosen a \<and> added_id a \<notin> set is then is @ [added_id a] else is) as is)
      = set is \<union> added_id ` {a \<in> set as. chosen a}" for as "is"
    by (induction as arbitrary: "is") auto
  then show ?thesis by (auto simp: merge_ids_def)
qed

lemma added_lookup:
  assumes "distinct (map added_id as)"
  shows "map_of (rev (map (\<lambda>a. (added_id a, f a)) as)) i = Some v \<longleftrightarrow> (\<exists>a \<in> set as. added_id a = i \<and> v = f a)"
  using assms by (subst map_of_eq_Some_iff) (auto simp: rev_map [symmetric] comp_def)

lemma ids_named_merged:
  assumes "delta_fits s d"
  shows "ids_named n (merged_with ae_entity d (function_index s))
    = (ids_named n (function_index s) - set (removed_entities d)) \<union> added_id ` {a \<in> set (added_entities d). e_name (ae_entity a) = n}"
proof -
  have dist: "distinct (map added_id (added_entities d))" and new: "\<And>a. a \<in> set (added_entities d) \<Longrightarrow> function_index s (added_id a) = None"
    using assms by (auto simp: delta_fits_def)
  have "i \<in> ids_named n (merged_with ae_entity d (function_index s)) \<longleftrightarrow>
      i \<in> (ids_named n (function_index s) - set (removed_entities d)) \<union> added_id ` {a \<in> set (added_entities d). e_name (ae_entity a) = n}" for i
  proof (cases "map_of (rev (map (\<lambda>a. (added_id a, ae_entity a)) (added_entities d))) i")
    case None
    then have "\<not> (\<exists>a \<in> set (added_entities d). added_id a = i)"
      using added_lookup [OF dist, of ae_entity i] by auto
    with None show ?thesis by (auto simp: ids_named_def merged_with_def map_add_def restrict_map_def)
  next
    case (Some e)
    then obtain a where a: "a \<in> set (added_entities d)" "added_id a = i" "e = ae_entity a"
      using added_lookup [OF dist, of ae_entity i e] by blast
    have uniq: "x = a" if "x \<in> set (added_entities d)" "added_id x = i" for x
      using dist that a by (auto simp: distinct_map dest: inj_onD)
    have "i \<in> added_id ` {x \<in> set (added_entities d). e_name (ae_entity x) = n} \<longleftrightarrow> e_name (ae_entity a) = n"
    proof
      assume "i \<in> added_id ` {x \<in> set (added_entities d). e_name (ae_entity x) = n}"
      then obtain x where "x \<in> set (added_entities d)" "e_name (ae_entity x) = n" "added_id x = i" by blast
      then show "e_name (ae_entity a) = n" using uniq by blast
    next
      assume "e_name (ae_entity a) = n"
      then show "i \<in> added_id ` {x \<in> set (added_entities d). e_name (ae_entity x) = n}" using a(1,2) by blast
    qed
    moreover have "i \<notin> ids_named n (function_index s)" using new [OF a(1)] a(2) by (simp add: ids_named_def)
    moreover have "merged_with ae_entity d (function_index s) i = Some (ae_entity a)"
      using Some a(3) by (simp add: merged_with_def map_add_def)
    ultimately show ?thesis unfolding Un_iff Diff_iff by (auto simp: ids_named_def)
  qed
  then show ?thesis by blast
qed

lemma dom_merged:
  assumes "delta_fits s d"
  shows "dom (merged_with f d (function_index s)) = (dom (function_index s) - set (removed_entities d)) \<union> added_id ` set (added_entities d)"
  by (auto simp: merged_with_def dom_map_of_conv_image_fst image_image)

lemma card_merged:
  assumes "delta_fits s d" "finite (dom (function_index s))"
  shows "int (card (dom (merged_with f d (function_index s)))) =
    int (card (dom (function_index s))) + int (length (added_entities d)) - int (length (removed_entities d))"
proof -
  let ?D = "dom (function_index s)" and ?R = "set (removed_entities d)" and ?A = "added_id ` set (added_entities d)"
  have "card ?R = length (removed_entities d)" "?R \<subseteq> ?D" using assms(1) by (auto simp: delta_fits_def distinct_card)
  moreover have "card ?A = length (added_entities d)"
    using assms(1) distinct_card [of "map added_id (added_entities d)"] by (simp add: delta_fits_def)
  moreover have "(?D - ?R) \<inter> ?A = {}" using assms(1) by (auto simp: delta_fits_def)
  moreover have "card ?R \<le> card ?D" using \<open>?R \<subseteq> ?D\<close> assms(2) by (rule card_mono [rotated])
  ultimately show ?thesis
    using assms(2) by (simp add: dom_merged [OF assms(1)] card_Un_disjoint card_Diff_subset)
qed

lemma chain_spec:
  fixes s :: "('q, 'i) rindex"
  assumes "graph_ok s" "names_ok s" "rev_rel s = fwd_rel s" "orders_ok ho" "finite (dom (function_index s))"
    "chain_fits h ho shard ds s"
  shows "\<exists>s'. apply_chain h ho shard ds s = Some s' \<and> graph_ok s' \<and> names_ok s' \<and> rev_rel s' = fwd_rel s' \<and> (\<forall>d \<in> set ds. delta_shape d)
    \<and> function_index s' = fold (merged_with ae_entity) ds (function_index s)
    \<and> entity_file_index s' = fold (merged_with ae_file_path) ds (entity_file_index s)
    \<and> fwd_edges s' = fold edges_with ds (fwd_edges s)
    \<and> int (card (dom (function_index s'))) = fold (\<lambda>d n. n + int (length (added_entities d)) - int (length (removed_entities d)))
          ds (int (card (dom (function_index s))))
    \<and> (\<forall>ids. set ids = ids_named n (function_index s) \<longrightarrow>
          set (fold (merge_ids (\<lambda>a. e_name (ae_entity a) = n)) ds ids) = ids_named n (function_index s'))"
  using assms
proof (induction ds arbitrary: s)
  case (Cons d ds)
  have fits: "delta_fits s d" "shards_apart shard (removed_relations d)" using Cons.prems(6) by simp_all
  obtain s1 where s1: "apply_delta h ho shard d s = Some s1" using apply_delta_returns [OF Cons.prems(1-4) fits] by blast
  have rest: "chain_fits h ho shard ds s1" using Cons.prems(6) s1 by simp
  note fits = fits(1)
  note A = apply_delta_step [OF Cons.prems(1-4) fits s1]
  then have fin: "finite (dom (function_index s1))" using Cons.prems(5) by (simp add: dom_merged [OF fits])
  from A have g: "graph_ok s1" "names_ok s1" "rev_rel s1 = fwd_rel s1" by simp_all
  obtain s' where s': "apply_chain h ho shard (d # ds) s = Some s'"
    and IH: "graph_ok s' \<and> names_ok s' \<and> rev_rel s' = fwd_rel s' \<and> (\<forall>d \<in> set ds. delta_shape d)
    \<and> function_index s' = fold (merged_with ae_entity) ds (function_index s1)
    \<and> entity_file_index s' = fold (merged_with ae_file_path) ds (entity_file_index s1)
    \<and> fwd_edges s' = fold edges_with ds (fwd_edges s1)
    \<and> int (card (dom (function_index s'))) = fold (\<lambda>d n. n + int (length (added_entities d)) - int (length (removed_entities d)))
          ds (int (card (dom (function_index s1))))
    \<and> (\<forall>ids. set ids = ids_named n (function_index s1) \<longrightarrow>
          set (fold (merge_ids (\<lambda>a. e_name (ae_entity a) = n)) ds ids) = ids_named n (function_index s'))"
    using Cons.IH [OF g Cons.prems(4) fin rest] by (auto simp: s1)
  have names: "set (merge_ids (\<lambda>a. e_name (ae_entity a) = n) d ids) = ids_named n (function_index s1)"
    if "set ids = ids_named n (function_index s)" for ids
    using A that by (simp add: set_merge_ids ids_named_merged [OF fits])
  have e: "function_index s1 = merged_with ae_entity d (function_index s)" "fwd_edges s1 = edges_with d (fwd_edges s)"
    "entity_file_index s1 = merged_with ae_file_path d (entity_file_index s)"
    using A by simp_all
  have named: "set (fold (merge_ids (\<lambda>a. e_name (ae_entity a) = n)) (d # ds) ids) = ids_named n (function_index s')"
    if "set ids = ids_named n (function_index s)" for ids
    using IH names [OF that] by simp
  have count: "int (card (dom (function_index s'))) = fold (\<lambda>d n. n + int (length (added_entities d)) - int (length (removed_entities d)))
      (d # ds) (int (card (dom (function_index s))))"
  proof -
    have "int (card (dom (function_index s'))) = fold (\<lambda>d n. n + int (length (added_entities d)) - int (length (removed_entities d)))
        ds (int (card (dom (function_index s1))))" using IH by blast
    then show ?thesis by (simp add: e(1) card_merged [OF fits Cons.prems(5)])
  qed
  have parts: "graph_ok s'" "names_ok s'" "rev_rel s' = fwd_rel s'" "\<forall>d \<in> set (d # ds). delta_shape d"
    "function_index s' = fold (merged_with ae_entity) (d # ds) (function_index s)"
    "entity_file_index s' = fold (merged_with ae_file_path) (d # ds) (entity_file_index s)"
    "fwd_edges s' = fold edges_with (d # ds) (fwd_edges s)"
    using IH delta_fits_shape [OF fits] by (simp_all add: e)
  show ?case by (intro exI [of _ s'] conjI allI impI s' parts count named)
qed simp

section \<open>The merged view of a chain\<close>

definition listed :: "(EntityId \<rightharpoonup> 'q edge list) \<Rightarrow> EntityId \<Rightarrow> 'q edge list" where
  "listed m k = (case m k of Some rs \<Rightarrow> rs | None \<Rightarrow> [])"

lemma listed_remove: "listed (fold remove_merged rs m) k = filter (\<lambda>e. relation_identity e \<notin> relation_identity ` {r \<in> set rs. caller r = k}) (listed m k)"
proof (induction rs arbitrary: m)
  case (Cons r rs)
  have one: "listed (remove_merged r m) k = (if caller r = k then filter (\<lambda>e. relation_identity e \<noteq> relation_identity r) (listed m k) else listed m k)"
    by (auto simp: listed_def remove_merged_def without_identities_def split: option.split)
  show ?case by (auto simp: Cons one intro: filter_cong)
qed simp

lemma listed_add: "listed (fold add_merged rs m) k = listed m k @ filter (\<lambda>r. caller r = k) rs"
proof (induction rs arbitrary: m)
  case (Cons r rs)
  have "listed (add_merged r m) k = listed m k @ (if caller r = k then [r] else [])"
    by (auto simp: listed_def add_merged_def split: option.split)
  with Cons show ?case by simp
qed simp

lemma own_identities:
  assumes "\<forall>e \<in> set es. caller e = k"
  shows "filter (\<lambda>e. relation_identity e \<notin> relation_identity ` {r \<in> S. caller r = k}) es
    = filter (\<lambda>e. relation_identity e \<notin> relation_identity ` S) es"
proof (intro filter_cong refl)
  fix e assume "e \<in> set es"
  then have "caller e = k" using assms by blast
  then have "caller r = k" if "relation_identity e = relation_identity r" for r
    using identity_determines(1) [OF that] by simp
  then show "relation_identity e \<notin> relation_identity ` {r \<in> S. caller r = k} \<longleftrightarrow> relation_identity e \<notin> relation_identity ` S"
    by blast
qed

lemma edges_with_callers: "(\<And>k e. e \<in> set (E k) \<Longrightarrow> caller e = k) \<Longrightarrow> e \<in> set (edges_with d E k) \<Longrightarrow> caller e = k"
  by (auto simp: edges_with_def split: if_splits)

lemma listed_merged:
  assumes "\<And>k e. e \<in> set (listed m k) \<Longrightarrow> caller e = k"
  shows "listed (fold (\<lambda>d m. fold add_merged (added_relations d) (fold remove_merged (removed_relations d)
      (fold (\<lambda>i m. m(i := None)) (removed_entities d) m))) ds m) = fold edges_with ds (listed m)"
  using assms
proof (induction ds arbitrary: m)
  case (Cons d ds)
  let ?m = "fold add_merged (added_relations d) (fold remove_merged (removed_relations d) (m |` (- set (removed_entities d))))"
  have r: "listed (m |` (- set (removed_entities d))) k = (if k \<in> set (removed_entities d) then [] else listed m k)" for k
    by (simp add: listed_def)
  have step: "listed ?m = edges_with d (listed m)"
  proof
    fix k
    have "\<forall>e \<in> set (listed m k). caller e = k" using Cons.prems by blast
    from own_identities [OF this, of "set (removed_relations d)"] show "listed ?m k = edges_with d (listed m) k"
      by (simp add: listed_add listed_remove r edges_with_def)
  qed
  have "e \<in> set (listed ?m k) \<Longrightarrow> caller e = k" for k e
    unfolding step using Cons.prems by (rule edges_with_callers)
  from Cons.IH [of ?m, OF this] show ?case unfolding fold_simps comp_apply step fold_forget .
qed simp

lemma overlay_chain:
  assumes "\<forall>d \<in> set ds. delta_shape d"
  shows "fold (overlay i f) ds (m i) = fold (merged_with f) ds m i"
  using assms
proof (induction ds arbitrary: m)
  case (Cons d ds)
  then show ?case using overlay_merged [of d i f m] by (simp add: delta_shape_def)
qed simp

lemma latest_chain:
  assumes "\<forall>d \<in> set ds. delta_shape d"
  shows "latest i f v (rev ds) = fold (overlay i f) ds v"
  using assms
proof (induction ds rule: rev_induct)
  case (snoc d ds)
  have "added_with_id i d = None" if "i \<in> set (removed_entities d)"
    using that snoc.prems by (auto simp: added_with_id_def delta_shape_def find_None_iff)
  with snoc show ?case by (auto simp: overlay_def split: option.split)
qed simp

lemma contains_chain:
  "fold (\<lambda>d contains. if list_ex (\<lambda>a. added_id a = i) (added_entities d) then True
      else if i \<in> set (removed_entities d) then False else contains) ds (v \<noteq> None) \<longleftrightarrow> fold (overlay i f) ds v \<noteq> None"
proof (induction ds arbitrary: v)
  case (Cons d ds)
  have "list_ex (\<lambda>a. added_id a = i) (added_entities d) \<longleftrightarrow> added_with_id i d \<noteq> None"
    by (auto simp: added_with_id_def list_ex_iff find_None_iff)
  then have "(if list_ex (\<lambda>a. added_id a = i) (added_entities d) then True
      else if i \<in> set (removed_entities d) then False else v \<noteq> None) \<longleftrightarrow> overlay i f d v \<noteq> None"
    by (auto simp: overlay_def split: option.splits)
  with Cons [of "overlay i f d v"] show ?case by (simp only: fold_simps)
qed simp

end
