(* ===== verification/Layered_Replay.thy ===== *)
theory Layered_Replay
  imports Layered_Merge
begin

text \<open>
  The layered view refines the replayed index: what it merges on reading is what replaying the
  deltas stores, and a computed delta has what that needs. Two groups of queries do not: the callers
  of a callee and the transitive file queries.
\<close>

section \<open>Reading the layers is reading the replayed index\<close>

lemma own_relations:
  fixes ds :: "('q, 'i) SnapshotDelta list"
  assumes "\<forall>d \<in> set ds. k \<notin> set (removed_entities d)" "\<And>k e. e \<in> set (E k) \<Longrightarrow> caller e = k"
  shows "fold (\<lambda>d rels. without_identities (relation_identity ` {r \<in> set (removed_relations d). caller r = k}) rels
      @ filter (\<lambda>r. caller r = k) (added_relations d)) ds (E k) = fold edges_with ds E k"
  using assms
proof (induction ds arbitrary: E)
  case (Cons d ds)
  have "\<forall>e \<in> set (E k). caller e = k" using Cons.prems(2) by blast
  from own_identities [OF this, of "set (removed_relations d)"]
  have "without_identities (relation_identity ` {r \<in> set (removed_relations d). caller r = k}) (E k)
      @ filter (\<lambda>r. caller r = k) (added_relations d) = edges_with d E k"
    using Cons.prems(1) by (simp add: without_identities_def edges_with_def)
  moreover have "\<And>k e. e \<in> set (edges_with d E k) \<Longrightarrow> caller e = k" by (rule edges_with_callers [OF Cons.prems(2)])
  ultimately show ?case using Cons.IH [of "edges_with d E"] Cons.prems(1) by simp
qed simp

lemma listed_relations: "listed (relations_of s) = fwd_edges s"
  by (auto simp: fun_eq_iff listed_def relations_of_def fwd_edges_def split: option.split)

lemma shown_listed: "(case m k of Some [] \<Rightarrow> None | v \<Rightarrow> v) = (if listed m k = [] then None else Some (listed m k))"
  by (simp add: listed_def split: option.split list.split)

lemma relations_of_shown:
  assumes "fwd_wf s"
  shows "relations_of s k = (if fwd_edges s k = [] then None else Some (fwd_edges s k))"
  using assms by (auto simp: relations_of_def fwd_edges_def fwd_wf_def split: option.split)

text \<open>
  C6: Reading through the layers is reading the replayed index. For a base index whose invariant
  holds and a chain of deltas of which each fits the index before it, replaying the chain returns
  an index; the entities, their files, their number, the membership test, the ids of a name and the
  edges of every caller that the layered view merges when it is asked are those of that index, and
  the point lookup of a caller no delta removes is the entry of that index.
\<close>

theorem layered_refines_replay:
  fixes l :: "('q, 'i) LayeredSnapshotIndex"
  assumes base: "index_inv (base_index l)" "rev_rel (base_index l) = fwd_rel (base_index l)" and ho: "orders_ok ho"
    and fits: "chain_fits h ho shard (deltas l) (base_index l)"
  shows "\<exists>s'. apply_chain h ho shard (deltas l) (base_index l) = Some s'
    \<and> merged_functions l = function_index s' \<and> visited_relations l = relations_of s'
    \<and> (\<forall>i. get_function_by_entity_id_l i l = function_index s' i \<and> entity_file_of_l i l = entity_file_index s' i
         \<and> get_file_path_by_entity_l i l = entity_file_index s' i
         \<and> (contains_entity i l \<longleftrightarrow> i \<in> dom (function_index s')) \<and> (function_contains_l i l \<longleftrightarrow> i \<in> dom (function_index s')))
    \<and> function_count_l l = card (dom (function_index s'))
    \<and> (\<forall>n. set (get_function_ids_by_name_l n l) = set (get_function_ids_by_name n s'))
    \<and> (\<forall>k. \<not> is_removed_entity l k \<longrightarrow> relations_of_l k l = relations_of s' k)"
proof -
  let ?s = "base_index l" and ?ds = "deltas l"
  have fin: "finite (dom (function_index ?s))" using base(1) by (simp add: index_inv_def entity_inv_def entity_wf_def)
  have wf: "fwd_wf ?s" and nm: "names_ok ?s" using index_inv_parts [OF base(1)] by (simp_all add: graph_ok_def)
  have named: "set (get_function_ids_by_name n t) = ids_named n (function_index t)" if "names_ok t" for n and t :: "('q, 'i) rindex"
    using that by (simp add: get_function_ids_by_name_def names_ok_def named_def bucket_def ids_named_def split: option.splits)
  obtain s' where s': "apply_chain h ho shard ?ds ?s = Some s'"
    using chain_spec [OF index_inv_parts [OF base(1)] base(2) ho fin fits] by blast
  note C = chain_spec [OF index_inv_parts [OF base(1)] base(2) ho fin fits, unfolded s' option.inject, simplified]
  then have shape: "\<forall>d \<in> set ?ds. delta_shape d" and wf': "fwd_wf s'" and fe: "fwd_edges s' = fold edges_with ?ds (fwd_edges ?s)"
    by (simp_all add: graph_ok_def)
  have fns: "merged_functions l = function_index s'" using C by (simp add: merged_functions_def merged_with_fold)
  have callers: "caller e = k" if "e \<in> set (fwd_edges ?s k)" for k e using wf that by (rule fwd_caller)
  have lm: "listed (merged_relations l) = fwd_edges s'"
    using listed_merged [of "relations_of ?s" ?ds] callers
    by (simp add: merged_relations_def listed_relations fe)
  have vis: "visited_relations l = relations_of s'"
    by (simp add: fun_eq_iff visited_relations_def shown_listed lm relations_of_shown [OF wf'])
  have ent: "get_function_by_entity_id_l i l = function_index s' i" "entity_file_of_l i l = entity_file_index s' i"
    "get_file_path_by_entity_l i l = entity_file_index s' i" for i
    using C by (simp_all add: get_function_by_entity_id_l_def entity_file_of_l_def get_file_path_by_entity_l_def latest_chain [OF shape]
        overlay_chain [OF shape])
  have mem: "contains_entity i l \<longleftrightarrow> i \<in> dom (function_index s')" "function_contains_l i l \<longleftrightarrow> i \<in> dom (function_index s')" for i
  proof -
    have f: "fold (overlay i ae_entity) ?ds (function_index ?s i) = function_index s' i" using C by (simp add: overlay_chain [OF shape])
    show "function_contains_l i l \<longleftrightarrow> i \<in> dom (function_index s')"
      using contains_chain [where v = "function_index ?s i" and f = ae_entity and i = i and ds = ?ds] by (simp add: function_contains_l_def f dom_def)
    have u: "fold (overlay i (\<lambda>_. ())) ds (if v \<noteq> None then Some () else None) \<noteq> None \<longleftrightarrow> fold (overlay i ae_entity) ds v \<noteq> None"
      for ds :: "('q, 'i) SnapshotDelta list" and v
      using contains_chain [where v = "if v \<noteq> None then Some () else None" and f = "\<lambda>_. ()" and i = i and ds = ds]
        contains_chain [where v = v and f = ae_entity and i = i and ds = ds] by (simp split: if_splits)
    show "contains_entity i l \<longleftrightarrow> i \<in> dom (function_index s')"
      unfolding contains_entity_def latest_chain [OF shape] u f by (simp add: dom_def)
  qed
  have cnt: "function_count_l l = card (dom (function_index s'))"
  proof -
    have "int (card (dom (function_index s'))) = fold (\<lambda>d n. n + int (length (added_entities d)) - int (length (removed_entities d)))
        ?ds (int (card (dom (function_index ?s))))" using C by blast
    from this [symmetric] show ?thesis by (simp add: function_count_l_def function_count_s_def)
  qed
  have ids: "set (get_function_ids_by_name_l n l) = set (get_function_ids_by_name n s')" for n
    using C named [OF nm] named [of s'] by (simp add: get_function_ids_by_name_l_def)
  have own: "relations_of_l k l = relations_of s' k" if "\<not> is_removed_entity l k" for k
  proof -
    have kept: "\<forall>d \<in> set ?ds. k \<notin> set (removed_entities d)" using that by (simp add: is_removed_entity_def list_ex_iff)
    have "(case relations_of ?s k of Some rs \<Rightarrow> rs | None \<Rightarrow> []) = fwd_edges ?s k"
      by (simp add: relations_of_def fwd_edges_def split: option.split)
    with own_relations [OF kept callers] that show ?thesis
      by (simp add: relations_of_l_def relations_of_shown [OF wf'] fe)
  qed
  show ?thesis by (intro exI [of _ s'] conjI allI impI s' fns vis ent mem cnt ids own)
qed


section \<open>Computed deltas fit\<close>

lemma distinct_scan:
  assumes "distinct xs" "\<And>x y. x \<in> set xs \<Longrightarrow> f x = Some y \<Longrightarrow> g y = x"
  shows "distinct (map g (List.map_filter f xs))"
proof -
  have "map g (List.map_filter f xs) = filter (\<lambda>x. f x \<noteq> None) xs"
    using assms(2) by (induction xs) (auto simp: map_filter_simps split: option.split)
  with assms(1) show ?thesis by simp
qed

lemma distinct_edges_from:
  assumes "orders_ok ho" "fwd_wf s" "finite (dom (resolved_relation_index s))"
  shows "distinct (map relation_identity (edges_from ho s p))"
proof -
  have eq: "edges_from ho s p = concat (map (fwd_edges s) (filter p (ho_ids ho (dom (resolved_relation_index s)))))"
    by (simp add: edges_from_def fwd_edges_def [abs_def])
  have one: "distinct (map relation_identity (fwd_edges s k))" for k
    using assms(2) by (auto simp: fwd_edges_def fwd_wf_def es_inv_def split: option.split)
  have "distinct (map relation_identity (concat (map (fwd_edges s) ks)))" if "distinct ks" for ks
    using that
  proof (induction ks)
    case (Cons k ks)
    have "relation_identity ` set (fwd_edges s k) \<inter> relation_identity ` set (concat (map (fwd_edges s) ks)) = {}"
    proof (rule ccontr)
      assume "\<not> ?thesis"
      then obtain e e' k' where e: "e \<in> set (fwd_edges s k)" "e' \<in> set (fwd_edges s k')" "k' \<in> set ks" "relation_identity e = relation_identity e'"
        by auto
      then have "k = k'" using fwd_caller [OF assms(2)] identity_determines(1) by metis
      with e(3) Cons.prems show False by simp
    qed
    with Cons one show ?case by simp
  qed simp
  then show ?thesis using assms(1,3) by (simp add: eq orders_ok_def)
qed

lemma computed_lists:
  fixes new old :: "('q, 'i) rindex" and ep be :: int and h :: "string \<Rightarrow> string" and fp :: string and affected :: scope and ho hn
  defines "delta \<equiv> compute_delta h ho hn new old ep be fp affected"
  assumes ho: "orders_ok ho" "orders_ok hn" and old: "index_inv old" and new: "index_inv new"
    and key: "\<And>i e. function_index new i = Some e \<Longrightarrow> e_id e = i" and ren: "renamed_entities delta = []"
  shows "distinct (removed_entities delta) \<and> distinct (map added_id (added_entities delta))
    \<and> distinct (map relation_identity (added_relations delta))"
proof (cases "affected = Some {}")
  case False
  have fin: "finite (dom (function_index old))" "finite (dom (function_index new))"
    using old new by (simp_all add: index_inv_def entity_inv_def entity_wf_def)
  have it: "iter_ok (ho_ids ho)" "iter_ok (ho_ids hn)" using ho by (simp_all add: orders_ok_def)
  have wf: "fwd_wf new" "finite (dom (resolved_relation_index new))" using new by (simp_all add: index_inv_def graph_ok_def)
  obtain R A P where RAP: "compute_entity_diff h ho hn new old affected = (R, A, P)" using prod_cases3 by blast
  obtain RR AR c where RR: "compute_relation_diff ho hn new old affected (set R) = (RR, AR, c)" using prod_cases3 by blast
  have d: "removed_entities delta = R" "added_entities delta = A" "added_relations delta = AR" "P = []"
    using ren False by (simp_all add: delta_def compute_delta_def RAP RR)
  note RA = entity_diff_without_renames [OF RAP [unfolded d(4)]]
  have ae: "ae_entity (added_entity h new i e) = e" for i e by (simp add: added_entity_def Let_def split: option.split)
  have "distinct R" unfolding RA removed_entity_meta_def
    by (rule distinct_scan) (use it fin in \<open>auto split: option.splits if_splits\<close>)
  moreover have "distinct (map added_id A)" unfolding RA added_candidates_def
    by (rule distinct_scan) (use it fin key in \<open>auto simp: ae split: option.splits if_splits\<close>)
  moreover have "distinct (map relation_identity AR)"
    using RR [symmetric] distinct_edges_from [OF ho(2) wf] by (simp add: compute_relation_diff_def Let_def distinct_map_filter)
  ultimately show ?thesis by (simp add: d)
qed (simp add: delta_def compute_delta_def empty_delta_def)


section \<open>Where the layers differ from the index\<close>

lemma drop_caller_pair:
  "drop_caller c r (ks, seen) = (if callee_id r = Some c then (filter (\<lambda>k. k \<noteq> caller r) ks, seen - {caller r}) else (ks, seen))"
  by (simp add: drop_caller_def)

lemma fold_drop_caller:
  "k \<notin> set ks \<Longrightarrow> k \<notin> seen \<Longrightarrow> k \<notin> set (fst (fold (drop_caller c) rs (ks, seen))) \<and> k \<notin> snd (fold (drop_caller c) rs (ks, seen))"
  by (induction rs arbitrary: ks seen) (auto simp: drop_caller_pair)

lemma fold_drop_own:
  assumes "r \<in> set rs" "callee_id r = Some c"
  shows "caller r \<notin> set (fst (fold (drop_caller c) rs (ks, seen))) \<and> caller r \<notin> snd (fold (drop_caller c) rs (ks, seen))"
  using assms
proof (induction rs arbitrary: ks seen)
  case (Cons x rs)
  show ?case
  proof (cases "r = x")
    case True
    then show ?thesis using Cons.prems(2) fold_drop_caller [of "caller r" "filter (\<lambda>k. k \<noteq> caller x) ks" "seen - {caller x}" c rs]
      by (simp add: drop_caller_pair)
  next
    case False
    with Cons show ?thesis by (simp add: drop_caller_pair)
  qed
qed simp

lemma fold_join_caller:
  assumes "\<forall>a \<in> set as. callee_id a = Some c \<longrightarrow> caller a \<noteq> k"
  shows "k \<notin> set (fst acc) \<Longrightarrow> k \<notin> set (fst (fold (join_caller c) as acc))"
  using assms by (induction as arbitrary: acc) (auto simp: join_caller_def split: prod.split)

lemma fold_join_ids:
  assumes "\<forall>a \<in> set as. callee_id a = Some c \<longrightarrow> caller a \<noteq> k"
  shows "k \<notin> set ks \<Longrightarrow> k \<notin> set (fold (\<lambda>r ks. if callee_id r = Some c \<and> caller r \<notin> set ks then ks @ [caller r] else ks) as ks)"
  using assms by (induction as arbitrary: ks) auto

lemma relations_of_snoc:
  assumes "deltas l = ds @ [d]" "k \<notin> set (removed_entities d)" "relations_of_l k (l\<lparr>deltas := ds\<rparr>) = Some rs"
  shows "relations_of_l k l =
    (let rs' = without_identities (relation_identity ` {r \<in> set (removed_relations d). caller r = k}) rs
               @ filter (\<lambda>r. caller r = k) (added_relations d)
     in if rs' = [] then None else Some rs')"
proof -
  have "is_removed_entity l k = is_removed_entity (l\<lparr>deltas := ds\<rparr>) k" using assms(1,2) by (simp add: is_removed_entity_def)
  then show ?thesis using assms(1,3) unfolding relations_of_l_def by (simp add: Let_def split: if_splits)
qed

text \<open>
  C39: The layers lose callers that still call. When the last delta of a chain takes out one edge
  of a caller to a callee and adds none between the two, the callers the layered view lists for that
  callee leave the caller out, in both queries, although every other edge of the caller, parallel
  edges to the same callee included, is still among the edges it lists for the caller.
\<close>

theorem layered_callers_lost:
  fixes l :: "('q, 'i) LayeredSnapshotIndex"
  assumes last: "deltas l = ds @ [d]" and r: "r \<in> set (removed_relations d)" "callee_id r = Some c"
    and none: "\<forall>a \<in> set (added_relations d). callee_id a = Some c \<longrightarrow> caller a \<noteq> caller r"
  shows "caller r \<notin> set (callers_of_l c l) \<and> caller r \<notin> set (get_callers_by_callee_entity_l c l)
    \<and> (\<forall>e rs. relations_of_l (caller r) (l\<lparr>deltas := ds\<rparr>) = Some rs \<and> e \<in> set rs \<and> caller r \<notin> set (removed_entities d)
         \<and> relation_identity e \<notin> relation_identity ` set (removed_relations d)
         \<longrightarrow> (\<exists>rs'. relations_of_l (caller r) l = Some rs' \<and> e \<in> set rs'))"
proof (intro conjI allI impI)
  show "caller r \<notin> set (callers_of_l c l)"
  proof -
    have "caller r \<notin> set (fst (fold (join_caller c) (added_relations d) (fold (drop_caller c) (removed_relations d) acc)))" for acc
      by (cases acc) (rule fold_join_caller [OF none], simp add: fold_drop_own [OF r])
    then show ?thesis by (simp add: callers_of_l_def last)
  qed
  show "caller r \<notin> set (get_callers_by_callee_entity_l c l)"
  proof -
    have gone: "caller r \<notin> set (filter (\<lambda>k. k \<notin> set (removed_entities d)
        \<and> (k, Some c) \<notin> (\<lambda>r. (caller r, callee_id r)) ` set (removed_relations d)) ks)" for ks
      using r by force
    show ?thesis
      using fold_join_ids [OF none gone] by (auto simp: get_callers_by_callee_entity_l_def last dest!: in_set_takeD)
  qed
next
  fix e rs
  assume e: "relations_of_l (caller r) (l\<lparr>deltas := ds\<rparr>) = Some rs \<and> e \<in> set rs \<and> caller r \<notin> set (removed_entities d)
    \<and> relation_identity e \<notin> relation_identity ` set (removed_relations d)"
  let ?rs = "without_identities (relation_identity ` {x \<in> set (removed_relations d). caller x = caller r}) rs
    @ filter (\<lambda>x. caller x = caller r) (added_relations d)"
  have "e \<in> set ?rs" using e by (auto simp: without_identities_def)
  then have "?rs \<noteq> []" by (metis empty_iff empty_set)
  with relations_of_snoc [OF last, of "caller r" rs] e have "relations_of_l (caller r) l = Some ?rs" by (simp add: Let_def)
  with \<open>e \<in> set ?rs\<close> show "\<exists>rs'. relations_of_l (caller r) l = Some rs' \<and> e \<in> set rs'" by blast
qed

lemma visit_file_triple:
  "visit_file f (v, x, q) = (if f \<in> v then (v, x, q) else (insert f v, insert f x, q @ [f]))"
  by (simp add: visit_file_def)

lemma visit_files:
  assumes "fold visit_file fs (v, x, q) = (v', x', q')"
  shows "x \<subseteq> x' \<and> (finite x \<longrightarrow> finite x')"
  using assms
proof (induction fs arbitrary: v x q)
  case (Cons f fs)
  show ?case
  proof (cases "f \<in> v")
    case True
    with Cons show ?thesis by (simp add: visit_file_triple)
  next
    case False
    with Cons.prems have "fold visit_file fs (insert f v, insert f x, q @ [f]) = (v', x', q')" by (simp add: visit_file_triple)
    from Cons.IH [OF this] show ?thesis by auto
  qed
qed simp

lemma widen_found: "found \<subseteq> widen n direct based queue visited found \<and> (finite found \<longrightarrow> finite (widen n direct based queue visited found))"
proof (induction n direct based queue visited found rule: widen.induct)
  case (2 n direct based queue visited found)
  have step: "x \<subseteq> x' \<and> (finite x \<longrightarrow> finite x')"
    if "fold (\<lambda>cur acc. fold visit_file (based cur) (fold visit_file (direct cur) acc)) cs (v, x, q) = (v', x', q')" for cs v x q v' x' q'
    using that
  proof (induction cs arbitrary: v x q)
    case (Cons cur cs)
    obtain v1 x1 q1 where 1: "fold visit_file (direct cur) (v, x, q) = (v1, x1, q1)" using prod_cases3 by blast
    obtain v2 x2 q2 where 2: "fold visit_file (based cur) (v1, x1, q1) = (v2, x2, q2)" using prod_cases3 by blast
    from Cons.IH [of v2 x2 q2] Cons.prems visit_files [OF 1] visit_files [OF 2] show ?case by (auto simp: 1 2)
  qed simp
  obtain v x q where vxq: "fold (\<lambda>cur acc. fold visit_file (based cur) (fold visit_file (direct cur) acc)) queue (visited, found, []) = (v, x, q)"
    using prod_cases3 by blast
  show ?case
  proof (cases "queue = []")
    case False
    with "2.IH" [OF False vxq [symmetric] refl] step [OF vxq] show ?thesis by (auto simp: vxq)
  qed simp
qed simp

text \<open>
  C40: The transitive file queries of the layers follow the stored closure. Whatever the deltas
  say, they return every file the closure of the base returned, also one whose link a delta removed,
  and for a file without any in the base they return none, also when a delta added links to it.
\<close>

theorem layered_transitive_stale:
  fixes l :: "('q, 'i) LayeredSnapshotIndex"
  assumes "iter_ok it"
  shows "set (transitive_dependents_of f (transitive_deps (base l))) \<subseteq> set (transitive_dependents_of_l it l f)
    \<and> (transitive_dependents_of f (transitive_deps (base l)) = [] \<longrightarrow> transitive_dependents_of_l it l f = [])
    \<and> set (transitive_dependencies_of f (transitive_deps (base l))) \<subseteq> set (transitive_dependencies_of_l it l f)
    \<and> (transitive_dependencies_of f (transitive_deps (base l)) = [] \<longrightarrow> transitive_dependencies_of_l it l f = [])"
proof -
  have sub: "S \<subseteq> set (sorted_list_of_set (widen 10 direct based queue visited S))" if "finite S" for S direct based queue visited
    using widen_found [of S 10 direct based queue visited] that by simp
  have "set (it {}) = {}" using assms by (intro iter_ok_set) simp_all
  then have "it {} = []" by simp
  then have none: "widen 10 direct based (it {}) visited {} = {}" for direct based visited by (simp add: numeral_nat)
  show ?thesis
    by (intro conjI impI) (simp_all add: transitive_dependents_of_l_def transitive_dependencies_of_l_def Let_def none sub)
qed

section \<open>Witnesses\<close>

definition step_delta :: "EntityId list \<Rightarrow> AddedEntity list \<Rightarrow> unit edge list \<Rightarrow> unit edge list \<Rightarrow> (unit, unit) SnapshotDelta" where
  "step_delta gone fresh lost joined = \<lparr>sd_epoch = 2, sd_base_epoch = 1, sd_config_fingerprint = [], removed_files = [], added_files = [],
     removed_entities = gone, added_entities = fresh, removed_relations = lost, added_relations = joined, file_relation_diffs = [],
     import_diffs = [], export_diffs = [], dependency_diffs = [], relation_edges_dropped_unbounded = 0, renamed_entities = []\<rparr>"

definition fresh_entity :: "EntityId \<Rightarrow> AddedEntity" where
  "fresh_entity i = \<lparr>ae_entity = Entity_new i KFunction ''h'' (from_line 5), ae_symbol_key = StableSymbolKey_new id ''a'' ''h'' KFunction [], ae_file_path = ''a''\<rparr>"

lemma layered_refines_replay_witness:
  fixes l :: "(unit, unit) LayeredSnapshotIndex"
  defines "l \<equiv> with_deltas (from_index_shared sample_orders (demo_index [(1, ''f'', 3), (2, ''g'', 4)] []))
    [step_delta [] [fresh_entity 3] [] [demo_edge 1 3], step_delta [2] [] [] []]"
  shows "\<exists>s'. apply_chain id sample_orders (\<lambda>i. unat i) (deltas l) (base_index l) = Some s'
    \<and> dom (function_index s') = {1, 3} \<and> relations_of_l 1 l = relations_of s' 1"
proof -
  let ?s = "demo_index [(1, ''f'', 3), (2, ''g'', 4)] []"
  have b: "base_index l = ?s" by (simp add: l_def with_deltas_def from_index_shared_def)
  have d: "deltas l = [step_delta [] [fresh_entity 3] [] [demo_edge 1 3], step_delta [2] [] [] []]" by (simp add: l_def with_deltas_def)
  have e: "fwd_edges ?s k = []" for k using demo_edges [of "[]" "[(1, ''f'', 3), (2, ''g'', 4)]" k] by simp
  have f1: "delta_fits ?s (step_delta [] [fresh_entity 3] [] [demo_edge 1 3])"
    by (simp add: delta_fits_def step_delta_def fresh_entity_def demo_function_index e Entity_new_def)
  have f2: "delta_fits s1 (step_delta [2] [] [] [])" if "apply_delta id sample_orders (\<lambda>i. unat i) (step_delta [] [fresh_entity 3] [] [demo_edge 1 3]) ?s = Some s1" for s1
  proof -
    note S = apply_delta_step [OF index_inv_parts [OF demo_inv(1)] demo_inv(2) sample_orders_ok f1 that]
    have "function_index s1 2 \<noteq> None" using S
      by (simp add: step_delta_def demo_function_index merged_with_def fresh_entity_def Entity_new_def)
    moreover have "r = demo_edge 1 3" if "r \<in> set (fwd_edges s1 k)" for k r
      using S that by (simp add: step_delta_def edges_with_def e split: if_splits)
    ultimately show ?thesis by (fastforce simp: delta_fits_def step_delta_def demo_edge_def)
  qed
  have "chain_fits id sample_orders (\<lambda>i. unat i) (deltas l) (base_index l)"
    using f1 f2 by (auto simp: b d shards_apart_def step_delta_def split: option.split)
  then obtain s' where s': "apply_chain id sample_orders (\<lambda>i. unat i) (deltas l) (base_index l) = Some s'"
    "merged_functions l = function_index s'" "\<forall>k. \<not> is_removed_entity l k \<longrightarrow> relations_of_l k l = relations_of s' k"
    using layered_refines_replay [of l sample_orders id "\<lambda>i. unat i"] sample_orders_ok demo_inv [of "[(1, ''f'', 3), (2, ''g'', 4)]" "[]"] by (auto simp: b)
  have "dom (merged_functions l) = {1, 3}"
    by (auto simp: merged_functions_def b d step_delta_def fresh_entity_def demo_function_index Entity_new_def split: if_splits)
  then show ?thesis using s' by (auto simp: is_removed_entity_def d step_delta_def)
qed


definition parallel_edge :: "unit edge" where
  "parallel_edge = (demo_edge 1 2)\<lparr>span := from_line 4\<rparr>"

lemma layered_callers_lost_witness:
  fixes l :: "(unit, unit) LayeredSnapshotIndex"
  defines "l \<equiv> with_deltas (from_index_shared sample_orders (demo_index [(1, ''f'', 3), (2, ''g'', 4)] []))
    [step_delta [] [] [] [demo_edge 1 2, parallel_edge], step_delta [] [] [demo_edge 1 2] []]"
  shows "1 \<notin> set (callers_of_l 2 l) \<and> relations_of_l 1 l \<noteq> None"
proof -
  let ?ds = "[step_delta [] [] [] [demo_edge 1 2, parallel_edge]]" and ?d = "step_delta [] [] [demo_edge 1 2] []"
  let ?s = "demo_index [(1, ''f'', 3), (2, ''g'', 4)] [] :: (unit, unit) rindex"
  have ck: "caller (demo_edge 1 2) = 1" "callee_id (demo_edge 1 2) = Some 2" "caller parallel_edge = 1"
    by (simp_all add: demo_edge_def parallel_edge_def)
  have ds: "deltas l = ?ds @ [?d]" "base_index l = ?s" by (simp_all add: l_def with_deltas_def from_index_shared_def)
  have fwd: "fwd_edges ?s 1 = []" using demo_edges [of "[]" "[(1, ''f'', 3), (2, ''g'', 4)]" 1] by simp
  then have "(case relations_of ?s 1 of None \<Rightarrow> [] | Some rs \<Rightarrow> rs) = []"
    by (simp add: relations_of_def fwd_edges_def split: option.splits)
  then have rel: "relations_of_l 1 (l\<lparr>deltas := ?ds\<rparr>) = Some [demo_edge 1 2, parallel_edge]"
    by (simp add: relations_of_l_def ds(2) is_removed_entity_def step_delta_def ck without_identities_def)
  have "relation_identity parallel_edge \<noteq> relation_identity (demo_edge 1 2)"
    by (simp add: relation_identity_def parallel_edge_def demo_edge_def is_call_def from_line_def from_lines_def Span_new_def)
  with layered_callers_lost [OF ds(1), of "demo_edge 1 2" 2] rel ck show ?thesis by (auto simp: step_delta_def)
qed

lemma layered_transitive_stale_witness:
  fixes l :: "(unit, unit) LayeredSnapshotIndex"
  defines "l \<equiv> with_deltas (from_index_shared sample_orders RelationIndex_new)
    [(step_delta [] [] [] [])\<lparr>dependency_diffs := [\<lparr>dpd_source_file = ''a'', dpd_removed = [], dpd_added = [''b'']\<rparr>]\<rparr>]"
  shows "dependencies_of_l sorted_list_of_set l ''a'' = [''b''] \<and> transitive_dependencies_of_l sorted_list_of_set l ''a'' = []"
proof -
  have ix: "transitive_deps (base l) = from_relation_index sample_orders (RelationIndex_new :: (unit, unit) rindex) 10" "base_index l = RelationIndex_new"
    by (simp_all add: l_def with_deltas_def from_index_shared_def)
  have "transitive_dependencies_of ''a'' (from_relation_index sample_orders (RelationIndex_new :: (unit, unit) rindex) 10) = []"
  proof -
    have "get_all_files sorted_list_of_set dg_new = []" by (simp add: get_all_files_def dg_new_def file_set_def)
    then have "direct_links sample_orders (RelationIndex_new :: (unit, unit) rindex)
        = \<lparr>transitive_dependents = Map.empty, transitive_dependencies = Map.empty\<rparr>"
      by (simp add: direct_links_def RelationIndex_new_def sample_orders_def)
    then show ?thesis
      by (simp add: transitive_dependencies_of_def from_relation_index_def sample_orders_def sorted_set_def numeral_nat)
  qed
  with layered_transitive_stale [OF iter_ok_sorted, of "''a''" l] ix(1) have "transitive_dependencies_of_l sorted_list_of_set l ''a'' = []" by simp
  moreover have "dependencies_of_l sorted_list_of_set l ''a'' = [''b'']"
    by (simp add: dependencies_of_l_def ix(2)) (simp add: l_def with_deltas_def step_delta_def patch_deps_def RelationIndex_new_def get_dependencies_def dg_new_def)
  ultimately show ?thesis by simp
qed

end
