(* ===== verification/Checkpoint_Repo.thy ===== *)
theory Checkpoint_Repo
  imports Prelude "HOL-Library.List_Lexorder" "HOL-Library.Char_ord"
begin

text \<open>
  The checkpoint repository (\<^verbatim>\<open>cce-storage-metadb-sqlite/src/repo/checkpoint_repo.rs\<close>) over the
  tables of \<^verbatim>\<open>schema/checkpoint.rs\<close>. A table is the list of its rows in scan order; a statement
  is the effect its SQL text describes on that list, constraints of the schema included.
  SQLite itself is outside the source: whether a statement fails, and with which message, is
  the argument \<open>sql_drv\<close>; a failed statement changes nothing and a transaction that is not
  committed is rolled back. The clock is an argument (an RFC 3339 text), and texts compare
  byte-wise, as SQLite's default collation does.
\<close>

section \<open>Errors and records\<close>

text \<open>
  \<^verbatim>\<open>StorageError\<close>; a not-found or I/O error is its message. The two variants that wrap the errors of
  the Qdrant and BM25 backends are left out: no statement of the repository returns them.
\<close>

datatype StorageError =
    Connection string
  | Query string
  | Insert (err_table: string) (err_reason: string)
  | Transaction string
  | Table string
  | Delete (err_table: string) (err_reason: string)
  | Update (err_table: string) (err_reason: string)
  | Validation string
  | NotFound string
  | Io string
  | Sqlite string
  | StorageFull string
  | EpochConflict (active_epoch: int) (base_epoch: int)

type_synonym 'a result = "StorageError + 'a"

datatype CheckpointStatus = InProgress | Completed | Failed

fun status_as_str :: "CheckpointStatus \<Rightarrow> string" where
  "status_as_str InProgress = ''in_progress''"
| "status_as_str Completed = ''completed''"
| "status_as_str Failed = ''failed''"

definition status_from_str :: "string \<Rightarrow> CheckpointStatus option" where
  "status_from_str s =
     (if s = ''in_progress'' then Some InProgress
      else if s = ''completed'' then Some Completed
      else if s = ''failed'' then Some Failed
      else None)"

datatype WorkUnitStatus = WuPending | WuRunning | WuCommitted | WuFailed

fun wu_as_str :: "WorkUnitStatus \<Rightarrow> string" where
  "wu_as_str WuPending = ''pending''"
| "wu_as_str WuRunning = ''running''"
| "wu_as_str WuCommitted = ''committed''"
| "wu_as_str WuFailed = ''failed''"

definition wu_from_str :: "string \<Rightarrow> WorkUnitStatus option" where
  "wu_from_str s =
     (if s = ''pending'' then Some WuPending
      else if s = ''running'' then Some WuRunning
      else if s = ''committed'' then Some WuCommitted
      else if s = ''failed'' then Some WuFailed
      else None)"

text \<open>Fields carry a prefix per record, since several records of the source share names.\<close>

record CheckpointRecord =
  cp_id :: "nat option"
  cp_project_id :: int
  cp_operation_id :: string
  cp_operation_type :: string
  cp_root_dir :: string
  cp_total_files :: u32
  cp_batch_size :: u32
  cp_current_batch_index :: u32
  cp_current_phase :: string
  cp_file_list_hash :: "string option"
  cp_created_at :: string
  cp_updated_at :: string
  cp_last_error :: "string option"
  cp_failure_count :: u32
  cp_status :: CheckpointStatus
  cp_active_flag :: bool
  cp_priority :: int
  cp_last_heartbeat :: "string option"
  cp_failed_at :: "string option"

record BatchCheckpointRecord =
  bc_id :: "nat option"
  bc_operation_id :: string
  bc_batch_index :: u32
  bc_first_file :: string
  bc_last_file :: string
  bc_file_count :: u32
  bc_processed_files :: u32
  bc_failed_files :: u32
  bc_entities_extracted :: u32
  bc_relations_found :: u32
  bc_chunks_generated :: u32
  bc_vectors_stored :: u32
  bc_start_time :: string
  bc_end_time :: "string option"
  bc_duration_ms :: "int option"
  bc_created_at :: string
  bc_updated_at :: string

record FileCheckpointRecord =
  fc_id :: "nat option"
  fc_operation_id :: string
  fc_batch_index :: u32
  fc_file_path :: string
  fc_file_id :: "int option"
  fc_language :: "string option"
  fc_file_size :: "int option"
  fc_content_hash :: "string option"
  fc_parsed_data :: "u8 list option"
  fc_parse_error :: "string option"
  fc_summary_data :: "u8 list option"
  fc_embedding_count :: u32
  fc_bm25_doc_id :: "string option"
  fc_export_path :: "string option"
  fc_render_fingerprint :: "string option"
  fc_module_progress :: "string option"
  fc_created_at :: string
  fc_updated_at :: string

record WorkUnitCheckpointRecord =
  wu_id :: "nat option"
  wu_project_id :: int
  wu_operation_id :: string
  wu_stage :: string
  wu_target_epoch :: int
  wu_work_unit_hash :: string
  wu_status :: WorkUnitStatus
  wu_item_count :: u32
  wu_created_at :: string
  wu_updated_at :: string

text \<open>
  The four tables with their \<^verbatim>\<open>AUTOINCREMENT\<close> counters. The batch and file tables have a
  \<^verbatim>\<open>project_id\<close> column that their records lack, so their rows are pairs. \<open>enable_fk\<close> is the
  client's configuration: foreign keys are checked and cascaded only when it is set.
\<close>

record Db =
  enable_fk :: bool
  checkpoint_tbl :: "CheckpointRecord list"
  checkpoint_seq :: nat
  batch_tbl :: "(int \<times> BatchCheckpointRecord) list"
  batch_seq :: nat
  file_tbl :: "(int \<times> FileCheckpointRecord) list"
  file_seq :: nat
  unit_tbl :: "WorkUnitCheckpointRecord list"
  unit_seq :: nat

section \<open>Statements\<close>

record sql_drv =
  fault :: "string option"
  constraint_text :: string

abbreviation sql_ok :: "sql_drv \<Rightarrow> bool" where
  "sql_ok drv \<equiv> fault drv = None"

definition sql_exec :: "sql_drv \<Rightarrow> bool \<Rightarrow> string + unit" where
  "sql_exec drv constraints_hold =
     (case fault drv of
        Some e \<Rightarrow> Inl e
      | None \<Rightarrow> if constraints_hold then Inr () else Inl (constraint_text drv))"

definition update_where :: "('r \<Rightarrow> bool) \<Rightarrow> ('r \<Rightarrow> 'r) \<Rightarrow> 'r list \<Rightarrow> 'r list" where
  "update_where p u rows = map (\<lambda>r. if p r then u r else r) rows"

definition rows_affected :: "('r \<Rightarrow> bool) \<Rightarrow> 'r list \<Rightarrow> nat" where
  "rows_affected p rows = length (filter p rows)"

definition order_by :: "('r \<Rightarrow> 'k::linorder) \<Rightarrow> 'r list \<Rightarrow> 'r list" where
  "order_by k rows = sort_key k rows"

fun order_by_desc_limit1 :: "('r \<Rightarrow> 'k::linorder) \<Rightarrow> 'r list \<Rightarrow> 'r option" where
  "order_by_desc_limit1 k [] = None"
| "order_by_desc_limit1 k (r # rs) =
     (case order_by_desc_limit1 k rs of
        None \<Rightarrow> Some r
      | Some m \<Rightarrow> if k r < k m then Some m else Some r)"

definition query_fails :: "sql_drv \<Rightarrow> 'a \<Rightarrow> 'a result" where
  "query_fails drv a = (case fault drv of Some e \<Rightarrow> Inl (Query e) | None \<Rightarrow> Inr a)"

fun coalesce :: "'a option \<Rightarrow> 'a option \<Rightarrow> 'a option" where
  "coalesce (Some v) _ = Some v"
| "coalesce None c = c"

text \<open>The keys and the \<^verbatim>\<open>CHECK\<close> clauses of the schema.\<close>

abbreviation cp_key :: "CheckpointRecord \<Rightarrow> int \<times> string" where
  "cp_key r \<equiv> (cp_project_id r, cp_operation_id r)"

abbreviation bc_key :: "int \<times> BatchCheckpointRecord \<Rightarrow> int \<times> string \<times> u32" where
  "bc_key r \<equiv> (fst r, bc_operation_id (snd r), bc_batch_index (snd r))"

abbreviation fc_key :: "int \<times> FileCheckpointRecord \<Rightarrow> int \<times> string \<times> string" where
  "fc_key r \<equiv> (fst r, fc_operation_id (snd r), fc_file_path (snd r))"

abbreviation fc_parent :: "int \<times> FileCheckpointRecord \<Rightarrow> int \<times> string \<times> u32" where
  "fc_parent r \<equiv> (fst r, fc_operation_id (snd r), fc_batch_index (snd r))"

abbreviation wu_key :: "WorkUnitCheckpointRecord \<Rightarrow> int \<times> string \<times> string \<times> string" where
  "wu_key r \<equiv> (wu_project_id r, wu_operation_id r, wu_stage r, wu_work_unit_hash r)"

definition checkpoint_checks :: "CheckpointRecord \<Rightarrow> bool" where
  "checkpoint_checks r \<longleftrightarrow> 0 < cp_batch_size r \<and> cp_priority r \<in> {0, 1, 2, 3}"

definition has_checkpoint :: "Db \<Rightarrow> int \<Rightarrow> string \<Rightarrow> bool" where
  "has_checkpoint db p oid \<longleftrightarrow> (p, oid) \<in> set (map cp_key (checkpoint_tbl db))"

definition has_batch :: "Db \<Rightarrow> int \<times> string \<times> u32 \<Rightarrow> bool" where
  "has_batch db k \<longleftrightarrow> k \<in> set (map bc_key (batch_tbl db))"

section \<open>The checkpoint table\<close>

definition create_checkpoint ::
  "sql_drv \<Rightarrow> int \<Rightarrow> CheckpointRecord \<Rightarrow> Db \<Rightarrow> nat result \<times> Db" where
  "create_checkpoint drv p cp db =
     (let rowid = Suc (checkpoint_seq db);
          row = cp\<lparr>cp_id := Some rowid, cp_project_id := p, cp_last_error := None,
                   cp_failure_count := 0\<rparr>
      in case sql_exec drv (checkpoint_checks row \<and> \<not> has_checkpoint db p (cp_operation_id cp)) of
           Inl e \<Rightarrow> (Inl (Insert ''checkpoint'' (''Failed to create checkpoint: '' @ e)), db)
         | Inr _ \<Rightarrow> (Inr rowid, db\<lparr>checkpoint_tbl := checkpoint_tbl db @ [row],
                                   checkpoint_seq := rowid\<rparr>))"

definition get_checkpoint :: "sql_drv \<Rightarrow> int \<Rightarrow> string \<Rightarrow> Db \<Rightarrow> CheckpointRecord option result" where
  "get_checkpoint drv p oid db =
     query_fails drv (find (\<lambda>r. cp_key r = (p, oid)) (checkpoint_tbl db))"

definition update_checkpoint_status ::
  "sql_drv \<Rightarrow> string \<Rightarrow> int \<Rightarrow> string \<Rightarrow> CheckpointStatus \<Rightarrow> Db \<Rightarrow> unit result \<times> Db" where
  "update_checkpoint_status drv now p oid st db =
     (let flag = (case st of Completed \<Rightarrow> False | Failed \<Rightarrow> False | InProgress \<Rightarrow> True)
      in case sql_exec drv True of
           Inl e \<Rightarrow> (Inl (Update ''checkpoint'' (''Failed to update checkpoint status: '' @ e)), db)
         | Inr _ \<Rightarrow> (Inr (), db\<lparr>checkpoint_tbl := update_where (\<lambda>r. cp_key r = (p, oid))
             (\<lambda>r. r\<lparr>cp_status := st, cp_active_flag := flag, cp_updated_at := now\<rparr>)
             (checkpoint_tbl db)\<rparr>))"

definition update_current_batch_index ::
  "sql_drv \<Rightarrow> string \<Rightarrow> int \<Rightarrow> string \<Rightarrow> u32 \<Rightarrow> Db \<Rightarrow> unit result \<times> Db" where
  "update_current_batch_index drv now p oid i db =
     (case sql_exec drv True of
        Inl e \<Rightarrow> (Inl (Update ''checkpoint'' (''Failed to update current batch index: '' @ e)), db)
      | Inr _ \<Rightarrow> (Inr (), db\<lparr>checkpoint_tbl := update_where (\<lambda>r. cp_key r = (p, oid))
          (\<lambda>r. r\<lparr>cp_current_batch_index := i, cp_updated_at := now\<rparr>) (checkpoint_tbl db)\<rparr>))"

definition update_checkpoint ::
  "sql_drv \<Rightarrow> string \<Rightarrow> int \<Rightarrow> CheckpointRecord \<Rightarrow> Db \<Rightarrow> unit result \<times> Db" where
  "update_checkpoint drv now p cp db =
     (let u = (\<lambda>r. cp\<lparr>cp_id := cp_id r, cp_project_id := cp_project_id r,
                       cp_operation_id := cp_operation_id r, cp_created_at := cp_created_at r,
                       cp_updated_at := now\<rparr>)
      in case sql_exec drv (checkpoint_checks cp \<or> \<not> has_checkpoint db p (cp_operation_id cp)) of
           Inl e \<Rightarrow> (Inl (Update ''checkpoint'' (''Failed to update checkpoint: '' @ e)), db)
         | Inr _ \<Rightarrow> (Inr (), db\<lparr>checkpoint_tbl :=
             update_where (\<lambda>r. cp_key r = (p, cp_operation_id cp)) u (checkpoint_tbl db)\<rparr>))"

definition get_latest_incomplete_by_type ::
  "sql_drv \<Rightarrow> int \<Rightarrow> string \<Rightarrow> string \<Rightarrow> Db \<Rightarrow> CheckpointRecord option result" where
  "get_latest_incomplete_by_type drv p ty root db =
     query_fails drv (map_option (\<lambda>r. r\<lparr>cp_failed_at := None\<rparr>)
       (order_by_desc_limit1 cp_created_at
         (filter (\<lambda>r. cp_project_id r = p \<and> cp_status r = InProgress
                      \<and> cp_operation_type r = ty \<and> cp_root_dir r = root) (checkpoint_tbl db))))"

text \<open>
  \<open>parse_rfc3339\<close> stands for \<^verbatim>\<open>chrono::DateTime::parse_from_rfc3339\<close>: \<open>Some e\<close> is a parse
  error with its message.
\<close>

definition validate_checkpoint ::
  "(string \<Rightarrow> string option) \<Rightarrow> CheckpointRecord \<Rightarrow> unit result" where
  "validate_checkpoint parse_rfc3339 cp =
     (if cp_operation_id cp = [] then Inl (Validation ''checkpoint operation_id is empty'')
      else if cp_operation_type cp \<notin> {''full_index'', ''hot_update'', ''incremental''}
        then Inl (Validation (''Invalid operation_type: '' @ cp_operation_type cp))
      else if cp_current_phase cp = [] then Inl (Validation ''checkpoint current_phase is empty'')
      else case parse_rfc3339 (cp_created_at cp) of
          Some e \<Rightarrow> Inl (Validation (''Invalid created_at timestamp: '' @ e))
        | None \<Rightarrow> (case parse_rfc3339 (cp_updated_at cp) of
            Some e \<Rightarrow> Inl (Validation (''Invalid updated_at timestamp: '' @ e))
          | None \<Rightarrow> Inr ()))"

definition get_unfinished_operations ::
  "sql_drv \<Rightarrow> int \<Rightarrow> Db \<Rightarrow> CheckpointRecord list result" where
  "get_unfinished_operations drv p db =
     query_fails drv (map (\<lambda>r. r\<lparr>cp_failed_at := None\<rparr>) (order_by cp_created_at
       (filter (\<lambda>r. cp_project_id r = p \<and> cp_status r = InProgress) (checkpoint_tbl db))))"

section \<open>The active operation gate\<close>

definition get_active_checkpoint :: "sql_drv \<Rightarrow> int \<Rightarrow> Db \<Rightarrow> CheckpointRecord option result" where
  "get_active_checkpoint drv p db =
     query_fails drv (map_option (\<lambda>r. r\<lparr>cp_failed_at := None\<rparr>)
       (find (\<lambda>r. cp_project_id r = p \<and> cp_active_flag r) (checkpoint_tbl db)))"

definition set_active_flag ::
  "sql_drv \<Rightarrow> string \<Rightarrow> int \<Rightarrow> string \<Rightarrow> int \<Rightarrow> Db \<Rightarrow> unit result \<times> Db" where
  "set_active_flag drv now p oid prio db =
     (case sql_exec drv (prio \<in> {0, 1, 2, 3} \<or> \<not> has_checkpoint db p oid) of
        Inl e \<Rightarrow> (Inl (Update ''checkpoint'' (''Failed to set active flag: '' @ e)), db)
      | Inr _ \<Rightarrow> (Inr (), db\<lparr>checkpoint_tbl := update_where (\<lambda>r. cp_key r = (p, oid))
          (\<lambda>r. r\<lparr>cp_active_flag := True, cp_priority := prio, cp_last_heartbeat := Some now,
                 cp_updated_at := now\<rparr>) (checkpoint_tbl db)\<rparr>))"

definition clear_active_flag ::
  "sql_drv \<Rightarrow> string \<Rightarrow> int \<Rightarrow> string \<Rightarrow> Db \<Rightarrow> unit result \<times> Db" where
  "clear_active_flag drv now p oid db =
     (case sql_exec drv True of
        Inl e \<Rightarrow> (Inl (Update ''checkpoint'' (''Failed to clear active flag: '' @ e)), db)
      | Inr _ \<Rightarrow> (Inr (), db\<lparr>checkpoint_tbl := update_where (\<lambda>r. cp_key r = (p, oid))
          (\<lambda>r. r\<lparr>cp_active_flag := False, cp_updated_at := now\<rparr>) (checkpoint_tbl db)\<rparr>))"

definition update_heartbeat ::
  "sql_drv \<Rightarrow> string \<Rightarrow> int \<Rightarrow> string \<Rightarrow> Db \<Rightarrow> unit result \<times> Db" where
  "update_heartbeat drv now p oid db =
     (let target = (\<lambda>r. cp_key r = (p, oid) \<and> cp_active_flag r)
      in case sql_exec drv True of
           Inl e \<Rightarrow> (Inl (Update ''checkpoint'' (''Failed to update heartbeat: '' @ e)), db)
         | Inr _ \<Rightarrow>
             (if rows_affected target (checkpoint_tbl db) = 0
              then (Inl (NotFound (''Active checkpoint not found: '' @ oid)), db)
              else (Inr (), db\<lparr>checkpoint_tbl := update_where target
                      (\<lambda>r. r\<lparr>cp_last_heartbeat := Some now, cp_updated_at := now\<rparr>)
                      (checkpoint_tbl db)\<rparr>)))"

text \<open>\<open>cutoff\<close> is the text of \<^verbatim>\<open>Utc::now() - Duration::seconds(stale_threshold_secs)\<close>.\<close>

definition stale_active :: "int \<Rightarrow> string \<Rightarrow> CheckpointRecord \<Rightarrow> bool" where
  "stale_active p cutoff r \<longleftrightarrow> cp_project_id r = p \<and> cp_active_flag r \<and>
     (case cp_last_heartbeat r of None \<Rightarrow> True | Some h \<Rightarrow> h < cutoff)"

definition cleanup_stale_active ::
  "sql_drv \<Rightarrow> string \<Rightarrow> int \<Rightarrow> string \<Rightarrow> Db \<Rightarrow> nat result \<times> Db" where
  "cleanup_stale_active drv now p cutoff db =
     (case sql_exec drv True of
        Inl e \<Rightarrow> (Inl (Update ''checkpoint'' (''Failed to cleanup stale active checkpoints: '' @ e)), db)
      | Inr _ \<Rightarrow> (Inr (rows_affected (stale_active p cutoff) (checkpoint_tbl db)),
          db\<lparr>checkpoint_tbl := update_where (stale_active p cutoff)
               (\<lambda>r. r\<lparr>cp_active_flag := False, cp_updated_at := now\<rparr>) (checkpoint_tbl db)\<rparr>))"

section \<open>Batches, files and work units\<close>

definition insert_batch_checkpoint ::
  "sql_drv \<Rightarrow> int \<Rightarrow> BatchCheckpointRecord \<Rightarrow> Db \<Rightarrow> nat result \<times> Db" where
  "insert_batch_checkpoint drv p b db =
     (let rowid = Suc (batch_seq db); row = (p, b\<lparr>bc_id := Some rowid\<rparr>)
      in case sql_exec drv (\<not> has_batch db (bc_key row)
                \<and> (enable_fk db \<longrightarrow> has_checkpoint db p (bc_operation_id b))) of
           Inl e \<Rightarrow> (Inl (Insert ''checkpoint_batch'' (''Failed to insert batch checkpoint: '' @ e)), db)
         | Inr _ \<Rightarrow> (Inr rowid, db\<lparr>batch_tbl := batch_tbl db @ [row], batch_seq := rowid\<rparr>))"

definition coalesce_file ::
  "string \<Rightarrow> FileCheckpointRecord \<Rightarrow> FileCheckpointRecord \<Rightarrow> FileCheckpointRecord" where
  "coalesce_file now f r =
     r\<lparr>fc_batch_index := fc_batch_index f,
       fc_language := coalesce (fc_language f) (fc_language r),
       fc_file_size := coalesce (fc_file_size f) (fc_file_size r),
       fc_content_hash := coalesce (fc_content_hash f) (fc_content_hash r),
       fc_parsed_data := coalesce (fc_parsed_data f) (fc_parsed_data r),
       fc_parse_error := coalesce (fc_parse_error f) (fc_parse_error r),
       fc_summary_data := coalesce (fc_summary_data f) (fc_summary_data r),
       fc_embedding_count := fc_embedding_count f,
       fc_bm25_doc_id := coalesce (fc_bm25_doc_id f) (fc_bm25_doc_id r),
       fc_export_path := coalesce (fc_export_path f) (fc_export_path r),
       fc_render_fingerprint := coalesce (fc_render_fingerprint f) (fc_render_fingerprint r),
       fc_module_progress := coalesce (fc_module_progress f) (fc_module_progress r),
       fc_updated_at := now\<rparr>"

text \<open>
  \<open>q\<close> drives the existence query and \<open>drv\<close> the write that follows. \<open>embedding_count\<close> is a
  plain \<^verbatim>\<open>u32\<close>, so its \<^verbatim>\<open>COALESCE\<close> always takes the new value. The insert reads the clock
  twice.
\<close>

definition upsert_file_checkpoint ::
  "sql_drv \<Rightarrow> sql_drv \<Rightarrow> string \<Rightarrow> string \<Rightarrow> int \<Rightarrow> FileCheckpointRecord \<Rightarrow> Db
     \<Rightarrow> unit result \<times> Db" where
  "upsert_file_checkpoint q drv now now' p f db =
     (let k = (p, fc_operation_id f, fc_file_path f);
          fk = (enable_fk db \<longrightarrow> has_batch db (p, fc_operation_id f, fc_batch_index f));
          fail = (\<lambda>e. Inl (Insert ''checkpoint_file'' (''Failed to upsert file checkpoint: '' @ e)))
      in case query_fails q (\<exists>r \<in> set (file_tbl db). fc_key r = k) of
           Inl e \<Rightarrow> (Inl e, db)
         | Inr True \<Rightarrow> (case sql_exec drv fk of
               Inl e \<Rightarrow> (fail e, db)
             | Inr _ \<Rightarrow> (Inr (), db\<lparr>file_tbl := update_where (\<lambda>r. fc_key r = k)
                 (\<lambda>(pid, r). (pid, coalesce_file now f r)) (file_tbl db)\<rparr>))
         | Inr False \<Rightarrow> (case sql_exec drv fk of
               Inl e \<Rightarrow> (fail e, db)
             | Inr _ \<Rightarrow> (Inr (), db\<lparr>file_tbl := file_tbl db @
                 [(p, f\<lparr>fc_id := Some (Suc (file_seq db)), fc_created_at := now,
                        fc_updated_at := now'\<rparr>)],
                 file_seq := Suc (file_seq db)\<rparr>)))"

definition get_file_checkpoint ::
  "sql_drv \<Rightarrow> int \<Rightarrow> string \<Rightarrow> string \<Rightarrow> Db \<Rightarrow> FileCheckpointRecord option result" where
  "get_file_checkpoint drv p oid path db =
     query_fails drv (map_option snd (find (\<lambda>r. fc_key r = (p, oid, path)) (file_tbl db)))"

definition get_batch_files ::
  "sql_drv \<Rightarrow> int \<Rightarrow> string \<Rightarrow> u32 \<Rightarrow> Db \<Rightarrow> FileCheckpointRecord list result" where
  "get_batch_files drv p oid i db =
     query_fails drv (order_by fc_file_path
       (map snd (filter (\<lambda>r. fc_parent r = (p, oid, i)) (file_tbl db))))"

definition get_batch_checkpoint ::
  "sql_drv \<Rightarrow> int \<Rightarrow> string \<Rightarrow> u32 \<Rightarrow> Db \<Rightarrow> BatchCheckpointRecord option result" where
  "get_batch_checkpoint drv p oid i db =
     query_fails drv (map_option snd (find (\<lambda>r. bc_key r = (p, oid, i)) (batch_tbl db)))"

definition get_failed_files ::
  "sql_drv \<Rightarrow> int \<Rightarrow> string \<Rightarrow> Db \<Rightarrow> (string \<times> string) list result" where
  "get_failed_files drv p oid db =
     query_fails drv (map (\<lambda>r. (fc_file_path r,
           case fc_parse_error r of Some e \<Rightarrow> e | None \<Rightarrow> ''Unknown error''))
       (order_by fc_file_path (map snd (filter
         (\<lambda>r. fst r = p \<and> fc_operation_id (snd r) = oid \<and> fc_parse_error (snd r) \<noteq> None)
         (file_tbl db)))))"

definition insert_work_unit ::
  "sql_drv \<Rightarrow> WorkUnitCheckpointRecord \<Rightarrow> Db \<Rightarrow> nat result \<times> Db" where
  "insert_work_unit drv w db =
     (let rowid = Suc (unit_seq db)
      in case sql_exec drv (wu_key w \<notin> set (map wu_key (unit_tbl db))
                \<and> (enable_fk db \<longrightarrow> has_checkpoint db (wu_project_id w) (wu_operation_id w))) of
           Inl e \<Rightarrow> (Inl (Insert ''work_unit_checkpoint'' (''Failed to insert work unit checkpoint: '' @ e)), db)
         | Inr _ \<Rightarrow> (Inr rowid, db\<lparr>unit_tbl := unit_tbl db @ [w\<lparr>wu_id := Some rowid\<rparr>],
                                   unit_seq := rowid\<rparr>))"

definition update_work_unit_status ::
  "sql_drv \<Rightarrow> string \<Rightarrow> int \<Rightarrow> string \<Rightarrow> string \<Rightarrow> string \<Rightarrow> WorkUnitStatus \<Rightarrow> Db \<Rightarrow> unit result \<times> Db" where
  "update_work_unit_status drv now p oid stage h st db =
     (case sql_exec drv True of
        Inl e \<Rightarrow> (Inl (Update ''work_unit_checkpoint'' (''Failed to update work unit status: '' @ e)), db)
      | Inr _ \<Rightarrow> (Inr (), db\<lparr>unit_tbl := update_where (\<lambda>w. wu_key w = (p, oid, stage, h))
          (\<lambda>w. w\<lparr>wu_status := st, wu_updated_at := now\<rparr>) (unit_tbl db)\<rparr>))"

definition get_work_units ::
  "sql_drv \<Rightarrow> int \<Rightarrow> string \<Rightarrow> string \<Rightarrow> Db \<Rightarrow> WorkUnitCheckpointRecord list result" where
  "get_work_units drv p oid stage db =
     query_fails drv (order_by (\<lambda>w. case wu_id w of Some i \<Rightarrow> i | None \<Rightarrow> 0) (filter
       (\<lambda>w. wu_project_id w = p \<and> wu_operation_id w = oid \<and> wu_stage w = stage) (unit_tbl db)))"

definition get_work_unit_by_hash ::
  "sql_drv \<Rightarrow> int \<Rightarrow> string \<Rightarrow> string \<Rightarrow> string \<Rightarrow> Db \<Rightarrow> WorkUnitCheckpointRecord option result" where
  "get_work_unit_by_hash drv p oid stage h db =
     query_fails drv (find (\<lambda>w. wu_key w = (p, oid, stage, h)) (unit_tbl db))"

section \<open>Cleanup\<close>

definition delete_checkpoint_files_by_operation_id ::
  "sql_drv \<Rightarrow> int \<Rightarrow> string \<Rightarrow> Db \<Rightarrow> nat result \<times> Db" where
  "delete_checkpoint_files_by_operation_id drv p oid db =
     (let hit = (\<lambda>r. fst r = p \<and> fc_operation_id (snd r) = oid)
      in case sql_exec drv True of
           Inl e \<Rightarrow> (Inl (Delete ''checkpoint_file'' (''Failed to delete checkpoint files: '' @ e)), db)
         | Inr _ \<Rightarrow> (Inr (rows_affected hit (file_tbl db)),
                     db\<lparr>file_tbl := filter (\<lambda>r. \<not> hit r) (file_tbl db)\<rparr>))"

text \<open>Deleting batches cascades to the files of those batches when foreign keys are on.\<close>

definition delete_batches_where ::
  "(int \<times> BatchCheckpointRecord \<Rightarrow> bool) \<Rightarrow> Db \<Rightarrow> Db" where
  "delete_batches_where hit db =
     db\<lparr>batch_tbl := filter (\<lambda>r. \<not> hit r) (batch_tbl db),
        file_tbl := filter (\<lambda>f. enable_fk db \<longrightarrow>
            fc_parent f \<notin> set (map bc_key (filter hit (batch_tbl db)))) (file_tbl db)\<rparr>"

definition delete_checkpoint_batches_by_operation_id ::
  "sql_drv \<Rightarrow> int \<Rightarrow> string \<Rightarrow> Db \<Rightarrow> nat result \<times> Db" where
  "delete_checkpoint_batches_by_operation_id drv p oid db =
     (let hit = (\<lambda>r. fst r = p \<and> bc_operation_id (snd r) = oid)
      in case sql_exec drv True of
           Inl e \<Rightarrow> (Inl (Delete ''checkpoint_batch'' (''Failed to delete checkpoint batches: '' @ e)), db)
         | Inr _ \<Rightarrow> (Inr (rows_affected hit (batch_tbl db)), delete_batches_where hit db))"

definition delete_work_units_by_operation_id ::
  "sql_drv \<Rightarrow> int \<Rightarrow> string \<Rightarrow> Db \<Rightarrow> nat result \<times> Db" where
  "delete_work_units_by_operation_id drv p oid db =
     (let hit = (\<lambda>w. wu_project_id w = p \<and> wu_operation_id w = oid)
      in case sql_exec drv True of
           Inl e \<Rightarrow> (Inl (Delete ''work_unit_checkpoint'' (''Failed to delete work units: '' @ e)), db)
         | Inr _ \<Rightarrow> (Inr (rows_affected hit (unit_tbl db)),
                     db\<lparr>unit_tbl := filter (\<lambda>w. \<not> hit w) (unit_tbl db)\<rparr>))"

definition clear_module_progress ::
  "sql_drv \<Rightarrow> string \<Rightarrow> int \<Rightarrow> string \<Rightarrow> Db \<Rightarrow> nat result \<times> Db" where
  "clear_module_progress drv now p oid db =
     (let hit = (\<lambda>r. fst r = p \<and> fc_operation_id (snd r) = oid \<and> fc_module_progress (snd r) \<noteq> None)
      in case sql_exec drv True of
           Inl e \<Rightarrow> (Inl (Update ''checkpoint_file'' (''Failed to clear module progress: '' @ e)), db)
         | Inr _ \<Rightarrow> (Inr (rows_affected hit (file_tbl db)),
             db\<lparr>file_tbl := update_where hit
               (\<lambda>(pid, r). (pid, r\<lparr>fc_module_progress := None, fc_updated_at := now\<rparr>)) (file_tbl db)\<rparr>))"

definition expired :: "int \<Rightarrow> string \<Rightarrow> CheckpointRecord \<Rightarrow> bool" where
  "expired p cutoff r \<longleftrightarrow> cp_project_id r = p \<and> cp_status r \<in> {Completed, Failed}
     \<and> cp_updated_at r < cutoff \<and> \<not> cp_active_flag r"

text \<open>
  The cascade of \<open>ON DELETE CASCADE\<close> from a checkpoint to its batches, their files and its
  work units. The fourth child table, \<^verbatim>\<open>index_state_projection\<close>, is not modelled.
\<close>

definition delete_expired_checkpoints ::
  "sql_drv \<Rightarrow> int \<Rightarrow> string \<Rightarrow> Db \<Rightarrow> nat result \<times> Db" where
  "delete_expired_checkpoints drv p cutoff db =
     (let hit = expired p cutoff; gone = set (map cp_key (filter hit (checkpoint_tbl db)))
      in case sql_exec drv True of
           Inl e \<Rightarrow> (Inl (Delete ''checkpoint'' (''Failed to delete expired checkpoints: '' @ e)), db)
         | Inr _ \<Rightarrow> (Inr (rows_affected hit (checkpoint_tbl db)),
             (let db1 = db\<lparr>checkpoint_tbl := filter (\<lambda>r. \<not> hit r) (checkpoint_tbl db)\<rparr>
              in if enable_fk db
                 then (delete_batches_where (\<lambda>b. (fst b, bc_operation_id (snd b)) \<in> gone) db1)
                   \<lparr>unit_tbl := filter (\<lambda>w. (wu_project_id w, wu_operation_id w) \<notin> gone) (unit_tbl db)\<rparr>
                 else db1)))"

section \<open>Generic facts about statements\<close>

lemma sql_exec_Inr_iff: "sql_exec drv c = Inr u \<longleftrightarrow> sql_ok drv \<and> c"
  by (cases "fault drv") (auto simp: sql_exec_def)

lemma sql_exec_ok [simp]: "sql_ok drv \<Longrightarrow> c \<Longrightarrow> sql_exec drv c = Inr ()"
  by (simp add: sql_exec_def)

lemma query_ok [simp]: "sql_ok drv \<Longrightarrow> query_fails drv a = Inr a"
  by (simp add: query_fails_def)

lemma map_update_where:
  "(\<And>r. r \<in> set rows \<Longrightarrow> p r \<Longrightarrow> k (u r) = k r) \<Longrightarrow> map k (update_where p u rows) = map k rows"
  by (simp add: update_where_def)

lemma set_update_where: "set (update_where p u rows) = (\<lambda>r. if p r then u r else r) ` set rows"
  by (simp add: update_where_def)

lemma update_where_all:
  "(\<And>r. r \<in> set rows \<Longrightarrow> Q r) \<Longrightarrow> (\<And>r. Q r \<Longrightarrow> p r \<Longrightarrow> Q (u r))
     \<Longrightarrow> \<forall>r \<in> set (update_where p u rows). Q r"
  by (auto simp: set_update_where)

lemma distinct_map_filter_snoc:
  "distinct (map k rows) \<Longrightarrow> k r \<notin> set (map k rows) \<Longrightarrow> distinct (map k (rows @ [r]))"
  by simp

lemma find_by_key:
  "distinct (map k rows) \<Longrightarrow> r \<in> set rows \<Longrightarrow> find (\<lambda>x. k x = k r) rows = Some r"
  by (induction rows) auto

lemma find_key_None_iff: "find (\<lambda>x. k x = v) rows = None \<longleftrightarrow> v \<notin> set (map k rows)"
  by (induction rows) auto

lemma find_update_other:
  "(\<And>r. p r \<Longrightarrow> \<not> q r \<and> \<not> q (u r)) \<Longrightarrow> find q (update_where p u rows) = find q rows"
  by (induction rows) (auto simp: update_where_def)

lemma find_update_same:
  "(\<And>r. q (u r) = q r) \<Longrightarrow> find q (update_where q u rows) = map_option u (find q rows)"
  by (induction rows) (auto simp: update_where_def)

section \<open>The schema invariant\<close>

text \<open>
  What the schema promises of a stored database: the unique keys, the checks, and, with
  foreign keys on, that no child row lacks its parent.
\<close>

definition keys_ok :: "Db \<Rightarrow> bool" where
  "keys_ok db \<longleftrightarrow> distinct (map cp_key (checkpoint_tbl db)) \<and> distinct (map bc_key (batch_tbl db))
     \<and> distinct (map fc_key (file_tbl db)) \<and> distinct (map wu_key (unit_tbl db))"

definition fks_ok :: "Db \<Rightarrow> bool" where
  "fks_ok db \<longleftrightarrow> (enable_fk db \<longrightarrow>
     (\<forall>b \<in> set (batch_tbl db). has_checkpoint db (fst b) (bc_operation_id (snd b)))
     \<and> (\<forall>f \<in> set (file_tbl db). has_batch db (fc_parent f))
     \<and> (\<forall>w \<in> set (unit_tbl db). has_checkpoint db (wu_project_id w) (wu_operation_id w)))"

definition db_wf :: "Db \<Rightarrow> bool" where
  "db_wf db \<longleftrightarrow> keys_ok db \<and> (\<forall>r \<in> set (checkpoint_tbl db). checkpoint_checks r) \<and> fks_ok db"

text \<open>Replacing the checkpoint table by one with the same keys.\<close>

lemma db_wf_same_keys:
  assumes "db_wf db" "map cp_key t = map cp_key (checkpoint_tbl db)" "\<forall>r \<in> set t. checkpoint_checks r"
  shows "db_wf (db\<lparr>checkpoint_tbl := t\<rparr>)"
  using assms by (simp add: db_wf_def keys_ok_def fks_ok_def has_checkpoint_def has_batch_def del: set_map)

lemma db_wf_update_rows:
  assumes "db_wf db" "\<And>r. p r \<Longrightarrow> cp_key (u r) = cp_key r"
    and "\<And>r. checkpoint_checks r \<Longrightarrow> p r \<Longrightarrow> checkpoint_checks (u r)"
  shows "db_wf (db\<lparr>checkpoint_tbl := update_where p u (checkpoint_tbl db)\<rparr>)"
proof (rule db_wf_same_keys [OF assms(1)])
  show "map cp_key (update_where p u (checkpoint_tbl db)) = map cp_key (checkpoint_tbl db)"
    by (rule map_update_where) (simp add: assms(2))
  show "\<forall>r \<in> set (update_where p u (checkpoint_tbl db)). checkpoint_checks r"
    using assms(1,3) by (intro update_where_all) (auto simp: db_wf_def)
qed

lemma db_wf_files:
  assumes "db_wf db" "distinct (map fc_key t)"
    and "enable_fk db \<Longrightarrow> \<forall>f \<in> set t. has_batch db (fc_parent f)"
  shows "db_wf (db\<lparr>file_tbl := t\<rparr>)"
  using assms by (simp add: db_wf_def keys_ok_def fks_ok_def has_checkpoint_def has_batch_def del: set_map)

lemma db_wf_units:
  assumes "db_wf db" "distinct (map wu_key t)"
    and "enable_fk db \<Longrightarrow> \<forall>w \<in> set t. has_checkpoint db (wu_project_id w) (wu_operation_id w)"
  shows "db_wf (db\<lparr>unit_tbl := t\<rparr>)"
  using assms by (simp add: db_wf_def keys_ok_def fks_ok_def has_checkpoint_def has_batch_def del: set_map)

lemma db_wf_seqs [simp]:
  "db_wf (db\<lparr>checkpoint_seq := n\<rparr>) = db_wf db" "db_wf (db\<lparr>batch_seq := n\<rparr>) = db_wf db"
  "db_wf (db\<lparr>file_seq := n\<rparr>) = db_wf db" "db_wf (db\<lparr>unit_seq := n\<rparr>) = db_wf db"
  by (simp_all add: db_wf_def keys_ok_def fks_ok_def has_checkpoint_def has_batch_def)

lemma db_wf_fks:
  "db_wf db \<Longrightarrow> enable_fk db \<Longrightarrow> f \<in> set (file_tbl db) \<Longrightarrow> has_batch db (fc_parent f)"
  "db_wf db \<Longrightarrow> enable_fk db \<Longrightarrow> b \<in> set (batch_tbl db)
     \<Longrightarrow> has_checkpoint db (fst b) (bc_operation_id (snd b))"
  "db_wf db \<Longrightarrow> enable_fk db \<Longrightarrow> w \<in> set (unit_tbl db)
     \<Longrightarrow> has_checkpoint db (wu_project_id w) (wu_operation_id w)"
  by (simp_all add: db_wf_def fks_ok_def)

subsection \<open>Every statement keeps it\<close>

named_theorems repo_wf \<open>statements that keep the schema invariant\<close>

lemma wf_create_checkpoint [repo_wf]: "db_wf db \<Longrightarrow> db_wf (snd (create_checkpoint drv p cp db))"
  unfolding create_checkpoint_def Let_def
  by (auto simp: sql_exec_Inr_iff db_wf_def keys_ok_def fks_ok_def has_checkpoint_def has_batch_def
      image_iff split: sum.split)

lemma wf_update_checkpoint_status [repo_wf]:
  "db_wf db \<Longrightarrow> db_wf (snd (update_checkpoint_status drv now p oid st db))"
  by (auto simp: update_checkpoint_status_def Let_def checkpoint_checks_def
      intro!: db_wf_update_rows split: sum.split)

lemma wf_update_current_batch_index [repo_wf]:
  "db_wf db \<Longrightarrow> db_wf (snd (update_current_batch_index drv now p oid i db))"
  by (auto simp: update_current_batch_index_def checkpoint_checks_def
      intro!: db_wf_update_rows split: sum.split)

lemma update_absent:
  "\<not> has_checkpoint db p oid
     \<Longrightarrow> update_where (\<lambda>r. cp_project_id r = p \<and> cp_operation_id r = oid) u (checkpoint_tbl db)
         = checkpoint_tbl db"
  unfolding update_where_def by (intro map_idI) (auto simp: has_checkpoint_def)

lemma wf_update_checkpoint [repo_wf]: "db_wf db \<Longrightarrow> db_wf (snd (update_checkpoint drv now p cp db))"
  by (cases "has_checkpoint db p (cp_operation_id cp)")
    (auto simp: update_checkpoint_def Let_def checkpoint_checks_def sql_exec_Inr_iff update_absent
      intro!: db_wf_update_rows split: sum.split)

lemma wf_set_active_flag [repo_wf]: "db_wf db \<Longrightarrow> db_wf (snd (set_active_flag drv now p oid prio db))"
  by (cases "has_checkpoint db p oid")
    (auto simp: set_active_flag_def checkpoint_checks_def sql_exec_Inr_iff update_absent
      intro!: db_wf_update_rows split: sum.split)

lemma wf_clear_active_flag [repo_wf]: "db_wf db \<Longrightarrow> db_wf (snd (clear_active_flag drv now p oid db))"
  by (auto simp: clear_active_flag_def checkpoint_checks_def
      intro!: db_wf_update_rows split: sum.split)

lemma wf_update_heartbeat [repo_wf]: "db_wf db \<Longrightarrow> db_wf (snd (update_heartbeat drv now p oid db))"
  by (auto simp: update_heartbeat_def Let_def checkpoint_checks_def
      intro!: db_wf_update_rows split: sum.split)

lemma wf_cleanup_stale_active [repo_wf]:
  "db_wf db \<Longrightarrow> db_wf (snd (cleanup_stale_active drv now p cutoff db))"
  by (auto simp: cleanup_stale_active_def checkpoint_checks_def
      intro!: db_wf_update_rows split: sum.split)

lemma wf_insert_batch_checkpoint [repo_wf]:
  "db_wf db \<Longrightarrow> db_wf (snd (insert_batch_checkpoint drv p b db))"
  unfolding insert_batch_checkpoint_def Let_def
  by (auto simp: sql_exec_Inr_iff db_wf_def keys_ok_def fks_ok_def has_checkpoint_def has_batch_def
      image_iff split: sum.split)

lemma fc_keys_coalesce [simp]:
  "fc_operation_id (coalesce_file now f r) = fc_operation_id r"
  "fc_file_path (coalesce_file now f r) = fc_file_path r"
  "fc_batch_index (coalesce_file now f r) = fc_batch_index f"
  by (simp_all add: coalesce_file_def)

lemma wf_upsert_file_checkpoint [repo_wf]:
  assumes wf: "db_wf db"
  shows "db_wf (snd (upsert_file_checkpoint q drv now now' p f db))"
proof -
  let ?k = "(p, fc_operation_id f, fc_file_path f)"
  let ?t = "update_where (\<lambda>r. fc_key r = ?k) (\<lambda>(pid, r). (pid, coalesce_file now f r)) (file_tbl db)"
  have keys: "map fc_key ?t = map fc_key (file_tbl db)" by (rule map_update_where) auto
  have upd: "db_wf (db\<lparr>file_tbl := ?t\<rparr>)"
    if "enable_fk db \<longrightarrow> has_batch db (p, fc_operation_id f, fc_batch_index f)"
  proof (rule db_wf_files [OF wf])
    show "distinct (map fc_key ?t)" unfolding keys using wf by (simp add: db_wf_def keys_ok_def)
    show "\<forall>r \<in> set ?t. has_batch db (fc_parent r)" if "enable_fk db"
      using that \<open>enable_fk db \<longrightarrow> _\<close> db_wf_fks(1) [OF wf] by (auto simp: set_update_where split: if_splits)
  qed
  have ins: "db_wf (db\<lparr>file_tbl := file_tbl db @ [(p, f\<lparr>fc_id := i, fc_created_at := c, fc_updated_at := v\<rparr>)]\<rparr>)"
    if "enable_fk db \<longrightarrow> has_batch db (p, fc_operation_id f, fc_batch_index f)"
      and "\<forall>r \<in> set (file_tbl db). fc_key r \<noteq> ?k" for i c v
    using wf that by (intro db_wf_files) (auto simp: db_wf_def keys_ok_def fks_ok_def)
  show ?thesis
    using wf upd ins
    by (auto simp: upsert_file_checkpoint_def Let_def sql_exec_Inr_iff query_fails_def
        split: sum.split bool.split option.split)
qed

lemma wf_insert_work_unit [repo_wf]: "db_wf db \<Longrightarrow> db_wf (snd (insert_work_unit drv w db))"
  unfolding insert_work_unit_def Let_def
  by (auto simp: sql_exec_Inr_iff db_wf_def keys_ok_def fks_ok_def has_checkpoint_def has_batch_def
      image_iff split: sum.split)

lemma wf_update_work_unit_status [repo_wf]:
  assumes wf: "db_wf db"
  shows "db_wf (snd (update_work_unit_status drv now p oid stage h st db))"
proof -
  let ?t = "update_where (\<lambda>w. wu_key w = (p, oid, stage, h))
              (\<lambda>w. w\<lparr>wu_status := st, wu_updated_at := now\<rparr>) (unit_tbl db)"
  have "map wu_key ?t = map wu_key (unit_tbl db)" by (rule map_update_where) auto
  moreover have "\<forall>w \<in> set ?t. has_checkpoint db (wu_project_id w) (wu_operation_id w)" if "enable_fk db"
    using that db_wf_fks(3) [OF wf] by (auto simp: set_update_where split: if_splits)
  ultimately have "db_wf (db\<lparr>unit_tbl := ?t\<rparr>)"
    using wf by (intro db_wf_units) (auto simp: db_wf_def keys_ok_def)
  with wf show ?thesis by (auto simp: update_work_unit_status_def split: sum.split)
qed

lemma wf_delete_files [repo_wf]:
  "db_wf db \<Longrightarrow> db_wf (snd (delete_checkpoint_files_by_operation_id drv p oid db))"
  by (auto simp: delete_checkpoint_files_by_operation_id_def Let_def db_wf_def keys_ok_def fks_ok_def
      has_batch_def has_checkpoint_def intro!: distinct_map_filter split: sum.split)

lemma wf_delete_units [repo_wf]:
  "db_wf db \<Longrightarrow> db_wf (snd (delete_work_units_by_operation_id drv p oid db))"
  by (auto simp: delete_work_units_by_operation_id_def Let_def db_wf_def keys_ok_def fks_ok_def
      has_batch_def has_checkpoint_def intro!: distinct_map_filter split: sum.split)

lemma has_batch_delete:
  "has_batch db k \<Longrightarrow> k \<notin> set (map bc_key (filter hit (batch_tbl db)))
     \<Longrightarrow> has_batch (delete_batches_where hit db) k"
  by (force simp: has_batch_def delete_batches_where_def)

lemma keys_ok_delete_batches: "keys_ok db \<Longrightarrow> keys_ok (delete_batches_where hit db)"
  by (simp add: keys_ok_def delete_batches_where_def distinct_map_filter)

lemma delete_batches_where_simps [simp]:
  "checkpoint_tbl (delete_batches_where hit db) = checkpoint_tbl db"
  "unit_tbl (delete_batches_where hit db) = unit_tbl db"
  "enable_fk (delete_batches_where hit db) = enable_fk db"
  "has_checkpoint (delete_batches_where hit db) = has_checkpoint db"
  by (simp_all add: delete_batches_where_def has_checkpoint_def fun_eq_iff)

lemma batches_after_delete [simp]:
  "b \<in> set (batch_tbl (delete_batches_where hit db)) \<longleftrightarrow> b \<in> set (batch_tbl db) \<and> \<not> hit b"
  by (simp add: delete_batches_where_def)

lemma files_after_delete_batches:
  assumes "\<forall>f \<in> set (file_tbl db). has_batch db (fc_parent f)" "enable_fk db"
    and "f \<in> set (file_tbl (delete_batches_where hit db))"
  shows "has_batch (delete_batches_where hit db) (fc_parent f)"
  using assms by (intro has_batch_delete) (auto simp: delete_batches_where_def)

lemma wf_delete_batches_where: "db_wf db \<Longrightarrow> db_wf (delete_batches_where hit db)"
  unfolding db_wf_def fks_ok_def
  using files_after_delete_batches [of db _ hit] keys_ok_delete_batches [of db hit]
  by auto

lemma wf_delete_batches [repo_wf]:
  "db_wf db \<Longrightarrow> db_wf (snd (delete_checkpoint_batches_by_operation_id drv p oid db))"
  by (auto simp: delete_checkpoint_batches_by_operation_id_def Let_def
      intro: wf_delete_batches_where split: sum.split)

lemma wf_clear_module_progress [repo_wf]:
  assumes wf: "db_wf db"
  shows "db_wf (snd (clear_module_progress drv now p oid db))"
proof -
  let ?t = "update_where (\<lambda>r. fst r = p \<and> fc_operation_id (snd r) = oid \<and> fc_module_progress (snd r) \<noteq> None)
              (\<lambda>(pid, r). (pid, r\<lparr>fc_module_progress := None, fc_updated_at := now\<rparr>)) (file_tbl db)"
  have "map fc_key ?t = map fc_key (file_tbl db)" by (rule map_update_where) auto
  moreover have "\<forall>f \<in> set ?t. has_batch db (fc_parent f)" if "enable_fk db"
    using that db_wf_fks(1) [OF wf] by (auto simp: set_update_where split: if_splits)
  ultimately have "db_wf (db\<lparr>file_tbl := ?t\<rparr>)"
    using wf by (intro db_wf_files) (auto simp: db_wf_def keys_ok_def)
  with wf show ?thesis by (auto simp: clear_module_progress_def Let_def split: sum.split)
qed

lemma wf_delete_expired [repo_wf]:
  assumes wf: "db_wf db"
  shows "db_wf (snd (delete_expired_checkpoints drv p cutoff db))"
proof -
  let ?hit = "expired p cutoff"
  let ?gone = "set (map cp_key (filter ?hit (checkpoint_tbl db)))"
  let ?bhit = "\<lambda>b. (fst b, bc_operation_id (snd b)) \<in> ?gone"
  let ?db1 = "db\<lparr>checkpoint_tbl := filter (\<lambda>r. \<not> ?hit r) (checkpoint_tbl db)\<rparr>"
  let ?db2 = "(delete_batches_where ?bhit ?db1)
                \<lparr>unit_tbl := filter (\<lambda>w. (wu_project_id w, wu_operation_id w) \<notin> ?gone) (unit_tbl db)\<rparr>"
  have kept: "has_checkpoint ?db1 i oid" if "has_checkpoint db i oid" "(i, oid) \<notin> ?gone" for i oid
    using that by (force simp: has_checkpoint_def)
  have keys: "keys_ok ?db1"
    using wf by (simp add: db_wf_def keys_ok_def distinct_map_filter)
  have checks: "\<forall>r \<in> set (checkpoint_tbl ?db1). checkpoint_checks r"
    using wf by (simp add: db_wf_def)
  have "db_wf ?db1" if "\<not> enable_fk db"
    using that keys checks by (simp add: db_wf_def fks_ok_def)
  moreover have "db_wf ?db2" if fk: "enable_fk db"
  proof -
    have "keys_ok ?db2"
      using keys_ok_delete_batches [OF keys, of ?bhit] wf
      by (simp add: db_wf_def keys_ok_def distinct_map_filter)
    moreover have "has_batch ?db2 (fc_parent f)" if "f \<in> set (file_tbl ?db2)" for f
      using files_after_delete_batches [of ?db1 f ?bhit] db_wf_fks(1) [OF wf fk] that fk
      by (simp add: has_batch_def)
    moreover have "has_checkpoint ?db2 (fst b) (bc_operation_id (snd b))"
      if "b \<in> set (batch_tbl ?db2)" for b
      using kept [of "fst b" "bc_operation_id (snd b)"] db_wf_fks(2) [OF wf fk, of b] that
      by (simp add: has_checkpoint_def del: set_map)
    moreover have "has_checkpoint ?db2 (wu_project_id w) (wu_operation_id w)"
      if "w \<in> set (unit_tbl ?db2)" for w
      using kept [of "wu_project_id w" "wu_operation_id w"] db_wf_fks(3) [OF wf fk, of w] that
      by (simp add: has_checkpoint_def del: set_map)
    ultimately show ?thesis using checks unfolding db_wf_def fks_ok_def by simp
  qed
  ultimately show ?thesis
    using wf by (simp add: delete_expired_checkpoints_def Let_def del: set_map split: sum.split)
qed

text \<open>The writes of the repository, as one machine.\<close>

datatype repo_event =
    ECreate sql_drv int CheckpointRecord
  | EStatus sql_drv string int string CheckpointStatus
  | EBatchIndex sql_drv string int string u32
  | EUpdate sql_drv string int CheckpointRecord
  | ESetActive sql_drv string int string int
  | EClearActive sql_drv string int string
  | EHeartbeat sql_drv string int string
  | ECleanup sql_drv string int string
  | EInsertBatch sql_drv int BatchCheckpointRecord
  | EUpsertFile sql_drv sql_drv string string int FileCheckpointRecord
  | EInsertUnit sql_drv WorkUnitCheckpointRecord
  | EUnitStatus sql_drv string int string string string WorkUnitStatus
  | EDeleteFiles sql_drv int string
  | EDeleteBatches sql_drv int string
  | EDeleteUnits sql_drv int string
  | EClearProgress sql_drv string int string
  | EExpire sql_drv int string

fun repo_step :: "Db \<Rightarrow> repo_event \<Rightarrow> Db" where
  "repo_step db (ECreate d p cp) = snd (create_checkpoint d p cp db)"
| "repo_step db (EStatus d now p oid st) = snd (update_checkpoint_status d now p oid st db)"
| "repo_step db (EBatchIndex d now p oid i) = snd (update_current_batch_index d now p oid i db)"
| "repo_step db (EUpdate d now p cp) = snd (update_checkpoint d now p cp db)"
| "repo_step db (ESetActive d now p oid prio) = snd (set_active_flag d now p oid prio db)"
| "repo_step db (EClearActive d now p oid) = snd (clear_active_flag d now p oid db)"
| "repo_step db (EHeartbeat d now p oid) = snd (update_heartbeat d now p oid db)"
| "repo_step db (ECleanup d now p cutoff) = snd (cleanup_stale_active d now p cutoff db)"
| "repo_step db (EInsertBatch d p b) = snd (insert_batch_checkpoint d p b db)"
| "repo_step db (EUpsertFile q d now now' p f) = snd (upsert_file_checkpoint q d now now' p f db)"
| "repo_step db (EInsertUnit d w) = snd (insert_work_unit d w db)"
| "repo_step db (EUnitStatus d now p oid stage h st) =
     snd (update_work_unit_status d now p oid stage h st db)"
| "repo_step db (EDeleteFiles d p oid) = snd (delete_checkpoint_files_by_operation_id d p oid db)"
| "repo_step db (EDeleteBatches d p oid) = snd (delete_checkpoint_batches_by_operation_id d p oid db)"
| "repo_step db (EDeleteUnits d p oid) = snd (delete_work_units_by_operation_id d p oid db)"
| "repo_step db (EClearProgress d now p oid) = snd (clear_module_progress d now p oid db)"
| "repo_step db (EExpire d p cutoff) = snd (delete_expired_checkpoints d p cutoff db)"

interpretation repo: invariant_machine repo_step db_wf
proof
  fix db e
  assume "db_wf db"
  then show "db_wf (repo_step db e)" by (cases e) (simp_all only: repo_step.simps repo_wf)
qed

definition empty_db :: "bool \<Rightarrow> Db" where
  "empty_db fk = \<lparr>enable_fk = fk, checkpoint_tbl = [], checkpoint_seq = 0, batch_tbl = [],
                  batch_seq = 0, file_tbl = [], file_seq = 0, unit_tbl = [], unit_seq = 0\<rparr>"

lemma db_wf_empty [simp]: "db_wf (empty_db fk)"
  by (simp add: empty_db_def db_wf_def keys_ok_def fks_ok_def)

lemma repo_step_enable_fk: "enable_fk (repo_step db e) = enable_fk db"
  by (cases e) (auto simp: create_checkpoint_def update_checkpoint_status_def Let_def
      update_current_batch_index_def update_checkpoint_def set_active_flag_def clear_active_flag_def
      update_heartbeat_def cleanup_stale_active_def insert_batch_checkpoint_def
      upsert_file_checkpoint_def insert_work_unit_def update_work_unit_status_def
      delete_checkpoint_files_by_operation_id_def delete_checkpoint_batches_by_operation_id_def
      delete_work_units_by_operation_id_def clear_module_progress_def
      delete_expired_checkpoints_def split: sum.split bool.split)

lemma run_enable_fk: "enable_fk (foldl repo_step db es) = enable_fk db"
  by (induction es arbitrary: db) (simp_all add: repo_step_enable_fk)

section \<open>Properties\<close>


lemma query_Inr [simp]: "query_fails drv a = Inr b \<longleftrightarrow> sql_ok drv \<and> b = a"
  by (cases "fault drv") (auto simp: query_fails_def)

lemma find_SomeD: "find q rows = Some r \<Longrightarrow> r \<in> set rows \<and> q r"
  by (induction rows) (auto split: if_splits)

lemma upsert_existing:
  assumes "sql_ok q" "sql_ok drv" "enable_fk db \<longrightarrow> has_batch db (p, fc_operation_id f, fc_batch_index f)"
    and fnd: "find (\<lambda>r. fc_key r = (p, fc_operation_id f, fc_file_path f)) (file_tbl db) = Some (pid, r)"
    and db': "db' = snd (upsert_file_checkpoint q drv now now' p f db)"
  shows "find (\<lambda>r. fc_key r = (p, fc_operation_id f, fc_file_path f)) (file_tbl db') = Some (pid, coalesce_file now f r)"
    and "k \<noteq> (p, fc_operation_id f, fc_file_path f) \<Longrightarrow>
      find (\<lambda>r. fc_key r = k) (file_tbl db') = find (\<lambda>r. fc_key r = k) (file_tbl db)"
proof -
  let ?k = "(p, fc_operation_id f, fc_file_path f)" and ?up = "\<lambda>(pid, r). (pid, coalesce_file now f r)"
  from find_SomeD [OF fnd] have "\<exists>r \<in> set (file_tbl db). fc_key r = ?k" by blast
  then have step: "file_tbl db' = update_where (\<lambda>r. fc_key r = ?k) ?up (file_tbl db)"
    using assms(1-3) by (simp add: db' upsert_file_checkpoint_def Let_def)
  show "find (\<lambda>r. fc_key r = ?k) (file_tbl db') = Some (pid, coalesce_file now f r)"
    unfolding step using fnd by (subst find_update_same) auto
  show "find (\<lambda>r. fc_key r = k) (file_tbl db') = find (\<lambda>r. fc_key r = k) (file_tbl db)" if "k \<noteq> ?k"
    unfolding step using that by (intro find_update_other) auto
qed

text \<open>
  A file checkpoint can be written piecewise. When a row exists, a successful
  \<^verbatim>\<open>upsert_file_checkpoint\<close> keeps every stored optional column that the caller leaves
  \<^verbatim>\<open>None\<close> and takes every column the caller sets, so a writer of \<^verbatim>\<open>module_progress\<close> never
  clears \<^verbatim>\<open>render_fingerprint\<close> and conversely; the row's identity and creation time stay, and
  no other file's row changes.
\<close>

theorem upsert_keeps_columns:
  assumes "sql_ok q" "sql_ok drv" "sql_ok g"
    and fk: "enable_fk db \<longrightarrow> has_batch db (p, fc_operation_id f, fc_batch_index f)"
    and old: "get_file_checkpoint g p (fc_operation_id f) (fc_file_path f) db = Inr (Some r)"
  shows "\<exists>r'. get_file_checkpoint g p (fc_operation_id f) (fc_file_path f)
               (snd (upsert_file_checkpoint q drv now now' p f db)) = Inr (Some r')
     \<and> fc_module_progress r' = (if fc_module_progress f = None then fc_module_progress r else fc_module_progress f)
     \<and> fc_render_fingerprint r' =
         (if fc_render_fingerprint f = None then fc_render_fingerprint r else fc_render_fingerprint f)
     \<and> fc_content_hash r' = (if fc_content_hash f = None then fc_content_hash r else fc_content_hash f)
     \<and> fc_parsed_data r' = (if fc_parsed_data f = None then fc_parsed_data r else fc_parsed_data f)
     \<and> fc_parse_error r' = (if fc_parse_error f = None then fc_parse_error r else fc_parse_error f)
     \<and> fc_summary_data r' = (if fc_summary_data f = None then fc_summary_data r else fc_summary_data f)
     \<and> fc_bm25_doc_id r' = (if fc_bm25_doc_id f = None then fc_bm25_doc_id r else fc_bm25_doc_id f)
     \<and> fc_export_path r' = (if fc_export_path f = None then fc_export_path r else fc_export_path f)
     \<and> (fc_id r', fc_file_id r', fc_created_at r') = (fc_id r, fc_file_id r, fc_created_at r)
     \<and> (\<forall>p2 oid path. (p2, oid, path) \<noteq> (p, fc_operation_id f, fc_file_path f) \<longrightarrow>
          get_file_checkpoint g p2 oid path (snd (upsert_file_checkpoint q drv now now' p f db))
            = get_file_checkpoint g p2 oid path db)"
proof -
  let ?k = "(p, fc_operation_id f, fc_file_path f)"
  obtain pid where "find (\<lambda>r. fc_key r = ?k) (file_tbl db) = Some (pid, r)"
    using old by (cases "find (\<lambda>r. fc_key r = ?k) (file_tbl db)") (auto simp: get_file_checkpoint_def)
  note up = upsert_existing [OF assms(1,2) fk this refl [of "snd (upsert_file_checkpoint q drv now now' p f db)"]]
  show ?thesis
  proof (intro exI [of _ "coalesce_file now f r"] conjI)
    show "get_file_checkpoint g p (fc_operation_id f) (fc_file_path f)
        (snd (upsert_file_checkpoint q drv now now' p f db)) = Inr (Some (coalesce_file now f r))"
      using up(1) assms(3) by (simp add: get_file_checkpoint_def)
    show "\<forall>p2 oid path. (p2, oid, path) \<noteq> ?k \<longrightarrow>
        get_file_checkpoint g p2 oid path (snd (upsert_file_checkpoint q drv now now' p f db))
          = get_file_checkpoint g p2 oid path db"
      unfolding get_file_checkpoint_def by (intro allI impI, subst up(2)) auto
  qed (auto simp: coalesce_file_def)
qed

definition drv_ok :: sql_drv where "drv_ok = \<lparr>fault = None, constraint_text = []\<rparr>"

definition sample_file :: FileCheckpointRecord where
  "sample_file = \<lparr>fc_id = None, fc_operation_id = ''op'', fc_batch_index = 0, fc_file_path = ''a.rs'',
     fc_file_id = None, fc_language = None, fc_file_size = None, fc_content_hash = Some ''h1'',
     fc_parsed_data = None, fc_parse_error = None, fc_summary_data = None, fc_embedding_count = 0,
     fc_bm25_doc_id = None, fc_export_path = None, fc_render_fingerprint = Some ''fp'',
     fc_module_progress = None, fc_created_at = [], fc_updated_at = []\<rparr>"

theorem upsert_keeps_columns_witness:
  "\<exists>r'. get_file_checkpoint drv_ok 7 ''op'' ''a.rs'' (snd (upsert_file_checkpoint drv_ok drv_ok ''t1'' ''t1'' 7
          (sample_file\<lparr>fc_render_fingerprint := None, fc_module_progress := Some ''bm25''\<rparr>)
          ((empty_db False)\<lparr>file_tbl := [(7, sample_file)]\<rparr>))) = Inr (Some r')
     \<and> fc_module_progress r' = Some ''bm25'' \<and> fc_render_fingerprint r' = Some ''fp''"
  using upsert_keeps_columns [of drv_ok drv_ok drv_ok "(empty_db False)\<lparr>file_tbl := [(7, sample_file)]\<rparr>" 7
      "sample_file\<lparr>fc_render_fingerprint := None, fc_module_progress := Some ''bm25''\<rparr>" sample_file "''t1''" "''t1''"]
  by (auto simp: drv_ok_def sample_file_def empty_db_def get_file_checkpoint_def query_fails_def)

text \<open>The operations of a project whose active flag is set, in scan order.\<close>

definition active_ops :: "int \<Rightarrow> Db \<Rightarrow> string list" where
  "active_ops p db = map cp_operation_id (filter (\<lambda>r. cp_project_id r = p \<and> cp_active_flag r) (checkpoint_tbl db))"

lemma map_filter_update_where:
  "(\<And>r. p r \<Longrightarrow> k (u r) = k r)
     \<Longrightarrow> map k (filter q (update_where p u rows)) = map k (filter (\<lambda>r. if p r then q (u r) else q r) rows)"
  by (induction rows) (auto simp: update_where_def)

lemma active_after_cleanup:
  "active_ops i (db\<lparr>checkpoint_tbl := update_where (stale_active p cutoff)
       (\<lambda>r. r\<lparr>cp_active_flag := False, cp_updated_at := now\<rparr>) (checkpoint_tbl db)\<rparr>)
   = map cp_operation_id (filter (\<lambda>r. cp_project_id r = i \<and> cp_active_flag r \<and> \<not> stale_active p cutoff r)
       (checkpoint_tbl db))"
  unfolding active_ops_def by (simp add: map_filter_update_where if_bool_eq_conj conj_ac cong: conj_cong)

lemma stale_count:
  "rows_affected (stale_active p cutoff) rows
   = length (filter (\<lambda>r. cp_project_id r = p \<and> cp_active_flag r) rows)
     - length (filter (\<lambda>r. cp_project_id r = p \<and> cp_active_flag r \<and> \<not> stale_active p cutoff r) rows)"
proof (induction rows)
  case (Cons r rows)
  have "length (filter (\<lambda>r. cp_project_id r = p \<and> cp_active_flag r \<and> \<not> stale_active p cutoff r) rows)
      \<le> length (filter (\<lambda>r. cp_project_id r = p \<and> cp_active_flag r) rows)"
    by (induction rows) auto
  moreover have "stale_active p cutoff r \<Longrightarrow> cp_project_id r = p \<and> cp_active_flag r"
    by (simp add: stale_active_def)
  ultimately show ?case using Cons by (auto simp: rows_affected_def)
qed (simp add: rows_affected_def)

lemma not_stale_iff:
  "cp_project_id r = p \<Longrightarrow> cp_active_flag r
     \<Longrightarrow> \<not> stale_active p cutoff r \<longleftrightarrow> (\<exists>h. cp_last_heartbeat r = Some h \<and> cutoff \<le> h)"
  by (auto simp: stale_active_def not_less split: option.splits)

text \<open>
  Stale detection is exact. \<^verbatim>\<open>cleanup_stale_active\<close> leaves active precisely the operations
  of the project whose last heartbeat is not before the cutoff (an operation that never sent
  one is stale), reports how many it cleared, and does not touch another project.
\<close>

theorem stale_cleanup_exact:
  assumes "sql_ok drv"
  shows "case cleanup_stale_active drv now p cutoff db of (res, db') \<Rightarrow>
     active_ops p db' = map cp_operation_id (filter (\<lambda>r. cp_project_id r = p \<and> cp_active_flag r
        \<and> (\<exists>h. cp_last_heartbeat r = Some h \<and> cutoff \<le> h)) (checkpoint_tbl db))
     \<and> res = Inr (length (active_ops p db) - length (active_ops p db'))
     \<and> (\<forall>p'. p' \<noteq> p \<longrightarrow> active_ops p' db' = active_ops p' db)"
proof -
  let ?db' = "db\<lparr>checkpoint_tbl := update_where (stale_active p cutoff)
      (\<lambda>r. r\<lparr>cp_active_flag := False, cp_updated_at := now\<rparr>) (checkpoint_tbl db)\<rparr>"
  have "cleanup_stale_active drv now p cutoff db
      = (Inr (rows_affected (stale_active p cutoff) (checkpoint_tbl db)), ?db')"
    using assms by (simp add: cleanup_stale_active_def)
  moreover have "active_ops p' ?db' = active_ops p' db" if "p' \<noteq> p" for p'
    unfolding active_after_cleanup unfolding active_ops_def using that
    by (intro arg_cong [of _ _ "map cp_operation_id"] filter_cong) (auto simp: stale_active_def)
  moreover have "active_ops p ?db' = map cp_operation_id (filter (\<lambda>r. cp_project_id r = p \<and> cp_active_flag r
      \<and> (\<exists>h. cp_last_heartbeat r = Some h \<and> cutoff \<le> h)) (checkpoint_tbl db))"
    unfolding active_after_cleanup using not_stale_iff
    by (intro arg_cong [of _ _ "map cp_operation_id"] filter_cong) auto
  moreover have "rows_affected (stale_active p cutoff) (checkpoint_tbl db)
      = length (active_ops p db) - length (active_ops p ?db')"
    unfolding active_after_cleanup stale_count by (simp add: active_ops_def)
  ultimately show ?thesis by simp
qed

definition sample_checkpoint :: CheckpointRecord where
  "sample_checkpoint = \<lparr>cp_id = Some 1, cp_project_id = 7, cp_operation_id = ''op'',
     cp_operation_type = ''full_index'', cp_root_dir = ''/r'', cp_total_files = 1, cp_batch_size = 1,
     cp_current_batch_index = 0, cp_current_phase = ''Scanning'', cp_file_list_hash = None,
     cp_created_at = ''t0'', cp_updated_at = ''t0'', cp_last_error = None, cp_failure_count = 0,
     cp_status = InProgress, cp_active_flag = True, cp_priority = 3, cp_last_heartbeat = Some ''t2'',
     cp_failed_at = None\<rparr>"

theorem stale_cleanup_exact_witness:
  "active_ops 7 (snd (cleanup_stale_active drv_ok ''t9'' 7 ''t3''
     ((empty_db True)\<lparr>checkpoint_tbl := [sample_checkpoint,
        sample_checkpoint\<lparr>cp_operation_id := ''live'', cp_last_heartbeat := Some ''t4''\<rparr>]\<rparr>))) = [''live'']"
  using stale_cleanup_exact [where drv = drv_ok and now = "''t9''" and p = 7 and cutoff = "''t3''"
      and db = "(empty_db True)\<lparr>checkpoint_tbl := [sample_checkpoint,
        sample_checkpoint\<lparr>cp_operation_id := ''live'', cp_last_heartbeat := Some ''t4''\<rparr>]\<rparr>"]
  by (simp add: drv_ok_def sample_checkpoint_def split: prod.splits)

lemma file_of_deleted_batch:
  assumes "db_wf db" "enable_fk db" "f \<in> set (file_tbl db)"
  shows "fc_parent f \<in> set (map bc_key (filter (\<lambda>b. (fst b, bc_operation_id (snd b)) \<in> gone) (batch_tbl db)))
     \<longleftrightarrow> (fst f, fc_operation_id (snd f)) \<in> gone"
    and "has_checkpoint db (fst f) (fc_operation_id (snd f))"
proof -
  obtain b where b: "b \<in> set (batch_tbl db)" "bc_key b = fc_parent f"
    using db_wf_fks(1) [OF assms] by (auto simp: has_batch_def)
  then show "fc_parent f \<in> set (map bc_key (filter (\<lambda>b. (fst b, bc_operation_id (snd b)) \<in> gone) (batch_tbl db)))
     \<longleftrightarrow> (fst f, fc_operation_id (snd f)) \<in> gone"
    by (force simp del: set_map simp: set_map [of bc_key])
  show "has_checkpoint db (fst f) (fc_operation_id (snd f))"
    using db_wf_fks(2) [OF assms(1,2) b(1)] b(2) by simp
qed

text \<open>
  Expiry is safe. \<^verbatim>\<open>delete_expired_checkpoints\<close> deletes exactly the finished, inactive
  checkpoints of the project whose last update is before the cutoff; with foreign keys on, the
  batches, files and work units that remain are exactly those of the operations that remain,
  so nothing of a live operation is lost and nothing of a deleted one is left behind.
\<close>

theorem expiry_is_exact:
  assumes "sql_ok drv" "db_wf db" "enable_fk db"
  shows "case delete_expired_checkpoints drv p cutoff db of (res, db') \<Rightarrow>
     checkpoint_tbl db' = filter (\<lambda>r. cp_project_id r \<noteq> p \<or> cp_status r = InProgress \<or> cp_active_flag r
                                       \<or> cutoff \<le> cp_updated_at r) (checkpoint_tbl db)
     \<and> res = Inr (length (checkpoint_tbl db) - length (checkpoint_tbl db'))
     \<and> set (batch_tbl db') = {b \<in> set (batch_tbl db). has_checkpoint db' (fst b) (bc_operation_id (snd b))}
     \<and> set (file_tbl db') = {f \<in> set (file_tbl db). has_checkpoint db' (fst f) (fc_operation_id (snd f))}
     \<and> set (unit_tbl db') = {w \<in> set (unit_tbl db). has_checkpoint db' (wu_project_id w) (wu_operation_id w)}"
proof -
  let ?hit = "expired p cutoff"
  let ?gone = "set (map cp_key (filter ?hit (checkpoint_tbl db)))"
  let ?bhit = "\<lambda>b. (fst b, bc_operation_id (snd b)) \<in> ?gone"
  obtain res db' where run: "delete_expired_checkpoints drv p cutoff db = (res, db')" by force
  then have eqs: "res = Inr (rows_affected ?hit (checkpoint_tbl db))"
    "checkpoint_tbl db' = filter (\<lambda>r. \<not> ?hit r) (checkpoint_tbl db)"
    "batch_tbl db' = filter (\<lambda>b. \<not> ?bhit b) (batch_tbl db)"
    "file_tbl db' = filter (\<lambda>f. fc_parent f \<notin> set (map bc_key (filter ?bhit (batch_tbl db)))) (file_tbl db)"
    "unit_tbl db' = filter (\<lambda>w. (wu_project_id w, wu_operation_id w) \<notin> ?gone) (unit_tbl db)"
    using assms by (auto simp: delete_expired_checkpoints_def delete_batches_where_def Let_def)
  have dist: "distinct (map cp_key (checkpoint_tbl db))" using assms by (simp add: db_wf_def keys_ok_def)
  have left: "has_checkpoint db' i oid \<longleftrightarrow> (i, oid) \<notin> ?gone" if "has_checkpoint db i oid" for i oid
    using that dist by (auto simp: has_checkpoint_def eqs(2) distinct_map inj_on_def image_iff)
  have "\<not> ?hit r \<longleftrightarrow> cp_project_id r \<noteq> p \<or> cp_status r = InProgress \<or> cp_active_flag r
      \<or> cutoff \<le> cp_updated_at r" for r
    by (cases "cp_status r") (auto simp: expired_def)
  then have "checkpoint_tbl db' = filter (\<lambda>r. cp_project_id r \<noteq> p \<or> cp_status r = InProgress
      \<or> cp_active_flag r \<or> cutoff \<le> cp_updated_at r) (checkpoint_tbl db)"
    by (simp add: eqs(2))
  moreover have "res = Inr (length (checkpoint_tbl db) - length (checkpoint_tbl db'))"
    using sum_length_filter_compl [of ?hit "checkpoint_tbl db"] by (simp add: eqs(1,2) rows_affected_def)
  moreover have "set (batch_tbl db') = {b \<in> set (batch_tbl db). has_checkpoint db' (fst b) (bc_operation_id (snd b))}"
    using left db_wf_fks(2) [OF assms(2,3)] by (auto simp: eqs(3) simp del: set_map)
  moreover have "set (unit_tbl db') = {w \<in> set (unit_tbl db). has_checkpoint db' (wu_project_id w) (wu_operation_id w)}"
    using left db_wf_fks(3) [OF assms(2,3)] by (auto simp: eqs(5) simp del: set_map)
  moreover have "set (file_tbl db') = {f \<in> set (file_tbl db). has_checkpoint db' (fst f) (fc_operation_id (snd f))}"
    using left file_of_deleted_batch [OF assms(2,3)] by (auto simp: eqs(4) simp del: set_map)
  ultimately show ?thesis unfolding run by simp
qed

theorem expiry_is_exact_witness:
  "checkpoint_tbl (snd (delete_expired_checkpoints drv_ok 7 ''t3''
     ((empty_db True)\<lparr>checkpoint_tbl := [sample_checkpoint,
        sample_checkpoint\<lparr>cp_operation_id := ''old'', cp_status := Completed, cp_active_flag := False\<rparr>]\<rparr>)))
   = [sample_checkpoint]"
  using expiry_is_exact [where drv = drv_ok and p = 7 and cutoff = "''t3''"
      and db = "(empty_db True)\<lparr>checkpoint_tbl := [sample_checkpoint,
        sample_checkpoint\<lparr>cp_operation_id := ''old'', cp_status := Completed, cp_active_flag := False\<rparr>]\<rparr>"]
  by (simp add: drv_ok_def sample_checkpoint_def empty_db_def db_wf_def keys_ok_def fks_ok_def
      checkpoint_checks_def split: prod.splits)

lemma validate_checkpoint_ok_iff:
  "validate_checkpoint parse cp = Inr () \<longleftrightarrow>
     cp_operation_id cp \<noteq> [] \<and> cp_operation_type cp \<in> {''full_index'', ''hot_update'', ''incremental''}
     \<and> cp_current_phase cp \<noteq> [] \<and> parse (cp_created_at cp) = None \<and> parse (cp_updated_at cp) = None"
  by (auto simp: validate_checkpoint_def split: option.splits)

end
