(* ===== verification/Operation_Queue.thy ===== *)
theory Operation_Queue
  imports Checkpoint_Repo
begin

text \<open>
  The operation queue (\<^verbatim>\<open>cce-orchestrator/src/operation/queue.rs\<close>): a bounded priority queue of
  pending operations and one active slot, mirrored in the \<^verbatim>\<open>active_flag\<close> column of the
  checkpoint table. The clock is passed as RFC 3339 texts, and the faults of SQLite as
  arguments; connections cannot fail (\<^verbatim>\<open>SqliteClient::read_connection\<close> and
  \<^verbatim>\<open>write_connection\<close> always return \<^verbatim>\<open>Ok\<close>).
\<close>

section \<open>Kinds and priorities\<close>

datatype OperationKind = FullIndex | HotUpdate | Incremental | ConfigChange

fun kind_as_str :: "OperationKind \<Rightarrow> string" where
  "kind_as_str FullIndex = ''full_index''"
| "kind_as_str HotUpdate = ''hot_update''"
| "kind_as_str Incremental = ''incremental''"
| "kind_as_str ConfigChange = ''config_change''"

definition kind_from_str :: "string \<Rightarrow> string + OperationKind" where
  "kind_from_str s =
     (if s \<in> {''full_index'', ''full'', ''FullIndexing''} then Inr FullIndex
      else if s \<in> {''hot_update'', ''hot'', ''HotUpdate''} then Inr HotUpdate
      else if s \<in> {''incremental'', ''IncrementalUpdate''} then Inr Incremental
      else if s \<in> {''config_change'', ''ConfigChange''} then Inr ConfigChange
      else Inl (''Unknown operation kind: '' @ s))"

datatype OperationPriority = PrioFullIndex | PrioIncremental | PrioHotUpdate

fun as_i32 :: "OperationPriority \<Rightarrow> int" where
  "as_i32 PrioFullIndex = 3"
| "as_i32 PrioIncremental = 2"
| "as_i32 PrioHotUpdate = 1"

definition from_i32 :: "int \<Rightarrow> OperationPriority option" where
  "from_i32 v =
     (if v = 1 then Some PrioHotUpdate
      else if v = 2 then Some PrioIncremental
      else if v = 3 then Some PrioFullIndex
      else None)"

text \<open>The derived \<^verbatim>\<open>Ord\<close> compares the discriminants.\<close>

instantiation OperationPriority :: linorder
begin

definition less_eq_OperationPriority :: "OperationPriority \<Rightarrow> OperationPriority \<Rightarrow> bool" where
  "less_eq_OperationPriority x y \<longleftrightarrow> as_i32 x \<le> as_i32 y"

definition less_OperationPriority :: "OperationPriority \<Rightarrow> OperationPriority \<Rightarrow> bool" where
  "less_OperationPriority x y \<longleftrightarrow> as_i32 x < as_i32 y"

instance
proof
  fix x y :: OperationPriority
  show "x \<le> y \<Longrightarrow> y \<le> x \<Longrightarrow> x = y"
    by (cases x; cases y) (simp_all add: less_eq_OperationPriority_def)
qed (auto simp: less_eq_OperationPriority_def less_OperationPriority_def)

end

section \<open>State\<close>

record PendingOperation =
  po_project_id :: int
  po_operation_id :: string
  po_operation_type :: OperationKind
  po_priority :: OperationPriority
  po_root_dir :: string
  po_created_at :: string
  po_status :: string

record ActiveOperation =
  ao_project_id :: int
  ao_operation_id :: string
  ao_operation_type :: OperationKind
  ao_priority :: OperationPriority
  ao_started_at :: string
  ao_root_dir :: string

definition to_pending :: "ActiveOperation \<Rightarrow> PendingOperation" where
  "to_pending a = \<lparr>po_project_id = ao_project_id a, po_operation_id = ao_operation_id a,
     po_operation_type = ao_operation_type a, po_priority = ao_priority a,
     po_root_dir = ao_root_dir a, po_created_at = ao_started_at a, po_status = ''active''\<rparr>"

record OperationQueue =
  q_project_id :: int
  q_active :: "ActiveOperation option"
  q_pending :: "PendingOperation list"
  q_db :: Db

definition MAX_PENDING_OPERATIONS :: nat where
  "MAX_PENDING_OPERATIONS = 64"

text \<open>A failed assertion (a panic) is \<open>None\<close>.\<close>

definition new_for_project :: "int \<Rightarrow> Db \<Rightarrow> OperationQueue option" where
  "new_for_project pid db =
     (if 0 < pid then Some \<lparr>q_project_id = pid, q_active = None, q_pending = [], q_db = db\<rparr> else None)"

section \<open>Transactions\<close>

text \<open>
  \<^verbatim>\<open>unchecked_transaction\<close>, one statement, \<^verbatim>\<open>commit\<close>: dropping the transaction on any of the
  three errors rolls it back.
\<close>

record tx_drv =
  begin_fault :: "string option"
  stmt_drv :: sql_drv
  commit_fault :: "string option"

definition in_transaction ::
  "tx_drv \<Rightarrow> (sql_drv \<Rightarrow> Db \<Rightarrow> unit result \<times> Db) \<Rightarrow> Db \<Rightarrow> unit result \<times> Db" where
  "in_transaction tx body db =
     (case begin_fault tx of
        Some e \<Rightarrow> (Inl (Sqlite e), db)
      | None \<Rightarrow> (case body (stmt_drv tx) db of
            (Inl e, _) \<Rightarrow> (Inl e, db)
          | (Inr u, db') \<Rightarrow> (case commit_fault tx of
                Some e \<Rightarrow> (Inl (Sqlite e), db)
              | None \<Rightarrow> (Inr u, db'))))"

section \<open>Operations\<close>

definition load_persisted_active ::
  "sql_drv \<Rightarrow> OperationQueue \<Rightarrow> ActiveOperation option result \<times> OperationQueue" where
  "load_persisted_active drv q =
     (case get_active_checkpoint drv (q_project_id q) (q_db q) of
        Inl e \<Rightarrow> (Inl e, q)
      | Inr None \<Rightarrow> (Inr None, q)
      | Inr (Some r) \<Rightarrow> (case kind_from_str (cp_operation_type r) of
            Inl e \<Rightarrow> (Inl (Validation (''Invalid operation_type: '' @ e)), q)
          | Inr k \<Rightarrow> (case from_i32 (cp_priority r) of
                None \<Rightarrow> (Inl (Validation ''Invalid priority value''), q)
              | Some prio \<Rightarrow>
                  (let a = \<lparr>ao_project_id = cp_project_id r, ao_operation_id = cp_operation_id r,
                            ao_operation_type = k, ao_priority = prio,
                            ao_started_at = cp_created_at r, ao_root_dir = cp_root_dir r\<rparr>
                   in (Inr (Some a), q\<lparr>q_active := Some a\<rparr>)))))"

text \<open>The insertion loop: before the first entry of a lower priority, else at the back.\<close>

fun insert_by_priority :: "PendingOperation \<Rightarrow> PendingOperation list \<Rightarrow> PendingOperation list" where
  "insert_by_priority new [] = [new]"
| "insert_by_priority new (x # xs) =
     (if po_priority new > po_priority x then new # x # xs else x # insert_by_priority new xs)"

fun position :: "('a \<Rightarrow> bool) \<Rightarrow> 'a list \<Rightarrow> nat option" where
  "position p [] = None"
| "position p (x # xs) = (if p x then Some 0 else map_option Suc (position p xs))"

definition drop_lowest :: "PendingOperation list \<Rightarrow> PendingOperation list" where
  "drop_lowest xs =
     (if length xs > MAX_PENDING_OPERATIONS
      then (let lowest = po_priority (last xs)
            in case position (\<lambda>x. po_priority x = lowest) xs of
                 None \<Rightarrow> xs
               | Some i \<Rightarrow> remove_at i xs)
      else xs)"

definition enqueue ::
  "string \<Rightarrow> string \<Rightarrow> OperationKind \<Rightarrow> string \<Rightarrow> OperationPriority \<Rightarrow> OperationQueue
     \<Rightarrow> unit result \<times> OperationQueue" where
  "enqueue now oid kind root prio q =
     (let new = \<lparr>po_project_id = q_project_id q, po_operation_id = oid, po_operation_type = kind,
                 po_priority = prio, po_root_dir = root, po_created_at = now, po_status = ''pending''\<rparr>;
          kept = filter (\<lambda>x. \<not> (po_operation_type x = kind \<and> po_root_dir x = root)) (q_pending q)
      in (Inr (), q\<lparr>q_pending := drop_lowest (insert_by_priority new kept)\<rparr>))"

text \<open>
  \<^verbatim>\<open>dequeue\<close> in the steps its locks delimit: the reservation under both locks, the transaction
  without locks, and the rollback under both locks again.
\<close>

definition dequeue_reserve ::
  "string \<Rightarrow> OperationQueue \<Rightarrow> PendingOperation option \<times> OperationQueue" where
  "dequeue_reserve now q =
     (case q_active q of
        Some _ \<Rightarrow> (None, q)
      | None \<Rightarrow> (case q_pending q of
            [] \<Rightarrow> (None, q)
          | x # xs \<Rightarrow> (Some x, q\<lparr>q_active := Some \<lparr>ao_project_id = q_project_id q,
                ao_operation_id = po_operation_id x, ao_operation_type = po_operation_type x,
                ao_priority = po_priority x, ao_started_at = now, ao_root_dir = po_root_dir x\<rparr>,
              q_pending := xs\<rparr>)))"

definition dequeue_persist ::
  "tx_drv \<Rightarrow> string \<Rightarrow> PendingOperation \<Rightarrow> OperationQueue \<Rightarrow> unit result \<times> OperationQueue" where
  "dequeue_persist tx now x q =
     (case in_transaction tx (\<lambda>drv. set_active_flag drv now (q_project_id q) (po_operation_id x)
             (as_i32 (po_priority x))) (q_db q) of
        (res, db) \<Rightarrow> (res, q\<lparr>q_db := db\<rparr>))"

definition dequeue_rollback :: "PendingOperation \<Rightarrow> OperationQueue \<Rightarrow> OperationQueue" where
  "dequeue_rollback x q = q\<lparr>q_active := None, q_pending := x # q_pending q\<rparr>"

definition dequeue ::
  "tx_drv \<Rightarrow> string \<Rightarrow> string \<Rightarrow> OperationQueue
     \<Rightarrow> PendingOperation option result \<times> OperationQueue" where
  "dequeue tx now now' q =
     (case dequeue_reserve now q of
        (None, q1) \<Rightarrow> (Inr None, q1)
      | (Some x, q1) \<Rightarrow> (case dequeue_persist tx now' x q1 of
            (Inl e, q2) \<Rightarrow> (Inl e, dequeue_rollback x q2)
          | (Inr _, q2) \<Rightarrow> (Inr (Some x), q2)))"

definition heartbeat ::
  "sql_drv \<Rightarrow> string \<Rightarrow> string \<Rightarrow> OperationQueue \<Rightarrow> unit result \<times> OperationQueue" where
  "heartbeat drv now oid q =
     (case update_heartbeat drv now (q_project_id q) oid (q_db q) of
        (res, db) \<Rightarrow> (res, q\<lparr>q_db := db\<rparr>))"

text \<open>The slot is taken before the database is written, and stays empty when that fails.\<close>

definition complete_active ::
  "tx_drv \<Rightarrow> string \<Rightarrow> OperationQueue \<Rightarrow> ActiveOperation option result \<times> OperationQueue" where
  "complete_active tx now q =
     (case q_active q of
        None \<Rightarrow> (Inr None, q)
      | Some a \<Rightarrow> (case in_transaction tx (\<lambda>drv. clear_active_flag drv now (q_project_id q)
                          (ao_operation_id a)) (q_db q) of
            (Inl e, db) \<Rightarrow> (Inl e, q\<lparr>q_active := None, q_db := db\<rparr>)
          | (Inr _, db) \<Rightarrow> (Inr (Some a), q\<lparr>q_active := None, q_db := db\<rparr>)))"

definition clear_active_by_operation ::
  "tx_drv \<Rightarrow> string \<Rightarrow> string \<Rightarrow> OperationQueue \<Rightarrow> unit result \<times> OperationQueue" where
  "clear_active_by_operation tx now oid q =
     (let q1 = (case q_active q of
                  Some a \<Rightarrow> if ao_operation_id a = oid then q\<lparr>q_active := None\<rparr> else q
                | None \<Rightarrow> q)
      in case in_transaction tx (\<lambda>drv. clear_active_flag drv now (q_project_id q) oid) (q_db q1) of
           (res, db) \<Rightarrow> (res, q1\<lparr>q_db := db\<rparr>))"

definition get_active :: "OperationQueue \<Rightarrow> ActiveOperation option" where
  "get_active q = q_active q"

definition peek_pending :: "OperationQueue \<Rightarrow> PendingOperation list" where
  "peek_pending q = q_pending q"

definition queue_size :: "OperationQueue \<Rightarrow> nat" where
  "queue_size q = (if q_active q = None then 0 else 1) + length (q_pending q)"

definition cancel_pending ::
  "string \<Rightarrow> OperationQueue \<Rightarrow> PendingOperation option \<times> OperationQueue" where
  "cancel_pending oid q =
     (case position (\<lambda>x. po_operation_id x = oid) (q_pending q) of
        Some i \<Rightarrow> (Some (q_pending q ! i), q\<lparr>q_pending := remove_at i (q_pending q)\<rparr>)
      | None \<Rightarrow> (None, q))"

definition clear_pending :: "OperationQueue \<Rightarrow> OperationQueue" where
  "clear_pending q = q\<lparr>q_pending := []\<rparr>"

definition has_active_full_index :: "OperationQueue \<Rightarrow> bool" where
  "has_active_full_index q =
     (case q_active q of Some a \<Rightarrow> ao_operation_type a = FullIndex | None \<Rightarrow> False)"

definition has_pending_hot_update :: "OperationQueue \<Rightarrow> bool" where
  "has_pending_hot_update q =
     (if (case q_active q of Some a \<Rightarrow> ao_operation_type a = HotUpdate | None \<Rightarrow> False) then True
      else list_ex (\<lambda>x. po_operation_type x = HotUpdate) (q_pending q))"

definition cleanup_stale_operations ::
  "sql_drv \<Rightarrow> sql_drv \<Rightarrow> string \<Rightarrow> string \<Rightarrow> OperationQueue \<Rightarrow> nat result \<times> OperationQueue" where
  "cleanup_stale_operations drv g now cutoff q =
     (case cleanup_stale_active drv now (q_project_id q) cutoff (q_db q) of
        (Inl e, db) \<Rightarrow> (Inl e, q\<lparr>q_db := db\<rparr>)
      | (Inr cleared, db) \<Rightarrow>
          (let q1 = q\<lparr>q_db := db\<rparr>
           in if cleared > 0
              then (case get_active_checkpoint g (q_project_id q) db of
                      Inl e \<Rightarrow> (Inl e, q1)
                    | Inr db_active \<Rightarrow> (Inr cleared,
                        (case q_active q1 of
                           Some a \<Rightarrow>
                             if (case db_active of Some r \<Rightarrow> cp_operation_id r = ao_operation_id a
                                                 | None \<Rightarrow> False)
                             then q1 else q1\<lparr>q_active := None\<rparr>
                         | None \<Rightarrow> q1)))
              else (Inr cleared, q1)))"

section \<open>Round trips\<close>

lemma kind_roundtrip [simp]: "kind_from_str (kind_as_str k) = Inr k"
  by (cases k) (simp_all add: kind_from_str_def)

lemma from_i32_as_i32 [simp]: "from_i32 (as_i32 p) = Some p"
  by (cases p) (simp_all add: from_i32_def)

lemma as_i32_range [simp]: "as_i32 p = 0 \<or> as_i32 p = 1 \<or> as_i32 p = 2 \<or> as_i32 p = 3"
  by (cases p) simp_all

section \<open>Positions\<close>

lemma position_None_iff: "position p xs = None \<longleftrightarrow> (\<forall>x \<in> set xs. \<not> p x)"
  by (induction xs) auto

lemma position_SomeD: "position p xs = Some i \<Longrightarrow> i < length xs \<and> p (xs ! i)"
  by (induction xs arbitrary: i) (auto split: if_splits)

lemma remove_at_simps [simp]:
  "remove_at 0 (x # xs) = xs" "remove_at (Suc i) (x # xs) = x # remove_at i xs"
  by (simp_all add: remove_at_def)

lemma length_remove_at: "i < length xs \<Longrightarrow> length (remove_at i xs) = length xs - 1"
  by (simp add: remove_at_def)

lemma filter_remove_first:
  "position p xs = Some i \<Longrightarrow> filter p (remove_at i xs) = tl (filter p xs)"
  by (induction xs arbitrary: i) (auto split: if_splits)

lemma filter_remove_other:
  "position p xs = Some i \<Longrightarrow> (\<And>x. p x \<Longrightarrow> \<not> q x) \<Longrightarrow> filter q (remove_at i xs) = filter q xs"
  by (induction xs arbitrary: i) (auto split: if_splits)

lemma set_remove_at: "set (remove_at i xs) \<subseteq> set xs"
  by (auto simp: remove_at_def dest: in_set_takeD in_set_dropD)

lemma sorted_wrt_remove_at: "sorted_wrt R xs \<Longrightarrow> sorted_wrt R (remove_at i xs)"
proof (induction xs arbitrary: i)
  case (Cons x xs)
  then show ?case using set_remove_at [of _ xs] by (cases i) auto
qed (simp add: remove_at_def)

lemma distinct_map_remove_at: "distinct (map f xs) \<Longrightarrow> distinct (map f (remove_at i xs))"
proof (induction xs arbitrary: i)
  case (Cons x xs)
  then show ?case using set_remove_at [of _ xs] by (cases i) auto
qed (simp add: remove_at_def)

section \<open>The queue invariant\<close>

abbreviation po_key :: "PendingOperation \<Rightarrow> OperationKind \<times> string" where
  "po_key x \<equiv> (po_operation_type x, po_root_dir x)"

definition by_priority :: "PendingOperation list \<Rightarrow> bool" where
  "by_priority xs \<longleftrightarrow> sorted_wrt (\<lambda>x y. po_priority y \<le> po_priority x) xs"

definition pending_ok :: "PendingOperation list \<Rightarrow> bool" where
  "pending_ok xs \<longleftrightarrow> by_priority xs \<and> distinct (map po_key xs) \<and> length xs \<le> MAX_PENDING_OPERATIONS"

lemma by_priority_Cons [simp]:
  "by_priority (x # xs) \<longleftrightarrow> (\<forall>y \<in> set xs. po_priority y \<le> po_priority x) \<and> by_priority xs"
  by (simp add: by_priority_def)

lemma by_priority_Nil [simp]: "by_priority []"
  by (simp add: by_priority_def)

lemma set_insert_by_priority [simp]: "set (insert_by_priority new xs) = insert new (set xs)"
  by (induction xs) auto

lemma length_insert_by_priority [simp]: "length (insert_by_priority new xs) = Suc (length xs)"
  by (induction xs) auto

lemma by_priority_insert: "by_priority xs \<Longrightarrow> by_priority (insert_by_priority new xs)"
  by (induction xs) auto

lemma distinct_insert_by_priority:
  "distinct (map po_key (insert_by_priority new xs))
     \<longleftrightarrow> po_key new \<notin> set (map po_key xs) \<and> distinct (map po_key xs)"
  by (induction xs) auto

lemma by_priority_filter: "by_priority xs \<Longrightarrow> by_priority (filter f xs)"
  by (simp add: by_priority_def sorted_wrt_filter)

lemma drop_lowest_cases:
  obtains "length xs \<le> MAX_PENDING_OPERATIONS" "drop_lowest xs = xs"
  | i where "MAX_PENDING_OPERATIONS < length xs"
      "position (\<lambda>x. po_priority x = po_priority (last xs)) xs = Some i" "drop_lowest xs = remove_at i xs"
proof (cases "length xs \<le> MAX_PENDING_OPERATIONS")
  case False
  then have "last xs \<in> set xs" by (cases xs) auto
  then obtain i where "position (\<lambda>x. po_priority x = po_priority (last xs)) xs = Some i"
    by (metis (mono_tags, lifting) not_None_eq position_None_iff)
  with False that(2) show ?thesis by (simp add: drop_lowest_def)
qed (use that(1) in \<open>simp add: drop_lowest_def\<close>)

lemma pending_ok_drop_lowest:
  assumes "by_priority xs" "distinct (map po_key xs)" "length xs \<le> Suc MAX_PENDING_OPERATIONS"
  shows "pending_ok (drop_lowest xs)"
proof (cases xs rule: drop_lowest_cases)
  case (2 i)
  then have "i < length xs" by (blast dest: position_SomeD)
  with 2 assms show ?thesis
    by (auto simp: pending_ok_def by_priority_def length_remove_at distinct_map_remove_at
        intro: sorted_wrt_remove_at)
qed (use assms in \<open>simp add: pending_ok_def\<close>)

lemma pending_ok_enqueue:
  assumes "pending_ok (q_pending q)"
  shows "pending_ok (q_pending (snd (enqueue now oid kind root prio q)))"
proof -
  let ?kept = "filter (\<lambda>x. \<not> (po_operation_type x = kind \<and> po_root_dir x = root)) (q_pending q)"
  have "length ?kept \<le> MAX_PENDING_OPERATIONS"
    using assms by (meson pending_ok_def length_filter_le order_trans)
  moreover have "distinct (map po_key ?kept)" "by_priority ?kept"
    using assms by (auto simp: pending_ok_def distinct_map_filter by_priority_filter)
  ultimately show ?thesis
    unfolding enqueue_def Let_def
    by (auto intro!: pending_ok_drop_lowest by_priority_insert simp: distinct_insert_by_priority)
qed

lemma pending_ok_tail: "pending_ok (x # xs) \<Longrightarrow> pending_ok xs"
  by (simp add: pending_ok_def)

lemma pending_ok_remove:
  "position p xs = Some i \<Longrightarrow> pending_ok xs \<Longrightarrow> pending_ok (remove_at i xs)"
  using position_SomeD [of p xs i]
  by (auto simp: pending_ok_def by_priority_def length_remove_at distinct_map_remove_at
      intro: sorted_wrt_remove_at)

lemma dequeue_pending:
  "q_pending (snd (dequeue tx now now' q)) \<in> {q_pending q, tl (q_pending q)}"
  by (auto simp: dequeue_def dequeue_reserve_def dequeue_persist_def dequeue_rollback_def
      split: option.split list.split sum.split prod.split)

datatype q_event =
    QLoad sql_drv
  | QEnqueue string string OperationKind string OperationPriority
  | QDequeue tx_drv string string
  | QHeartbeat sql_drv string string
  | QComplete tx_drv string
  | QClearActive tx_drv string string
  | QCancel string
  | QClearPending
  | QCleanup sql_drv sql_drv string string

fun q_step :: "OperationQueue \<Rightarrow> q_event \<Rightarrow> OperationQueue" where
  "q_step q (QLoad drv) = snd (load_persisted_active drv q)"
| "q_step q (QEnqueue now oid kind root prio) = snd (enqueue now oid kind root prio q)"
| "q_step q (QDequeue tx now now') = snd (dequeue tx now now' q)"
| "q_step q (QHeartbeat drv now oid) = snd (heartbeat drv now oid q)"
| "q_step q (QComplete tx now) = snd (complete_active tx now q)"
| "q_step q (QClearActive tx now oid) = snd (clear_active_by_operation tx now oid q)"
| "q_step q (QCancel oid) = snd (cancel_pending oid q)"
| "q_step q QClearPending = clear_pending q"
| "q_step q (QCleanup drv g now cutoff) = snd (cleanup_stale_operations drv g now cutoff q)"

lemma pending_unchanged [simp]:
  "q_pending (snd (load_persisted_active drv q)) = q_pending q"
  "q_pending (snd (heartbeat drv now oid q)) = q_pending q"
  "q_pending (snd (complete_active tx now q)) = q_pending q"
  "q_pending (snd (clear_active_by_operation tx now oid q)) = q_pending q"
  "q_pending (snd (cleanup_stale_operations drv g now cutoff q)) = q_pending q"
  by (auto simp: load_persisted_active_def heartbeat_def complete_active_def
      clear_active_by_operation_def cleanup_stale_operations_def Let_def
      split: option.split sum.split prod.split)

lemma pending_ok_dequeue:
  "pending_ok (q_pending q) \<Longrightarrow> pending_ok (q_pending (snd (dequeue tx now now' q)))"
  using dequeue_pending [of tx now now' q] pending_ok_tail
  by (cases "q_pending q") auto

lemma pending_ok_cancel:
  "pending_ok (q_pending q) \<Longrightarrow> pending_ok (q_pending (snd (cancel_pending oid q)))"
  by (auto simp: cancel_pending_def intro: pending_ok_remove split: option.split)

interpretation pending_queue: invariant_machine q_step "\<lambda>q. pending_ok (q_pending q)"
proof
  fix q :: OperationQueue and e :: q_event
  assume "pending_ok (q_pending q)"
  then show "pending_ok (q_pending (q_step q e))"
    by (cases e) (simp_all add: pending_ok_enqueue pending_ok_dequeue pending_ok_cancel,
        simp add: clear_pending_def pending_ok_def)
qed

section \<open>One bucket per priority\<close>

text \<open>
  The specification of the pending queue: one first-in-first-out bucket per priority. An
  operation joins the back of its bucket after the entry it supersedes is removed; when more
  than the capacity would be pending, the front of the lowest non-empty bucket is dropped;
  the front of the highest non-empty bucket is served.
\<close>

type_synonym buckets = "OperationPriority \<Rightarrow> PendingOperation list"

definition lowest_bucket :: "buckets \<Rightarrow> OperationPriority" where
  "lowest_bucket b =
     (if b PrioHotUpdate \<noteq> [] then PrioHotUpdate
      else if b PrioIncremental \<noteq> [] then PrioIncremental else PrioFullIndex)"

definition bucket_count :: "buckets \<Rightarrow> nat" where
  "bucket_count b = length (b PrioFullIndex) + length (b PrioIncremental) + length (b PrioHotUpdate)"

definition bucket_enqueue :: "PendingOperation \<Rightarrow> buckets \<Rightarrow> buckets" where
  "bucket_enqueue new b =
     (let b1 = (\<lambda>k. filter (\<lambda>x. po_key x \<noteq> po_key new) (b k) @ (if k = po_priority new then [new] else []))
      in if bucket_count b1 > MAX_PENDING_OPERATIONS
         then b1(lowest_bucket b1 := tl (b1 (lowest_bucket b1))) else b1)"

definition buckets_of :: "PendingOperation list \<Rightarrow> buckets" where
  "buckets_of xs k = filter (\<lambda>x. po_priority x = k) xs"

lemma priority_order:
  "PrioHotUpdate \<le> k" "k \<le> PrioFullIndex" "\<not> PrioIncremental \<le> PrioHotUpdate"
  "\<not> PrioFullIndex \<le> PrioHotUpdate" "\<not> PrioFullIndex \<le> PrioIncremental"
  by (cases k; simp add: less_eq_OperationPriority_def)+

lemma all_priorities: "(\<And>k. k = PrioFullIndex \<or> k = PrioIncremental \<or> k = PrioHotUpdate)"
  by (metis OperationPriority.exhaust)

lemma buckets_concat:
  "by_priority xs \<Longrightarrow>
     xs = buckets_of xs PrioFullIndex @ buckets_of xs PrioIncremental @ buckets_of xs PrioHotUpdate"
proof (induction xs)
  case (Cons x xs)
  have *: "buckets_of xs k = []" if "\<not> k \<le> po_priority x" for k
    using Cons.prems that by (auto simp: buckets_of_def filter_empty_conv)
  show ?case
    using Cons * by (cases "po_priority x") (auto simp: buckets_of_def priority_order)
qed (simp add: buckets_of_def)

lemma bucket_count_of: "bucket_count (buckets_of xs) = length xs"
proof (induction xs)
  case (Cons x xs)
  then show ?case by (cases "po_priority x") (simp_all add: bucket_count_def buckets_of_def)
qed (simp add: bucket_count_def buckets_of_def)

lemma lowest_bucket_of:
  assumes "by_priority xs" "xs \<noteq> []"
  shows "lowest_bucket (buckets_of xs) = po_priority (last xs)"
proof -
  let ?b = "buckets_of xs"
  have *: "last xs = last (?b PrioFullIndex @ ?b PrioIncremental @ ?b PrioHotUpdate)"
    using buckets_concat [OF assms(1)] by simp
  have mem: "po_priority (last (?b k)) = k" if "?b k \<noteq> []" for k
    using last_in_set [OF that] by (simp add: buckets_of_def)
  have "\<exists>k. ?b k \<noteq> []"
    using assms(2) by (auto simp: buckets_of_def filter_empty_conv intro!: bexI [OF _ last_in_set])
  then show ?thesis
    using mem unfolding * lowest_bucket_def by (auto simp: last_append) (metis all_priorities)+
qed

lemma buckets_insert:
  "by_priority xs \<Longrightarrow> buckets_of (insert_by_priority new xs) k
     = buckets_of xs k @ (if k = po_priority new then [new] else [])"
proof (induction xs)
  case (Cons x xs)
  have "filter (\<lambda>y. po_priority y = po_priority new) xs = []" if "po_priority x < po_priority new"
    using Cons.prems that by (auto simp: filter_empty_conv)
  with Cons show ?case by (auto simp: buckets_of_def)
qed (simp add: buckets_of_def)

lemma buckets_drop_lowest:
  assumes "by_priority xs"
  shows "buckets_of (drop_lowest xs) = (let b = buckets_of xs
     in if bucket_count b > MAX_PENDING_OPERATIONS then b(lowest_bucket b := tl (b (lowest_bucket b))) else b)"
proof (cases xs rule: drop_lowest_cases)
  case 1
  then show ?thesis by (simp add: bucket_count_of)
next
  case (2 i)
  then have "lowest_bucket (buckets_of xs) = po_priority (last xs)"
    using assms by (intro lowest_bucket_of) auto
  with 2 show ?thesis
    using filter_remove_first [OF 2(2)] filter_remove_other [OF 2(2)]
    by (auto simp: bucket_count_of fun_eq_iff buckets_of_def)
qed

lemma buckets_of_filter: "buckets_of (filter f xs) k = filter f (buckets_of xs k)"
  by (simp add: buckets_of_def conj_commute)

section \<open>The active gate\<close>

text \<open>
  What the queue relies on in its durable store: a successful mark makes at most the marked
  operation active, a successful unmark makes exactly that operation inactive. The single slot
  of the queue then bounds the active operations of the store.
\<close>

locale active_store =
  fixes actives :: "'d \<Rightarrow> 'o set"
    and mark :: "'o \<Rightarrow> 'd \<Rightarrow> 'd option"
    and unmark :: "'o \<Rightarrow> 'd \<Rightarrow> 'd option"
  assumes actives_mark: "mark x d = Some d' \<Longrightarrow> actives d' \<subseteq> insert x (actives d)"
    and actives_unmark: "unmark x d = Some d' \<Longrightarrow> actives d' = actives d - {x}"
begin

lemma acquire_single: "actives d \<subseteq> {} \<Longrightarrow> mark x d = Some d' \<Longrightarrow> actives d' \<subseteq> {x}"
  using actives_mark by fastforce

lemma release_empty: "actives d \<subseteq> {x} \<Longrightarrow> unmark x d = Some d' \<Longrightarrow> actives d' = {}"
  using actives_unmark by fastforce

lemma release_other: "actives d \<subseteq> S \<Longrightarrow> unmark x d = Some d' \<Longrightarrow> actives d' \<subseteq> S - {x}"
  using actives_unmark by fastforce

end

definition mark_active :: "tx_drv \<Rightarrow> string \<Rightarrow> int \<Rightarrow> int \<Rightarrow> string \<Rightarrow> Db \<Rightarrow> Db option" where
  "mark_active tx now p prio oid db =
     (case in_transaction tx (\<lambda>drv. set_active_flag drv now p oid prio) db of
        (Inl _, _) \<Rightarrow> None | (Inr _, db') \<Rightarrow> Some db')"

definition unmark_active :: "tx_drv \<Rightarrow> string \<Rightarrow> int \<Rightarrow> string \<Rightarrow> Db \<Rightarrow> Db option" where
  "unmark_active tx now p oid db =
     (case in_transaction tx (\<lambda>drv. clear_active_flag drv now p oid) db of
        (Inl _, _) \<Rightarrow> None | (Inr _, db') \<Rightarrow> Some db')"

lemma in_transaction_Inr:
  "in_transaction tx body db = (Inr u, db')
     \<longleftrightarrow> begin_fault tx = None \<and> commit_fault tx = None \<and> body (stmt_drv tx) db = (Inr u, db')"
  by (auto simp: in_transaction_def split: option.split prod.split sum.split)

lemma in_transaction_Inl: "in_transaction tx body db = (Inl e, db') \<Longrightarrow> db' = db"
  by (auto simp: in_transaction_def split: option.splits prod.splits sum.splits)

lemma in_active_ops:
  "x \<in> set (active_ops p db) \<longleftrightarrow>
     (\<exists>r \<in> set (checkpoint_tbl db). cp_operation_id r = x \<and> cp_project_id r = p \<and> cp_active_flag r)"
  by (auto simp: active_ops_def)

lemma in_active_ops_update:
  assumes "\<And>r. cp_key (u r) = cp_key r" "\<And>r. cp_active_flag (u r) = flag"
  shows "x \<in> set (active_ops p (db\<lparr>checkpoint_tbl := update_where (\<lambda>r. cp_key r = (p, oid)) u (checkpoint_tbl db)\<rparr>))
     \<longleftrightarrow> (if x = oid then flag \<and> has_checkpoint db p oid else x \<in> set (active_ops p db))"
proof -
  have *: "(\<exists>r \<in> set (update_where (\<lambda>r. cp_key r = (p, oid)) u t).
        cp_operation_id r = x \<and> cp_project_id r = p \<and> cp_active_flag r) \<longleftrightarrow>
      (if x = oid then flag \<and> (p, oid) \<in> set (map cp_key t)
       else (\<exists>r \<in> set t. cp_operation_id r = x \<and> cp_project_id r = p \<and> cp_active_flag r))" for t
    using assms by (induction t) (auto simp: update_where_def)
  show ?thesis using * [of "checkpoint_tbl db"] by (simp add: in_active_ops has_checkpoint_def)
qed

lemma set_active_flag_actives:
  assumes "set_active_flag drv now p oid prio db = (Inr u, db')"
  shows "set (active_ops p db') = (if has_checkpoint db p oid then insert oid (set (active_ops p db))
                                   else set (active_ops p db))"
proof -
  have "db' = db\<lparr>checkpoint_tbl := update_where (\<lambda>r. cp_key r = (p, oid))
      (\<lambda>r. r\<lparr>cp_active_flag := True, cp_priority := prio, cp_last_heartbeat := Some now,
             cp_updated_at := now\<rparr>) (checkpoint_tbl db)\<rparr>"
    using assms by (simp add: set_active_flag_def split: sum.splits)
  then have mem: "x \<in> set (active_ops p db') \<longleftrightarrow>
      (if x = oid then True \<and> has_checkpoint db p oid else x \<in> set (active_ops p db))" for x
    by (simp only:) (rule in_active_ops_update; simp)
  have "has_checkpoint db p oid" if "oid \<in> set (active_ops p db)"
    using that by (auto simp: in_active_ops has_checkpoint_def)
  then show ?thesis by (intro set_eqI) (auto simp: mem)
qed

lemma clear_active_flag_actives:
  assumes "clear_active_flag drv now p oid db = (Inr u, db')"
  shows "set (active_ops p db') = set (active_ops p db) - {oid}"
proof -
  have "db' = db\<lparr>checkpoint_tbl := update_where (\<lambda>r. cp_key r = (p, oid))
      (\<lambda>r. r\<lparr>cp_active_flag := False, cp_updated_at := now\<rparr>) (checkpoint_tbl db)\<rparr>"
    using assms by (simp add: clear_active_flag_def split: sum.splits)
  then have "x \<in> set (active_ops p db') \<longleftrightarrow>
      (if x = oid then False \<and> has_checkpoint db p oid else x \<in> set (active_ops p db))" for x
    by (simp only:) (rule in_active_ops_update; simp)
  then show ?thesis by (auto split: if_splits)
qed

interpretation gate: active_store "\<lambda>db. set (active_ops p db)" "mark_active tx now p prio"
  "unmark_active tx now p" for p tx now prio
proof
  fix x d d'
  show "mark_active tx now p prio x d = Some d' \<Longrightarrow> set (active_ops p d') \<subseteq> insert x (set (active_ops p d))"
    using set_active_flag_actives [of "stmt_drv tx" now p x prio d _ d']
    by (auto simp: mark_active_def in_transaction_Inr split: prod.splits sum.splits if_splits)
  show "unmark_active tx now p x d = Some d' \<Longrightarrow> set (active_ops p d') = set (active_ops p d) - {x}"
    using clear_active_flag_actives [of "stmt_drv tx" now p x d _ d']
    by (auto simp: unmark_active_def in_transaction_Inr split: prod.splits sum.splits)
qed

definition gate_inv :: "OperationQueue \<Rightarrow> bool" where
  "gate_inv q \<longleftrightarrow> set (active_ops (q_project_id q) (q_db q))
     \<subseteq> (case q_active q of None \<Rightarrow> {} | Some a \<Rightarrow> {ao_operation_id a})"

text \<open>A release whose database write fails is the only step that can break the gate.\<close>

fun release_fails :: "OperationQueue \<Rightarrow> q_event \<Rightarrow> bool" where
  "release_fails q (QComplete tx now) = (\<exists>e. fst (complete_active tx now q) = Inl e)"
| "release_fails q (QClearActive tx now oid) = (\<exists>e. fst (clear_active_by_operation tx now oid q) = Inl e)"
| "release_fails q _ = False"

lemma gate_dequeue: "gate_inv q \<Longrightarrow> gate_inv (snd (dequeue tx now now' q))"
proof (cases "q_active q = None \<and> q_pending q \<noteq> []")
  case True
  assume inv: "gate_inv q"
  from True obtain x xs where q: "q_active q = None" "q_pending q = x # xs"
    by (cases "q_pending q") auto
  obtain res db' where tx: "in_transaction tx (\<lambda>drv. set_active_flag drv now' (q_project_id q)
      (po_operation_id x) (as_i32 (po_priority x))) (q_db q) = (res, db')" by force
  show ?thesis
  proof (cases res)
    case (Inl e)
    with tx in_transaction_Inl [of tx _ _ e db'] have "db' = q_db q" by metis
    with Inl q tx inv show ?thesis
      by (simp add: dequeue_def dequeue_reserve_def dequeue_persist_def dequeue_rollback_def gate_inv_def)
  next
    case (Inr u)
    with tx have "mark_active tx now' (q_project_id q) (as_i32 (po_priority x)) (po_operation_id x) (q_db q)
        = Some db'" by (simp add: mark_active_def)
    from gate.acquire_single [OF _ this] inv q
    have "set (active_ops (q_project_id q) db') \<subseteq> {po_operation_id x}" by (simp add: gate_inv_def)
    with Inr q tx show ?thesis
      by (simp add: dequeue_def dequeue_reserve_def dequeue_persist_def gate_inv_def)
  qed
qed (auto simp: dequeue_def dequeue_reserve_def split: option.split list.split)

lemma gate_complete:
  assumes "gate_inv q" "\<not> release_fails q (QComplete tx now)"
  shows "gate_inv (snd (complete_active tx now q))"
proof (cases "q_active q")
  case (Some a)
  obtain res db' where tx: "in_transaction tx (\<lambda>drv. clear_active_flag drv now (q_project_id q)
      (ao_operation_id a)) (q_db q) = (res, db')" by force
  with assms(2) Some obtain u where "res = Inr u"
    by (cases res) (auto simp: complete_active_def)
  with tx have "unmark_active tx now (q_project_id q) (ao_operation_id a) (q_db q) = Some db'"
    by (simp add: unmark_active_def)
  from gate.release_empty [OF _ this] assms(1) Some tx \<open>res = Inr u\<close> show ?thesis
    by (simp add: complete_active_def gate_inv_def)
qed (use assms in \<open>simp add: complete_active_def\<close>)

lemma gate_clear:
  assumes "gate_inv q" "\<not> release_fails q (QClearActive tx now oid)"
  shows "gate_inv (snd (clear_active_by_operation tx now oid q))"
proof -
  obtain res db' where tx: "in_transaction tx (\<lambda>drv. clear_active_flag drv now (q_project_id q) oid)
      (q_db q) = (res, db')" by force
  with assms(2) obtain u where "res = Inr u"
    by (cases res) (auto simp: clear_active_by_operation_def Let_def split: option.splits if_splits)
  with tx have "unmark_active tx now (q_project_id q) oid (q_db q) = Some db'"
    by (simp add: unmark_active_def)
  from gate.actives_unmark [OF this] assms(1) tx show ?thesis
    by (auto simp: clear_active_by_operation_def Let_def gate_inv_def
        simp del: subset_empty set_empty set_empty2 split: option.splits)
qed

lemma actives_heartbeat:
  "active_ops p (snd (update_heartbeat drv now p' oid db)) = active_ops p db"
proof -
  have *: "map cp_operation_id (filter (\<lambda>r. cp_project_id r = p \<and> cp_active_flag r)
      (update_where t (\<lambda>r. r\<lparr>cp_last_heartbeat := h, cp_updated_at := now\<rparr>) rows))
    = map cp_operation_id (filter (\<lambda>r. cp_project_id r = p \<and> cp_active_flag r) rows)" for t h rows
    by (induction rows) (auto simp: update_where_def)
  show ?thesis by (simp add: update_heartbeat_def Let_def active_ops_def * split: sum.split)
qed

lemma actives_cleanup:
  "set (active_ops p (snd (cleanup_stale_active drv now p cutoff db))) \<subseteq> set (active_ops p db)"
proof -
  have *: "set (map cp_operation_id (filter (\<lambda>r. cp_project_id r = p \<and> cp_active_flag r)
      (update_where t (\<lambda>r. r\<lparr>cp_active_flag := False, cp_updated_at := now\<rparr>) rows)))
    \<subseteq> set (map cp_operation_id (filter (\<lambda>r. cp_project_id r = p \<and> cp_active_flag r) rows))" for t rows
    by (induction rows) (auto simp: update_where_def)
  show ?thesis
    using * [of "stale_active p cutoff" "checkpoint_tbl db"]
    by (simp add: cleanup_stale_active_def active_ops_def split: sum.split)
qed

lemma get_active_in_ops:
  "get_active_checkpoint drv p db = Inr (Some r) \<Longrightarrow> cp_operation_id r \<in> set (active_ops p db)"
  by (cases "find (\<lambda>r. cp_project_id r = p \<and> cp_active_flag r) (checkpoint_tbl db)")
    (auto simp: get_active_checkpoint_def in_active_ops dest!: find_SomeD)

lemma get_active_None:
  "get_active_checkpoint drv p db = Inr None \<Longrightarrow> active_ops p db = []"
  by (auto simp: get_active_checkpoint_def active_ops_def find_None_iff filter_empty_conv)

lemma gate_load: "gate_inv q \<Longrightarrow> gate_inv (snd (load_persisted_active drv q))"
  using get_active_in_ops [of drv "q_project_id q" "q_db q"]
  by (auto simp: load_persisted_active_def gate_inv_def Let_def dest!: subset_singletonD
      split: option.splits sum.splits)

lemma gate_cleanup: "gate_inv q \<Longrightarrow> gate_inv (snd (cleanup_stale_operations drv g now cutoff q))"
proof -
  assume inv: "gate_inv q"
  obtain res db' where c: "cleanup_stale_active drv now (q_project_id q) cutoff (q_db q) = (res, db')" by force
  from actives_cleanup [of "q_project_id q" drv now cutoff "q_db q"] c
  have sub: "set (active_ops (q_project_id q) db') \<subseteq> set (active_ops (q_project_id q) (q_db q))" by simp
  have stay: "gate_inv (q\<lparr>q_db := db'\<rparr>)" using inv sub by (auto simp: gate_inv_def split: option.splits)
  have cleared: "gate_inv (q\<lparr>q_db := db', q_active := None\<rparr>)"
    if "get_active_checkpoint g (q_project_id q) db' = Inr r" "q_active q = Some a"
      "\<not> (case r of Some r \<Rightarrow> cp_operation_id r = ao_operation_id a | None \<Rightarrow> False)" for r a
    using stay that get_active_in_ops [of g "q_project_id q" db'] get_active_None [of g "q_project_id q" db']
    by (cases r) (auto simp: gate_inv_def)
  show ?thesis
    using stay cleared unfolding cleanup_stale_operations_def c Let_def
    by (auto split: sum.splits option.splits)
qed

lemma gate_step: "gate_inv q \<Longrightarrow> \<not> release_fails q e \<Longrightarrow> gate_inv (q_step q e)"
proof (cases e)
  case (QHeartbeat drv now oid)
  assume "gate_inv q"
  then show ?thesis
    using actives_heartbeat [of "q_project_id q" drv now "q_project_id q" oid "q_db q"]
    by (auto simp: QHeartbeat heartbeat_def gate_inv_def split: prod.splits)
qed (auto simp: gate_dequeue gate_complete gate_clear gate_load gate_cleanup
      simp del: release_fails.simps(1,2),
    simp_all add: gate_inv_def enqueue_def Let_def cancel_pending_def clear_pending_def
      split: option.splits)

text \<open>The steps of a run that are not failed releases.\<close>

fun releases_ok :: "OperationQueue \<Rightarrow> q_event list \<Rightarrow> bool" where
  "releases_ok q [] = True"
| "releases_ok q (e # es) \<longleftrightarrow> \<not> release_fails q e \<and> releases_ok (q_step q e) es"

lemma gate_run: "gate_inv q \<Longrightarrow> releases_ok q es \<Longrightarrow> gate_inv (foldl q_step q es)"
  by (induction es arbitrary: q) (auto intro: gate_step)

lemma q_step_project [simp]: "q_project_id (q_step q e) = q_project_id q"
  by (cases e) (auto simp: load_persisted_active_def enqueue_def dequeue_def dequeue_reserve_def
      dequeue_persist_def dequeue_rollback_def heartbeat_def complete_active_def
      clear_active_by_operation_def cancel_pending_def clear_pending_def cleanup_stale_operations_def
      Let_def split: option.splits sum.splits prod.splits list.splits)

lemma q_run_project [simp]: "q_project_id (foldl q_step q es) = q_project_id q"
  by (induction es arbitrary: q) simp_all

section \<open>Properties\<close>



text \<open>
  C2: \<^verbatim>\<open>enqueue\<close> refines the bucket specification: seen as one queue per priority, it removes the
  superseded entry, appends the new operation behind every other one of its priority, and, past
  the capacity, gives up exactly the oldest operation of the lowest priority present.
\<close>

theorem enqueue_refines_buckets:
  assumes "pending_ok (q_pending q)"
  shows "buckets_of (q_pending (snd (enqueue now oid kind root prio q))) =
     bucket_enqueue \<lparr>po_project_id = q_project_id q, po_operation_id = oid, po_operation_type = kind,
        po_priority = prio, po_root_dir = root, po_created_at = now, po_status = ''pending''\<rparr>
       (buckets_of (q_pending q))"
proof -
  let ?new = "\<lparr>po_project_id = q_project_id q, po_operation_id = oid, po_operation_type = kind,
        po_priority = prio, po_root_dir = root, po_created_at = now, po_status = ''pending''\<rparr>"
  let ?kept = "filter (\<lambda>x. \<not> (po_operation_type x = kind \<and> po_root_dir x = root)) (q_pending q)"
  have s: "by_priority ?kept" using assms by (simp add: pending_ok_def by_priority_filter)
  have "buckets_of (insert_by_priority ?new ?kept) = (\<lambda>k. filter (\<lambda>x. po_key x \<noteq> po_key ?new)
      (buckets_of (q_pending q) k) @ (if k = po_priority ?new then [?new] else []))"
    by (rule ext) (simp add: buckets_insert [OF s] buckets_of_filter del: de_Morgan_conj)
  then show ?thesis
    using buckets_drop_lowest [OF by_priority_insert [OF s, of ?new]]
    by (simp add: enqueue_def bucket_enqueue_def Let_def)
qed

theorem enqueue_refines_buckets_witness:
  "buckets_of (q_pending (snd (enqueue ''t'' ''a'' FullIndex ''/r'' PrioFullIndex
      \<lparr>q_project_id = 1, q_active = None, q_pending = [], q_db = empty_db True\<rparr>))) PrioFullIndex
   = [\<lparr>po_project_id = 1, po_operation_id = ''a'', po_operation_type = FullIndex,
        po_priority = PrioFullIndex, po_root_dir = ''/r'', po_created_at = ''t'', po_status = ''pending''\<rparr>]"
  using enqueue_refines_buckets [of "\<lparr>q_project_id = 1, q_active = None, q_pending = [], q_db = empty_db True\<rparr>"
      "''t''" "''a''" FullIndex "''/r''" PrioFullIndex]
  by (simp add: pending_ok_def bucket_enqueue_def bucket_count_def buckets_of_def
      MAX_PENDING_OPERATIONS_def Let_def)

text \<open>
  A dequeue that cannot persist the active flag has no effect: the error is returned and
  the active slot, the pending operations (order included) and the database are what they
  were, so the operation is neither lost nor left active.
\<close>

theorem failed_dequeue_rolls_back:
  "fst (dequeue tx now now' q) = Inl e \<Longrightarrow> snd (dequeue tx now now' q) = q"
  by (cases "q_active q"; cases "q_pending q")
    (auto simp: dequeue_def dequeue_reserve_def dequeue_persist_def dequeue_rollback_def
      dest: in_transaction_Inl split: prod.splits sum.splits)

theorem failed_dequeue_rolls_back_witness:
  "let q = \<lparr>q_project_id = 1, q_active = None, q_pending = [to_pending \<lparr>ao_project_id = 1,
        ao_operation_id = ''a'', ao_operation_type = FullIndex, ao_priority = PrioFullIndex,
        ao_started_at = ''t'', ao_root_dir = ''/r''\<rparr>], q_db = empty_db True\<rparr>;
       tx = \<lparr>begin_fault = None, stmt_drv = drv_ok, commit_fault = Some ''disk I/O error''\<rparr>
   in dequeue tx ''t'' ''t'' q = (Inl (Sqlite ''disk I/O error''), q)"
  using failed_dequeue_rolls_back [of "\<lparr>begin_fault = None, stmt_drv = drv_ok, commit_fault = Some ''disk I/O error''\<rparr>"
      "''t''" "''t''" "\<lparr>q_project_id = 1, q_active = None, q_pending = [to_pending \<lparr>ao_project_id = 1,
        ao_operation_id = ''a'', ao_operation_type = FullIndex, ao_priority = PrioFullIndex,
        ao_started_at = ''t'', ao_root_dir = ''/r''\<rparr>], q_db = empty_db True\<rparr>" "Sqlite ''disk I/O error''"]
  by (simp add: Let_def prod_eq_iff dequeue_def dequeue_reserve_def dequeue_persist_def in_transaction_def
      set_active_flag_def drv_ok_def to_pending_def split: prod.splits)

lemma gate_inv_new:
  "new_for_project pid db = Some q \<Longrightarrow> active_ops pid db = [] \<Longrightarrow> gate_inv q \<and> q_project_id q = pid"
  by (auto simp: new_for_project_def gate_inv_def split: if_splits)


definition tx_ok :: tx_drv where
  "tx_ok = \<lparr>begin_fault = None, stmt_drv = drv_ok, commit_fault = None\<rparr>"

definition sample_db :: Db where
  "sample_db = (empty_db True)\<lparr>checkpoint_tbl :=
     [sample_checkpoint\<lparr>cp_active_flag := False\<rparr>,
      sample_checkpoint\<lparr>cp_operation_id := ''op2'', cp_active_flag := False\<rparr>]\<rparr>"

definition sample_queue :: OperationQueue where
  "sample_queue = \<lparr>q_project_id = 7, q_active = None, q_pending = [], q_db = sample_db\<rparr>"

definition sample_events :: "q_event list" where
  "sample_events = [QEnqueue ''t'' ''op'' FullIndex ''/r'' PrioFullIndex,
     QEnqueue ''t'' ''op2'' HotUpdate ''/r'' PrioHotUpdate, QDequeue tx_ok ''t'' ''t'']"

lemmas sample_simps = sample_events_def sample_queue_def sample_db_def sample_checkpoint_def tx_ok_def
  drv_ok_def enqueue_def dequeue_def dequeue_reserve_def dequeue_persist_def in_transaction_def
  set_active_flag_def drop_lowest_def MAX_PENDING_OPERATIONS_def update_where_def has_checkpoint_def
  less_OperationPriority_def active_ops_def Let_def


text \<open>
  A failed completion opens the gate. \<^verbatim>\<open>complete_active\<close> empties the slot before it writes the
  database; when that write fails, the error is returned with the checkpoint still flagged,
  and the next successful dequeue activates a second checkpoint of the project.
\<close>

theorem failed_completion_two_active:
  assumes "q_active q = Some a" "ao_operation_id a \<in> set (active_ops (q_project_id q) (q_db q))"
    and "q_pending q = x # xs" "po_operation_id x \<noteq> ao_operation_id a"
    and "has_checkpoint (q_db q) (q_project_id q) (po_operation_id x)"
    and "fst (complete_active tx now q) = Inl e"
  shows "let q1 = snd (complete_active tx now q); q2 = snd (dequeue tx_ok now' now'' q1)
     in get_active q1 = None \<and> {ao_operation_id a, po_operation_id x} \<subseteq> set (active_ops (q_project_id q) (q_db q2))"
proof -
  let ?q1 = "q\<lparr>q_active := None\<rparr>"
  obtain e' db' where tx: "in_transaction tx (\<lambda>drv. clear_active_flag drv now (q_project_id q)
      (ao_operation_id a)) (q_db q) = (Inl e', db')"
    using assms(1,6) by (auto simp: complete_active_def split: prod.splits sum.splits)
  then have "db' = q_db q" by (rule in_transaction_Inl)
  with tx assms(1) have q1: "snd (complete_active tx now q) = ?q1" by (simp add: complete_active_def)
  have "\<exists>db2. set_active_flag drv_ok now'' (q_project_id q) (po_operation_id x) (as_i32 (po_priority x)) (q_db q)
      = (Inr (), db2)"
    by (auto simp: set_active_flag_def drv_ok_def)
  then obtain db2 where s: "set_active_flag drv_ok now'' (q_project_id q) (po_operation_id x)
      (as_i32 (po_priority x)) (q_db q) = (Inr (), db2)" ..
  then have "q_db (snd (dequeue tx_ok now' now'' ?q1)) = db2"
    using assms(3) by (simp add: dequeue_def dequeue_reserve_def dequeue_persist_def in_transaction_def tx_ok_def)
  with set_active_flag_actives [OF s] q1 assms(2,5) show ?thesis by (simp add: Let_def get_active_def)
qed

theorem failed_completion_two_active_witness:
  "let q = foldl q_step sample_queue sample_events;
       tx = tx_ok\<lparr>commit_fault := Some ''disk I/O error''\<rparr>;
       q2 = snd (dequeue tx_ok ''t3'' ''t3'' (snd (complete_active tx ''t3'' q)))
   in {''op'', ''op2''} \<subseteq> set (active_ops 7 (q_db q2))"
proof -
  let ?q = "foldl q_step sample_queue sample_events"
  let ?tx = "tx_ok\<lparr>commit_fault := Some ''disk I/O error''\<rparr>"
  have "map_option ao_operation_id (q_active ?q) = Some ''op''" by (simp add: sample_simps)
  then obtain a where a: "q_active ?q = Some a" "ao_operation_id a = ''op''" by auto
  have "map po_operation_id (q_pending ?q) = [''op2'']" by (simp add: sample_simps)
  then obtain x where x: "q_pending ?q = [x]" "po_operation_id x = ''op2''" by (cases "q_pending ?q") auto
  have p: "q_project_id ?q = 7" by (simp add: sample_queue_def)
  have act: "active_ops 7 (q_db ?q) = [''op'']" by (simp add: sample_simps)
  have row: "has_checkpoint (q_db ?q) 7 ''op2''" by (simp add: sample_simps)
  have "fst (complete_active ?tx ''t3'' ?q) = Inl (Sqlite ''disk I/O error'')"
    unfolding complete_active_def a by (simp add: in_transaction_def clear_active_flag_def tx_ok_def drv_ok_def)
  from failed_completion_two_active [OF a(1) _ x(1) _ _ this, of "''t3''" "''t3''"] a(2) x(2) p act row
  show ?thesis by (simp add: Let_def)
qed

lemma find_after_set_active:
  assumes "set_active_flag drv now p oid prio db = (Inr u, db')" "active_ops p db = []"
    and "find (\<lambda>r. cp_key r = (p, oid)) (checkpoint_tbl db) = Some row"
  shows "find (\<lambda>r. cp_project_id r = p \<and> cp_active_flag r) (checkpoint_tbl db')
     = Some (row\<lparr>cp_active_flag := True, cp_priority := prio, cp_last_heartbeat := Some now, cp_updated_at := now\<rparr>)"
proof -
  let ?u = "\<lambda>r. r\<lparr>cp_active_flag := True, cp_priority := prio, cp_last_heartbeat := Some now, cp_updated_at := now\<rparr>"
  have *: "find (\<lambda>r. cp_project_id r = p \<and> cp_active_flag r) (update_where (\<lambda>r. cp_key r = (p, oid)) ?u t)
      = map_option ?u (find (\<lambda>r. cp_key r = (p, oid)) t)"
    if "filter (\<lambda>r. cp_project_id r = p \<and> cp_active_flag r) t = []" for t
    using that by (induction t) (auto simp: update_where_def split: if_splits)
  have "checkpoint_tbl db' = update_where (\<lambda>r. cp_key r = (p, oid)) ?u (checkpoint_tbl db)"
    using assms(1) by (auto simp: set_active_flag_def split: sum.splits)
  with * [of "checkpoint_tbl db"] assms(2,3) show ?thesis by (simp add: active_ops_def)
qed



text \<open>Serving the queue: dequeue and complete, until nothing is pending.\<close>

fun serve :: "(string \<times> string \<times> string) list \<Rightarrow> OperationQueue
    \<Rightarrow> PendingOperation option result list \<times> OperationQueue" where
  "serve [] q = ([], q)"
| "serve ((t1, t2, t3) # ts) q =
     (case dequeue tx_ok t1 t2 q of
        (res, q1) \<Rightarrow> (case serve ts (snd (complete_active tx_ok t3 q1)) of
           (rs, q2) \<Rightarrow> (res # rs, q2)))"

lemma set_active_ok:
  "\<exists>db'. in_transaction tx_ok (\<lambda>drv. set_active_flag drv now p oid (as_i32 k)) db = (Inr (), db')"
  by (simp add: in_transaction_def tx_ok_def drv_ok_def set_active_flag_def)

lemma clear_active_ok:
  "\<exists>db'. in_transaction tx_ok (\<lambda>drv. clear_active_flag drv now p oid) db = (Inr (), db')"
  by (simp add: in_transaction_def tx_ok_def drv_ok_def clear_active_flag_def)

lemma serve_one:
  assumes "q_active q = None" "q_pending q = x # xs"
  shows "fst (dequeue tx_ok t1 t2 q) = Inr (Some x)
     \<and> q_active (snd (complete_active tx_ok t3 (snd (dequeue tx_ok t1 t2 q)))) = None
     \<and> q_pending (snd (complete_active tx_ok t3 (snd (dequeue tx_ok t1 t2 q)))) = xs"
proof -
  obtain db' where 1: "in_transaction tx_ok (\<lambda>drv. set_active_flag drv t2 (q_project_id q)
      (po_operation_id x) (as_i32 (po_priority x))) (q_db q) = (Inr (), db')"
    using set_active_ok by blast
  obtain db2 where 2: "in_transaction tx_ok (\<lambda>drv. clear_active_flag drv t3 (q_project_id q)
      (po_operation_id x)) db' = (Inr (), db2)"
    using clear_active_ok by blast
  from 1 2 assms show ?thesis
    by (simp add: dequeue_def dequeue_reserve_def dequeue_persist_def complete_active_def)
qed

text \<open>
  C14: Every pending operation is served. Without SQLite faults, as many rounds of dequeue and
  complete as there are pending operations return every one of them exactly once, full indexes
  first, then incremental updates, then hot updates, each in the order of their buckets, and
  leave the queue empty and idle.
\<close>

theorem serve_drains_queue:
  assumes "pending_ok (q_pending q)" "q_active q = None" "length ts = length (q_pending q)"
  shows "fst (serve ts q) = map (\<lambda>x. Inr (Some x))
       (buckets_of (q_pending q) PrioFullIndex @ buckets_of (q_pending q) PrioIncremental
         @ buckets_of (q_pending q) PrioHotUpdate)
     \<and> queue_size (snd (serve ts q)) = 0"
proof -
  have "fst (serve ts q) = map (\<lambda>x. Inr (Some x)) (q_pending q) \<and> queue_size (snd (serve ts q)) = 0"
    using assms(2,3)
  proof (induction ts q rule: serve.induct)
    case (1 q)
    then show ?case by (simp add: queue_size_def)
  next
    case (2 t1 t2 t3 ts q)
    then obtain x xs where q: "q_pending q = x # xs" by (cases "q_pending q") auto
    note one = serve_one [OF "2.prems"(1) q, of t1 t2 t3]
    obtain q1 where d: "dequeue tx_ok t1 t2 q = (Inr (Some x), q1)" using one by (metis prod.collapse)
    show ?case
      using "2.IH" [OF d [symmetric]] "2.prems" one q d
      by (auto split: prod.splits)
  qed
  moreover have "q_pending q = buckets_of (q_pending q) PrioFullIndex @ buckets_of (q_pending q) PrioIncremental
         @ buckets_of (q_pending q) PrioHotUpdate"
    using assms(1) by (intro buckets_concat) (simp add: pending_ok_def)
  ultimately show ?thesis by metis
qed

theorem serve_drains_queue_witness:
  "queue_size (snd (serve [([], [], []), ([], [], [])] (foldl q_step sample_queue (take 2 sample_events)))) = 0"
proof -
  let ?q = "foldl q_step sample_queue (take 2 sample_events)"
  have "pending_ok (q_pending ?q)"
    by (rule pending_queue.run_inv) (simp add: pending_ok_def sample_queue_def)
  moreover have "q_active ?q = None" "length (q_pending ?q) = 2" by (simp_all add: sample_simps)
  ultimately show ?thesis
    using serve_drains_queue [of ?q "[([], [], []), ([], [], [])]"] by simp
qed

text \<open>
  The rollback of a failed dequeue is not atomic with its reservation. If an operation of
  the same type and root directory is enqueued while the transaction runs, the rollback puts
  the superseded operation back in front of it, and the queue holds two entries that
  \<^verbatim>\<open>enqueue\<close> would have merged.
\<close>

theorem dequeue_rollback_race:
  assumes "q_active q = None" "q_pending q = x # xs" "length xs < MAX_PENDING_OPERATIONS"
  shows "let q1 = snd (dequeue_reserve now q);
             q2 = snd (enqueue now' oid (po_operation_type x) (po_root_dir x) prio q1);
             q3 = dequeue_rollback x q2
         in \<not> distinct (map po_key (q_pending q3))"
proof -
  let ?new = "\<lparr>po_project_id = q_project_id q, po_operation_id = oid, po_operation_type = po_operation_type x,
     po_priority = prio, po_root_dir = po_root_dir x, po_created_at = now', po_status = ''pending''\<rparr>"
  let ?kept = "filter (\<lambda>y. \<not> (po_operation_type y = po_operation_type x \<and> po_root_dir y = po_root_dir x)) xs"
  have "length (insert_by_priority ?new ?kept) \<le> MAX_PENDING_OPERATIONS"
    using assms(3) by (simp only: length_insert_by_priority) (meson Suc_leI le_less_trans length_filter_le)
  then have "drop_lowest (insert_by_priority ?new ?kept) = insert_by_priority ?new ?kept"
    by (simp add: drop_lowest_def)
  with assms(1,2) show ?thesis
    by (simp add: dequeue_reserve_def enqueue_def dequeue_rollback_def Let_def)
qed

theorem dequeue_rollback_race_witness:
  "let q = foldl q_step sample_queue (take 1 sample_events);
       q1 = snd (dequeue_reserve ''t'' q);
       q2 = snd (enqueue ''t'' ''op3'' FullIndex ''/r'' PrioFullIndex q1)
   in \<not> distinct (map po_key (q_pending (dequeue_rollback (hd (q_pending q)) q2)))"
proof -
  let ?q = "foldl q_step sample_queue (take 1 sample_events)"
  have "map (\<lambda>x. (po_operation_type x, po_root_dir x)) (q_pending ?q) = [(FullIndex, ''/r'')]"
    by (simp add: sample_simps)
  then obtain x where x: "q_pending ?q = [x]" "po_operation_type x = FullIndex" "po_root_dir x = ''/r''"
    by (cases "q_pending ?q") auto
  have "q_active ?q = None" by (simp add: sample_simps)
  from dequeue_rollback_race [OF this x(1), of "''t''" "''t''" "''op3''" PrioFullIndex] x
  show ?thesis by (simp add: MAX_PENDING_OPERATIONS_def Let_def)
qed

text \<open>
  \<^verbatim>\<open>validate_checkpoint\<close> and \<^verbatim>\<open>OperationKind\<close> disagree. Every kind survives the round trip
  through its stored text, but a checkpoint that is otherwise valid is accepted exactly when
  its operation is not a configuration change.
\<close>

theorem validate_rejects_config_change:
  assumes "cp_operation_id cp \<noteq> []" "cp_current_phase cp \<noteq> []"
    and "parse (cp_created_at cp) = None" "parse (cp_updated_at cp) = None"
    and "cp_operation_type cp = kind_as_str k"
  shows "kind_from_str (cp_operation_type cp) = Inr k
     \<and> (validate_checkpoint parse cp = Inr () \<longleftrightarrow> k \<noteq> ConfigChange)"
  using assms by (cases k) (simp_all add: validate_checkpoint_ok_iff kind_from_str_def)

theorem validate_rejects_config_change_witness:
  "validate_checkpoint (\<lambda>_. None) (sample_checkpoint\<lparr>cp_operation_type := ''config_change''\<rparr>) \<noteq> Inr ()"
  using validate_rejects_config_change [of "sample_checkpoint\<lparr>cp_operation_type := ''config_change''\<rparr>"
      "\<lambda>_. None" ConfigChange]
  by (simp add: sample_checkpoint_def)

end
