(* ===== verification/Checkpoint_Manager.thy ===== *)
theory Checkpoint_Manager
  imports Operation_Queue Rust_Strings
begin

text \<open>
  The checkpoint manager (\<^verbatim>\<open>cce-orchestrator/src/operation/checkpoint/mod.rs\<close>) and the file difference
  manager (\<^verbatim>\<open>operation/file_diff.rs\<close>) over the checkpoint repository. A manager is its project id;
  the database is passed. Each operation that writes runs in a transaction; a fault of the
  driver is an argument per statement. The payload encoding (\<^verbatim>\<open>payload.rs\<close>) is not modelled.
\<close>

section \<open>Transactions\<close>

definition manager_transaction ::
  "string option \<Rightarrow> string option \<Rightarrow> (Db \<Rightarrow> 'a result \<times> Db) \<Rightarrow> Db \<Rightarrow> 'a result \<times> Db" where
  "manager_transaction bf cf body db =
     (case bf of
        Some e \<Rightarrow> (Inl (Sqlite (''Failed to create transaction: '' @ e)), db)
      | None \<Rightarrow> (case body db of
            (Inl e, _) \<Rightarrow> (Inl e, db)
          | (Inr a, db') \<Rightarrow> (case cf of
                Some e \<Rightarrow> (Inl (Sqlite (''Failed to commit transaction: '' @ e)), db)
              | None \<Rightarrow> (Inr a, db'))))"

text \<open>The sequence of two statements: the second runs when the first succeeds.\<close>

definition and_then :: "'a result \<times> Db \<Rightarrow> ('a \<Rightarrow> Db \<Rightarrow> 'b result \<times> Db) \<Rightarrow> 'b result \<times> Db" where
  "and_then r k = (case r of (Inl e, db) \<Rightarrow> (Inl e, db) | (Inr a, db) \<Rightarrow> k a db)"

section \<open>Creation\<close>

definition cm_new_for_project :: "int \<Rightarrow> int option" where
  "cm_new_for_project project_id = (if 0 < project_id then Some project_id else None)"

record CreateCheckpointParams =
  ccp_operation_id :: string
  ccp_operation_type :: OperationKind
  ccp_root_dir :: string
  ccp_total_files :: u32
  ccp_batch_size :: u32
  ccp_file_list_hash :: string

fun checkpoint_priority :: "OperationKind \<Rightarrow> int" where
  "checkpoint_priority FullIndex = 3"
| "checkpoint_priority Incremental = 2"
| "checkpoint_priority HotUpdate = 1"
| "checkpoint_priority ConfigChange = 1"

definition fresh_checkpoint :: "string \<Rightarrow> int \<Rightarrow> CreateCheckpointParams \<Rightarrow> CheckpointRecord" where
  "fresh_checkpoint now p params =
     \<lparr>cp_id = None, cp_project_id = p, cp_operation_id = ccp_operation_id params,
      cp_operation_type = kind_as_str (ccp_operation_type params), cp_root_dir = ccp_root_dir params,
      cp_total_files = ccp_total_files params, cp_batch_size = ccp_batch_size params,
      cp_current_batch_index = 0, cp_current_phase = ''Scanning'',
      cp_file_list_hash = Some (ccp_file_list_hash params), cp_created_at = now, cp_updated_at = now,
      cp_last_error = None, cp_failure_count = 0, cp_status = InProgress, cp_active_flag = False,
      cp_priority = checkpoint_priority (ccp_operation_type params), cp_last_heartbeat = Some now,
      cp_failed_at = None\<rparr>"

definition cm_create_checkpoint ::
  "string option \<Rightarrow> sql_drv \<Rightarrow> string option \<Rightarrow> string \<Rightarrow> int \<Rightarrow> CreateCheckpointParams \<Rightarrow> Db
     \<Rightarrow> CheckpointRecord result \<times> Db" where
  "cm_create_checkpoint bf drv cf now p params db =
     (let checkpoint = fresh_checkpoint now p params
      in manager_transaction bf cf
           (\<lambda>db. and_then (create_checkpoint drv p checkpoint db) (\<lambda>_ db. (Inr checkpoint, db))) db)"

definition cm_create_batch_checkpoint ::
  "string option \<Rightarrow> sql_drv \<Rightarrow> string option \<Rightarrow> (nat \<Rightarrow> string) \<Rightarrow> int \<Rightarrow> string \<Rightarrow> u32 \<Rightarrow> string \<Rightarrow> string \<Rightarrow> u32 \<Rightarrow> Db
     \<Rightarrow> BatchCheckpointRecord result \<times> Db" where
  "cm_create_batch_checkpoint bf drv cf now p operation_id batch_index first_file last_file file_count db =
     (let batch = \<lparr>bc_id = None, bc_operation_id = operation_id, bc_batch_index = batch_index,
            bc_first_file = first_file, bc_last_file = last_file, bc_file_count = file_count,
            bc_processed_files = 0, bc_failed_files = 0, bc_entities_extracted = 0, bc_relations_found = 0,
            bc_chunks_generated = 0, bc_vectors_stored = 0, bc_start_time = now 0, bc_end_time = None,
            bc_duration_ms = None, bc_created_at = now 1, bc_updated_at = now 2\<rparr>
      in manager_transaction bf cf
           (\<lambda>db. and_then (insert_batch_checkpoint drv p batch db) (\<lambda>_ db. (Inr batch, db))) db)"

definition cm_create_file_checkpoint :: "(nat \<Rightarrow> string) \<Rightarrow> string \<Rightarrow> u32 \<Rightarrow> string \<Rightarrow> FileCheckpointRecord" where
  "cm_create_file_checkpoint now operation_id batch_index file_path =
     \<lparr>fc_id = None, fc_operation_id = operation_id, fc_batch_index = batch_index, fc_file_path = file_path,
      fc_file_id = None, fc_language = None, fc_file_size = None, fc_content_hash = None, fc_parsed_data = None,
      fc_parse_error = None, fc_summary_data = None, fc_embedding_count = 0, fc_bm25_doc_id = None,
      fc_export_path = None, fc_render_fingerprint = None, fc_module_progress = None,
      fc_created_at = now 0, fc_updated_at = now 1\<rparr>"

definition cm_save_file_checkpoint ::
  "string option \<Rightarrow> sql_drv \<Rightarrow> sql_drv \<Rightarrow> string option \<Rightarrow> string \<Rightarrow> string \<Rightarrow> int \<Rightarrow> FileCheckpointRecord \<Rightarrow> Db
     \<Rightarrow> unit result \<times> Db" where
  "cm_save_file_checkpoint bf q drv cf now now' p f db =
     manager_transaction bf cf (upsert_file_checkpoint q drv now now' p f) db"

section \<open>Status\<close>

definition cm_update_checkpoint_status ::
  "string option \<Rightarrow> sql_drv \<Rightarrow> string option \<Rightarrow> string \<Rightarrow> int \<Rightarrow> string \<Rightarrow> CheckpointStatus \<Rightarrow> Db \<Rightarrow> unit result \<times> Db" where
  "cm_update_checkpoint_status bf drv cf now p operation_id status db =
     manager_transaction bf cf (update_checkpoint_status drv now p operation_id status) db"

definition cm_update_current_batch_index ::
  "string option \<Rightarrow> sql_drv \<Rightarrow> string option \<Rightarrow> string \<Rightarrow> int \<Rightarrow> string \<Rightarrow> u32 \<Rightarrow> Db \<Rightarrow> unit result \<times> Db" where
  "cm_update_current_batch_index bf drv cf now p operation_id batch_index db =
     manager_transaction bf cf (update_current_batch_index drv now p operation_id batch_index) db"

text \<open>
  Read the row, change it, write it back, in one transaction; a missing row is skipped. \<open>g\<close>
  drives the query, \<open>drv\<close> the update, and \<open>now'\<close> is the clock of the repository.
\<close>

definition rewrite_checkpoint ::
  "string option \<Rightarrow> sql_drv \<Rightarrow> sql_drv \<Rightarrow> string option \<Rightarrow> string \<Rightarrow> int \<Rightarrow> string
     \<Rightarrow> (CheckpointRecord \<Rightarrow> CheckpointRecord) \<Rightarrow> Db \<Rightarrow> unit result \<times> Db" where
  "rewrite_checkpoint bf g drv cf now' p operation_id change db =
     manager_transaction bf cf
       (\<lambda>db. case get_checkpoint g p operation_id db of
               Inl e \<Rightarrow> (Inl e, db)
             | Inr None \<Rightarrow> (Inr (), db)
             | Inr (Some cp) \<Rightarrow> update_checkpoint drv now' p (change cp) db) db"

definition mark_operation_completed ::
  "string option \<Rightarrow> sql_drv \<Rightarrow> sql_drv \<Rightarrow> string option \<Rightarrow> string \<Rightarrow> string \<Rightarrow> int \<Rightarrow> string \<Rightarrow> Db \<Rightarrow> unit result \<times> Db" where
  "mark_operation_completed bf g drv cf now now' p operation_id db =
     rewrite_checkpoint bf g drv cf now' p operation_id
       (\<lambda>cp. cp\<lparr>cp_status := Completed, cp_updated_at := now\<rparr>) db"

definition mark_operation_failed ::
  "string option \<Rightarrow> sql_drv \<Rightarrow> sql_drv \<Rightarrow> string option \<Rightarrow> string \<Rightarrow> string \<Rightarrow> string \<Rightarrow> int \<Rightarrow> string \<Rightarrow> string \<Rightarrow> Db
     \<Rightarrow> unit result \<times> Db" where
  "mark_operation_failed bf g drv cf now failed now' p operation_id error db =
     rewrite_checkpoint bf g drv cf now' p operation_id
       (\<lambda>cp. cp\<lparr>cp_status := Failed, cp_last_error := Some error, cp_updated_at := now,
                 cp_failed_at := Some failed, cp_active_flag := False\<rparr>) db"

text \<open>The latest unfinished checkpoint of the kind and root, whatever operation was asked for.\<close>

definition validate_and_recover_checkpoint ::
  "sql_drv \<Rightarrow> (string \<Rightarrow> string option) \<Rightarrow> int \<Rightarrow> string \<Rightarrow> OperationKind \<Rightarrow> string \<Rightarrow> Db
     \<Rightarrow> CheckpointRecord option result" where
  "validate_and_recover_checkpoint drv parse_rfc3339 p operation_id kind root_dir db =
     (case get_latest_incomplete_by_type drv p (kind_as_str kind) root_dir db of
        Inl e \<Rightarrow> Inl e
      | Inr None \<Rightarrow> Inr None
      | Inr (Some cp) \<Rightarrow> (case validate_checkpoint parse_rfc3339 cp of
            Inl e \<Rightarrow> Inl e
          | Inr _ \<Rightarrow> Inr (Some cp)))"

section \<open>Work units\<close>

fun project_mismatch :: "int \<Rightarrow> WorkUnitCheckpointRecord list \<Rightarrow> StorageError option" where
  "project_mismatch p [] = None"
| "project_mismatch p (w # ws) =
     (if wu_project_id w \<noteq> p
      then Some (Validation (''project_id mismatch: expected '' @ show_int p @ '' got '' @ show_int (wu_project_id w)))
      else project_mismatch p ws)"

definition cm_insert_work_unit ::
  "string option \<Rightarrow> sql_drv \<Rightarrow> string option \<Rightarrow> int \<Rightarrow> WorkUnitCheckpointRecord \<Rightarrow> Db \<Rightarrow> nat result \<times> Db" where
  "cm_insert_work_unit bf drv cf p w db =
     (case project_mismatch p [w] of
        Some e \<Rightarrow> (Inl e, db)
      | None \<Rightarrow> manager_transaction bf cf (insert_work_unit drv w) db)"

text \<open>One statement per record, the first failure ends the loop; \<open>drvs\<close> drives the n-th one.\<close>

fun insert_all_units :: "(nat \<Rightarrow> sql_drv) \<Rightarrow> WorkUnitCheckpointRecord list \<Rightarrow> Db \<Rightarrow> unit result \<times> Db" where
  "insert_all_units drvs [] db = (Inr (), db)"
| "insert_all_units drvs (w # ws) db =
     and_then (insert_work_unit (drvs 0) w db) (\<lambda>_ db. insert_all_units (\<lambda>n. drvs (Suc n)) ws db)"

definition insert_work_units ::
  "string option \<Rightarrow> (nat \<Rightarrow> sql_drv) \<Rightarrow> string option \<Rightarrow> int \<Rightarrow> WorkUnitCheckpointRecord list \<Rightarrow> Db \<Rightarrow> unit result \<times> Db" where
  "insert_work_units bf drvs cf p ws db =
     (if ws = [] then (Inr (), db)
      else case project_mismatch p ws of
             Some e \<Rightarrow> (Inl e, db)
           | None \<Rightarrow> manager_transaction bf cf (insert_all_units drvs ws) db)"

definition cm_update_work_unit_status ::
  "string option \<Rightarrow> sql_drv \<Rightarrow> string option \<Rightarrow> string \<Rightarrow> int \<Rightarrow> string \<Rightarrow> string \<Rightarrow> string \<Rightarrow> WorkUnitStatus \<Rightarrow> Db
     \<Rightarrow> unit result \<times> Db" where
  "cm_update_work_unit_status bf drv cf now p operation_id stage h status db =
     manager_transaction bf cf (update_work_unit_status drv now p operation_id stage h status) db"

fun update_all_units ::
  "(nat \<Rightarrow> sql_drv) \<Rightarrow> (nat \<Rightarrow> string) \<Rightarrow> int \<Rightarrow> string \<Rightarrow> string \<Rightarrow> string list \<Rightarrow> WorkUnitStatus \<Rightarrow> Db \<Rightarrow> unit result \<times> Db" where
  "update_all_units drvs now p oid stage [] status db = (Inr (), db)"
| "update_all_units drvs now p oid stage (h # hs) status db =
     and_then (update_work_unit_status (drvs 0) (now 0) p oid stage h status db)
       (\<lambda>_ db. update_all_units (\<lambda>n. drvs (Suc n)) (\<lambda>n. now (Suc n)) p oid stage hs status db)"

definition update_work_unit_statuses ::
  "string option \<Rightarrow> (nat \<Rightarrow> sql_drv) \<Rightarrow> string option \<Rightarrow> (nat \<Rightarrow> string) \<Rightarrow> int \<Rightarrow> string \<Rightarrow> string \<Rightarrow> string list
     \<Rightarrow> WorkUnitStatus \<Rightarrow> Db \<Rightarrow> unit result \<times> Db" where
  "update_work_unit_statuses bf drvs cf now p operation_id stage hs status db =
     (if hs = [] then (Inr (), db)
      else manager_transaction bf cf (update_all_units drvs now p operation_id stage hs status) db)"

section \<open>File differences\<close>

definition has_file_list_changed :: "sql_drv \<Rightarrow> int \<Rightarrow> string \<Rightarrow> string \<Rightarrow> Db \<Rightarrow> bool result" where
  "has_file_list_changed drv p operation_id current_file_list_hash db =
     (case get_checkpoint drv p operation_id db of
        Inl e \<Rightarrow> Inl e
      | Inr None \<Rightarrow> Inr True
      | Inr (Some cp) \<Rightarrow> (case cp_file_list_hash cp of
            Some previous_hash \<Rightarrow> Inr (previous_hash \<noteq> current_file_list_hash)
          | None \<Rightarrow> Inr True))"

definition update_file_list_hash ::
  "string option \<Rightarrow> sql_drv \<Rightarrow> sql_drv \<Rightarrow> string option \<Rightarrow> string \<Rightarrow> string \<Rightarrow> int \<Rightarrow> string \<Rightarrow> string \<Rightarrow> Db \<Rightarrow> unit result \<times> Db" where
  "update_file_list_hash bf g drv cf now now' p operation_id new_file_list_hash db =
     rewrite_checkpoint bf g drv cf now' p operation_id
       (\<lambda>cp. cp\<lparr>cp_file_list_hash := Some new_file_list_hash, cp_updated_at := now\<rparr>) db"

section \<open>Transactions are all or nothing\<close>

lemma manager_transaction_error:
  "fst (manager_transaction bf cf body db) = Inl e \<Longrightarrow> snd (manager_transaction bf cf body db) = db"
  by (auto simp: manager_transaction_def split: option.splits prod.splits sum.splits)

lemma manager_transaction_ok:
  "manager_transaction bf cf body db = (Inr a, db') \<longleftrightarrow> bf = None \<and> cf = None \<and> body db = (Inr a, db')"
  by (auto simp: manager_transaction_def split: option.splits prod.splits sum.splits)

lemma and_then_ok: "and_then r k = (Inr b, db') \<longleftrightarrow> (\<exists>a db. r = (Inr a, db) \<and> k a db = (Inr b, db'))"
  by (auto simp: and_then_def split: prod.splits sum.splits)

lemma insert_work_unit_ok:
  assumes "insert_work_unit drv w db = (Inr i, db')"
  shows "db' = db\<lparr>unit_tbl := unit_tbl db @ [w\<lparr>wu_id := Some (Suc (unit_seq db))\<rparr>], unit_seq := Suc (unit_seq db)\<rparr>"
    "i = Suc (unit_seq db)"
  using assms by (auto simp: insert_work_unit_def Let_def split: sum.splits)

text \<open>The rows that a batch of inserts appends.\<close>

fun numbered_units :: "nat \<Rightarrow> WorkUnitCheckpointRecord list \<Rightarrow> WorkUnitCheckpointRecord list" where
  "numbered_units n [] = []"
| "numbered_units n (w # ws) = w\<lparr>wu_id := Some (Suc n)\<rparr> # numbered_units (Suc n) ws"

lemma insert_all_units_ok:
  "insert_all_units drvs ws db = (Inr u, db') \<Longrightarrow>
     db' = db\<lparr>unit_tbl := unit_tbl db @ numbered_units (unit_seq db) ws, unit_seq := unit_seq db + length ws\<rparr>"
proof (induction ws arbitrary: drvs db)
  case (Cons w ws)
  then obtain i db1 where "insert_work_unit (drvs 0) w db = (Inr i, db1)"
    and rest: "insert_all_units (\<lambda>n. drvs (Suc n)) ws db1 = (Inr u, db')" by (auto simp: and_then_ok)
  from insert_work_unit_ok(1) [OF this(1)] Cons.IH [OF rest] show ?case by simp
qed simp

section \<open>Rewriting a checkpoint\<close>

lemma find_unique:
  assumes "distinct (map f xs)" "x \<in> set xs" "f x = k"
  shows "find (\<lambda>y. f y = k) xs = Some x"
  using assms by (induction xs) (auto simp: image_iff)

lemma update_checkpoint_ok:
  assumes "update_checkpoint drv now p cp db = (Inr u, db')"
  shows "db' = db\<lparr>checkpoint_tbl := update_where (\<lambda>r. cp_key r = (p, cp_operation_id cp))
     (\<lambda>r. cp\<lparr>cp_id := cp_id r, cp_project_id := cp_project_id r, cp_operation_id := cp_operation_id r,
             cp_created_at := cp_created_at r, cp_updated_at := now\<rparr>) (checkpoint_tbl db)\<rparr>"
  using assms by (auto simp: update_checkpoint_def Let_def split: sum.splits)

lemma update_where_cong: "(\<And>r. r \<in> set rs \<Longrightarrow> p r \<Longrightarrow> u r = v r) \<Longrightarrow> update_where p u rs = update_where p v rs"
  by (simp add: update_where_def)

lemma update_where_none: "(\<And>r. r \<in> set rs \<Longrightarrow> \<not> p r) \<Longrightarrow> update_where p u rs = rs"
  by (simp add: update_where_def map_idI)

text \<open>
  With distinct keys, a rewrite that succeeds applies the change to the operation's row and to
  no other; the change must keep the key and the creation time.
\<close>

lemma rewrite_checkpoint_ok:
  assumes ok: "rewrite_checkpoint bf g drv cf now' p oid change db = (Inr u, db')"
    and keys: "distinct (map cp_key (checkpoint_tbl db))"
    and keep: "\<And>r. cp_id (change r) = cp_id r \<and> cp_key (change r) = cp_key r \<and> cp_created_at (change r) = cp_created_at r"
  shows "db' = db\<lparr>checkpoint_tbl := update_where (\<lambda>r. cp_key r = (p, oid)) (\<lambda>r. (change r)\<lparr>cp_updated_at := now'\<rparr>) (checkpoint_tbl db)\<rparr>"
proof -
  let ?find = "find (\<lambda>r. cp_key r = (p, oid)) (checkpoint_tbl db)"
  from ok have body: "(case get_checkpoint g p oid db of
        Inl e \<Rightarrow> (Inl e, db)
      | Inr None \<Rightarrow> (Inr (), db)
      | Inr (Some cp) \<Rightarrow> update_checkpoint drv now' p (change cp) db) = (Inr u, db')"
    by (simp add: rewrite_checkpoint_def manager_transaction_ok)
  show ?thesis
  proof (cases ?find)
    case None
    then have "\<And>r. r \<in> set (checkpoint_tbl db) \<Longrightarrow> cp_key r \<noteq> (p, oid)" by (auto simp: find_None_iff)
    with None body show ?thesis
      by (auto simp: get_checkpoint_def query_fails_def update_where_none split: option.splits)
  next
    case (Some cp)
    then have cp: "cp \<in> set (checkpoint_tbl db)" "cp_key cp = (p, oid)" by (auto simp: find_Some_iff)
    have uniq: "r = cp" if "r \<in> set (checkpoint_tbl db)" "cp_key r = (p, oid)" for r
      using find_unique [OF keys that] find_unique [OF keys cp] by simp
    have "update_checkpoint drv now' p (change cp) db = (Inr u, db')"
      using body Some by (auto simp: get_checkpoint_def query_fails_def split: option.splits)
    from update_checkpoint_ok [OF this] have "db' = db\<lparr>checkpoint_tbl := update_where (\<lambda>r. cp_key r = (p, oid))
       (\<lambda>r. (change cp)\<lparr>cp_id := cp_id r, cp_project_id := cp_project_id r, cp_operation_id := cp_operation_id r,
               cp_created_at := cp_created_at r, cp_updated_at := now'\<rparr>) (checkpoint_tbl db)\<rparr>"
      using keep [of cp] cp(2) by simp
    also have "update_where (\<lambda>r. cp_key r = (p, oid))
       (\<lambda>r. (change cp)\<lparr>cp_id := cp_id r, cp_project_id := cp_project_id r, cp_operation_id := cp_operation_id r,
               cp_created_at := cp_created_at r, cp_updated_at := now'\<rparr>) (checkpoint_tbl db) =
       update_where (\<lambda>r. cp_key r = (p, oid)) (\<lambda>r. (change r)\<lparr>cp_updated_at := now'\<rparr>) (checkpoint_tbl db)"
    proof (rule update_where_cong)
      fix r
      assume "r \<in> set (checkpoint_tbl db)" "cp_key r = (p, oid)"
      then have "r = cp" by (rule uniq)
      with keep [of cp] show "(change cp)\<lparr>cp_id := cp_id r, cp_project_id := cp_project_id r, cp_operation_id := cp_operation_id r,
               cp_created_at := cp_created_at r, cp_updated_at := now'\<rparr> = (change r)\<lparr>cp_updated_at := now'\<rparr>"
        by (cases "change cp") simp
    qed
    finally show ?thesis .
  qed
qed

end
