(* ===== verification/File_Indexer.thy ===== *)
theory File_Indexer
  imports Checkpoint_Manager Project_Path "HOL-Library.Product_Lexorder" "HOL-Library.Multiset"
begin

text \<open>
  The file indexer (\<^verbatim>\<open>cce-orchestrator/src/index/file_indexer.rs\<close>): the sorted file list of a scan, its
  batches, and the checks that decide whether a checkpoint of an earlier run still fits the
  files. The scan is an argument (its entries and failures, or an error), as is the digest of the
  file list (\<^verbatim>\<open>DefaultHasher\<close>, whose algorithm is not specified). A division by a batch size of
  zero panics: such a run is \<open>None\<close>. Error texts are the constructors of \<open>RecoveryError\<close>.
\<close>

section \<open>Files and their order\<close>

text \<open>Of \<^verbatim>\<open>FileEntry\<close> (\<^verbatim>\<open>cce-scanner/src/models.rs\<close>) the fields that are read here.\<close>

record FileEntry =
  fe_path :: string
  fe_relative_path :: string
  fe_size :: u64
  fe_content_hash :: "string option"

text \<open>
  Paths compare component by component, and a component by its kind first: the root, a leading
  dot, the parent, a name.
\<close>

definition component_rank :: "string \<Rightarrow> nat" where
  "component_rank c = (if c = ''/'' then 1 else if c = ''.'' then 2 else if c = ''..'' then 3 else 4)"

definition path_key :: "string \<Rightarrow> (nat \<times> string) list" where
  "path_key p = map (\<lambda>c. (component_rank c, c)) (path_components p)"

definition sort_files :: "FileEntry list \<Rightarrow> FileEntry list" where
  "sort_files files = sort_key (\<lambda>f. path_key (fe_path f)) files"

record FileIndexer =
  fx_sorted_files :: "FileEntry list"
  fx_file_list_hash :: string
  fx_checkpoint :: CheckpointRecord
  fx_scan_failures :: "(string \<times> string) list"

type_synonym scan_report = "FileEntry list \<times> (string \<times> string) list"
type_synonym list_digest = "(string \<times> string option) list \<Rightarrow> string"

definition compute_file_list_hash :: "list_digest \<Rightarrow> FileEntry list \<Rightarrow> string" where
  "compute_file_list_hash digest files = digest (map (\<lambda>f. (fe_path f, fe_content_hash f)) files)"

section \<open>Initialisation\<close>

text \<open>
  \<open>millis\<close> is the millisecond clock in the operation id, \<open>now\<close> the clock of the checkpoint manager
  and of the two timestamps of the in-memory record; \<open>cm\<close> is the project of the checkpoint
  manager, if one is configured.
\<close>

definition fx_initialize ::
  "string option \<Rightarrow> sql_drv \<Rightarrow> string option \<Rightarrow> list_digest \<Rightarrow> string + scan_report \<Rightarrow> string \<Rightarrow> (nat \<Rightarrow> string)
     \<Rightarrow> string \<Rightarrow> u64 \<Rightarrow> int option \<Rightarrow> Db \<Rightarrow> FileIndexer result \<times> Db" where
  "fx_initialize bf drv cf digest scan millis now root_dir batch_size cm db =
     (case scan of
        Inl e \<Rightarrow> (Inl (Query (''Failed to scan files: '' @ e)), db)
      | Inr (entries, failures) \<Rightarrow>
          let files = sort_files entries;
              file_list_hash = compute_file_list_hash digest files;
              operation_id = ''full_'' @ millis;
              params = \<lparr>ccp_operation_id = operation_id, ccp_operation_type = FullIndex, ccp_root_dir = root_dir,
                        ccp_total_files = word_of_nat (length files), ccp_batch_size = ucast batch_size,
                        ccp_file_list_hash = file_list_hash\<rparr>;
              checkpoint = (\<lambda>p. (fresh_checkpoint (now 1) p params)
                 \<lparr>cp_updated_at := now 2, cp_last_heartbeat := None\<rparr>);
              fx = (\<lambda>p. \<lparr>fx_sorted_files = files, fx_file_list_hash = file_list_hash, fx_checkpoint = checkpoint p,
                         fx_scan_failures = failures\<rparr>)
          in case cm of
               None \<Rightarrow> (Inr (fx 0), db)
             | Some p \<Rightarrow> and_then (cm_create_checkpoint bf drv cf (now 0) p params db) (\<lambda>_ db. (Inr (fx p), db)))"

section \<open>Batches\<close>

datatype RecoveryError =
    BatchSizeMismatch
  | RootMismatch
  | FileCountChanged
  | HashMismatch
  | BatchOutOfRange nat nat
  | BoundaryMismatch u32
  | ScanFailed string

definition total_batches :: "FileIndexer \<Rightarrow> nat option" where
  "total_batches fx =
     (let n = length (fx_sorted_files fx); b = unat (cp_batch_size (fx_checkpoint fx))
      in if b = 0 then None else Some (n div b + (if n mod b \<noteq> 0 then 1 else 0)))"

text \<open>The products stay below two to the 64th, since both factors are 32-bit in every call.\<close>

definition get_batch :: "FileIndexer \<Rightarrow> nat \<Rightarrow> (RecoveryError + FileEntry list) option" where
  "get_batch fx batch_index =
     (let b = unat (cp_batch_size (fx_checkpoint fx));
          n = length (fx_sorted_files fx);
          start = batch_index * b;
          stop = min ((batch_index + 1) * b) n
      in if start \<ge> n
         then map_option (\<lambda>t. Inl (BatchOutOfRange batch_index t)) (total_batches fx)
         else Some (Inr (take (stop - start) (drop start (fx_sorted_files fx)))))"

section \<open>Validation\<close>

definition first_path :: "FileEntry list \<Rightarrow> string" where
  "first_path fs = (case fs of [] \<Rightarrow> [] | f # _ \<Rightarrow> fe_path f)"

definition last_path :: "FileEntry list \<Rightarrow> string" where
  "last_path fs = (if fs = [] then [] else fe_path (last fs))"

definition validate_batch_boundary ::
  "FileIndexer \<Rightarrow> u32 \<Rightarrow> BatchCheckpointRecord \<Rightarrow> (RecoveryError + unit) option" where
  "validate_batch_boundary fx batch_index recorded =
     (case get_batch fx (unat batch_index) of
        None \<Rightarrow> None
      | Some (Inl e) \<Rightarrow> Some (Inl e)
      | Some (Inr batch) \<Rightarrow>
          Some (if bc_first_file recorded \<noteq> first_path batch \<or> bc_last_file recorded \<noteq> last_path batch
                then Inl (BoundaryMismatch batch_index) else Inr ()))"

text \<open>
  The loop over the two probes. A batch without a record is skipped; a match clears the failure
  and ends the loop; a mismatch is kept and the loop goes on.
\<close>

fun probe_boundaries ::
  "FileIndexer \<Rightarrow> BatchCheckpointRecord list \<Rightarrow> u32 list \<Rightarrow> RecoveryError option \<Rightarrow> RecoveryError option option" where
  "probe_boundaries fx records [] failure = Some failure"
| "probe_boundaries fx records (probe # probes) failure =
     (case find (\<lambda>r. bc_batch_index r = probe) records of
        None \<Rightarrow> probe_boundaries fx records probes failure
      | Some r \<Rightarrow> (case validate_batch_boundary fx probe r of
            None \<Rightarrow> None
          | Some (Inr _) \<Rightarrow> Some None
          | Some (Inl e) \<Rightarrow> probe_boundaries fx records probes (Some e)))"

definition probes_from :: "u32 \<Rightarrow> u32 list" where
  "probes_from start_batch = [start_batch, if start_batch = 0 then 0 else start_batch - 1]"

definition fx_validate_checkpoint ::
  "FileIndexer \<Rightarrow> CheckpointRecord \<Rightarrow> BatchCheckpointRecord list \<Rightarrow> (RecoveryError + unit) option" where
  "fx_validate_checkpoint fx checkpoint records =
     (if cp_batch_size checkpoint \<noteq> cp_batch_size (fx_checkpoint fx) then Some (Inl BatchSizeMismatch)
      else if cp_root_dir checkpoint \<noteq> cp_root_dir (fx_checkpoint fx) then Some (Inl RootMismatch)
      else if cp_total_files checkpoint \<noteq> word_of_nat (length (fx_sorted_files fx)) then Some (Inl FileCountChanged)
      else if (case cp_file_list_hash checkpoint of Some h \<Rightarrow> h \<noteq> fx_file_list_hash fx | None \<Rightarrow> False)
        then Some (Inl HashMismatch)
      else map_option (\<lambda>failure. case failure of Some e \<Rightarrow> Inl e | None \<Rightarrow> Inr ())
             (probe_boundaries fx records (probes_from (cp_current_batch_index checkpoint)) None))"

definition validate_existing_checkpoint ::
  "CheckpointRecord \<Rightarrow> FileEntry list \<Rightarrow> string \<Rightarrow> u64 \<Rightarrow> string \<Rightarrow> RecoveryError + unit" where
  "validate_existing_checkpoint checkpoint files file_list_hash batch_size root_dir =
     (if cp_root_dir checkpoint \<noteq> root_dir then Inl RootMismatch
      else if ucast (cp_batch_size checkpoint) \<noteq> batch_size then Inl BatchSizeMismatch
      else if unat (cp_total_files checkpoint) \<noteq> length files then Inl FileCountChanged
      else case cp_file_list_hash checkpoint of
             Some h \<Rightarrow> if h \<noteq> file_list_hash then Inl HashMismatch else Inr ()
           | None \<Rightarrow> Inr ())"

definition recover ::
  "list_digest \<Rightarrow> string + scan_report \<Rightarrow> string \<Rightarrow> u64 \<Rightarrow> CheckpointRecord \<Rightarrow> RecoveryError + FileIndexer" where
  "recover digest scan root_dir batch_size existing_checkpoint =
     (case scan of
        Inl e \<Rightarrow> Inl (ScanFailed e)
      | Inr (entries, failures) \<Rightarrow>
          let files = sort_files entries; file_list_hash = compute_file_list_hash digest files
          in case validate_existing_checkpoint existing_checkpoint files file_list_hash batch_size root_dir of
               Inl e \<Rightarrow> Inl e
             | Inr _ \<Rightarrow> Inr \<lparr>fx_sorted_files = files, fx_file_list_hash = file_list_hash,
                             fx_checkpoint = existing_checkpoint, fx_scan_failures = failures\<rparr>)"

section \<open>Batches partition the files\<close>

lemma ceil_div_bounds:
  assumes "0 < (b :: nat)"
  shows "i < n div b + (if n mod b \<noteq> 0 then 1 else 0) \<longleftrightarrow> i * b < n"
proof
  assume l: "i < n div b + (if n mod b \<noteq> 0 then 1 else 0)"
  show "i * b < n"
  proof (cases "n mod b = 0")
    case True
    with l have "i < n div b" by simp
    with assms True show ?thesis by (metis div_mult_self_is_m less_mult_imp_div_less mult_less_mono1 mod_0_imp_dvd dvd_div_mult_self)
  next
    case False
    with l have "i * b \<le> n div b * b" by simp
    also have "\<dots> < n" using False by (metis div_mult_mod_eq less_add_same_cancel1 neq0_conv)
    finally show ?thesis .
  qed
next
  assume "i * b < n"
  then have "i < n div b + 1" using assms by (simp add: less_mult_imp_div_less) (metis div_le_mono less_or_eq_imp_le less_Suc_eq_le nonzero_mult_div_cancel_right not_gr_zero)
  moreover have "i \<noteq> n div b" if "n mod b = 0"
    using that \<open>i * b < n\<close> by (metis dvd_div_mult_self less_irrefl mod_0_imp_dvd)
  ultimately show "i < n div b + (if n mod b \<noteq> 0 then 1 else 0)" by (cases "n mod b = 0") auto
qed

lemma concat_slices:
  "concat (map (\<lambda>i. take b (drop (i * b) xs)) [0..<t]) = take (t * b) xs"
proof (induction t)
  case (Suc t)
  have "take (t * b) xs @ take b (drop (t * b) xs) = take (t * b + b) xs" by (simp add: take_add)
  with Suc show ?case by (simp add: add.commute)
qed simp

lemma get_batch_slice:
  assumes "cp_batch_size (fx_checkpoint fx) = w" "i * unat w < length (fx_sorted_files fx)"
  shows "get_batch fx i = Some (Inr (take (unat w) (drop (i * unat w) (fx_sorted_files fx))))"
  using assms by (auto simp: get_batch_def Let_def min_def)

section \<open>The decision on a checkpoint\<close>

text \<open>The recorded boundary of a batch is the current one.\<close>

definition boundary_fits :: "FileIndexer \<Rightarrow> u32 \<Rightarrow> BatchCheckpointRecord \<Rightarrow> bool" where
  "boundary_fits fx i r \<longleftrightarrow> (\<exists>batch. get_batch fx (unat i) = Some (Inr batch)
     \<and> bc_first_file r = first_path batch \<and> bc_last_file r = last_path batch)"

lemma get_batch_total: "cp_batch_size (fx_checkpoint fx) \<noteq> 0 \<Longrightarrow> \<exists>x. get_batch fx i = Some x"
  by (simp add: get_batch_def total_batches_def Let_def unsigned_eq_0_iff)

lemma validate_boundary_cases:
  assumes "cp_batch_size (fx_checkpoint fx) \<noteq> 0"
  shows "boundary_fits fx i r \<Longrightarrow> validate_batch_boundary fx i r = Some (Inr ())"
    "\<not> boundary_fits fx i r \<Longrightarrow> \<exists>e. validate_batch_boundary fx i r = Some (Inl e)"
proof -
  obtain x where x: "get_batch fx (unat i) = Some x" using get_batch_total [OF assms] by blast
  show "boundary_fits fx i r \<Longrightarrow> validate_batch_boundary fx i r = Some (Inr ())"
    "\<not> boundary_fits fx i r \<Longrightarrow> \<exists>e. validate_batch_boundary fx i r = Some (Inl e)"
    using x by (cases x; auto simp: boundary_fits_def validate_batch_boundary_def)+
qed

lemma probe_single:
  assumes "cp_batch_size (fx_checkpoint fx) \<noteq> 0"
  shows "probe_boundaries fx rs [q] failure = Some None \<longleftrightarrow>
    (case find (\<lambda>r. bc_batch_index r = q) rs of None \<Rightarrow> failure = None | Some r \<Rightarrow> boundary_fits fx q r)"
  using validate_boundary_cases [OF assms] by (cases "find (\<lambda>r. bc_batch_index r = q) rs") (auto split: option.split sum.split, (metis option.sel sum.simps(4) option.distinct(1))+)

lemma probe_two:
  assumes "cp_batch_size (fx_checkpoint fx) \<noteq> 0"
  shows "probe_boundaries fx rs [q, q'] None = Some None \<longleftrightarrow>
    (case (find (\<lambda>r. bc_batch_index r = q) rs, find (\<lambda>r. bc_batch_index r = q') rs) of
       (None, None) \<Rightarrow> True
     | (Some r, None) \<Rightarrow> boundary_fits fx q r
     | (None, Some r') \<Rightarrow> boundary_fits fx q' r'
     | (Some r, Some r') \<Rightarrow> boundary_fits fx q r \<or> boundary_fits fx q' r')"
proof (cases "find (\<lambda>r. bc_batch_index r = q) rs")
  case None
  then have "probe_boundaries fx rs [q, q'] None = probe_boundaries fx rs [q'] None" by simp
  with None probe_single [OF assms, of rs q' None] show ?thesis by (simp split: option.split)
next
  case (Some r)
  show ?thesis
  proof (cases "boundary_fits fx q r")
    case True
    with Some validate_boundary_cases(1) [OF assms True] show ?thesis by (simp split: option.split)
  next
    case False
    obtain e where "validate_batch_boundary fx q r = Some (Inl e)" using validate_boundary_cases(2) [OF assms False] by blast
    then have "probe_boundaries fx rs [q, q'] None = probe_boundaries fx rs [q'] (Some e)" using Some by simp
    with Some False probe_single [OF assms, of rs q' "Some e"] show ?thesis by (simp split: option.split)
  qed
qed

lemma fx_validate_iff:
  assumes "cp_batch_size (fx_checkpoint fx) \<noteq> 0"
  shows "fx_validate_checkpoint fx cp rs = Some (Inr ()) \<longleftrightarrow>
    cp_batch_size cp = cp_batch_size (fx_checkpoint fx) \<and> cp_root_dir cp = cp_root_dir (fx_checkpoint fx)
    \<and> cp_total_files cp = word_of_nat (length (fx_sorted_files fx))
    \<and> cp_file_list_hash cp \<in> {None, Some (fx_file_list_hash fx)}
    \<and> probe_boundaries fx rs (probes_from (cp_current_batch_index cp)) None = Some None"
  by (auto simp: fx_validate_checkpoint_def split: option.splits)

lemma find_append: "find P (xs @ ys) = (case find P xs of Some x \<Rightarrow> Some x | None \<Rightarrow> find P ys)"
  by (induction xs) auto

section \<open>Properties\<close>


text \<open>
  The scan order does not matter. Two scans that find the same files, no two of them with
  the same path components, give the same indexer, the same checkpoint and the same batches.
\<close>

theorem scan_order_irrelevant:
  assumes "mset entries = mset entries'" "distinct (map (\<lambda>f. path_key (fe_path f)) entries)"
  shows "fx_initialize bf drv cf digest (Inr (entries, failures)) millis now root_dir batch_size cm db
    = fx_initialize bf drv cf digest (Inr (entries', failures)) millis now root_dir batch_size cm db"
proof -
  have "inj_on (\<lambda>f. path_key (fe_path f)) (set entries)" using assms(2) by (simp add: distinct_map)
  then have "sort_files entries = sort_files entries'"
    unfolding sort_files_def by (rule sort_key_inj_key_eq [rotated]) (simp_all add: assms(1))
  then show ?thesis by (simp add: fx_initialize_def)
qed

definition sample_entry :: "string \<Rightarrow> FileEntry" where
  "sample_entry p = \<lparr>fe_path = p, fe_relative_path = p, fe_size = 1, fe_content_hash = None\<rparr>"

lemma sample_keys: "path_key ''/a'' = [(1, ''/''), (4, ''a'')]" "path_key ''/b'' = [(1, ''/''), (4, ''b'')]"
  by (simp_all add: path_key_def path_components_def component_rank_def starts_with_def Let_def)

theorem scan_order_irrelevant_witness:
  "fx_initialize None drv_ok None (\<lambda>_. []) (Inr ([sample_entry ''/b'', sample_entry ''/a''], [])) ''0'' (\<lambda>_. []) ''/'' 1 None (empty_db True)
   = fx_initialize None drv_ok None (\<lambda>_. []) (Inr ([sample_entry ''/a'', sample_entry ''/b''], [])) ''0'' (\<lambda>_. []) ''/'' 1 None (empty_db True)"
  by (rule scan_order_irrelevant) (simp_all add: sample_entry_def sample_keys add_mset_commute)

text \<open>
  What makes a checkpoint fit. A checkpoint is accepted exactly when its batch size, root
  and file count are the current ones, its file list digest is missing or current, and the
  recorded boundaries do not speak against it: no record for the batch to resume nor for the one
  before it, or one of the two records that exist is the current boundary.
\<close>

theorem checkpoint_fits_iff:
  assumes "cp_batch_size (fx_checkpoint fx) \<noteq> 0"
  shows "fx_validate_checkpoint fx cp rs = Some (Inr ()) \<longleftrightarrow>
    cp_batch_size cp = cp_batch_size (fx_checkpoint fx) \<and> cp_root_dir cp = cp_root_dir (fx_checkpoint fx)
    \<and> cp_total_files cp = word_of_nat (length (fx_sorted_files fx))
    \<and> cp_file_list_hash cp \<in> {None, Some (fx_file_list_hash fx)}
    \<and> (let s = cp_current_batch_index cp; rec = (\<lambda>i. find (\<lambda>r. bc_batch_index r = i) rs);
           q = (if s = 0 then 0 else s - 1)
       in rec s = None \<and> rec q = None \<or> (\<exists>i \<in> {s, q}. \<exists>r. rec i = Some r \<and> boundary_fits fx i r))"
  unfolding fx_validate_iff [OF assms] probes_from_def probe_two [OF assms] Let_def
  by (auto split: option.split)

definition sample_indexer :: FileIndexer where
  "sample_indexer = \<lparr>fx_sorted_files = [sample_entry ''/a'', sample_entry ''/b'', sample_entry ''/c''], fx_file_list_hash = ''h'',
     fx_checkpoint = fresh_checkpoint [] 1 \<lparr>ccp_operation_id = ''full_0'', ccp_operation_type = FullIndex, ccp_root_dir = ''/'',
       ccp_total_files = 3, ccp_batch_size = 2, ccp_file_list_hash = ''h''\<rparr>, fx_scan_failures = []\<rparr>"

lemma sample_batches:
  "get_batch sample_indexer 0 = Some (Inr [sample_entry ''/a'', sample_entry ''/b''])"
  "get_batch sample_indexer 1 = Some (Inr [sample_entry ''/c''])"
  by (simp_all add: get_batch_def sample_indexer_def fresh_checkpoint_def Let_def)


theorem checkpoint_fits_iff_witness:
  "fx_validate_checkpoint sample_indexer (fx_checkpoint sample_indexer) [] = Some (Inr ())"
  by (subst checkpoint_fits_iff) (simp_all add: sample_indexer_def fresh_checkpoint_def)

text \<open>
  C25: A full index over an unchanged tree can be resumed. The checkpoint that the initialisation
  stores is found again under the operation's id and fits the indexer; and a later scan that finds
  the same files, in any order, recovers from it with the same file list.
\<close>

theorem unchanged_scan_recovers:
  assumes "fx_initialize bf drv cf digest (Inr (entries, failures)) millis now root_dir batch_size (Some p) db = (Inr fx, db')"
    and "batch_size < 2 ^ 32" "length entries < 2 ^ 32"
    and "mset entries' = mset entries" "distinct (map (\<lambda>f. path_key (fe_path f)) entries)"
  shows "\<exists>cp fx'. get_checkpoint drv_ok p (cp_operation_id (fx_checkpoint fx)) db' = Inr (Some cp)
    \<and> fx_validate_checkpoint fx cp [] = Some (Inr ())
    \<and> recover digest (Inr (entries', failures')) root_dir batch_size cp = Inr fx' \<and> fx_sorted_files fx' = fx_sorted_files fx"
proof -
  let ?files = "sort_files entries"
  let ?params = "\<lparr>ccp_operation_id = ''full_'' @ millis, ccp_operation_type = FullIndex, ccp_root_dir = root_dir,
      ccp_total_files = word_of_nat (length ?files), ccp_batch_size = ucast batch_size,
      ccp_file_list_hash = compute_file_list_hash digest ?files\<rparr>"
  let ?cp = "fresh_checkpoint (now 0) p ?params"
  obtain a where create: "create_checkpoint drv p ?cp db = (Inr a, db')"
    and fx: "fx = \<lparr>fx_sorted_files = ?files, fx_file_list_hash = compute_file_list_hash digest ?files,
      fx_checkpoint = (fresh_checkpoint (now 1) p ?params)\<lparr>cp_updated_at := now 2, cp_last_heartbeat := None\<rparr>,
      fx_scan_failures = failures\<rparr>"
    using assms(1) by (auto simp: fx_initialize_def cm_create_checkpoint_def Let_def and_then_ok manager_transaction_ok)
  let ?row = "?cp\<lparr>cp_id := Some (Suc (checkpoint_seq db)), cp_project_id := p, cp_last_error := None, cp_failure_count := 0\<rparr>"
  from create have db': "checkpoint_tbl db' = checkpoint_tbl db @ [?row]"
    and checks: "checkpoint_checks ?row" "\<not> has_checkpoint db p (cp_operation_id ?cp)"
    by (auto simp: create_checkpoint_def Let_def sql_exec_def split: option.splits if_splits sum.splits)
  have oid: "cp_operation_id (fx_checkpoint fx) = cp_operation_id ?cp" by (simp add: fx fresh_checkpoint_def)
  have "find (\<lambda>r. cp_key r = (p, cp_operation_id ?cp)) (checkpoint_tbl db) = None"
    using checks(2) by (auto simp: has_checkpoint_def find_None_iff)
  then have found: "get_checkpoint drv_ok p (cp_operation_id (fx_checkpoint fx)) db' = Inr (Some ?row)"
    by (simp add: get_checkpoint_def query_fails_def drv_ok_def db' oid find_append fresh_checkpoint_def)
  have len: "length ?files = length entries" "length entries' = length entries"
    using assms(4) by (simp_all add: sort_files_def) (metis size_mset)
  have "inj_on (\<lambda>f. path_key (fe_path f)) (set entries')"
    using assms(5) unfolding distinct_map mset_eq_setD [OF assms(4)] by (rule conjunct2)
  then have same: "sort_files entries' = ?files"
    unfolding sort_files_def by (rule sort_key_inj_key_eq [rotated]) (simp_all add: assms(4))
  have "ucast (ucast batch_size :: u32) = batch_size"
    by (rule word_unat_eq_iff [THEN iffD2]) (use assms(2) in \<open>simp add: word_less_nat_alt unsigned_ucast_eq unsigned_take_bit_eq take_bit_nat_eq_self\<close>)
  moreover have "unat (word_of_nat (length entries) :: u32) = length entries"
    using assms(3) by (simp add: unat_of_nat take_bit_nat_eq_self)
  ultimately have "recover digest (Inr (entries', failures')) root_dir batch_size ?row =
      Inr \<lparr>fx_sorted_files = ?files, fx_file_list_hash = compute_file_list_hash digest ?files, fx_checkpoint = ?row, fx_scan_failures = failures'\<rparr>"
    by (simp add: recover_def same validate_existing_checkpoint_def fresh_checkpoint_def len Let_def)
  moreover have "fx_validate_checkpoint fx ?row [] = Some (Inr ())"
    by (simp add: fx_validate_checkpoint_def fx fresh_checkpoint_def probes_from_def)
  ultimately show ?thesis using found by (auto simp: fx)
qed

theorem unchanged_scan_recovers_witness:
  "let fx = fst (fx_initialize None drv_ok None (\<lambda>_. ''h'') (Inr ([sample_entry ''/b'', sample_entry ''/a''], [])) ''0'' (\<lambda>_. []) ''/'' 1 (Some 1) (empty_db True));
       db = snd (fx_initialize None drv_ok None (\<lambda>_. ''h'') (Inr ([sample_entry ''/b'', sample_entry ''/a''], [])) ''0'' (\<lambda>_. []) ''/'' 1 (Some 1) (empty_db True))
   in \<exists>cp fx'. get_checkpoint drv_ok 1 ''full_0'' db = Inr (Some cp)
        \<and> recover (\<lambda>_. ''h'') (Inr ([sample_entry ''/a'', sample_entry ''/b''], [])) ''/'' 1 cp = Inr fx'"
proof -
  define r where "r = fx_initialize None drv_ok None (\<lambda>_. ''h'') (Inr ([sample_entry ''/b'', sample_entry ''/a''], [])) ''0'' (\<lambda>_. []) ''/'' 1 (Some 1) (empty_db True)"
  have "\<exists>fx db. r = (Inr fx, db) \<and> cp_operation_id (fx_checkpoint fx) = ''full_0''"
    by (simp add: r_def fx_initialize_def cm_create_checkpoint_def manager_transaction_def and_then_def create_checkpoint_def
        sql_exec_def drv_ok_def checkpoint_checks_def fresh_checkpoint_def has_checkpoint_def empty_db_def Let_def)
  then obtain fx db where r: "r = (Inr fx, db)" "cp_operation_id (fx_checkpoint fx) = ''full_0''" by blast
  from unchanged_scan_recovers [OF r(1) [unfolded r_def], of "[sample_entry ''/a'', sample_entry ''/b'']" "[]"] r(2)
  show ?thesis
    unfolding r_def [symmetric] r by (auto simp: sample_entry_def sample_keys add_mset_commute)
qed

end
