(* ===== verification/Recovery.thy ===== *)
theory Recovery
  imports File_Indexer
begin

text \<open>
  The recovery manager (\<^verbatim>\<open>cce-orchestrator/src/operation/recovery.rs\<close>) over the checkpoint manager and the
  file indexer: plans for interrupted operations, the integrity check, the cleanup. Faults of the
  driver are arguments, one per statement; a panic is \<open>None\<close>.
\<close>

section \<open>The recovery manager\<close>

record RecoveryPlan =
  rp_operation_id :: string
  rp_start_batch :: u32
  rp_total_batches :: u32
  rp_files_to_process :: "(u32 \<times> string) list"

fun load_boundaries ::
  "(nat \<Rightarrow> sql_drv) \<Rightarrow> int \<Rightarrow> string \<Rightarrow> u32 list \<Rightarrow> Db \<Rightarrow> BatchCheckpointRecord list result" where
  "load_boundaries drvs p oid [] db = Inr []"
| "load_boundaries drvs p oid (i # is) db =
     (case get_batch_checkpoint (drvs 0) p oid i db of
        Inl e \<Rightarrow> Inl e
      | Inr r \<Rightarrow> (case load_boundaries (\<lambda>n. drvs (Suc n)) p oid is db of
            Inl e \<Rightarrow> Inl e
          | Inr rs \<Rightarrow> Inr ((case r of Some b \<Rightarrow> [b] | None \<Rightarrow> []) @ rs)))"

definition load_recovery_boundaries ::
  "(nat \<Rightarrow> sql_drv) \<Rightarrow> int \<Rightarrow> CheckpointRecord \<Rightarrow> u32 \<Rightarrow> Db \<Rightarrow> BatchCheckpointRecord list result" where
  "load_recovery_boundaries drvs p checkpoint start_batch db =
     load_boundaries drvs p (cp_operation_id checkpoint) (probes_from start_batch) db"

definition planned_batches :: "CheckpointRecord \<Rightarrow> u32 option" where
  "planned_batches cp =
     (if cp_batch_size cp = 0 then None
      else Some (cp_total_files cp div cp_batch_size cp
                 + (if cp_total_files cp mod cp_batch_size cp \<noteq> 0 then 1 else 0)))"

text \<open>The files of one batch: the stored rows, or the current batch when the query fails.\<close>

definition batch_paths ::
  "FileIndexer \<Rightarrow> (u32 \<Rightarrow> sql_drv) \<Rightarrow> int \<Rightarrow> string \<Rightarrow> Db \<Rightarrow> u32 \<Rightarrow> (u32 \<times> string) list option" where
  "batch_paths fx drvs p oid db i =
     (case get_batch_files (drvs i) p oid i db of
        Inr files \<Rightarrow> Some (map (\<lambda>f. (i, fc_file_path f)) files)
      | Inl _ \<Rightarrow> (case get_batch fx (unat i) of
            Some (Inr batch) \<Rightarrow> Some (map (\<lambda>f. (i, fe_path f)) batch)
          | Some (Inl _) \<Rightarrow> Some []
          | None \<Rightarrow> None))"

fun collect_batches :: "(u32 \<Rightarrow> (u32 \<times> string) list option) \<Rightarrow> u32 list \<Rightarrow> (u32 \<times> string) list option" where
  "collect_batches paths [] = Some []"
| "collect_batches paths (i # is) =
     (case paths i of
        None \<Rightarrow> None
      | Some fs \<Rightarrow> map_option ((@) fs) (collect_batches paths is))"

definition batch_range :: "u32 \<Rightarrow> u32 \<Rightarrow> u32 list" where
  "batch_range s t = map word_of_nat [unat s..<unat t]"

definition recover_operation ::
  "sql_drv \<Rightarrow> (nat \<Rightarrow> sql_drv) \<Rightarrow> (u32 \<Rightarrow> sql_drv) \<Rightarrow> FileIndexer \<Rightarrow> int \<Rightarrow> string \<Rightarrow> Db \<Rightarrow> RecoveryPlan option result option" where
  "recover_operation g bdrv fdrv fx p operation_id db =
     (case get_checkpoint g p operation_id db of
        Inl e \<Rightarrow> Some (Inl e)
      | Inr None \<Rightarrow> Some (Inr None)
      | Inr (Some checkpoint) \<Rightarrow>
          (let start_batch = cp_current_batch_index checkpoint
           in case load_recovery_boundaries bdrv p checkpoint start_batch db of
                Inl e \<Rightarrow> Some (Inl e)
              | Inr boundaries \<Rightarrow>
                  (case fx_validate_checkpoint fx checkpoint boundaries of
                     None \<Rightarrow> None
                   | Some (Inl _) \<Rightarrow> Some (Inr None)
                   | Some (Inr _) \<Rightarrow>
                       Option.bind (planned_batches checkpoint) (\<lambda>total.
                         Option.bind (collect_batches (batch_paths fx fdrv p (cp_operation_id checkpoint) db) (batch_range start_batch total)) (\<lambda>files.
                           Some (Inr (Some \<lparr>rp_operation_id = cp_operation_id checkpoint, rp_start_batch = start_batch,
                                            rp_total_batches = total, rp_files_to_process = files\<rparr>)))))))"

definition get_recovery_status :: "sql_drv \<Rightarrow> int \<Rightarrow> string \<Rightarrow> Db \<Rightarrow> string option result" where
  "get_recovery_status g p operation_id db =
     (case get_checkpoint g p operation_id db of
        Inl e \<Rightarrow> Inl e
      | Inr r \<Rightarrow> Inr (map_option (\<lambda>cp. ''Operation: '' @ cp_operation_id cp @ '', Status: '' @ status_as_str (cp_status cp)
            @ '', Current Batch: '' @ show_nat (unat (cp_current_batch_index cp)) @ ''/'' @ show_nat (unat (cp_total_files cp))) r))"

definition validate_checkpoint_integrity ::
  "sql_drv \<Rightarrow> sql_drv \<Rightarrow> (string \<Rightarrow> string option) \<Rightarrow> int \<Rightarrow> string \<Rightarrow> Db \<Rightarrow> bool result" where
  "validate_checkpoint_integrity g g' parse_rfc3339 p operation_id db =
     (case get_checkpoint g p operation_id db of
        Inl e \<Rightarrow> Inl e
      | Inr None \<Rightarrow> Inr False
      | Inr (Some cp) \<Rightarrow>
          (case kind_from_str (cp_operation_type cp) of
             Inl _ \<Rightarrow> Inr False
           | Inr kind \<Rightarrow>
               (case validate_and_recover_checkpoint g' parse_rfc3339 p operation_id kind (cp_root_dir cp) db of
                  Inl e \<Rightarrow> Inl e
                | Inr (Some _) \<Rightarrow> Inr True
                | Inr None \<Rightarrow> Inr False)))"

definition cleanup_operation_artifacts ::
  "(nat \<Rightarrow> sql_drv) \<Rightarrow> int \<Rightarrow> string \<Rightarrow> Db \<Rightarrow> unit result \<times> Db" where
  "cleanup_operation_artifacts drvs p operation_id db =
     and_then (delete_checkpoint_files_by_operation_id (drvs 0) p operation_id db) (\<lambda>_ db.
       and_then (delete_checkpoint_batches_by_operation_id (drvs 1) p operation_id db) (\<lambda>_ db.
         and_then (delete_work_units_by_operation_id (drvs 2) p operation_id db) (\<lambda>_ db. (Inr (), db))))"

section \<open>The recovery plan\<close>

lemma get_checkpoint_ok: "sql_ok g \<Longrightarrow> get_checkpoint g p oid db = Inr (find (\<lambda>r. cp_key r = (p, oid)) (checkpoint_tbl db))"
  by (simp add: get_checkpoint_def query_fails_def)

lemma load_boundaries_ok:
  "(\<And>n. sql_ok (drvs n)) \<Longrightarrow> load_boundaries drvs p oid is db =
     Inr (List.map_filter (\<lambda>i. map_option snd (find (\<lambda>r. bc_key r = (p, oid, i)) (batch_tbl db))) is)"
proof (induction "is" arbitrary: drvs)
  case (Cons i "is")
  from Cons.IH [of "\<lambda>n. drvs (Suc n)"] Cons.prems show ?case
    by (simp add: get_batch_checkpoint_def query_fails_def map_filter_simps split: option.split)
qed (simp add: map_filter_simps)

text \<open>The rows stored for a batch, in the order of their paths.\<close>

definition stored_paths :: "int \<Rightarrow> string \<Rightarrow> Db \<Rightarrow> u32 \<Rightarrow> (u32 \<times> string) list" where
  "stored_paths p oid db i =
     map (\<lambda>f. (i, fc_file_path f)) (order_by fc_file_path (map snd (filter (\<lambda>r. fc_parent r = (p, oid, i)) (file_tbl db))))"

lemma batch_paths_ok: "sql_ok (drvs i) \<Longrightarrow> batch_paths fx drvs p oid db i = Some (stored_paths p oid db i)"
  by (simp add: batch_paths_def get_batch_files_def query_fails_def stored_paths_def)

lemma collect_batches_ok:
  "(\<And>i. paths i = Some (f i)) \<Longrightarrow> collect_batches paths is = Some (concat (map f is))"
  by (induction "is") simp_all

lemma recover_operation_ok:
  assumes "sql_ok g" "\<And>n. sql_ok (bdrv n)" "\<And>i. sql_ok (fdrv i)"
    and cp: "find (\<lambda>r. cp_key r = (p, oid)) (checkpoint_tbl db) = Some cp"
    and "fx_validate_checkpoint fx cp (List.map_filter (\<lambda>i. map_option snd (find (\<lambda>r. bc_key r = (p, oid, i)) (batch_tbl db)))
           (probes_from (cp_current_batch_index cp))) = Some v"
    and "cp_batch_size cp \<noteq> 0"
  shows "recover_operation g bdrv fdrv fx p oid db = Some (Inr
    (case v of
       Inl _ \<Rightarrow> None
     | Inr _ \<Rightarrow> Some \<lparr>rp_operation_id = oid, rp_start_batch = cp_current_batch_index cp,
         rp_total_batches = the (planned_batches cp),
         rp_files_to_process = concat (map (stored_paths p oid db) (batch_range (cp_current_batch_index cp) (the (planned_batches cp))))\<rparr>))"
proof -
  have oid: "cp_operation_id cp = oid" using cp by (auto simp: find_Some_iff)
  have "\<And>i. batch_paths fx fdrv p oid db i = Some (stored_paths p oid db i)" using assms(3) by (simp add: batch_paths_ok)
  from collect_batches_ok [of "batch_paths fx fdrv p oid db", OF this] assms show ?thesis
    by (cases v) (simp_all add: recover_operation_def get_checkpoint_ok load_recovery_boundaries_def load_boundaries_ok oid
        planned_batches_def Let_def)
qed

lemma batch_range_mem: "i \<in> set (batch_range s t) \<longleftrightarrow> s \<le> i \<and> i < t"
proof -
  have "(\<exists>n. unat s \<le> n \<and> n < unat t \<and> i = word_of_nat n) \<longleftrightarrow> unat s \<le> unat i \<and> unat i < unat t"
  proof
    assume "\<exists>n. unat s \<le> n \<and> n < unat t \<and> i = word_of_nat n"
    then obtain n where n: "unat s \<le> n" "n < unat t" "i = word_of_nat n" by blast
    have "unat t < 2 ^ 32" using unsigned_less [of t] by simp
    then have "n < 2 ^ 32" using n(2) by simp
    then have "unat i = n" using n(3) by (simp add: unat_of_nat take_bit_nat_eq_self)
    with n show "unat s \<le> unat i \<and> unat i < unat t" by simp
  qed (rule exI [of _ "unat i"], simp)
  then show ?thesis by (auto simp: batch_range_def word_le_nat_alt word_less_nat_alt image_iff)
qed

lemma stored_paths_mem:
  "(j, path) \<in> set (stored_paths p oid db i) \<longleftrightarrow> j = i \<and> (\<exists>r \<in> set (file_tbl db). fc_parent r = (p, oid, i) \<and> fc_file_path (snd r) = path)"
  by (auto simp: stored_paths_def order_by_def)

section \<open>Properties\<close>

text \<open>
  C26: What a recovery plan lists. Without faults of the driver, an operation whose checkpoint
  exists gets a plan exactly when the checkpoint fits the current files; the plan resumes at the
  stored batch, and a file is listed for a batch exactly when a row for it was stored in that
  batch and the batch lies between the resumed one and the last.
\<close>

theorem recovery_plan_exact:
  assumes "sql_ok g" "\<And>n. sql_ok (bdrv n)" "\<And>i. sql_ok (fdrv i)"
    and "find (\<lambda>r. cp_key r = (p, oid)) (checkpoint_tbl db) = Some cp"
    and "fx_validate_checkpoint fx cp (List.map_filter (\<lambda>i. map_option snd (find (\<lambda>r. bc_key r = (p, oid, i)) (batch_tbl db)))
           (probes_from (cp_current_batch_index cp))) = Some v"
    and "cp_batch_size cp \<noteq> 0"
  shows "\<exists>plan. recover_operation g bdrv fdrv fx p oid db = Some (Inr plan)
    \<and> (plan \<noteq> None \<longleftrightarrow> v = Inr ())
    \<and> (\<forall>pl. plan = Some pl \<longrightarrow> rp_start_batch pl = cp_current_batch_index cp \<and> planned_batches cp = Some (rp_total_batches pl)
         \<and> (\<forall>i path. (i, path) \<in> set (rp_files_to_process pl) \<longleftrightarrow>
              rp_start_batch pl \<le> i \<and> i < rp_total_batches pl
              \<and> (\<exists>r \<in> set (file_tbl db). fc_parent r = (p, oid, i) \<and> fc_file_path (snd r) = path)))"
proof -
  have "\<exists>t. planned_batches cp = Some t" using assms(6) by (simp add: planned_batches_def)
  then show ?thesis
    unfolding recover_operation_ok [OF assms]
    by (cases v) (auto simp: batch_range_mem stored_paths_mem)
qed

text \<open>
  The plan misses the batches that were not started. When no file row of the operation has been
  stored, as after an initialisation that died before its first batch, the plan is made and names
  no file at all, although every file still has to be processed.
\<close>

theorem plan_misses_unstarted_batches:
  assumes "sql_ok g" "\<And>n. sql_ok (bdrv n)" "\<And>i. sql_ok (fdrv i)"
    and "find (\<lambda>r. cp_key r = (p, oid)) (checkpoint_tbl db) = Some cp"
    and "fx_validate_checkpoint fx cp (List.map_filter (\<lambda>i. map_option snd (find (\<lambda>r. bc_key r = (p, oid, i)) (batch_tbl db)))
           (probes_from (cp_current_batch_index cp))) = Some (Inr ())"
    and "cp_batch_size cp \<noteq> 0" "\<And>r. r \<in> set (file_tbl db) \<Longrightarrow> fst r = p \<Longrightarrow> fc_operation_id (snd r) \<noteq> oid"
  shows "\<exists>pl. recover_operation g bdrv fdrv fx p oid db = Some (Inr (Some pl)) \<and> rp_files_to_process pl = []"
proof -
  have "filter (\<lambda>r. fc_parent r = (p, oid, i)) (file_tbl db) = []" for i
    using assms(7) by (auto simp: filter_empty_conv)
  then have "stored_paths p oid db i = []" for i unfolding stored_paths_def order_by_def by simp
  then show ?thesis unfolding recover_operation_ok [OF assms(1-6)] by simp
qed

text \<open>
  The integrity check does not look at the operation it is asked about. Two operations of a
  project with the same kind and root directory always get the same answer: the one for the
  latest unfinished checkpoint of that kind and root.
\<close>

theorem integrity_ignores_operation:
  assumes "sql_ok g"
    and "find (\<lambda>r. cp_key r = (p, oid)) (checkpoint_tbl db) = Some cp" "find (\<lambda>r. cp_key r = (p, oid')) (checkpoint_tbl db) = Some cp'"
    and "cp_operation_type cp = cp_operation_type cp'" "cp_root_dir cp = cp_root_dir cp'"
  shows "validate_checkpoint_integrity g g' parse_rfc3339 p oid db = validate_checkpoint_integrity g g' parse_rfc3339 p oid' db"
  using assms by (simp add: validate_checkpoint_integrity_def get_checkpoint_ok validate_and_recover_checkpoint_def split: sum.split)

definition sample_plan_db :: Db where
  "sample_plan_db = (empty_db True)\<lparr>checkpoint_tbl := [fx_checkpoint sample_indexer]\<rparr>"

lemma sample_plan_db_fields:
  "find (\<lambda>r. cp_key r = (1, ''full_0'')) (checkpoint_tbl sample_plan_db) = Some (fx_checkpoint sample_indexer)"
  "batch_tbl sample_plan_db = []" "file_tbl sample_plan_db = []"
  by (simp_all add: sample_plan_db_def sample_indexer_def fresh_checkpoint_def empty_db_def)

lemma sample_plan_fits:
  "fx_validate_checkpoint sample_indexer (fx_checkpoint sample_indexer)
     (List.map_filter (\<lambda>i. map_option snd (find (\<lambda>r. bc_key r = (1, ''full_0'', i)) (batch_tbl sample_plan_db)))
        (probes_from (cp_current_batch_index (fx_checkpoint sample_indexer)))) = Some (Inr ())"
  by (simp add: sample_plan_db_fields map_filter_simps probes_from_def)
    (simp add: fx_validate_checkpoint_def sample_indexer_def fresh_checkpoint_def probes_from_def)

lemma sample_plan_size: "cp_batch_size (fx_checkpoint sample_indexer) \<noteq> 0"
  by (simp add: sample_indexer_def fresh_checkpoint_def)

theorem recovery_plan_exact_witness:
  "\<exists>plan. recover_operation drv_ok (\<lambda>_. drv_ok) (\<lambda>_. drv_ok) sample_indexer 1 ''full_0'' sample_plan_db = Some (Inr (Some plan))
     \<and> rp_total_batches plan = 2"
proof -
  have ok: "sql_ok drv_ok" by (simp add: drv_ok_def)
  have "planned_batches (fx_checkpoint sample_indexer) = Some 2"
    by (simp add: planned_batches_def sample_indexer_def fresh_checkpoint_def)
  with recovery_plan_exact [OF ok ok ok sample_plan_db_fields(1) sample_plan_fits sample_plan_size] show ?thesis by auto
qed

theorem plan_misses_unstarted_batches_witness:
  "\<exists>pl. recover_operation drv_ok (\<lambda>_. drv_ok) (\<lambda>_. drv_ok) sample_indexer 1 ''full_0'' sample_plan_db = Some (Inr (Some pl))
     \<and> rp_files_to_process pl = []"
  by (rule plan_misses_unstarted_batches [OF _ _ _ sample_plan_db_fields(1) sample_plan_fits sample_plan_size])
    (simp_all add: drv_ok_def sample_plan_db_fields)

theorem integrity_ignores_operation_witness:
  "let done = (fx_checkpoint sample_indexer)\<lparr>cp_status := Completed\<rparr>;
       open_cp = (fx_checkpoint sample_indexer)\<lparr>cp_operation_id := ''full_1''\<rparr>;
       db = (empty_db True)\<lparr>checkpoint_tbl := [done, open_cp]\<rparr>
   in validate_checkpoint_integrity drv_ok drv_ok (\<lambda>_. None) 1 ''full_0'' db = validate_checkpoint_integrity drv_ok drv_ok (\<lambda>_. None) 1 ''full_1'' db
      \<and> validate_checkpoint_integrity drv_ok drv_ok (\<lambda>_. None) 1 ''full_1'' db = Inr True"
proof -
  define db where "db = (empty_db True)\<lparr>checkpoint_tbl := [(fx_checkpoint sample_indexer)\<lparr>cp_status := Completed\<rparr>,
      (fx_checkpoint sample_indexer)\<lparr>cp_operation_id := ''full_1''\<rparr>]\<rparr>"
  have "validate_checkpoint_integrity drv_ok drv_ok (\<lambda>_. None) 1 ''full_0'' db = validate_checkpoint_integrity drv_ok drv_ok (\<lambda>_. None) 1 ''full_1'' db"
    by (rule integrity_ignores_operation [of _ 1 "''full_0''" db "(fx_checkpoint sample_indexer)\<lparr>cp_status := Completed\<rparr>"
          "''full_1''" "(fx_checkpoint sample_indexer)\<lparr>cp_operation_id := ''full_1''\<rparr>"])
      (simp_all add: db_def sample_indexer_def fresh_checkpoint_def drv_ok_def)
  moreover have "validate_checkpoint_integrity drv_ok drv_ok (\<lambda>_. None) 1 ''full_1'' db = Inr True"
    by (simp add: validate_checkpoint_integrity_def get_checkpoint_def query_fails_def drv_ok_def db_def sample_indexer_def
        fresh_checkpoint_def kind_from_str_def validate_and_recover_checkpoint_def get_latest_incomplete_by_type_def
        validate_checkpoint_def)
  ultimately show ?thesis unfolding db_def Let_def by blast
qed

end
