(* ===== verification/Coordinator.thy ===== *)
theory Coordinator
  imports Recovery
begin

text \<open>
  The operation coordinator (\<^verbatim>\<open>cce-orchestrator/src/operation/coordinator.rs\<close>) over the queue, the checkpoint
  manager and the recovery manager. Its state is that of its queue, which holds the database;
  faults of the driver and the clocks are arguments. \<^verbatim>\<open>wait_for_completion\<close>, a timed polling loop,
  is not modelled.
\<close>

section \<open>The coordinator\<close>

record OperationCoordinator =
  co_project_id :: int
  co_has_recovery :: bool
  co_heartbeat_timeout_secs :: int
  co_recovery_freshness_secs :: "u64 option"

definition co_new :: "bool \<Rightarrow> int \<Rightarrow> Db \<Rightarrow> (int + OperationCoordinator \<times> OperationQueue)" where
  "co_new recovery project_id db =
     (if project_id \<le> 0 then Inl project_id
      else Inr (\<lparr>co_project_id = project_id, co_has_recovery = recovery, co_heartbeat_timeout_secs = 300,
                 co_recovery_freshness_secs = None\<rparr>,
                \<lparr>q_project_id = project_id, q_active = None, q_pending = [], q_db = db\<rparr>))"

definition with_heartbeat_timeout :: "int \<Rightarrow> OperationCoordinator \<Rightarrow> OperationCoordinator" where
  "with_heartbeat_timeout secs co = co\<lparr>co_heartbeat_timeout_secs := secs\<rparr>"

definition with_recovery_freshness :: "u64 \<Rightarrow> OperationCoordinator \<Rightarrow> OperationCoordinator" where
  "with_recovery_freshness secs co = co\<lparr>co_recovery_freshness_secs := Some secs\<rparr>"

text \<open>
  \<open>age\<close> gives the age in whole seconds of an RFC 3339 timestamp, or \<open>None\<close> when it does not parse.
  The window is compared as a signed 64-bit number.
\<close>

definition is_stale_for_recovery :: "(string \<Rightarrow> int option) \<Rightarrow> OperationCoordinator \<Rightarrow> CheckpointRecord \<Rightarrow> bool" where
  "is_stale_for_recovery age co checkpoint =
     (case co_recovery_freshness_secs co of
        None \<Rightarrow> False
      | Some freshness_secs \<Rightarrow>
          (case age (cp_updated_at checkpoint) of
             None \<Rightarrow> True
           | Some secs \<Rightarrow> secs > sint freshness_secs))"

fun replay_priority :: "OperationKind \<Rightarrow> OperationPriority" where
  "replay_priority FullIndex = PrioFullIndex"
| "replay_priority Incremental = PrioIncremental"
| "replay_priority HotUpdate = PrioHotUpdate"
| "replay_priority ConfigChange = PrioHotUpdate"

record mgr_drv =
  md_begin :: "string option"
  md_query :: sql_drv
  md_stmt :: sql_drv
  md_commit :: "string option"

text \<open>The loop over the unfinished operations; \<open>mds\<close> and \<open>now\<close> are indexed by the rounds left.\<close>

fun replay ::
  "(nat \<Rightarrow> mgr_drv) \<Rightarrow> (nat \<Rightarrow> nat \<Rightarrow> string) \<Rightarrow> (string \<Rightarrow> int option) \<Rightarrow> OperationCoordinator \<Rightarrow> CheckpointRecord list
     \<Rightarrow> nat \<Rightarrow> OperationQueue \<Rightarrow> nat result \<times> OperationQueue" where
  "replay mds now age co [] n q = (Inr n, q)"
| "replay mds now age co (cp # cps) n q =
     (let i = length cps
      in if is_stale_for_recovery age co cp
         then (case mark_operation_failed (md_begin (mds i)) (md_query (mds i)) (md_stmt (mds i)) (md_commit (mds i))
                      (now i 0) (now i 1) (now i 2) (q_project_id q) (cp_operation_id cp) ''stale recovery skipped'' (q_db q) of
                 (Inl e, db) \<Rightarrow> (Inl e, q\<lparr>q_db := db\<rparr>)
               | (Inr _, db) \<Rightarrow> replay mds now age co cps n (q\<lparr>q_db := db\<rparr>))
         else (case kind_from_str (cp_operation_type cp) of
                 Inl e \<Rightarrow> (Inl (Validation (''Invalid operation_type: '' @ e)), q)
               | Inr kind \<Rightarrow>
                   if kind \<in> {HotUpdate, ConfigChange} then replay mds now age co cps n q
                   else (case enqueue (now i 0) (cp_operation_id cp) kind (cp_root_dir cp) (replay_priority kind) q of
                           (Inl e, q') \<Rightarrow> (Inl e, q')
                         | (Inr _, q') \<Rightarrow> replay mds now age co cps (Suc n) q')))"

definition recover_unfinished_operations ::
  "sql_drv \<Rightarrow> (nat \<Rightarrow> mgr_drv) \<Rightarrow> (nat \<Rightarrow> nat \<Rightarrow> string) \<Rightarrow> (string \<Rightarrow> int option) \<Rightarrow> OperationCoordinator \<Rightarrow> OperationQueue
     \<Rightarrow> nat result \<times> OperationQueue" where
  "recover_unfinished_operations g mds now age co q =
     (case get_unfinished_operations g (q_project_id q) (q_db q) of
        Inl e \<Rightarrow> (Inl e, q)
      | Inr unfinished \<Rightarrow> replay mds now age co unfinished 0 q)"

text \<open>
  Startup: load the persisted active operation, clear the stale ones (\<open>cutoff\<close> is the heartbeat
  bound as a timestamp), recover the unfinished ones.
\<close>

record init_drv =
  in_load :: sql_drv
  in_stale :: sql_drv
  in_reload :: sql_drv
  in_list :: sql_drv
  in_marks :: "nat \<Rightarrow> mgr_drv"

definition co_initialize ::
  "init_drv \<Rightarrow> string \<Rightarrow> string \<Rightarrow> (nat \<Rightarrow> nat \<Rightarrow> string) \<Rightarrow> (string \<Rightarrow> int option) \<Rightarrow> OperationCoordinator \<Rightarrow> OperationQueue
     \<Rightarrow> nat result \<times> OperationQueue" where
  "co_initialize d now0 cutoff now age co q =
     (case load_persisted_active (in_load d) q of
        (Inl e, q1) \<Rightarrow> (Inl e, q1)
      | (Inr _, q1) \<Rightarrow> (case cleanup_stale_operations (in_stale d) (in_reload d) now0 cutoff q1 of
            (Inl e, q2) \<Rightarrow> (Inl e, q2)
          | (Inr _, q2) \<Rightarrow> recover_unfinished_operations (in_list d) (in_marks d) now age co q2))"

datatype InitializationPhase = Preparing | LoadingPersisted | CleaningStale | RecoveringUnfinished | InitCompleted | InitFailed

text \<open>
  The tracked variant: the phase reached, the three counts, and the error of the phase that failed.
  Its duration and its log of messages are omitted.
\<close>

record InitializationResult =
  ir_final_phase :: InitializationPhase
  ir_loaded_count :: nat
  ir_cleaned_count :: nat
  ir_recovered_count :: nat
  ir_error :: "StorageError option"

definition initialize_with_tracking ::
  "init_drv \<Rightarrow> string \<Rightarrow> string \<Rightarrow> (nat \<Rightarrow> nat \<Rightarrow> string) \<Rightarrow> (string \<Rightarrow> int option) \<Rightarrow> OperationCoordinator \<Rightarrow> OperationQueue
     \<Rightarrow> InitializationResult \<times> OperationQueue" where
  "initialize_with_tracking d now0 cutoff now age co q =
     (let res = (\<lambda>ph l c r e. \<lparr>ir_final_phase = ph, ir_loaded_count = l, ir_cleaned_count = c, ir_recovered_count = r, ir_error = e\<rparr>)
      in case load_persisted_active (in_load d) q of
           (Inl e, q1) \<Rightarrow> (res InitFailed 0 0 0 (Some e), q1)
         | (Inr a, q1) \<Rightarrow>
             (let loaded = (case a of Some _ \<Rightarrow> 1 | None \<Rightarrow> 0)
              in case cleanup_stale_operations (in_stale d) (in_reload d) now0 cutoff q1 of
                   (Inl e, q2) \<Rightarrow> (res InitFailed loaded 0 0 (Some e), q2)
                 | (Inr cleaned, q2) \<Rightarrow>
                     (case recover_unfinished_operations (in_list d) (in_marks d) now age co q2 of
                        (Inl e, q3) \<Rightarrow> (res InitFailed loaded cleaned 0 (Some e), q3)
                      | (Inr recovered, q3) \<Rightarrow> (res InitCompleted loaded cleaned recovered None, q3))))"

section \<open>Requests and completion\<close>

definition request_full_index :: "string \<Rightarrow> string \<Rightarrow> string \<Rightarrow> OperationQueue \<Rightarrow> unit result \<times> OperationQueue" where
  "request_full_index now operation_id root_dir q =
     (if has_active_full_index q then (Inr (), q) else enqueue now operation_id FullIndex root_dir PrioFullIndex q)"

definition request_hot_update :: "string \<Rightarrow> string \<Rightarrow> string \<Rightarrow> OperationQueue \<Rightarrow> unit result \<times> OperationQueue" where
  "request_hot_update now operation_id root_dir q = enqueue now operation_id HotUpdate root_dir PrioHotUpdate q"

definition request_incremental :: "string \<Rightarrow> string \<Rightarrow> string \<Rightarrow> OperationQueue \<Rightarrow> unit result \<times> OperationQueue" where
  "request_incremental now operation_id root_dir q = enqueue now operation_id Incremental root_dir PrioIncremental q"

definition can_execute_next :: "OperationQueue \<Rightarrow> bool" where
  "can_execute_next q = (case get_active q of Some a \<Rightarrow> ao_operation_type a \<noteq> FullIndex | None \<Rightarrow> True)"

definition execute_next_operation ::
  "tx_drv \<Rightarrow> string \<Rightarrow> string \<Rightarrow> OperationQueue \<Rightarrow> PendingOperation option result \<times> OperationQueue" where
  "execute_next_operation tx now now' q = (if can_execute_next q then dequeue tx now now' q else (Inr None, q))"

text \<open>A failed cleanup of the artifacts is logged and ignored.\<close>

definition complete_operation ::
  "tx_drv \<Rightarrow> mgr_drv \<Rightarrow> (nat \<Rightarrow> sql_drv) \<Rightarrow> (nat \<Rightarrow> string) \<Rightarrow> OperationCoordinator \<Rightarrow> OperationQueue
     \<Rightarrow> ActiveOperation option result \<times> OperationQueue" where
  "complete_operation tx md cdrv now co q =
     (case complete_active tx (now 0) q of
        (Inl e, q1) \<Rightarrow> (Inl e, q1)
      | (Inr None, q1) \<Rightarrow> (Inr None, q1)
      | (Inr (Some completed), q1) \<Rightarrow>
          (case mark_operation_completed (md_begin md) (md_query md) (md_stmt md) (md_commit md) (now 1) (now 2)
                  (q_project_id q1) (ao_operation_id completed) (q_db q1) of
             (Inl e, db) \<Rightarrow> (Inl e, q1\<lparr>q_db := db\<rparr>)
           | (Inr _, db) \<Rightarrow>
               (Inr (Some completed), q1\<lparr>q_db :=
                  (if co_has_recovery co
                   then snd (cleanup_operation_artifacts cdrv (q_project_id q1) (ao_operation_id completed) db) else db)\<rparr>)))"

definition queue_stats :: "OperationQueue \<Rightarrow> ActiveOperation option \<times> PendingOperation list" where
  "queue_stats q = (get_active q, peek_pending q)"

datatype OperationPhase = Queued | Active | Paused | PhCompleted | PhFailed

definition is_terminal :: "OperationPhase \<Rightarrow> bool" where
  "is_terminal ph \<longleftrightarrow> ph \<in> {PhCompleted, PhFailed}"

definition get_operation_phase :: "sql_drv \<Rightarrow> string \<Rightarrow> OperationQueue \<Rightarrow> OperationPhase result" where
  "get_operation_phase g operation_id q =
     (if (case get_active q of Some a \<Rightarrow> ao_operation_id a = operation_id | None \<Rightarrow> False) then Inr Active
      else if list_ex (\<lambda>x. po_operation_id x = operation_id) (peek_pending q) then Inr Queued
      else case get_checkpoint g (q_project_id q) operation_id (q_db q) of
             Inr (Some cp) \<Rightarrow> (case cp_status cp of
                 Completed \<Rightarrow> Inr PhCompleted | Failed \<Rightarrow> Inr PhFailed | InProgress \<Rightarrow> Inr Active)
           | _ \<Rightarrow> Inl (NotFound (''Operation not found: '' @ operation_id)))"

section \<open>Rewriting rows without faults\<close>

definition md_ok :: "mgr_drv \<Rightarrow> bool" where
  "md_ok md \<longleftrightarrow> md_begin md = None \<and> sql_ok (md_query md) \<and> sql_ok (md_stmt md) \<and> md_commit md = None"

definition rows_ok :: "Db \<Rightarrow> bool" where
  "rows_ok db \<longleftrightarrow> distinct (map cp_key (checkpoint_tbl db)) \<and> (\<forall>r \<in> set (checkpoint_tbl db). checkpoint_checks r)"

lemma rows_ok_wf: "db_wf db \<Longrightarrow> rows_ok db"
  by (simp add: db_wf_def keys_ok_def rows_ok_def)

lemma rewrite_checkpoint_succeeds:
  assumes "sql_ok g" "sql_ok drv" "rows_ok db" "\<And>r. checkpoint_checks (change r) = checkpoint_checks r"
  shows "\<exists>db'. rewrite_checkpoint None g drv None now' p oid change db = (Inr (), db')"
proof (cases "find (\<lambda>r. cp_key r = (p, oid)) (checkpoint_tbl db)")
  case None
  with assms(1) show ?thesis by (simp add: rewrite_checkpoint_def manager_transaction_def get_checkpoint_ok)
next
  case (Some cp)
  then have "cp \<in> set (checkpoint_tbl db)" by (auto simp: find_Some_iff)
  with assms(3,4) have "checkpoint_checks (change cp)" by (simp add: rows_ok_def)
  with Some assms(1,2) show ?thesis
    by (simp add: rewrite_checkpoint_def manager_transaction_def get_checkpoint_ok update_checkpoint_def sql_exec_def Let_def)
qed

text \<open>A table in which the rows with a key in \<open>S\<close> have been marked as failed.\<close>

definition failed_row :: "CheckpointRecord \<Rightarrow> bool" where
  "failed_row r \<longleftrightarrow> cp_status r = Failed \<and> \<not> cp_active_flag r \<and> cp_last_error r = Some ''stale recovery skipped''"

definition marked_failed :: "(int \<times> string) set \<Rightarrow> CheckpointRecord list \<Rightarrow> CheckpointRecord list \<Rightarrow> bool" where
  "marked_failed S rs rs' \<longleftrightarrow> list_all2 (\<lambda>r r'. cp_key r' = cp_key r \<and> checkpoint_checks r' = checkpoint_checks r
     \<and> (if cp_key r \<in> S then failed_row r' else r' = r)) rs rs'"

lemma marked_failed_refl: "marked_failed {} rs rs"
  by (simp add: marked_failed_def list_all2_refl)

lemma marked_failed_trans:
  assumes "marked_failed S rs rs'" "marked_failed T rs' rs''"
  shows "marked_failed (S \<union> T) rs rs''"
  using assms unfolding marked_failed_def by (rule list_all2_trans [rotated]) (auto split: if_splits)

lemma marked_failed_keys:
  assumes "marked_failed S rs rs'"
  shows "map cp_key rs' = map cp_key rs" "(\<forall>r \<in> set rs. checkpoint_checks r) \<Longrightarrow> (\<forall>r \<in> set rs'. checkpoint_checks r)"
proof -
  show "map cp_key rs' = map cp_key rs"
    using assms unfolding marked_failed_def by (induction rule: list_all2_induct) auto
  show "(\<forall>r \<in> set rs'. checkpoint_checks r)" if "\<forall>r \<in> set rs. checkpoint_checks r"
    using assms that unfolding marked_failed_def by (induction rule: list_all2_induct) auto
qed

lemma mark_failed_spec:
  assumes "md_ok md" "rows_ok db"
  shows "\<exists>db'. mark_operation_failed (md_begin md) (md_query md) (md_stmt md) (md_commit md) t0 t1 t2 p oid ''stale recovery skipped'' db = (Inr (), db')
    \<and> marked_failed {(p, oid)} (checkpoint_tbl db) (checkpoint_tbl db') \<and> rows_ok db'"
proof -
  let ?change = "\<lambda>cp. cp\<lparr>cp_status := Failed, cp_last_error := Some ''stale recovery skipped'', cp_updated_at := t0,
      cp_failed_at := Some t1, cp_active_flag := False\<rparr>"
  have "\<exists>db'. rewrite_checkpoint None (md_query md) (md_stmt md) None t2 p oid ?change db = (Inr (), db')"
    using assms by (intro rewrite_checkpoint_succeeds) (simp_all add: md_ok_def checkpoint_checks_def)
  then obtain db' where db': "rewrite_checkpoint None (md_query md) (md_stmt md) None t2 p oid ?change db = (Inr (), db')" ..
  have tbl: "checkpoint_tbl db' = update_where (\<lambda>r. cp_key r = (p, oid)) (\<lambda>r. (?change r)\<lparr>cp_updated_at := t2\<rparr>) (checkpoint_tbl db)"
    using rewrite_checkpoint_ok [OF db'] assms(2) by (simp add: rows_ok_def)
  have "marked_failed {(p, oid)} (checkpoint_tbl db) (checkpoint_tbl db')"
    unfolding tbl marked_failed_def update_where_def
    by (auto simp: list_all2_map2 list_all2_same failed_row_def checkpoint_checks_def)
  with marked_failed_keys [OF this] db' assms show ?thesis
    by (auto simp: mark_operation_failed_def md_ok_def rows_ok_def)
qed

section \<open>Replaying the unfinished operations\<close>

definition replays :: "(string \<Rightarrow> int option) \<Rightarrow> OperationCoordinator \<Rightarrow> OperationKind \<Rightarrow> CheckpointRecord \<Rightarrow> bool" where
  "replays age co k cp \<longleftrightarrow> \<not> is_stale_for_recovery age co cp \<and> kind_from_str (cp_operation_type cp) = Inr k"

definition cp_view :: "CheckpointRecord \<Rightarrow> string \<times> string" where
  "cp_view cp = (cp_operation_id cp, cp_root_dir cp)"

definition queued :: "OperationKind \<Rightarrow> (string \<times> string) list \<Rightarrow> PendingOperation list \<Rightarrow> bool" where
  "queued k l xs \<longleftrightarrow> map (\<lambda>x. (po_operation_id x, po_root_dir x)) xs = l
     \<and> (\<forall>x \<in> set xs. po_operation_type x = k \<and> po_priority x = replay_priority k \<and> po_status x = ''pending'')"

lemma queued_snoc:
  "queued k l xs \<Longrightarrow> po_operation_type x = k \<Longrightarrow> po_priority x = replay_priority k \<Longrightarrow> po_status x = ''pending''
     \<Longrightarrow> queued k (l @ [(po_operation_id x, po_root_dir x)]) (xs @ [x])"
  by (auto simp: queued_def)

lemma queued_roots: "queued k l xs \<Longrightarrow> x \<in> set xs \<Longrightarrow> po_root_dir x \<in> set (map snd l)"
  by (auto simp: queued_def image_image)

lemma queued_member: "queued k l xs \<Longrightarrow> v \<in> set l \<Longrightarrow> \<exists>x \<in> set xs. (po_operation_id x, po_root_dir x) = v"
  by (auto simp: queued_def)

lemma queued_length: "queued k l xs \<Longrightarrow> length l = length xs"
  by (auto simp: queued_def)

lemma insert_behind:
  assumes "\<forall>x \<in> set xs. po_priority new \<le> po_priority x" "\<forall>y \<in> set ys. po_priority y < po_priority new"
  shows "insert_by_priority new (xs @ ys) = xs @ new # ys"
  using assms
proof (induction xs)
  case Nil
  then show ?case by (cases ys) simp_all
qed (auto simp: not_less dest: leD)

lemma enqueue_behind:
  assumes pend: "q_pending q = xs @ ys" and room: "length (xs @ ys) < MAX_PENDING_OPERATIONS"
    and new: "\<forall>x \<in> set (xs @ ys). po_operation_type x = k \<longrightarrow> po_root_dir x \<noteq> root"
    and order: "\<forall>x \<in> set xs. prio \<le> po_priority x" "\<forall>y \<in> set ys. po_priority y < prio"
  shows "enqueue now oid k root prio q = (Inr (), q\<lparr>q_pending := xs @
     \<lparr>po_project_id = q_project_id q, po_operation_id = oid, po_operation_type = k, po_priority = prio,
      po_root_dir = root, po_created_at = now, po_status = ''pending''\<rparr> # ys\<rparr>)"
proof -
  have "filter (\<lambda>x. \<not> (po_operation_type x = k \<and> po_root_dir x = root)) (xs @ ys) = xs @ ys"
    using new by (intro filter_True) auto
  with assms show ?thesis by (simp add: enqueue_def Let_def insert_behind drop_lowest_def)
qed

text \<open>
  The queue holds full indexes \<open>xs\<close> before incremental ones \<open>ys\<close>; each round either marks a row or
  extends one of the two lists.
\<close>

definition replay_state :: "(string \<times> string) list \<Rightarrow> (string \<times> string) list \<Rightarrow> OperationQueue \<Rightarrow> bool" where
  "replay_state F I q \<longleftrightarrow> (\<exists>xs ys. q_pending q = xs @ ys \<and> queued FullIndex F xs \<and> queued Incremental I ys)"

lemma replay_stateI:
  "q_pending q = xs @ ys \<Longrightarrow> queued FullIndex F xs \<Longrightarrow> queued Incremental I ys \<Longrightarrow> replay_state F I q"
  by (auto simp: replay_state_def)

lemma replay_state_full:
  assumes st: "replay_state F I q" and new: "root \<notin> set (map snd F)" and room: "length F + length I < MAX_PENDING_OPERATIONS"
  shows "\<exists>q'. enqueue now oid FullIndex root (replay_priority FullIndex) q = (Inr (), q')
    \<and> replay_state (F @ [(oid, root)]) I q' \<and> q' = q\<lparr>q_pending := q_pending q'\<rparr>"
proof -
  obtain xs ys where q: "q_pending q = xs @ ys" and xs: "queued FullIndex F xs" and ys: "queued Incremental I ys"
    using st by (auto simp: replay_state_def)
  let ?new = "\<lparr>po_project_id = q_project_id q, po_operation_id = oid, po_operation_type = FullIndex, po_priority = PrioFullIndex,
      po_root_dir = root, po_created_at = now, po_status = ''pending''\<rparr>"
  have "enqueue now oid FullIndex root PrioFullIndex q = (Inr (), q\<lparr>q_pending := xs @ ?new # ys\<rparr>)"
    using q xs ys new room queued_roots [OF xs] queued_length [OF xs] queued_length [OF ys]
    by (intro enqueue_behind) (auto simp: queued_def less_OperationPriority_def)
  moreover have "queued FullIndex (F @ [(oid, root)]) (xs @ [?new])"
    using queued_snoc [OF xs, of ?new] by simp
  ultimately show ?thesis using ys replay_stateI [where xs = "xs @ [?new]" and ys = ys] by simp
qed

lemma replay_state_incremental:
  assumes st: "replay_state F I q" and new: "root \<notin> set (map snd I)" and room: "length F + length I < MAX_PENDING_OPERATIONS"
  shows "\<exists>q'. enqueue now oid Incremental root (replay_priority Incremental) q = (Inr (), q')
    \<and> replay_state F (I @ [(oid, root)]) q' \<and> q' = q\<lparr>q_pending := q_pending q'\<rparr>"
proof -
  obtain xs ys where q: "q_pending q = xs @ ys" and xs: "queued FullIndex F xs" and ys: "queued Incremental I ys"
    using st by (auto simp: replay_state_def)
  let ?new = "\<lparr>po_project_id = q_project_id q, po_operation_id = oid, po_operation_type = Incremental, po_priority = PrioIncremental,
      po_root_dir = root, po_created_at = now, po_status = ''pending''\<rparr>"
  have "enqueue now oid Incremental root PrioIncremental q = (Inr (), q\<lparr>q_pending := (xs @ ys) @ ?new # []\<rparr>)"
    using q xs ys new room queued_roots [OF ys] queued_length [OF xs] queued_length [OF ys]
    by (intro enqueue_behind) (auto simp: queued_def less_eq_OperationPriority_def)
  moreover have "queued Incremental (I @ [(oid, root)]) (ys @ [?new])"
    using queued_snoc [OF ys, of ?new] by simp
  ultimately show ?thesis using xs replay_stateI [where xs = xs and ys = "ys @ [?new]"] by simp
qed

definition stale_keys :: "(string \<Rightarrow> int option) \<Rightarrow> OperationCoordinator \<Rightarrow> int \<Rightarrow> CheckpointRecord list \<Rightarrow> (int \<times> string) set" where
  "stale_keys age co p cps = {(p, cp_operation_id cp) | cp. cp \<in> set cps \<and> is_stale_for_recovery age co cp}"

lemma stale_keys_simps [simp]:
  "stale_keys age co p [] = {}"
  "stale_keys age co p (cp # cps) =
     (if is_stale_for_recovery age co cp then {(p, cp_operation_id cp)} else {}) \<union> stale_keys age co p cps"
  by (auto simp: stale_keys_def)

definition replayable :: "(string \<Rightarrow> int option) \<Rightarrow> OperationCoordinator \<Rightarrow> CheckpointRecord list \<Rightarrow> bool" where
  "replayable age co cps \<longleftrightarrow>
     (\<forall>cp \<in> set cps. is_stale_for_recovery age co cp \<or> \<not> isl (kind_from_str (cp_operation_type cp)))"

lemma replay_exact:
  assumes "\<And>i. md_ok (mds i)" "replayable age co cps" "rows_ok (q_db q)" "replay_state F I q"
    and "length F + length I + length (filter (replays age co FullIndex) cps) + length (filter (replays age co Incremental) cps)
           \<le> MAX_PENDING_OPERATIONS"
    and "distinct (map snd F @ map cp_root_dir (filter (replays age co FullIndex) cps))"
    and "distinct (map snd I @ map cp_root_dir (filter (replays age co Incremental) cps))"
  shows "\<exists>q'. replay mds now age co cps n q
        = (Inr (n + length (filter (replays age co FullIndex) cps) + length (filter (replays age co Incremental) cps)), q')
      \<and> replay_state (F @ map cp_view (filter (replays age co FullIndex) cps))
                     (I @ map cp_view (filter (replays age co Incremental) cps)) q'
      \<and> q_active q' = q_active q
      \<and> marked_failed (stale_keys age co (q_project_id q) cps) (checkpoint_tbl (q_db q)) (checkpoint_tbl (q_db q'))"
  using assms(2-)
proof (induction cps arbitrary: n q F I)
  case Nil
  then show ?case by (simp add: marked_failed_refl)
next
  case (Cons cp cps)
  let ?i = "length cps" and ?full = "filter (replays age co FullIndex) cps" and ?inc = "filter (replays age co Incremental) cps"
  have rest: "replayable age co cps" using Cons.prems(1) by (simp add: replayable_def)
  show ?case
  proof (cases "is_stale_for_recovery age co cp")
    case True
    then have off: "\<not> replays age co k cp" for k by (simp add: replays_def)
    obtain db' where mark: "mark_operation_failed (md_begin (mds ?i)) (md_query (mds ?i)) (md_stmt (mds ?i)) (md_commit (mds ?i))
        (now ?i 0) (now ?i 1) (now ?i 2) (q_project_id q) (cp_operation_id cp) ''stale recovery skipped'' (q_db q) = (Inr (), db')"
      and m: "marked_failed {(q_project_id q, cp_operation_id cp)} (checkpoint_tbl (q_db q)) (checkpoint_tbl db')" and "rows_ok db'"
      using mark_failed_spec [OF assms(1) Cons.prems(2)] by blast
    then have "rows_ok (q_db (q\<lparr>q_db := db'\<rparr>))" "replay_state F I (q\<lparr>q_db := db'\<rparr>)"
      using Cons.prems(3) by (simp_all add: replay_state_def)
    from Cons.IH [OF rest this, of n] Cons.prems(4-) off
    show ?thesis using True mark marked_failed_trans [OF m] by (auto simp: Let_def)
  next
    case False
    then obtain k where k: "kind_from_str (cp_operation_type cp) = Inr k"
      using Cons.prems(1) by (cases "kind_from_str (cp_operation_type cp)") (auto simp: replayable_def)
    then have rk: "replays age co k' cp \<longleftrightarrow> k' = k" for k' using False by (auto simp: replays_def)
    consider "k = FullIndex" | "k = Incremental" | "k = HotUpdate \<or> k = ConfigChange" by (cases k) auto
    then show ?thesis
    proof cases
      case 1
      then obtain q' where "enqueue (now ?i 0) (cp_operation_id cp) k (cp_root_dir cp) (replay_priority k) q = (Inr (), q')"
        and st: "replay_state (F @ [cp_view cp]) I q'" and q': "q' = q\<lparr>q_pending := q_pending q'\<rparr>"
        using replay_state_full [OF Cons.prems(3), where root = "cp_root_dir cp" and now = "now ?i 0" and oid = "cp_operation_id cp"] Cons.prems(4,5) by (auto simp: rk cp_view_def)
      moreover have "q_db q' = q_db q" "q_active q' = q_active q" "q_project_id q' = q_project_id q"
        by (subst q', simp)+
      ultimately show ?thesis
        using Cons.IH [OF rest _ st, of "Suc n"] Cons.prems(2,4-) 1 False k by (auto simp: Let_def rk cp_view_def)
    next
      case 2
      then obtain q' where "enqueue (now ?i 0) (cp_operation_id cp) k (cp_root_dir cp) (replay_priority k) q = (Inr (), q')"
        and st: "replay_state F (I @ [cp_view cp]) q'" and q': "q' = q\<lparr>q_pending := q_pending q'\<rparr>"
        using replay_state_incremental [OF Cons.prems(3), where root = "cp_root_dir cp" and now = "now ?i 0" and oid = "cp_operation_id cp"] Cons.prems(4,6) by (auto simp: rk cp_view_def)
      moreover have "q_db q' = q_db q" "q_active q' = q_active q" "q_project_id q' = q_project_id q"
        by (subst q', simp)+
      ultimately show ?thesis
        using Cons.IH [OF rest _ st, of "Suc n"] Cons.prems(2,4-) 2 False k by (auto simp: Let_def rk cp_view_def)
    next
      case 3
      then show ?thesis
        using Cons.IH [OF rest Cons.prems(2,3), of n] Cons.prems(4-) False k by (auto simp: Let_def rk)
    qed
  qed
qed

section \<open>Recovery of the unfinished operations\<close>

definition unfinished :: "int \<Rightarrow> Db \<Rightarrow> CheckpointRecord list" where
  "unfinished p db = order_by cp_created_at (filter (\<lambda>r. cp_project_id r = p \<and> cp_status r = InProgress) (checkpoint_tbl db))"

text \<open>
  What the queue must admit: the types parse, no two operations of a kind share their root directory,
  and they fit.
\<close>

definition admissible :: "(string \<Rightarrow> int option) \<Rightarrow> OperationCoordinator \<Rightarrow> CheckpointRecord list \<Rightarrow> bool" where
  "admissible age co cps \<longleftrightarrow> replayable age co cps
     \<and> length (filter (replays age co FullIndex) cps) + length (filter (replays age co Incremental) cps) \<le> MAX_PENDING_OPERATIONS
     \<and> distinct (map cp_root_dir (filter (replays age co FullIndex) cps))
     \<and> distinct (map cp_root_dir (filter (replays age co Incremental) cps))"

lemma stale_failed_at [simp]: "is_stale_for_recovery age co (cp\<lparr>cp_failed_at := x\<rparr>) = is_stale_for_recovery age co cp"
  by (simp add: is_stale_for_recovery_def split: option.split)

lemma cp_view_failed_at [simp]: "cp_view (cp\<lparr>cp_failed_at := x\<rparr>) = cp_view cp"
  by (simp add: cp_view_def)

lemma replays_failed_at [simp]: "replays age co k (cp\<lparr>cp_failed_at := x\<rparr>) = replays age co k cp"
  by (simp add: replays_def)

lemma filter_replays_rows:
  "filter (replays age co k) (map (cp_failed_at_update (\<lambda>_. x)) cps) = map (cp_failed_at_update (\<lambda>_. x)) (filter (replays age co k) cps)"
  by (simp add: filter_map o_def)

lemma stale_keys_rows: "stale_keys age co p (map (cp_failed_at_update (\<lambda>_. x)) cps) = stale_keys age co p cps"
  by (induction cps) simp_all

lemma recover_exact:
  assumes "sql_ok g" "\<And>i. md_ok (mds i)" "rows_ok (q_db q)" "q_pending q = []"
    and adm: "admissible age co (unfinished (q_project_id q) (q_db q))"
  shows "\<exists>q'. recover_unfinished_operations g mds now age co q
        = (Inr (length (filter (replays age co FullIndex) (unfinished (q_project_id q) (q_db q)))
              + length (filter (replays age co Incremental) (unfinished (q_project_id q) (q_db q)))), q')
      \<and> replay_state (map cp_view (filter (replays age co FullIndex) (unfinished (q_project_id q) (q_db q))))
                     (map cp_view (filter (replays age co Incremental) (unfinished (q_project_id q) (q_db q)))) q'
      \<and> q_active q' = q_active q
      \<and> marked_failed (stale_keys age co (q_project_id q) (unfinished (q_project_id q) (q_db q)))
          (checkpoint_tbl (q_db q)) (checkpoint_tbl (q_db q'))"
proof -
  let ?U = "unfinished (q_project_id q) (q_db q)"
  let ?R = "map (cp_failed_at_update (\<lambda>_. None)) ?U"
  have list: "get_unfinished_operations g (q_project_id q) (q_db q) = Inr ?R"
    using assms(1) by (simp add: get_unfinished_operations_def query_fails_def unfinished_def)
  have "replay_state [] [] q" using assms(4) by (simp add: replay_state_def queued_def)
  moreover have "replayable age co ?R" using adm by (simp add: admissible_def replayable_def)
  ultimately show ?thesis
    using replay_exact [where cps = ?R and F = "[]" and I = "[]" and n = 0 and now = now and mds = mds, OF assms(2) _ assms(3)] adm
    by (simp add: recover_unfinished_operations_def list filter_replays_rows stale_keys_rows admissible_def o_def)
qed


text \<open>
  A restart queues the running operation again. When the active operation of the database is a full index
  in progress, its heartbeat is recent and it lies within the freshness window, initialization succeeds with
  that operation both in the active slot and among the pending ones: once it completes, it is handed out a
  second time.
\<close>

theorem restart_requeues_active:
  assumes faults: "sql_ok (in_load d)" "sql_ok (in_stale d)" "sql_ok (in_reload d)" "sql_ok (in_list d)" "\<And>i. md_ok (in_marks d i)"
    and fresh: "db_wf (q_db q)" "q_pending q = []" "admissible age co (unfinished (q_project_id q) (q_db q))"
    and active: "find (\<lambda>r. cp_project_id r = q_project_id q \<and> cp_active_flag r) (checkpoint_tbl (q_db q)) = Some r"
    and r: "cp_status r = InProgress" "replays age co FullIndex r" "from_i32 (cp_priority r) = Some prio"
    and live: "\<forall>r \<in> set (checkpoint_tbl (q_db q)). \<not> stale_active (q_project_id q) cutoff r"
  shows "\<exists>n q' a x. co_initialize d now0 cutoff now age co q = (Inr n, q') \<and> q_active q' = Some a \<and> x \<in> set (q_pending q')
     \<and> ao_operation_id a = cp_operation_id r \<and> po_operation_id x = cp_operation_id r"
proof -
  let ?a = "\<lparr>ao_project_id = cp_project_id r, ao_operation_id = cp_operation_id r, ao_operation_type = FullIndex,
      ao_priority = prio, ao_started_at = cp_created_at r, ao_root_dir = cp_root_dir r\<rparr>"
  let ?q1 = "q\<lparr>q_active := Some ?a\<rparr>" and ?U = "unfinished (q_project_id q) (q_db q)"
  have load: "load_persisted_active (in_load d) q = (Inr (Some ?a), ?q1)"
    using faults(1) active r by (simp add: load_persisted_active_def get_active_checkpoint_def query_fails_def replays_def Let_def)
  have "update_where (stale_active (q_project_id q) cutoff) f (checkpoint_tbl (q_db q)) = checkpoint_tbl (q_db q)" for f
    using live by (simp add: update_where_def map_idI)
  moreover have "rows_affected (stale_active (q_project_id q) cutoff) (checkpoint_tbl (q_db q)) = 0"
    using live by (simp add: rows_affected_def filter_empty_conv)
  ultimately have clean: "cleanup_stale_operations (in_stale d) (in_reload d) now0 cutoff ?q1 = (Inr 0, ?q1)"
    using faults(2) by (simp add: cleanup_stale_operations_def cleanup_stale_active_def)
  obtain n q' where rec: "recover_unfinished_operations (in_list d) (in_marks d) now age co ?q1 = (Inr n, q')"
    and st: "replay_state (map cp_view (filter (replays age co FullIndex) ?U)) (map cp_view (filter (replays age co Incremental) ?U)) q'"
    and act: "q_active q' = Some ?a"
    using recover_exact [where q = ?q1 and now = now and mds = "in_marks d" and age = age and co = co, OF faults(4,5)]
      rows_ok_wf [OF fresh(1)] fresh(2,3) by auto
  have "r \<in> set ?U" using active r(1) by (auto simp: unfinished_def order_by_def find_Some_iff)
  with r(2) have "cp_view r \<in> set (map cp_view (filter (replays age co FullIndex) ?U))" by auto
  with st obtain xs where "set xs \<subseteq> set (q_pending q')" "\<exists>x \<in> set xs. (po_operation_id x, po_root_dir x) = cp_view r"
    unfolding replay_state_def by (metis queued_member set_append Un_upper1)
  then obtain x where "x \<in> set (q_pending q')" "po_operation_id x = cp_operation_id r" by (auto simp: cp_view_def)
  with load clean rec act show ?thesis by (auto simp: co_initialize_def)
qed

lemma filter_update_other:
  "(\<And>r. k r \<Longrightarrow> k (f r)) \<Longrightarrow> filter (\<lambda>r. \<not> k r) (update_where k f rs) = filter (\<lambda>r. \<not> k r) rs"
  by (induction rs) (auto simp: update_where_def)

lemma cleanup_keeps_checkpoints [simp]:
  "checkpoint_tbl (snd (cleanup_operation_artifacts drvs p oid db)) = checkpoint_tbl db"
  by (auto simp: cleanup_operation_artifacts_def and_then_def delete_checkpoint_files_by_operation_id_def
      delete_checkpoint_batches_by_operation_id_def delete_work_units_by_operation_id_def delete_batches_where_def Let_def
      split: sum.split)

text \<open>
  A completed operation is never recovered. When \<^verbatim>\<open>complete_operation\<close> succeeds, with or without the
  cleanup of the artifacts, the operation's row is completed and inactive, so neither the list of unfinished
  operations nor the active ones contain it, and every row of another operation is as it was.
\<close>

theorem completed_never_recovered:
  assumes "db_wf (q_db q)" "complete_operation tx md cdrv now co q = (Inr (Some a), q')"
  shows "ao_operation_id a \<notin> set (map cp_operation_id (unfinished (q_project_id q) (q_db q')))
     \<and> ao_operation_id a \<notin> set (active_ops (q_project_id q) (q_db q'))
     \<and> filter (\<lambda>r. cp_key r \<noteq> (q_project_id q, ao_operation_id a)) (checkpoint_tbl (q_db q'))
       = filter (\<lambda>r. cp_key r \<noteq> (q_project_id q, ao_operation_id a)) (checkpoint_tbl (q_db q))"
proof -
  obtain db1 db2 where c: "complete_active tx (now 0) q = (Inr (Some a), q\<lparr>q_active := None, q_db := db1\<rparr>)"
    and m: "mark_operation_completed (md_begin md) (md_query md) (md_stmt md) (md_commit md) (now 1) (now 2)
       (q_project_id q) (ao_operation_id a) db1 = (Inr (), db2)"
    and q': "checkpoint_tbl (q_db q') = checkpoint_tbl db2"
    using assms(2)
    by (auto simp: complete_operation_def complete_active_def split: prod.splits sum.splits option.splits if_splits)
  let ?k = "\<lambda>r. cp_key r = (q_project_id q, ao_operation_id a)"
  have t1: "checkpoint_tbl db1 = update_where ?k (\<lambda>r. r\<lparr>cp_active_flag := False, cp_updated_at := now 0\<rparr>) (checkpoint_tbl (q_db q))"
  proof -
    obtain db' where t: "in_transaction tx (\<lambda>drv. clear_active_flag drv (now 0) (q_project_id q) (ao_operation_id a)) (q_db q) = (Inr (), db')"
      and act: "q_active q = Some a"
      using c by (auto simp: complete_active_def split: option.splits sum.splits prod.splits)
    have "db1 = db'" using arg_cong [OF c, of "\<lambda>r. q_db (snd r)"] t act by (simp add: complete_active_def)
    with t show ?thesis by (auto simp: in_transaction_Inr clear_active_flag_def split: sum.splits)
  qed
  have keys: "map cp_key (checkpoint_tbl db1) = map cp_key (checkpoint_tbl (q_db q))"
    by (auto simp: t1 update_where_def)
  have t2: "checkpoint_tbl db2 = update_where ?k (\<lambda>r. r\<lparr>cp_status := Completed, cp_updated_at := now 2\<rparr>) (checkpoint_tbl db1)"
    using rewrite_checkpoint_ok [OF m [unfolded mark_operation_completed_def]] keys assms(1)
    by (simp add: db_wf_def keys_ok_def)
  have row: "cp_status r = Completed \<and> \<not> cp_active_flag r" if "r \<in> set (checkpoint_tbl db2)" "?k r" for r
    using that by (auto simp: t1 t2 update_where_def split: if_splits)
  then have "ao_operation_id a \<notin> set (map cp_operation_id (unfinished (q_project_id q) (q_db q')))"
    by (auto simp: unfinished_def order_by_def q')
  moreover have "ao_operation_id a \<notin> set (active_ops (q_project_id q) (q_db q'))"
    using row by (auto simp: active_ops_def q')
  moreover have "filter (\<lambda>r. \<not> ?k r) (checkpoint_tbl (q_db q')) = filter (\<lambda>r. \<not> ?k r) (checkpoint_tbl (q_db q))"
    unfolding q' t1 t2 by (subst filter_update_other, simp)+ (rule refl)
  ultimately show ?thesis by simp
qed

section \<open>A project with three unfinished operations\<close>

definition sample_co :: OperationCoordinator where
  "sample_co = \<lparr>co_project_id = 7, co_has_recovery = True, co_heartbeat_timeout_secs = 300, co_recovery_freshness_secs = Some 60\<rparr>"

definition sample_age :: "string \<Rightarrow> int option" where
  "sample_age t = (if t = ''t0'' then Some 5 else if t = ''old'' then Some 100 else None)"

definition sample_restart_db :: Db where
  "sample_restart_db = (empty_db True)\<lparr>checkpoint_tbl :=
     [sample_checkpoint\<lparr>cp_operation_id := ''inc'', cp_operation_type := ''incremental'', cp_active_flag := False\<rparr>,
      sample_checkpoint,
      sample_checkpoint\<lparr>cp_operation_id := ''gone'', cp_updated_at := ''old'', cp_active_flag := False\<rparr>]\<rparr>"

definition sample_restart :: OperationQueue where
  "sample_restart = \<lparr>q_project_id = 7, q_active = None, q_pending = [], q_db = sample_restart_db\<rparr>"

definition md_none :: mgr_drv where
  "md_none = \<lparr>md_begin = None, md_query = drv_ok, md_stmt = drv_ok, md_commit = None\<rparr>"

lemma md_none_ok: "md_ok md_none"
  by (simp add: md_ok_def md_none_def drv_ok_def)

lemma sample_restart_fields [simp]:
  "q_project_id sample_restart = 7" "q_pending sample_restart = []" "q_db sample_restart = sample_restart_db"
  by (simp_all add: sample_restart_def)

lemma sample_restart_wf: "db_wf sample_restart_db"
  by (simp add: sample_restart_db_def sample_checkpoint_def empty_db_def db_wf_def keys_ok_def fks_ok_def checkpoint_checks_def)

lemma sample_unfinished: "unfinished 7 sample_restart_db = checkpoint_tbl sample_restart_db"
  by (simp add: unfinished_def order_by_def sample_restart_db_def sample_checkpoint_def)

lemma sample_replays:
  "filter (replays sample_age sample_co FullIndex) (checkpoint_tbl sample_restart_db) = [sample_checkpoint]"
  "filter (replays sample_age sample_co Incremental) (checkpoint_tbl sample_restart_db)
     = [sample_checkpoint\<lparr>cp_operation_id := ''inc'', cp_operation_type := ''incremental'', cp_active_flag := False\<rparr>]"
  by (simp_all add: sample_restart_db_def sample_checkpoint_def replays_def is_stale_for_recovery_def sample_co_def sample_age_def
      kind_from_str_def)

lemma sample_admissible: "admissible sample_age sample_co (unfinished 7 sample_restart_db)"
proof -
  have "replayable sample_age sample_co (checkpoint_tbl sample_restart_db)"
    by (simp add: replayable_def sample_restart_db_def sample_checkpoint_def kind_from_str_def)
  then show ?thesis
    by (simp add: admissible_def sample_unfinished sample_replays MAX_PENDING_OPERATIONS_def)
qed


definition sample_init :: init_drv where
  "sample_init = \<lparr>in_load = drv_ok, in_stale = drv_ok, in_reload = drv_ok, in_list = drv_ok, in_marks = \<lambda>_. md_none\<rparr>"

theorem restart_requeues_active_witness:
  "\<exists>n q' a x. co_initialize sample_init ''t9'' ''t1'' (\<lambda>_ _. ''now'') sample_age sample_co sample_restart = (Inr n, q')
     \<and> q_active q' = Some a \<and> x \<in> set (q_pending q') \<and> ao_operation_id a = ''op'' \<and> po_operation_id x = ''op''"
proof -
  have op: "cp_operation_id sample_checkpoint = ''op''" by (simp add: sample_checkpoint_def)
  have "find (\<lambda>r. cp_project_id r = 7 \<and> cp_active_flag r) (checkpoint_tbl sample_restart_db) = Some sample_checkpoint"
    by (simp add: sample_restart_db_def sample_checkpoint_def)
  moreover have "cp_status sample_checkpoint = InProgress" "replays sample_age sample_co FullIndex sample_checkpoint"
    "from_i32 (cp_priority sample_checkpoint) = Some PrioFullIndex"
    by (simp_all add: sample_checkpoint_def replays_def is_stale_for_recovery_def sample_co_def sample_age_def kind_from_str_def from_i32_def)
  moreover have "\<forall>r \<in> set (checkpoint_tbl sample_restart_db). \<not> stale_active 7 ''t1'' r"
    by (simp add: sample_restart_db_def sample_checkpoint_def stale_active_def)
  ultimately show ?thesis
    using restart_requeues_active [where d = sample_init and q = sample_restart and age = sample_age and co = sample_co
        and r = sample_checkpoint and prio = PrioFullIndex and cutoff = "''t1''"] sample_restart_wf sample_admissible op md_none_ok
    by (simp add: sample_init_def drv_ok_def)
qed

theorem completed_never_recovered_witness:
  "let q = sample_restart\<lparr>q_active := Some \<lparr>ao_project_id = 7, ao_operation_id = ''op'', ao_operation_type = FullIndex,
         ao_priority = PrioFullIndex, ao_started_at = ''t0'', ao_root_dir = ''/r''\<rparr>\<rparr>;
       q' = snd (complete_operation tx_ok md_none (\<lambda>_. drv_ok) (\<lambda>_. ''t9'') sample_co q)
   in ''op'' \<notin> set (map cp_operation_id (unfinished 7 (q_db q')))"
proof -
  define q where "q = sample_restart\<lparr>q_active := Some \<lparr>ao_project_id = 7, ao_operation_id = ''op'', ao_operation_type = FullIndex,
         ao_priority = PrioFullIndex, ao_started_at = ''t0'', ao_root_dir = ''/r''\<rparr>\<rparr>"
  have "map_sum id (map_option ao_operation_id) (fst (complete_operation tx_ok md_none (\<lambda>_. drv_ok) (\<lambda>_. ''t9'') sample_co q)) = Inr (Some ''op'')"
    by (simp add: complete_operation_def complete_active_def in_transaction_def clear_active_flag_def tx_ok_def drv_ok_def md_none_def
        mark_operation_completed_def rewrite_checkpoint_def manager_transaction_def get_checkpoint_def query_fails_def
        update_checkpoint_def update_where_def sample_restart_db_def sample_checkpoint_def checkpoint_checks_def q_def Let_def)
  then obtain a where "fst (complete_operation tx_ok md_none (\<lambda>_. drv_ok) (\<lambda>_. ''t9'') sample_co q) = Inr (Some a)" "ao_operation_id a = ''op''"
    by (cases "fst (complete_operation tx_ok md_none (\<lambda>_. drv_ok) (\<lambda>_. ''t9'') sample_co q)") auto
  then show ?thesis
    using completed_never_recovered [of q tx_ok md_none "\<lambda>_. drv_ok" "\<lambda>_. ''t9''" sample_co a] sample_restart_wf
    by (cases "complete_operation tx_ok md_none (\<lambda>_. drv_ok) (\<lambda>_. ''t9'') sample_co q") (simp add: q_def Let_def)
qed

end
