(* ===== verification/Rust_Parse.thy ===== *)
theory Rust_Parse
  imports Rust_Strings
begin

text \<open>
  More of \<^verbatim>\<open>str\<close>: trimming, splitting once, ASCII case, and the integer parsers. A string is the list
  of its UTF-8 bytes; \<open>white_space\<close> lists the encodings of the characters with the Unicode property
  \<^verbatim>\<open>White_Space\<close>. Nothing here models a line of the program itself.
\<close>

section \<open>Trimming\<close>

definition white_space :: "string list" where
  "white_space = map (map char_of) ([[9], [10], [11], [12], [13], [32], [194, 133], [194, 160], [225, 154, 128]]
     @ map (\<lambda>b. [226, 128, b]) [128..<139] @ [[226, 128, 168], [226, 128, 169], [226, 128, 175], [226, 129, 159], [227, 128, 128 :: nat]])"

definition printable :: "char \<Rightarrow> bool" where
  "printable c \<longleftrightarrow> 33 \<le> (of_char c :: nat) \<and> (of_char c :: nat) < 127"

lemma white_space_bytes: "list_all (\<lambda>w. w \<noteq> [] \<and> \<not> printable (hd w) \<and> \<not> printable (last w)) white_space"
  by (simp add: white_space_def printable_def upt_conv_Cons)

lemma white_space_ne: "[] \<notin> set white_space" "[] \<notin> rev ` set white_space"
  using white_space_bytes by (auto simp: list_all_iff)

fun strip_start :: "string list \<Rightarrow> string \<Rightarrow> string option" where
  "strip_start [] s = None"
| "strip_start (w # ws) s = (if starts_with s w then Some (drop (length w) s) else strip_start ws s)"

lemma strip_start_shorter:
  "strip_start ws s = Some t \<Longrightarrow> [] \<notin> set ws \<Longrightarrow> length t < length s"
  by (induction ws) (auto simp: starts_with_iff split: if_splits)

lemma strip_start_cases:
  "strip_start ws s = None \<longleftrightarrow> (\<forall>w \<in> set ws. \<not> starts_with s w)"
  "strip_start ws s = Some t \<Longrightarrow> \<exists>w \<in> set ws. s = w @ t"
  by (induction ws) (auto simp: starts_with_iff split: if_splits)

function trim_start :: "string \<Rightarrow> string" where
  "trim_start s = (case strip_start white_space s of None \<Rightarrow> s | Some t \<Rightarrow> trim_start t)"
  by pat_completeness auto
termination
  by (relation "measure length") (use white_space_ne strip_start_shorter in \<open>auto simp: image_iff\<close>)

declare trim_start.simps [simp del]

text \<open>From the end: the same on the reversed text with reversed encodings.\<close>

function trim_rev :: "string \<Rightarrow> string" where
  "trim_rev s = (case strip_start (map rev white_space) s of None \<Rightarrow> s | Some t \<Rightarrow> trim_rev t)"
  by pat_completeness auto
termination
  by (relation "measure length") (use white_space_ne strip_start_shorter in \<open>auto simp: image_iff\<close>)

declare trim_rev.simps [simp del]

definition trim_end :: "string \<Rightarrow> string" where
  "trim_end s = rev (trim_rev (rev s))"

definition trim :: "string \<Rightarrow> string" where
  "trim s = trim_end (trim_start s)"

text \<open>A text whose first and last byte are printable ASCII is its own trimmed form.\<close>

lemma strip_start_printable: "s \<noteq> [] \<Longrightarrow> printable (hd s) \<Longrightarrow> strip_start white_space s = None"
  using white_space_bytes by (fastforce simp: strip_start_cases list_all_iff starts_with_iff neq_Nil_conv)

lemma strip_rev_printable: "s \<noteq> [] \<Longrightarrow> printable (hd s) \<Longrightarrow> strip_start (map rev white_space) s = None"
  using white_space_bytes
  by (auto simp: strip_start_cases list_all_iff starts_with_iff hd_append hd_rev split: if_splits)

lemma trim_printable:
  assumes "\<forall>c \<in> set s. printable c"
  shows "trim s = s"
proof (cases "s = []")
  case True
  then show ?thesis
    by (simp add: trim_def trim_end_def trim_start.simps [of "[]"] trim_rev.simps [of "[]"] white_space_def starts_with_def)
next
  case False
  moreover from this have "trim_start s = s"
    using assms strip_start_printable [of s] by (subst trim_start.simps) simp
  moreover have "trim_rev (rev s) = rev s"
    using False assms strip_rev_printable [of "rev s"] by (subst trim_rev.simps) (simp add: hd_rev)
  ultimately show ?thesis by (simp add: trim_def trim_end_def)
qed

section \<open>Splitting once\<close>

definition split_once :: "char \<Rightarrow> string \<Rightarrow> (string \<times> string) option" where
  "split_once c s =
     (case dropWhile (\<lambda>d. d \<noteq> c) s of [] \<Rightarrow> None | _ # rest \<Rightarrow> Some (takeWhile (\<lambda>d. d \<noteq> c) s, rest))"

lemma split_once_append: "c \<notin> set a \<Longrightarrow> split_once c (a @ c # b) = Some (a, b)"
proof -
  assume "c \<notin> set a"
  then have "\<forall>d \<in> set a. d \<noteq> c" by auto
  then show ?thesis by (simp add: split_once_def takeWhile_tail)
qed

lemma split_once_None: "split_once c s = None \<longleftrightarrow> c \<notin> set s"
proof -
  have "split_once c s = None \<longleftrightarrow> dropWhile (\<lambda>d. d \<noteq> c) s = []"
    by (cases "dropWhile (\<lambda>d. d \<noteq> c) s") (simp_all add: split_once_def del: dropWhile_eq_Nil_conv)
  also have "\<dots> \<longleftrightarrow> c \<notin> set s" by (induction s) auto
  finally show ?thesis .
qed

lemma split_once_Some: "split_once c s = Some (a, b) \<longleftrightarrow> s = a @ c # b \<and> c \<notin> set a"
proof
  assume s: "split_once c s = Some (a, b)"
  then have "c \<in> set s" using split_once_None [of c s] by auto
  then obtain x y where "s = x @ c # y" "c \<notin> set x" by (metis split_list_first)
  with s show "s = a @ c # b \<and> c \<notin> set a" using split_once_append [of c x y] by simp
next
  assume "s = a @ c # b \<and> c \<notin> set a"
  then show "split_once c s = Some (a, b)" using split_once_append [of c a b] by simp
qed

section \<open>ASCII case\<close>

definition ascii_lower :: "char \<Rightarrow> char" where
  "ascii_lower c = (let n = of_char c :: nat in if 65 \<le> n \<and> n \<le> 90 then char_of (n + 32) else c)"

definition eq_ignore_ascii_case :: "string \<Rightarrow> string \<Rightarrow> bool" where
  "eq_ignore_ascii_case a b \<longleftrightarrow> map ascii_lower a = map ascii_lower b"

section \<open>Integers\<close>

definition digit_value :: "char \<Rightarrow> nat option" where
  "digit_value c = (let n = of_char c :: nat in if 48 \<le> n \<and> n \<le> 57 then Some (n - 48) else None)"

text \<open>At least one digit.\<close>

fun digits_value :: "nat \<Rightarrow> string \<Rightarrow> nat option" where
  "digits_value acc [] = Some acc"
| "digits_value acc (c # cs) = (case digit_value c of None \<Rightarrow> None | Some d \<Rightarrow> digits_value (10 * acc + d) cs)"

definition parse_digits :: "string \<Rightarrow> nat option" where
  "parse_digits s = (if s = [] then None else digits_value 0 s)"

text \<open>\<^verbatim>\<open>str::parse\<close> for an unsigned type of \<open>w\<close> bits: an optional plus sign; out of range is an error.\<close>

definition parse_unsigned :: "nat \<Rightarrow> string \<Rightarrow> nat option" where
  "parse_unsigned w s =
     (case parse_digits (case s of c # cs \<Rightarrow> if c = CHR ''+'' then cs else s | [] \<Rightarrow> []) of
        None \<Rightarrow> None | Some n \<Rightarrow> if n < 2 ^ w then Some n else None)"

text \<open>For a signed type, an optional sign of either kind.\<close>

definition parse_signed :: "nat \<Rightarrow> string \<Rightarrow> int option" where
  "parse_signed w s =
     (case s of
        c # cs \<Rightarrow>
          if c = CHR ''-'' then (case parse_digits cs of None \<Rightarrow> None | Some n \<Rightarrow> if n \<le> 2 ^ (w - 1) then Some (- int n) else None)
          else (case parse_digits (if c = CHR ''+'' then cs else s) of None \<Rightarrow> None | Some n \<Rightarrow> if n < 2 ^ (w - 1) then Some (int n) else None)
      | [] \<Rightarrow> None)"

subsection \<open>Printing and parsing\<close>

lemma digits_value_append:
  "digits_value acc (xs @ ys) = Option.bind (digits_value acc xs) (\<lambda>v. digits_value v ys)"
  by (induction xs arbitrary: acc) (auto split: option.split)

lemma digit_value_char: "d < 10 \<Longrightarrow> digit_value (char_of (48 + d)) = Some d"
  by (simp add: digit_value_def)

lemma digits_value_show: "digits_value 0 (show_nat n) = Some n"
proof (induction n rule: show_nat.induct)
  case (1 n)
  show ?case
  proof (cases "n < 10")
    case True
    then show ?thesis by (simp add: show_nat.simps [of n] digit_value_char)
  next
    case False
    with 1 have "digits_value 0 (show_nat (n div 10)) = Some (n div 10)" by simp
    with False show ?thesis
      by (simp add: show_nat.simps [of n] digits_value_append digit_value_char)
  qed
qed

lemma show_nat_digits: "c \<in> set (show_nat n) \<Longrightarrow> 48 \<le> (of_char c :: nat) \<and> (of_char c :: nat) \<le> 57"
proof (induction n rule: show_nat.induct)
  case (1 n)
  then show ?case by (subst (asm) show_nat.simps) (auto split: if_splits)
qed

lemma show_nat_ne: "show_nat n \<noteq> []"
  by (subst show_nat.simps) simp

lemma show_nat_hd: "\<exists>c cs. show_nat n = c # cs \<and> 48 \<le> (of_char c :: nat)"
  using show_nat_ne [of n] show_nat_digits [of "hd (show_nat n)" n] by (cases "show_nat n") auto

lemma parse_unsigned_show: "n < 2 ^ w \<Longrightarrow> parse_unsigned w (show_nat n) = Some n"
proof -
  assume n: "n < 2 ^ w"
  obtain c cs where s: "show_nat n = c # cs" "48 \<le> (of_char c :: nat)" using show_nat_hd by blast
  then have "c \<noteq> CHR ''+''" by auto
  with s n show ?thesis using digits_value_show [of n] by (simp add: parse_unsigned_def parse_digits_def)
qed

lemma parse_signed_show: "n < 2 ^ (w - 1) \<Longrightarrow> parse_signed w (show_nat n) = Some (int n)"
proof -
  assume n: "n < 2 ^ (w - 1)"
  obtain c cs where s: "show_nat n = c # cs" "48 \<le> (of_char c :: nat)" using show_nat_hd by blast
  then have "c \<noteq> CHR ''+''" "c \<noteq> CHR ''-''" by auto
  with s n show ?thesis using digits_value_show [of n] by (simp add: parse_signed_def parse_digits_def)
qed

end
