(* ===== verification/Admission.thy ===== *)
theory Admission
  imports Rust_Parse "HOL-Library.List_Lexorder" "HOL-Library.Char_ord"
begin

unbundle bit_operations_syntax

text \<open>
  The admission layer of the remote server (crate \<^verbatim>\<open>app/cce-admission\<close>): token hashing and lookup
  (\<^verbatim>\<open>token.rs\<close>), project and path scopes (\<^verbatim>\<open>context.rs\<close>), the configuration and its parser
  (\<^verbatim>\<open>config.rs\<close>), and the middleware with its rate limit (\<^verbatim>\<open>middleware.rs\<close>). SHA-256 (\<open>hash_token\<close>),
  the hexadecimal encoder (\<open>hex\<close>), the JSON field lookup (\<open>json_project_id\<close>) and the environment
  are parameters. Serving the admitted request and the timeout wrapper are not modelled.
\<close>

section \<open>Tokens\<close>

type_synonym digest = "u8 list"

definition MIN_TOKEN_LEN :: nat where
  "MIN_TOKEN_LEN = 16"

definition equal_hashes :: "digest \<Rightarrow> digest \<Rightarrow> bool" where
  "equal_hashes left right = (foldl (\<lambda>diff i. diff OR (left ! i XOR right ! i)) 0 [0..<32] = 0)"

definition fingerprint :: "(u8 list \<Rightarrow> string) \<Rightarrow> digest \<Rightarrow> string" where
  "fingerprint hex h = hex (take 4 h)"

record TokenEntry =
  te_token :: string
  te_projects :: "int list"
  te_quota_bytes :: "nat option"

record StoredToken =
  st_hash :: digest
  st_fingerprint :: string
  st_projects :: "int list"
  st_quota_bytes :: "nat option"

definition from_entries :: "(string \<Rightarrow> digest) \<Rightarrow> (u8 list \<Rightarrow> string) \<Rightarrow> TokenEntry list \<Rightarrow> StoredToken list" where
  "from_entries hash_token hex entries =
     map (\<lambda>e. let h = hash_token (te_token e)
              in \<lparr>st_hash = h, st_fingerprint = fingerprint hex h, st_projects = te_projects e,
                  st_quota_bytes = te_quota_bytes e\<rparr>) entries"

definition authenticate :: "(string \<Rightarrow> digest) \<Rightarrow> string \<Rightarrow> StoredToken list \<Rightarrow> StoredToken option" where
  "authenticate hash_token presented entries =
     (if length presented < MIN_TOKEN_LEN then None
      else let candidate = hash_token presented in find (\<lambda>e. equal_hashes (st_hash e) candidate) entries)"

section \<open>Scopes\<close>

record AdmissionContext =
  cx_fingerprint :: string
  cx_projects :: "int list"
  cx_quota_bytes :: "nat option"
  cx_is_admin :: bool

definition context_new :: "bool \<Rightarrow> StoredToken \<Rightarrow> AdmissionContext" where
  "context_new is_admin e = \<lparr>cx_fingerprint = st_fingerprint e, cx_projects = st_projects e,
     cx_quota_bytes = st_quota_bytes e, cx_is_admin = is_admin\<rparr>"

definition allows_project :: "AdmissionContext \<Rightarrow> int \<Rightarrow> bool" where
  "allows_project cx project_id =
     (if cx_is_admin cx \<and> cx_projects cx = [] then True else project_id \<in> set (cx_projects cx))"

definition is_gateway_path :: "string \<Rightarrow> bool" where
  "is_gateway_path path = str_contains (hd (split_by (\<lambda>c. c = CHR ''?'') path)) ''/ingest/''"

definition allows_path :: "AdmissionContext \<Rightarrow> string \<Rightarrow> bool" where
  "allows_path cx path = (if cx_is_admin cx then True else is_gateway_path path)"

text \<open>
  Only four ASCII texts are compared, and no character outside ASCII has a lower-case form that
  consists of their characters, so \<^verbatim>\<open>to_lowercase\<close> is the ASCII one here.
\<close>

definition is_loopback_host :: "string \<Rightarrow> bool" where
  "is_loopback_host host =
     (let normalized = map ascii_lower (trim host)
      in normalized \<in> {''127.0.0.1'', ''::1'', ''[::1]'', ''localhost''})"

definition is_public_path :: "string \<Rightarrow> string list \<Rightarrow> bool" where
  "is_public_path path prefixes = list_ex (\<lambda>p. path = p \<or> starts_with path (p @ ''/'')) prefixes"

definition requires_admission :: "string \<Rightarrow> bool" where
  "requires_admission host = (\<not> is_loopback_host host)"

definition project_id_from_path :: "string \<Rightarrow> int option" where
  "project_id_from_path path =
     (case filter (\<lambda>s. s \<noteq> []) (split_by (\<lambda>c. c = CHR ''/'') (hd (split_by (\<lambda>c. c = CHR ''?'') path))) of
        a # b # i # _ \<Rightarrow> if a = ''api'' \<and> b = ''project'' then parse_signed 64 i else None
      | _ \<Rightarrow> None)"

section \<open>Configuration\<close>

record AdmissionConfig =
  ac_enabled :: bool
  ac_tokens :: "TokenEntry list"
  ac_management_tokens :: "TokenEntry list"
  ac_public_path_prefixes :: "string list"
  ac_rate_limit_per_min :: u32
  ac_max_body_bytes :: nat
  ac_request_timeout_secs :: nat
  ac_cors_allowed_origins :: "string list"

definition AdmissionConfig_default :: AdmissionConfig where
  "AdmissionConfig_default = \<lparr>ac_enabled = False, ac_tokens = [], ac_management_tokens = [],
     ac_public_path_prefixes = [''/api/health''], ac_rate_limit_per_min = 600, ac_max_body_bytes = 8 * 1024 * 1024,
     ac_request_timeout_secs = 300, ac_cors_allowed_origins = []\<rparr>"

datatype AdmissionError = AdmissionConfigError string

text \<open>The project ids of an entry, the first that does not parse ends the loop.\<close>

fun parse_projects :: "string list \<Rightarrow> AdmissionError + int list" where
  "parse_projects [] = Inr []"
| "parse_projects (part # parts) =
     (case parse_signed 64 part of
        None \<Rightarrow> Inl (AdmissionConfigError ''admission token projects must be integer ids'')
      | Some i \<Rightarrow> map_sum id ((#) i) (parse_projects parts))"

definition parse_scope :: "string option \<Rightarrow> AdmissionError + nat option \<times> string option" where
  "parse_scope scope =
     (case scope of
        None \<Rightarrow> Inr (None, None)
      | Some s \<Rightarrow> (case split_once (CHR '':'') s of
            None \<Rightarrow> Inr (None, Some s)
          | Some (projects_part, quota_part) \<Rightarrow> (case parse_unsigned 64 (trim quota_part) of
                None \<Rightarrow> Inl (AdmissionConfigError ''admission token quota must be a positive byte count'')
              | Some quota \<Rightarrow>
                  if quota = 0 then Inl (AdmissionConfigError ''admission token quota must be positive'')
                  else Inr (Some quota, Some projects_part))))"

definition parse_token_item :: "string \<Rightarrow> AdmissionError + TokenEntry" where
  "parse_token_item item =
     (let (token, scope) = (case split_once (CHR ''@'') item of Some (t, s) \<Rightarrow> (trim t, Some s) | None \<Rightarrow> (item, None))
      in if token = [] then Inl (AdmissionConfigError ''admission token value must not be empty'')
         else case parse_scope scope of
                Inl e \<Rightarrow> Inl e
              | Inr (quota, scope) \<Rightarrow>
                  (case (case scope of
                           None \<Rightarrow> Inr []
                         | Some s \<Rightarrow> parse_projects (filter (\<lambda>p. p \<noteq> []) (map trim (split_by (\<lambda>c. c = CHR '','') s)))) of
                     Inl e \<Rightarrow> Inl e
                   | Inr projects \<Rightarrow>
                       Inr \<lparr>te_token = token, te_projects = remdups_adj (sort projects), te_quota_bytes = quota\<rparr>))"

fun parse_token_items :: "string list \<Rightarrow> AdmissionError + TokenEntry list" where
  "parse_token_items [] = Inr []"
| "parse_token_items (item # items) =
     (case parse_token_item item of Inl e \<Rightarrow> Inl e | Inr entry \<Rightarrow> map_sum id ((#) entry) (parse_token_items items))"

definition parse_token_env :: "string \<Rightarrow> AdmissionError + TokenEntry list" where
  "parse_token_env raw =
     (case parse_token_items (filter (\<lambda>s. s \<noteq> []) (map trim (split_by (\<lambda>c. c = CHR '';'') raw))) of
        Inl e \<Rightarrow> Inl e
      | Inr entries \<Rightarrow>
          if entries = [] then Inl (AdmissionConfigError ''CCE_ADMISSION_TOKENS holds no usable entries'') else Inr entries)"

definition is_configured :: "AdmissionConfig \<Rightarrow> bool" where
  "is_configured cfg \<longleftrightarrow> ac_enabled cfg \<and> (ac_tokens cfg \<noteq> [] \<or> ac_management_tokens cfg \<noteq> [])"

fun validate_entries :: "(string \<Rightarrow> digest) \<Rightarrow> digest list \<Rightarrow> TokenEntry list \<Rightarrow> AdmissionError + unit" where
  "validate_entries hash_token seen [] = Inr ()"
| "validate_entries hash_token seen (e # es) =
     (if length (te_token e) < MIN_TOKEN_LEN
      then Inl (AdmissionConfigError ''every admission token must be at least 16 characters'')
      else if list_ex (\<lambda>i. i \<le> 0) (te_projects e)
      then Inl (AdmissionConfigError ''admission token projects must hold positive project ids'')
      else let h = hash_token (te_token e)
           in if list_ex (\<lambda>known. equal_hashes known h) seen then Inl (AdmissionConfigError ''duplicate admission token value'')
              else validate_entries hash_token (seen @ [h]) es)"

definition ac_validate :: "(string \<Rightarrow> digest) \<Rightarrow> AdmissionConfig \<Rightarrow> AdmissionError + unit" where
  "ac_validate hash_token cfg =
     (if \<not> ac_enabled cfg then Inr ()
      else if ac_tokens cfg = [] \<and> ac_management_tokens cfg = []
      then Inl (AdmissionConfigError ''admission is enabled but no tokens are configured'')
      else case validate_entries hash_token [] (ac_tokens cfg @ ac_management_tokens cfg) of
             Inl e \<Rightarrow> Inl e
           | Inr _ \<Rightarrow>
               if list_ex (\<lambda>p. p = []) (ac_public_path_prefixes cfg)
               then Inl (AdmissionConfigError ''admission public path prefixes must not be empty'') else Inr ())"

text \<open>\<open>env\<close> is \<^verbatim>\<open>std::env::var(_).ok()\<close>.\<close>

definition env_list :: "string \<Rightarrow> string list" where
  "env_list raw = filter (\<lambda>s. s \<noteq> []) (map trim (split_by (\<lambda>c. c = CHR '','') raw))"

definition env_number :: "nat \<Rightarrow> string \<Rightarrow> string option \<Rightarrow> nat \<Rightarrow> AdmissionError + nat" where
  "env_number w name raw d =
     (case raw of
        None \<Rightarrow> Inr d
      | Some s \<Rightarrow> (case parse_unsigned w (trim s) of
            None \<Rightarrow> Inl (AdmissionConfigError (name @ '' must be a non-negative integer''))
          | Some n \<Rightarrow> Inr n))"

definition from_env :: "(string \<Rightarrow> digest) \<Rightarrow> (string \<Rightarrow> string option) \<Rightarrow> AdmissionError + AdmissionConfig" where
  "from_env hash_token env =
     (let nonempty = (\<lambda>v. case v of Some s \<Rightarrow> if trim s = [] then None else Some s | None \<Rightarrow> None);
          gateway = nonempty (env ''CCE_ADMISSION_TOKENS'');
          management = nonempty (env ''CCE_MANAGEMENT_TOKENS'');
          parse = (\<lambda>v. case v of None \<Rightarrow> Inr [] | Some raw \<Rightarrow> parse_token_env raw)
      in if gateway = None \<and> management = None then Inr AdmissionConfig_default
         else case parse gateway of
           Inl e \<Rightarrow> Inl e
         | Inr tokens \<Rightarrow> (case parse management of
             Inl e \<Rightarrow> Inl e
           | Inr management_tokens \<Rightarrow> (case env_number 32 ''CCE_ADMISSION_RATE_LIMIT_PER_MIN'' (env ''CCE_ADMISSION_RATE_LIMIT_PER_MIN'') 600 of
               Inl e \<Rightarrow> Inl e
             | Inr limit \<Rightarrow> (case env_number 64 ''CCE_ADMISSION_MAX_BODY_BYTES'' (env ''CCE_ADMISSION_MAX_BODY_BYTES'') (8 * 1024 * 1024) of
                 Inl e \<Rightarrow> Inl e
               | Inr max_body \<Rightarrow> (case env_number 64 ''CCE_ADMISSION_REQUEST_TIMEOUT_SECS'' (env ''CCE_ADMISSION_REQUEST_TIMEOUT_SECS'') 300 of
                   Inl e \<Rightarrow> Inl e
                 | Inr timeout \<Rightarrow>
                     (let config = \<lparr>ac_enabled = True, ac_tokens = tokens, ac_management_tokens = management_tokens,
                            ac_public_path_prefixes = (case env ''CCE_ADMISSION_PUBLIC_PATHS'' of
                               None \<Rightarrow> [''/api/health'']
                             | Some raw \<Rightarrow> if env_list raw = [] then [''/api/health''] else env_list raw),
                            ac_rate_limit_per_min = word_of_nat limit,
                            ac_max_body_bytes = (if max_body = 0 then 8 * 1024 * 1024 else max_body),
                            ac_request_timeout_secs = timeout,
                            ac_cors_allowed_origins = (case env ''CCE_ADMISSION_CORS_ORIGINS'' of None \<Rightarrow> [] | Some raw \<Rightarrow> env_list raw)\<rparr>
                      in case ac_validate hash_token config of Inl e \<Rightarrow> Inl e | Inr _ \<Rightarrow> Inr config))))))"

section \<open>The gate\<close>

definition RATE_WINDOW :: duration where
  "RATE_WINDOW = from_secs 60"

record RateBucket =
  rb_window_start :: instant
  rb_count :: u32

record AdmissionMetrics =
  am_admitted :: u64
  am_auth_rejections :: u64
  am_scope_rejections :: u64
  am_rate_rejections :: u64
  am_body_rejections :: u64
  am_quota_rejections :: u64

record AdmissionGate =
  ag_store :: "StoredToken list"
  ag_admin_store :: "StoredToken list"
  ag_public_prefixes :: "string list"
  ag_rate_limit_per_min :: u32
  ag_max_body_bytes :: nat
  ag_cors_allowed_origins :: "string list"
  ag_buckets :: "digest \<rightharpoonup> RateBucket"
  ag_metrics :: AdmissionMetrics

definition gate_new :: "(string \<Rightarrow> digest) \<Rightarrow> (u8 list \<Rightarrow> string) \<Rightarrow> AdmissionConfig \<Rightarrow> AdmissionMetrics \<Rightarrow> AdmissionGate" where
  "gate_new hash_token hex cfg metrics =
     \<lparr>ag_store = from_entries hash_token hex (ac_tokens cfg), ag_admin_store = from_entries hash_token hex (ac_management_tokens cfg),
      ag_public_prefixes = ac_public_path_prefixes cfg, ag_rate_limit_per_min = ac_rate_limit_per_min cfg,
      ag_max_body_bytes = ac_max_body_bytes cfg, ag_cors_allowed_origins = ac_cors_allowed_origins cfg,
      ag_buckets = Map.empty, ag_metrics = metrics\<rparr>"

definition rate_step :: "u32 \<Rightarrow> instant \<Rightarrow> RateBucket option \<Rightarrow> bool \<times> RateBucket" where
  "rate_step limit now b =
     (let bucket = (case b of Some b \<Rightarrow> b | None \<Rightarrow> \<lparr>rb_window_start = now, rb_count = 0\<rparr>);
          bucket = (if duration_since now (rb_window_start bucket) \<ge> RATE_WINDOW
                    then \<lparr>rb_window_start = now, rb_count = 0\<rparr> else bucket);
          bucket = bucket\<lparr>rb_count := saturating_add (rb_count bucket) 1\<rparr>
      in (rb_count bucket \<le> limit, bucket))"

definition check_rate :: "instant \<Rightarrow> digest \<Rightarrow> AdmissionGate \<Rightarrow> bool \<times> AdmissionGate" where
  "check_rate now token_hash g =
     (if ag_rate_limit_per_min g = 0 then (True, g)
      else let (ok, bucket) = rate_step (ag_rate_limit_per_min g) now (ag_buckets g token_hash)
           in (ok, g\<lparr>ag_buckets := (ag_buckets g)(token_hash \<mapsto> bucket)\<rparr>))"

section \<open>The middleware\<close>

text \<open>A header is \<open>None\<close> when it is missing or not visible ASCII; a body is \<open>None\<close> when reading it fails.\<close>

record Request =
  rq_path :: string
  rq_query :: "string option"
  rq_method :: string
  rq_authorization :: "string option"
  rq_api_token :: "string option"
  rq_content_type :: "string option"
  rq_origin :: "string option"
  rq_body :: "string option"

datatype Outcome = PublicPath | Admitted AdmissionContext | Rejected nat string

definition presented_token :: "Request \<Rightarrow> string option" where
  "presented_token req =
     (let bearer = (case rq_authorization req of
                      None \<Rightarrow> None
                    | Some value \<Rightarrow> (case split_once (CHR '' '') value of
                          None \<Rightarrow> None
                        | Some (scheme, token) \<Rightarrow>
                            if eq_ignore_ascii_case scheme ''bearer'' \<and> trim token \<noteq> [] then Some (trim token) else None))
      in case bearer of
           Some t \<Rightarrow> Some t
         | None \<Rightarrow> (case rq_api_token req of
               None \<Rightarrow> None
             | Some v \<Rightarrow> if trim v = [] then None else Some (trim v)))"

fun query_project_id :: "string list \<Rightarrow> int option" where
  "query_project_id [] = None"
| "query_project_id (pair # pairs) =
     (case split_once (CHR ''='') pair of
        None \<Rightarrow> None
      | Some (key, v) \<Rightarrow> if key = ''project_id'' then parse_signed 64 v else query_project_id pairs)"

definition project_id_from_query :: "string option \<Rightarrow> int option" where
  "project_id_from_query query = Option.bind query (\<lambda>q. query_project_id (split_by (\<lambda>c. c = CHR ''&'') q))"

definition reads_body :: "Request \<Rightarrow> bool" where
  "reads_body req =
     ((case rq_content_type req of Some ct \<Rightarrow> starts_with ct ''application/json'' | None \<Rightarrow> False) \<and> rq_method req \<noteq> ''GET'')"

text \<open>The project ids a request names, or \<open>None\<close> when its body is too large.\<close>

definition scope_candidates :: "(string \<Rightarrow> int option) \<Rightarrow> nat \<Rightarrow> Request \<Rightarrow> int list option" where
  "scope_candidates json_project_id max_body req =
     (let opt = (\<lambda>v. case v of Some i \<Rightarrow> [i] | None \<Rightarrow> []);
          named = opt (project_id_from_path (rq_path req)) @ opt (project_id_from_query (rq_query req))
      in if \<not> reads_body req then Some named
         else case rq_body req of
                None \<Rightarrow> None
              | Some bytes \<Rightarrow>
                  if length bytes > max_body then None
                  else Some (named @ (if bytes = [] then [] else opt (json_project_id bytes))))"

abbreviation count_auth :: "AdmissionGate \<Rightarrow> AdmissionGate" where
  "count_auth g \<equiv> g\<lparr>ag_metrics := (ag_metrics g)\<lparr>am_auth_rejections := am_auth_rejections (ag_metrics g) + 1\<rparr>\<rparr>"

abbreviation count_scope :: "AdmissionGate \<Rightarrow> AdmissionGate" where
  "count_scope g \<equiv> g\<lparr>ag_metrics := (ag_metrics g)\<lparr>am_scope_rejections := am_scope_rejections (ag_metrics g) + 1\<rparr>\<rparr>"

abbreviation count_rate :: "AdmissionGate \<Rightarrow> AdmissionGate" where
  "count_rate g \<equiv> g\<lparr>ag_metrics := (ag_metrics g)\<lparr>am_rate_rejections := am_rate_rejections (ag_metrics g) + 1\<rparr>\<rparr>"

abbreviation count_body :: "AdmissionGate \<Rightarrow> AdmissionGate" where
  "count_body g \<equiv> g\<lparr>ag_metrics := (ag_metrics g)\<lparr>am_body_rejections := am_body_rejections (ag_metrics g) + 1\<rparr>\<rparr>"

abbreviation count_admitted :: "AdmissionGate \<Rightarrow> AdmissionGate" where
  "count_admitted g \<equiv> g\<lparr>ag_metrics := (ag_metrics g)\<lparr>am_admitted := am_admitted (ag_metrics g) + 1\<rparr>\<rparr>"

definition verify_token :: "(string \<Rightarrow> digest) \<Rightarrow> AdmissionGate \<Rightarrow> string \<Rightarrow> (StoredToken \<times> bool) option" where
  "verify_token hash_token g token =
     (case authenticate hash_token token (ag_admin_store g) of
        Some entry \<Rightarrow> Some (entry, True)
      | None \<Rightarrow> (case authenticate hash_token token (ag_store g) of
            Some entry \<Rightarrow> Some (entry, False)
          | None \<Rightarrow> None))"

definition admission_middleware ::
  "(string \<Rightarrow> digest) \<Rightarrow> (string \<Rightarrow> int option) \<Rightarrow> instant \<Rightarrow> Request \<Rightarrow> AdmissionGate \<Rightarrow> Outcome \<times> AdmissionGate" where
  "admission_middleware hash_token json_project_id now req g =
     (if is_public_path (rq_path req) (ag_public_prefixes g) then (PublicPath, g)
      else case presented_token req of
        None \<Rightarrow> (Rejected 401 ''AUTH_REQUIRED'', count_auth g)
      | Some token \<Rightarrow> (case verify_token hash_token g token of
          None \<Rightarrow> (Rejected 401 ''AUTH_REQUIRED'', count_auth g)
        | Some (entry, is_admin) \<Rightarrow>
            (let cx = context_new is_admin entry
             in if \<not> allows_path cx (rq_path req) then (Rejected 403 ''PROJECT_FORBIDDEN'', count_scope g)
                else case check_rate now (st_hash entry) g of
                  (False, g) \<Rightarrow> (Rejected 429 ''RATE_LIMITED'', count_rate g)
                | (True, g) \<Rightarrow> (case scope_candidates json_project_id (ag_max_body_bytes g) req of
                      None \<Rightarrow> (Rejected 413 ''BODY_TOO_LARGE'', count_body g)
                    | Some candidates \<Rightarrow>
                        if list_all (allows_project cx) candidates then (Admitted cx, count_admitted g)
                        else (Rejected 403 ''PROJECT_FORBIDDEN'', count_scope g)))))"

datatype CorsOutcome = CorsPass | CorsForbidden | CorsPreflight string | CorsServe string

definition cors_middleware :: "Request \<Rightarrow> AdmissionGate \<Rightarrow> CorsOutcome" where
  "cors_middleware req g =
     (case rq_origin req of
        None \<Rightarrow> CorsPass
      | Some origin \<Rightarrow>
          if origin \<notin> set (ag_cors_allowed_origins g) then CorsForbidden
          else if rq_method req = ''OPTIONS'' then CorsPreflight origin
          else CorsServe origin)"

section \<open>Authentication\<close>

lemma or_fold_zero:
  "foldl (\<lambda>d i. d OR f i) (d :: u8) is = 0 \<longleftrightarrow> d = 0 \<and> (\<forall>i \<in> set is. f i = 0)"
  by (induction "is" arbitrary: d) (auto simp: or_eq_0_iff)

lemma xor_zero_iff: "a XOR b = 0 \<longleftrightarrow> a = b" for a b :: u8
  by (auto simp: bit_eq_iff bit_simps)

lemma equal_hashes_iff: "length l = 32 \<Longrightarrow> length r = 32 \<Longrightarrow> equal_hashes l r \<longleftrightarrow> l = r"
  by (auto simp: equal_hashes_def or_fold_zero xor_zero_iff list_eq_iff_nth_eq)

text \<open>The digest has 32 bytes and, where stated, does not collide on the tokens at hand.\<close>

definition sha_sized :: "(string \<Rightarrow> digest) \<Rightarrow> bool" where
  "sha_sized h \<longleftrightarrow> (\<forall>t. length (h t) = 32)"

lemma find_map: "find p (map f xs) = map_option f (find (\<lambda>x. p (f x)) xs)"
  by (induction xs) auto

lemma authenticate_find:
  assumes "sha_sized h" "inj_on h (insert t (te_token ` set es))"
  shows "authenticate h t (from_entries h hex es) =
     (if length t < MIN_TOKEN_LEN then None
      else map_option (\<lambda>e. \<lparr>st_hash = h t, st_fingerprint = fingerprint hex (h t), st_projects = te_projects e,
              st_quota_bytes = te_quota_bytes e\<rparr>) (find (\<lambda>e. te_token e = t) es))"
proof -
  have "find (\<lambda>e. equal_hashes (h (te_token e)) (h t)) es = find (\<lambda>e. te_token e = t) es"
    using assms by (intro find_cong) (auto simp: equal_hashes_iff sha_sized_def inj_on_def)
  then show ?thesis
    by (auto simp: authenticate_def from_entries_def Let_def find_map find_Some_iff split: option.split intro!: map_option_cong)
qed

lemma authenticate_Some:
  assumes "sha_sized h" "inj_on h (insert t (te_token ` set es))" "authenticate h t (from_entries h hex es) = Some en"
  shows "\<exists>e \<in> set es. te_token e = t \<and> MIN_TOKEN_LEN \<le> length t \<and> st_projects en = te_projects e \<and> st_quota_bytes en = te_quota_bytes e"
proof -
  obtain e where e: "find (\<lambda>e. te_token e = t) es = Some e" and "MIN_TOKEN_LEN \<le> length t"
    "st_projects en = te_projects e" "st_quota_bytes en = te_quota_bytes e"
    using assms(3) by (auto simp: authenticate_find [OF assms(1,2)] split: if_splits)
  moreover have "e \<in> set es" "te_token e = t" using e by (auto simp: find_Some_iff)
  ultimately show ?thesis by blast
qed

section \<open>The rate limit\<close>

text \<open>Accepted requests of one token at times \<open>ts\<close> below \<open>T\<close>, from a bucket.\<close>

fun accepted :: "u32 \<Rightarrow> instant \<Rightarrow> RateBucket option \<Rightarrow> instant list \<Rightarrow> nat" where
  "accepted limit T b [] = 0"
| "accepted limit T b (t # ts) =
     (let (ok, b') = rate_step limit t b in (if ok \<and> t < T then 1 else 0) + accepted limit T (Some b') ts)"

lemma rate_step_fresh:
  assumes "case b of None \<Rightarrow> True | Some b \<Rightarrow> rb_window_start b + int RATE_WINDOW \<le> t"
  shows "rate_step limit t b = (1 \<le> limit, \<lparr>rb_window_start = t, rb_count = 1\<rparr>)"
proof -
  have "0 < RATE_WINDOW" by (simp add: RATE_WINDOW_def from_secs_def)
  with assms have "RATE_WINDOW \<le> duration_since t (rb_window_start b')" if "b = Some b'" for b'
    using that by (simp add: duration_since_ge_iff)
  then show ?thesis by (cases b) (auto simp: rate_step_def saturating_add_def Let_def)
qed

lemma rate_step_same:
  assumes "t < rb_window_start b + int RATE_WINDOW"
  shows "rate_step limit t (Some b) = (saturating_add (rb_count b) 1 \<le> limit, b\<lparr>rb_count := saturating_add (rb_count b) 1\<rparr>)"
proof -
  have "0 < RATE_WINDOW" by (simp add: RATE_WINDOW_def from_secs_def)
  then have "\<not> RATE_WINDOW \<le> duration_since t (rb_window_start b)" using assms by (simp add: duration_since_ge_iff)
  then show ?thesis by (simp add: rate_step_def Let_def)
qed

lemma saturating_inc_le:
  fixes c limit :: u32
  assumes "limit \<noteq> - 1"
  shows "saturating_add c 1 \<le> limit \<longleftrightarrow> unat c < unat limit"
proof -
  have "unat limit \<noteq> 2 ^ 32 - 1" using assms unat_max_word [where 'a = 32] by (simp add: word_unat_eq_iff)
  moreover have "unat limit < 2 ^ 32" using unsigned_less [of limit] by simp
  ultimately show ?thesis by (simp add: word_le_nat_alt unat_saturating_add min_def) linarith
qed

lemma accepted_late: "\<forall>t \<in> set ts. T \<le> t \<Longrightarrow> accepted limit T b ts = 0"
  by (induction ts arbitrary: b) (auto split: prod.split)

lemma accepted_in_window:
  assumes "limit \<noteq> - 1" "sorted ts" "T \<le> rb_window_start b + int RATE_WINDOW"
  shows "accepted limit T (Some b) ts \<le> unat limit - unat (rb_count b)"
  using assms(2,3)
proof (induction ts arbitrary: b)
  case (Cons t ts)
  show ?case
  proof (cases "t < rb_window_start b + int RATE_WINDOW")
    case True
    let ?b = "b\<lparr>rb_count := saturating_add (rb_count b) 1\<rparr>"
    have "accepted limit T (Some ?b) ts \<le> unat limit - unat (rb_count ?b)" using Cons.prems by (intro Cons.IH) auto
    then show ?thesis
      using saturating_inc_le [OF assms(1), of "rb_count b"] unsigned_less [of limit, where ?'a = nat]
      by (auto simp: rate_step_same [OF True] unat_saturating_add min_def split: if_splits)
  next
    case False
    with Cons.prems have "\<forall>t \<in> set (t # ts). T \<le> t" by auto
    then show ?thesis by (metis accepted_late le0)
  qed
qed simp

lemma accepted_two_windows:
  assumes "limit \<noteq> - 1" "sorted ts" "T \<le> rb_window_start b + 2 * int RATE_WINDOW"
  shows "accepted limit T (Some b) ts \<le> unat limit + (unat limit - unat (rb_count b))"
  using assms(2,3)
proof (induction ts arbitrary: b)
  case (Cons t ts)
  show ?case
  proof (cases "t < rb_window_start b + int RATE_WINDOW")
    case True
    let ?b = "b\<lparr>rb_count := saturating_add (rb_count b) 1\<rparr>"
    have "accepted limit T (Some ?b) ts \<le> unat limit + (unat limit - unat (rb_count ?b))" using Cons.prems by (intro Cons.IH) auto
    then show ?thesis
      using saturating_inc_le [OF assms(1), of "rb_count b"] unsigned_less [of limit, where ?'a = nat]
      by (auto simp: rate_step_same [OF True] unat_saturating_add min_def split: if_splits)
  next
    case False
    let ?b = "\<lparr>rb_window_start = t, rb_count = 1 :: u32\<rparr>"
    have "accepted limit T (Some ?b) ts \<le> unat limit - 1"
      using accepted_in_window [OF assms(1), of ts T ?b] Cons.prems False by simp
    moreover have "1 \<le> limit \<longleftrightarrow> 1 \<le> unat limit" by (simp add: word_le_nat_alt)
    ultimately show ?thesis using False by (auto simp: rate_step_fresh)
  qed
qed simp

lemma accepted_interval:
  assumes "limit \<noteq> - 1" "limit \<noteq> 0" "sorted ts" "\<forall>t \<in> set ts. t0 \<le> t"
    and "\<And>b'. b = Some b' \<Longrightarrow> 1 \<le> unat (rb_count b')"
  shows "accepted limit (t0 + int RATE_WINDOW) b ts \<le> 2 * unat limit - 1"
proof (cases ts)
  case (Cons t ts')
  have pos: "1 \<le> unat limit" using assms(2) by (simp add: Suc_leI unat_gt_0)
  show ?thesis
  proof (cases "\<exists>b'. b = Some b' \<and> t < rb_window_start b' + int RATE_WINDOW")
    case True
    then obtain b' where b: "b = Some b'" "t < rb_window_start b' + int RATE_WINDOW" by blast
    moreover have "t0 \<le> t" using assms(4) Cons by simp
    ultimately have "t0 + int RATE_WINDOW \<le> rb_window_start b' + 2 * int RATE_WINDOW" by linarith
    from accepted_two_windows [OF assms(1,3) this] assms(5) [OF b(1)] b(1) pos show ?thesis by simp
  next
    case False
    let ?b = "\<lparr>rb_window_start = t, rb_count = 1 :: u32\<rparr>"
    have "accepted limit (t0 + int RATE_WINDOW) (Some ?b) ts' \<le> unat limit - 1"
      using accepted_in_window [OF assms(1), of ts' "t0 + int RATE_WINDOW" ?b] assms(3,4) Cons by simp
    moreover have "rate_step limit t b = (1 \<le> limit, ?b)" using False by (intro rate_step_fresh) (auto split: option.split)
    ultimately show ?thesis using pos Cons by auto
  qed
qed simp

text \<open>Requests of many tokens through one gate.\<close>

fun admitted_between :: "digest \<Rightarrow> instant \<Rightarrow> instant \<Rightarrow> AdmissionGate \<Rightarrow> (digest \<times> instant) list \<Rightarrow> nat" where
  "admitted_between h t0 T g [] = 0"
| "admitted_between h t0 T g ((h', t) # calls) =
     (let (ok, g') = check_rate t h' g in (if ok \<and> h' = h \<and> t0 \<le> t \<and> t < T then 1 else 0) + admitted_between h t0 T g' calls)"

definition buckets_used :: "AdmissionGate \<Rightarrow> bool" where
  "buckets_used g \<longleftrightarrow> (\<forall>h b. ag_buckets g h = Some b \<longrightarrow> 1 \<le> unat (rb_count b))"

lemma rate_step_used: "1 \<le> unat (rb_count (snd (rate_step limit t b)))"
  by (auto simp: rate_step_def Let_def unat_saturating_add)

lemma check_rate_gate:
  assumes "ag_rate_limit_per_min g \<noteq> 0" "check_rate t h g = (ok, g')"
  shows "(ok, the (ag_buckets g' h)) = rate_step (ag_rate_limit_per_min g) t (ag_buckets g h)"
    and "ag_buckets g' = (ag_buckets g)(h \<mapsto> snd (rate_step (ag_rate_limit_per_min g) t (ag_buckets g h)))"
    and "ag_rate_limit_per_min g' = ag_rate_limit_per_min g"
  using assms by (auto simp: check_rate_def Let_def split: prod.splits)

lemma buckets_used_step: "buckets_used g \<Longrightarrow> check_rate t h g = (ok, g') \<Longrightarrow> buckets_used g'"
  using rate_step_used [of "ag_rate_limit_per_min g" t "ag_buckets g h"]
  by (auto simp: buckets_used_def check_rate_def Let_def split: prod.splits if_splits)

lemma admitted_single:
  assumes "ag_rate_limit_per_min g \<noteq> 0" "\<forall>c \<in> set calls. t0 \<le> snd c"
  shows "admitted_between h t0 T g calls =
    accepted (ag_rate_limit_per_min g) T (ag_buckets g h) (map snd (filter (\<lambda>c. fst c = h) calls))"
  using assms
proof (induction calls arbitrary: g)
  case (Cons c calls)
  obtain h' t where c: "c = (h', t)" by (cases c)
  obtain ok g' where r: "check_rate t h' g = (ok, g')" by (cases "check_rate t h' g")
  note g' = check_rate_gate [OF Cons.prems(1) r]
  have "admitted_between h t0 T g' calls = accepted (ag_rate_limit_per_min g) T (ag_buckets g' h) (map snd (filter (\<lambda>c. fst c = h) calls))"
    using Cons.IH [of g'] Cons.prems g'(3) by simp
  with c r g' Cons.prems(2) show ?case by (cases "h' = h") (auto split: prod.splits)
qed simp

lemma admitted_bound:
  assumes "ag_rate_limit_per_min g \<noteq> 0" "ag_rate_limit_per_min g \<noteq> - 1" "buckets_used g" "sorted (map snd calls)"
  shows "admitted_between h t0 (t0 + int RATE_WINDOW) g calls \<le> 2 * unat (ag_rate_limit_per_min g) - 1"
  using assms
proof (induction calls arbitrary: g)
  case (Cons c calls)
  obtain h' t where c: "c = (h', t)" by (cases c)
  show ?case
  proof (cases "t0 \<le> t")
    case True
    then have late: "\<forall>c \<in> set (c # calls). t0 \<le> snd c" using Cons.prems(4) c by auto
    have "sorted (map snd (filter (\<lambda>c. fst c = h) (c # calls)))" using Cons.prems(4) by (rule sorted_filter)
    then show ?thesis
      using late Cons.prems(1-3) unfolding admitted_single [OF Cons.prems(1) late]
      by (intro accepted_interval) (auto simp: buckets_used_def)
  next
    case False
    obtain ok g' where r: "check_rate t h' g = (ok, g')" by (cases "check_rate t h' g")
    have "admitted_between h t0 (t0 + int RATE_WINDOW) g' calls \<le> 2 * unat (ag_rate_limit_per_min g) - 1"
      using Cons.IH [of g'] Cons.prems check_rate_gate(3) [OF Cons.prems(1) r] buckets_used_step [OF _ r] by simp
    with False c r show ?thesis by simp
  qed
qed simp

section \<open>Properties\<close>

text \<open>
  C12: Only a configured token is admitted, and only within its scope. A request that the gate of a
  configuration admits carries, up to surrounding white space, the value of a configured token of at
  least 16 bytes: a management token, or a gateway token on an ingest path. Its context has that entry's
  projects and quota, and every project id that the path, the query parser or the JSON body yields
  is covered. SHA-256 is assumed to give 32 bytes and not to collide on the tokens at hand.
\<close>

theorem admitted_in_scope:
  assumes "sha_sized h" "presented_token req = Some t"
    and "inj_on h (insert t (te_token ` set (ac_tokens cfg @ ac_management_tokens cfg)))"
    and "g = (gate_new h hex cfg m)\<lparr>ag_buckets := bs\<rparr>"
    and "admission_middleware h js now req g = (Admitted cx, g')"
  shows "\<exists>e ids. e \<in> set (if cx_is_admin cx then ac_management_tokens cfg else ac_tokens cfg)
     \<and> te_token e = t \<and> MIN_TOKEN_LEN \<le> length t
     \<and> cx_projects cx = te_projects e \<and> cx_quota_bytes cx = te_quota_bytes e
     \<and> (cx_is_admin cx \<or> is_gateway_path (rq_path req))
     \<and> scope_candidates js (ac_max_body_bytes cfg) req = Some ids \<and> (\<forall>i \<in> set ids. allows_project cx i)"
proof -
  have inj: "inj_on h (insert t (te_token ` set (ac_tokens cfg)))" "inj_on h (insert t (te_token ` set (ac_management_tokens cfg)))"
    using assms(3) by (auto intro: inj_on_subset)
  obtain en adm where v: "verify_token h g t = Some (en, adm)" and cx: "cx = context_new adm en"
    and path: "allows_path cx (rq_path req)"
    and sc: "\<exists>ids. scope_candidates js (ac_max_body_bytes cfg) req = Some ids \<and> list_all (allows_project cx) ids"
    using assms(2,4,5)
    by (auto simp: admission_middleware_def Let_def check_rate_def gate_new_def split: if_splits option.splits prod.splits bool.splits)
  have "\<exists>e. e \<in> set (if adm then ac_management_tokens cfg else ac_tokens cfg) \<and> te_token e = t \<and> MIN_TOKEN_LEN \<le> length t
      \<and> st_projects en = te_projects e \<and> st_quota_bytes en = te_quota_bytes e"
    using v authenticate_Some [OF assms(1) inj(1)] authenticate_Some [OF assms(1) inj(2)]
    by (fastforce simp: verify_token_def assms(4) gate_new_def split: option.splits)
  with cx path sc show ?thesis by (auto simp: context_new_def allows_path_def list_all_iff)
qed

text \<open>
  C33: The rate limit holds in every minute. Whatever requests of whatever tokens pass the gate, in the
  order of their times, a token is granted at most one less than twice its limit within any 60 seconds. The
  fixed windows allow that much around their border, and no more. The largest 32-bit limit is excluded:
  there the counter saturates and grants everything.
\<close>

theorem rate_limit_every_minute:
  assumes "ac_rate_limit_per_min cfg \<noteq> 0" "ac_rate_limit_per_min cfg \<noteq> - 1" "sorted (map snd calls)"
  shows "admitted_between d t0 (t0 + int (from_secs 60)) (gate_new h hex cfg m) calls
     \<le> 2 * unat (ac_rate_limit_per_min cfg) - 1"
  using admitted_bound [of "gate_new h hex cfg m" calls d t0] assms
  by (simp add: gate_new_def buckets_used_def RATE_WINDOW_def)

lemma scope_query:
  "project_id_from_query q = project_id_from_query q' \<Longrightarrow>
     scope_candidates js mb (req\<lparr>rq_query := q\<rparr>) = scope_candidates js mb (req\<lparr>rq_query := q'\<rparr>)"
  by (simp add: scope_candidates_def reads_body_def Let_def cong: option.case_cong)

lemma presented_query: "presented_token (req\<lparr>rq_query := q\<rparr>) = presented_token req"
  by (simp add: presented_token_def cong: option.case_cong)

text \<open>
  A query argument without a value hides the project. The query parser gives up at the first
  argument without \<^verbatim>\<open>=\<close>, so a request for any project, spelled \<^verbatim>\<open>x&project_id=n\<close>, is treated exactly like one
  without a query: the token's project binding is not checked against \<^verbatim>\<open>n\<close>.
\<close>

theorem query_flag_hides_project:
  assumes "CHR ''='' \<notin> set x" "CHR ''&'' \<notin> set x"
  shows "admission_middleware h js now (req\<lparr>rq_query := Some (x @ ''&project_id='' @ n)\<rparr>) g
       = admission_middleware h js now (req\<lparr>rq_query := None\<rparr>) g"
proof -
  have "split_by (\<lambda>c. c = CHR ''&'') (x @ CHR ''&'' # ''project_id='' @ n)
      = x # split_by (\<lambda>c. c = CHR ''&'') (''project_id='' @ n)"
    using assms(2) by (subst split_by_append) (auto intro!: split_by_no_sep)
  then have "project_id_from_query (Some (x @ ''&project_id='' @ n)) = None"
    using assms(1) split_once_None [of "CHR ''=''" x] by (simp add: project_id_from_query_def)
  moreover have "project_id_from_query None = None" by (simp add: project_id_from_query_def)
  ultimately have same: "scope_candidates js mb (req\<lparr>rq_query := Some (x @ ''&project_id='' @ n)\<rparr>)
      = scope_candidates js mb (req\<lparr>rq_query := None\<rparr>)" for mb
    by (intro scope_query) simp
  have path: "rq_path (req\<lparr>rq_query := q\<rparr>) = rq_path req" for q by simp
  show ?thesis unfolding admission_middleware_def presented_query same path by (rule refl)
qed

lemma validate_entries_iff:
  assumes "sha_sized h" "\<forall>d \<in> set seen. length d = 32"
  shows "validate_entries h seen es = Inr () \<longleftrightarrow>
     (\<forall>e \<in> set es. MIN_TOKEN_LEN \<le> length (te_token e) \<and> (\<forall>i \<in> set (te_projects e). 0 < i))
     \<and> distinct (map (h \<circ> te_token) es) \<and> set seen \<inter> (h \<circ> te_token) ` set es = {}"
  using assms(2)
proof (induction es arbitrary: seen)
  case (Cons e es)
  have len: "length (h (te_token e)) = 32" using assms(1) by (simp add: sha_sized_def)
  have "list_ex (\<lambda>known. equal_hashes known (h (te_token e))) seen \<longleftrightarrow> h (te_token e) \<in> set seen"
    using Cons.prems len by (auto simp: list_ex_iff equal_hashes_iff)
  moreover have "list_ex (\<lambda>i. i \<le> 0) (te_projects e) \<longleftrightarrow> \<not> (\<forall>i \<in> set (te_projects e). 0 < i)"
    by (auto simp: list_ex_iff not_less)
  ultimately show ?case
    using Cons.IH [of "seen @ [h (te_token e)]"] Cons.prems len by (auto simp: Let_def)
qed simp

text \<open>
  What a validated configuration guarantees. An enabled configuration passes exactly when it has a
  token, every token has at least 16 bytes and positive project ids, no two of the gateway and the
  management tokens together have the same digest, and no public prefix is empty.
\<close>

theorem config_validation_decides:
  assumes "sha_sized h" "ac_enabled cfg"
  shows "ac_validate h cfg = Inr () \<longleftrightarrow>
     (let es = ac_tokens cfg @ ac_management_tokens cfg
      in es \<noteq> [] \<and> (\<forall>e \<in> set es. MIN_TOKEN_LEN \<le> length (te_token e) \<and> (\<forall>i \<in> set (te_projects e). 0 < i))
         \<and> distinct (map (h \<circ> te_token) es) \<and> [] \<notin> set (ac_public_path_prefixes cfg))"
  using validate_entries_iff [OF assms(1), of "[]" "ac_tokens cfg @ ac_management_tokens cfg"] assms(2)
  by (auto simp: ac_validate_def Let_def list_ex_iff split: sum.splits)

text \<open>The text form of an entry, as the documentation of \<^verbatim>\<open>from_env\<close> gives it.\<close>

definition show_entry :: "TokenEntry \<Rightarrow> string" where
  "show_entry e = te_token e @ ''@'' @ join '','' (map show_int (te_projects e))
     @ (case te_quota_bytes e of None \<Rightarrow> [] | Some q \<Rightarrow> '':'' @ show_nat q)"

definition plain_entry :: "TokenEntry \<Rightarrow> bool" where
  "plain_entry e \<longleftrightarrow> te_token e \<noteq> [] \<and> (\<forall>c \<in> set (te_token e). printable c \<and> c \<noteq> CHR '';'' \<and> c \<noteq> CHR ''@'')
     \<and> sorted (te_projects e) \<and> distinct (te_projects e) \<and> (\<forall>i \<in> set (te_projects e). 0 \<le> i \<and> i < 2 ^ 63)
     \<and> (\<forall>q. te_quota_bytes e = Some q \<longrightarrow> 0 < q \<and> q < 2 ^ 64)"

lemma show_int_digits: "0 \<le> i \<Longrightarrow> c \<in> set (show_int i) \<Longrightarrow> 48 \<le> (of_char c :: nat) \<and> (of_char c :: nat) \<le> 57"
  using show_nat_digits by (auto simp: show_int_def)

lemma show_int_chars:
  assumes "0 \<le> i" "c \<in> set (show_int i)"
  shows "printable c \<and> c \<noteq> CHR '','' \<and> c \<noteq> CHR '';'' \<and> c \<noteq> CHR '':'' \<and> c \<noteq> CHR ''@''"
  using show_int_digits [OF assms] by (auto simp: printable_def)

lemma parse_projects_show: "\<forall>i \<in> set is. 0 \<le> i \<and> i < 2 ^ 63 \<Longrightarrow> parse_projects (map show_int is) = Inr is"
proof (induction "is")
  case (Cons i "is")
  then have "parse_signed 64 (show_int i) = Some i" using parse_signed_show [of "nat i" 64] by (simp add: show_int_def nat_less_iff)
  with Cons show ?case by simp
qed simp

lemma show_int_ne: "0 \<le> i \<Longrightarrow> show_int i \<noteq> []"
  by (simp add: show_int_def show_nat_ne)

lemma trim_show_int: "0 \<le> i \<Longrightarrow> trim (show_int i) = show_int i"
  using show_int_chars by (intro trim_printable) blast

lemma join_chars:
  assumes "c \<in> set (join '','' (map show_int is))" "\<forall>i \<in> set is. 0 \<le> i"
  shows "printable c \<and> c \<noteq> CHR '';'' \<and> c \<noteq> CHR '':'' \<and> c \<noteq> CHR ''@''"
proof -
  consider "c = CHR '',''" | i where "i \<in> set is" "c \<in> set (show_int i)"
    using set_join [of "CHR '',''" "map show_int is"] assms(1) by auto
  then show ?thesis
  proof cases
    case 1
    then show ?thesis by (simp add: printable_def)
  next
    case 2
    then show ?thesis using show_int_chars assms(2) by blast
  qed
qed

lemma projects_pieces:
  assumes "\<forall>i \<in> set is. 0 \<le> i"
  shows "filter (\<lambda>p. p \<noteq> []) (map trim (split_by (\<lambda>c. c = CHR '','') (join '','' (map show_int is)))) = map show_int is"
proof (cases "is = []")
  case True
  then show ?thesis using trim_printable [of "[]"] by simp
next
  case False
  then have "split_by (\<lambda>c. c = CHR '','') (join '','' (map show_int is)) = map show_int is"
    using assms by (intro split_by_join) (auto dest: show_int_chars)
  then show ?thesis using assms by (auto simp: filter_id_conv show_int_ne trim_show_int o_def intro!: map_cong)
qed

lemma parse_item_show:
  assumes "plain_entry e"
  shows "parse_token_item (show_entry e) = Inr e"
proof -
  let ?ps = "join '','' (map show_int (te_projects e))"
  let ?q = "case te_quota_bytes e of None \<Rightarrow> [] | Some q \<Rightarrow> '':'' @ show_nat q"
  have pos: "\<forall>i \<in> set (te_projects e). 0 \<le> i" using assms by (auto simp: plain_entry_def)
  have tok: "split_once (CHR ''@'') (show_entry e) = Some (te_token e, ?ps @ ?q)"
    unfolding show_entry_def using assms by (simp add: plain_entry_def) (rule split_once_append, blast)
  have colon: "CHR '':'' \<notin> set ?ps" using join_chars [OF _ pos] by blast
  have scope: "parse_scope (Some (?ps @ ?q)) = Inr (te_quota_bytes e, Some ?ps)"
  proof (cases "te_quota_bytes e")
    case None
    moreover have "split_once (CHR '':'') ?ps = None" using split_once_None [of "CHR '':''" ?ps] colon by blast
    ultimately show ?thesis by (simp add: parse_scope_def)
  next
    case (Some q)
    then have q: "0 < q" "q < 2 ^ 64" using assms by (auto simp: plain_entry_def)
    have "trim (show_nat q) = show_nat q" using trim_show_int [of "int q"] by (simp add: show_int_def)
    with q Some show ?thesis
      using split_once_append [OF colon, of "show_nat q"] parse_unsigned_show [of q 64] by (simp add: parse_scope_def)
  qed
  have "remdups_adj (sort (te_projects e)) = te_projects e"
    using assms by (simp add: plain_entry_def sorted_sort_id remdups_adj_distinct)
  moreover have "trim (te_token e) = te_token e" using assms by (intro trim_printable) (auto simp: plain_entry_def)
  ultimately show ?thesis
    using assms tok scope projects_pieces [OF pos] parse_projects_show [of "te_projects e"]
    by (simp add: parse_token_item_def plain_entry_def)
qed

lemma parse_items_show: "\<forall>e \<in> set es. plain_entry e \<Longrightarrow> parse_token_items (map show_entry es) = Inr es"
  by (induction es) (simp_all add: parse_item_show)

text \<open>
  The token list survives the environment. Writing entries in the documented form
  \<^verbatim>\<open>token@1,2:quota\<close>, separated by semicolons, and parsing them gives the same entries, when the tokens
  are printable without \<^verbatim>\<open>;\<close> and \<^verbatim>\<open>@\<close>, the project ids ascending and not negative, and the quotas positive.
\<close>

theorem token_env_roundtrip:
  assumes "es \<noteq> []" "\<forall>e \<in> set es. plain_entry e"
  shows "parse_token_env (join '';'' (map show_entry es)) = Inr es"
proof -
  have chars: "printable c \<and> c \<noteq> CHR '';''" if "e \<in> set es" "c \<in> set (show_entry e)" for e c
  proof -
    note c = that(2)
    have e: "plain_entry e" using assms(2) that(1) by blast
    then have pos: "\<forall>i \<in> set (te_projects e). 0 \<le> i" by (auto simp: plain_entry_def)
    consider "c \<in> set (te_token e)" | "c = CHR ''@''" | "c \<in> set (join '','' (map show_int (te_projects e)))" | "c = CHR '':''"
      | q where "c \<in> set (show_nat q)"
      using c unfolding show_entry_def by (cases "te_quota_bytes e") auto
    then show ?thesis
    proof cases
      case (5 q)
      then show ?thesis using show_int_chars [of "int q" c] by (simp add: show_int_def)
    qed (use e join_chars [OF _ pos] in \<open>auto simp: plain_entry_def printable_def\<close>)
  qed
  have "split_by (\<lambda>c. c = CHR '';'') (join '';'' (map show_entry es)) = map show_entry es"
    using assms(1) chars by (intro split_by_join) auto
  moreover have "trim (show_entry e) = show_entry e" if "e \<in> set es" for e
    using chars [OF that] by (intro trim_printable) blast
  moreover have "show_entry e \<noteq> []" for e by (simp add: show_entry_def)
  ultimately have "filter (\<lambda>s. s \<noteq> []) (map trim (split_by (\<lambda>c. c = CHR '';'') (join '';'' (map show_entry es)))) = map show_entry es"
    by (auto simp: filter_id_conv)
  with assms show ?thesis by (simp add: parse_token_env_def parse_items_show)
qed

section \<open>Witnesses\<close>

text \<open>A digest of 32 bytes that does not collide on the two texts below.\<close>

definition toy_hash :: "string \<Rightarrow> digest" where
  "toy_hash t = (if t = ''gateway-token-0001'' then replicate 32 1 else if t = ''manager-token-0001'' then replicate 32 2 else replicate 32 0)"

definition sample_entries :: "TokenEntry list" where
  "sample_entries = [\<lparr>te_token = ''gateway-token-0001'', te_projects = [3, 7], te_quota_bytes = Some 1000\<rparr>]"

definition sample_cfg :: AdmissionConfig where
  "sample_cfg = AdmissionConfig_default\<lparr>ac_enabled := True, ac_tokens := sample_entries,
     ac_management_tokens := [\<lparr>te_token = ''manager-token-0001'', te_projects = [], te_quota_bytes = None\<rparr>]\<rparr>"

definition no_metrics :: AdmissionMetrics where
  "no_metrics = \<lparr>am_admitted = 0, am_auth_rejections = 0, am_scope_rejections = 0, am_rate_rejections = 0, am_body_rejections = 0,
     am_quota_rejections = 0\<rparr>"

definition sample_gate :: AdmissionGate where
  "sample_gate = gate_new toy_hash (\<lambda>_. []) sample_cfg no_metrics"

definition sample_request :: Request where
  "sample_request = \<lparr>rq_path = ''/api/project/3/ingest/batch'', rq_query = None, rq_method = ''GET'', rq_authorization = None,
     rq_api_token = Some ''gateway-token-0001'', rq_content_type = None, rq_origin = None, rq_body = Some []\<rparr>"

lemma toy_sized: "sha_sized toy_hash"
  by (simp add: sha_sized_def toy_hash_def)

lemma sample_token: "presented_token sample_request = Some ''gateway-token-0001''"
  by (simp add: presented_token_def sample_request_def trim_printable printable_def)

lemma toy_inj: "inj_on toy_hash {''gateway-token-0001'', ''manager-token-0001''}"
  by (simp add: inj_on_def toy_hash_def)

lemma sample_admitted:
  "fst (admission_middleware toy_hash (\<lambda>_. None) 0 sample_request sample_gate)
   = Admitted \<lparr>cx_fingerprint = [], cx_projects = [3, 7], cx_quota_bytes = Some 1000, cx_is_admin = False\<rparr>"
proof -
  let ?e = "\<lparr>st_hash = replicate 32 1 :: u8 list, st_fingerprint = [], st_projects = [3 :: int, 7], st_quota_bytes = Some (1000 :: nat)\<rparr>"
  have tok: "verify_token toy_hash sample_gate ''gateway-token-0001'' = Some (?e, False)"
    by (simp add: verify_token_def sample_gate_def gate_new_def sample_cfg_def sample_entries_def from_entries_def authenticate_def
        fingerprint_def toy_hash_def MIN_TOKEN_LEN_def equal_hashes_iff Let_def)
  have scope: "scope_candidates (\<lambda>_. None) m sample_request = Some [3]" for m
    by (simp add: scope_candidates_def sample_request_def reads_body_def project_id_from_path_def project_id_from_query_def
        parse_signed_def parse_digits_def digit_value_def Let_def)
  have pub: "\<not> is_public_path (rq_path sample_request) (ag_public_prefixes sample_gate)"
    by (simp add: sample_request_def sample_gate_def gate_new_def sample_cfg_def AdmissionConfig_default_def is_public_path_def starts_with_def)
  have path: "allows_path (context_new False ?e) (rq_path sample_request)"
    by (simp add: context_new_def allows_path_def is_gateway_path_def sample_request_def starts_with_def)
  have "fst (check_rate 0 (replicate 32 1) sample_gate)"
    by (simp add: check_rate_def rate_step_def sample_gate_def gate_new_def sample_cfg_def AdmissionConfig_default_def saturating_add_def
        Let_def duration_since_def RATE_WINDOW_def from_secs_def)
  then obtain g2 where rate: "check_rate 0 (replicate 32 1) sample_gate = (True, g2)" by (metis eq_fst_iff)
  show ?thesis
    using pub path by (simp add: admission_middleware_def sample_token tok rate scope Let_def)
      (simp add: context_new_def allows_project_def)
qed

theorem admitted_in_scope_witness:
  "\<exists>e \<in> set (ac_tokens sample_cfg). te_token e = ''gateway-token-0001'' \<and> te_projects e = [3, 7]"
proof -
  let ?cx = "\<lparr>cx_fingerprint = [], cx_projects = [3 :: int, 7], cx_quota_bytes = Some (1000 :: nat), cx_is_admin = False\<rparr>"
  obtain g' where adm: "admission_middleware toy_hash (\<lambda>_. None) 0 sample_request sample_gate = (Admitted ?cx, g')"
    using sample_admitted by (metis prod.collapse)
  have "inj_on toy_hash (insert ''gateway-token-0001'' (te_token ` set (ac_tokens sample_cfg @ ac_management_tokens sample_cfg)))"
    using toy_inj by (rule inj_on_subset) (auto simp: sample_cfg_def sample_entries_def)
  moreover have "sample_gate = (gate_new toy_hash (\<lambda>_. []) sample_cfg no_metrics)\<lparr>ag_buckets := Map.empty\<rparr>"
    by (simp add: sample_gate_def gate_new_def)
  ultimately show ?thesis using admitted_in_scope [OF toy_sized sample_token _ _ adm] by fastforce
qed

theorem rate_limit_every_minute_witness:
  "admitted_between (replicate 32 1) 0 60000000000 sample_gate (map (\<lambda>t. (replicate 32 1, t)) [0, 1, 2]) \<le> 1199"
  using rate_limit_every_minute [where cfg = sample_cfg and calls = "map (\<lambda>t. (replicate 32 1, t)) [0, 1, 2]" and ?t0.0 = 0
      and d = "replicate 32 1" and h = toy_hash and hex = "\<lambda>_. []" and m = no_metrics]
  by (simp add: sample_gate_def sample_cfg_def AdmissionConfig_default_def from_secs_def)

theorem query_flag_hides_project_witness:
  "fst (admission_middleware toy_hash (\<lambda>_. None) 0 (sample_request\<lparr>rq_query := Some (''verbose'' @ ''&project_id='' @ ''9'')\<rparr>) sample_gate)
   = Admitted \<lparr>cx_fingerprint = [], cx_projects = [3, 7], cx_quota_bytes = Some 1000, cx_is_admin = False\<rparr>"
proof -
  have "sample_request\<lparr>rq_query := None\<rparr> = sample_request" by (simp add: sample_request_def)
  with query_flag_hides_project [where x = "''verbose''" and h = toy_hash and js = "\<lambda>_. None" and now = 0 and req = sample_request
      and n = "''9''" and g = sample_gate] sample_admitted
  show ?thesis by simp
qed

theorem config_validation_decides_witness: "ac_validate toy_hash sample_cfg = Inr ()"
  using config_validation_decides [OF toy_sized, of sample_cfg]
  by (simp add: sample_cfg_def sample_entries_def AdmissionConfig_default_def toy_hash_def MIN_TOKEN_LEN_def)

theorem token_env_roundtrip_witness: "parse_token_env (join '';'' (map show_entry sample_entries)) = Inr sample_entries"
  by (rule token_env_roundtrip) (simp_all add: sample_entries_def plain_entry_def printable_def)

end
