(* ===== verification/Unicode_Text.thy ===== *)
theory Unicode_Text
  imports Prelude "HOL-Library.Sublist" "HOL-Library.Monad_Syntax"
begin

text \<open>
  Rust strings as sequences of Unicode scalar values with byte positions, and the text helpers of
  \<open>cce-utils/src/text.rs\<close> on them.  A string is the list of its characters; a position is a byte
  offset, the sum of the UTF-8 widths of the characters before it.  Slicing a string off a character
  boundary panics in Rust, and the slices here return \<^const>\<open>None\<close> for it, so that a function that
  slices returns an option and a theorem that it returns \<^const>\<open>Some\<close> says that it does not panic.

  The character classes and case mappings of the Unicode database are a parameter, except
  \<open>char::is_whitespace\<close>, whose property \<open>White_Space\<close> is short enough to be written out.
\<close>

section \<open>Characters and byte positions\<close>

type_synonym uchar = nat
type_synonym utext = "uchar list"

definition len_utf8 :: "uchar \<Rightarrow> nat" where
  "len_utf8 c = (if c < 128 then 1 else if c < 2048 then 2 else if c < 65536 then 3 else 4)"

lemma len_utf8_pos [simp]: "0 < len_utf8 c" "len_utf8 c \<noteq> 0" "Suc 0 \<le> len_utf8 c"
  by (simp_all add: len_utf8_def)

primrec blen :: "utext \<Rightarrow> nat" where
  "blen [] = 0"
| "blen (c # cs) = len_utf8 c + blen cs"

lemma blen_append [simp]: "blen (u @ v) = blen u + blen v"
  by (induction u) simp_all

lemma blen_eq_0 [simp]: "blen u = 0 \<longleftrightarrow> u = []"
  by (cases u) simp_all

lemma blen_pos [simp]: "0 < blen u \<longleftrightarrow> u \<noteq> []"
  by (cases u) simp_all

lemma blen_rev [simp]: "blen (rev u) = blen u"
  by (induction u) simp_all

lemma length_le_blen: "length u \<le> blen u"
  by (induction u) (simp_all, metis One_nat_def Suc_leI add_mono len_utf8_pos(1) plus_1_eq_Suc)

fun is_char_boundary :: "utext \<Rightarrow> nat \<Rightarrow> bool" where
  "is_char_boundary [] p = (p = 0)"
| "is_char_boundary (c # cs) p =
     (p = 0 \<or> (len_utf8 c \<le> p \<and> is_char_boundary cs (p - len_utf8 c)))"

fun byte_drop :: "nat \<Rightarrow> utext \<Rightarrow> utext" where
  "byte_drop p [] = []"
| "byte_drop p (c # cs) = (if p = 0 then c # cs else byte_drop (p - len_utf8 c) cs)"

fun byte_take :: "nat \<Rightarrow> utext \<Rightarrow> utext" where
  "byte_take p [] = []"
| "byte_take p (c # cs) = (if p = 0 then [] else c # byte_take (p - len_utf8 c) cs)"

definition slice :: "utext \<Rightarrow> nat \<Rightarrow> nat \<Rightarrow> utext option" where
  "slice t a b = (if a \<le> b \<and> is_char_boundary t a \<and> is_char_boundary t b
                  then Some (byte_take (b - a) (byte_drop a t)) else None)"

definition slice_from :: "utext \<Rightarrow> nat \<Rightarrow> utext option" where
  "slice_from t a = slice t a (blen t)"

definition slice_to :: "utext \<Rightarrow> nat \<Rightarrow> utext option" where
  "slice_to t b = slice t 0 b"

subsection \<open>Boundaries are the lengths of prefixes\<close>

lemma is_char_boundary_iff: "is_char_boundary t p \<longleftrightarrow> (\<exists>u v. t = u @ v \<and> blen u = p)"
proof (induction t arbitrary: p)
  case (Cons c cs)
  show ?case
  proof
    assume "is_char_boundary (c # cs) p"
    then consider "p = 0" | "len_utf8 c \<le> p" "is_char_boundary cs (p - len_utf8 c)" by auto
    thus "\<exists>u v. c # cs = u @ v \<and> blen u = p"
    proof cases
      case 1
      thus ?thesis by (intro exI [of _ "[]"] exI [of _ "c # cs"]) simp
    next
      case 2
      then obtain u v where "cs = u @ v" "blen u = p - len_utf8 c" using Cons.IH by blast
      thus ?thesis using 2 by (intro exI [of _ "c # u"] exI [of _ v]) simp
    qed
  next
    assume "\<exists>u v. c # cs = u @ v \<and> blen u = p"
    then obtain u v where *: "c # cs = u @ v" "blen u = p" by blast
    show "is_char_boundary (c # cs) p"
    proof (cases u)
      case (Cons d u')
      hence "cs = u' @ v" "blen u' = p - len_utf8 c" "len_utf8 c \<le> p" using * by auto
      thus ?thesis using Cons.IH by auto
    qed (use * in auto)
  qed
qed auto

lemma boundary_0 [simp]: "is_char_boundary t 0"
  by (cases t) simp_all

lemma boundary_append [simp]: "is_char_boundary (u @ v) (blen u)"
  unfolding is_char_boundary_iff by blast

lemma boundary_blen [simp]: "is_char_boundary t (blen t)"
  using boundary_append [of t "[]"] by simp

lemma boundary_le: "is_char_boundary t p \<Longrightarrow> p \<le> blen t"
  unfolding is_char_boundary_iff by auto

lemma boundary_inside: "is_char_boundary v q \<Longrightarrow> is_char_boundary (u @ v @ w) (blen u + q)"
  unfolding is_char_boundary_iff
  by (elim exE conjE, rule_tac x = "u @ ua" in exI, rule_tac x = "va @ w" in exI) simp

lemma prefix_blen_unique:
  assumes "u @ v = u' @ v'" and "blen u = blen u'"
  shows "u = u' \<and> v = v'"
proof -
  obtain us where "u = u' @ us \<and> us @ v = v' \<or> u @ us = u' \<and> v = us @ v'"
    using assms(1) unfolding append_eq_append_conv2 by blast
  thus ?thesis using assms(2) by auto
qed

lemma prefix_blen_le:
  assumes "u @ v = u' @ v'" and "blen u \<le> blen u'"
  obtains w where "u' = u @ w" "v = w @ v'"
proof -
  obtain us where "u = u' @ us \<and> us @ v = v' \<or> u @ us = u' \<and> v = us @ v'"
    using assms(1) unfolding append_eq_append_conv2 by blast
  thus ?thesis using assms(2) that by auto
qed

lemma byte_drop_append [simp]: "byte_drop (blen u) (u @ v) = v"
proof (induction u)
  case Nil
  show ?case by (cases v) simp_all
qed simp

lemma byte_take_append [simp]: "byte_take (blen u) (u @ v) = u"
proof (induction u)
  case Nil
  show ?case by (cases v) simp_all
qed simp

text \<open>What a slice is: the middle part of a decomposition of the string.\<close>

lemma slice_eq_Some:
  "slice t a b = Some s \<longleftrightarrow> (\<exists>u v. t = u @ s @ v \<and> blen u = a \<and> blen u + blen s = b)"
proof
  assume *: "slice t a b = Some s"
  hence ab: "a \<le> b" "is_char_boundary t a" "is_char_boundary t b"
    and s: "s = byte_take (b - a) (byte_drop a t)" by (auto simp: slice_def split: if_splits)
  obtain u w where u: "t = u @ w" "blen u = a" using ab(2) unfolding is_char_boundary_iff by blast
  obtain u' w' where u': "t = u' @ w'" "blen u' = b" using ab(3) unfolding is_char_boundary_iff by blast
  obtain m where m: "u' = u @ m" "w = m @ w'" using prefix_blen_le [of u w u' w'] u u' ab(1) by auto
  have "b - a = blen m" using m u u' by auto
  hence "s = m" using s u m by (metis byte_drop_append byte_take_append)
  thus "\<exists>u v. t = u @ s @ v \<and> blen u = a \<and> blen u + blen s = b" using u u' m by auto
next
  assume "\<exists>u v. t = u @ s @ v \<and> blen u = a \<and> blen u + blen s = b"
  then obtain u v where *: "t = u @ s @ v" "blen u = a" "blen u + blen s = b" by blast
  have "is_char_boundary t b"
    using * unfolding is_char_boundary_iff by (intro exI [of _ "u @ s"] exI [of _ v]) simp
  thus "slice t a b = Some s" using * unfolding slice_def by auto
qed

lemma slice_append [simp]: "slice (u @ s @ v) (blen u) (blen u + blen s) = Some s"
  unfolding slice_eq_Some by blast

lemma slice_defined:
  assumes "a \<le> b" and "is_char_boundary t a" and "is_char_boundary t b"
  obtains s where "slice t a b = Some s"
  using assms by (simp add: slice_def)

lemma slice_blen: "slice t a b = Some s \<Longrightarrow> blen s = b - a \<and> a \<le> b \<and> b \<le> blen t"
  unfolding slice_eq_Some by auto

lemma slice_boundaries: "slice t a b = Some s \<Longrightarrow> is_char_boundary t a \<and> is_char_boundary t b"
  by (simp add: slice_def split: if_splits)

lemma slice_whole [simp]: "slice t 0 (blen t) = Some t"
  unfolding slice_eq_Some by (intro exI [of _ "[]"]) simp

lemma slice_join:
  assumes "slice t a b = Some x" and "slice t b c = Some y"
  shows "slice t a c = Some (x @ y)"
proof -
  obtain u v where 1: "t = u @ x @ v" "blen u = a" "blen u + blen x = b"
    using assms(1) unfolding slice_eq_Some by blast
  obtain u' v' where 2: "t = u' @ y @ v'" "blen u' = b" "blen u' + blen y = c"
    using assms(2) unfolding slice_eq_Some by blast
  have "u @ x = u' \<and> v = y @ v'"
    by (rule prefix_blen_unique) (use 1 2 in auto)
  thus ?thesis unfolding slice_eq_Some using 1 2 by (intro exI [of _ u] exI [of _ v']) auto
qed

lemma slice_split:
  assumes "slice t a c = Some s" and "s = x @ y"
  shows "slice t a (a + blen x) = Some x" and "slice t (a + blen x) c = Some y"
proof -
  obtain u v where 1: "t = u @ s @ v" "blen u = a" "blen u + blen s = c"
    using assms(1) unfolding slice_eq_Some by blast
  show "slice t a (a + blen x) = Some x"
    unfolding slice_eq_Some using 1 assms(2) by (intro exI [of _ u] exI [of _ "y @ v"]) auto
  show "slice t (a + blen x) c = Some y"
    unfolding slice_eq_Some using 1 assms(2) by (intro exI [of _ "u @ x"] exI [of _ v]) auto
qed

lemma slice_of_slice:
  assumes "slice t a b = Some s" and "slice s i j = Some r"
  shows "slice t (a + i) (a + j) = Some r"
proof -
  obtain u v where 1: "t = u @ s @ v" "blen u = a" "blen u + blen s = b"
    using assms(1) unfolding slice_eq_Some by blast
  obtain u' v' where 2: "s = u' @ r @ v'" "blen u' = i" "blen u' + blen r = j"
    using assms(2) unfolding slice_eq_Some by blast
  show ?thesis unfolding slice_eq_Some
    using 1 2 by (intro exI [of _ "u @ u'"] exI [of _ "v' @ v"]) auto
qed

lemma slice_boundary:
  assumes "slice t a b = Some s"
  shows "is_char_boundary s q \<longleftrightarrow> is_char_boundary t (a + q) \<and> a + q \<le> b"
proof -
  obtain u v where 1: "t = u @ s @ v" "blen u = a" "blen u + blen s = b"
    using assms unfolding slice_eq_Some by blast
  show ?thesis
  proof
    assume *: "is_char_boundary s q"
    thus "is_char_boundary t (a + q) \<and> a + q \<le> b"
      using boundary_inside [OF *, of u v] boundary_le [OF *] 1 by auto
  next
    assume *: "is_char_boundary t (a + q) \<and> a + q \<le> b"
    then obtain x y where xy: "t = x @ y" "blen x = a + q" unfolding is_char_boundary_iff by blast
    obtain w where w: "x = u @ w" "s @ v = w @ y"
      using prefix_blen_le [of u "s @ v" x y] 1 xy by auto
    obtain z where "s = w @ z" "y = z @ v"
      using prefix_blen_le [of w y s v] w xy 1 * by auto
    thus "is_char_boundary s q" using w xy 1 by auto
  qed
qed

lemma slice_from_Some: "slice_from t a = Some s \<longleftrightarrow> (\<exists>u. t = u @ s \<and> blen u = a)"
proof
  assume "slice_from t a = Some s"
  thus "\<exists>u. t = u @ s \<and> blen u = a" unfolding slice_from_def slice_eq_Some by auto
next
  assume "\<exists>u. t = u @ s \<and> blen u = a"
  thus "slice_from t a = Some s"
    unfolding slice_from_def slice_eq_Some by (metis append_Nil2 blen_append)
qed

lemma slice_to_Some: "slice_to t b = Some s \<longleftrightarrow> (\<exists>v. t = s @ v \<and> blen s = b)"
  unfolding slice_to_def slice_eq_Some by auto

lemma slice_from_append [simp]: "slice_from (u @ v) (blen u) = Some v"
  unfolding slice_from_Some by blast

lemma slice_to_append [simp]: "slice_to (u @ v) (blen u) = Some u"
  unfolding slice_to_Some by blast

lemma slice_to_whole [simp]: "slice_to t (blen t) = Some t"
  by (simp add: slice_to_def)

lemma slice_from_0 [simp]: "slice_from t 0 = Some t"
  by (simp add: slice_from_def)

section \<open>Standard library searches\<close>

fun char_indices_from :: "nat \<Rightarrow> utext \<Rightarrow> (nat \<times> uchar) list" where
  "char_indices_from i [] = []"
| "char_indices_from i (c # cs) = (i, c) # char_indices_from (i + len_utf8 c) cs"

abbreviation char_indices :: "utext \<Rightarrow> (nat \<times> uchar) list" where
  "char_indices t \<equiv> char_indices_from 0 t"

lemma length_char_indices [simp]: "length (char_indices_from i t) = length t"
  by (induction t arbitrary: i) simp_all

lemma nth_char_indices:
  "k < length t \<Longrightarrow> char_indices_from i t ! k = (i + blen (take k t), t ! k)"
  by (induction t arbitrary: i k) (simp_all add: nth_Cons' take_Cons')

lemma set_char_indices:
  "(p, c) \<in> set (char_indices_from i t) \<longleftrightarrow> (\<exists>u v. t = u @ c # v \<and> p = i + blen u)"
proof (induction t arbitrary: i)
  case (Cons d t)
  show ?case
  proof
    assume "(p, c) \<in> set (char_indices_from i (d # t))"
    then consider "p = i" "c = d" | u v where "t = u @ c # v" "p = i + len_utf8 d + blen u"
      using Cons.IH by auto
    thus "\<exists>u v. d # t = u @ c # v \<and> p = i + blen u"
    proof cases
      case 1
      thus ?thesis by (intro exI [of _ "[]"] exI [of _ t]) simp
    next
      case (2 u v)
      thus ?thesis by (intro exI [of _ "d # u"] exI [of _ v]) simp
    qed
  next
    assume "\<exists>u v. d # t = u @ c # v \<and> p = i + blen u"
    then obtain u v where *: "d # t = u @ c # v" "p = i + blen u" by blast
    show "(p, c) \<in> set (char_indices_from i (d # t))"
      using * Cons.IH by (cases u) auto
  qed
qed simp

text \<open>\<open>str::rfind\<close>: the byte offset of the last occurrence of a non-empty pattern.\<close>

fun rfind :: "utext \<Rightarrow> utext \<Rightarrow> nat option" where
  "rfind p [] = (if p = [] then Some 0 else None)"
| "rfind p (c # cs) = (case rfind p cs of Some i \<Rightarrow> Some (len_utf8 c + i)
     | None \<Rightarrow> if prefix p (c # cs) then Some 0 else None)"

lemma rfind_Some: "rfind p t = Some i \<Longrightarrow> \<exists>u v. t = u @ p @ v \<and> blen u = i"
proof (induction t arbitrary: i)
  case (Cons c cs)
  show ?case
  proof (cases "rfind p cs")
    case None
    thus ?thesis using Cons.prems by (auto split: if_splits elim!: prefixE)
  next
    case (Some j)
    then obtain u v where "cs = u @ p @ v" "blen u = j" using Cons.IH by blast
    thus ?thesis using Some Cons.prems by (intro exI [of _ "c # u"] exI [of _ v]) simp
  qed
qed (auto split: if_splits)

lemma rfind_None: "rfind p t = None \<Longrightarrow> \<not> sublist p t"
proof (induction t)
  case (Cons c cs)
  thus ?case by (auto split: option.splits if_splits simp: sublist_Cons_right)
qed (auto split: if_splits)

text \<open>\<open>str::match_indices\<close>: the byte offsets of the non-overlapping occurrences of a pattern.\<close>

function match_indices_from :: "nat \<Rightarrow> utext \<Rightarrow> utext \<Rightarrow> nat list" where
  "match_indices_from i p [] = []"
| "match_indices_from i p (c # cs) =
     (if p \<noteq> [] \<and> prefix p (c # cs)
      then i # match_indices_from (i + blen p) p (drop (length p) (c # cs))
      else match_indices_from (i + len_utf8 c) p cs)"
  by pat_completeness auto
termination by (relation "measure (\<lambda>(i, p, t). length t)") auto

lemma match_indices_sound:
  "i \<in> set (match_indices_from j p t) \<Longrightarrow> \<exists>u v. t = u @ p @ v \<and> i = j + blen u"
proof (induction j p t rule: match_indices_from.induct)
  case (2 j p c cs)
  show ?case
  proof (cases "p \<noteq> [] \<and> prefix p (c # cs)")
    case True
    then obtain w where w: "c # cs = p @ w" by (auto elim: prefixE)
    have "match_indices_from j p (c # cs) = j # match_indices_from (j + blen p) p w"
      using True w by (metis append_eq_conv_conj match_indices_from.simps(2))
    then consider "i = j" | "i \<in> set (match_indices_from (j + blen p) p w)"
      using 2(3) by auto
    thus ?thesis
    proof cases
      case 1
      thus ?thesis using w by (intro exI [of _ "[]"] exI [of _ w]) simp
    next
      case 2
      then obtain u v where "w = u @ p @ v" "i = j + blen p + blen u"
        using "2.IH"(1) [OF True] w by (metis append_eq_conv_conj)
      thus ?thesis using w by (intro exI [of _ "p @ u"] exI [of _ v]) simp
    qed
  next
    case False
    hence "i \<in> set (match_indices_from (j + len_utf8 c) p cs)" using 2(3) by (auto split: if_splits)
    then obtain u v where "cs = u @ p @ v" "i = j + len_utf8 c + blen u"
      using "2.IH"(2) [OF False] by blast
    thus ?thesis by (intro exI [of _ "c # u"] exI [of _ v]) simp
  qed
qed simp

lemma match_indices_ge: "i \<in> set (match_indices_from j p t) \<Longrightarrow> j \<le> i"
  using match_indices_sound by fastforce

lemma match_indices_spaced:
  "sorted_wrt (\<lambda>a b. a + blen p \<le> b) (match_indices_from j p t)"
proof (induction j p t rule: match_indices_from.induct)
  case (2 j p c cs)
  show ?case
  proof (cases "p \<noteq> [] \<and> prefix p (c # cs)")
    case True
    thus ?thesis using "2.IH"(1) [OF True] match_indices_ge by simp
  next
    case False
    show ?thesis using "2.IH"(2) [OF False] by (subst match_indices_from.simps(2), subst if_not_P [OF False])
  qed
qed simp

definition is_whitespace :: "uchar \<Rightarrow> bool" where
  "is_whitespace c = (9 \<le> c \<and> c \<le> 13 \<or> c = 32 \<or> c = 133 \<or> c = 160 \<or> c = 5760
     \<or> 8192 \<le> c \<and> c \<le> 8202 \<or> c = 8232 \<or> c = 8233 \<or> c = 8239 \<or> c = 8287 \<or> c = 12288)"

definition u_trim_end :: "utext \<Rightarrow> utext" where
  "u_trim_end t = rev (dropWhile is_whitespace (rev t))"

definition u_trim :: "utext \<Rightarrow> utext" where
  "u_trim t = u_trim_end (dropWhile is_whitespace t)"

lemma u_trim_empty: "u_trim t = [] \<longleftrightarrow> (\<forall>c \<in> set t. is_whitespace c)"
proof
  assume "u_trim t = []"
  hence a: "\<forall>c \<in> set (dropWhile is_whitespace t). is_whitespace c"
    by (simp add: u_trim_def u_trim_end_def)
  show "\<forall>c \<in> set t. is_whitespace c"
  proof (cases "dropWhile is_whitespace t")
    case Nil
    thus ?thesis by (simp add: dropWhile_eq_Nil_conv)
  next
    case (Cons x xs)
    thus ?thesis using a hd_dropWhile [of is_whitespace t] by force
  qed
next
  assume "\<forall>c \<in> set t. is_whitespace c"
  thus "u_trim t = []"
    by (simp add: u_trim_def u_trim_end_def dropWhile_eq_Nil_conv [THEN iffD2])
qed

end
