(* ===== verification/Text_Utils.thy ===== *)
theory Text_Utils
  imports Unicode_Text
begin

text \<open>
  The text helpers of \<open>cce-utils/src/text.rs\<close>: moving a byte index to a character boundary, slices
  and truncations that never split a character, a case-insensitive search that reports offsets of the
  original text, whitespace normalisation, and the splitting of identifiers into words.
\<close>

section \<open>The Unicode database\<close>

record unicode =
  is_uppercase :: "uchar \<Rightarrow> bool"
  is_lowercase :: "uchar \<Rightarrow> bool"
  is_alphabetic :: "uchar \<Rightarrow> bool"
  is_alphanumeric :: "uchar \<Rightarrow> bool"
  to_lowercase :: "uchar \<Rightarrow> uchar list"
  str_to_lowercase :: "utext \<Rightarrow> utext"

definition ascii_upper :: "uchar \<Rightarrow> bool" where
  "ascii_upper c = (65 \<le> c \<and> c \<le> 90)"

definition ascii_letter_lower :: "uchar \<Rightarrow> bool" where
  "ascii_letter_lower c = (97 \<le> c \<and> c \<le> 122)"

definition is_ascii_digit :: "uchar \<Rightarrow> bool" where
  "is_ascii_digit c = (48 \<le> c \<and> c \<le> 57)"

text \<open>The database restricted to ASCII, the instance the concrete examples evaluate.\<close>

definition ascii_unicode :: unicode where
  "ascii_unicode =
     \<lparr>is_uppercase = ascii_upper, is_lowercase = ascii_letter_lower,
      is_alphabetic = (\<lambda>c. ascii_upper c \<or> ascii_letter_lower c),
      is_alphanumeric = (\<lambda>c. ascii_upper c \<or> ascii_letter_lower c \<or> is_ascii_digit c),
      to_lowercase = (\<lambda>c. [if ascii_upper c then c + 32 else c]),
      str_to_lowercase = map (\<lambda>c. if ascii_upper c then c + 32 else c)\<rparr>"

section \<open>Character boundaries\<close>

primrec floor_loop :: "utext \<Rightarrow> nat \<Rightarrow> nat" where
  "floor_loop t 0 = 0"
| "floor_loop t (Suc p) = (if is_char_boundary t (Suc p) then Suc p else floor_loop t p)"

definition floor_char_boundary :: "utext \<Rightarrow> nat \<Rightarrow> nat" where
  "floor_char_boundary t position = floor_loop t (min position (blen t))"

function ceil_loop :: "utext \<Rightarrow> nat \<Rightarrow> nat" where
  "ceil_loop t p = (if p < blen t \<and> \<not> is_char_boundary t p then ceil_loop t (p + 1) else p)"
  by pat_completeness auto
termination by (relation "measure (\<lambda>(t, p). blen t - p)") auto

declare ceil_loop.simps [simp del]

definition ceil_char_boundary :: "utext \<Rightarrow> nat \<Rightarrow> nat" where
  "ceil_char_boundary t position = ceil_loop t (min position (blen t))"

definition prev_char_boundary :: "utext \<Rightarrow> nat \<Rightarrow> nat" where
  "prev_char_boundary t position = floor_char_boundary t position"

definition next_char_boundary :: "utext \<Rightarrow> nat \<Rightarrow> nat" where
  "next_char_boundary t position = ceil_char_boundary t position"

definition truncate_to_byte_len :: "utext \<Rightarrow> nat \<Rightarrow> utext option" where
  "truncate_to_byte_len t max_bytes = slice_to t (floor_char_boundary t max_bytes)"

text \<open>\<open>String::truncate\<close> panics off a boundary and does nothing past the end.\<close>

definition string_truncate :: "utext \<Rightarrow> nat \<Rightarrow> utext option" where
  "string_truncate t n = (if blen t < n then Some t else slice_to t n)"

definition truncate_string_to_byte_len :: "utext \<Rightarrow> nat \<Rightarrow> utext option" where
  "truncate_string_to_byte_len t max_bytes = string_truncate t (floor_char_boundary t max_bytes)"

definition char_at :: "utext \<Rightarrow> nat \<Rightarrow> uchar option option" where
  "char_at t position =
     (if \<not> is_char_boundary t position then Some None
      else do { rest \<leftarrow> slice_from t position;
                Some (case rest of [] \<Rightarrow> None | c # _ \<Rightarrow> Some c) })"

definition slice_clamped :: "utext \<Rightarrow> nat \<Rightarrow> nat \<Rightarrow> utext option" where
  "slice_clamped t start end =
     (let start = floor_char_boundary t start;
          end = floor_char_boundary t (max end start)
      in slice t start end)"

definition slice_exact :: "utext \<Rightarrow> nat \<Rightarrow> nat \<Rightarrow> utext option option" where
  "slice_exact t start end =
     (if start > end \<or> end > blen t \<or> \<not> is_char_boundary t start \<or> \<not> is_char_boundary t end
      then Some None else map_option Some (slice t start end))"

lemma floor_loop_boundary: "is_char_boundary t (floor_loop t p)"
  by (induction p) simp_all

lemma floor_loop_le: "floor_loop t p \<le> p"
  by (induction p) simp_all

lemma floor_loop_greatest: "is_char_boundary t q \<Longrightarrow> q \<le> p \<Longrightarrow> q \<le> floor_loop t p"
  by (induction p) (auto simp: le_Suc_eq)

lemma floor_boundary [simp]: "is_char_boundary t (floor_char_boundary t p)"
  by (simp add: floor_char_boundary_def floor_loop_boundary)

lemma floor_le: "floor_char_boundary t p \<le> p"
  unfolding floor_char_boundary_def using floor_loop_le [of t "min p (blen t)"] by simp

lemma floor_le_blen: "floor_char_boundary t p \<le> blen t"
  by (rule boundary_le) simp

lemma floor_greatest: "is_char_boundary t q \<Longrightarrow> q \<le> p \<Longrightarrow> q \<le> floor_char_boundary t p"
  unfolding floor_char_boundary_def using boundary_le by (intro floor_loop_greatest) auto

lemma floor_id [simp]: "is_char_boundary t p \<Longrightarrow> floor_char_boundary t p = p"
  by (meson floor_greatest floor_le le_antisym order_refl)

lemma floor_mono: "p \<le> q \<Longrightarrow> floor_char_boundary t p \<le> floor_char_boundary t q"
  by (meson floor_boundary floor_greatest floor_le le_trans)

lemma ceil_loop_props:
  assumes "p \<le> blen t"
  shows "is_char_boundary t (ceil_loop t p) \<and> p \<le> ceil_loop t p
    \<and> (\<forall>q. is_char_boundary t q \<longrightarrow> p \<le> q \<longrightarrow> ceil_loop t p \<le> q)"
  using assms
proof (induction t p rule: ceil_loop.induct)
  case (1 t p)
  show ?case
  proof (cases "p < blen t \<and> \<not> is_char_boundary t p")
    case True
    have e: "ceil_loop t p = ceil_loop t (p + 1)" by (subst ceil_loop.simps) (simp add: True)
    have "is_char_boundary t (ceil_loop t (p + 1)) \<and> p + 1 \<le> ceil_loop t (p + 1)
      \<and> (\<forall>q. is_char_boundary t q \<longrightarrow> p + 1 \<le> q \<longrightarrow> ceil_loop t (p + 1) \<le> q)"
      using 1 True by simp
    thus ?thesis unfolding e using True by (metis Suc_eq_plus1 Suc_leD Suc_leI le_neq_implies_less)
  next
    case False
    hence "ceil_loop t p = p" by (subst ceil_loop.simps) auto
    moreover have "is_char_boundary t p" using False 1(2) by (cases "p = blen t") auto
    ultimately show ?thesis by simp
  qed
qed

lemma ceil_boundary [simp]: "is_char_boundary t (ceil_char_boundary t p)"
  unfolding ceil_char_boundary_def using ceil_loop_props [of "min p (blen t)" t] by simp

lemma ceil_ge: "p \<le> blen t \<Longrightarrow> p \<le> ceil_char_boundary t p"
  unfolding ceil_char_boundary_def using ceil_loop_props [of "min p (blen t)" t] by simp

lemma ceil_least: "is_char_boundary t q \<Longrightarrow> p \<le> q \<Longrightarrow> ceil_char_boundary t p \<le> q"
  unfolding ceil_char_boundary_def using ceil_loop_props [of "min p (blen t)" t] boundary_le by fastforce

section \<open>Case-insensitive search\<close>

fun match_lowered :: "unicode \<Rightarrow> utext \<Rightarrow> uchar list \<Rightarrow> nat \<Rightarrow> nat \<Rightarrow> nat option" where
  "match_lowered uc [] needle_lower matched consumed = None"
| "match_lowered uc (c # cs) needle_lower matched consumed =
     (let lowered = to_lowercase uc c; next = matched + length lowered;
          end = consumed + len_utf8 c
      in if next > length needle_lower \<or> take (length lowered) (drop matched needle_lower) \<noteq> lowered
         then None
         else if next = length needle_lower then Some end
         else match_lowered uc cs needle_lower next end)"

fun find_lowered :: "unicode \<Rightarrow> utext \<Rightarrow> uchar list \<Rightarrow> nat \<Rightarrow> (nat \<times> nat) option" where
  "find_lowered uc [] needle_lower start = None"
| "find_lowered uc (c # cs) needle_lower start =
     (case match_lowered uc (c # cs) needle_lower 0 0 of
        Some n \<Rightarrow> Some (start, n)
      | None \<Rightarrow> find_lowered uc cs needle_lower (start + len_utf8 c))"

definition find_case_insensitive :: "unicode \<Rightarrow> utext \<Rightarrow> utext \<Rightarrow> (nat \<times> nat) option" where
  "find_case_insensitive uc haystack needle =
     (if needle = [] then Some (0, 0)
      else find_lowered uc haystack (concat (map (to_lowercase uc) needle)) 0)"

definition lower_all :: "unicode \<Rightarrow> utext \<Rightarrow> uchar list" where
  "lower_all uc t = concat (map (to_lowercase uc) t)"

lemma lower_all_simps [simp]:
  "lower_all uc [] = []" "lower_all uc (c # t) = to_lowercase uc c @ lower_all uc t"
  "lower_all uc (t @ t') = lower_all uc t @ lower_all uc t'"
  by (simp_all add: lower_all_def)

lemma match_lowered_sound:
  assumes "match_lowered uc t nl m k = Some e"
  shows "\<exists>x y. t = x @ y \<and> x \<noteq> [] \<and> e = k + blen x \<and> take m nl @ lower_all uc x = nl"
  using assms
proof (induction t arbitrary: m k)
  case (Cons c cs)
  let ?l = "to_lowercase uc c"
  have ok: "m + length ?l \<le> length nl" "take (length ?l) (drop m nl) = ?l"
    using Cons.prems by (auto simp: Let_def split: if_splits)
  have tk: "take (m + length ?l) nl = take m nl @ ?l" using ok by (simp add: take_add)
  show ?case
  proof (cases "m + length ?l = length nl")
    case True
    hence "e = k + len_utf8 c" using Cons.prems ok by (simp add: Let_def)
    thus ?thesis using True tk by (intro exI [of _ "[c]"] exI [of _ cs]) simp
  next
    case False
    hence "match_lowered uc cs nl (m + length ?l) (k + len_utf8 c) = Some e"
      using Cons.prems ok by (simp add: Let_def)
    then obtain x y where "cs = x @ y" "x \<noteq> []" "e = k + len_utf8 c + blen x"
      "take (m + length ?l) nl @ lower_all uc x = nl" using Cons.IH by blast
    thus ?thesis using tk by (intro exI [of _ "c # x"] exI [of _ y]) simp
  qed
qed simp

lemma find_lowered_sound:
  assumes "find_lowered uc t nl i = Some (s, n)"
  shows "\<exists>u x v. t = u @ x @ v \<and> s = i + blen u \<and> n = blen x \<and> x \<noteq> [] \<and> lower_all uc x = nl"
  using assms
proof (induction t arbitrary: i)
  case (Cons c cs)
  show ?case
  proof (cases "match_lowered uc (c # cs) nl 0 0")
    case None
    hence "find_lowered uc cs nl (i + len_utf8 c) = Some (s, n)" using Cons.prems by simp
    then obtain u x v where "cs = u @ x @ v" "s = i + len_utf8 c + blen u" "n = blen x" "x \<noteq> []"
      "lower_all uc x = nl" using Cons.IH by blast
    thus ?thesis by (intro exI [of _ "c # u"] exI [of _ x] exI [of _ v]) simp
  next
    case (Some e)
    hence "s = i" "n = e" using Cons.prems by auto
    thus ?thesis using match_lowered_sound [OF Some] by (metis add.right_neutral append_Nil blen.simps(1)
          add_0 take0)
  qed
qed simp

text \<open>A hit is a slice of the original text that is the needle up to case.\<close>

lemma find_case_insensitive_sound:
  assumes "find_case_insensitive uc haystack needle = Some (s, n)"
  shows "\<exists>x. slice haystack s (s + n) = Some x \<and> lower_all uc x = lower_all uc needle"
proof (cases "needle = []")
  case True
  thus ?thesis using assms unfolding slice_eq_Some
    by (auto simp: find_case_insensitive_def intro!: exI [of _ "[]"])
next
  case False
  hence "find_lowered uc haystack (lower_all uc needle) 0 = Some (s, n)"
    using assms by (simp add: find_case_insensitive_def lower_all_def)
  from find_lowered_sound [OF this] show ?thesis unfolding slice_eq_Some by auto
qed

section \<open>Whitespace normalisation\<close>

abbreviation non_space :: "uchar \<Rightarrow> bool" where
  "non_space c \<equiv> \<not> is_whitespace c"

function split_whitespace :: "utext \<Rightarrow> utext list" where
  "split_whitespace t =
     (let t' = dropWhile is_whitespace t
      in if t' = [] then []
         else takeWhile non_space t' # split_whitespace (dropWhile non_space t'))"
  by pat_completeness auto
termination
proof (relation "measure length", simp)
  fix t t' :: utext
  assume t': "t' = dropWhile is_whitespace t" and ne: "t' \<noteq> []"
  have "non_space (hd t')" using hd_dropWhile [of is_whitespace t] t' ne by simp
  hence "length (dropWhile non_space t') < length t'"
    using ne by (cases t') (auto simp: le_imp_less_Suc length_dropWhile_le)
  moreover have "length t' \<le> length t" by (simp add: t' length_dropWhile_le)
  ultimately show "(dropWhile non_space t', t) \<in> measure length" by simp
qed

declare split_whitespace.simps [simp del]

fun join_text :: "utext \<Rightarrow> utext list \<Rightarrow> utext" where
  "join_text sep [] = []"
| "join_text sep [w] = w"
| "join_text sep (w # w' # ws) = w @ sep @ join_text sep (w' # ws)"

definition normalize_whitespace :: "utext \<Rightarrow> utext" where
  "normalize_whitespace t = join_text [32] (split_whitespace t)"

text \<open>\<open>str::lines\<close>: the pieces between line feeds, without a carriage return before the feed and
  without an empty last piece.\<close>

fun split_on :: "(uchar \<Rightarrow> bool) \<Rightarrow> utext \<Rightarrow> utext list" where
  "split_on P [] = [[]]"
| "split_on P (c # cs) =
     (if P c then [] # split_on P cs
      else (case split_on P cs of [] \<Rightarrow> [[c]] | w # ws \<Rightarrow> (c # w) # ws))"

definition strip_cr :: "utext \<Rightarrow> utext" where
  "strip_cr l = (if l \<noteq> [] \<and> last l = 13 then butlast l else l)"

definition text_lines :: "utext \<Rightarrow> utext list" where
  "text_lines t =
     (let ps = split_on (\<lambda>c. c = 10) t
      in map strip_cr (butlast ps) @ (if last ps = [] then [] else [last ps]))"

definition normalize_whitespace_preserving_newlines :: "utext \<Rightarrow> utext" where
  "normalize_whitespace_preserving_newlines t =
     u_trim (join_text [10] (map (\<lambda>l. join_text [32] (split_whitespace l)) (text_lines t)))"

text \<open>\<open>str::replace\<close>, from left to right without overlaps.\<close>

function replace_all :: "utext \<Rightarrow> utext \<Rightarrow> utext \<Rightarrow> utext" where
  "replace_all p r [] = []"
| "replace_all p r (c # cs) =
     (if p \<noteq> [] \<and> prefix p (c # cs) then r @ replace_all p r (drop (length p) (c # cs))
      else c # replace_all p r cs)"
  by pat_completeness auto
termination by (relation "measure (\<lambda>(p, r, t). length t)") auto

definition lit :: "string \<Rightarrow> utext" where
  "lit s = map of_char s"

definition normalize_code_fragment :: "utext \<Rightarrow> utext" where
  "normalize_code_fragment t =
     (if t = [] then []
      else let r = replace_all (lit ''::'') (lit '':'') t;
               r = replace_all (lit ''<<='') (lit '' shift left assign '') r;
               r = replace_all (lit ''>>='') (lit '' shift right assign '') r;
               r = replace_all (lit ''<<'') (lit '' shift left '') r;
               r = replace_all (lit ''>>'') (lit '' shift right '') r;
               r = replace_all (lit ''=>'') (lit '' maps to '') r;
               r = filter (\<lambda>c. c \<notin> {96, 34}) r
           in normalize_whitespace r)"

definition is_blank :: "utext \<Rightarrow> bool" where
  "is_blank t = (u_trim t = [])"

definition remove_quotes :: "utext \<Rightarrow> utext" where
  "remove_quotes t = filter (\<lambda>c. c \<notin> {39, 34, 96}) t"

text \<open>The words of a text: maximal runs of characters that are not white space.\<close>

lemma split_whitespace_words: "w \<in> set (split_whitespace t) \<Longrightarrow> w \<noteq> [] \<and> list_all non_space w"
proof (induction t rule: split_whitespace.induct)
  case (1 t)
  let ?t = "dropWhile is_whitespace t"
  show ?case
  proof (cases "?t = []")
    case True
    thus ?thesis using 1(2) by (simp add: split_whitespace.simps [of t])
  next
    case False
    have "non_space (hd ?t)" using hd_dropWhile [of is_whitespace t] False by simp
    hence "takeWhile non_space ?t \<noteq> []" using False by (cases ?t) auto
    moreover have "list_all non_space (takeWhile non_space ?t)"
      by (auto simp: list_all_iff dest: set_takeWhileD)
    moreover have "w = takeWhile non_space ?t \<or> w \<in> set (split_whitespace (dropWhile non_space ?t))"
      using 1(2) False by (auto simp: split_whitespace.simps [of t] Let_def split: if_splits)
    ultimately show ?thesis using 1(1) [OF refl False] by metis
  qed
qed

lemma split_whitespace_word:
  assumes "w \<noteq> []" and "list_all non_space w" and "r = [] \<or> is_whitespace (hd r)"
  shows "split_whitespace (w @ r) = w # split_whitespace r"
proof -
  obtain c w' where w: "w = c # w'" "non_space c" using assms(1,2) by (cases w) auto
  have "dropWhile is_whitespace (w @ r) = w @ r" using w by simp
  moreover have "takeWhile non_space (w @ r) = w" "dropWhile non_space (w @ r) = r"
    using assms(2,3) by (cases r; auto simp: list_all_iff takeWhile_append dropWhile_append)+
  ultimately show ?thesis using assms(1) by (simp add: split_whitespace.simps [of "w @ r"] Let_def)
qed

lemma split_whitespace_space [simp]: "is_whitespace c \<Longrightarrow> split_whitespace (c # t) = split_whitespace t"
  by (simp add: split_whitespace.simps [of "c # t"] split_whitespace.simps [of t])

lemma split_whitespace_Nil [simp]: "split_whitespace [] = []"
  by (simp add: split_whitespace.simps)

lemma split_whitespace_join:
  "\<forall>w \<in> set ws. w \<noteq> [] \<and> list_all non_space w \<Longrightarrow> split_whitespace (join_text [32] ws) = ws"
proof (induction "[32] :: utext" ws rule: join_text.induct)
  case (2 w)
  thus ?case using split_whitespace_word [of w "[]"] by simp
next
  case (3 w w' ws)
  have sp: "is_whitespace 32" by (simp add: is_whitespace_def)
  have "split_whitespace (w @ [32] @ join_text [32] (w' # ws))
    = w # split_whitespace ([32] @ join_text [32] (w' # ws))"
    using 3 sp by (intro split_whitespace_word) auto
  thus ?case using 3 sp by simp
qed simp

lemma normalize_keeps_words: "split_whitespace (normalize_whitespace t) = split_whitespace t"
  unfolding normalize_whitespace_def using split_whitespace_words by (intro split_whitespace_join) blast

section \<open>Identifier words\<close>

fun camel_spaces :: "unicode \<Rightarrow> uchar option \<Rightarrow> utext \<Rightarrow> utext \<Rightarrow> utext" where
  "camel_spaces uc prev [] result = result"
| "camel_spaces uc prev (c # cs) result =
     (let prev_is_lower = (case prev of None \<Rightarrow> False | Some p \<Rightarrow> is_lowercase uc p);
          next_is_lower = (case cs of [] \<Rightarrow> False | d # _ \<Rightarrow> is_lowercase uc d)
      in camel_spaces uc (Some c) cs
           (if is_uppercase uc c \<and> result \<noteq> [] \<and> (prev_is_lower \<or> next_is_lower)
            then result @ [32, c] else result @ [c]))"

definition split_camel_case :: "unicode \<Rightarrow> utext \<Rightarrow> utext" where
  "split_camel_case uc t = camel_spaces uc None t []"

fun camel_words :: "unicode \<Rightarrow> uchar option \<Rightarrow> utext \<Rightarrow> utext list \<Rightarrow> utext \<Rightarrow> utext list" where
  "camel_words uc prev [] result current =
     (if current \<noteq> [] then result @ [str_to_lowercase uc current] else result)"
| "camel_words uc prev (c # cs) result current =
     (let prev_is_lower = (case prev of None \<Rightarrow> False | Some p \<Rightarrow> is_lowercase uc p);
          next_is_lower = (case cs of [] \<Rightarrow> False | d # _ \<Rightarrow> is_lowercase uc d);
          cut = (if is_uppercase uc c \<and> current \<noteq> [] then prev_is_lower \<or> next_is_lower
                 else if current \<noteq> [] then
                   is_ascii_digit c \<and> \<not> is_ascii_digit (last current)
                   \<or> is_alphabetic uc c \<and> is_ascii_digit (last current)
                 else False)
      in if cut then camel_words uc (Some c) cs (result @ [str_to_lowercase uc current]) [c]
         else camel_words uc (Some c) cs result (current @ [c]))"

definition split_camel_case_words :: "unicode \<Rightarrow> utext \<Rightarrow> utext list" where
  "split_camel_case_words uc word =
     (if word = [] then []
      else concat (map (\<lambda>segment. if segment = [] then [] else camel_words uc None segment [] [])
                       (split_on (\<lambda>c. c \<in> {95, 45}) word)))"

fun split_path_sep :: "utext \<Rightarrow> utext list" where
  "split_path_sep [] = [[]]"
| "split_path_sep [c] = [[c]]"
| "split_path_sep (c # d # cs) =
     (if c = 58 \<and> d = 58 then [] # split_path_sep cs
      else (case split_path_sep (d # cs) of [] \<Rightarrow> [[c]] | w # ws \<Rightarrow> (c # w) # ws))"

definition split_identifier :: "unicode \<Rightarrow> utext \<Rightarrow> utext list" where
  "split_identifier uc ident =
     (if ident = [] then []
      else filter (\<lambda>s. 2 \<le> blen s \<and> \<not> list_all is_ascii_digit s)
        (concat (map (\<lambda>segment. if segment = [] then [] else
           concat (map (\<lambda>sub. if sub = [] then [] else
             concat (map (\<lambda>sub2. if sub2 = [] then [] else split_camel_case_words uc sub2)
               (split_on (\<lambda>c. c = 58) sub)))
             (split_path_sep segment)))
           (split_on (\<lambda>c. c \<in> {95, 45, 46, 47}) ident))))"

text \<open>The words, before they are lowered, are the input cut into non-empty pieces: no letter is
  lost and none moves.\<close>

lemma camel_words_pieces:
  "\<exists>ps. camel_words uc prev cs result current = result @ map (str_to_lowercase uc) ps
     \<and> concat ps = current @ cs \<and> [] \<notin> set ps"
proof (induction cs arbitrary: prev result current)
  case Nil
  show ?case by (cases "current = []") (auto intro: exI [of _ "[]"] exI [of _ "[current]"])
next
  case (Cons c cs)
  let ?cut = "if is_uppercase uc c \<and> current \<noteq> []
      then (case prev of None \<Rightarrow> False | Some p \<Rightarrow> is_lowercase uc p)
         \<or> (case cs of [] \<Rightarrow> False | d # _ \<Rightarrow> is_lowercase uc d)
      else if current \<noteq> [] then is_ascii_digit c \<and> \<not> is_ascii_digit (last current)
         \<or> is_alphabetic uc c \<and> is_ascii_digit (last current)
      else False"
  show ?case
  proof (cases ?cut)
    case True
    obtain ps where ps: "camel_words uc (Some c) cs (result @ [str_to_lowercase uc current]) [c]
        = (result @ [str_to_lowercase uc current]) @ map (str_to_lowercase uc) ps"
      "concat ps = [c] @ cs" "[] \<notin> set ps" using Cons by blast
    have "current \<noteq> []" using True by (auto split: if_splits)
    moreover have "camel_words uc prev (c # cs) result current
        = camel_words uc (Some c) cs (result @ [str_to_lowercase uc current]) [c]"
      unfolding camel_words.simps Let_def by (rule if_P [OF True])
    ultimately show ?thesis using ps by (intro exI [of _ "current # ps"]) simp
  next
    case False
    have "camel_words uc prev (c # cs) result current = camel_words uc (Some c) cs result (current @ [c])"
      unfolding camel_words.simps Let_def by (rule if_not_P [OF False])
    thus ?thesis using Cons [of "Some c" result "current @ [c]"] by simp
  qed
qed

lemma split_on_not_Nil [simp]: "split_on P t \<noteq> []"
  by (induction t) (auto split: list.splits)

lemma concat_split_on: "concat (split_on P t) = filter (\<lambda>c. \<not> P c) t"
  by (induction t) (auto split: list.splits)

lemma map_pieces:
  assumes "\<And>s. \<exists>ps. f s = map g ps \<and> concat ps = s \<and> [] \<notin> set ps"
  shows "\<exists>ps. concat (map f ss) = map g ps \<and> concat ps = concat ss \<and> [] \<notin> set ps"
proof (induction ss)
  case (Cons s ss)
  obtain ps qs where "f s = map g ps" "concat ps = s" "[] \<notin> set ps"
    "concat (map f ss) = map g qs" "concat qs = concat ss" "[] \<notin> set qs"
    using Cons assms by blast
  thus ?case by (intro exI [of _ "ps @ qs"]) simp
qed simp

lemma split_camel_case_words_pieces:
  "\<exists>ps. split_camel_case_words uc word = map (str_to_lowercase uc) ps
     \<and> concat ps = filter (\<lambda>c. c \<notin> {95, 45}) word \<and> [] \<notin> set ps"
proof -
  have "\<exists>ps. (if s = [] then [] else camel_words uc None s [] []) = map (str_to_lowercase uc) ps
      \<and> concat ps = s \<and> [] \<notin> set ps" for s
    using camel_words_pieces [of uc None s "[]" "[]"] by (cases "s = []") auto
  from map_pieces [of "\<lambda>s. if s = [] then [] else camel_words uc None s [] []", OF this,
      of "split_on (\<lambda>c. c \<in> {95, 45}) word"]
  show ?thesis unfolding split_camel_case_words_def concat_split_on by auto
qed

text \<open>With case folding aside, inserting spaces only inserts spaces.\<close>

lemma camel_spaces_only_spaces:
  assumes "32 \<notin> set cs"
  shows "filter (\<lambda>c. c \<noteq> 32) (camel_spaces uc prev cs r') = filter (\<lambda>c. c \<noteq> 32) r' @ cs"
  using assms
proof (induction cs arbitrary: prev r')
  case (Cons c cs)
  thus ?case by (auto simp: Let_def)
qed simp

end
