(* ===== verification/Segmenter.thy ===== *)
theory Segmenter
  imports Text_Utils
begin

text \<open>
  The segmentation core of \<open>cce-text/src/segment.rs\<close>: the token stream of the keyword index.  Runs of
  CJK characters go through the dictionary segmenter in windows, other words are trimmed to their
  alphanumeric part and emitted whole, followed by the identifier words they contain at the same
  position.  The dictionary segmenter (\<open>jieba_rs\<close>) and the Unicode database are parameters.
\<close>

record MixedToken =
  mt_text :: utext
  offset_from :: nat
  offset_to :: nat
  mt_position :: nat
  position_length :: nat

text \<open>One token of the dictionary segmenter: the word and its first and last character index.\<close>

type_synonym jieba = "utext \<Rightarrow> (utext \<times> nat \<times> nat) list"

definition MAX_TOKENIZE_CHARS :: nat where
  "MAX_TOKENIZE_CHARS = 32768"

definition MAX_CJK_RUN_CHARS :: nat where
  "MAX_CJK_RUN_CHARS = 4096"

definition cap_text :: "utext \<Rightarrow> utext option" where
  "cap_text t = (if MAX_TOKENIZE_CHARS < length (char_indices t)
                 then slice_to t (fst (char_indices t ! MAX_TOKENIZE_CHARS)) else Some t)"

definition is_cjk :: "uchar \<Rightarrow> bool" where
  "is_cjk c = (0x4E00 \<le> c \<and> c \<le> 0x9FFF \<or> 0x3400 \<le> c \<and> c \<le> 0x4DBF \<or> 0x20000 \<le> c \<and> c \<le> 0x2A6DF
     \<or> 0x2A700 \<le> c \<and> c \<le> 0x2B73F \<or> 0x2B740 \<le> c \<and> c \<le> 0x2B81F \<or> 0x2B820 \<le> c \<and> c \<le> 0x2CEAF
     \<or> 0xF900 \<le> c \<and> c \<le> 0xFAFF \<or> 0x2F800 \<le> c \<and> c \<le> 0x2FA1F \<or> 0x3040 \<le> c \<and> c \<le> 0x309F
     \<or> 0x30A0 \<le> c \<and> c \<le> 0x30FF \<or> 0x31F0 \<le> c \<and> c \<le> 0x31FF \<or> 0xFF66 \<le> c \<and> c \<le> 0xFF9D
     \<or> 0xAC00 \<le> c \<and> c \<le> 0xD7AF \<or> 0x1100 \<le> c \<and> c \<le> 0x11FF \<or> 0x3130 \<le> c \<and> c \<le> 0x318F)"

definition calc_char_offsets :: "utext \<Rightarrow> nat list" where
  "calc_char_offsets t = 0 # map fst (drop 1 (char_indices t)) @ [blen t]"

definition nth_or :: "'a list \<Rightarrow> nat \<Rightarrow> 'a \<Rightarrow> 'a" where
  "nth_or xs i d = (if i < length xs then xs ! i else d)"

fun push_cjk_tokens :: "nat list \<Rightarrow> nat \<Rightarrow> nat \<Rightarrow> (utext \<times> nat \<times> nat) list \<Rightarrow> nat
    \<Rightarrow> MixedToken list \<times> nat" where
  "push_cjk_tokens offs wlen base [] pos = ([], pos)"
| "push_cjk_tokens offs wlen base ((word, s, e) # ts) pos =
     (let (rest, pos') = push_cjk_tokens offs wlen base ts (pos + 1)
      in (\<lparr>mt_text = word, offset_from = base + nth_or offs s 0, offset_to = base + nth_or offs e wlen,
           mt_position = pos, position_length = 1\<rparr> # rest, pos'))"

definition push_cjk_window :: "jieba \<Rightarrow> nat \<Rightarrow> nat \<Rightarrow> utext \<Rightarrow> MixedToken list \<times> nat" where
  "push_cjk_window jb pos base window =
     push_cjk_tokens (calc_char_offsets window) (blen window) base (jb window) pos"

text \<open>The windows of a run; the byte offsets of a window's first character are the widths of the
  characters before it.\<close>

function cjk_windows :: "jieba \<Rightarrow> nat \<Rightarrow> nat \<Rightarrow> utext \<Rightarrow> MixedToken list \<times> nat" where
  "cjk_windows jb pos base run =
     (if run = [] then ([], pos)
      else let window = take MAX_CJK_RUN_CHARS run;
               (ts, pos1) = push_cjk_window jb pos base window;
               (us, pos2) = cjk_windows jb pos1 (base + blen window) (drop MAX_CJK_RUN_CHARS run)
           in (ts @ us, pos2))"
  by pat_completeness auto
termination
  by (relation "measure (\<lambda>(jb, pos, base, run). length run)") (auto simp: MAX_CJK_RUN_CHARS_def)

declare cjk_windows.simps [simp del]

text \<open>A word is trimmed to the part between its first and its last alphanumeric character.\<close>

definition push_word :: "unicode \<Rightarrow> nat \<Rightarrow> nat \<Rightarrow> utext \<Rightarrow> MixedToken list \<times> nat" where
  "push_word uc pos base word =
     (let lead = takeWhile (\<lambda>c. \<not> is_alphanumeric uc c) word
      in if lead = word then ([], pos)
         else let tail = takeWhile (\<lambda>c. \<not> is_alphanumeric uc c) (rev word);
                  s = blen lead; e = blen word - blen tail;
                  trimmed = take (length word - length tail - length lead) (drop (length lead) word);
                  original_lower = str_to_lowercase uc trimmed;
                  tok = (\<lambda>w n. \<lparr>mt_text = w, offset_from = base + s, offset_to = base + e,
                                mt_position = pos, position_length = n\<rparr>)
              in (tok original_lower 1
                    # map (\<lambda>w. tok w 0) (filter (\<lambda>w. w \<noteq> original_lower) (split_identifier uc trimmed)),
                  pos + 1))"

abbreviation word_char :: "uchar \<Rightarrow> bool" where
  "word_char c \<equiv> \<not> is_cjk c \<and> \<not> is_whitespace c"

function segment_from :: "unicode \<Rightarrow> jieba \<Rightarrow> nat \<Rightarrow> nat \<Rightarrow> utext \<Rightarrow> MixedToken list \<times> nat" where
  "segment_from uc jb pos i [] = ([], pos)"
| "segment_from uc jb pos i (c # cs) =
     (if is_cjk c then
        let run = c # takeWhile is_cjk cs;
            (ts, pos1) = cjk_windows jb pos i run;
            (us, pos2) = segment_from uc jb pos1 (i + blen run) (dropWhile is_cjk cs)
        in (ts @ us, pos2)
      else if is_whitespace c then segment_from uc jb pos (i + len_utf8 c) cs
      else
        let word = c # takeWhile word_char cs;
            (ts, pos1) = push_word uc pos i word;
            (us, pos2) = segment_from uc jb pos1 (i + blen word) (dropWhile word_char cs)
        in (ts @ us, pos2))"
  by pat_completeness auto
termination
  by (relation "measure (\<lambda>(uc, jb, pos, i, t). length t)")
    (auto simp: le_imp_less_Suc length_dropWhile_le)

definition segment_text :: "unicode \<Rightarrow> jieba \<Rightarrow> utext \<Rightarrow> MixedToken list option" where
  "segment_text uc jb t = do { capped \<leftarrow> cap_text t; Some (fst (segment_from uc jb 0 0 capped)) }"

section \<open>Positions and offsets\<close>

text \<open>A stream that starts at position \<open>p\<close> and leaves the counter at \<open>q\<close>: the tokens of length one
  number the positions without a gap, and an auxiliary token repeats the position of the original
  token before it.\<close>

fun stream_ok :: "nat \<Rightarrow> MixedToken list \<Rightarrow> nat \<Rightarrow> bool" where
  "stream_ok p [] q = (p = q)"
| "stream_ok p (t # ts) q =
     (if position_length t = 1 then mt_position t = p \<and> stream_ok (p + 1) ts q
      else position_length t = 0 \<and> mt_position t + 1 = p \<and> stream_ok p ts q)"

lemma stream_ok_append: "stream_ok p ts q \<Longrightarrow> stream_ok q us r \<Longrightarrow> stream_ok p (ts @ us) r"
  by (induction ts arbitrary: p) (auto split: if_splits)

lemma stream_ok_count:
  "stream_ok p ts q \<Longrightarrow> p + length (filter (\<lambda>t. position_length t = 1) ts) = q"
  by (induction ts arbitrary: p) (fastforce split: if_splits)+

lemma stream_ok_positions:
  "stream_ok p ts q \<Longrightarrow>
   mt_position ` set (filter (\<lambda>t. position_length t = 1) ts) = {p ..< q}"
proof (induction ts arbitrary: p)
  case (Cons t ts)
  show ?case
  proof (cases "position_length t = 1")
    case True
    hence *: "mt_position t = p" "stream_ok (p + 1) ts q" using Cons.prems by auto
    have "p < q" using stream_ok_count [OF *(2)] by auto
    thus ?thesis using Cons.IH [OF *(2)] True * by auto
  next
    case False
    thus ?thesis using Cons by auto
  qed
qed auto

text \<open>Auxiliary tokens add no position, provided the first token of the stream is an original.\<close>

lemma stream_ok_aux_positions:
  "stream_ok p ts q \<Longrightarrow> 0 < p \<Longrightarrow> mt_position ` set ts \<subseteq> {p - 1 ..< q}"
proof (induction ts arbitrary: p)
  case (Cons t ts)
  show ?case
  proof (cases "position_length t = 1")
    case True
    hence *: "mt_position t = p" "stream_ok (p + 1) ts q" using Cons.prems by auto
    thus ?thesis using Cons.IH [OF *(2)] stream_ok_count [OF *(2)] by fastforce
  next
    case False
    hence *: "mt_position t + 1 = p" "stream_ok p ts q" using Cons.prems by auto
    thus ?thesis using Cons.IH [OF *(2)] stream_ok_count [OF *(2)] Cons.prems(2) by fastforce
  qed
qed simp

lemma stream_ok_all_positions: "stream_ok 0 ts q \<Longrightarrow> mt_position ` set ts = {0 ..< q}"
proof (cases ts)
  case (Cons t us)
  assume st: "stream_ok 0 ts q"
  hence t: "position_length t = 1" "mt_position t = 0" "stream_ok 1 us q"
    using Cons by (auto split: if_splits)
  have "mt_position ` set us \<subseteq> {0 ..< q}" using stream_ok_aux_positions [OF t(3)] by simp
  moreover have "0 < q" using stream_ok_count [OF t(3)] by simp
  moreover have "{0 ..< q} \<subseteq> mt_position ` set ts" using stream_ok_positions [OF st] by auto
  ultimately show ?thesis using Cons t by auto
qed auto

lemma push_cjk_tokens_stream:
  "push_cjk_tokens offs wlen base ts pos = (us, q) \<Longrightarrow> stream_ok pos us q"
  by (induction ts arbitrary: pos us) (auto split: prod.splits)

lemma cjk_windows_stream: "cjk_windows jb pos base run = (us, q) \<Longrightarrow> stream_ok pos us q"
proof (induction jb pos base run arbitrary: us q rule: cjk_windows.induct)
  case (1 jb pos base run)
  show ?case
  proof (cases "run = []")
    case True
    thus ?thesis using 1(2) by (simp add: cjk_windows.simps)
  next
    case False
    let ?w = "take MAX_CJK_RUN_CHARS run"
    obtain ts p1 where ts: "push_cjk_window jb pos base ?w = (ts, p1)" by force
    obtain vs p2 where vs: "cjk_windows jb p1 (base + blen ?w) (drop MAX_CJK_RUN_CHARS run) = (vs, p2)"
      by force
    have us: "us = ts @ vs" "q = p2"
      using 1(2) False ts vs by (auto simp: cjk_windows.simps [of jb pos base run] Let_def)
    have "stream_ok p1 vs p2" using 1(1) [OF False refl ts [symmetric] refl vs] .
    moreover have "stream_ok pos ts p1"
      using push_cjk_tokens_stream ts unfolding push_cjk_window_def by blast
    ultimately show ?thesis unfolding us using stream_ok_append by blast
  qed
qed

lemma stream_ok_aux: "\<forall>t \<in> set ts. position_length t = 0 \<and> mt_position t + 1 = p \<Longrightarrow> stream_ok p ts p"
  by (induction ts) auto

lemma push_word_stream: "push_word uc pos base word = (us, q) \<Longrightarrow> stream_ok pos us q"
  by (auto simp: push_word_def Let_def split: if_splits intro!: stream_ok_aux)

lemma segment_from_stream: "segment_from uc jb pos i t = (us, q) \<Longrightarrow> stream_ok pos us q"
proof (induction uc jb pos i t arbitrary: us q rule: segment_from.induct)
  case (2 uc jb pos i c cs)
  consider (cjk) "is_cjk c" | (ws) "\<not> is_cjk c" "is_whitespace c"
    | (word) "\<not> is_cjk c" "\<not> is_whitespace c" by blast
  thus ?case
  proof cases
    case cjk
    let ?r = "c # takeWhile is_cjk cs"
    obtain ts p1 where ts: "cjk_windows jb pos i ?r = (ts, p1)" by force
    obtain vs p2 where vs: "segment_from uc jb p1 (i + blen ?r) (dropWhile is_cjk cs) = (vs, p2)" by force
    have "us = ts @ vs" "q = p2" using "2.prems" cjk ts vs by (auto simp: Let_def)
    thus ?thesis
      using 2(1) [OF cjk refl ts [symmetric] refl vs] cjk_windows_stream [OF ts] stream_ok_append by blast
  next
    case ws
    thus ?thesis using 2(2) [OF ws] "2.prems" by simp
  next
    case word
    let ?r = "c # takeWhile word_char cs"
    obtain ts p1 where ts: "push_word uc pos i ?r = (ts, p1)" by force
    obtain vs p2 where vs: "segment_from uc jb p1 (i + blen ?r) (dropWhile word_char cs) = (vs, p2)" by force
    have "us = ts @ vs" "q = p2" using "2.prems" word ts vs by (auto simp: Let_def)
    thus ?thesis
      using 2(3) [OF word refl ts [symmetric] refl vs] push_word_stream [OF ts] stream_ok_append by blast
  qed
qed simp

lemma cap_text_Some: "\<exists>u v. t = u @ v \<and> cap_text t = Some u \<and> length u \<le> MAX_TOKENIZE_CHARS
    \<and> (v \<noteq> [] \<longrightarrow> length u = MAX_TOKENIZE_CHARS)"
proof (cases "MAX_TOKENIZE_CHARS < length t")
  case True
  have e: "fst (char_indices t ! MAX_TOKENIZE_CHARS) = blen (take MAX_TOKENIZE_CHARS t)"
    using nth_char_indices [OF True, of 0] by simp
  have "cap_text t = Some (take MAX_TOKENIZE_CHARS t)"
    using True unfolding cap_text_def length_char_indices e
    by (simp add: slice_to_Some) (metis append_take_drop_id)
  thus ?thesis using True by (intro exI [of _ "take MAX_TOKENIZE_CHARS t"]
        exI [of _ "drop MAX_TOKENIZE_CHARS t"]) auto
next
  case False
  thus ?thesis by (intro exI [of _ t] exI [of _ "[]"]) (simp add: cap_text_def)
qed

lemma segment_text_total: "\<exists>ts. segment_text uc jb t = Some ts"
  using cap_text_Some [of t] by (auto simp: segment_text_def)

text \<open>Every token's offsets are character boundaries of the text.\<close>

definition aligned :: "utext \<Rightarrow> MixedToken \<Rightarrow> bool" where
  "aligned t m \<longleftrightarrow> is_char_boundary t (offset_from m) \<and> is_char_boundary t (offset_to m)"

lemma calc_char_offsets_boundary: "p \<in> set (calc_char_offsets w) \<Longrightarrow> is_char_boundary w p"
proof -
  assume "p \<in> set (calc_char_offsets w)"
  then consider "p = 0" | "p = blen w" | c where "(p, c) \<in> set (char_indices w)"
    unfolding calc_char_offsets_def by (auto dest: in_set_dropD)
  thus ?thesis
  proof cases
    case (3 c)
    thus ?thesis unfolding set_char_indices is_char_boundary_iff by auto
  qed simp_all
qed

lemma nth_or_offsets:
  "is_char_boundary w d \<Longrightarrow> is_char_boundary w (nth_or (calc_char_offsets w) i d)"
  by (simp add: nth_or_def calc_char_offsets_boundary)

lemma push_cjk_tokens_aligned:
  assumes "push_cjk_tokens (calc_char_offsets w) (blen w) (blen u) ts pos = (us, q)"
    and "m \<in> set us"
  shows "aligned (u @ w @ v) m"
  using assms
proof (induction ts arbitrary: pos us q)
  case (Cons x ts)
  obtain a s e where x: "x = (a, s, e)" by (cases x) auto
  obtain rest p where r: "push_cjk_tokens (calc_char_offsets w) (blen w) (blen u) ts (pos + 1) = (rest, p)"
    by force
  show ?case
  proof (cases "m \<in> set rest")
    case True
    thus ?thesis using Cons.IH [OF r] by blast
  next
    case False
    hence "m = \<lparr>mt_text = a, offset_from = blen u + nth_or (calc_char_offsets w) s 0,
        offset_to = blen u + nth_or (calc_char_offsets w) e (blen w),
        mt_position = pos, position_length = 1\<rparr>"
      using Cons.prems r x by (auto simp: Let_def)
    thus ?thesis by (simp add: aligned_def boundary_inside nth_or_offsets)
  qed
qed simp

lemma cjk_windows_aligned:
  assumes "cjk_windows jb pos (blen u) run = (us, q)" and "m \<in> set us"
  shows "aligned (u @ run @ v) m"
  using assms
proof (induction "length run" arbitrary: u run pos us q rule: less_induct)
  case less
  have ne: "run \<noteq> []" using less(2,3) by (auto simp: cjk_windows.simps)
  define w where "w = take MAX_CJK_RUN_CHARS run"
  define r where "r = drop MAX_CJK_RUN_CHARS run"
  have run: "run = w @ r" by (simp add: w_def r_def)
  obtain ts p1 where ts: "push_cjk_window jb pos (blen u) w = (ts, p1)" by force
  obtain vs p2 where vs: "cjk_windows jb p1 (blen (u @ w)) r = (vs, p2)" by force
  have "us = ts @ vs"
    using less(2) ne ts vs unfolding cjk_windows.simps [of jb pos "blen u" run]
    by (simp add: Let_def flip: w_def r_def)
  then consider "m \<in> set ts" | "m \<in> set vs" using less(3) by auto
  thus ?case
  proof cases
    case 1
    thus ?thesis using push_cjk_tokens_aligned [of w u "jb w" pos ts p1 m "r @ v"] ts
      by (simp add: push_cjk_window_def run)
  next
    case 2
    have "length r < length run" using ne by (simp add: r_def MAX_CJK_RUN_CHARS_def)
    from less(1) [OF this vs 2] show ?thesis by (simp add: run)
  qed
qed

lemma push_word_aligned:
  assumes "push_word uc pos (blen u) word = (us, q)" and "m \<in> set us"
  shows "aligned (u @ word @ v) m"
proof -
  let ?n = "\<lambda>c. \<not> is_alphanumeric uc c"
  let ?l = "takeWhile ?n word" and ?t = "takeWhile ?n (rev word)"
  have "word = rev (dropWhile ?n (rev word)) @ rev ?t"
    by (metis rev_append rev_rev_ident takeWhile_dropWhile_id)
  hence "blen word - blen ?t = blen (rev (dropWhile ?n (rev word)))"
    "is_char_boundary word (blen (rev (dropWhile ?n (rev word))))"
    by (metis add_diff_cancel_right' blen_append blen_rev, metis boundary_append)
  hence "is_char_boundary word (blen word - blen ?t)" by simp
  moreover have "is_char_boundary word (blen ?l)"
    using boundary_append [of ?l "dropWhile ?n word"] by simp
  moreover have "offset_from m = blen u + blen ?l \<and> offset_to m = blen u + (blen word - blen ?t)"
    using assms by (auto simp: push_word_def Let_def split: if_splits)
  ultimately show ?thesis by (simp add: aligned_def boundary_inside)
qed

lemma segment_from_aligned:
  assumes "segment_from uc jb pos (blen u) t = (us, q)" and "m \<in> set us"
  shows "aligned (u @ t @ v) m"
  using assms
proof (induction "length t" arbitrary: u t pos us q rule: less_induct)
  case less
  obtain c cs where t: "t = c # cs" using less(2,3) by (cases t) auto
  consider (cjk) "is_cjk c" | (ws) "\<not> is_cjk c" "is_whitespace c"
    | (word) "\<not> is_cjk c" "\<not> is_whitespace c" by blast
  thus ?case
  proof cases
    case cjk
    define r where "r = c # takeWhile is_cjk cs"
    define d where "d = dropWhile is_cjk cs"
    have tr: "t = r @ d" by (simp add: t r_def d_def)
    obtain ts p1 where ts: "cjk_windows jb pos (blen u) r = (ts, p1)" by force
    obtain vs p2 where vs: "segment_from uc jb p1 (blen (u @ r)) d = (vs, p2)" by force
    have "us = ts @ vs" using less(2) cjk ts vs unfolding t by (simp add: Let_def r_def d_def)
    then consider "m \<in> set ts" | "m \<in> set vs" using less(3) by auto
    thus ?thesis
    proof cases
      case 1
      thus ?thesis using cjk_windows_aligned [OF ts 1, of "d @ v"] by (simp add: tr)
    next
      case 2
      have "length d < length t" by (simp add: t d_def le_imp_less_Suc length_dropWhile_le)
      from less(1) [OF this vs 2] show ?thesis by (simp add: tr)
    qed
  next
    case ws
    have "segment_from uc jb pos (blen (u @ [c])) cs = (us, q)" using less(2) ws by (simp add: t)
    from less(1) [OF _ this less(3)] show ?thesis by (simp add: t)
  next
    case word
    define r where "r = c # takeWhile word_char cs"
    define d where "d = dropWhile word_char cs"
    have tr: "t = r @ d" by (simp add: t r_def d_def)
    obtain ts p1 where ts: "push_word uc pos (blen u) r = (ts, p1)" by force
    obtain vs p2 where vs: "segment_from uc jb p1 (blen (u @ r)) d = (vs, p2)" by force
    have "us = ts @ vs" using less(2) word ts vs unfolding t by (simp add: Let_def r_def d_def)
    then consider "m \<in> set ts" | "m \<in> set vs" using less(3) by auto
    thus ?thesis
    proof cases
      case 1
      thus ?thesis using push_word_aligned [OF ts 1, of "d @ v"] by (simp add: tr)
    next
      case 2
      have "length d < length t" by (simp add: t d_def le_imp_less_Suc length_dropWhile_le)
      from less(1) [OF this vs 2] show ?thesis by (simp add: tr)
    qed
  qed
qed

text \<open>C32: Segmenting a text always returns.  The number of tokens that count as a position equals
  the number of distinct positions, which are numbered from zero without a gap, so a word costs one no
  matter into how many identifier words it splits; every auxiliary token repeats the position of a
  counted one; and every token's byte offsets are character boundaries of the text, also when the
  input was cut at the length limit.\<close>

theorem segment_text_positions:
  "\<exists>ts. segment_text uc jb t = Some ts
     \<and> mt_position ` set ts = {0 ..< length (filter (\<lambda>m. position_length m = 1) ts)}
     \<and> list_all (aligned t) ts"
proof -
  obtain u v where u: "t = u @ v" "cap_text t = Some u" using cap_text_Some by blast
  obtain ts q where ts: "segment_from uc jb 0 0 u = (ts, q)" by force
  have st: "stream_ok 0 ts q" using segment_from_stream [OF ts] .
  have "segment_text uc jb t = Some ts" using u ts by (simp add: segment_text_def)
  moreover have "mt_position ` set ts = {0 ..< length (filter (\<lambda>m. position_length m = 1) ts)}"
    using stream_ok_all_positions [OF st] stream_ok_count [OF st] by simp
  moreover have "aligned t m" if "m \<in> set ts" for m
    using segment_from_aligned [of uc jb 0 "[]" u ts q m v] ts that u(1) by simp
  ultimately show ?thesis by (auto simp: list_all_iff)
qed

end
