(* ===== verification/Text_Budget.thy ===== *)
theory Text_Budget
  imports Segmenter
begin

text \<open>
  Budget units and the budget primitives of \<open>cce-text/src/budget.rs\<close>, which every chunking path
  shares: the cost of a text in a unit, the longest prefix and the longest suffix within a limit, and
  the cut of a text into pieces that fit.  The estimator behind the token unit (\<open>llm_suite_token\<close>) is a
  parameter, as are the dictionary segmenter and the Unicode database behind the term unit.
\<close>

datatype ChunkUnit = Tokens | Terms

record env =
  env_unicode :: unicode
  env_jieba :: jieba
  estimate_tokens :: "utext \<Rightarrow> nat"

text \<open>Segmentation always returns (\<open>segment_text_total\<close>), so the last branch is never taken.\<close>

definition position_count :: "env \<Rightarrow> utext \<Rightarrow> nat" where
  "position_count E t = (case segment_text (env_unicode E) (env_jieba E) t of
       Some ts \<Rightarrow> length (filter (\<lambda>m. position_length m = 1) ts) | None \<Rightarrow> 0)"

definition unit_cost :: "env \<Rightarrow> ChunkUnit \<Rightarrow> utext \<Rightarrow> nat" where
  "unit_cost E u t = (case u of Tokens \<Rightarrow> estimate_tokens E t | Terms \<Rightarrow> position_count E t)"

definition fits :: "env \<Rightarrow> ChunkUnit \<Rightarrow> utext \<Rightarrow> nat \<Rightarrow> bool" where
  "fits E u t limit = (limit = 0 \<or> unit_cost E u t \<le> limit)"

definition byte_at_char :: "utext \<Rightarrow> nat \<Rightarrow> nat" where
  "byte_at_char t k = (if k < length (char_indices t) then fst (char_indices t ! k) else blen t)"

text \<open>The binary search keeps \<open>lo\<close> at a prefix that fits.\<close>

function budget_search :: "env \<Rightarrow> ChunkUnit \<Rightarrow> nat \<Rightarrow> utext \<Rightarrow> nat \<Rightarrow> nat \<Rightarrow> nat option" where
  "budget_search E u limit t lo hi =
     (if lo < hi then
        let mid = lo + (hi - lo + 1) div 2 in
        do { p \<leftarrow> slice_to t (byte_at_char t mid);
             if unit_cost E u p \<le> limit then budget_search E u limit t mid hi
             else budget_search E u limit t lo (mid - 1) }
      else Some lo)"
  by pat_completeness auto
termination by (relation "measure (\<lambda>(E, u, limit, t, lo, hi). hi - lo)") auto

declare budget_search.simps [simp del]

definition next_char_end :: "utext \<Rightarrow> nat \<Rightarrow> nat option" where
  "next_char_end t best =
     do { rest \<leftarrow> slice_from t best;
          Some (case rest of [] \<Rightarrow> blen t | c # _ \<Rightarrow> best + len_utf8 c) }"

lemma next_char_end_less: "next_char_end t best = Some n \<Longrightarrow> best < blen t \<Longrightarrow> best < n"
proof -
  assume n: "next_char_end t best = Some n" and b: "best < blen t"
  obtain rest where r: "slice_from t best = Some rest" using n by (auto simp: next_char_end_def bind_eq_Some_conv)
  show "best < n" using n r b by (cases rest) (auto simp: next_char_end_def)
qed

lemma diff_shrink: "0 < (k :: nat) \<Longrightarrow> \<not> n \<le> s + k \<Longrightarrow> n - (s + k) < n - s"
  by simp

function budget_grow :: "env \<Rightarrow> ChunkUnit \<Rightarrow> nat \<Rightarrow> utext \<Rightarrow> nat \<Rightarrow> nat option" where
  "budget_grow E u limit t best =
     (if best < blen t then
        do { n \<leftarrow> next_char_end t best;
             p \<leftarrow> slice_to t n;
             if unit_cost E u p > limit then Some best else budget_grow E u limit t n }
      else Some best)"
  by pat_completeness auto
termination
  by (relation "measure (\<lambda>(E, u, limit, t, best). blen t - best)")
    (auto dest!: next_char_end_less)

declare budget_grow.simps [simp del]

definition truncate_to_cost :: "env \<Rightarrow> utext \<Rightarrow> ChunkUnit \<Rightarrow> nat \<Rightarrow> utext option" where
  "truncate_to_cost E t u limit =
     (if limit = 0 \<or> unit_cost E u t \<le> limit then Some t
      else do { lo \<leftarrow> budget_search E u limit t 0 (length t);
                best \<leftarrow> budget_grow E u limit t (byte_at_char t lo);
                slice_to t best })"

fun suffix_loop :: "env \<Rightarrow> ChunkUnit \<Rightarrow> nat \<Rightarrow> utext \<Rightarrow> (nat \<times> uchar) list \<Rightarrow> nat \<Rightarrow> nat option" where
  "suffix_loop E u limit t [] best = Some best"
| "suffix_loop E u limit t ((index, c) # rest) best =
     do { s \<leftarrow> slice_from t index;
          if unit_cost E u s > limit then Some best else suffix_loop E u limit t rest index }"

definition suffix_start_for_cost :: "env \<Rightarrow> utext \<Rightarrow> ChunkUnit \<Rightarrow> nat \<Rightarrow> nat option" where
  "suffix_start_for_cost E t u limit =
     (if limit = 0 then Some (blen t) else suffix_loop E u limit t (rev (char_indices t)) (blen t))"

text \<open>The loop of \<open>split_to_fit\<close> gives each piece at least one character, so its length is the
  termination measure.\<close>

function split_loop :: "env \<Rightarrow> ChunkUnit \<Rightarrow> nat \<Rightarrow> utext \<Rightarrow> nat \<Rightarrow> (nat \<times> nat) list option" where
  "split_loop E u limit t start =
     (if start < blen t then
        do { remaining \<leftarrow> slice_from t start;
             pre \<leftarrow> truncate_to_cost E remaining u limit;
             let end = start + blen pre;
                 end = (if end \<le> start
                        then (case remaining of [] \<Rightarrow> blen t | c # _ \<Rightarrow> start + len_utf8 c) else end)
             in if end \<ge> blen t then Some [(start, end)]
                else do { rest \<leftarrow> split_loop E u limit t end; Some ((start, end) # rest) } }
      else Some [])"
  by pat_completeness auto
termination
  by (relation "measure (\<lambda>(E, u, limit, t, start). blen t - start)") (auto split: list.splits intro!: diff_shrink)

declare split_loop.simps [simp del]

definition split_to_fit :: "env \<Rightarrow> utext \<Rightarrow> ChunkUnit \<Rightarrow> nat \<Rightarrow> (nat \<times> nat) list option" where
  "split_to_fit E t u limit =
     (if t = [] then Some [] else if limit = 0 then Some [(0, blen t)] else split_loop E u limit t 0)"

section \<open>The longest prefix within a limit\<close>

lemma byte_at_char_eq: "byte_at_char t k = blen (take k t)"
  using nth_char_indices [of k t 0] by (auto simp: byte_at_char_def)

lemma slice_to_take [simp]: "slice_to t (blen (take k t)) = Some (take k t)"
  unfolding slice_to_Some by (metis append_take_drop_id)

lemma slice_from_take [simp]: "slice_from t (blen (take k t)) = Some (drop k t)"
  unfolding slice_from_Some by (metis append_take_drop_id)

lemma blen_take_less: "k < length t \<Longrightarrow> blen (take k t) < blen t"
proof -
  assume "k < length t"
  hence "drop k t \<noteq> []" by simp
  hence "0 < blen (drop k t)" by simp
  thus ?thesis by (metis append_take_drop_id blen_append less_add_same_cancel1)
qed

lemma next_char_end_take:
  assumes "k < length t"
  shows "next_char_end t (blen (take k t)) = Some (blen (take (Suc k) t))"
proof -
  have "drop k t = t ! k # drop (Suc k) t" using assms by (simp add: Cons_nth_drop_Suc)
  thus ?thesis by (simp add: next_char_end_def take_Suc_conv_app_nth [OF assms])
qed

lemma budget_search_ok:
  assumes "lo \<le> hi" and "hi \<le> length t" and "lo = 0 \<or> unit_cost E u (take lo t) \<le> limit"
  shows "\<exists>k. budget_search E u limit t lo hi = Some k \<and> lo \<le> k \<and> k \<le> hi
     \<and> (k = 0 \<or> unit_cost E u (take k t) \<le> limit)"
  using assms
proof (induction E u limit t lo hi rule: budget_search.induct)
  case (1 E u limit t lo hi)
  show ?case
  proof (cases "lo < hi")
    case True
    define mid where "mid = lo + (hi - lo + 1) div 2"
    have mid: "lo < mid" "mid \<le> hi" using True by (auto simp: mid_def)
    have sl: "slice_to t (byte_at_char t mid) = Some (take mid t)" by (simp add: byte_at_char_eq)
    show ?thesis
    proof (cases "unit_cost E u (take mid t) \<le> limit")
      case fit: True
      have "budget_search E u limit t lo hi = budget_search E u limit t mid hi"
        unfolding budget_search.simps [of E u limit t lo hi] Let_def mid_def [symmetric]
        using True fit sl by simp
      moreover have "\<exists>k. budget_search E u limit t mid hi = Some k \<and> mid \<le> k \<and> k \<le> hi
          \<and> (k = 0 \<or> unit_cost E u (take k t) \<le> limit)"
        using 1(1) [OF True mid_def sl fit] mid fit 1(4) by blast
      ultimately show ?thesis using mid by auto
    next
      case False
      have "budget_search E u limit t lo hi = budget_search E u limit t lo (mid - 1)"
        unfolding budget_search.simps [of E u limit t lo hi] Let_def mid_def [symmetric]
        using True False sl by simp
      moreover have "\<exists>k. budget_search E u limit t lo (mid - 1) = Some k \<and> lo \<le> k \<and> k \<le> mid - 1
          \<and> (k = 0 \<or> unit_cost E u (take k t) \<le> limit)"
        using 1(2) [OF True mid_def sl False] mid 1(4,5) by auto
      ultimately show ?thesis using mid by auto
    qed
  next
    case False
    hence "budget_search E u limit t lo hi = Some lo" by (simp add: budget_search.simps)
    thus ?thesis using 1(3,5) by auto
  qed
qed

lemma budget_grow_ok:
  assumes "k \<le> length t" and "k = 0 \<or> unit_cost E u (take k t) \<le> limit"
  shows "\<exists>m. budget_grow E u limit t (blen (take k t)) = Some (blen (take m t)) \<and> k \<le> m \<and> m \<le> length t
     \<and> (m = 0 \<or> unit_cost E u (take m t) \<le> limit)
     \<and> (m < length t \<longrightarrow> limit < unit_cost E u (take (Suc m) t))"
  using assms
proof (induction "length t - k" arbitrary: k)
  case 0
  hence "take k t = t" by simp
  thus ?case using 0 by (intro exI [of _ k]) (simp add: budget_grow.simps [of E u limit t])
next
  case (Suc n)
  hence k: "k < length t" by simp
  have st: "budget_grow E u limit t (blen (take k t)) =
      (if limit < unit_cost E u (take (Suc k) t) then Some (blen (take k t))
       else budget_grow E u limit t (blen (take (Suc k) t)))"
    unfolding budget_grow.simps [of E u limit t "blen (take k t)"]
    using blen_take_less [OF k] next_char_end_take [OF k] by simp
  show ?case
  proof (cases "limit < unit_cost E u (take (Suc k) t)")
    case True
    thus ?thesis using st Suc.prems k by (intro exI [of _ k]) auto
  next
    case False
    have "\<exists>m. budget_grow E u limit t (blen (take (Suc k) t)) = Some (blen (take m t)) \<and> Suc k \<le> m
       \<and> m \<le> length t \<and> (m = 0 \<or> unit_cost E u (take m t) \<le> limit)
       \<and> (m < length t \<longrightarrow> limit < unit_cost E u (take (Suc m) t))"
      using Suc(1) [of "Suc k"] Suc(2) k False by auto
    thus ?thesis using st False by auto
  qed
qed

text \<open>What truncation returns: always a prefix; the whole text when it fits; otherwise a prefix
  that fits, unless it is empty, and that no longer fits with the next character.\<close>

lemma truncate_to_cost_ok:
  "\<exists>m. truncate_to_cost E t u limit = Some (take m t) \<and> m \<le> length t
     \<and> (fits E u t limit \<longrightarrow> m = length t)
     \<and> (m = 0 \<or> fits E u (take m t) limit)
     \<and> (m < length t \<longrightarrow> \<not> fits E u (take (Suc m) t) limit)"
proof (cases "limit = 0 \<or> unit_cost E u t \<le> limit")
  case True
  thus ?thesis by (intro exI [of _ "length t"]) (auto simp: truncate_to_cost_def fits_def)
next
  case False
  obtain k where k: "budget_search E u limit t 0 (length t) = Some k" "k \<le> length t"
    "k = 0 \<or> unit_cost E u (take k t) \<le> limit" using budget_search_ok [of 0 "length t" t E u limit] by auto
  obtain m where m: "budget_grow E u limit t (blen (take k t)) = Some (blen (take m t))" "m \<le> length t"
    "m = 0 \<or> unit_cost E u (take m t) \<le> limit" "m < length t \<longrightarrow> limit < unit_cost E u (take (Suc m) t)"
    using budget_grow_ok [OF k(2,3)] by blast
  have "truncate_to_cost E t u limit = Some (take m t)"
    using False k m by (auto simp: truncate_to_cost_def byte_at_char_eq)
  thus ?thesis using m False by (intro exI [of _ m]) (auto simp: fits_def)
qed

definition prefix_monotone :: "env \<Rightarrow> ChunkUnit \<Rightarrow> bool" where
  "prefix_monotone E u \<longleftrightarrow> (\<forall>x y. unit_cost E u x \<le> unit_cost E u (x @ y))"

lemma prefix_monotoneD: "prefix_monotone E u \<Longrightarrow> prefix x y \<Longrightarrow> unit_cost E u x \<le> unit_cost E u y"
  unfolding prefix_monotone_def by (auto elim!: prefixE)

lemma fits_prefix: "prefix_monotone E u \<Longrightarrow> prefix x y \<Longrightarrow> fits E u y limit \<Longrightarrow> fits E u x limit"
  using prefix_monotoneD unfolding fits_def by fastforce

section \<open>Cutting a text into pieces that fit\<close>

text \<open>A complete, contiguous, character-aligned cover of a range by non-empty pieces: the contract
  every splitter of the chunker states.\<close>

fun covers :: "utext \<Rightarrow> nat \<Rightarrow> (nat \<times> nat) list \<Rightarrow> nat \<Rightarrow> bool" where
  "covers t a [] b = (a = b)"
| "covers t a ((s, e) # rs) b =
     (s = a \<and> s < e \<and> is_char_boundary t s \<and> is_char_boundary t e \<and> covers t e rs b)"

lemma covers_append: "covers t a rs b \<Longrightarrow> covers t b rs' c \<Longrightarrow> covers t a (rs @ rs') c"
  by (induction rs arbitrary: a) auto

lemma covers_snoc:
  "covers t a rs s \<Longrightarrow> s < e \<Longrightarrow> is_char_boundary t s \<Longrightarrow> is_char_boundary t e \<Longrightarrow> covers t a (rs @ [(s, e)]) e"
  by (rule covers_append) auto

lemma covers_le: "covers t a rs b \<Longrightarrow> a \<le> b"
proof (induction rs arbitrary: a)
  case (Cons r rs)
  thus ?case by (cases r) (auto dest: order.strict_implies_order intro: order_trans)
qed simp

lemma covers_last: "covers t a rs b \<Longrightarrow> rs \<noteq> [] \<Longrightarrow> snd (last rs) = b"
proof (induction rs arbitrary: a)
  case (Cons r rs)
  thus ?case by (cases r) (cases "rs = []"; auto)
qed simp

lemma covers_piece: "covers t a rs b \<Longrightarrow> (s, e) \<in> set rs \<Longrightarrow>
    a \<le> s \<and> s < e \<and> e \<le> b \<and> is_char_boundary t s \<and> is_char_boundary t e"
proof (induction rs arbitrary: a)
  case (Cons r rs)
  thus ?case by (cases r) (auto dest: covers_le, fastforce+)
qed simp

text \<open>The pieces of a cover, concatenated, are the range they cover.\<close>

lemma covers_concat:
  assumes "covers t a rs b" and "is_char_boundary t a"
  shows "\<exists>ps. map (\<lambda>(s, e). slice t s e) rs = map Some ps \<and> slice t a b = Some (concat ps)"
  using assms
proof (induction rs arbitrary: a)
  case Nil
  moreover have "byte_take 0 x = []" for x by (cases x) simp_all
  ultimately show ?case by (simp add: slice_def)
next
  case (Cons r rs)
  obtain s e where r: "r = (s, e)" by force
  have c: "s = a" "s < e" "is_char_boundary t e" "covers t e rs b" using Cons.prems by (auto simp: r)
  obtain ps where ps: "map (\<lambda>(s, e). slice t s e) rs = map Some ps" "slice t e b = Some (concat ps)"
    using Cons.IH [OF c(4,3)] by blast
  obtain p where p: "slice t a e = Some p" using slice_defined [of a e t] c Cons.prems(2) by auto
  show ?case using slice_join [OF p ps(2)] ps p c(1)
    by (intro exI [of _ "p # ps"]) (simp add: r)
qed

definition piece_fits :: "env \<Rightarrow> ChunkUnit \<Rightarrow> nat \<Rightarrow> utext \<Rightarrow> nat \<times> nat \<Rightarrow> bool" where
  "piece_fits E u limit t r = (case slice t (fst r) (snd r) of None \<Rightarrow> False
     | Some p \<Rightarrow> fits E u p limit \<or> length p = 1)"

text \<open>One round of the cut: a prefix of what remains, at least one character, that fits unless it
  is a single character.\<close>

lemma first_piece:
  assumes "remaining \<noteq> []"
  shows "\<exists>m pre. truncate_to_cost E remaining u limit = Some pre
    \<and> 0 < m \<and> m \<le> length remaining
    \<and> (if blen pre = 0 then len_utf8 (hd remaining) else blen pre) = blen (take m remaining)
    \<and> (fits E u (take m remaining) limit \<or> m = 1)"
proof -
  obtain k where k: "truncate_to_cost E remaining u limit = Some (take k remaining)" "k \<le> length remaining"
    "k = 0 \<or> fits E u (take k remaining) limit" using truncate_to_cost_ok by blast
  show ?thesis
  proof (cases "k = 0")
    case True
    thus ?thesis using k assms by (intro exI [of _ 1] exI [of _ "[]"]) (cases remaining; auto)
  next
    case False
    thus ?thesis using k assms by (intro exI [of _ k] exI [of _ "take k remaining"]) auto
  qed
qed

lemma split_loop_ok:
  assumes "is_char_boundary t start"
  shows "\<exists>rs. split_loop E u limit t start = Some rs \<and> covers t start rs (blen t)
     \<and> list_all (piece_fits E u limit t) rs"
  using assms
proof (induction "blen t - start" arbitrary: start rule: less_induct)
  case less
  show ?case
  proof (cases "start < blen t")
    case False
    hence "start = blen t" using boundary_le [OF less(2)] by simp
    thus ?thesis by (intro exI [of _ "[]"]) (simp add: split_loop.simps)
  next
    case True
    obtain x rem where xr: "t = x @ rem" "blen x = start" using less(2) unfolding is_char_boundary_iff by blast
    have ne: "rem \<noteq> []" using True xr by auto
    obtain m pre where m: "truncate_to_cost E rem u limit = Some pre" "0 < m" "m \<le> length rem"
      "(if blen pre = 0 then len_utf8 (hd rem) else blen pre) = blen (take m rem)"
      "fits E u (take m rem) limit \<or> m = 1" using first_piece [OF ne, of E u limit] by (elim exE conjE)
    let ?e = "start + blen (take m rem)"
    have sl: "slice_from t start = Some rem" using xr by auto
    have end_eq: "(if start + blen pre \<le> start
        then (case rem of [] \<Rightarrow> blen t | c # _ \<Rightarrow> start + len_utf8 c) else start + blen pre) = ?e"
      unfolding m(4) [symmetric] using ne by (simp split: list.split)
    have step: "split_loop E u limit t start = (if blen t \<le> ?e then Some [(start, ?e)]
        else do { rest \<leftarrow> split_loop E u limit t ?e; Some ((start, ?e) # rest) })"
      unfolding split_loop.simps [of E u limit t start] if_P [OF True] sl bind.bind_lunit m(1)
        Let_def end_eq ..
    have pos: "start < ?e" using m(2,3) by (cases rem) auto
    have t: "t = (x @ take m rem) @ drop m rem" using xr by simp
    have bd: "is_char_boundary t ?e" using boundary_append [of "x @ take m rem" "drop m rem"] t xr(2) by simp
    have "slice t start ?e = Some (take m rem)"
      using slice_append [of x "take m rem" "drop m rem"] xr by simp
    hence pf: "piece_fits E u limit t (start, ?e)" using m by (auto simp: piece_fits_def)
    show ?thesis
    proof (cases "blen t \<le> ?e")
      case True
      hence "blen t = ?e" using boundary_le [OF bd] by simp
      thus ?thesis using step True pf pos bd less(2) by auto
    next
      case False
      have "blen t - ?e < blen t - start" by (rule diff_shrink) (use pos False in auto)
      from less(1) [OF this bd]
      obtain rs where "split_loop E u limit t ?e = Some rs" "covers t ?e rs (blen t)"
        "list_all (piece_fits E u limit t) rs" by blast
      thus ?thesis using step False pf pos bd less(2) by auto
    qed
  qed
qed

lemma slice_covers_whole: "t \<noteq> [] \<Longrightarrow> covers t 0 [(0, blen t)] (blen t)"
  by simp

text \<open>C18: Cutting a text to a limit never panics.  The returned ranges are non-empty and
  contiguous, start and end on character boundaries and cover the whole text, so the pieces
  concatenate to the text; and every piece costs at most the limit, unless it is a single character
  that alone exceeds it.  This holds for every cost function, monotone or not.\<close>

theorem split_to_fit_partition:
  "\<exists>rs ps. split_to_fit E t u limit = Some rs \<and> covers t 0 rs (blen t)
     \<and> map (\<lambda>(s, e). slice t s e) rs = map Some ps \<and> concat ps = t
     \<and> list_all (piece_fits E u limit t) rs"
proof -
  have "\<exists>rs. split_to_fit E t u limit = Some rs \<and> covers t 0 rs (blen t)
     \<and> list_all (piece_fits E u limit t) rs"
    using split_loop_ok [of t 0 E u limit]
    by (auto simp: split_to_fit_def piece_fits_def fits_def)
  then obtain rs where rs: "split_to_fit E t u limit = Some rs" "covers t 0 rs (blen t)"
    "list_all (piece_fits E u limit t) rs" by blast
  obtain ps where "map (\<lambda>(s, e). slice t s e) rs = map Some ps" "slice t 0 (blen t) = Some (concat ps)"
    using covers_concat [OF rs(2) boundary_0] by blast
  thus ?thesis using rs by auto
qed

text \<open>Truncating a text to a cost limit never panics and returns a prefix of it.  The whole
  text comes back when it fits or when the limit is zero.  Otherwise the prefix fits, unless it is
  empty, and adding the next character makes it too expensive; when the cost of a prefix never
  exceeds that of the text, no longer prefix fits.\<close>

theorem truncate_to_cost_maximal:
  assumes "unit_cost E u [] \<le> limit"
  shows "\<exists>m \<le> length t. truncate_to_cost E t u limit = Some (take m t) \<and> fits E u (take m t) limit
     \<and> (m < length t \<longrightarrow> \<not> fits E u (take (Suc m) t) limit)
     \<and> (prefix_monotone E u \<longrightarrow> (\<forall>n \<le> length t. fits E u (take n t) limit \<longrightarrow> n \<le> m))"
proof -
  obtain m where m: "truncate_to_cost E t u limit = Some (take m t)" "m \<le> length t"
    "m = 0 \<or> fits E u (take m t) limit" "m < length t \<longrightarrow> \<not> fits E u (take (Suc m) t) limit"
    using truncate_to_cost_ok by blast
  have "n \<le> m" if "prefix_monotone E u" "n \<le> length t" "fits E u (take n t) limit" for n
  proof (rule ccontr)
    assume "\<not> n \<le> m"
    hence "prefix (take (Suc m) t) (take n t)" "m < length t"
      using that(2) by (auto simp: take_is_prefix prefix_def min_def
          intro!: exI [of _ "drop (Suc m) (take n t)"]) (metis append_take_drop_id min_def not_less_eq_eq take_take)
    thus False using fits_prefix [OF that(1) _ that(3)] m(4) by blast
  qed
  thus ?thesis using m assms by (intro exI [of _ m]) (auto simp: fits_def)
qed

text \<open>The environment of the concrete examples: one token per character, one term per CJK
  character.\<close>

definition char_env :: env where
  "char_env = \<lparr>env_unicode = ascii_unicode,
     env_jieba = (\<lambda>w. map (\<lambda>i. ([w ! i], i, i + 1)) [0 ..< length w]), estimate_tokens = length\<rparr>"

lemma char_env_tokens [simp]: "unit_cost char_env Tokens t = length t"
  by (simp add: unit_cost_def char_env_def)

lemma char_env_monotone [simp]: "prefix_monotone char_env Tokens"
  by (simp add: prefix_monotone_def)

theorem truncate_to_cost_maximal_witness:
  "truncate_to_cost char_env [97, 12290, 98, 99] Tokens 2 = Some [97, 12290]"
proof -
  let ?t = "[97, 12290, 98, 99] :: utext"
  obtain m where m: "m \<le> length ?t" "truncate_to_cost char_env ?t Tokens 2 = Some (take m ?t)"
    "fits char_env Tokens (take m ?t) 2"
    "\<forall>n \<le> length ?t. fits char_env Tokens (take n ?t) 2 \<longrightarrow> n \<le> m"
    using truncate_to_cost_maximal [of char_env Tokens 2 ?t] by auto
  have "fits char_env Tokens (take 2 ?t) 2" by (simp add: fits_def)
  hence "2 \<le> m" using m(4) by simp
  moreover have "m \<le> 2" using m(1,3) by (simp add: fits_def)
  ultimately show ?thesis using m(2) by (simp add: numeral_2_eq_2)
qed

section \<open>The longest suffix within a limit\<close>

lemma char_indices_snoc:
  "char_indices_from i (t @ [c]) = char_indices_from i t @ [(i + blen t, c)]"
  by (induction t arbitrary: i) simp_all

lemma suffix_loop_ok:
  assumes "k \<le> length t"
  shows "\<exists>m. suffix_loop E u limit t (rev (char_indices (take k t))) (blen (take k t)) = Some (blen (take m t))
     \<and> m \<le> k \<and> (m < k \<longrightarrow> unit_cost E u (drop m t) \<le> limit)
     \<and> (0 < m \<longrightarrow> limit < unit_cost E u (drop (m - 1) t))"
  using assms
proof (induction k)
  case (Suc k)
  hence k: "k < length t" by simp
  have tk: "take (Suc k) t = take k t @ [t ! k]" by (simp add: take_Suc_conv_app_nth [OF k])
  have st: "suffix_loop E u limit t (rev (char_indices (take (Suc k) t))) (blen (take (Suc k) t)) =
      (if limit < unit_cost E u (drop k t) then Some (blen (take (Suc k) t))
       else suffix_loop E u limit t (rev (char_indices (take k t))) (blen (take k t)))"
    using k by (simp add: tk char_indices_snoc)
  show ?case
  proof (cases "limit < unit_cost E u (drop k t)")
    case True
    thus ?thesis using st by (intro exI [of _ "Suc k"]) simp
  next
    case False
    obtain m where "suffix_loop E u limit t (rev (char_indices (take k t))) (blen (take k t)) = Some (blen (take m t))"
      "m \<le> k" "m < k \<longrightarrow> unit_cost E u (drop m t) \<le> limit"
      "0 < m \<longrightarrow> limit < unit_cost E u (drop (m - 1) t)" using Suc by auto
    thus ?thesis using st False by (intro exI [of _ m]) (auto simp: le_less)
  qed
qed (intro exI [of _ 0], simp)

lemma suffix_start_for_cost_ok:
  "\<exists>m \<le> length t. suffix_start_for_cost E t u limit = Some (blen (take m t))
     \<and> (limit = 0 \<longrightarrow> m = length t)
     \<and> (m < length t \<longrightarrow> unit_cost E u (drop m t) \<le> limit)
     \<and> (limit \<noteq> 0 \<longrightarrow> 0 < m \<longrightarrow> limit < unit_cost E u (drop (m - 1) t))"
  using suffix_loop_ok [of "length t" t E u limit]
  by (cases "limit = 0") (auto simp: suffix_start_for_cost_def)

end
