(* ===== verification/Chunk_Config.thy ===== *)
theory Chunk_Config
  imports Text_Budget Complex_Main
begin

text \<open>
  The chunking configuration of \<open>cce-config/src/modules/ast_to_nl.rs\<close>: the limits of the two retrieval
  paths, the budget derived from them, and the validation of a configuration.  The two ratios are
  \<open>f32\<close> values: they are kept as rational numbers, and the one product computed in \<open>f32\<close>, the
  proportional terminology reserve, is a parameter \<open>scale\<close>.
\<close>

datatype ChunkPath = Bm25 | Embedding

datatype GlossaryScope = ChunkScope | EntityScope

record ChunkingConfig =
  max_tokens :: nat
  overlap_tokens :: nat
  max_bm25_terms :: nat
  overlap_bm25_terms :: nat
  max_overlap_ratio :: rat
  min_chunk_tokens :: nat
  min_chunk_bm25_terms :: nat
  respect_boundaries :: bool
  cross_group_merge_threshold :: nat
  glossary_reserve_ratio :: rat
  glossary_max_entries :: nat
  glossary_scope :: GlossaryScope

definition ChunkingConfig_default :: ChunkingConfig where
  "ChunkingConfig_default =
     \<lparr>max_tokens = 512, overlap_tokens = 50, max_bm25_terms = 150, overlap_bm25_terms = 5,
      max_overlap_ratio = 1 / 5, min_chunk_tokens = 150, min_chunk_bm25_terms = 45,
      respect_boundaries = True, cross_group_merge_threshold = 0, glossary_reserve_ratio = 6 / 100,
      glossary_max_entries = 4, glossary_scope = ChunkScope\<rparr>"

record ChunkBudget =
  budget_unit :: ChunkUnit
  hard_limit :: nat
  reserve :: nat
  decoration_cost :: nat
  pre_injection :: nat
  body_limit :: nat
  min_limit :: nat
  merge_ceiling :: nat

definition usize_max :: nat where
  "usize_max = 2 ^ 64 - 1"

definition path_unit :: "ChunkPath \<Rightarrow> ChunkUnit" where
  "path_unit path = (case path of Bm25 \<Rightarrow> Terms | Embedding \<Rightarrow> Tokens)"

definition path_limit :: "ChunkingConfig \<Rightarrow> ChunkPath \<Rightarrow> nat" where
  "path_limit cfg path = (case path of Bm25 \<Rightarrow> max_bm25_terms cfg | Embedding \<Rightarrow> max_tokens cfg)"

definition path_cost :: "env \<Rightarrow> utext \<Rightarrow> ChunkPath \<Rightarrow> nat" where
  "path_cost E t path = unit_cost E (path_unit path) t"

definition fits_hard :: "env \<Rightarrow> ChunkBudget \<Rightarrow> utext \<Rightarrow> bool" where
  "fits_hard E b t = fits E (budget_unit b) t (hard_limit b)"

definition fits_pre_injection :: "env \<Rightarrow> ChunkBudget \<Rightarrow> utext \<Rightarrow> bool" where
  "fits_pre_injection E b t = fits E (budget_unit b) t (pre_injection b)"

definition fits_body :: "env \<Rightarrow> ChunkBudget \<Rightarrow> utext \<Rightarrow> bool" where
  "fits_body E b t = fits E (budget_unit b) t (body_limit b)"

definition raw_glossary_reserve :: "(nat \<Rightarrow> rat \<Rightarrow> nat) \<Rightarrow> ChunkingConfig \<Rightarrow> nat \<Rightarrow> nat" where
  "raw_glossary_reserve scale cfg limit =
     (if limit = 0 \<or> glossary_reserve_ratio cfg \<le> 0 then 0 else scale limit (glossary_reserve_ratio cfg))"

definition glossary_reserve :: "(nat \<Rightarrow> rat \<Rightarrow> nat) \<Rightarrow> ChunkingConfig \<Rightarrow> ChunkPath \<Rightarrow> nat" where
  "glossary_reserve scale cfg path =
     (let limit = path_limit cfg path
      in if limit = 0 \<or> glossary_reserve_ratio cfg \<le> 0 then 0
         else min (scale limit (glossary_reserve_ratio cfg)) (limit - 1))"

definition pre_injection_limit :: "(nat \<Rightarrow> rat \<Rightarrow> nat) \<Rightarrow> ChunkingConfig \<Rightarrow> ChunkPath \<Rightarrow> bool \<Rightarrow> nat" where
  "pre_injection_limit scale cfg path has_vocabulary =
     (let limit = path_limit cfg path
      in if limit = 0 then usize_max
         else limit - (if has_vocabulary then glossary_reserve scale cfg path else 0))"

definition pre_injection_limit_with_reserve :: "ChunkingConfig \<Rightarrow> ChunkPath \<Rightarrow> nat \<Rightarrow> nat" where
  "pre_injection_limit_with_reserve cfg path r =
     (let limit = path_limit cfg path
      in if limit = 0 then usize_max else limit - min r (limit - 1))"

definition budget_with_reserve :: "ChunkingConfig \<Rightarrow> ChunkPath \<Rightarrow> nat \<Rightarrow> nat \<Rightarrow> ChunkBudget" where
  "budget_with_reserve cfg path r decoration =
     (let limit = path_limit cfg path;
          capped = (if limit = 0 then 0 else min r (limit - 1))
      in if limit = 0 then
           \<lparr>budget_unit = path_unit path, hard_limit = 0, reserve = 0, decoration_cost = 0,
            pre_injection = usize_max, body_limit = usize_max, min_limit = 0, merge_ceiling = usize_max\<rparr>
         else
           let pre = limit - capped;
               body = max (pre - decoration) 1;
               min_l = (case path of Bm25 \<Rightarrow> min_chunk_bm25_terms cfg | Embedding \<Rightarrow> min_chunk_tokens cfg);
               merge = (case path of Bm25 \<Rightarrow> body
                        | Embedding \<Rightarrow> if cross_group_merge_threshold cfg = 0 then body
                                       else min (cross_group_merge_threshold cfg) body)
           in \<lparr>budget_unit = path_unit path, hard_limit = limit, reserve = capped,
               decoration_cost = decoration, pre_injection = pre, body_limit = body,
               min_limit = min_l, merge_ceiling = merge\<rparr>)"

definition chunk_budget ::
    "(nat \<Rightarrow> rat \<Rightarrow> nat) \<Rightarrow> ChunkingConfig \<Rightarrow> ChunkPath \<Rightarrow> bool \<Rightarrow> nat \<Rightarrow> ChunkBudget" where
  "chunk_budget scale cfg path has_vocabulary decoration =
     budget_with_reserve cfg path (if has_vocabulary then glossary_reserve scale cfg path else 0) decoration"

definition capped_merge_limit :: "ChunkingConfig \<Rightarrow> ChunkPath \<Rightarrow> nat \<Rightarrow> nat" where
  "capped_merge_limit cfg path pre =
     (case path of Bm25 \<Rightarrow> pre
      | Embedding \<Rightarrow> if cross_group_merge_threshold cfg = 0 then pre
          else if pre = usize_max then cross_group_merge_threshold cfg
          else min (cross_group_merge_threshold cfg) pre)"

definition merge_limit :: "(nat \<Rightarrow> rat \<Rightarrow> nat) \<Rightarrow> ChunkingConfig \<Rightarrow> ChunkPath \<Rightarrow> bool \<Rightarrow> nat" where
  "merge_limit scale cfg path has_vocabulary =
     capped_merge_limit cfg path (pre_injection_limit scale cfg path has_vocabulary)"

definition merge_limit_with_reserve :: "ChunkingConfig \<Rightarrow> ChunkPath \<Rightarrow> nat \<Rightarrow> nat" where
  "merge_limit_with_reserve cfg path r =
     capped_merge_limit cfg path (pre_injection_limit_with_reserve cfg path r)"

definition field_if :: "bool \<Rightarrow> string \<Rightarrow> string list" where
  "field_if bad field = (if bad then [field] else [])"

text \<open>The validation collects one error per broken rule; an error is named by the field it reports.\<close>

definition config_errors :: "(nat \<Rightarrow> rat \<Rightarrow> nat) \<Rightarrow> ChunkingConfig \<Rightarrow> string list" where
  "config_errors scale cfg =
     field_if (max_tokens cfg = 0) ''chunking.max_tokens''
   @ field_if (overlap_tokens cfg \<ge> max_tokens cfg) ''chunking.overlap_tokens''
   @ field_if (max_bm25_terms cfg = 0) ''chunking.max_bm25_terms''
   @ field_if (overlap_bm25_terms cfg \<ge> max_bm25_terms cfg) ''chunking.overlap_bm25_terms''
   @ field_if (max_overlap_ratio cfg \<le> 0 \<or> max_overlap_ratio cfg > 1) ''chunking.max_overlap_ratio''
   @ field_if (min_chunk_tokens cfg = 0) ''chunking.min_chunk_tokens''
   @ field_if (min_chunk_bm25_terms cfg = 0) ''chunking.min_chunk_bm25_terms''
   @ field_if (min_chunk_tokens cfg > max_tokens cfg) ''chunking.min_chunk_tokens''
   @ field_if (min_chunk_bm25_terms cfg > max_bm25_terms cfg) ''chunking.min_chunk_bm25_terms''
   @ (if glossary_reserve_ratio cfg > 0 then
        concat (map (\<lambda>(limit, field).
          field_if (limit > 0 \<and> raw_glossary_reserve scale cfg limit \<ge> limit) field)
          [(max_tokens cfg, ''chunking.max_tokens''), (max_bm25_terms cfg, ''chunking.max_bm25_terms'')])
      else [])
   @ field_if (cross_group_merge_threshold cfg \<noteq> 0 \<and> cross_group_merge_threshold cfg > max_tokens cfg)
       ''chunking.cross_group_merge_threshold''
   @ field_if (glossary_reserve_ratio cfg < 0 \<or> glossary_reserve_ratio cfg \<ge> 1)
       ''chunking.glossary_reserve_ratio''
   @ field_if (glossary_max_entries cfg = 0) ''chunking.glossary_max_entries''"

definition validate_structured ::
    "(nat \<Rightarrow> rat \<Rightarrow> nat) \<Rightarrow> ChunkingConfig \<Rightarrow> string list + unit" where
  "validate_structured scale cfg =
     (let errors = config_errors scale cfg in if errors = [] then Inr () else Inl errors)"

lemma field_if_Nil [simp]: "field_if b f = [] \<longleftrightarrow> \<not> b"
  by (simp add: field_if_def)

section \<open>The budget of a path\<close>

lemma budget_limits:
  assumes "path_limit cfg path > 0"
  shows "1 \<le> body_limit (budget_with_reserve cfg path r d)"
    and "body_limit (budget_with_reserve cfg path r d) \<le> pre_injection (budget_with_reserve cfg path r d)"
    and "pre_injection (budget_with_reserve cfg path r d) + reserve (budget_with_reserve cfg path r d)
       = hard_limit (budget_with_reserve cfg path r d)"
    and "merge_ceiling (budget_with_reserve cfg path r d) \<le> body_limit (budget_with_reserve cfg path r d)"
    and "hard_limit (budget_with_reserve cfg path r d) = path_limit cfg path"
  using assms by (auto simp: budget_with_reserve_def Let_def min_def max_def split: ChunkPath.split)

lemma budget_room:
  assumes "path_limit cfg path > 0" and "d < pre_injection (budget_with_reserve cfg path r d)"
  shows "body_limit (budget_with_reserve cfg path r d) + d = pre_injection (budget_with_reserve cfg path r d)"
  using assms by (simp add: budget_with_reserve_def Let_def split: ChunkPath.split)

lemma budget_body_pos: "0 < body_limit (budget_with_reserve cfg path r d)"
proof (cases "path_limit cfg path = 0")
  case True
  thus ?thesis by (simp add: budget_with_reserve_def usize_max_def)
qed (use budget_limits(1) [of cfg path r d] in simp)

text \<open>The budget of a path is consistent.  For a configuration that passes validation and any
  decoration smaller than the room before injection, the body, the decoration and the terminology
  reserve add up to exactly the hard limit, whether or not a vocabulary is in use; the reserve is the
  proportional one, not clamped; a merge never targets more than the body; and at least one unit of
  body is left.\<close>

theorem validated_budget_adds_up:
  assumes "validate_structured scale cfg = Inr ()"
    and "d < pre_injection (chunk_budget scale cfg path v d)"
  shows "body_limit (chunk_budget scale cfg path v d) + d + reserve (chunk_budget scale cfg path v d)
           = path_limit cfg path
     \<and> 1 \<le> body_limit (chunk_budget scale cfg path v d)
     \<and> merge_ceiling (chunk_budget scale cfg path v d) \<le> body_limit (chunk_budget scale cfg path v d)
     \<and> (v \<longrightarrow> reserve (chunk_budget scale cfg path v d) = raw_glossary_reserve scale cfg (path_limit cfg path))"
proof -
  have errs: "config_errors scale cfg = []"
    using assms(1) by (simp add: validate_structured_def Let_def split: if_splits)
  hence pos: "path_limit cfg path > 0" and raw: "raw_glossary_reserve scale cfg (path_limit cfg path) < path_limit cfg path"
    by (cases path; auto simp: config_errors_def path_limit_def raw_glossary_reserve_def split: if_splits)+
  have "glossary_reserve scale cfg path = raw_glossary_reserve scale cfg (path_limit cfg path)"
    using raw pos by (auto simp: glossary_reserve_def raw_glossary_reserve_def Let_def)
  hence "v \<longrightarrow> reserve (chunk_budget scale cfg path v d) = raw_glossary_reserve scale cfg (path_limit cfg path)"
    using pos raw by (simp add: chunk_budget_def budget_with_reserve_def Let_def)
  moreover note budget_limits [OF pos, of "if v then glossary_reserve scale cfg path else 0" d]
    budget_room [OF pos assms(2) [unfolded chunk_budget_def]]
  ultimately show ?thesis unfolding chunk_budget_def by linarith
qed

theorem validated_budget_adds_up_witness:
  "body_limit (chunk_budget (\<lambda>n r. nat \<lceil>of_nat n * r\<rceil>) ChunkingConfig_default Embedding True 40) + 40
     + reserve (chunk_budget (\<lambda>n r. nat \<lceil>of_nat n * r\<rceil>) ChunkingConfig_default Embedding True 40) = 512"
proof -
  let ?s = "\<lambda>n (r :: rat). nat \<lceil>of_nat n * r\<rceil>"
  have c: "\<lceil>(512 :: rat) * (6 / 100)\<rceil> = 31" "\<lceil>(150 :: rat) * (6 / 100)\<rceil> = 9"
    by (simp_all add: ceiling_eq_iff)
  have "validate_structured ?s ChunkingConfig_default = Inr ()"
    using c by (simp add: validate_structured_def config_errors_def raw_glossary_reserve_def
        ChunkingConfig_default_def Let_def)
  moreover have "40 < pre_injection (chunk_budget ?s ChunkingConfig_default Embedding True 40)"
    using c by (simp add: chunk_budget_def budget_with_reserve_def glossary_reserve_def path_limit_def
        ChunkingConfig_default_def Let_def)
  ultimately show ?thesis
    using validated_budget_adds_up [of ?s ChunkingConfig_default 40 Embedding True]
    by (simp add: path_limit_def ChunkingConfig_default_def)
qed

text \<open>The ceiling the configuration announces for merging is the room before injection; the one in
  the budget is the body.  They differ as soon as a chunk is decorated.\<close>

lemma merge_ceiling_is_body:
  assumes "path_limit cfg Bm25 > 0" and "0 < d" and "d < pre_injection (budget_with_reserve cfg Bm25 r d)"
  shows "merge_ceiling (budget_with_reserve cfg Bm25 r d) < merge_limit_with_reserve cfg Bm25 r"
  using assms by (simp add: budget_with_reserve_def merge_limit_with_reserve_def capped_merge_limit_def
      pre_injection_limit_with_reserve_def Let_def)

end
