(* ===== verification/Chunk_Boundary.thy ===== *)
theory Chunk_Boundary
  imports Chunk_Config
begin

text \<open>
  Chunk boundaries and the hard token cut of the chunker
  (\<open>cce-parser/src/ast_to_nl/chunker/boundary.rs\<close>, \<open>strategies/tokens.rs\<close> and
  \<open>strategies/trailing.rs\<close>), with the copy of the token cut the document parser keeps
  (\<open>cce-document/src/common/token_split.rs\<close>).
\<close>

datatype SplitReason = MemberBoundary | SentenceBoundary | ParagraphBoundary | LineBoundary
  | TokenLimit | HardLimit | NotSplit | Overview

record ChunkBoundary =
  cb_start :: nat
  cb_end :: nat
  start_line :: nat
  end_line :: nat
  split_reason :: SplitReason
  entity_ids :: "nat list"
  token_count :: nat
  cb_group_id :: "utext option"
  nesting_level :: nat

definition boundary_new :: "nat \<Rightarrow> nat \<Rightarrow> SplitReason \<Rightarrow> ChunkBoundary" where
  "boundary_new s e reason = \<lparr>cb_start = s, cb_end = e, start_line = 0, end_line = 0,
     split_reason = reason, entity_ids = [], token_count = 0, cb_group_id = None, nesting_level = 0\<rparr>"

definition with_lines :: "ChunkBoundary \<Rightarrow> nat \<Rightarrow> nat \<Rightarrow> ChunkBoundary" where
  "with_lines b s e = b\<lparr>start_line := s, end_line := e\<rparr>"

definition with_entity_ids :: "ChunkBoundary \<Rightarrow> nat list \<Rightarrow> ChunkBoundary" where
  "with_entity_ids b ids = b\<lparr>entity_ids := ids\<rparr>"

definition with_token_count :: "ChunkBoundary \<Rightarrow> nat \<Rightarrow> ChunkBoundary" where
  "with_token_count b n = b\<lparr>token_count := n\<rparr>"

definition with_group_id :: "ChunkBoundary \<Rightarrow> utext option \<Rightarrow> ChunkBoundary" where
  "with_group_id b g = b\<lparr>cb_group_id := g\<rparr>"

definition with_nesting_level :: "ChunkBoundary \<Rightarrow> nat \<Rightarrow> ChunkBoundary" where
  "with_nesting_level b n = b\<lparr>nesting_level := n\<rparr>"

definition byte_len :: "ChunkBoundary \<Rightarrow> nat" where
  "byte_len b = cb_end b - cb_start b"

definition line_count :: "ChunkBoundary \<Rightarrow> nat" where
  "line_count b = end_line b - start_line b"

definition contains_byte :: "ChunkBoundary \<Rightarrow> nat \<Rightarrow> bool" where
  "contains_byte b p = (cb_start b \<le> p \<and> p < cb_end b)"

definition is_nested_group :: "ChunkBoundary \<Rightarrow> bool" where
  "is_nested_group b = (cb_group_id b \<noteq> None)"

record ChunkSegment =
  seg_boundary :: ChunkBoundary
  seg_text :: utext

record NlEntityBoundary =
  nl_entity_id :: nat
  nl_start :: nat
  nl_end :: nat

definition intersect_entities_in_range :: "NlEntityBoundary list \<Rightarrow> nat \<Rightarrow> nat \<Rightarrow> nat list" where
  "intersect_entities_in_range nls s e =
     map nl_entity_id (filter (\<lambda>b. nl_start b < e \<and> nl_end b > s) nls)"

definition can_merge_with_ceiling ::
    "env \<Rightarrow> utext \<Rightarrow> utext \<Rightarrow> ChunkPath \<Rightarrow> nat \<Rightarrow> nat \<Rightarrow> bool \<Rightarrow> bool" where
  "can_merge_with_ceiling E prev nxt path min_threshold max_cost same_unit =
     (let prev_cost = path_cost E prev path;
          next_cost = path_cost E nxt path;
          combined = path_cost E (prev @ nxt) path
      in if max_cost = 0 then prev_cost < min_threshold \<or> next_cost < min_threshold
         else if combined > max_cost then False
         else same_unit \<or> prev_cost < min_threshold \<or> next_cost < min_threshold)"

text \<open>The byte range of a boundary, and boundaries as a cover of a range.\<close>

definition cb_range :: "ChunkBoundary \<Rightarrow> nat \<times> nat" where
  "cb_range b = (cb_start b, cb_end b)"

lemma cb_range_simps [simp]:
  "cb_range (boundary_new s e r) = (s, e)" "cb_range (with_token_count b n) = cb_range b"
  "cb_range (with_entity_ids b ids) = cb_range b" "cb_range (with_group_id b g) = cb_range b"
  "cb_range (b\<lparr>entity_ids := ids\<rparr>) = cb_range b"
  by (simp_all add: cb_range_def boundary_new_def with_token_count_def with_entity_ids_def
      with_group_id_def)

abbreviation partitions :: "utext \<Rightarrow> nat \<Rightarrow> ChunkBoundary list \<Rightarrow> nat \<Rightarrow> bool" where
  "partitions t a bs b \<equiv> covers t a (map cb_range bs) b"

section \<open>Entity regions of an assembled text\<close>

record ConversionResult =
  cr_entity_id :: nat
  bm25_text :: "utext option"
  embedding_text :: "utext option"

definition member_text :: "ChunkPath \<Rightarrow> ConversionResult \<Rightarrow> utext option" where
  "member_text path m = (case path of Bm25 \<Rightarrow> bm25_text m | Embedding \<Rightarrow> embedding_text m)"

text \<open>Where the region of a member starts: at zero for the first member after a synthetic head.\<close>

definition region :: "utext \<Rightarrow> nat option \<Rightarrow> NlEntityBoundary list \<Rightarrow> nat \<Rightarrow> nat \<Rightarrow> nat \<Rightarrow> NlEntityBoundary" where
  "region header_text header_id bs e s m_end =
     \<lparr>nl_entity_id = e,
      nl_start = (if header_id = None \<and> header_text \<noteq> [] \<and> bs = [] then 0 else s),
      nl_end = m_end\<rparr>"

fun assemble_members :: "utext \<Rightarrow> nat option \<Rightarrow> ChunkPath \<Rightarrow> ConversionResult list
    \<Rightarrow> utext \<times> NlEntityBoundary list \<times> nat list \<Rightarrow> utext \<times> NlEntityBoundary list \<times> nat list" where
  "assemble_members header_text header_id path [] st = st"
| "assemble_members header_text header_id path (m # ms) (combined, bs, ids) =
     (case member_text path m of
        None \<Rightarrow> assemble_members header_text header_id path ms (combined, bs, ids)
      | Some text \<Rightarrow>
          if text = [] then assemble_members header_text header_id path ms (combined, bs, ids)
          else let s = (if combined = [] then 0 else blen combined + 2);
                   combined = (if combined = [] then combined else combined @ [10, 10]) @ text;
                   e = blen combined
               in assemble_members header_text header_id path ms
                    (combined, bs @ [region header_text header_id bs (cr_entity_id m) s e],
                     ids @ [cr_entity_id m]))"

definition header_region :: "utext \<Rightarrow> nat option \<Rightarrow> NlEntityBoundary list" where
  "header_region header_text header_id =
     (if header_text = [] then []
      else (case header_id of None \<Rightarrow> []
            | Some i \<Rightarrow> [\<lparr>nl_entity_id = i, nl_start = 0, nl_end = blen header_text\<rparr>]))"

definition assemble_with_boundaries :: "utext \<Rightarrow> nat option \<Rightarrow> ConversionResult list \<Rightarrow> ChunkPath
    \<Rightarrow> utext \<times> NlEntityBoundary list \<times> nat list" where
  "assemble_with_boundaries header_text header_id members path =
     assemble_members header_text header_id path members
       (header_text, header_region header_text header_id, [])"

fun member_regions :: "utext \<Rightarrow> nat option \<Rightarrow> ChunkPath \<Rightarrow> ConversionResult list
    \<Rightarrow> nat \<Rightarrow> NlEntityBoundary list \<Rightarrow> NlEntityBoundary list" where
  "member_regions header_text header_id path [] offset bs = bs"
| "member_regions header_text header_id path (m # ms) offset bs =
     (let text = (case member_text path m of None \<Rightarrow> [] | Some t \<Rightarrow> t)
      in if text = [] then member_regions header_text header_id path ms offset bs
         else let s = (if offset > 0 then offset + 2 else offset);
                  e = s + blen text
              in member_regions header_text header_id path ms e
                   (bs @ [region header_text header_id bs (cr_entity_id m) s e]))"

definition compute_nl_entity_boundaries ::
    "utext \<Rightarrow> nat option \<Rightarrow> ConversionResult list \<Rightarrow> ChunkPath \<Rightarrow> NlEntityBoundary list" where
  "compute_nl_entity_boundaries header_text header_id members path =
     member_regions header_text header_id path members (blen header_text)
       (header_region header_text header_id)"

lemma blen_newlines [simp]: "blen [10, 10] = 2"
  by (simp add: len_utf8_def)

lemma assemble_members_regions:
  "fst (snd (assemble_members h hid path ms (combined, bs, ids)))
     = member_regions h hid path ms (blen combined) bs"
proof (induction ms arbitrary: combined bs ids)
  case (Cons m ms)
  show ?case
  proof (cases "member_text path m")
    case None
    thus ?thesis using Cons by simp
  next
    case (Some body)
    show ?thesis
    proof (cases "body = []")
      case True
      thus ?thesis using Some Cons by simp
    next
      case False
      thus ?thesis using Some
        by (cases "combined = []") (simp_all add: Let_def Cons add.assoc len_utf8_def)
    qed
  qed
qed simp

text \<open>The regions of an assembled body: ordered, non-empty, separated, on character boundaries.\<close>

fun regions_ok :: "utext \<Rightarrow> nat \<Rightarrow> NlEntityBoundary list \<Rightarrow> bool" where
  "regions_ok t p [] = True"
| "regions_ok t p (b # bs) = (p \<le> nl_start b \<and> nl_start b < nl_end b \<and> is_char_boundary t (nl_start b)
     \<and> is_char_boundary t (nl_end b) \<and> regions_ok t (nl_end b) bs)"

lemma regions_ok_snoc:
  "regions_ok t p (bs @ [b]) \<longleftrightarrow> regions_ok t p bs
     \<and> (if bs = [] then p else nl_end (last bs)) \<le> nl_start b \<and> nl_start b < nl_end b
     \<and> is_char_boundary t (nl_start b) \<and> is_char_boundary t (nl_end b)"
  by (induction bs arbitrary: p) auto

lemma boundary_more: "is_char_boundary t p \<Longrightarrow> is_char_boundary (t @ u) p"
  using boundary_inside [of t p "[]" u] by simp

lemma regions_ok_more: "regions_ok t p bs \<Longrightarrow> regions_ok (t @ u) p bs"
  by (induction bs arbitrary: p) (auto simp: boundary_more)

lemma regions_ok_end: "regions_ok t p bs \<Longrightarrow> bs \<noteq> [] \<Longrightarrow> nl_end (last bs) \<le> blen t"
  by (induction bs arbitrary: p) (auto dest: boundary_le split: if_splits)

lemma assemble_members_ok:
  assumes "regions_ok combined 0 bs"
  shows "case assemble_members h hid path ms (combined, bs, ids) of (t, rs, es) \<Rightarrow> regions_ok t 0 rs"
  using assms
proof (induction ms arbitrary: combined bs ids)
  case (Cons m ms)
  show ?case
  proof (cases "\<exists>body. member_text path m = Some body \<and> body \<noteq> []")
    case False
    thus ?thesis using Cons by (cases "member_text path m") auto
  next
    case True
    then obtain body where body: "member_text path m = Some body" "body \<noteq> []" by blast
    define c' where "c' = (if combined = [] then combined else combined @ [10, 10]) @ body"
    define s where "s = (if combined = [] then 0 else blen combined + 2)"
    let ?r = "region h hid bs (cr_entity_id m) s (blen c')"
    have s: "is_char_boundary c' s" "s < blen c'"
      using body(2) boundary_append [of "combined @ [10, 10]" body]
      by (auto simp: s_def c'_def len_utf8_def)
    have "regions_ok c' 0 bs"
      using regions_ok_more [OF Cons.prems] unfolding c'_def by (cases "combined = []") auto
    moreover have "(if bs = [] then 0 else nl_end (last bs)) \<le> nl_start ?r \<and> nl_start ?r < nl_end ?r
        \<and> is_char_boundary c' (nl_start ?r)"
      using s regions_ok_end [OF Cons.prems] by (auto simp: region_def s_def)
    ultimately have "regions_ok c' 0 (bs @ [?r])"
      unfolding regions_ok_snoc by (simp add: region_def)
    from Cons.IH [OF this, of "ids @ [cr_entity_id m]"] show ?thesis
      using body by (simp add: Let_def c'_def s_def)
  qed
qed simp

text \<open>Assembling a header and its members yields, in one pass, exactly the entity regions the
  separate computation finds, and the regions follow each other in the assembled text: each one is
  non-empty, starts at or after the end of the one before it and lies on character boundaries.\<close>

theorem assemble_agrees:
  "case assemble_with_boundaries h hid ms path of (t, rs, es) \<Rightarrow>
     rs = compute_nl_entity_boundaries h hid ms path \<and> regions_ok t 0 rs"
proof -
  have "regions_ok h 0 (header_region h hid)"
    by (simp add: header_region_def split: option.split)
  from assemble_members_ok [OF this, of h hid path ms "[]"]
  show ?thesis
    using assemble_members_regions [of h hid path ms h "header_region h hid" "[]"]
    by (auto simp: assemble_with_boundaries_def compute_nl_entity_boundaries_def split: prod.splits)
qed

end
