(* ===== verification/Token_Cut.thy ===== *)
theory Token_Cut
  imports Chunk_Boundary
begin

text \<open>
  The hard token cut, the terminal of the chunker's split recursion (\<open>strategies/tokens.rs\<close>), and the
  copy of it in the document parser (\<open>cce-document/src/common/token_split.rs\<close>).  A piece is the longest
  prefix within the limit, shortened to a preferred boundary inside it: a line that opens a code
  fence, a sentence end, a line end or white space, and not right after an operator or an open
  bracket.
\<close>

definition clamp :: "nat \<Rightarrow> nat \<Rightarrow> nat \<Rightarrow> nat option" where
  "clamp x lo hi = (if lo \<le> hi then Some (max lo (min x hi)) else None)"

definition find_preceding_line_start :: "utext \<Rightarrow> nat \<Rightarrow> nat \<Rightarrow> utext \<Rightarrow> nat option option" where
  "find_preceding_line_start t start end marker =
     do { search_region \<leftarrow> slice t start end;
          case rfind marker search_region of
            None \<Rightarrow> Some None
          | Some rel \<Rightarrow>
              do { before \<leftarrow> slice t start (start + rel);
                   let line_start = (case rfind [10] before of Some rel_nl \<Rightarrow> start + rel_nl + 1
                                     | None \<Rightarrow> start)
                   in Some (Some (floor_char_boundary t line_start)) } }"

text \<open>Whether a piece must not end here: its last character that is not white space continues an
  expression.\<close>

definition incomplete_end :: "utext \<Rightarrow> bool" where
  "incomplete_end pre =
     (let trimmed = u_trim_end pre
      in trimmed \<noteq> [] \<and>
         (if last trimmed \<in> {61, 123, 40, 91, 44, 46, 58} then True
          else if last trimmed \<in> {45, 62} then suffix [45, 62] trimmed \<or> suffix [61, 62] trimmed
          else False))"

definition avoid_incomplete_expression :: "utext \<Rightarrow> nat \<Rightarrow> nat \<Rightarrow> nat option" where
  "avoid_incomplete_expression t chunk_start split =
     (if split \<le> chunk_start \<or> split \<ge> blen t then Some split
      else do { pre \<leftarrow> slice t chunk_start split;
                Some (if incomplete_end pre then
                        (case rfind [10, 10] pre of
                           Some rel \<Rightarrow> chunk_start + rel + 2
                         | None \<Rightarrow> (case rfind [10] pre of Some rel \<Rightarrow> chunk_start + rel + 1 | None \<Rightarrow> split))
                      else split) })"

text \<open>The last sentence end, white space and line end of the region, as positions after the
  character.\<close>

fun scan_boundaries :: "nat \<Rightarrow> nat \<Rightarrow> (nat \<times> uchar) list \<Rightarrow> nat option \<times> nat option \<times> nat option
    \<Rightarrow> nat option \<times> nat option \<times> nat option" where
  "scan_boundaries start preferred [] st = st"
| "scan_boundaries start preferred ((relative, ch) # rest) (sentence, space, newline) =
     (let end = start + relative + len_utf8 ch
      in scan_boundaries start preferred rest
           (if end \<ge> preferred \<and> ch \<in> {46, 33, 63, 12290, 65281, 65311} then Some end else sentence,
            if is_whitespace ch then Some end else space,
            if ch = 10 \<and> end \<ge> preferred then Some end else newline))"

definition first_some :: "'a option \<Rightarrow> 'a option \<Rightarrow> 'a option" where
  "first_some a b = (case a of Some _ \<Rightarrow> a | None \<Rightarrow> b)"

definition find_good_split_point :: "utext \<Rightarrow> nat \<Rightarrow> nat \<Rightarrow> nat option" where
  "find_good_split_point t start target =
     do { clamped \<leftarrow> clamp target start (blen t);
          let target = floor_char_boundary t clamped in
          if target \<ge> blen t then Some (blen t)
          else let search_window = max (target - start) 50;
                   window_start = floor_char_boundary t (max (target - search_window) start) in
               do { fence \<leftarrow> find_preceding_line_start t window_start target [96, 96, 96];
                    case fence of
                      Some fence_pos \<Rightarrow> clamp fence_pos start target
                    | None \<Rightarrow>
                        do { search \<leftarrow> slice t start target;
                             let (sentence, space, newline) =
                                   scan_boundaries start window_start (char_indices search) (None, None, None);
                                 candidate = (case first_some sentence (first_some newline space) of
                                                Some p \<Rightarrow> p | None \<Rightarrow> target)
                             in avoid_incomplete_expression t start candidate } } }"

text \<open>The end of the next piece.\<close>

definition piece_end :: "env \<Rightarrow> ChunkPath \<Rightarrow> nat \<Rightarrow> utext \<Rightarrow> nat \<Rightarrow> nat \<Rightarrow> nat option" where
  "piece_end E path limit t current end =
     do { remaining \<leftarrow> slice t current end;
          pre \<leftarrow> truncate_to_cost E remaining (path_unit path) limit;
          let safe_end = current + blen pre;
              safe_end = (if safe_end \<le> current
                          then (case remaining of [] \<Rightarrow> end | c # _ \<Rightarrow> current + len_utf8 c)
                          else safe_end) in
          do { target \<leftarrow> find_good_split_point t current safe_end;
               target \<leftarrow> clamp target current safe_end;
               Some (if target > current \<and> target \<le> safe_end then target else safe_end) } }"

lemma piece_end_greater: "piece_end E path limit t cur end = Some e \<Longrightarrow> cur < end \<Longrightarrow> cur < e"
proof -
  assume pe: "piece_end E path limit t cur end = Some e" and lt: "cur < end"
  obtain remaining pre where rp: "slice t cur end = Some remaining"
    "truncate_to_cost E remaining (path_unit path) limit = Some pre"
    using pe by (auto simp: piece_end_def bind_eq_Some_conv)
  define se where "se = (if cur + blen pre \<le> cur
      then (case remaining of [] \<Rightarrow> end | c # _ \<Rightarrow> cur + len_utf8 c) else cur + blen pre)"
  have "cur < se" using lt by (simp add: se_def split: list.split)
  moreover have "Some e =
      do { target \<leftarrow> find_good_split_point t cur se; target \<leftarrow> clamp target cur se;
           Some (if target > cur \<and> target \<le> se then target else se) }"
    using pe unfolding piece_end_def rp bind.bind_lunit Let_def se_def by (rule sym)
  ultimately show "cur < e" by (auto simp: bind_eq_Some_conv dest!: sym [of "Some e"] split: if_splits)
qed

function tokens_loop :: "env \<Rightarrow> ChunkPath \<Rightarrow> nat \<Rightarrow> utext \<Rightarrow> nat \<Rightarrow> nat \<Rightarrow> ChunkBoundary list option" where
  "tokens_loop E path limit t current end =
     (if current < end then
        do { safe_end \<leftarrow> piece_end E path limit t current end;
             piece \<leftarrow> slice t current safe_end;
             rest \<leftarrow> tokens_loop E path limit t safe_end end;
             Some (with_token_count (boundary_new current safe_end HardLimit) (path_cost E piece path)
                     # rest) }
      else Some [])"
  by pat_completeness auto
termination
  by (relation "measure (\<lambda>(E, path, limit, t, current, end). end - current)")
    (auto dest!: piece_end_greater)

declare tokens_loop.simps [simp del]

definition split_by_tokens_in_range ::
    "env \<Rightarrow> utext \<Rightarrow> nat \<Rightarrow> nat \<Rightarrow> ChunkPath \<Rightarrow> ChunkingConfig \<Rightarrow> ChunkBoundary list option" where
  "split_by_tokens_in_range E t start end path cfg =
     (let limit = path_limit cfg path
      in if limit = 0 then
           (if start < end
            then do { piece \<leftarrow> slice t start end;
                      Some [with_token_count (boundary_new start end HardLimit) (path_cost E piece path)] }
            else Some [])
         else tokens_loop E path limit t start end)"

definition split_by_tokens :: "env \<Rightarrow> utext \<Rightarrow> ChunkPath \<Rightarrow> ChunkingConfig \<Rightarrow> ChunkBoundary list option" where
  "split_by_tokens E t path cfg = split_by_tokens_in_range E t 0 (blen t) path cfg"

section \<open>The preferred boundary\<close>

lemma clamp_Some [simp]: "lo \<le> hi \<Longrightarrow> clamp x lo hi = Some (max lo (min x hi))"
  by (simp add: clamp_def)

lemma clamp_boundary:
  "\<lbrakk>is_char_boundary t x; is_char_boundary t lo; is_char_boundary t hi\<rbrakk> \<Longrightarrow>
   is_char_boundary t (max lo (min x hi))"
  by (simp add: max_def min_def)

lemma boundary_in_slice:
  "slice t a b = Some s \<Longrightarrow> s = x @ y \<Longrightarrow> is_char_boundary t (a + blen x) \<and> a + blen x \<le> b"
  using slice_boundary [of t a b s "blen x"] by auto

lemma rfind_in_slice:
  assumes "slice t a b = Some s" and "rfind p s = Some i"
  shows "is_char_boundary t (a + i)" and "is_char_boundary t (a + i + blen p)" and "a + i + blen p \<le> b"
proof -
  obtain x y where s: "s = x @ p @ y" "blen x = i" using rfind_Some [OF assms(2)] by blast
  show "is_char_boundary t (a + i)" using boundary_in_slice [OF assms(1), of x "p @ y"] s by simp
  show "is_char_boundary t (a + i + blen p)" "a + i + blen p \<le> b"
    using boundary_in_slice [OF assms(1), of "x @ p" y] s by (simp_all add: add.assoc)
qed

lemma find_preceding_line_start_ok:
  assumes "slice t start end = Some s"
  shows "\<exists>r. find_preceding_line_start t start end marker = Some r
     \<and> (\<forall>p. r = Some p \<longrightarrow> is_char_boundary t p)"
proof (cases "rfind marker s")
  case None
  thus ?thesis using assms by (simp add: find_preceding_line_start_def)
next
  case (Some rel)
  have "is_char_boundary t (start + rel)" using rfind_in_slice(1) [OF assms Some] .
  then obtain b where b: "slice t start (start + rel) = Some b"
    using slice_defined [of start "start + rel" t] slice_boundaries [OF assms] by auto
  show ?thesis using assms Some b
    by (auto simp: find_preceding_line_start_def split: option.split)
qed

lemma avoid_incomplete_ok:
  assumes "is_char_boundary t cs" and "is_char_boundary t split" and "cs \<le> split"
  shows "\<exists>p. avoid_incomplete_expression t cs split = Some p \<and> is_char_boundary t p \<and> cs \<le> p \<and> p \<le> split"
proof (cases "split \<le> cs \<or> split \<ge> blen t")
  case True
  thus ?thesis using assms by (simp add: avoid_incomplete_expression_def)
next
  case False
  obtain pre where pre: "slice t cs split = Some pre" using slice_defined assms by metis
  have nl: "blen [10] = 1" "blen [10, 10] = 2" by (simp_all add: len_utf8_def)
  have e: "avoid_incomplete_expression t cs split = Some (if incomplete_end pre then
      (case rfind [10, 10] pre of Some rel \<Rightarrow> cs + rel + 2
       | None \<Rightarrow> (case rfind [10] pre of Some rel \<Rightarrow> cs + rel + 1 | None \<Rightarrow> split)) else split)"
    using False pre by (simp add: avoid_incomplete_expression_def)
  show ?thesis unfolding e
    using rfind_in_slice [OF pre, of "[10, 10]"] rfind_in_slice [OF pre, of "[10]"] assms(2,3)
    unfolding nl by (auto split: option.split)
qed

definition opt_all :: "('a \<Rightarrow> bool) \<Rightarrow> 'a option \<Rightarrow> bool" where
  "opt_all P x = (case x of None \<Rightarrow> True | Some y \<Rightarrow> P y)"

lemma opt_all_simps [simp]: "opt_all P None" "opt_all P (Some y) = P y"
  by (simp_all add: opt_all_def)

lemma scan_boundaries_ok:
  assumes "\<forall>(i, c) \<in> set xs. P (start + i + len_utf8 c)"
    and "opt_all P a" "opt_all P b" "opt_all P c"
  shows "case scan_boundaries start pref xs (a, b, c) of (x, y, z) \<Rightarrow> opt_all P x \<and> opt_all P y \<and> opt_all P z"
  using assms
proof (induction xs arbitrary: a b c)
  case (Cons x xs)
  obtain i ch where x: "x = (i, ch)" by force
  show ?case unfolding x scan_boundaries.simps Let_def
    by (rule Cons.IH) (use Cons.prems x in \<open>auto\<close>)
qed simp

lemma find_good_split_point_ok:
  assumes "is_char_boundary t start" and "is_char_boundary t target" and "start \<le> target"
  shows "\<exists>p. find_good_split_point t start target = Some p \<and> is_char_boundary t p
     \<and> start \<le> p \<and> p \<le> target"
proof -
  have tl: "target \<le> blen t" using boundary_le assms(2) .
  have cl: "clamp target start (blen t) = Some target" using assms(3) tl by simp
  show ?thesis
  proof (cases "target \<ge> blen t")
    case True
    thus ?thesis using tl cl assms by (simp add: find_good_split_point_def)
  next
    case False
    define ws where "ws = floor_char_boundary t (max (target - max (target - start) 50) start)"
    have ws: "is_char_boundary t ws" "ws \<le> target"
      using floor_le [of t "max (target - max (target - start) 50) start"] assms(3)
      by (simp_all add: ws_def)
    obtain r where r: "slice t ws target = Some r" using slice_defined ws assms(2) by metis
    obtain f where f: "find_preceding_line_start t ws target [96, 96, 96] = Some f"
      "\<forall>p. f = Some p \<longrightarrow> is_char_boundary t p" using find_preceding_line_start_ok [OF r] by blast
    obtain s where s: "slice t start target = Some s" using slice_defined assms by metis
    obtain sb sp nb where sc: "scan_boundaries start ws (char_indices s) (None, None, None) = (sb, sp, nb)"
      using prod_cases3 by blast
    define P where "P p \<longleftrightarrow> is_char_boundary t p \<and> start \<le> p \<and> p \<le> target" for p
    have "P (start + i + len_utf8 c)" if ic: "(i, c) \<in> set (char_indices s)" for i c
    proof -
      obtain u v where "s = u @ c # v" "i = blen u" using ic unfolding set_char_indices by auto
      thus ?thesis using boundary_in_slice [OF s, of "u @ [c]" v] by (simp add: P_def add.assoc)
    qed
    hence bs: "opt_all P sb" "opt_all P sp" "opt_all P nb"
      using scan_boundaries_ok [of "char_indices s" P start None None None ws] unfolding sc by auto
    define cand where "cand = (case first_some sb (first_some nb sp) of Some p \<Rightarrow> p | None \<Rightarrow> target)"
    have "P cand" using bs assms by (auto simp: cand_def first_some_def P_def opt_all_def split: option.splits)
    then obtain q where q: "avoid_incomplete_expression t start cand = Some q" "P q"
      using avoid_incomplete_ok [OF assms(1), of cand] by (auto simp: P_def)
    have eq: "find_good_split_point t start target =
        (case f of Some p \<Rightarrow> clamp p start target | None \<Rightarrow> Some q)"
      unfolding find_good_split_point_def cl bind.bind_lunit Let_def floor_id [OF assms(2)]
        if_not_P [OF False] ws_def [symmetric] f(1) s sc prod.case cand_def [symmetric] q(1) ..
    show ?thesis
    proof (cases f)
      case None
      thus ?thesis using eq q by (simp add: P_def)
    next
      case (Some p)
      thus ?thesis using eq f(2) assms by (simp add: clamp_boundary)
    qed
  qed
qed

lemma piece_end_ok:
  assumes "is_char_boundary t cur" and "is_char_boundary t end" and "cur < end"
  shows "\<exists>e p. piece_end E path limit t cur end = Some e \<and> is_char_boundary t e \<and> cur < e \<and> e \<le> end
     \<and> slice t cur e = Some p
     \<and> (prefix_monotone E (path_unit path) \<longrightarrow> fits E (path_unit path) p limit \<or> length p = 1)"
proof -
  obtain rem where rem: "slice t cur end = Some rem" using slice_defined assms by (metis less_imp_le)
  have ne: "rem \<noteq> []" using slice_blen [OF rem] assms(3) by auto
  let ?u = "path_unit path"
  obtain m pre where m: "truncate_to_cost E rem ?u limit = Some pre" "0 < m" "m \<le> length rem"
    "(if blen pre = 0 then len_utf8 (hd rem) else blen pre) = blen (take m rem)"
    "fits E ?u (take m rem) limit \<or> m = 1" using first_piece [OF ne, of E ?u limit] by (elim exE conjE)
  define se where "se = cur + blen (take m rem)"
  have se: "(if cur + blen pre \<le> cur
      then (case rem of [] \<Rightarrow> end | c # _ \<Rightarrow> cur + len_utf8 c) else cur + blen pre) = se"
    unfolding se_def m(4) [symmetric] using ne by (simp split: list.split)
  have sb: "is_char_boundary t se" "se \<le> end" "slice t cur se = Some (take m rem)"
    using boundary_in_slice [OF rem, of "take m rem" "drop m rem"]
      slice_split(1) [OF rem, of "take m rem" "drop m rem"] by (simp_all add: se_def)
  have lt: "cur < se" using m(2) ne by (simp add: se_def)
  obtain g where g: "find_good_split_point t cur se = Some g" "is_char_boundary t g" "cur \<le> g" "g \<le> se"
    using find_good_split_point_ok [OF assms(1) sb(1)] lt by auto
  define e where "e = (if g > cur then g else se)"
  have pe: "piece_end E path limit t cur end = Some e"
    unfolding piece_end_def rem bind.bind_lunit m(1) Let_def se g(1) using g lt by (simp add: e_def)
  have e: "is_char_boundary t e" "cur < e" "e \<le> se" using g sb lt by (auto simp: e_def)
  obtain p where p: "slice t cur e = Some p" using slice_defined [OF _ assms(1) e(1)] e(2) by auto
  obtain q where q: "slice t e se = Some q" using slice_defined [OF e(3) e(1) sb(1)] .
  have pq: "take m rem = p @ q" using slice_join [OF p q] sb(3) by simp
  have "fits E ?u p limit \<or> length p = 1" if "prefix_monotone E ?u"
  proof (cases "m = 1")
    case True
    have "p \<noteq> []" using slice_blen [OF p] e(2) by auto
    moreover have "length p \<le> 1" using pq True by (metis le_add1 length_append length_take min.bounded_iff)
    ultimately show ?thesis by (cases p) auto
  next
    case False
    thus ?thesis using fits_prefix [OF that, of p "take m rem" limit] m(5) pq by auto
  qed
  thus ?thesis using pe e sb p by (metis le_trans)
qed

lemma tokens_loop_ok:
  assumes "is_char_boundary t cur" and "is_char_boundary t end" and "cur \<le> end"
  shows "\<exists>bs. tokens_loop E path limit t cur end = Some bs \<and> partitions t cur bs end
     \<and> (prefix_monotone E (path_unit path) \<longrightarrow>
          list_all (\<lambda>b. piece_fits E (path_unit path) limit t (cb_range b)) bs)"
  using assms
proof (induction "end - cur" arbitrary: cur rule: less_induct)
  case less
  show ?case
  proof (cases "cur < end")
    case False
    thus ?thesis using less.prems by (simp add: tokens_loop.simps)
  next
    case True
    obtain e p where e: "piece_end E path limit t cur end = Some e" "is_char_boundary t e" "cur < e" "e \<le> end"
      "slice t cur e = Some p"
      "prefix_monotone E (path_unit path) \<longrightarrow> fits E (path_unit path) p limit \<or> length p = 1"
      using piece_end_ok [OF less.prems(1,2) True] by blast
    have "end - e < end - cur" using e True by simp
    from less(1) [OF this e(2) less.prems(2) e(4)]
    obtain bs where bs: "tokens_loop E path limit t e end = Some bs" "partitions t e bs end"
      "prefix_monotone E (path_unit path) \<longrightarrow>
         list_all (\<lambda>b. piece_fits E (path_unit path) limit t (cb_range b)) bs" by blast
    show ?thesis
      using True e bs less.prems(1) by (simp add: tokens_loop.simps [of E path limit t cur] piece_fits_def)
  qed
qed

lemma split_by_tokens_in_range_ok:
  assumes "is_char_boundary t a" and "is_char_boundary t b" and "a \<le> b"
  shows "\<exists>bs. split_by_tokens_in_range E t a b path cfg = Some bs \<and> partitions t a bs b
     \<and> (prefix_monotone E (path_unit path) \<longrightarrow>
          list_all (\<lambda>x. piece_fits E (path_unit path) (path_limit cfg path) t (cb_range x)) bs)"
proof (cases "path_limit cfg path = 0")
  case True
  obtain p where "slice t a b = Some p" using slice_defined assms by metis
  thus ?thesis using True assms
    by (auto simp: split_by_tokens_in_range_def piece_fits_def fits_def)
next
  case False
  thus ?thesis using tokens_loop_ok [OF assms, of E path "path_limit cfg path"]
    by (simp add: split_by_tokens_in_range_def)
qed

lemma tokens_all_hard_limit:
  "tokens_loop E path limit t cur end = Some bs \<Longrightarrow> b \<in> set bs \<Longrightarrow> entity_ids b = []"
proof (induction E path limit t cur "end" arbitrary: bs rule: tokens_loop.induct)
  case (1 E path limit t cur "end")
  show ?case
    using 1(2,3) unfolding tokens_loop.simps [of E path limit t cur]
    by (auto simp: bind_eq_Some_conv with_token_count_def boundary_new_def split: if_splits intro: 1(1))
qed

section \<open>The document parser's copy\<close>

definition doc_find_good_split_point :: "utext \<Rightarrow> nat \<Rightarrow> nat \<Rightarrow> nat option" where
  "doc_find_good_split_point t start0 target =
     (let start = floor_char_boundary t (min start0 (blen t)) in
      if \<not> is_char_boundary t start then clamp target start (blen t)
      else do { clamped \<leftarrow> clamp target start (blen t);
          let target = floor_char_boundary t clamped in
          if target \<ge> blen t then Some (blen t)
          else let search_window = max (target - start) 50;
                   window_start = floor_char_boundary t (max (target - search_window) start) in
               do { fence \<leftarrow> find_preceding_line_start t window_start target [96, 96, 96];
                    case fence of
                      Some fence_pos \<Rightarrow> clamp fence_pos start target
                    | None \<Rightarrow>
                        do { search \<leftarrow> slice t start target;
                             let (sentence, space, newline) =
                                   scan_boundaries start window_start (char_indices search) (None, None, None);
                                 candidate = (case first_some sentence (first_some newline space) of
                                                Some p \<Rightarrow> p | None \<Rightarrow> target)
                             in avoid_incomplete_expression t start candidate } } })"

definition doc_piece_end :: "env \<Rightarrow> ChunkPath \<Rightarrow> nat \<Rightarrow> utext \<Rightarrow> nat \<Rightarrow> nat \<Rightarrow> nat option" where
  "doc_piece_end E path limit t current end =
     do { remaining \<leftarrow> slice t current end;
          pre \<leftarrow> truncate_to_cost E remaining (path_unit path) limit;
          let safe_end = current + blen pre;
              safe_end = (if safe_end \<le> current
                          then (case remaining of [] \<Rightarrow> end | c # _ \<Rightarrow> current + len_utf8 c)
                          else safe_end) in
          do { target \<leftarrow> doc_find_good_split_point t current safe_end;
               target \<leftarrow> clamp target current safe_end;
               Some (if target > current \<and> target \<le> safe_end then target else safe_end) } }"

text \<open>The document parser starts on a boundary, where rounding the start down changes nothing, so
  the two copies cut alike.\<close>

lemma doc_find_good_split_point_eq:
  "is_char_boundary t start \<Longrightarrow> doc_find_good_split_point t start target = find_good_split_point t start target"
  using boundary_le [of t start]
  by (simp add: doc_find_good_split_point_def find_good_split_point_def Let_def min_absorb1)

lemma doc_piece_end_eq:
  "doc_piece_end E path limit t cur end = piece_end E path limit t cur end"
proof (cases "is_char_boundary t cur")
  case True
  thus ?thesis by (simp add: doc_piece_end_def piece_end_def doc_find_good_split_point_eq)
next
  case False
  hence "slice t cur end = None" by (simp add: slice_def)
  thus ?thesis by (simp add: doc_piece_end_def piece_end_def)
qed

function doc_tokens_loop :: "env \<Rightarrow> ChunkPath \<Rightarrow> nat \<Rightarrow> utext \<Rightarrow> nat \<Rightarrow> nat \<Rightarrow> (nat \<times> nat) list option" where
  "doc_tokens_loop E path limit t current end =
     (if current < end then
        do { safe_end \<leftarrow> doc_piece_end E path limit t current end;
             rest \<leftarrow> doc_tokens_loop E path limit t safe_end end;
             Some ((current, safe_end) # rest) }
      else Some [])"
  by pat_completeness auto
termination
  by (relation "measure (\<lambda>(E, path, limit, t, current, end). end - current)")
    (auto simp: doc_piece_end_eq dest!: piece_end_greater)

declare doc_tokens_loop.simps [simp del]

definition doc_split_by_tokens_in_range ::
    "env \<Rightarrow> utext \<Rightarrow> nat \<Rightarrow> nat \<Rightarrow> ChunkPath \<Rightarrow> ChunkingConfig \<Rightarrow> (nat \<times> nat) list option" where
  "doc_split_by_tokens_in_range E t start end path cfg =
     (let limit = path_limit cfg path
      in if limit = 0 then Some (if start < end then [(start, end)] else [])
         else doc_tokens_loop E path limit t start end)"

definition doc_split_by_tokens :: "env \<Rightarrow> utext \<Rightarrow> ChunkPath \<Rightarrow> ChunkingConfig \<Rightarrow> (nat \<times> nat) list option" where
  "doc_split_by_tokens E t path cfg = doc_split_by_tokens_in_range E t 0 (blen t) path cfg"

lemma doc_tokens_loop_eq:
  assumes "is_char_boundary t cur" and "is_char_boundary t end" and "cur \<le> end"
  shows "doc_tokens_loop E path limit t cur end = map_option (map cb_range) (tokens_loop E path limit t cur end)"
  using assms
proof (induction "end - cur" arbitrary: cur rule: less_induct)
  case less
  show ?case
  proof (cases "cur < end")
    case False
    thus ?thesis by (simp add: tokens_loop.simps doc_tokens_loop.simps)
  next
    case True
    obtain e p where e: "piece_end E path limit t cur end = Some e" "is_char_boundary t e" "cur < e" "e \<le> end"
      "slice t cur e = Some p" using piece_end_ok [OF less.prems(1,2) True] by blast
    have "end - e < end - cur" using e True by simp
    from less(1) [OF this e(2) less.prems(2) e(4)] show ?thesis
      using True e tokens_loop_ok [OF e(2) less.prems(2) e(4), of E path limit]
      by (auto simp: tokens_loop.simps [of E path limit t cur] doc_tokens_loop.simps [of E path limit t cur]
          doc_piece_end_eq)
  qed
qed

text \<open>C19: The chunker and the document parser, each with its own copy of the token cut, split every
  text at the same places; the cut never panics and the pieces cover the text without gap or overlap
  on character boundaries, for every limit, the disabled one included.\<close>

theorem token_cuts_agree:
  "\<exists>bs. split_by_tokens E t path cfg = Some bs \<and> partitions t 0 bs (blen t)
     \<and> doc_split_by_tokens E t path cfg = Some (map cb_range bs)"
proof -
  obtain bs where bs: "split_by_tokens_in_range E t 0 (blen t) path cfg = Some bs" "partitions t 0 bs (blen t)"
    using split_by_tokens_in_range_ok [of t 0 "blen t" E path cfg] by auto
  have "doc_split_by_tokens_in_range E t 0 (blen t) path cfg = Some (map cb_range bs)"
  proof (cases "path_limit cfg path = 0")
    case True
    thus ?thesis using bs(1)
      by (auto simp: doc_split_by_tokens_in_range_def split_by_tokens_in_range_def)
  next
    case False
    thus ?thesis using bs(1) doc_tokens_loop_eq [of t 0 "blen t" E path "path_limit cfg path"]
      by (simp add: doc_split_by_tokens_in_range_def split_by_tokens_in_range_def)
  qed
  thus ?thesis using bs by (simp add: split_by_tokens_def doc_split_by_tokens_def)
qed

end
