(* ===== verification/Test_Info.thy ===== *)
theory Test_Info
  imports Prelude
begin

text \<open>
  The test marker of \<open>cce-types/src/types/test_info.rs\<close>: its storage encoding, its constructors and
  the merge rule the chunker and the grouper share.
\<close>

datatype TestStatus = UnknownStatus | TestStatus
datatype TestSource = NoSource | PathSource | AstSource
datatype TestGranularity = FileLevel | EntityLevel | GroupLevel

record TestInfo =
  ti_status :: TestStatus
  ti_source :: TestSource
  ti_granularity :: TestGranularity

definition status_as_u8 :: "TestStatus \<Rightarrow> nat" where
  "status_as_u8 s = (case s of UnknownStatus \<Rightarrow> 0 | TestStatus \<Rightarrow> 1)"

definition status_from_u8 :: "nat \<Rightarrow> TestStatus" where
  "status_from_u8 code = (if code = 1 then TestStatus else UnknownStatus)"

definition source_as_u8 :: "TestSource \<Rightarrow> nat" where
  "source_as_u8 s = (case s of NoSource \<Rightarrow> 0 | PathSource \<Rightarrow> 1 | AstSource \<Rightarrow> 2)"

definition source_from_u8 :: "nat \<Rightarrow> TestSource" where
  "source_from_u8 code = (if code = 2 then AstSource else if code = 1 then PathSource else NoSource)"

definition source_rank :: "TestSource \<Rightarrow> nat" where
  "source_rank s = (case s of AstSource \<Rightarrow> 3 | PathSource \<Rightarrow> 2 | NoSource \<Rightarrow> 1)"

text \<open>The source's own order, \<open>Ord for TestSource\<close>, compares ranks.\<close>

instantiation TestSource :: linorder
begin

definition less_eq_TestSource :: "TestSource \<Rightarrow> TestSource \<Rightarrow> bool" where
  "less_eq_TestSource a b = (source_rank a \<le> source_rank b)"

definition less_TestSource :: "TestSource \<Rightarrow> TestSource \<Rightarrow> bool" where
  "less_TestSource a b = (source_rank a < source_rank b)"

instance
  by standard (auto simp: less_eq_TestSource_def less_TestSource_def source_rank_def
      split: TestSource.splits)

end

definition ti_unknown :: TestInfo where
  "ti_unknown = \<lparr>ti_status = UnknownStatus, ti_source = NoSource, ti_granularity = GroupLevel\<rparr>"

definition test_ast :: TestInfo where
  "test_ast = \<lparr>ti_status = TestStatus, ti_source = AstSource, ti_granularity = EntityLevel\<rparr>"

definition test_ast_block :: TestInfo where
  "test_ast_block = \<lparr>ti_status = TestStatus, ti_source = AstSource, ti_granularity = GroupLevel\<rparr>"

definition test_path :: TestInfo where
  "test_path = \<lparr>ti_status = TestStatus, ti_source = PathSource, ti_granularity = FileLevel\<rparr>"

definition is_test :: "TestInfo \<Rightarrow> bool" where
  "is_test i = (ti_status i = TestStatus)"

definition is_unknown :: "TestInfo \<Rightarrow> bool" where
  "is_unknown i = (ti_status i = UnknownStatus)"

definition ti_merge :: "TestInfo \<Rightarrow> TestInfo \<Rightarrow> TestInfo" where
  "ti_merge a b =
     (case (ti_status a, ti_status b) of
        (TestStatus, TestStatus) \<Rightarrow> (if ti_source b > ti_source a then b else a)\<lparr>ti_granularity := GroupLevel\<rparr>
      | (TestStatus, _) \<Rightarrow> a\<lparr>ti_granularity := GroupLevel\<rparr>
      | (_, TestStatus) \<Rightarrow> b\<lparr>ti_granularity := GroupLevel\<rparr>
      | _ \<Rightarrow> ti_unknown)"

definition ti_can_merge :: "TestInfo \<Rightarrow> TestInfo \<Rightarrow> bool" where
  "ti_can_merge a b = (is_test a = is_test b)"

definition merge_with_entities ::
    "TestInfo \<Rightarrow> (nat \<Rightarrow> TestInfo option) \<Rightarrow> nat list \<Rightarrow> TestInfo" where
  "merge_with_entities file_info entity_infos ids =
     foldl (\<lambda>i e. case entity_infos e of Some x \<Rightarrow> ti_merge i x | None \<Rightarrow> i) file_info ids"

definition ti_legal :: "TestInfo \<Rightarrow> bool" where
  "ti_legal i = (case ti_status i of TestStatus \<Rightarrow> ti_source i \<noteq> NoSource | UnknownStatus \<Rightarrow> ti_source i = NoSource)"

lemma status_roundtrip [simp]: "status_from_u8 (status_as_u8 s) = s"
  by (cases s) (simp_all add: status_from_u8_def status_as_u8_def)

lemma source_roundtrip [simp]: "source_from_u8 (source_as_u8 s) = s"
  by (cases s) (simp_all add: source_from_u8_def source_as_u8_def)

lemma source_order: "a < b \<longleftrightarrow> source_as_u8 a < source_as_u8 b"
  by (cases a; cases b) (simp_all add: less_TestSource_def source_rank_def source_as_u8_def)

lemmas ti_defs = ti_merge_def ti_unknown_def is_test_def less_TestSource_def source_rank_def

lemma ti_merge_comm: "ti_merge a b = ti_merge b a"
  by (cases a; cases b; simp add: ti_defs split: TestStatus.splits; cases "ti_source a"; cases "ti_source b")
    (auto simp: ti_defs split: TestSource.splits)

lemma ti_merge_assoc: "ti_merge (ti_merge a b) c = ti_merge a (ti_merge b c)"
  by (cases a; cases b; cases c)
    (auto simp: ti_defs split: TestStatus.splits TestSource.splits)

lemma ti_merge_test [simp]: "is_test (ti_merge a b) \<longleftrightarrow> is_test a \<or> is_test b"
  by (cases a; cases b) (auto simp: ti_defs split: TestStatus.splits)

lemma ti_merge_legal: "ti_legal a \<Longrightarrow> ti_legal b \<Longrightarrow> ti_legal (ti_merge a b)"
  by (auto simp: ti_legal_def ti_merge_def ti_unknown_def split: TestStatus.splits)

lemma can_merge_keeps_production:
  "ti_can_merge a b \<Longrightarrow> is_test (ti_merge a b) = is_test a \<and> is_test (ti_merge a b) = is_test b"
  by (simp add: ti_can_merge_def)

lemma merge_with_entities_test:
  "is_test (merge_with_entities f infos ids) \<longleftrightarrow>
     is_test f \<or> (\<exists>e \<in> set ids. \<exists>i. infos e = Some i \<and> is_test i)"
  unfolding merge_with_entities_def
  by (induction ids arbitrary: f) (auto split: option.splits)

end
