(* ===== verification/Split_Strategies.thy ===== *)
theory Split_Strategies
  imports Token_Cut Test_Info "HOL-Library.Product_Lexorder"
begin

text \<open>
  The boundary sources of the chunker (\<open>strategies/trailing.rs\<close>, \<open>paragraphs.rs\<close>, \<open>sentences.rs\<close>,
  \<open>members.rs\<close> and \<open>nested_groups.rs\<close> under \<open>ast_to_nl/chunker\<close>).  Each takes a range of a text and
  returns its pieces, or nothing when it has no boundary data there.  The locale
  \<open>boundary_source\<close> is the contract the split recursion relies on, and each source is an instance.
\<close>

section \<open>The trailing remainder\<close>

definition extend_last :: "ChunkBoundary list \<Rightarrow> nat \<Rightarrow> ChunkBoundary list" where
  "extend_last bs end = (let l = last bs in
     butlast bs @ [if cb_end l < end then l\<lparr>cb_end := end\<rparr> else l])"

definition extend_or_push_trailing :: "env \<Rightarrow> ChunkBoundary list \<Rightarrow> utext \<Rightarrow> nat \<Rightarrow> nat \<Rightarrow> ChunkPath
    \<Rightarrow> SplitReason \<Rightarrow> ChunkBoundary list option" where
  "extend_or_push_trailing E bs t current_start end path reason =
     (if current_start \<ge> end then Some bs
      else do { remaining \<leftarrow> slice t current_start end;
                if u_trim remaining = [] \<and> bs \<noteq> [] then Some (extend_last bs end)
                else Some (bs @ [with_token_count
                       (boundary_new current_start end (if bs = [] then NotSplit else reason))
                       (path_cost E remaining path)]) })"

lemma extend_last_cover:
  assumes "partitions t a bs s" and "bs \<noteq> []" and "s < e" and "is_char_boundary t e"
  shows "partitions t a (extend_last bs e) e"
proof -
  obtain ys y where bs: "bs = ys @ [y]" using assms(2) by (metis rev_exhaust)
  have y: "cb_end y = s" using covers_last [OF assms(1)] assms(2) by (simp add: bs cb_range_def)
  have "extend_last bs e = ys @ [y\<lparr>cb_end := e\<rparr>]" using assms(3) y by (simp add: extend_last_def bs Let_def)
  moreover obtain m where "partitions t a ys m" "covers t m [cb_range y] s"
    using assms(1) unfolding bs by (induction ys arbitrary: a) (auto simp: cb_range_def)
  ultimately show ?thesis using assms(3,4) y
    by (auto intro!: covers_snoc simp: cb_range_def)
qed

lemma trailing_cover:
  assumes "partitions t a bs s" and "s \<le> e" and "is_char_boundary t s" and "is_char_boundary t e"
  shows "\<exists>bs'. extend_or_push_trailing E bs t s e path reason = Some bs' \<and> partitions t a bs' e"
proof (cases "s \<ge> e")
  case True
  thus ?thesis using assms(1,2) by (simp add: extend_or_push_trailing_def)
next
  case False
  obtain r where r: "slice t s e = Some r" using slice_defined [OF assms(2-4)] .
  show ?thesis
  proof (cases "u_trim r = [] \<and> bs \<noteq> []")
    case True
    thus ?thesis using False r extend_last_cover [OF assms(1) _ _ assms(4)]
      by (simp add: extend_or_push_trailing_def)
  next
    case no: False
    have "covers t a (map cb_range bs @ [(s, e)]) e"
      by (rule covers_snoc) (use assms False in auto)
    thus ?thesis using False r no by (auto simp: extend_or_push_trailing_def)
  qed
qed

section \<open>Paragraphs\<close>

text \<open>The state of the loop: the pieces, the start of the current one, the end of the last paragraph
  and the cost accumulated since the last flush.\<close>

fun paragraph_loop :: "env \<Rightarrow> utext \<Rightarrow> ChunkPath \<Rightarrow> nat \<Rightarrow> nat list \<Rightarrow> ChunkBoundary list \<Rightarrow> nat \<Rightarrow> nat \<Rightarrow> nat
    \<Rightarrow> (ChunkBoundary list \<times> nat) option" where
  "paragraph_loop E t path limit [] bs current_start prev_pos current_tokens = Some (bs, current_start)"
| "paragraph_loop E t path limit (pos # rest) bs current_start prev_pos current_tokens =
     do { paragraph \<leftarrow> slice t prev_pos pos;
          let para_tokens = path_cost E paragraph path in
          if para_tokens > limit then
            let flushed = (current_start < prev_pos \<and> current_tokens > 0);
                bs1 = (if flushed then bs @ [with_token_count
                         (boundary_new current_start prev_pos ParagraphBoundary) current_tokens] else bs);
                para_start = (if flushed then prev_pos else current_start) in
            do { piece \<leftarrow> slice t para_start pos;
                 paragraph_loop E t path limit rest
                   (bs1 @ [with_token_count (boundary_new para_start pos ParagraphBoundary)
                             (path_cost E piece path)]) pos pos 0 }
          else if current_tokens + para_tokens > limit \<and> current_tokens > 0 then
            paragraph_loop E t path limit rest
              (bs @ [with_token_count (boundary_new current_start prev_pos ParagraphBoundary) current_tokens])
              prev_pos pos para_tokens
          else paragraph_loop E t path limit rest bs current_start pos (current_tokens + para_tokens) }"

definition split_text_by_paragraphs ::
    "env \<Rightarrow> utext \<Rightarrow> nat \<Rightarrow> nat \<Rightarrow> ChunkPath \<Rightarrow> ChunkingConfig \<Rightarrow> ChunkBoundary list option" where
  "split_text_by_paragraphs E t base end path cfg =
     do { whole \<leftarrow> slice t base end;
          let paragraph_ends = map (\<lambda>i. base + i + 2) (match_indices_from 0 [10, 10] whole) in
          do { (bs, current_start) \<leftarrow>
                 paragraph_loop E t path (path_limit cfg path) paragraph_ends [] base base 0;
               extend_or_push_trailing E bs t current_start end path ParagraphBoundary } }"

text \<open>Increasing boundary positions from \<open>p\<close> to at most \<open>e\<close>.\<close>

fun ascending :: "utext \<Rightarrow> nat \<Rightarrow> nat list \<Rightarrow> nat \<Rightarrow> bool" where
  "ascending t p [] e = (p \<le> e)"
| "ascending t p (x # xs) e = (p < x \<and> is_char_boundary t x \<and> ascending t x xs e)"

lemma ascendingI:
  assumes "sorted_wrt (<) (p # xs)" and "\<forall>x \<in> set xs. is_char_boundary t x \<and> x \<le> e" and "p \<le> e"
  shows "ascending t p xs e"
  using assms by (induction xs arbitrary: p) auto

lemma ascending_le: "ascending t p xs e \<Longrightarrow> p \<le> e"
  by (induction xs arbitrary: p) (auto intro: order_trans less_imp_le)

lemma paragraph_loop_ok:
  assumes "ascending t prev ps e" and "is_char_boundary t prev" and "is_char_boundary t cs"
    and "partitions t a bs cs" and "cs \<le> prev" and "0 < ct \<longrightarrow> cs < prev"
  shows "\<exists>bs' cs'. paragraph_loop E t path limit ps bs cs prev ct = Some (bs', cs')
     \<and> partitions t a bs' cs' \<and> is_char_boundary t cs' \<and> cs' \<le> e"
  using assms
proof (induction ps arbitrary: bs cs prev ct)
  case Nil
  thus ?case by auto
next
  case (Cons pos ps)
  have pos: "prev < pos" "is_char_boundary t pos" "ascending t pos ps e" using Cons.prems by auto
  obtain par where par: "slice t prev pos = Some par"
    using slice_defined [of prev pos t] pos Cons.prems(2) by auto
  let ?k = "path_cost E par path"
  have pushed: "partitions t a (bs @ [with_token_count (boundary_new cs prev ParagraphBoundary) ct]) prev"
    if "cs < prev" using that Cons.prems by (auto intro: covers_snoc)
  consider (over) "?k > limit" | (flush) "\<not> ?k > limit" "ct + ?k > limit" "ct > 0"
    | (more) "\<not> ?k > limit" "\<not> (ct + ?k > limit \<and> ct > 0)" by blast
  thus ?case
  proof cases
    case over
    define fl where "fl \<longleftrightarrow> cs < prev \<and> 0 < ct"
    define bs1 where "bs1 = (if fl then bs @ [with_token_count (boundary_new cs prev ParagraphBoundary) ct] else bs)"
    define st where "st = (if fl then prev else cs)"
    have st: "partitions t a bs1 st" "is_char_boundary t st" "st < pos"
      using pushed Cons.prems pos by (auto simp: bs1_def st_def fl_def)
    obtain p where p: "slice t st pos = Some p" using slice_defined [of st pos t] st pos by auto
    let ?bs2 = "bs1 @ [with_token_count (boundary_new st pos ParagraphBoundary) (path_cost E p path)]"
    have "paragraph_loop E t path limit (pos # ps) bs cs prev ct = paragraph_loop E t path limit ps ?bs2 pos pos 0"
      unfolding paragraph_loop.simps par bind.bind_lunit Let_def if_P [OF over]
        fl_def [symmetric] bs1_def [symmetric] st_def [symmetric] p ..
    moreover have "partitions t a ?bs2 pos" using st pos by (auto intro: covers_snoc)
    ultimately show ?thesis using Cons.IH [OF pos(3,2,2)] by simp
  next
    case flush
    have "paragraph_loop E t path limit (pos # ps) bs cs prev ct = paragraph_loop E t path limit ps
        (bs @ [with_token_count (boundary_new cs prev ParagraphBoundary) ct]) prev pos ?k"
      using par flush by (simp add: Let_def)
    moreover have "cs < prev" using Cons.prems flush by simp
    ultimately show ?thesis using Cons.IH [OF pos(3,2) Cons.prems(2) pushed] pos(1) by simp
  next
    case more
    hence "paragraph_loop E t path limit (pos # ps) bs cs prev ct =
        paragraph_loop E t path limit ps bs cs pos (ct + ?k)"
      using par by (auto simp: Let_def)
    thus ?thesis using Cons.IH [OF pos(3,2) Cons.prems(3,4)] Cons.prems(5) pos(1) by simp
  qed
qed

lemma paragraph_ends_ascending:
  assumes "slice t base end = Some whole"
  shows "ascending t base (map (\<lambda>i. base + i + 2) (match_indices_from 0 [10, 10] whole)) end"
proof (rule ascendingI)
  have "sorted_wrt (<) (map (\<lambda>i. base + i + 2) (match_indices_from 0 [10, 10] whole))"
    using match_indices_spaced [of "[10, 10]" 0 whole] unfolding blen_newlines sorted_wrt_map
    by (rule sorted_wrt_mono_rel [rotated]) auto
  thus "sorted_wrt (<) (base # map (\<lambda>i. base + i + 2) (match_indices_from 0 [10, 10] whole))" by auto
  show "\<forall>x \<in> set (map (\<lambda>i. base + i + 2) (match_indices_from 0 [10, 10] whole)).
      is_char_boundary t x \<and> x \<le> end"
  proof
    fix x assume "x \<in> set (map (\<lambda>i. base + i + 2) (match_indices_from 0 [10, 10] whole))"
    then obtain i where i: "i \<in> set (match_indices_from 0 [10, 10] whole)" "x = base + i + 2" by auto
    then obtain u v where u: "whole = u @ [10, 10] @ v" "i = blen u"
      using match_indices_sound [OF i(1)] by auto
    hence "whole = (u @ [10, 10]) @ v" "x = base + blen (u @ [10, 10])"
      using i(2) unfolding blen_append blen_newlines by simp_all
    thus "is_char_boundary t x \<and> x \<le> end" using boundary_in_slice [OF assms] by blast
  qed
  show "base \<le> end" using slice_blen [OF assms] by simp
qed

lemma paragraphs_ok:
  assumes "is_char_boundary t a" and "is_char_boundary t b" and "a \<le> b"
  shows "\<exists>bs. split_text_by_paragraphs E t a b path cfg = Some bs \<and> partitions t a bs b"
proof -
  obtain w where w: "slice t a b = Some w" using slice_defined assms by metis
  obtain bs cs where l: "paragraph_loop E t path (path_limit cfg path)
      (map (\<lambda>i. a + i + 2) (match_indices_from 0 [10, 10] w)) [] a a 0 = Some (bs, cs)"
    "partitions t a bs cs" "is_char_boundary t cs" "cs \<le> b"
    using paragraph_loop_ok [OF paragraph_ends_ascending [OF w] assms(1,1), of a "[]" 0 E path "path_limit cfg path"]
    by auto
  show ?thesis using trailing_cover [OF l(2,4,3) assms(2), of E path ParagraphBoundary] w l(1)
    by (simp add: split_text_by_paragraphs_def)
qed

section \<open>Sentences\<close>

definition ident_char :: "unicode \<Rightarrow> uchar \<Rightarrow> bool" where
  "ident_char uc c = (is_alphanumeric uc c \<or> c = 95 \<or> c = 36)"

definition bracket_depths :: "uchar \<Rightarrow> int \<times> int \<times> int \<Rightarrow> int \<times> int \<times> int" where
  "bracket_depths ch d = (case d of (paren, brack, brace) \<Rightarrow>
     (if ch = 40 then paren + 1 else if ch = 41 then paren - 1 else paren,
      if ch = 91 then brack + 1 else if ch = 93 then brack - 1 else brack,
      if ch = 123 then brace + 1 else if ch = 125 then brace - 1 else brace))"

text \<open>Whether a sentence ends after \<open>ch\<close>, between the character \<open>prev\<close> and the text \<open>rest\<close>, at the
  bracket depths of the line.\<close>

definition ends_sentence :: "unicode \<Rightarrow> uchar option \<Rightarrow> uchar \<Rightarrow> utext \<Rightarrow> int \<times> int \<times> int \<Rightarrow> bool" where
  "ends_sentence uc prev ch rest d =
     (let prev_is_ident = (case prev of None \<Rightarrow> False | Some c \<Rightarrow> ident_char uc c);
          next_is_ident = (case rest of [] \<Rightarrow> False | c # _ \<Rightarrow> ident_char uc c);
          next_ok = (case rest of [] \<Rightarrow> False
                     | c # _ \<Rightarrow> is_whitespace c \<or> c \<in> {41, 93, 125, 34, 39, 96})
      in if ch \<notin> {46, 33, 63, 12290, 65281, 65311} then False
         else if ch \<in> {12290, 65281, 65311} then True
         else if prev_is_ident \<and> next_is_ident then False
         else if rest = [] then False
         else if \<not> next_ok then False
         else (case d of (paren, brack, brace) \<Rightarrow> \<not> (paren > 0 \<or> brack > 0 \<or> brace > 0)))"

text \<open>The scan of \<open>find_sentence_boundaries\<close> at byte \<open>i\<close> of a text of \<open>len\<close> bytes.\<close>

fun sentence_scan :: "unicode \<Rightarrow> nat \<Rightarrow> nat \<Rightarrow> uchar option \<Rightarrow> int \<times> int \<times> int \<Rightarrow> utext \<Rightarrow> nat list" where
  "sentence_scan uc len i prev d [] = []"
| "sentence_scan uc len i prev d (ch # rest) =
     (let next_pos = i + len_utf8 ch;
          emit = (if next_pos < len then [next_pos] else []) in
      if ch = 10 then emit @ sentence_scan uc len next_pos (Some ch) (0, 0, 0) rest
      else let d = bracket_depths ch d
           in (if ends_sentence uc prev ch rest d then emit else [])
                @ sentence_scan uc len next_pos (Some ch) d rest)"

definition find_sentence_boundaries :: "unicode \<Rightarrow> utext \<Rightarrow> nat list" where
  "find_sentence_boundaries uc t =
     (let bs = sentence_scan uc (blen t) 0 None (0, 0, 0) t
      in if bs \<noteq> [] \<and> last bs = blen t then bs else bs @ [blen t])"

fun sentence_loop :: "env \<Rightarrow> utext \<Rightarrow> ChunkPath \<Rightarrow> nat \<Rightarrow> nat \<Rightarrow> nat list \<Rightarrow> ChunkBoundary list \<Rightarrow> nat \<Rightarrow> nat \<Rightarrow> nat
    \<Rightarrow> (ChunkBoundary list \<times> nat) option" where
  "sentence_loop E t path limit base [] bs chunk_start chunk_tokens prev_end = Some (bs, chunk_start)"
| "sentence_loop E t path limit base (pos # rest) bs chunk_start chunk_tokens prev_end =
     do { sentence \<leftarrow> slice t prev_end (base + pos);
          let sentence_tokens = path_cost E sentence path in
          if chunk_tokens + sentence_tokens > limit \<and> chunk_tokens > 0
          then sentence_loop E t path limit base rest
                 (bs @ [with_token_count (boundary_new chunk_start prev_end SentenceBoundary) chunk_tokens])
                 prev_end sentence_tokens (base + pos)
          else sentence_loop E t path limit base rest bs chunk_start (chunk_tokens + sentence_tokens)
                 (base + pos) }"

definition split_text_by_sentences ::
    "env \<Rightarrow> utext \<Rightarrow> nat \<Rightarrow> nat \<Rightarrow> ChunkPath \<Rightarrow> ChunkingConfig \<Rightarrow> ChunkBoundary list option" where
  "split_text_by_sentences E t base end path cfg =
     do { whole \<leftarrow> slice t base end;
          (bs, chunk_start) \<leftarrow> sentence_loop E t path (path_limit cfg path) base
             (find_sentence_boundaries (env_unicode E) whole) [] base 0 base;
          extend_or_push_trailing E bs t chunk_start end path SentenceBoundary }"

lemma sentence_scan_step:
  "\<exists>here d. sentence_scan uc len i prev depths (ch # rest)
       = here @ sentence_scan uc len (i + len_utf8 ch) (Some ch) d rest
     \<and> (here = [] \<or> here = [i + len_utf8 ch] \<and> i + len_utf8 ch < len)"
proof (cases "ch = 10")
  case True
  show ?thesis unfolding sentence_scan.simps Let_def if_P [OF True]
    by (rule exI, rule exI, rule conjI, rule refl) simp
next
  case False
  show ?thesis unfolding sentence_scan.simps Let_def if_not_P [OF False]
    by (rule exI, rule exI, rule conjI, rule refl) simp
qed

lemma sentence_scan_ascending:
  assumes "len = blen w" and "w = u @ rest" and "i = blen u"
  shows "sorted_wrt (<) (sentence_scan uc len i prev depths rest)
     \<and> (\<forall>x \<in> set (sentence_scan uc len i prev depths rest). i < x \<and> x < len \<and> is_char_boundary w x)"
  using assms
proof (induction rest arbitrary: u i prev depths)
  case (Cons ch rest)
  obtain here d where h: "sentence_scan uc len i prev depths (ch # rest)
       = here @ sentence_scan uc len (i + len_utf8 ch) (Some ch) d rest"
    "here = [] \<or> here = [i + len_utf8 ch] \<and> i + len_utf8 ch < len"
    using sentence_scan_step by blast
  have w: "w = (u @ [ch]) @ rest" "i + len_utf8 ch = blen (u @ [ch])" using Cons.prems by simp_all
  have bd: "is_char_boundary w (i + len_utf8 ch)" using boundary_append [of "u @ [ch]" rest] w by simp
  from Cons.IH [OF assms(1) w, of "Some ch" d] show ?case
    unfolding h(1) using h(2) bd by (auto simp: sorted_wrt_append)
qed simp

lemma find_sentence_boundaries_ok:
  assumes "w \<noteq> []"
  shows "sorted_wrt (<) (find_sentence_boundaries uc w)
     \<and> (\<forall>x \<in> set (find_sentence_boundaries uc w). 0 < x \<and> x \<le> blen w \<and> is_char_boundary w x)
     \<and> last (find_sentence_boundaries uc w) = blen w"
  using sentence_scan_ascending [of "blen w" w "[]" w 0 uc None "(0, 0, 0)"] assms
  by (auto simp: find_sentence_boundaries_def Let_def sorted_wrt_append intro: less_imp_le)

lemma sentence_loop_ok:
  assumes "ascending t prev (map ((+) base) ps) e" and "is_char_boundary t prev" and "is_char_boundary t cs"
    and "partitions t a bs cs" and "cs \<le> prev" and "0 < ct \<longrightarrow> cs < prev"
  shows "\<exists>bs' cs'. sentence_loop E t path limit base ps bs cs ct prev = Some (bs', cs')
     \<and> partitions t a bs' cs' \<and> is_char_boundary t cs' \<and> cs' \<le> e"
  using assms
proof (induction ps arbitrary: bs cs prev ct)
  case Nil
  thus ?case by auto
next
  case (Cons pos ps)
  let ?p = "base + pos"
  have pos: "prev < ?p" "is_char_boundary t ?p" "ascending t ?p (map ((+) base) ps) e" using Cons.prems by auto
  obtain s where s: "slice t prev ?p = Some s" using slice_defined [of prev ?p t] pos Cons.prems(2) by auto
  let ?k = "path_cost E s path"
  show ?case
  proof (cases "ct + ?k > limit \<and> ct > 0")
    case True
    hence "cs < prev" using Cons.prems by simp
    hence "partitions t a (bs @ [with_token_count (boundary_new cs prev SentenceBoundary) ct]) prev"
      using Cons.prems by (auto intro: covers_snoc)
    from Cons.IH [OF pos(3,2) Cons.prems(2) this] show ?thesis using s True pos(1) by (simp add: Let_def)
  next
    case False
    hence "sentence_loop E t path limit base (pos # ps) bs cs ct prev
        = sentence_loop E t path limit base ps bs cs (ct + ?k) ?p" using s by (auto simp: Let_def)
    thus ?thesis using Cons.IH [OF pos(3,2) Cons.prems(3,4)] Cons.prems(5) pos(1) by simp
  qed
qed

lemma sentences_ok:
  assumes "is_char_boundary t a" and "is_char_boundary t b" and "a \<le> b"
  shows "\<exists>bs. split_text_by_sentences E t a b path cfg = Some bs \<and> partitions t a bs b"
proof -
  obtain w where w: "slice t a b = Some w" using slice_defined assms by metis
  let ?ps = "find_sentence_boundaries (env_unicode E) w"
  have "\<exists>bs cs. sentence_loop E t path (path_limit cfg path) a ?ps [] a 0 a = Some (bs, cs)
      \<and> partitions t a bs cs \<and> is_char_boundary t cs \<and> cs \<le> b"
  proof (cases "w = []")
    case True
    hence "?ps = [0]" "a = b" using slice_blen [OF w] by (simp_all add: find_sentence_boundaries_def)
    thus ?thesis using w assms True by (simp add: Let_def)
  next
    case False
    have fs: "sorted_wrt (<) ?ps" "\<forall>x \<in> set ?ps. 0 < x \<and> is_char_boundary w x"
      using find_sentence_boundaries_ok [OF False] by blast+
    have "ascending t a (map ((+) a) ?ps) b"
    proof (rule ascendingI)
      show "sorted_wrt (<) (a # map ((+) a) ?ps)" using fs by (auto simp: sorted_wrt_map)
      show "\<forall>x \<in> set (map ((+) a) ?ps). is_char_boundary t x \<and> x \<le> b"
        using fs(2) slice_boundary [OF w] by auto
    qed (rule assms(3))
    from sentence_loop_ok [OF this assms(1,1), of a "[]" 0 E path "path_limit cfg path"]
    show ?thesis by auto
  qed
  then obtain bs cs where l: "sentence_loop E t path (path_limit cfg path) a ?ps [] a 0 a = Some (bs, cs)"
    "partitions t a bs cs" "is_char_boundary t cs" "cs \<le> b" by blast
  show ?thesis using trailing_cover [OF l(2,4,3) assms(2), of E path SentenceBoundary] w l(1)
    by (simp add: split_text_by_sentences_def)
qed

end
