(* ===== verification/Member_Split.thy ===== *)
theory Member_Split
  imports Split_Strategies
begin

text \<open>
  The two sources with entity data: the entity regions of an assembled text
  (\<open>strategies/members.rs\<close>) and the nested groups located by name (\<open>strategies/nested_groups.rs\<close>), and
  the contract every source meets.  Of an \<open>EntityGroup\<close> the splitter reads the header and the members
  with their test markers and the names and ids of the nested groups.
\<close>

record GroupedEntity =
  ge_id :: nat
  ge_test_info :: TestInfo

record NestedGroup =
  ng_name :: utext
  ng_group_id :: utext

record EntityGroup =
  eg_header :: "GroupedEntity option"
  eg_header_id :: "nat option"
  eg_members :: "GroupedEntity list"
  eg_nested :: "NestedGroup list"
  eg_test_info :: TestInfo

section \<open>Entity regions\<close>

definition disjoint_step :: "NlEntityBoundary list \<Rightarrow> NlEntityBoundary \<Rightarrow> NlEntityBoundary list" where
  "disjoint_step acc s = (if acc = [] \<or> nl_start s \<ge> nl_end (last acc) then acc @ [s] else acc)"

definition member_spans :: "NlEntityBoundary list \<Rightarrow> nat \<Rightarrow> nat \<Rightarrow> NlEntityBoundary list" where
  "member_spans nls base end =
     foldl disjoint_step []
       (sort_key (\<lambda>b. (nl_start b, nl_end b)) (filter (\<lambda>b. nl_start b < end \<and> nl_end b > base) nls))"

definition clip :: "nat \<Rightarrow> nat \<Rightarrow> nat \<Rightarrow> nat" where
  "clip base end p = min (max p base) end"

definition member_piece :: "nat \<Rightarrow> nat \<Rightarrow> nat \<Rightarrow> nat list \<Rightarrow> ChunkBoundary" where
  "member_piece s e cost ids =
     with_entity_ids (with_token_count (boundary_new s e MemberBoundary) cost) ids"

fun member_loop :: "env \<Rightarrow> utext \<Rightarrow> ChunkPath \<Rightarrow> nat \<Rightarrow> nat \<Rightarrow> nat \<Rightarrow> nat \<Rightarrow> NlEntityBoundary list
    \<Rightarrow> ChunkBoundary list \<Rightarrow> nat \<Rightarrow> nat \<Rightarrow> nat list \<Rightarrow> (ChunkBoundary list \<times> nat \<times> nat \<times> nat list) option" where
  "member_loop E t path limit min_cost base end [] bs chunk_start chunk_cost ents =
     Some (bs, chunk_start, chunk_cost, ents)"
| "member_loop E t path limit min_cost base end (sp0 # rest) bs chunk_start chunk_cost ents =
     (let s = clip base end (nl_start sp0); e = clip base end (nl_end sp0) in
      if s \<ge> e then member_loop E t path limit min_cost base end rest bs chunk_start chunk_cost ents
      else
        let next_start = (case rest of [] \<Rightarrow> end | n # _ \<Rightarrow> clip base end (nl_start n)) in
        do { entity_text \<leftarrow> slice t s e;
             let entity_cost = path_cost E entity_text path in
             if entity_cost > limit then
               let bs1 = (if ents \<noteq> [] then bs @ [member_piece chunk_start s chunk_cost ents] else bs);
                   piece_start = (if bs1 = [] then chunk_start else s) in
               do { piece \<leftarrow> slice t piece_start next_start;
                    member_loop E t path limit min_cost base end rest
                      (bs1 @ [member_piece piece_start next_start (path_cost E piece path) [nl_entity_id sp0]])
                      next_start 0 [] }
             else if chunk_cost + entity_cost > limit \<and> ents \<noteq> [] then
               if chunk_cost < min_cost \<and> chunk_cost + entity_cost \<le> limit
               then member_loop E t path limit min_cost base end rest bs chunk_start
                      (chunk_cost + entity_cost) (ents @ [nl_entity_id sp0])
               else member_loop E t path limit min_cost base end rest
                      (bs @ [member_piece chunk_start s chunk_cost ents]) s entity_cost [nl_entity_id sp0]
             else member_loop E t path limit min_cost base end rest bs chunk_start
                    (chunk_cost + entity_cost) (ents @ [nl_entity_id sp0]) })"

definition split_by_members_with_nl :: "env \<Rightarrow> utext \<Rightarrow> ChunkPath \<Rightarrow> ChunkingConfig \<Rightarrow> NlEntityBoundary list
    \<Rightarrow> nat \<Rightarrow> nat \<Rightarrow> ChunkBoundary list option" where
  "split_by_members_with_nl E t path cfg nls base end =
     (let spans = member_spans nls base end;
          min_cost = (case path of Bm25 \<Rightarrow> min_chunk_bm25_terms cfg | Embedding \<Rightarrow> min_chunk_tokens cfg)
      in if spans = [] then Some []
         else do { (bs, chunk_start, chunk_cost, ents) \<leftarrow>
                     member_loop E t path (path_limit cfg path) min_cost base end spans [] base 0 [];
                   if ents \<noteq> [] then Some (bs @ [member_piece chunk_start end chunk_cost ents])
                   else extend_or_push_trailing E bs t chunk_start end path MemberBoundary })"

text \<open>The branch that would keep an undersized chunk growing is never taken: it asks for a total at
  most the limit right after the total was found to exceed it.  The minimum chunk size has no effect.\<close>

lemma member_loop_ignores_minimum:
  "member_loop E t path limit m base end spans bs cs c ents = member_loop E t path limit m' base end spans bs cs c ents"
proof (induction spans arbitrary: bs cs c ents)
  case (Cons sp0 rest)
  have dead: "(if x > limit \<and> y \<noteq> [] then if c < k \<and> x \<le> limit then u else v else w)
      = (if x > limit \<and> y \<noteq> [] then v else w)" for x y k and u v w :: "'z"
    by simp
  show ?case unfolding member_loop.simps dead Cons ..
qed simp

text \<open>A region a text accepts: not empty, and each end on a boundary or past the text, where it is
  clipped.  Disjoint regions follow each other from \<open>p\<close> on.\<close>

definition boundary_or_past :: "utext \<Rightarrow> nat \<Rightarrow> bool" where
  "boundary_or_past t p = (is_char_boundary t p \<or> blen t \<le> p)"

definition nl_valid :: "utext \<Rightarrow> NlEntityBoundary list \<Rightarrow> bool" where
  "nl_valid t nls \<longleftrightarrow> (\<forall>b \<in> set nls. nl_start b < nl_end b
     \<and> boundary_or_past t (nl_start b) \<and> boundary_or_past t (nl_end b))"

fun disjoint_from :: "utext \<Rightarrow> nat \<Rightarrow> NlEntityBoundary list \<Rightarrow> bool" where
  "disjoint_from t p [] = True"
| "disjoint_from t p (b # bs) = (p \<le> nl_start b \<and> nl_start b < nl_end b
     \<and> boundary_or_past t (nl_start b) \<and> boundary_or_past t (nl_end b) \<and> disjoint_from t (nl_end b) bs)"

lemma disjoint_from_snoc:
  "disjoint_from t p (bs @ [b]) \<longleftrightarrow> disjoint_from t p bs
     \<and> (if bs = [] then p else nl_end (last bs)) \<le> nl_start b \<and> nl_start b < nl_end b
     \<and> boundary_or_past t (nl_start b) \<and> boundary_or_past t (nl_end b)"
  by (induction bs arbitrary: p) auto

lemma disjoint_step_regions:
  assumes "disjoint_from t 0 acc" and "nl_start s < nl_end s"
    and "boundary_or_past t (nl_start s)" and "boundary_or_past t (nl_end s)"
  shows "disjoint_from t 0 (disjoint_step acc s)"
  using assms by (simp add: disjoint_step_def disjoint_from_snoc)

lemma foldl_disjoint_regions:
  "disjoint_from t 0 acc \<Longrightarrow> nl_valid t xs \<Longrightarrow> disjoint_from t 0 (foldl disjoint_step acc xs)"
  by (induction xs arbitrary: acc) (auto simp: nl_valid_def intro!: disjoint_step_regions)

lemma set_foldl_disjoint: "set (foldl disjoint_step acc xs) \<subseteq> set acc \<union> set xs"
proof (induction xs arbitrary: acc)
  case (Cons x xs)
  have "set (disjoint_step acc x) \<subseteq> set acc \<union> {x}" by (auto simp: disjoint_step_def)
  thus ?case using Cons [of "disjoint_step acc x"] by auto
qed simp

lemma member_spans_ok:
  assumes "nl_valid t nls"
  shows "disjoint_from t 0 (member_spans nls base end)"
    and "\<forall>b \<in> set (member_spans nls base end). nl_start b < end \<and> base < nl_end b"
proof -
  show "disjoint_from t 0 (member_spans nls base end)"
    unfolding member_spans_def
    by (rule foldl_disjoint_regions) (use assms in \<open>auto simp: nl_valid_def\<close>)
  show "\<forall>b \<in> set (member_spans nls base end). nl_start b < end \<and> base < nl_end b"
    using set_foldl_disjoint [of "[]"
        "sort_key (\<lambda>b. (nl_start b, nl_end b)) (filter (\<lambda>b. nl_start b < end \<and> nl_end b > base) nls)"]
    by (auto simp: member_spans_def)
qed

text \<open>Where the next sp0 starts, or the range ends.\<close>

definition next_span :: "nat \<Rightarrow> nat \<Rightarrow> NlEntityBoundary list \<Rightarrow> nat" where
  "next_span base end spans = (case spans of [] \<Rightarrow> end | n # _ \<Rightarrow> clip base end (nl_start n))"

lemma clip_boundary:
  "\<lbrakk>boundary_or_past t p; is_char_boundary t base; is_char_boundary t end\<rbrakk> \<Longrightarrow> is_char_boundary t (clip base end p)"
  using boundary_le [of t "end"] by (auto simp: clip_def min_def max_def boundary_or_past_def) (metis le_antisym le_trans)

lemma member_piece_range [simp]: "cb_range (member_piece s e c ids) = (s, e)"
  by (simp add: member_piece_def)

definition member_inv :: "utext \<Rightarrow> nat \<Rightarrow> nat \<Rightarrow> ChunkBoundary list \<Rightarrow> nat \<Rightarrow> nat list \<Rightarrow> bool" where
  "member_inv t base n bs cs ents \<longleftrightarrow> partitions t base bs cs \<and> is_char_boundary t cs
     \<and> (if ents \<noteq> [] then cs < n else if bs \<noteq> [] then cs = n else cs \<le> n)"

lemma member_loop_ok:
  assumes "disjoint_from t p spans" and "\<forall>b \<in> set spans. nl_start b < end \<and> base < nl_end b"
    and "base < end" and "is_char_boundary t base" and "is_char_boundary t end"
    and "member_inv t base (next_span base end spans) bs cs ents"
  shows "\<exists>bs' cs' c' ents'. member_loop E t path limit m base end spans bs cs c ents = Some (bs', cs', c', ents')
     \<and> member_inv t base end bs' cs' ents'"
  using assms
proof (induction spans arbitrary: p bs cs c ents)
  case Nil
  thus ?case by (simp add: next_span_def)
next
  case (Cons sp0 rest)
  define s where "s = clip base end (nl_start sp0)"
  define e where "e = clip base end (nl_end sp0)"
  define n where "n = next_span base end rest"
  have sp: "nl_start sp0 < nl_end sp0" "nl_start sp0 < end" "base < nl_end sp0"
    "disjoint_from t (nl_end sp0) rest" using Cons.prems by auto
  have b: "is_char_boundary t s" "is_char_boundary t e"
    using Cons.prems by (auto simp: s_def e_def intro: clip_boundary)
  have se: "s < e" using sp Cons.prems(3) by (auto simp: s_def e_def clip_def)
  have en: "e \<le> n" using Cons.prems(1) by (cases rest) (auto simp: e_def n_def next_span_def clip_def)
  have nb: "is_char_boundary t n"
    using Cons.prems by (cases rest) (auto simp: n_def next_span_def intro: clip_boundary)
  have inv: "partitions t base bs cs" "is_char_boundary t cs" "ents \<noteq> [] \<Longrightarrow> cs < s"
    "ents = [] \<Longrightarrow> bs \<noteq> [] \<Longrightarrow> cs = s" "cs \<le> s"
    using Cons.prems(6) by (auto simp: member_inv_def next_span_def s_def split: if_splits)
  obtain et where et: "slice t s e = Some et" using slice_defined [of s e t] se b by auto
  let ?k = "path_cost E et path"
  have IH: "\<exists>bs' cs' c' ents'. member_loop E t path limit m base end rest bs1 cs1 c1 ents1 = Some (bs', cs', c', ents')
     \<and> member_inv t base end bs' cs' ents'" if "member_inv t base n bs1 cs1 ents1" for bs1 cs1 c1 ents1
    using Cons.IH [OF sp(4) _ Cons.prems(3-5)] Cons.prems(2) that by (simp add: n_def)
  have nx: "(case rest of [] \<Rightarrow> end | n # _ \<Rightarrow> clip base end (nl_start n)) = n"
    by (simp add: n_def next_span_def)
  have step: "member_loop E t path limit m base end (sp0 # rest) bs cs c ents =
     (if ?k > limit then
        let bs1 = (if ents \<noteq> [] then bs @ [member_piece cs s c ents] else bs);
            ps = (if bs1 = [] then cs else s) in
        do { piece \<leftarrow> slice t ps n;
             member_loop E t path limit m base end rest
               (bs1 @ [member_piece ps n (path_cost E piece path) [nl_entity_id sp0]]) n 0 [] }
      else if c + ?k > limit \<and> ents \<noteq> [] then
        if c < m \<and> c + ?k \<le> limit
        then member_loop E t path limit m base end rest bs cs (c + ?k) (ents @ [nl_entity_id sp0])
        else member_loop E t path limit m base end rest
               (bs @ [member_piece cs s c ents]) s ?k [nl_entity_id sp0]
      else member_loop E t path limit m base end rest bs cs (c + ?k) (ents @ [nl_entity_id sp0]))"
    unfolding member_loop.simps s_def [symmetric] e_def [symmetric] Let_def nx et bind.bind_lunit
    using se by simp
  have pushed: "partitions t base (bs @ [member_piece cs s c ents]) s" if "ents \<noteq> []"
    using inv that b by (auto intro: covers_snoc)
  have grow: "member_inv t base n bs cs (ents @ [x])" for x
    using inv se en by (auto simp: member_inv_def)
  consider (over) "?k > limit" | (flush) "\<not> ?k > limit" "c + ?k > limit \<and> ents \<noteq> []"
    | (more) "\<not> ?k > limit" "\<not> (c + ?k > limit \<and> ents \<noteq> [])" by blast
  thus ?case
  proof cases
    case over
    define bs1 where "bs1 = (if ents \<noteq> [] then bs @ [member_piece cs s c ents] else bs)"
    define ps where "ps = (if bs1 = [] then cs else s)"
    have ps: "partitions t base bs1 ps" "is_char_boundary t ps" "ps \<le> s"
      using inv pushed b by (auto simp: bs1_def ps_def)
    obtain piece where piece: "slice t ps n = Some piece"
      using slice_defined [of ps n t] ps nb se en by auto
    have "member_inv t base n (bs1 @ [member_piece ps n (path_cost E piece path) [nl_entity_id sp0]]) n []"
      using ps nb se en by (auto simp: member_inv_def intro: covers_snoc)
    from IH [OF this, of 0] show ?thesis
      unfolding step if_P [OF over] Let_def bs1_def [symmetric] ps_def [symmetric] piece bind.bind_lunit .
  next
    case flush
    have "member_inv t base n (bs @ [member_piece cs s c ents]) s [nl_entity_id sp0]"
      using pushed flush b se en by (auto simp: member_inv_def)
    from IH [OF this, of ?k] show ?thesis using flush unfolding step by simp
  next
    case more
    show ?thesis unfolding step if_not_P [OF more(1)] if_not_P [OF more(2)] by (rule IH [OF grow])
  qed
qed

lemma member_loop_empty_range:
  "member_loop E t path limit m base base spans bs cs c ents = Some (bs, cs, c, ents)"
  by (induction spans) (simp_all add: Let_def clip_def)

lemma members_ok:
  assumes "nl_valid t nls" and "is_char_boundary t a" and "is_char_boundary t b" and "a \<le> b"
  shows "\<exists>bs. split_by_members_with_nl E t path cfg nls a b = Some bs \<and> (bs = [] \<or> partitions t a bs b)"
proof (cases "member_spans nls a b = [] \<or> a = b")
  case True
  thus ?thesis
    by (auto simp: split_by_members_with_nl_def Let_def member_loop_empty_range extend_or_push_trailing_def)
next
  case False
  let ?m = "case path of Bm25 \<Rightarrow> min_chunk_bm25_terms cfg | Embedding \<Rightarrow> min_chunk_tokens cfg"
  have "member_inv t a (next_span a b (member_spans nls a b)) [] a []"
    using assms by (auto simp: member_inv_def next_span_def clip_def split: list.split)
  then obtain bs cs c ents where l: "member_loop E t path (path_limit cfg path) ?m a b (member_spans nls a b) [] a 0 []
      = Some (bs, cs, c, ents)" "member_inv t a b bs cs ents"
    using member_loop_ok [OF member_spans_ok [OF assms(1)] _ assms(2,3)] False assms(4)
    by (metis le_neq_implies_less)
  show ?thesis
  proof (cases "ents = []")
    case True
    thus ?thesis
      using l False trailing_cover [of t a bs cs b E path MemberBoundary] assms(3)
      by (auto simp: split_by_members_with_nl_def Let_def member_inv_def split: if_splits)
  next
    case ne: False
    hence "partitions t a (bs @ [member_piece cs b c ents]) b"
      using l(2) assms(3) by (auto simp: member_inv_def intro: covers_snoc)
    thus ?thesis using l False ne by (auto simp: split_by_members_with_nl_def Let_def)
  qed
qed

section \<open>Nested groups\<close>

definition after_last_path_sep :: "utext \<Rightarrow> utext" where
  "after_last_path_sep name = (case rfind [58, 58] name of
     None \<Rightarrow> name | Some i \<Rightarrow> byte_drop (i + 2) name)"

definition locate_name :: "unicode \<Rightarrow> utext \<Rightarrow> utext \<Rightarrow> (nat \<times> nat) option" where
  "locate_name uc sub name =
     (case find_case_insensitive uc sub name of
        Some found \<Rightarrow> Some found
      | None \<Rightarrow>
          let semantic = split_camel_case uc name; l = after_last_path_sep name
          in if semantic \<noteq> [] \<and> semantic \<noteq> name then find_case_insensitive uc sub semantic
             else if l \<noteq> name then find_case_insensitive uc sub l
             else None)"

type_synonym nested_span = "utext \<times> nat \<times> nat"

definition nested_disjoint_step :: "nested_span list \<Rightarrow> nested_span \<Rightarrow> nested_span list" where
  "nested_disjoint_step acc x =
     (if acc = [] \<or> fst (snd x) \<ge> snd (snd (last acc)) then acc @ [x] else acc)"

definition locate_nested_spans_in_nl_text ::
    "unicode \<Rightarrow> utext \<Rightarrow> EntityGroup \<Rightarrow> nat \<Rightarrow> nat \<Rightarrow> nested_span list option" where
  "locate_nested_spans_in_nl_text uc t grp start end =
     do { sub \<leftarrow> slice t start end;
          let spans = List.map_filter (\<lambda>n. map_option
                (\<lambda>(rel, len). (ng_group_id n, start + rel, start + rel + len))
                (locate_name uc sub (ng_name n))) (eg_nested grp)
          in Some (foldl nested_disjoint_step [] (sort_key snd spans)) }"

fun nested_loop :: "env \<Rightarrow> utext \<Rightarrow> ChunkPath \<Rightarrow> nat \<Rightarrow> nat \<Rightarrow> nested_span list \<Rightarrow> ChunkBoundary list \<Rightarrow> nat
    \<Rightarrow> (ChunkBoundary list \<times> nat) option" where
  "nested_loop E t path base end [] bs current_start = Some (bs, current_start)"
| "nested_loop E t path base end ((gid, s0, e0) # rest) bs current_start =
     (let s = clip base end s0; e = clip base end e0 in
      if s \<ge> e then nested_loop E t path base end rest bs current_start
      else
        do { bs1 \<leftarrow>
               (if s > current_start then
                  do { gap_text \<leftarrow> slice t current_start s;
                       Some (if u_trim gap_text = []
                             then (if bs = [] then bs else extend_last bs s)
                             else bs @ [with_token_count (boundary_new current_start s MemberBoundary)
                                          (path_cost E gap_text path)]) }
                else Some bs);
             let piece_start = (if bs1 = [] then base else cb_end (last bs1)) in
             do { nested_text \<leftarrow> slice t piece_start e;
                  nested_loop E t path base end rest
                    (bs1 @ [with_group_id (with_token_count (boundary_new piece_start e MemberBoundary)
                              (path_cost E nested_text path)) (Some gid)]) e } })"

definition split_by_nested_groups ::
    "env \<Rightarrow> utext \<Rightarrow> EntityGroup \<Rightarrow> ChunkPath \<Rightarrow> nat \<Rightarrow> nat \<Rightarrow> ChunkBoundary list option" where
  "split_by_nested_groups E t grp path base end =
     do { spans \<leftarrow> locate_nested_spans_in_nl_text (env_unicode E) t grp base end;
          if spans = [] then Some []
          else do { (bs, current_start) \<leftarrow> nested_loop E t path base end spans [] base;
                    extend_or_push_trailing E bs t current_start end path MemberBoundary } }"

lemma locate_name_slice: "locate_name uc sub name = Some (s, n) \<Longrightarrow> \<exists>x. slice sub s (s + n) = Some x"
  unfolding locate_name_def Let_def
  by (auto split: option.splits if_splits dest!: find_case_insensitive_sound)

text \<open>Disjoint spans on boundaries, from \<open>p\<close> on; unlike entity regions a span may be empty.\<close>

fun spans_ok :: "utext \<Rightarrow> nat \<Rightarrow> nat \<Rightarrow> nested_span list \<Rightarrow> bool" where
  "spans_ok t p end [] = True"
| "spans_ok t p end ((g, s, e) # xs) = (p \<le> s \<and> s \<le> e \<and> e \<le> end \<and> is_char_boundary t s
     \<and> is_char_boundary t e \<and> spans_ok t e end xs)"

lemma spans_ok_snoc:
  "spans_ok t p end (xs @ [(g, s, e)]) \<longleftrightarrow> spans_ok t p end xs
     \<and> (if xs = [] then p else snd (snd (last xs))) \<le> s \<and> s \<le> e \<and> e \<le> end
     \<and> is_char_boundary t s \<and> is_char_boundary t e"
  by (induction xs arbitrary: p) auto

lemma foldl_nested_ok:
  assumes "spans_ok t p end acc"
    and "\<forall>(g, s, e) \<in> set xs. p \<le> s \<and> s \<le> e \<and> e \<le> end \<and> is_char_boundary t s \<and> is_char_boundary t e"
  shows "spans_ok t p end (foldl nested_disjoint_step acc xs)"
  using assms
proof (induction xs arbitrary: acc)
  case (Cons x xs)
  obtain g s e where x: "x = (g, s, e)" using prod_cases3 by blast
  have "spans_ok t p end (nested_disjoint_step acc x)"
    using Cons.prems by (auto simp: nested_disjoint_step_def x spans_ok_snoc)
  thus ?case using Cons by simp
qed simp

lemma locate_nested_ok:
  assumes "slice t a b = Some w"
  shows "\<exists>spans. locate_nested_spans_in_nl_text uc t grp a b = Some spans \<and> spans_ok t a b spans"
proof -
  let ?f = "\<lambda>n. map_option (\<lambda>(rel, len). (ng_group_id n, a + rel, a + rel + len)) (locate_name uc w (ng_name n))"
  have "a \<le> s \<and> s \<le> e \<and> e \<le> b \<and> is_char_boundary t s \<and> is_char_boundary t e"
    if m: "(g, s, e) \<in> set (List.map_filter ?f (eg_nested grp))" for g s e
  proof -
    obtain n :: NestedGroup and r l where n: "locate_name uc w (ng_name n) = Some (r, l)" "s = a + r" "e = a + (r + l)"
      using m by (auto simp: List.map_filter_def add.assoc)
    obtain x where "slice w r (r + l) = Some x" using locate_name_slice [OF n(1)] by blast
    thus ?thesis using slice_boundaries [of w r "r + l" x] slice_boundary [OF assms] n(2,3) by auto
  qed
  hence "spans_ok t a b (foldl nested_disjoint_step [] (sort_key snd (List.map_filter ?f (eg_nested grp))))"
    by (intro foldl_nested_ok) auto
  thus ?thesis using assms by (simp add: locate_nested_spans_in_nl_text_def Let_def)
qed

lemma nested_loop_ok:
  assumes "spans_ok t p end spans" and "cs \<le> p" and "base \<le> p" and "p \<le> end"
    and "is_char_boundary t base" and "is_char_boundary t cs" and "partitions t base bs cs"
  shows "\<exists>bs' cs'. nested_loop E t path base end spans bs cs = Some (bs', cs')
     \<and> partitions t base bs' cs' \<and> is_char_boundary t cs' \<and> cs' \<le> end"
  using assms
proof (induction spans arbitrary: p bs cs)
  case Nil
  thus ?case by auto
next
  case (Cons x rest)
  obtain g s e where x: "x = (g, s, e)" using prod_cases3 by blast
  have sp: "p \<le> s" "s \<le> e" "e \<le> end" "is_char_boundary t s" "is_char_boundary t e" "spans_ok t e end rest"
    using Cons.prems(1) by (auto simp: x)
  have cl: "clip base end s = s" "clip base end e = e" using sp Cons.prems(3) by (simp_all add: clip_def)
  show ?case
  proof (cases "s \<ge> e")
    case True
    have "\<exists>bs' cs'. nested_loop E t path base end rest bs cs = Some (bs', cs')
       \<and> partitions t base bs' cs' \<and> is_char_boundary t cs' \<and> cs' \<le> end"
      by (rule Cons.IH [OF sp(6)]) (use Cons.prems sp in auto)
    thus ?thesis unfolding x nested_loop.simps cl Let_def if_P [OF True] .
  next
    case False
    define step where "step = (if s > cs then
        do { gap_text \<leftarrow> slice t cs s;
             Some (if u_trim gap_text = [] then (if bs = [] then bs else extend_last bs s)
                   else bs @ [with_token_count (boundary_new cs s MemberBoundary) (path_cost E gap_text path)]) }
        else Some bs)"
    have "\<exists>bs1 ps. step = Some bs1 \<and> partitions t base bs1 ps \<and> is_char_boundary t ps \<and> ps \<le> s"
    proof (cases "s > cs")
      case gt: True
      obtain gap where gap: "slice t cs s = Some gap"
        using slice_defined [of cs s t] gt Cons.prems(6) sp(4) by auto
      show ?thesis
      proof (cases "u_trim gap = []")
        case True
        thus ?thesis using gt gap Cons.prems(5-7) sp(1,4) Cons.prems(3) extend_last_cover [OF Cons.prems(7) _ gt sp(4)]
          by (cases "bs = []") (auto simp: step_def)
      next
        case ns: False
        have "partitions t base (bs @ [with_token_count (boundary_new cs s MemberBoundary) (path_cost E gap path)]) s"
          using Cons.prems(6,7) gt sp(4) by (auto intro: covers_snoc)
        thus ?thesis using gt gap ns sp(4) by (auto simp: step_def)
      qed
    next
      case le: False
      thus ?thesis using Cons.prems(2,6,7) sp(1) by (intro exI [of _ bs] exI [of _ cs]) (simp add: step_def)
    qed
    then obtain bs1 ps where st: "step = Some bs1" "partitions t base bs1 ps" "is_char_boundary t ps" "ps \<le> s"
      by blast
    have pe: "(if bs1 = [] then base else cb_end (last bs1)) = ps"
      using st(2) covers_last [OF st(2)] by (auto simp: last_map cb_range_def)
    obtain nt where nt: "slice t ps e = Some nt"
      using slice_defined [of ps e t] st(3,4) sp(2,5) by auto
    let ?b = "with_group_id (with_token_count (boundary_new ps e MemberBoundary) (path_cost E nt path)) (Some g)"
    have "partitions t base (bs1 @ [?b]) e" using st False sp(5) by (auto intro!: covers_snoc)
    from Cons.IH [OF sp(6) _ _ sp(3) Cons.prems(5) sp(5) this] show ?thesis
      unfolding x nested_loop.simps cl Let_def if_not_P [OF False] step_def [symmetric] st(1)
        bind.bind_lunit pe nt using sp Cons.prems(3) by auto
  qed
qed

lemma nested_ok:
  assumes "is_char_boundary t a" and "is_char_boundary t b" and "a \<le> b"
  shows "\<exists>bs. split_by_nested_groups E t grp path a b = Some bs \<and> (bs = [] \<or> partitions t a bs b)"
proof -
  obtain w where w: "slice t a b = Some w" using slice_defined assms by metis
  obtain spans where sp: "locate_nested_spans_in_nl_text (env_unicode E) t grp a b = Some spans"
    "spans_ok t a b spans" using locate_nested_ok [OF w] by blast
  show ?thesis
  proof (cases "spans = []")
    case True
    thus ?thesis using sp by (simp add: split_by_nested_groups_def)
  next
    case False
    obtain bs cs where l: "nested_loop E t path a b spans [] a = Some (bs, cs)" "partitions t a bs cs"
      "is_char_boundary t cs" "cs \<le> b"
      using nested_loop_ok [OF sp(2), of a a "[]" E path] assms by auto
    show ?thesis
      using trailing_cover [OF l(2,4,3) assms(2), of E path MemberBoundary] sp False l(1)
      by (auto simp: split_by_nested_groups_def)
  qed
qed

section \<open>The contract of a boundary source\<close>

text \<open>What the split recursion relies on: on an aligned range of a text it accepts, a source returns,
  and a source with data returns a complete partition of the range.\<close>

locale boundary_source =
  fixes source :: "utext \<Rightarrow> nat \<Rightarrow> nat \<Rightarrow> ChunkBoundary list option"
    and accepts :: "utext \<Rightarrow> bool"
  assumes source_ok: "\<lbrakk>accepts t; is_char_boundary t a; is_char_boundary t b; a \<le> b\<rbrakk> \<Longrightarrow>
     \<exists>bs. source t a b = Some bs \<and> (bs = [] \<or> partitions t a bs b)"
begin

text \<open>A source never panics on a valid range, and its pieces put together are the range.\<close>

lemma source_concat:
  assumes "accepts t" and "slice t a b = Some w"
  shows "\<exists>bs. source t a b = Some bs \<and> (bs = [] \<or>
     (\<exists>ps. map (\<lambda>x. slice t (cb_start x) (cb_end x)) bs = map Some ps \<and> concat ps = w))"
proof -
  have ab: "is_char_boundary t a" "is_char_boundary t b" "a \<le> b"
    using slice_boundaries [OF assms(2)] slice_blen [OF assms(2)] by auto
  obtain bs where bs: "source t a b = Some bs" "bs = [] \<or> partitions t a bs b"
    using source_ok [OF assms(1) ab] by blast
  show ?thesis
  proof (cases "bs = []")
    case False
    hence "partitions t a bs b" using bs(2) by simp
    from covers_concat [OF this ab(1)] obtain ps where
      "map (\<lambda>(s, e). slice t s e) (map cb_range bs) = map Some ps" "slice t a b = Some (concat ps)" by blast
    thus ?thesis using bs(1) assms(2) by (intro exI [of _ bs]) (auto simp: cb_range_def comp_def)
  qed (use bs in auto)
qed

lemma source_piece:
  assumes "accepts t" and "is_char_boundary t a" and "is_char_boundary t b" and "a \<le> b"
    and "source t a b = Some bs" and "x \<in> set bs"
  shows "a \<le> cb_start x \<and> cb_start x < cb_end x \<and> cb_end x \<le> b
     \<and> is_char_boundary t (cb_start x) \<and> is_char_boundary t (cb_end x)"
proof -
  have "partitions t a bs b" using source_ok [OF assms(1-4)] assms(5,6) by auto
  moreover have "(cb_start x, cb_end x) \<in> set (map cb_range bs)" using assms(6) by (auto simp: cb_range_def)
  ultimately show ?thesis using covers_piece by blast
qed

end

interpretation paragraphs: boundary_source
  "\<lambda>t a b. split_text_by_paragraphs E t a b path cfg" "\<lambda>t. True" for E path cfg
  by unfold_locales (use paragraphs_ok in blast)

interpretation sentences: boundary_source
  "\<lambda>t a b. split_text_by_sentences E t a b path cfg" "\<lambda>t. True" for E path cfg
  by unfold_locales (use sentences_ok in blast)

interpretation members: boundary_source
  "\<lambda>t a b. split_by_members_with_nl E t path cfg nls a b" "\<lambda>t. nl_valid t nls" for E path cfg nls
  by unfold_locales (rule members_ok)

interpretation nested: boundary_source
  "\<lambda>t a b. split_by_nested_groups E t grp path a b" "\<lambda>t. True" for E grp path
  by unfold_locales (rule nested_ok)

interpretation tokens: boundary_source
  "\<lambda>t a b. split_by_tokens_in_range E t a b path cfg" "\<lambda>t. True" for E path cfg
  by unfold_locales (use split_by_tokens_in_range_ok in blast)

end
