(* ===== verification/Text_Splitter.thy ===== *)
theory Text_Splitter
  imports Member_Split
begin

text \<open>
  The text splitter of the chunker (\<open>ast_to_nl/chunker/splitter.rs\<close>): one recursion over boundary
  levels that descends while a level has no data and sub-divides pieces over the body limit, the
  checks that guard its result, the conversion of boundaries to segments and the merging of small
  neighbours.  A panic is \<^const>\<open>None\<close>, a returned error an \<^const>\<open>Inl\<close>.
\<close>

datatype BoundaryLevel = NestedGroupsLevel | EntitiesLevel | SentencesLevel | ParagraphsLevel | TokensLevel

datatype SplitStrategy = ByParagraphs | ByNestedGroups | ByNlEntityBoundaries

datatype SplitError = InvalidSplitRange nat nat | InvalidBoundary nat nat | NotCovering nat nat
  | BoundaryGap nat nat | CoverageShort nat nat

definition level_next :: "ChunkPath \<Rightarrow> BoundaryLevel \<Rightarrow> BoundaryLevel" where
  "level_next path level =
     (if path = Bm25 then
        (case level of NestedGroupsLevel \<Rightarrow> EntitiesLevel | EntitiesLevel \<Rightarrow> ParagraphsLevel
         | SentencesLevel \<Rightarrow> ParagraphsLevel | ParagraphsLevel \<Rightarrow> TokensLevel | TokensLevel \<Rightarrow> TokensLevel)
      else
        (case level of NestedGroupsLevel \<Rightarrow> EntitiesLevel | EntitiesLevel \<Rightarrow> SentencesLevel
         | SentencesLevel \<Rightarrow> TokensLevel | ParagraphsLevel \<Rightarrow> TokensLevel | TokensLevel \<Rightarrow> TokensLevel))"

definition level_subdivide :: "ChunkPath \<Rightarrow> BoundaryLevel \<Rightarrow> BoundaryLevel" where
  "level_subdivide path level =
     (case level of
        NestedGroupsLevel \<Rightarrow> if path = Bm25 then ParagraphsLevel else SentencesLevel
      | EntitiesLevel \<Rightarrow> if path = Bm25 then ParagraphsLevel else SentencesLevel
      | _ \<Rightarrow> TokensLevel)"

definition from_strategy :: "SplitStrategy \<Rightarrow> BoundaryLevel" where
  "from_strategy s = (case s of ByNestedGroups \<Rightarrow> NestedGroupsLevel
     | ByNlEntityBoundaries \<Rightarrow> EntitiesLevel | ByParagraphs \<Rightarrow> ParagraphsLevel)"

text \<open>Every step of the recursion goes strictly down this ladder.\<close>

definition level_rank :: "BoundaryLevel \<Rightarrow> nat" where
  "level_rank level = (case level of NestedGroupsLevel \<Rightarrow> 4 | EntitiesLevel \<Rightarrow> 3 | SentencesLevel \<Rightarrow> 2
     | ParagraphsLevel \<Rightarrow> 1 | TokensLevel \<Rightarrow> 0)"

lemma level_next_rank: "level \<noteq> TokensLevel \<Longrightarrow> level_rank (level_next path level) < level_rank level"
  by (cases level) (simp_all add: level_next_def level_rank_def)

lemma level_subdivide_rank: "level \<noteq> TokensLevel \<Longrightarrow> level_rank (level_subdivide path level) < level_rank level"
  by (cases level) (simp_all add: level_subdivide_def level_rank_def)

record TextSplitter =
  ts_config :: ChunkingConfig
  ts_emb_budget :: ChunkBudget
  ts_bm25_budget :: ChunkBudget

definition splitter_new :: "(nat \<Rightarrow> rat \<Rightarrow> nat) \<Rightarrow> ChunkingConfig \<Rightarrow> TextSplitter" where
  "splitter_new scale cfg = \<lparr>ts_config = cfg,
     ts_emb_budget = chunk_budget scale cfg Embedding False 0,
     ts_bm25_budget = chunk_budget scale cfg Bm25 False 0\<rparr>"

definition with_budgets :: "ChunkingConfig \<Rightarrow> ChunkBudget \<Rightarrow> ChunkBudget \<Rightarrow> TextSplitter" where
  "with_budgets cfg emb bm25 = \<lparr>ts_config = cfg, ts_emb_budget = emb, ts_bm25_budget = bm25\<rparr>"

definition ts_budget :: "TextSplitter \<Rightarrow> ChunkPath \<Rightarrow> ChunkBudget" where
  "ts_budget ts path = (case path of Embedding \<Rightarrow> ts_emb_budget ts | Bm25 \<Rightarrow> ts_bm25_budget ts)"

definition effective_config :: "TextSplitter \<Rightarrow> ChunkPath \<Rightarrow> ChunkingConfig" where
  "effective_config ts path =
     (let b = ts_budget ts path
      in case path of
           Embedding \<Rightarrow> (ts_config ts)\<lparr>max_tokens := body_limit b, min_chunk_tokens := min_limit b,
                          cross_group_merge_threshold := merge_ceiling b\<rparr>
         | Bm25 \<Rightarrow> (ts_config ts)\<lparr>max_bm25_terms := body_limit b, min_chunk_bm25_terms := min_limit b\<rparr>)"

lemma effective_limit [simp]: "path_limit (effective_config ts path) path = body_limit (ts_budget ts path)"
  by (cases path) (simp_all add: effective_config_def path_limit_def Let_def)

definition bad_range :: "utext \<Rightarrow> nat \<Rightarrow> nat \<Rightarrow> bool" where
  "bad_range t a b = (a > b \<or> b > blen t \<or> \<not> is_char_boundary t a \<or> \<not> is_char_boundary t b)"

definition validate_range :: "utext \<Rightarrow> nat \<Rightarrow> nat \<Rightarrow> SplitError + unit" where
  "validate_range t a b = (if bad_range t a b then Inl (InvalidSplitRange a b) else Inr ())"

definition validate_boundary :: "ChunkBoundary \<Rightarrow> nat \<Rightarrow> nat \<Rightarrow> utext \<Rightarrow> SplitError + unit" where
  "validate_boundary x a b t =
     (if cb_start x < a \<or> cb_end x > b \<or> cb_start x \<ge> cb_end x \<or> cb_end x > blen t
         \<or> \<not> is_char_boundary t (cb_start x) \<or> \<not> is_char_boundary t (cb_end x)
      then Inl (InvalidBoundary (cb_start x) (cb_end x)) else Inr ())"

fun partition_check :: "utext \<Rightarrow> nat \<Rightarrow> nat \<Rightarrow> nat \<Rightarrow> ChunkBoundary list \<Rightarrow> SplitError + unit" where
  "partition_check t a b prev_end [] =
     (if prev_end \<noteq> b then Inl (CoverageShort prev_end b) else Inr ())"
| "partition_check t a b prev_end (x # xs) =
     (case validate_boundary x a b t of
        Inl e \<Rightarrow> Inl e
      | Inr _ \<Rightarrow> if cb_start x \<noteq> prev_end then Inl (BoundaryGap prev_end (cb_start x))
                 else partition_check t a b (cb_end x) xs)"

definition validate_partition :: "ChunkBoundary list \<Rightarrow> utext \<Rightarrow> nat \<Rightarrow> nat \<Rightarrow> SplitError + unit" where
  "validate_partition bs t a b =
     (case validate_range t a b of Inl e \<Rightarrow> Inl e | Inr _ \<Rightarrow> partition_check t a b a bs)"

definition partition_at :: "env \<Rightarrow> TextSplitter \<Rightarrow> BoundaryLevel \<Rightarrow> utext \<Rightarrow> EntityGroup \<Rightarrow> ChunkPath
    \<Rightarrow> NlEntityBoundary list option \<Rightarrow> nat \<Rightarrow> nat \<Rightarrow> ChunkBoundary list option" where
  "partition_at E ts level t grp path nls a b =
     (let cfg = effective_config ts path
      in case level of
           NestedGroupsLevel \<Rightarrow> split_by_nested_groups E t grp path a b
         | EntitiesLevel \<Rightarrow> (case nls of Some nl \<Rightarrow> split_by_members_with_nl E t path cfg nl a b | None \<Rightarrow> Some [])
         | SentencesLevel \<Rightarrow> split_text_by_sentences E t a b path cfg
         | ParagraphsLevel \<Rightarrow> split_text_by_paragraphs E t a b path cfg
         | TokensLevel \<Rightarrow> None)"

definition inherit_ids :: "nat list \<Rightarrow> ChunkBoundary \<Rightarrow> ChunkBoundary" where
  "inherit_ids ids x = (if entity_ids x = [] then x\<lparr>entity_ids := ids\<rparr> else x)"

text \<open>A loop with \<open>?\<close>: the results of the pieces in order, up to the first panic or error.\<close>

fun collect :: "('a \<Rightarrow> ('e + 'b list) option) \<Rightarrow> 'a list \<Rightarrow> ('e + 'b list) option" where
  "collect f [] = Some (Inr [])"
| "collect f (x # xs) =
     (case f x of
        None \<Rightarrow> None
      | Some (Inl e) \<Rightarrow> Some (Inl e)
      | Some (Inr ys) \<Rightarrow> (case collect f xs of
            None \<Rightarrow> None
          | Some (Inl e) \<Rightarrow> Some (Inl e)
          | Some (Inr zs) \<Rightarrow> Some (Inr (ys @ zs))))"

lemma collect_cong [fundef_cong]:
  "xs = ys \<Longrightarrow> (\<And>x. x \<in> set ys \<Longrightarrow> f x = g x) \<Longrightarrow> collect f xs = collect g ys"
  by (induction ys arbitrary: xs) (auto split: option.split sum.split)

lemma collect_ok:
  assumes "\<And>x. x \<in> set xs \<Longrightarrow> f x = Some (Inr (h x))"
  shows "collect f xs = Some (Inr (concat (map h xs)))"
  using assms by (induction xs) auto

function split_range_at :: "env \<Rightarrow> TextSplitter \<Rightarrow> utext \<Rightarrow> EntityGroup \<Rightarrow> ChunkPath \<Rightarrow> NlEntityBoundary list option
    \<Rightarrow> nat \<Rightarrow> nat \<Rightarrow> BoundaryLevel \<Rightarrow> nat list \<Rightarrow> (SplitError + ChunkBoundary list) option" where
  "split_range_at E ts t grp path nls a b level inherit =
     (if bad_range t a b then Some (Inl (InvalidSplitRange a b))
      else if level = TokensLevel then
        do { bs \<leftarrow> split_by_tokens_in_range E t a b path (effective_config ts path);
             Some (Inr (if inherit \<noteq> [] then map (inherit_ids inherit) bs else bs)) }
      else
        do { bs \<leftarrow> partition_at E ts level t grp path nls a b;
             (case bs of
                [] \<Rightarrow> split_range_at E ts t grp path nls a b (level_next path level) inherit
              | [x] \<Rightarrow>
                  (case validate_boundary x a b t of
                     Inl e \<Rightarrow> Some (Inl e)
                   | Inr _ \<Rightarrow>
                       if cb_start x \<noteq> a \<or> cb_end x \<noteq> b then Some (Inl (NotCovering (cb_start x) (cb_end x)))
                       else
                         let x' = inherit_ids inherit x in
                         do { piece \<leftarrow> slice t (cb_start x') (cb_end x');
                              if body_limit (ts_budget ts path) = 0
                                 \<or> path_cost E piece path \<le> body_limit (ts_budget ts path)
                              then Some (Inr [x'])
                              else split_range_at E ts t grp path nls (cb_start x') (cb_end x')
                                     (level_subdivide path level) (entity_ids x') })
              | _ \<Rightarrow>
                  collect (\<lambda>x.
                    (case validate_boundary x a b t of
                       Inl e \<Rightarrow> Some (Inl e)
                     | Inr _ \<Rightarrow>
                         let x' = inherit_ids inherit x in
                         do { piece \<leftarrow> slice t (cb_start x') (cb_end x');
                              if body_limit (ts_budget ts path) > 0
                                 \<and> path_cost E piece path > body_limit (ts_budget ts path)
                              then split_range_at E ts t grp path nls (cb_start x') (cb_end x')
                                     (level_subdivide path level) (entity_ids x')
                              else Some (Inr [x']) })) bs) })"
  by pat_completeness auto
termination
  by (relation "measure (\<lambda>(E, ts, t, grp, path, nls, a, b, level, inherit). level_rank level)")
    (auto simp: level_next_rank level_subdivide_rank)

declare split_range_at.simps [simp del]

definition try_split_range :: "env \<Rightarrow> TextSplitter \<Rightarrow> utext \<Rightarrow> EntityGroup \<Rightarrow> SplitStrategy \<Rightarrow> ChunkPath
    \<Rightarrow> NlEntityBoundary list option \<Rightarrow> nat \<Rightarrow> nat \<Rightarrow> (SplitError + ChunkBoundary list) option" where
  "try_split_range E ts t grp strategy path nls a b =
     (case validate_range t a b of
        Inl e \<Rightarrow> Some (Inl e)
      | Inr _ \<Rightarrow>
          do { r \<leftarrow> split_range_at E ts t grp path nls a b (from_strategy strategy) [];
               Some (case r of Inl e \<Rightarrow> Inl e
                     | Inr bs \<Rightarrow> (case validate_partition bs t a b of Inl e \<Rightarrow> Inl e | Inr _ \<Rightarrow> Inr bs)) })"

section \<open>The recursion partitions its range\<close>

lemma inherit_ids_simps [simp]:
  "cb_range (inherit_ids ids x) = cb_range x" "cb_start (inherit_ids ids x) = cb_start x"
  "cb_end (inherit_ids ids x) = cb_end x"
  by (simp_all add: inherit_ids_def)

lemma map_range_inherit [simp]: "map (cb_range \<circ> inherit_ids ids) bs = map cb_range bs"
  by (induction bs) simp_all

lemma partitions_Cons:
  "partitions t a (x # xs) b \<longleftrightarrow> cb_start x = a \<and> cb_start x < cb_end x
     \<and> is_char_boundary t (cb_start x) \<and> is_char_boundary t (cb_end x) \<and> partitions t (cb_end x) xs b"
  by (simp only: list.map cb_range_def [of x] covers.simps)

lemma validate_boundary_ok:
  assumes "partitions t a bs b" and "x \<in> set bs"
  shows "validate_boundary x a b t = Inr ()"
proof -
  have "(cb_start x, cb_end x) \<in> set (map cb_range bs)" using assms(2) by (auto simp: cb_range_def)
  from covers_piece [OF assms(1) this] show ?thesis
    using boundary_le [of t "cb_end x"] by (auto simp: validate_boundary_def)
qed

definition nls_ok :: "utext \<Rightarrow> NlEntityBoundary list option \<Rightarrow> bool" where
  "nls_ok t nls = (case nls of None \<Rightarrow> True | Some nl \<Rightarrow> nl_valid t nl)"

lemma partition_at_ok:
  assumes "level \<noteq> TokensLevel" and "nls_ok t nls" and "\<not> bad_range t a b"
  shows "\<exists>bs. partition_at E ts level t grp path nls a b = Some bs \<and> (bs = [] \<or> partitions t a bs b)"
proof -
  have ab: "is_char_boundary t a" "is_char_boundary t b" "a \<le> b" using assms(3) by (auto simp: bad_range_def)
  show ?thesis
    using assms(1,2) nested.source_ok [OF _ ab] sentences.source_ok [OF _ ab]
      paragraphs.source_ok [OF _ ab] members.source_ok [OF _ ab]
    by (cases level) (auto simp: partition_at_def nls_ok_def Let_def split: option.split)
qed

lemma partitions_concat:
  assumes "partitions t a xs b"
    and "\<And>x. x \<in> set xs \<Longrightarrow> partitions t (cb_start x) (h x) (cb_end x)"
  shows "partitions t a (concat (map h xs)) b"
  using assms
proof (induction xs arbitrary: a)
  case (Cons x xs)
  have "cb_start x = a" "partitions t (cb_end x) xs b" using Cons.prems(1) by (auto simp only: partitions_Cons)
  thus ?case using Cons.IH Cons.prems(2) [of x] Cons.prems(2) by (auto intro: covers_append)
qed simp

abbreviation good_pieces :: "env \<Rightarrow> TextSplitter \<Rightarrow> ChunkPath \<Rightarrow> utext \<Rightarrow> ChunkBoundary list \<Rightarrow> bool" where
  "good_pieces E ts path t bs \<equiv> prefix_monotone E (path_unit path) \<longrightarrow>
     list_all (\<lambda>x. piece_fits E (path_unit path) (body_limit (ts_budget ts path)) t (cb_range x)) bs"

lemma single_piece_fits:
  assumes "slice t (cb_start x) (cb_end x) = Some p"
    and "body_limit (ts_budget ts path) = 0 \<or> path_cost E p path \<le> body_limit (ts_budget ts path)"
  shows "piece_fits E (path_unit path) (body_limit (ts_budget ts path)) t (cb_range x)"
  using assms by (simp add: piece_fits_def cb_range_def fits_def path_cost_def)

lemma split_range_at_ok:
  assumes "nls_ok t nls" and "\<not> bad_range t a b"
  shows "\<exists>bs. split_range_at E ts t grp path nls a b level inherit = Some (Inr bs)
     \<and> partitions t a bs b \<and> good_pieces E ts path t bs"
  using assms(2)
proof (induction "level_rank level" arbitrary: a b level inherit rule: less_induct)
  case less
  have ab: "is_char_boundary t a" "is_char_boundary t b" "a \<le> b" using less(2) by (auto simp: bad_range_def)
  note unf = split_range_at.simps [of E ts t grp path nls a b level inherit] if_not_P [OF less(2)]
  show ?case
  proof (cases "level = TokensLevel")
    case True
    obtain bs where bs: "split_by_tokens_in_range E t a b path (effective_config ts path) = Some bs"
      "partitions t a bs b" "good_pieces E ts path t bs"
      using split_by_tokens_in_range_ok [OF ab, of E path "effective_config ts path"] by auto
    thus ?thesis using bs unfolding unf if_P [OF True] by (auto simp: list_all_iff)
  next
    case False
    obtain bs where bs: "partition_at E ts level t grp path nls a b = Some bs" "bs = [] \<or> partitions t a bs b"
      using partition_at_ok [OF False assms(1) less(2)] by blast
    note unf2 = unf if_not_P [OF False] bs(1) bind.bind_lunit
    let ?L = "body_limit (ts_budget ts path)"
    have sub: "\<exists>ys. split_range_at E ts t grp path nls (cb_start x) (cb_end x) (level_subdivide path level) ids
        = Some (Inr ys) \<and> partitions t (cb_start x) ys (cb_end x) \<and> good_pieces E ts path t ys"
      if "x \<in> set bs" for x ids
    proof -
      have "validate_boundary x a b t = Inr ()" using validate_boundary_ok that bs(2) by (cases "bs = []") auto
      hence "\<not> bad_range t (cb_start x) (cb_end x)"
        by (auto simp: validate_boundary_def bad_range_def split: if_splits)
      from less(1) [OF level_subdivide_rank [OF False] this] show ?thesis .
    qed
    consider (none) "bs = []" | (one) x where "bs = [x]" | (many) x y zs where "bs = x # y # zs"
      by (cases bs; cases "tl bs") auto
    thus ?thesis
    proof cases
      case none
      thus ?thesis unfolding unf2 using less(1) [OF level_next_rank [OF False] less(2)] by simp
    next
      case (one x)
      have p: "partitions t a [x] b" using bs(2) one by simp
      have x: "cb_start x = a" "cb_end x = b" using p by (auto simp: cb_range_def)
      obtain w where w: "slice t a b = Some w" using slice_defined ab by metis
      have v: "validate_boundary x a b t = Inr ()" using validate_boundary_ok [OF p] by simp
      have eq: "split_range_at E ts t grp path nls a b level inherit =
          (if ?L = 0 \<or> path_cost E w path \<le> ?L then Some (Inr [inherit_ids inherit x])
           else split_range_at E ts t grp path nls a b (level_subdivide path level) (entity_ids (inherit_ids inherit x)))"
        unfolding unf2 unfolding one by (simp add: v x w Let_def)
      show ?thesis
      proof (cases "?L = 0 \<or> path_cost E w path \<le> ?L")
        case True
        thus ?thesis using eq p single_piece_fits [of t x w ts path E] x w by simp
      next
        case big: False
        thus ?thesis using eq sub [of x "entity_ids (inherit_ids inherit x)"] one x by simp
      qed
    next
      case (many x0 y0 zs)
      have p: "partitions t a bs b" using bs(2) many by simp
      define g where "g = (\<lambda>x. case validate_boundary x a b t of Inl e \<Rightarrow> Some (Inl e)
          | Inr _ \<Rightarrow> let x' = inherit_ids inherit x in
              do { piece \<leftarrow> slice t (cb_start x') (cb_end x');
                   if ?L > 0 \<and> path_cost E piece path > ?L
                   then split_range_at E ts t grp path nls (cb_start x') (cb_end x')
                          (level_subdivide path level) (entity_ids x')
                   else Some (Inr [x']) })"
      have "\<exists>ys. g x = Some (Inr ys) \<and> partitions t (cb_start x) ys (cb_end x) \<and> good_pieces E ts path t ys"
        if x: "x \<in> set bs" for x
      proof -
        have v: "validate_boundary x a b t = Inr ()" by (rule validate_boundary_ok [OF p x])
        hence xb: "is_char_boundary t (cb_start x)" "is_char_boundary t (cb_end x)" "cb_start x < cb_end x"
          by (auto simp: validate_boundary_def split: if_splits)
        obtain w where w: "slice t (cb_start x) (cb_end x) = Some w"
          using slice_defined [OF _ xb(1,2)] xb(3) by auto
        show ?thesis
        proof (cases "?L > 0 \<and> path_cost E w path > ?L")
          case True
          thus ?thesis using sub [OF x] v w by (simp add: g_def Let_def)
        next
          case small: False
          hence "piece_fits E (path_unit path) ?L t (cb_range x)"
            using single_piece_fits [OF w, of ts path E] by auto
          moreover have "g x = Some (Inr [inherit_ids inherit x])" using small v w by (auto simp: g_def Let_def)
          moreover have "cb_range x = (cb_start x, cb_end x)" by (simp add: cb_range_def)
          ultimately show ?thesis using xb by simp
        qed
      qed
      then obtain h where h: "\<And>x. x \<in> set bs \<Longrightarrow> g x = Some (Inr (h x))
          \<and> partitions t (cb_start x) (h x) (cb_end x) \<and> good_pieces E ts path t (h x)" by metis
      have "split_range_at E ts t grp path nls a b level inherit = collect g bs"
        unfolding unf2 unfolding many list.case g_def ..
      also have "\<dots> = Some (Inr (concat (map h bs)))" using h by (intro collect_ok) blast
      finally show ?thesis using partitions_concat [OF p, of h] h by (auto simp: list_all_iff)
    qed
  qed
qed

lemma partition_check_ok:
  assumes "covers t p (map cb_range bs) b" and "a \<le> p" and "b \<le> blen t"
  shows "partition_check t a b p bs = Inr ()"
  using assms
proof (induction bs arbitrary: p)
  case (Cons x xs)
  have x: "cb_start x = p" "p < cb_end x" "partitions t (cb_end x) xs b" "is_char_boundary t p"
    "is_char_boundary t (cb_end x)" using Cons.prems(1) by (auto simp only: partitions_Cons)
  have "cb_end x \<le> b" using covers_le [OF x(3)] .
  hence "validate_boundary x a b t = Inr ()"
    using x Cons.prems boundary_le by (auto simp: validate_boundary_def)
  thus ?case using Cons.IH [OF x(3)] x Cons.prems by simp
qed simp

lemma try_split_range_ok:
  assumes "nls_ok t nls" and "\<not> bad_range t a b"
  shows "\<exists>bs. try_split_range E ts t grp strategy path nls a b = Some (Inr bs)
     \<and> partitions t a bs b \<and> good_pieces E ts path t bs"
proof -
  obtain bs where bs: "split_range_at E ts t grp path nls a b (from_strategy strategy) [] = Some (Inr bs)"
    "partitions t a bs b" "good_pieces E ts path t bs" using split_range_at_ok [OF assms] by blast
  have vr: "validate_range t a b = Inr ()" using assms(2) by (simp add: validate_range_def)
  have "validate_partition bs t a b = Inr ()"
    using partition_check_ok [OF bs(2), of a] assms(2) vr by (simp add: validate_partition_def bad_range_def)
  thus ?thesis using bs vr by (simp add: try_split_range_def)
qed

section \<open>Segments\<close>

fun segments_from :: "utext \<Rightarrow> nat \<Rightarrow> ChunkBoundary list \<Rightarrow> (SplitError + ChunkSegment list) option" where
  "segments_from t prev_end [] =
     Some (if prev_end \<noteq> blen t then Inl (CoverageShort prev_end (blen t)) else Inr [])"
| "segments_from t prev_end (x # xs) =
     (if cb_start x \<noteq> prev_end then Some (Inl (BoundaryGap prev_end (cb_start x)))
      else if cb_start x \<ge> cb_end x \<or> cb_end x > blen t \<or> \<not> is_char_boundary t (cb_start x)
        \<or> \<not> is_char_boundary t (cb_end x)
      then Some (Inl (InvalidBoundary (cb_start x) (cb_end x)))
      else do { segment_text \<leftarrow> slice t (cb_start x) (cb_end x);
                rest \<leftarrow> segments_from t (cb_end x) xs;
                Some (case rest of Inl e \<Rightarrow> Inl e
                      | Inr segs \<Rightarrow> Inr (\<lparr>seg_boundary = x, seg_text = segment_text\<rparr> # segs)) })"

definition boundaries_to_segments ::
    "ChunkBoundary list \<Rightarrow> utext \<Rightarrow> (SplitError + ChunkSegment list) option" where
  "boundaries_to_segments bs t = segments_from t 0 bs"

text \<open>The test marker of a fragment: the merged markers of the entities it names, or the group's
  when it names none that the group knows.\<close>

definition entity_marker :: "EntityGroup \<Rightarrow> nat \<Rightarrow> TestInfo option" where
  "entity_marker grp i =
     (if eg_header_id grp = Some i then map_option ge_test_info (eg_header grp)
      else map_option ge_test_info (find (\<lambda>m. ge_id m = i) (eg_members grp)))"

definition fragment_test_info :: "EntityGroup \<Rightarrow> nat list \<Rightarrow> TestInfo" where
  "fragment_test_info grp ids =
     (if ids = [] then eg_test_info grp
      else let (info, matched) = foldl (\<lambda>(info, matched) i.
                 case entity_marker grp i of Some m \<Rightarrow> (ti_merge info m, True) | None \<Rightarrow> (info, matched))
                 (ti_unknown, False) ids
           in if matched then info else eg_test_info grp)"

definition absorb :: "env \<Rightarrow> ChunkPath \<Rightarrow> ChunkSegment \<Rightarrow> ChunkSegment \<Rightarrow> ChunkSegment" where
  "absorb E path l s =
     \<lparr>seg_boundary = (seg_boundary l)\<lparr>cb_end := cb_end (seg_boundary s), end_line := end_line (seg_boundary s),
        token_count := path_cost E (seg_text l @ seg_text s) path,
        entity_ids := entity_ids (seg_boundary l) @ entity_ids (seg_boundary s)\<rparr>,
      seg_text = seg_text l @ seg_text s\<rparr>"

definition may_absorb :: "env \<Rightarrow> TextSplitter \<Rightarrow> EntityGroup \<Rightarrow> ChunkPath \<Rightarrow> ChunkSegment \<Rightarrow> ChunkSegment \<Rightarrow> bool" where
  "may_absorb E ts grp path l s =
     (let b = ts_budget ts path;
          same_unit = (entity_ids (seg_boundary l) \<noteq> [] \<and> entity_ids (seg_boundary l) = entity_ids (seg_boundary s))
      in ti_can_merge (fragment_test_info grp (entity_ids (seg_boundary l)))
                      (fragment_test_info grp (entity_ids (seg_boundary s)))
         \<and> can_merge_with_ceiling E (seg_text l) (seg_text s) path (min_limit b)
             (if same_unit then max (pre_injection b) (merge_ceiling b) else merge_ceiling b) same_unit)"

definition merge_step :: "env \<Rightarrow> TextSplitter \<Rightarrow> EntityGroup \<Rightarrow> ChunkPath \<Rightarrow> ChunkSegment list \<Rightarrow> ChunkSegment
    \<Rightarrow> ChunkSegment list" where
  "merge_step E ts grp path merged s =
     (if merged \<noteq> [] \<and> may_absorb E ts grp path (last merged) s
      then butlast merged @ [absorb E path (last merged) s]
      else merged @ [s])"

definition merge_small_segments :: "env \<Rightarrow> TextSplitter \<Rightarrow> EntityGroup \<Rightarrow> ChunkPath \<Rightarrow> ChunkSegment list
    \<Rightarrow> ChunkSegment list" where
  "merge_small_segments E ts grp path segs = foldl (merge_step E ts grp path) [] segs"

definition maybe_merge_segments :: "env \<Rightarrow> TextSplitter \<Rightarrow> EntityGroup \<Rightarrow> ChunkPath \<Rightarrow> ChunkSegment list
    \<Rightarrow> ChunkSegment list" where
  "maybe_merge_segments E ts grp path segs =
     (if respect_boundaries (ts_config ts) then merge_small_segments E ts grp path segs else segs)"

definition split_with_boundaries :: "env \<Rightarrow> TextSplitter \<Rightarrow> utext \<Rightarrow> EntityGroup \<Rightarrow> SplitStrategy \<Rightarrow> ChunkPath
    \<Rightarrow> NlEntityBoundary list option \<Rightarrow> (SplitError + ChunkSegment list) option" where
  "split_with_boundaries E ts t grp strategy path nls =
     do { r \<leftarrow> try_split_range E ts t grp strategy path nls 0 (blen t);
          case r of
            Inl e \<Rightarrow> Some (Inl e)
          | Inr bs \<Rightarrow>
              do { q \<leftarrow> boundaries_to_segments bs t;
                   Some (case q of Inl e \<Rightarrow> Inl e
                         | Inr segs \<Rightarrow> Inr (maybe_merge_segments E ts grp path segs)) } }"

definition ts_split :: "env \<Rightarrow> TextSplitter \<Rightarrow> utext \<Rightarrow> EntityGroup \<Rightarrow> SplitStrategy \<Rightarrow> ChunkPath
    \<Rightarrow> (SplitError + ChunkSegment list) option" where
  "ts_split E ts t grp strategy path = split_with_boundaries E ts t grp strategy path None"

definition split_with_nl_boundaries :: "env \<Rightarrow> TextSplitter \<Rightarrow> utext \<Rightarrow> EntityGroup \<Rightarrow> SplitStrategy \<Rightarrow> ChunkPath
    \<Rightarrow> NlEntityBoundary list \<Rightarrow> (SplitError + ChunkSegment list) option" where
  "split_with_nl_boundaries E ts t grp strategy path nls =
     split_with_boundaries E ts t grp strategy path (Some nls)"

lemma segments_from_ok:
  assumes "partitions t p bs (blen t)" and "is_char_boundary t p"
  shows "\<exists>segs. segments_from t p bs = Some (Inr segs) \<and> map seg_boundary segs = bs
     \<and> slice t p (blen t) = Some (concat (map seg_text segs))
     \<and> list_all (\<lambda>s. slice t (cb_start (seg_boundary s)) (cb_end (seg_boundary s)) = Some (seg_text s)) segs"
  using assms
proof (induction bs arbitrary: p)
  case Nil
  thus ?case using slice_from_append [of t "[]"] by (simp add: slice_from_def)
next
  case (Cons x xs)
  have x: "cb_start x = p" "p < cb_end x" "is_char_boundary t (cb_end x)" "partitions t (cb_end x) xs (blen t)"
    using Cons.prems(1) by (auto simp only: partitions_Cons)
  obtain segs where segs: "segments_from t (cb_end x) xs = Some (Inr segs)" "map seg_boundary segs = xs"
    "slice t (cb_end x) (blen t) = Some (concat (map seg_text segs))"
    "list_all (\<lambda>s. slice t (cb_start (seg_boundary s)) (cb_end (seg_boundary s)) = Some (seg_text s)) segs"
    using Cons.IH [OF x(4,3)] by blast
  obtain w where w: "slice t p (cb_end x) = Some w" using slice_defined [of p "cb_end x" t] x Cons.prems(2) by auto
  show ?case using segs w x Cons.prems(2) boundary_le [OF x(3)] slice_join [OF w segs(3)] by simp
qed

text \<open>Merging concatenates neighbours: the text is unchanged, and each merged segment is a run of
  the input.\<close>

lemma merge_step_text: "concat (map seg_text (merge_step E ts grp path m s)) = concat (map seg_text m) @ seg_text s"
  by (cases m rule: rev_cases) (auto simp: merge_step_def absorb_def)

lemma merge_text: "concat (map seg_text (merge_small_segments E ts grp path segs)) = concat (map seg_text segs)"
proof -
  have "concat (map seg_text (foldl (merge_step E ts grp path) m segs)) = concat (map seg_text m) @ concat (map seg_text segs)" for m
    by (induction segs arbitrary: m) (simp_all add: merge_step_text)
  thus ?thesis by (simp add: merge_small_segments_def)
qed

lemma maybe_merge_text: "concat (map seg_text (maybe_merge_segments E ts grp path segs)) = concat (map seg_text segs)"
  by (simp add: maybe_merge_segments_def merge_text)

text \<open>C10: Splitting a text never fails.  Whatever strategy and path, for every text and every
  list of entity regions that are not empty and lie on character boundaries, the split neither panics
  nor returns an error, so none of the run-time checks of the partition ever fires; the segments
  concatenate to the text, no byte is lost or duplicated, also after small neighbours are merged.\<close>

theorem split_total:
  assumes "nls_ok t nls"
  shows "\<exists>segs. split_with_boundaries E ts t grp strategy path nls = Some (Inr segs)
     \<and> concat (map seg_text segs) = t"
proof -
  have "\<not> bad_range t 0 (blen t)" by (simp add: bad_range_def)
  then obtain bs where bs: "try_split_range E ts t grp strategy path nls 0 (blen t) = Some (Inr bs)"
    "partitions t 0 bs (blen t)" using try_split_range_ok [OF assms] by blast
  obtain segs where segs: "segments_from t 0 bs = Some (Inr segs)" "slice t 0 (blen t) = Some (concat (map seg_text segs))"
    using segments_from_ok [OF bs(2) boundary_0] by blast
  thus ?thesis using bs by (simp add: split_with_boundaries_def boundaries_to_segments_def maybe_merge_text)
qed

section \<open>A small configuration\<close>

definition small_config :: ChunkingConfig where
  "small_config = ChunkingConfig_default\<lparr>max_tokens := 20, min_chunk_tokens := 2\<rparr>"

definition small_splitter :: TextSplitter where
  "small_splitter = with_budgets small_config (budget_with_reserve small_config Embedding 0 0)
     (budget_with_reserve small_config Bm25 0 0)"

definition plain_group :: EntityGroup where
  "plain_group = \<lparr>eg_header = None, eg_header_id = None, eg_members = [], eg_nested = [], eg_test_info = ti_unknown\<rparr>"

lemma small_budget [simp]:
  "ts_budget small_splitter Embedding = budget_with_reserve small_config Embedding 0 0"
  by (simp add: ts_budget_def small_splitter_def with_budgets_def)

lemma small_limits [simp]:
  "path_limit small_config Embedding = 20"
  "min_limit (budget_with_reserve small_config Embedding 0 0) = 2"
  "pre_injection (budget_with_reserve small_config Embedding 0 0) = 20"
  "merge_ceiling (budget_with_reserve small_config Embedding 0 0) = 20"
  by (simp_all add: budget_with_reserve_def path_limit_def small_config_def ChunkingConfig_default_def Let_def)

theorem split_total_witness:
  "\<exists>segs. split_with_boundaries char_env small_splitter [97, 46, 32, 98, 10, 10, 12290] plain_group ByNlEntityBoundaries
       Embedding (Some [\<lparr>nl_entity_id = 1, nl_start = 0, nl_end = 4\<rparr>]) = Some (Inr segs)
     \<and> concat (map seg_text segs) = [97, 46, 32, 98, 10, 10, 12290]"
  by (rule split_total) (simp add: nls_ok_def nl_valid_def boundary_or_past_def len_utf8_def)

end
