(* ===== verification/Chunk_Limits.thy ===== *)
theory Chunk_Limits
  imports Text_Splitter
begin

text \<open>
  What the splitter's output guarantees: pieces and merged segments within the limits, the test
  boundary in merging, the re-split of oversized segments (\<open>segment_limit.rs\<close>), the hard limit on
  finished chunks (\<open>limits.rs\<close>) and the overlap of neighbours (\<open>overlap.rs\<close>).
\<close>

section \<open>Segments within the limit\<close>

lemma can_merge_within:
  "can_merge_with_ceiling E x y path m c su \<Longrightarrow> c \<noteq> 0 \<Longrightarrow> path_cost E (x @ y) path \<le> c"
  by (auto simp: can_merge_with_ceiling_def Let_def split: if_splits)

lemma merge_keeps:
  assumes "list_all P segs" and "\<And>l s. P l \<Longrightarrow> P s \<Longrightarrow> may_absorb E ts grp path l s \<Longrightarrow> P (absorb E path l s)"
  shows "list_all P (merge_small_segments E ts grp path segs)"
proof -
  have "list_all P m \<Longrightarrow> list_all P segs \<Longrightarrow> list_all P (foldl (merge_step E ts grp path) m segs)" for m
  proof (induction segs arbitrary: m)
    case (Cons s segs)
    have "list_all P (merge_step E ts grp path m s)"
      using Cons.prems assms(2) by (cases m rule: rev_cases) (auto simp: merge_step_def)
    thus ?case using Cons by simp
  qed simp
  thus ?thesis using assms(1) by (simp add: merge_small_segments_def)
qed

definition within_limit :: "env \<Rightarrow> ChunkPath \<Rightarrow> nat \<Rightarrow> utext \<Rightarrow> bool" where
  "within_limit E path limit t = (path_cost E t path \<le> limit \<or> length t = 1)"

lemma absorb_within:
  assumes "merge_ceiling (ts_budget ts path) \<le> L" and "pre_injection (ts_budget ts path) \<le> L"
    and "0 < merge_ceiling (ts_budget ts path)" and "may_absorb E ts grp path l s"
  shows "within_limit E path L (seg_text (absorb E path l s))"
proof -
  let ?b = "ts_budget ts path"
  let ?su = "entity_ids (seg_boundary l) \<noteq> [] \<and> entity_ids (seg_boundary l) = entity_ids (seg_boundary s)"
  let ?c = "if ?su then max (pre_injection ?b) (merge_ceiling ?b) else merge_ceiling ?b"
  have "can_merge_with_ceiling E (seg_text l) (seg_text s) path (min_limit ?b) ?c ?su"
    using assms(4) by (simp add: may_absorb_def Let_def)
  hence "path_cost E (seg_text l @ seg_text s) path \<le> ?c" using can_merge_within assms(3) by fastforce
  also have "?c \<le> L" using assms(1,2) by simp
  finally show ?thesis by (simp add: within_limit_def absorb_def)
qed

lemma split_within:
  assumes "nls_ok t nls" and "prefix_monotone E (path_unit path)"
    and "0 < body_limit (ts_budget ts path)" and "body_limit (ts_budget ts path) \<le> L"
    and "merge_ceiling (ts_budget ts path) \<le> L" and "pre_injection (ts_budget ts path) \<le> L"
    and "0 < merge_ceiling (ts_budget ts path)"
  shows "\<exists>segs. split_with_boundaries E ts t grp strategy path nls = Some (Inr segs)
     \<and> concat (map seg_text segs) = t \<and> list_all (\<lambda>s. within_limit E path L (seg_text s)) segs"
proof -
  let ?P = "\<lambda>s. within_limit E path L (seg_text s)"
  have "\<not> bad_range t 0 (blen t)" by (simp add: bad_range_def)
  then obtain bs where bs: "try_split_range E ts t grp strategy path nls 0 (blen t) = Some (Inr bs)"
    "partitions t 0 bs (blen t)"
    "list_all (\<lambda>x. piece_fits E (path_unit path) (body_limit (ts_budget ts path)) t (cb_range x)) bs"
    using try_split_range_ok [OF assms(1)] assms(2) by blast
  obtain segs where segs: "segments_from t 0 bs = Some (Inr segs)" "map seg_boundary segs = bs"
    "slice t 0 (blen t) = Some (concat (map seg_text segs))"
    "list_all (\<lambda>s. slice t (cb_start (seg_boundary s)) (cb_end (seg_boundary s)) = Some (seg_text s)) segs"
    using segments_from_ok [OF bs(2) boundary_0] by blast
  have "?P s" if s: "s \<in> set segs" for s
  proof -
    have "seg_boundary s \<in> set bs" using segs(2) s by (metis image_eqI list.set_map)
    hence "piece_fits E (path_unit path) (body_limit (ts_budget ts path)) t (cb_range (seg_boundary s))"
      using bs(3) by (simp add: list_all_iff)
    moreover have "slice t (cb_start (seg_boundary s)) (cb_end (seg_boundary s)) = Some (seg_text s)"
      using segs(4) s by (simp add: list_all_iff)
    ultimately show ?thesis using assms(3,4)
      by (auto simp: piece_fits_def cb_range_def fits_def within_limit_def path_cost_def)
  qed
  hence "list_all ?P segs" by (simp add: list_all_iff)
  moreover from this have "list_all ?P (merge_small_segments E ts grp path segs)"
    by (rule merge_keeps) (rule absorb_within [OF assms(5,6,7)])
  ultimately have "list_all ?P (maybe_merge_segments E ts grp path segs)"
    by (simp add: maybe_merge_segments_def)
  thus ?thesis using bs segs
    by (simp add: split_with_boundaries_def boundaries_to_segments_def maybe_merge_text)
qed

lemma budget_merge_pos: "0 < merge_ceiling (budget_with_reserve cfg path r d)"
proof (cases "path_limit cfg path = 0")
  case True
  thus ?thesis by (simp add: budget_with_reserve_def usize_max_def)
next
  case False
  thus ?thesis by (auto simp: budget_with_reserve_def Let_def split: ChunkPath.split)
qed


section \<open>Test code stays apart\<close>

abbreviation seg_test :: "EntityGroup \<Rightarrow> ChunkSegment \<Rightarrow> bool" where
  "seg_test grp s \<equiv> is_test (fragment_test_info grp (entity_ids (seg_boundary s)))"

lemma fragment_fold:
  "foldl (\<lambda>(info, matched) i. case entity_marker grp i of Some m \<Rightarrow> (ti_merge info m, True) | None \<Rightarrow> (info, matched))
     (info, matched) ids = (info', matched') \<Longrightarrow>
   (matched' \<longleftrightarrow> matched \<or> (\<exists>i \<in> set ids. entity_marker grp i \<noteq> None))
   \<and> (is_test info' \<longleftrightarrow> is_test info \<or> (\<exists>i \<in> set ids. \<exists>m. entity_marker grp i = Some m \<and> is_test m))"
proof (induction ids arbitrary: info matched)
  case (Cons i ids)
  thus ?case by (cases "entity_marker grp i") auto
qed auto

lemma fragment_is_test:
  "is_test (fragment_test_info grp ids) \<longleftrightarrow>
     (if \<exists>i \<in> set ids. entity_marker grp i \<noteq> None
      then \<exists>i \<in> set ids. \<exists>m. entity_marker grp i = Some m \<and> is_test m
      else is_test (eg_test_info grp))"
proof (cases "ids = []")
  case False
  obtain info matched where f: "foldl (\<lambda>(info, matched) i. case entity_marker grp i of
      Some m \<Rightarrow> (ti_merge info m, True) | None \<Rightarrow> (info, matched)) (ti_unknown, False) ids = (info, matched)"
    by force
  have "\<not> is_test ti_unknown" by (simp add: is_test_def ti_unknown_def)
  thus ?thesis using fragment_fold [OF f] f False by (auto simp: fragment_test_info_def)
qed (simp add: fragment_test_info_def)

lemma fragment_test_append:
  assumes "is_test (fragment_test_info grp xs) = is_test (fragment_test_info grp ys)"
  shows "is_test (fragment_test_info grp (xs @ ys)) = is_test (fragment_test_info grp xs)"
  using assms unfolding fragment_is_test set_append bex_Un by (auto split: if_splits)

definition run_of :: "EntityGroup \<Rightarrow> ChunkSegment \<Rightarrow> ChunkSegment list \<Rightarrow> bool" where
  "run_of grp s run \<longleftrightarrow> run \<noteq> [] \<and> seg_text s = concat (map seg_text run)
     \<and> list_all (\<lambda>x. seg_test grp x = seg_test grp s) run"

lemma absorb_run:
  assumes "run_of grp l run" and "may_absorb E ts grp path l s"
  shows "run_of grp (absorb E path l s) (run @ [s])"
proof -
  have "seg_test grp l = seg_test grp s" using assms(2) by (simp add: may_absorb_def ti_can_merge_def Let_def)
  moreover from fragment_test_append [OF this] have "seg_test grp (absorb E path l s) = seg_test grp l"
    by (simp add: absorb_def)
  ultimately show ?thesis using assms(1) by (auto simp: run_of_def absorb_def list_all_iff)
qed

lemma merge_runs:
  "list_all2 (run_of grp) m runs \<Longrightarrow>
   \<exists>runs'. list_all2 (run_of grp) (foldl (merge_step E ts grp path) m segs) runs' \<and> concat runs' = concat runs @ segs"
proof (induction segs arbitrary: m runs)
  case (Cons s segs)
  have "\<exists>runs1. list_all2 (run_of grp) (merge_step E ts grp path m s) runs1 \<and> concat runs1 = concat runs @ [s]"
  proof (cases "m \<noteq> [] \<and> may_absorb E ts grp path (last m) s")
    case True
    then obtain m' l where m: "m = m' @ [l]" by (metis rev_exhaust)
    then obtain rs r where rs: "runs = rs @ [r]" "list_all2 (run_of grp) m' rs" "run_of grp l r"
      using Cons.prems by (auto simp: list_all2_append1 list_all2_Cons1)
    have "merge_step E ts grp path m s = m' @ [absorb E path l s]" using True m by (simp add: merge_step_def)
    thus ?thesis using rs absorb_run [OF rs(3)] True m
      by (intro exI [of _ "rs @ [r @ [s]]"]) (simp add: list_all2_appendI)
  next
    case False
    hence "merge_step E ts grp path m s = m @ [s]" by (auto simp: merge_step_def)
    moreover have "run_of grp s [s]" by (simp add: run_of_def)
    ultimately show ?thesis using Cons.prems
      by (intro exI [of _ "runs @ [[s]]"]) (simp add: list_all2_appendI)
  qed
  then obtain runs1 where r1: "list_all2 (run_of grp) (merge_step E ts grp path m s) runs1"
    "concat runs1 = concat runs @ [s]" by blast
  from Cons.IH [OF r1(1)] r1(2) show ?case by auto
qed auto

text \<open>C17: Merging never mixes test and production code.  The merged segments correspond to
  consecutive runs of the input segments, in order and without loss, and all segments of a run carry
  the same test status, which is the status of the merged segment.\<close>

theorem merge_respects_test_boundary:
  "\<exists>runs. concat runs = segs \<and> list_all2 (run_of grp) (merge_small_segments E ts grp path segs) runs"
  using merge_runs [of grp "[]" "[]" E ts path segs] by (auto simp: merge_small_segments_def)

text \<open>Packing the fragments of one entity stops after two.  Merging concatenates the entity
  lists, so the merged fragment lists the entity twice and no longer counts as the same unit as the
  next fragment: three fragments of one entity, none of them undersized, come out as two segments even
  though all three together are within the limit up to which fragments of one entity are to be
  packed.\<close>

theorem same_entity_packing_stops:
  assumes "entity_ids (seg_boundary a) = [i]" and "entity_ids (seg_boundary b) = [i]"
    and "entity_ids (seg_boundary c) = [i]"
    and "min_limit (ts_budget ts path) \<le> path_cost E (seg_text c) path"
    and "min_limit (ts_budget ts path) \<le> path_cost E (seg_text a @ seg_text b) path"
    and "path_cost E (seg_text a @ seg_text b) path \<le> pre_injection (ts_budget ts path)"
    and "path_cost E (seg_text a @ seg_text b @ seg_text c) path \<le> pre_injection (ts_budget ts path)"
    and "0 < merge_ceiling (ts_budget ts path)"
  shows "merge_small_segments E ts grp path [a, b, c] = [absorb E path a b, c]"
proof -
  have "may_absorb E ts grp path a b"
    using assms by (auto simp: may_absorb_def can_merge_with_ceiling_def ti_can_merge_def Let_def max_def)
  moreover have "entity_ids (seg_boundary (absorb E path a b)) = [i, i]"
    using assms(1,2) by (simp add: absorb_def)
  hence "\<not> may_absorb E ts grp path (absorb E path a b) c"
    using assms by (auto simp: may_absorb_def can_merge_with_ceiling_def absorb_def Let_def)
  ultimately show ?thesis by (simp add: merge_small_segments_def merge_step_def)
qed

section \<open>Concrete fragments\<close>

definition fragment :: "nat \<Rightarrow> utext \<Rightarrow> ChunkSegment" where
  "fragment s w = \<lparr>seg_boundary = with_entity_ids (boundary_new s (s + blen w) SentenceBoundary) [7], seg_text = w\<rparr>"


theorem same_entity_packing_stops_witness:
  "merge_small_segments char_env small_splitter plain_group Embedding
     [fragment 0 [97, 97, 97], fragment 3 [98, 98, 98], fragment 6 [99, 99, 99]]
   = [absorb char_env Embedding (fragment 0 [97, 97, 97]) (fragment 3 [98, 98, 98]), fragment 6 [99, 99, 99]]
   \<and> path_cost char_env [97, 97, 97, 98, 98, 98, 99, 99, 99] Embedding \<le> 20"
  using same_entity_packing_stops [of "fragment 0 [97, 97, 97]" 7 "fragment 3 [98, 98, 98]" "fragment 6 [99, 99, 99]"
      small_splitter Embedding char_env plain_group]
  by (simp add: fragment_def with_entity_ids_def path_cost_def path_unit_def)

section \<open>Re-splitting oversized segments\<close>

record ChunkInfrastructure =
  infra_config :: ChunkingConfig
  infra_splitter :: TextSplitter
  infra_emb_budget :: ChunkBudget
  infra_bm25_budget :: ChunkBudget

definition infra_budget :: "ChunkInfrastructure \<Rightarrow> ChunkPath \<Rightarrow> ChunkBudget" where
  "infra_budget infra path = (case path of Bm25 \<Rightarrow> infra_bm25_budget infra | Embedding \<Rightarrow> infra_emb_budget infra)"

definition shift_boundaries :: "NlEntityBoundary list \<Rightarrow> nat \<Rightarrow> nat \<Rightarrow> NlEntityBoundary list" where
  "shift_boundaries nls base seg_end =
     map (\<lambda>b. \<lparr>nl_entity_id = nl_entity_id b, nl_start = nl_start b - base, nl_end = nl_end b - base\<rparr>)
       (filter (\<lambda>b. nl_start b < seg_end \<and> nl_end b > base) nls)"

definition rebase_piece :: "ChunkSegment \<Rightarrow> ChunkBoundary \<Rightarrow> (SplitError + ChunkSegment list) option" where
  "rebase_piece seg x =
     (if cb_start x \<ge> cb_end x \<or> cb_end x > blen (seg_text seg)
         \<or> \<not> is_char_boundary (seg_text seg) (cb_start x) \<or> \<not> is_char_boundary (seg_text seg) (cb_end x)
      then Some (Inl (InvalidBoundary (cb_start x) (cb_end x)))
      else let x' = inherit_ids (entity_ids (seg_boundary seg)) x;
               base = cb_start (seg_boundary seg) in
           do { piece \<leftarrow> slice (seg_text seg) (cb_start x) (cb_end x);
                Some (Inr [\<lparr>seg_boundary = x'\<lparr>cb_start := base + cb_start x, cb_end := base + cb_end x\<rparr>,
                            seg_text = piece\<rparr>]) })"

definition re_split_segment :: "env \<Rightarrow> ChunkSegment \<Rightarrow> ChunkPath \<Rightarrow> ChunkInfrastructure \<Rightarrow> EntityGroup
    \<Rightarrow> NlEntityBoundary list \<Rightarrow> (SplitError + ChunkSegment list) option" where
  "re_split_segment E seg path infra grp nls =
     (let base = cb_start (seg_boundary seg);
          shifted = shift_boundaries nls base (base + blen (seg_text seg)) in
      do { r \<leftarrow> try_split_range E (infra_splitter infra) (seg_text seg) grp ByNlEntityBoundaries path
                  (Some shifted) 0 (blen (seg_text seg));
           case r of Inl e \<Rightarrow> Some (Inl e) | Inr bs \<Rightarrow> collect (rebase_piece seg) bs })"

definition enforce_segment_max_limit :: "env \<Rightarrow> ChunkSegment list \<Rightarrow> ChunkPath \<Rightarrow> ChunkInfrastructure \<Rightarrow> EntityGroup
    \<Rightarrow> NlEntityBoundary list \<Rightarrow> (SplitError + ChunkSegment list) option" where
  "enforce_segment_max_limit E segs path infra grp nls =
     (if hard_limit (infra_budget infra path) = 0 then Some (Inr segs)
      else collect (\<lambda>seg. if path_cost E (seg_text seg) path \<le> body_limit (infra_budget infra path)
                          then Some (Inr [seg])
                          else re_split_segment E seg path infra grp nls) segs)"

text \<open>A segment of a full text: its text is the slice its boundary names.\<close>

definition seg_of :: "utext \<Rightarrow> ChunkSegment \<Rightarrow> bool" where
  "seg_of full s \<longleftrightarrow> slice full (cb_start (seg_boundary s)) (cb_end (seg_boundary s)) = Some (seg_text s)"

lemma shift_valid:
  assumes "nl_valid full nls" and "slice full base e = Some w"
  shows "nl_valid w (shift_boundaries nls base (base + blen w))"
proof -
  have e: "e = base + blen w" using slice_blen [OF assms(2)] by auto
  have "nl_start b - base < nl_end b - base \<and> boundary_or_past w (nl_start b - base)
      \<and> boundary_or_past w (nl_end b - base)"
    if b: "b \<in> set nls" "nl_start b < base + blen w" "base < nl_end b" for b
  proof -
    have v: "nl_start b < nl_end b" "boundary_or_past full (nl_start b)" "boundary_or_past full (nl_end b)"
      using assms(1) b(1) by (auto simp: nl_valid_def)
    have le: "e \<le> blen full" using slice_blen [OF assms(2)] by simp
    have at: "boundary_or_past w (p - base)" if p: "boundary_or_past full p" for p
    proof (cases "p \<le> base \<or> e \<le> p")
      case True
      thus ?thesis using e by (auto simp: boundary_or_past_def)
    next
      case False
      hence "is_char_boundary full p" using p le by (auto simp: boundary_or_past_def)
      thus ?thesis using slice_boundary [OF assms(2), of "p - base"] False by (simp add: boundary_or_past_def)
    qed
    show ?thesis using at v b by auto
  qed
  thus ?thesis by (auto simp: nl_valid_def shift_boundaries_def)
qed

lemma rebase_piece_ok:
  assumes "seg_of full seg" and "partitions (seg_text seg) 0 bs (blen (seg_text seg))" and "x \<in> set bs"
  shows "\<exists>p. rebase_piece seg x = Some (Inr [p]) \<and> seg_of full p
     \<and> slice (seg_text seg) (cb_start x) (cb_end x) = Some (seg_text p)"
proof -
  have "(cb_start x, cb_end x) \<in> set (map cb_range bs)" using assms(3) by (auto simp: cb_range_def)
  from covers_piece [OF assms(2) this]
  have x: "cb_start x < cb_end x" "cb_end x \<le> blen (seg_text seg)" "is_char_boundary (seg_text seg) (cb_start x)"
    "is_char_boundary (seg_text seg) (cb_end x)" by auto
  obtain w where w: "slice (seg_text seg) (cb_start x) (cb_end x) = Some w"
    using slice_defined [OF _ x(3,4)] x(1) by auto
  have "slice full (cb_start (seg_boundary seg) + cb_start x) (cb_start (seg_boundary seg) + cb_end x) = Some w"
    using slice_of_slice [OF assms(1) [unfolded seg_of_def] w] .
  thus ?thesis using x w by (auto simp: rebase_piece_def seg_of_def Let_def inherit_ids_def)
qed

lemma re_split_ok:
  assumes "seg_of full seg" and "nl_valid full nls"
  shows "\<exists>ps. re_split_segment E seg path infra grp nls = Some (Inr ps) \<and> list_all (seg_of full) ps
     \<and> concat (map seg_text ps) = seg_text seg
     \<and> (prefix_monotone E (path_unit path) \<longrightarrow> 0 < body_limit (ts_budget (infra_splitter infra) path) \<longrightarrow>
          list_all (\<lambda>p. within_limit E path (body_limit (ts_budget (infra_splitter infra) path)) (seg_text p)) ps)"
proof -
  let ?w = "seg_text seg" and ?ts = "infra_splitter infra"
  have nls: "nls_ok ?w (Some (shift_boundaries nls (cb_start (seg_boundary seg)) (cb_start (seg_boundary seg) + blen ?w)))"
    using shift_valid [OF assms(2) assms(1) [unfolded seg_of_def]] by (simp add: nls_ok_def)
  have nb: "\<not> bad_range ?w 0 (blen ?w)" by (simp add: bad_range_def)
  obtain bs where bs: "try_split_range E ?ts ?w grp ByNlEntityBoundaries path
      (Some (shift_boundaries nls (cb_start (seg_boundary seg)) (cb_start (seg_boundary seg) + blen ?w))) 0 (blen ?w) = Some (Inr bs)"
    "partitions ?w 0 bs (blen ?w)" "good_pieces E ?ts path ?w bs"
    using try_split_range_ok [OF nls nb] by blast
  have "\<forall>x \<in> set bs. \<exists>p. rebase_piece seg x = Some (Inr [p]) \<and> seg_of full p
     \<and> slice ?w (cb_start x) (cb_end x) = Some (seg_text p)" using rebase_piece_ok [OF assms(1) bs(2)] by blast
  then obtain h where h: "\<And>x. x \<in> set bs \<Longrightarrow> rebase_piece seg x = Some (Inr [h x]) \<and> seg_of full (h x)
     \<and> slice ?w (cb_start x) (cb_end x) = Some (seg_text (h x))" by metis
  have "collect (rebase_piece seg) bs = Some (Inr (concat (map (\<lambda>x. [h x]) bs)))"
    by (rule collect_ok) (use h in blast)
  moreover have "concat (map (\<lambda>x. [h x]) bs) = map h bs" by (induction bs) auto
  ultimately have eq: "re_split_segment E seg path infra grp nls = Some (Inr (map h bs))"
    using bs(1) by (simp add: re_split_segment_def Let_def)
  obtain ps where ps: "map (\<lambda>(s, e). slice ?w s e) (map cb_range bs) = map Some ps" "slice ?w 0 (blen ?w) = Some (concat ps)"
    using covers_concat [OF bs(2) boundary_0] by blast
  have "map (\<lambda>(s, e). slice ?w s e) (map cb_range bs) = map Some (map (seg_text \<circ> h) bs)"
    using h by (simp add: cb_range_def comp_def)
  hence "map Some (map (seg_text \<circ> h) bs) = map Some ps" using ps(1) by metis
  hence "map (seg_text \<circ> h) bs = ps" by (metis inj_Some inj_map_eq_map)
  hence "concat (map seg_text (map h bs)) = ?w" using ps(2) by simp
  moreover have "list_all (\<lambda>p. within_limit E path (body_limit (ts_budget ?ts path)) (seg_text p)) (map h bs)"
    if "prefix_monotone E (path_unit path)" "0 < body_limit (ts_budget ?ts path)"
  proof -
    have "within_limit E path (body_limit (ts_budget ?ts path)) (seg_text (h x))" if x: "x \<in> set bs" for x
      using bs(3) h [OF x] x that \<open>prefix_monotone E (path_unit path)\<close> \<open>0 < body_limit (ts_budget ?ts path)\<close>
      by (auto simp: list_all_iff piece_fits_def cb_range_def fits_def within_limit_def path_cost_def
          dest!: bspec split: option.splits)
    thus ?thesis by (simp add: list_all_iff)
  qed
  ultimately show ?thesis using eq h by (intro exI [of _ "map h bs"]) (auto simp: list_all_iff)
qed

text \<open>Enforcing the segment limit never fails and loses nothing: segments cut from a full text
  whose entity regions lie on character boundaries come back as segments of the same text, in order,
  with the same concatenated content; for a cost that never decreases when a text grows, every
  resulting segment costs at most the body limit or is a single character.\<close>

theorem segment_limit_enforced:
  assumes "list_all (seg_of full) segs" and "nl_valid full nls" and "prefix_monotone E (path_unit path)"
    and "ts_budget (infra_splitter infra) path = infra_budget infra path"
    and "0 < hard_limit (infra_budget infra path)" and "0 < body_limit (infra_budget infra path)"
  shows "\<exists>out. enforce_segment_max_limit E segs path infra grp nls = Some (Inr out)
     \<and> list_all (seg_of full) out \<and> concat (map seg_text out) = concat (map seg_text segs)
     \<and> list_all (\<lambda>s. within_limit E path (body_limit (infra_budget infra path)) (seg_text s)) out"
proof -
  let ?L = "body_limit (infra_budget infra path)"
  let ?f = "\<lambda>seg. if path_cost E (seg_text seg) path \<le> ?L then Some (Inr [seg])
                  else re_split_segment E seg path infra grp nls"
  have "\<exists>ps. ?f s = Some (Inr ps) \<and> list_all (seg_of full) ps \<and> concat (map seg_text ps) = seg_text s
      \<and> list_all (\<lambda>p. within_limit E path ?L (seg_text p)) ps" if "s \<in> set segs" for s
  proof (cases "path_cost E (seg_text s) path \<le> ?L")
    case True
    thus ?thesis using that assms(1) by (simp add: list_all_iff within_limit_def)
  next
    case False
    have "seg_of full s" using that assms(1) by (simp add: list_all_iff)
    from re_split_ok [OF this assms(2), of E path infra grp] show ?thesis
      using False assms(3,4,6) by auto
  qed
  then obtain h where h: "\<And>s. s \<in> set segs \<Longrightarrow> ?f s = Some (Inr (h s)) \<and> list_all (seg_of full) (h s)
      \<and> concat (map seg_text (h s)) = seg_text s \<and> list_all (\<lambda>p. within_limit E path ?L (seg_text p)) (h s)"
    by metis
  have "collect ?f segs = Some (Inr (concat (map h segs)))" by (rule collect_ok) (use h in blast)
  hence "enforce_segment_max_limit E segs path infra grp nls = Some (Inr (concat (map h segs)))"
    using assms(5) by (simp add: enforce_segment_max_limit_def)
  moreover have "concat (map seg_text (concat (map h segs))) = concat (map seg_text segs)"
    using h by (induction segs) (auto simp: map_concat)
  ultimately show ?thesis using h by (auto simp: list_all_iff)
qed

definition small_infra :: ChunkInfrastructure where
  "small_infra = \<lparr>infra_config = small_config, infra_splitter = small_splitter,
     infra_emb_budget = budget_with_reserve small_config Embedding 0 0,
     infra_bm25_budget = budget_with_reserve small_config Bm25 0 0\<rparr>"

theorem segment_limit_enforced_witness:
  "\<exists>out. enforce_segment_max_limit char_env [fragment 0 (replicate 50 97)] Embedding small_infra plain_group []
       = Some (Inr out)
     \<and> concat (map seg_text out) = replicate 50 97 \<and> list_all (\<lambda>s. length (seg_text s) \<le> 20) out"
proof -
  have b: "body_limit (infra_budget small_infra Embedding) = 20" "hard_limit (infra_budget small_infra Embedding) = 20"
    by (simp_all add: small_infra_def infra_budget_def budget_with_reserve_def Let_def)
  have sg: "seg_of (replicate 50 97) (fragment 0 (replicate 50 97))"
    by (simp add: seg_of_def fragment_def with_entity_ids_def boundary_new_def)
  obtain out where out: "enforce_segment_max_limit char_env [fragment 0 (replicate 50 97)] Embedding small_infra
      plain_group [] = Some (Inr out)"
    "concat (map seg_text out) = concat (map seg_text [fragment 0 (replicate 50 97)])"
    "list_all (\<lambda>s. within_limit char_env Embedding (body_limit (infra_budget small_infra Embedding)) (seg_text s)) out"
    using segment_limit_enforced [where full = "replicate 50 97" and E = char_env and path = Embedding
        and infra = small_infra and segs = "[fragment 0 (replicate 50 97)]" and nls = "[]" and grp = plain_group]
      sg b by (auto simp: nl_valid_def path_unit_def small_infra_def infra_budget_def)
  have "concat (map seg_text out) = replicate 50 97" using out(2) by (simp add: fragment_def)
  moreover have "list_all (\<lambda>s. length (seg_text s) \<le> 20) out"
    using out(3) b by (fastforce simp: within_limit_def path_cost_def path_unit_def list_all_iff)
  ultimately show ?thesis using out(1) by blast
qed

section \<open>The hard limit on finished chunks\<close>

text \<open>Of a finished chunk the limit reads and writes these fields.\<close>

record ChunkedResult =
  ch_path :: ChunkPath
  ch_text :: utext
  ch_token_count :: nat
  ch_truncated :: bool
  bm25_word_count :: "nat option"

definition pre_injection_warnings :: "env \<Rightarrow> ChunkBudget \<Rightarrow> ChunkedResult list \<Rightarrow> ChunkedResult list" where
  "pre_injection_warnings E b chunks =
     (if pre_injection b = usize_max \<or> hard_limit b = 0 then []
      else filter (\<lambda>c. let actual = unit_cost E (budget_unit b) (ch_text c)
                       in actual > pre_injection b \<and> (hard_limit b = 0 \<or> actual \<le> hard_limit b)) chunks)"

definition enforce_pre_injection_limit :: "env \<Rightarrow> ChunkBudget \<Rightarrow> ChunkedResult list \<Rightarrow> ChunkedResult list \<times> ChunkedResult list" where
  "enforce_pre_injection_limit E b chunks = (chunks, pre_injection_warnings E b chunks)"

definition limit_chunk :: "env \<Rightarrow> ChunkingConfig \<Rightarrow> ChunkedResult \<Rightarrow> ChunkedResult option" where
  "limit_chunk E cfg c =
     (let limit = path_limit cfg (ch_path c);
          actual = path_cost E (ch_text c) (ch_path c) in
      do { c1 \<leftarrow> (if limit > 0 \<and> actual > limit
                  then do { tr \<leftarrow> truncate_to_cost E (ch_text c) (path_unit (ch_path c)) limit;
                            Some (c\<lparr>ch_text := tr, ch_truncated := True\<rparr>) }
                  else Some c);
           let fitted = path_cost E (ch_text c1) (ch_path c1);
               c2 = c1\<lparr>ch_token_count := fitted\<rparr>
           in Some (if bm25_word_count c2 \<noteq> None
                    then c2\<lparr>bm25_word_count := Some (path_cost E (ch_text c2) Bm25)\<rparr> else c2) })"

fun enforce_hard_limit :: "env \<Rightarrow> ChunkingConfig \<Rightarrow> ChunkedResult list \<Rightarrow> ChunkedResult list option" where
  "enforce_hard_limit E cfg [] = Some []"
| "enforce_hard_limit E cfg (c # cs) =
     do { c' \<leftarrow> limit_chunk E cfg c; cs' \<leftarrow> enforce_hard_limit E cfg cs; Some (c' # cs') }"

definition limited :: "env \<Rightarrow> ChunkingConfig \<Rightarrow> ChunkedResult \<Rightarrow> ChunkedResult \<Rightarrow> bool" where
  "limited E cfg c c' \<longleftrightarrow> ch_path c' = ch_path c \<and> prefix (ch_text c') (ch_text c)
     \<and> fits E (path_unit (ch_path c)) (ch_text c') (path_limit cfg (ch_path c))
     \<and> (fits E (path_unit (ch_path c)) (ch_text c) (path_limit cfg (ch_path c)) \<longrightarrow> ch_text c' = ch_text c)
     \<and> (ch_truncated c' \<longleftrightarrow> ch_truncated c \<or> ch_text c' \<noteq> ch_text c)
     \<and> ch_token_count c' = path_cost E (ch_text c') (ch_path c)"

lemma limit_chunk_ok:
  assumes "path_cost E [] (ch_path c) = 0"
  shows "\<exists>c'. limit_chunk E cfg c = Some c' \<and> limited E cfg c c'"
proof (cases "path_limit cfg (ch_path c) > 0 \<and> path_cost E (ch_text c) (ch_path c) > path_limit cfg (ch_path c)")
  case True
  let ?u = "path_unit (ch_path c)" and ?l = "path_limit cfg (ch_path c)"
  obtain m where m: "truncate_to_cost E (ch_text c) ?u ?l = Some (take m (ch_text c))"
    "m = 0 \<or> fits E ?u (take m (ch_text c)) ?l" using truncate_to_cost_ok by blast
  have f: "fits E ?u (take m (ch_text c)) ?l"
    using m(2) assms by (cases "m = 0") (auto simp: fits_def path_cost_def)
  moreover have nf: "\<not> fits E ?u (ch_text c) ?l" using True by (auto simp: fits_def path_cost_def)
  ultimately have "take m (ch_text c) \<noteq> ch_text c" by metis
  thus ?thesis using True m f nf
    by (auto simp: limit_chunk_def limited_def Let_def take_is_prefix path_cost_def)
next
  case False
  thus ?thesis
    by (auto simp: limit_chunk_def limited_def Let_def fits_def path_cost_def)
qed

text \<open>The hard limit keeps every chunk and cuts only tails.  Where the empty text costs
  nothing, enforcement returns one chunk for each, in order, whose text is a prefix of the original
  and fits the limit of its path; a chunk that fits keeps its text; the truncated flag is set exactly
  when something was cut (or was set before); and the token count is the cost of the text that is
  kept.\<close>

theorem hard_limit_enforced:
  assumes "path_cost E [] Bm25 = 0" and "path_cost E [] Embedding = 0"
  shows "\<exists>out. enforce_hard_limit E cfg chunks = Some out \<and> list_all2 (limited E cfg) chunks out"
proof (induction chunks)
  case (Cons c cs)
  have "path_cost E [] (ch_path c) = 0" using assms by (cases "ch_path c") simp_all
  then obtain c' where "limit_chunk E cfg c = Some c'" "limited E cfg c c'" using limit_chunk_ok by blast
  thus ?case using Cons by auto
qed simp

theorem hard_limit_enforced_witness:
  "\<exists>out. enforce_hard_limit char_env small_config
       [\<lparr>ch_path = Embedding, ch_text = replicate 30 97, ch_token_count = 0, ch_truncated = False, bm25_word_count = None\<rparr>]
       = Some out
     \<and> list_all2 (limited char_env small_config)
       [\<lparr>ch_path = Embedding, ch_text = replicate 30 97, ch_token_count = 0, ch_truncated = False, bm25_word_count = None\<rparr>]
       out"
  by (rule hard_limit_enforced)
    (simp_all add: path_cost_def path_unit_def unit_cost_def position_count_def char_env_def segment_text_def
      cap_text_def)

end
