(* ===== verification/Spec2Isabelle.thy ===== *)
theory Spec2Isabelle
  imports Circuit_Breaker Mode_Switch Watch_Queue Retry_Queue Dependency_Cycles Entity_Changes Relation_Queries Snapshot_Closure Layered_Replay Coordinator Admission Chunk_Limits
begin

text \<open>
  A verification development for the Code Context Engine (Rust, under \<^verbatim>\<open>src/crates\<close>).

  \<^bold>\<open>The program.\<close> The engine indexes source repositories and answers code queries. Watchers feed file
  changes into the hot-update path, which debounces them, switches between watching and
  periodic scanning, and queues indexing operations. The operation queue runs one operation
  per project at a time and mirrors it in SQLite checkpoints, so that a crash can be resumed.
  The parser crates extract entities and relations; the code graph keeps a file dependency
  graph and a relation index, which decide what a change affects and in which order files
  are processed. The chunker turns the text of each group of entities into chunks that fit the
  limits of the keyword index and of the embedding provider. The query path retrieves and ranks
  chunks behind a circuit breaker and keeps failed queries in a retry queue. Remote requests pass
  an admission gate with scoped tokens and a rate limit.

  \<^bold>\<open>Theories and sources.\<close>
  \<^item> \<open>Prelude\<close>: words, the monotonic clock, hash iteration order, sorted vectors, and the two
    locales of event-driven machines, \<open>invariant_machine\<close> and \<open>refined_machine\<close>. It models no
    line of the program.
  \<^item> \<open>Circuit_Breaker\<close>: \<^verbatim>\<open>infra/cce-circuit-breaker/src/lib.rs\<close>. The breaker record and its
    operations; an abstract three-state breaker; the code refines it in every run, opens at
    its threshold, fails fast, recovers and reopens.
  \<^item> \<open>Debounce\<close>: \<^verbatim>\<open>app/cce-orchestrator/src/hot_update/debounce.rs\<close> and \<^verbatim>\<open>state.rs\<close>. The debounce
    state, the global wrapper with its read-locked fast path, configuration and builder; the
    fast path is an optimisation only, waiting is bounded by \<^verbatim>\<open>max_wait_time\<close>, the wake-up is
    exact, batches are spaced.
  \<^item> \<open>Mode_Switch\<close>: \<^verbatim>\<open>hot_update/mode_switch.rs\<close> and \<^verbatim>\<open>check_and_update_mode\<close> of
    \<^verbatim>\<open>hot_update/coordinator/change_merger.rs\<close>. The dwell-time check equals its reference; the
    window holds the last second of events; a burst followed by silence still degrades.
  \<^item> \<open>Watch_Queue\<close>: \<^verbatim>\<open>hot_update/watch_change_queue.rs\<close>. Bounded, without duplicates, lossless up
    to the rescan flag, which is raised exactly on overflow.
  \<^item> \<open>Checkpoint_Repo\<close>: \<^verbatim>\<open>infra/cce-storage-metadb-sqlite/src/repo/checkpoint_repo.rs\<close>, its record
    types and \<^verbatim>\<open>schema/checkpoint.rs\<close>. Tables as lists of rows, each statement as the effect of
    its SQL; keys, checks and foreign keys are an invariant of all writes; piecewise upserts,
    stale detection and expiry are exact.
  \<^item> \<open>Operation_Queue\<close>: \<^verbatim>\<open>app/cce-orchestrator/src/operation/queue.rs\<close> and
    \<^verbatim>\<open>core/cce-types/src/types/operation_kind.rs\<close>. The priority queue, the active slot and its
    transactions. The locale \<open>active_store\<close> is what the queue relies on in its store,
    interpreted by the repository; with it the single-active property holds in every run whose
    releases succeed. The bucket specification, rollback, crash reload and draining; the two
    ways in which the guarantees break (a failed release, an enqueue inside a dequeue).
  \<^item> \<open>Checkpoint_Manager\<close>: \<^verbatim>\<open>operation/checkpoint/mod.rs\<close> and \<^verbatim>\<open>operation/file_diff.rs\<close>. The transactions of
    the manager over the repository; a failed transaction leaves the database as it was.
  \<^item> \<open>File_Indexer\<close>: \<^verbatim>\<open>index/file_indexer.rs\<close>. Sorting, digest, batches and the validation of a stored
    checkpoint; the batches partition the files, the scan order is irrelevant, an unchanged tree
    can be resumed.
  \<^item> \<open>Recovery\<close>: \<^verbatim>\<open>operation/recovery.rs\<close>. Recovery plans are exact on the stored rows, and miss the
    batches that were never started.
  \<^item> \<open>Coordinator\<close>: \<^verbatim>\<open>operation/coordinator.rs\<close>. Startup, requests and completion over the queue, the
    checkpoint manager and the recovery manager; replaying the unfinished operations is exact, a
    completed operation is never recovered, a running one is queued twice by a restart.
  \<^item> \<open>Rust_Strings\<close>: the string operations of the standard library that the sources use.
  \<^item> \<open>Project_Path\<close>: \<^verbatim>\<open>core/cce-types/src/path.rs\<close>. Normalisation is canonical, relativising strips the
    root, group ids are injective on paths without underscores before separators.
  \<^item> \<open>Dependency_Graph\<close>: \<^verbatim>\<open>parser/cce-codegraph/src/dependency_graph.rs\<close>. The two edge maps refine
    one relation; the topological sort decides acyclicity and orders dependencies first; the
    breadth-first collection returns exactly the files within the depth bound.
  \<^item> \<open>Dependency_Cycles\<close>: the depth-first searches of the same file. They return; \<^verbatim>\<open>has_cycle\<close> decides
    cycles, \<^verbatim>\<open>find_all_cycles\<close> is sound and finds some cycle when there is one, but not all.
  \<^item> \<open>Relation_Types\<close>: \<^verbatim>\<open>core/cce-types/src/types\<close>, files \<^verbatim>\<open>position.rs\<close>, \<^verbatim>\<open>entity/id.rs\<close> and
    \<^verbatim>\<open>relation/classification.rs\<close>. Spans and their line numbers, relation types, their text form
    and their domains.
  \<^item> \<open>Entity_Model\<close>: \<^verbatim>\<open>entity/kind.rs\<close>, \<^verbatim>\<open>entity/full.rs\<close> and \<^verbatim>\<open>stdlib_category.rs\<close> there. Entities, their
    kinds and the classification predicates.
  \<^item> \<open>Entity_Changes\<close>: \<^verbatim>\<open>hot_update/change\<close>, the conversion of stored rows in
    \<^verbatim>\<open>hot_update/file_processor.rs\<close> and \<^verbatim>\<open>index/storage_coordinator/entities.rs\<close>, and the coalescing of
    \<^verbatim>\<open>change_merger.rs\<close>. The comparison of entity lists is exact; the stored kinds do not survive.
  \<^item> \<open>Symbol_Key\<close>: \<^verbatim>\<open>relation/canonical.rs\<close>. Keys and their stable ids, with SHA-256 as a parameter.
  \<^item> \<open>Edge_Set\<close>: \<^verbatim>\<open>parser/cce-codegraph/src/index/core/edge_set.rs\<close> and \<^verbatim>\<open>relation/resolved.rs\<close>. The
    deduplicating edge set refines an ordered list with a linear duplicate check.
  \<^item> \<open>Relation_Index\<close>: \<^verbatim>\<open>parser/cce-codegraph/src/index\<close>, files \<^verbatim>\<open>core.rs\<close>, \<^verbatim>\<open>entity_index.rs\<close>,
    \<^verbatim>\<open>file_index.rs\<close>, \<^verbatim>\<open>relation_query.rs\<close> and \<^verbatim>\<open>stores\<close>. The index record and its operations.
    \<open>Relation_Graph\<close>: edges and reverse entries as relations, and what each operation does to
    them. \<open>Relation_Entities\<close>: the name and start-row indexes. \<open>Relation_Machine\<close>: the file-level
    edges, the effect of \<^verbatim>\<open>remove_file\<close>, and the invariants of the two machines of events (building,
    and building with removals). \<open>Relation_Queries\<close>: the queries are exact, the validation decides
    consistency, and what a removal leaves behind.
  \<^item> \<open>Relation_Delta\<close>: \<^verbatim>\<open>delta.rs\<close> and \<^verbatim>\<open>delta\<close> there, with the delta types of \<^verbatim>\<open>relation/canonical.rs\<close>.
    Computing the difference of two indexes and applying it. \<open>Delta_Replay\<close>: the steps of the
    replay as relations on entities and edges; a delta without renames reproduces the candidate
    in its scope. \<open>Delta_Effects\<close>: files and dependencies, and where the replay goes wrong: it
    blocks on a shared shard, it takes neighbouring entities for renamed ones after a reparse,
    and it leaves the hash of a changed file as it was.
  \<^item> \<open>Snapshot_Index\<close>: \<^verbatim>\<open>snapshot_index.rs\<close>, \<^verbatim>\<open>snapshot_index/query_optimized.rs\<close>,
    \<^verbatim>\<open>snapshot_view/snapshot_view_impl.rs\<close> and \<^verbatim>\<open>snapshot_query/snapshot_impls.rs\<close> there. The published
    snapshot with its precomputed indexes. \<open>Snapshot_Closure\<close>: its queries are those of the index,
    and its transitive file queries lie between the bounded reach and the closure of the links.
  \<^item> \<open>Layered_View\<close>: \<^verbatim>\<open>snapshot_view/layered_view_impl.rs\<close>, \<^verbatim>\<open>snapshot_query/layered_impls.rs\<close> and the
    merging of \<^verbatim>\<open>snapshot_index/snapshot_builder.rs\<close>. A base and a chain of deltas, merged on reading.
    \<open>Layered_Merge\<close>: the merges as one operation on maps. \<open>Layered_Replay\<close>: the merged entities,
    files, names and edges are those of the replayed index, and a computed delta meets what that
    relies on; the callers of a callee and the transitive file queries are not.
  \<^item> \<open>Retry_Queue\<close>: \<^verbatim>\<open>app/cce-orchestrator/src/query/retry_queue.rs\<close>. Drains are exact; the retry
    limit never applies.

  \<^item> \<open>Rust_Parse\<close>: trimming, splitting and integer parsing of the standard library.
  \<^item> \<open>Admission\<close>: \<^verbatim>\<open>app/cce-admission/src\<close>. Tokens, scopes, configuration, the gate and its rate limit.
    Only configured tokens are admitted and only within their scope, as far as the request is
    understood; a query argument without a value hides a project from the check.
  \<^item> \<open>Unicode_Text\<close>: strings as character sequences with byte positions; slicing off a character
    boundary is a panic. \<open>Text_Utils\<close>: \<^verbatim>\<open>core/cce-utils/src/text.rs\<close>.
  \<^item> \<open>Segmenter\<close> and \<open>Text_Budget\<close>: \<^verbatim>\<open>core/cce-text/src/segment.rs\<close> and \<^verbatim>\<open>budget.rs\<close>. The token stream of the
    keyword index, the cost of a text, the longest prefix and suffix within a limit, and the cut
    into pieces that fit.
  \<^item> \<open>Chunk_Config\<close>: the chunking part of \<^verbatim>\<open>core/cce-config/src/modules/ast_to_nl.rs\<close>. The budget of a
    path adds up to its limit. \<open>Test_Info\<close>: \<^verbatim>\<open>core/cce-types/src/types/test_info.rs\<close>.
  \<^item> \<open>Chunk_Boundary\<close>, \<open>Token_Cut\<close>, \<open>Split_Strategies\<close>, \<open>Member_Split\<close>: \<^verbatim>\<open>boundary.rs\<close> and \<^verbatim>\<open>strategies\<close> under
    \<^verbatim>\<open>parser/cce-parser/src/ast_to_nl/chunker\<close>. The five boundary sources; each partitions the range
    it is given, which is the contract of the locale \<open>boundary_source\<close>, interpreted by all five.
  \<^item> \<open>Text_Splitter\<close>: \<^verbatim>\<open>splitter.rs\<close> there. The split recursion over the sources, its run-time checks, and
    the merging of small segments. The split is total and loses nothing.
  \<^item> \<open>Chunk_Limits\<close>: \<^verbatim>\<open>segment_limit.rs\<close>, \<^verbatim>\<open>limits.rs\<close> and the fragment markers of \<^verbatim>\<open>chunk_builder.rs\<close>. Every
    segment is within its budget, test code is never merged with production code, and packing the
    fragments of one entity stops after two.

  \<^bold>\<open>Conventions.\<close> A struct is a record, an enum a datatype, \<^verbatim>\<open>Result\<close> a sum with the error on the
  left. A method on \<^verbatim>\<open>&self\<close> behind a lock, or on \<^verbatim>\<open>&mut self\<close>, takes and returns the state; a run is
  a fold of such steps over events, so every interleaving of whole critical sections is a run,
  and an operation that releases its lock midway is split there (\<open>dequeue_reserve\<close>,
  \<open>dequeue_persist\<close>, \<open>dequeue_rollback\<close>). Clocks, hash iteration order, driver faults and
  third-party parsers are arguments, the assignment of keys to the shards of a \<^verbatim>\<open>DashMap\<close> is one
  (a replay that blocks on a shard is \<^const>\<open>None\<close>), as are the Unicode tables, the dictionary segmenter and the
  token estimator of the chunker. Where the source slices strings by byte positions, a function
  returns an option and \<^const>\<open>None\<close> is the panic. Logging and metrics sinks are omitted.

  \<^bold>\<open>Loops and bounds.\<close> No fuel is used. Loops over lists are structural or have a measure
  (\<open>retain_loop\<close>); loops over byte positions advance by at least one character, and the split
  recursion descends a ladder of five levels; Kahn's loop, the breadth-first loop and the two depth-first searches are
  \<open>partial_function (option)\<close> and are shown to return: the first processes each file of the list
  once, the others each file of the graph once. Counters that can wrap are words: the breaker's \<^verbatim>\<open>u32\<close> counts saturate, the
  graph's version and the metrics wrap at 64 bits. \<open>MAX_PENDING_OPERATIONS\<close> (64), the watch
  capacity (4096) and the retry queue bound (1024) are the constants of the code.

  \<^bold>\<open>Not modelled, and why.\<close> Parsers and extractors (tree-sitter grammars outside the source); HTTP,
  CLI, MCP and gateway layers, scanners and file watchers (I/O); BM25, Qdrant, PostgreSQL and LLM
  clients (third-party services); ranking scores and the impact score (floating point);
  the remaining configuration, logging and metrics registries; the coordinator's timed wait and
  message log; headers, overviews and terminology injection of the chunker (text formatting).
  Planned next, in this order: cross-group merging and overlap of chunks; the canonical form
  and the fingerprint of a snapshot (\<^verbatim>\<open>snapshot_builder.rs\<close>) and the symbol resolver; exclude rules and
  globs; the event loop manager and the configuration versions of the hot update.
\<close>

end
